(* ===== verification/Prelude.thy ===== *)
theory Prelude
  imports Main "HOL-Library.AList" "HOL-Library.Multiset"
begin

text \<open>
  What every component of the development shares: Go errors as values, Go maps as association
  lists behind an interface locale, and the generic facts about sums, counts and filters over map
  entries that carry the invariant proofs.

  A Go map is an association list with distinct keys. The order of the list is the order in which
  a \<open>range\<close> loop visits the entries; Go leaves that order open, so no theorem fixes it, and the
  step relations of the stateful components have a rule that permutes it.
\<close>

named_theorems res_simps \<open>evaluation of error results\<close>
named_theorems map_simps \<open>lookups in updated Go maps\<close>
named_theorems wf_intros \<open>well-formedness of updated Go maps\<close>

section \<open>Errors and results\<close>

text \<open>
  The sentinel errors of \<open>renderjob\<close>, \<open>studio\<close> and \<open>persistence\<close>, the context errors, and every
  other \<open>errors.New\<close> by its text.
\<close>

datatype err =
    ErrBusy
  | ErrExpired
  | ErrConflict
  | ErrUnavailable
  | ErrNotExist
  | ErrContext
  | ErrMsg string

type_synonym 'a res = "err + 'a"

fun bind_res :: "'a res \<Rightarrow> ('a \<Rightarrow> 'b res) \<Rightarrow> 'b res" where
  "bind_res (Inl e) f = Inl e"
| "bind_res (Inr a) f = f a"

lemma bind_res_Inr_iff [res_simps]:
  "bind_res r f = Inr b \<longleftrightarrow> (\<exists>a. r = Inr a \<and> f a = Inr b)"
  by (cases r) auto

lemma bind_res_Inl_iff [res_simps]:
  "bind_res r f = Inl e \<longleftrightarrow> r = Inl e \<or> (\<exists>a. r = Inr a \<and> f a = Inl e)"
  by (cases r) auto

lemma bind_res_cong [fundef_cong]:
  "r = r' \<Longrightarrow> (\<And>a. r' = Inr a \<Longrightarrow> f a = f' a) \<Longrightarrow> bind_res r f = bind_res r' f'"
  by (cases r') auto

text \<open>A loop that maps a fallible step over a slice and stops at the first error.\<close>

fun map_res :: "('a \<Rightarrow> 'b res) \<Rightarrow> 'a list \<Rightarrow> 'b list res" where
  "map_res f [] = Inr []"
| "map_res f (x # xs) = bind_res (f x) (\<lambda>y. bind_res (map_res f xs) (\<lambda>ys. Inr (y # ys)))"

lemma map_res_Inr_iff:
  "map_res f xs = Inr ys \<longleftrightarrow> list_all2 (\<lambda>x y. f x = Inr y) xs ys"
proof (induction xs arbitrary: ys)
  case Nil
  then show ?case by auto
next
  case (Cons x xs)
  then show ?case by (cases ys) (auto simp: res_simps)
qed

lemma map_res_length: "map_res f xs = Inr ys \<Longrightarrow> length ys = length xs"
  by (simp add: map_res_Inr_iff list_all2_lengthD)

section \<open>Sums and counts over entries\<close>

definition tot :: "('k \<Rightarrow> 'v \<Rightarrow> int) \<Rightarrow> ('k \<times> 'v) list \<Rightarrow> int" where
  "tot f es = (\<Sum>(k, v)\<leftarrow>es. f k v)"

definition cnt :: "('k \<Rightarrow> 'v \<Rightarrow> bool) \<Rightarrow> ('k \<times> 'v) list \<Rightarrow> int" where
  "cnt P es = int (length (filter (\<lambda>(k, v). P k v) es))"

lemma tot_Nil [simp]: "tot f [] = 0"
  and tot_Cons [simp]: "tot f ((k, v) # es) = f k v + tot f es"
  and tot_append [simp]: "tot f (es @ es') = tot f es + tot f es'"
  by (simp_all add: tot_def)

lemma cnt_Nil [simp]: "cnt P [] = 0"
  and cnt_Cons [simp]: "cnt P ((k, v) # es) = (if P k v then 1 else 0) + cnt P es"
  and cnt_append [simp]: "cnt P (es @ es') = cnt P es + cnt P es'"
  by (simp_all add: cnt_def)

lemma cnt_eq_tot: "cnt P es = tot (\<lambda>k v. if P k v then 1 else 0) es"
  by (induction es) auto

lemma cnt_nonneg [simp]: "0 \<le> cnt P es"
  by (simp add: cnt_def)

lemma cnt_le_length: "cnt P es \<le> int (length es)"
  by (simp add: cnt_def)

lemma tot_nonneg: "(\<And>k v. (k, v) \<in> set es \<Longrightarrow> 0 \<le> f k v) \<Longrightarrow> 0 \<le> tot f es"
  by (induction es) (auto intro: add_nonneg_nonneg)

lemma tot_cong: "(\<And>k v. (k, v) \<in> set es \<Longrightarrow> f k v = g k v) \<Longrightarrow> tot f es = tot g es"
  by (induction es) auto

lemma cnt_cong: "(\<And>k v. (k, v) \<in> set es \<Longrightarrow> P k v = Q k v) \<Longrightarrow> cnt P es = cnt Q es"
  by (induction es) auto

lemma cnt_mono: "(\<And>k v. (k, v) \<in> set es \<Longrightarrow> P k v \<Longrightarrow> Q k v) \<Longrightarrow> cnt P es \<le> cnt Q es"
  by (induction es) auto

lemma tot_ge_member:
  "(k, v) \<in> set es \<Longrightarrow> (\<And>k v. (k, v) \<in> set es \<Longrightarrow> 0 \<le> f k v) \<Longrightarrow> f k v \<le> tot f es"
proof (induction es)
  case Nil
  then show ?case by simp
next
  case (Cons e es)
  obtain k' v' where e: "e = (k', v')" by force
  have "0 \<le> tot f es" using Cons.prems(2) by (intro tot_nonneg) auto
  moreover have "0 \<le> f k' v'" using Cons.prems(2) e by auto
  moreover have "(k, v) \<in> set es \<Longrightarrow> f k v \<le> tot f es"
    using Cons.IH Cons.prems(2) by auto
  ultimately show ?case using Cons.prems(1) e by auto
qed

lemma tot_as_sum:
  assumes "distinct (map fst es)"
  shows "tot f es = (\<Sum>k\<in>fst ` set es. f k (the (map_of es k)))"
  using assms
proof (induction es)
  case Nil
  then show ?case by simp
next
  case (Cons e es)
  obtain k v where e: "e = (k, v)" by force
  with Cons.prems have nk: "k \<notin> fst ` set es" and d: "distinct (map fst es)" by auto
  have "(\<Sum>k'\<in>fst ` set es. f k' (the (map_of (e # es) k')))
      = (\<Sum>k'\<in>fst ` set es. f k' (the (map_of es k')))"
    by (rule sum.cong) (use nk e in auto)
  with Cons.IH[OF d] nk e show ?case by simp
qed

lemma tot_perm: "mset es = mset es' \<Longrightarrow> tot f es = tot f es'"
  unfolding tot_def by (metis mset_map sum_mset_sum_list)

lemma cnt_perm: "mset es = mset es' \<Longrightarrow> cnt P es = cnt P es'"
  by (simp only: cnt_eq_tot) (rule tot_perm)

section \<open>The Go map interface\<close>

text \<open>
  What the components rely on when they use a Go map: lookup after store and delete, and that a
  \<open>range\<close> loop visits every entry once. The lemmas about sums and counts after a store or a delete
  follow from these laws alone.
\<close>

locale go_map =
  fixes get :: "'m \<Rightarrow> 'k \<Rightarrow> 'v option"
    and put :: "'k \<Rightarrow> 'v \<Rightarrow> 'm \<Rightarrow> 'm"
    and del :: "'k \<Rightarrow> 'm \<Rightarrow> 'm"
    and entries :: "'m \<Rightarrow> ('k \<times> 'v) list"
    and wf :: "'m \<Rightarrow> bool"
  assumes get_put: "wf m \<Longrightarrow> get (put k v m) = (get m)(k \<mapsto> v)"
    and get_del: "wf m \<Longrightarrow> get (del k m) = (get m)(k := None)"
    and wf_put: "wf m \<Longrightarrow> wf (put k v m)"
    and wf_del: "wf m \<Longrightarrow> wf (del k m)"
    and entries_get: "wf m \<Longrightarrow> map_of (entries m) = get m"
    and entries_distinct: "wf m \<Longrightarrow> distinct (map fst (entries m))"
begin

lemmas specs = get_put get_del wf_put wf_del entries_get entries_distinct

lemma keys_eq: "wf m \<Longrightarrow> fst ` set (entries m) = dom (get m)"
  by (metis dom_map_of_conv_image_fst entries_get)

lemma finite_dom: "wf m \<Longrightarrow> finite (dom (get m))"
  by (metis List.finite_set finite_imageI keys_eq)

lemma entry_iff: "wf m \<Longrightarrow> (k, v) \<in> set (entries m) \<longleftrightarrow> get m k = Some v"
  by (metis entries_distinct entries_get map_of_eq_Some_iff)

lemma tot_get: "wf m \<Longrightarrow> tot f (entries m) = (\<Sum>k\<in>dom (get m). f k (the (get m k)))"
  using tot_as_sum[OF entries_distinct] by (simp add: keys_eq entries_get)

lemma tot_del:
  assumes "wf m"
  shows "tot f (entries (del k m)) =
    tot f (entries m) - (case get m k of None \<Rightarrow> 0 | Some v \<Rightarrow> f k v)"
proof (cases "get m k")
  case None
  then have "(get m)(k := None) = get m" by auto
  then show ?thesis using assms None by (simp add: tot_get wf_del get_del)
next
  case (Some v)
  have "(\<Sum>x\<in>dom (get m). f x (the (get m x)))
      = f k (the (get m k)) + (\<Sum>x\<in>dom (get m) - {k}. f x (the (get m x)))"
    using assms Some by (intro sum.remove) (auto simp: finite_dom)
  moreover have "(\<Sum>x\<in>dom (get m) - {k}. f x (the (((get m)(k := None)) x)))
      = (\<Sum>x\<in>dom (get m) - {k}. f x (the (get m x)))"
    by (rule sum.cong) auto
  ultimately show ?thesis using assms Some by (simp add: tot_get wf_del get_del)
qed

lemma tot_put:
  assumes "wf m"
  shows "tot f (entries (put k v m)) =
    tot f (entries m) - (case get m k of None \<Rightarrow> 0 | Some v0 \<Rightarrow> f k v0) + f k v"
proof -
  have "tot f (entries (del k (put k v m))) = tot f (entries (del k m))"
    using assms by (simp add: tot_get specs)
  then show ?thesis
    using assms by (simp add: tot_del specs)
qed

lemma cnt_put:
  "wf m \<Longrightarrow> cnt P (entries (put k v m)) =
    cnt P (entries m) - (case get m k of None \<Rightarrow> 0 | Some v0 \<Rightarrow> if P k v0 then 1 else 0)
      + (if P k v then 1 else 0)"
  by (simp add: cnt_eq_tot tot_put)

lemma cnt_del:
  "wf m \<Longrightarrow> cnt P (entries (del k m)) =
    cnt P (entries m) - (case get m k of None \<Rightarrow> 0 | Some v0 \<Rightarrow> if P k v0 then 1 else 0)"
  by (simp add: cnt_eq_tot tot_del)

lemma size_put:
  "wf m \<Longrightarrow> int (length (entries (put k v m))) =
    int (length (entries m)) + (if get m k = None then 1 else 0)"
  using cnt_put[of m "\<lambda>_ _. True" k v] by (auto simp: cnt_def split: option.splits)

lemma size_del:
  "wf m \<Longrightarrow> int (length (entries (del k m))) =
    int (length (entries m)) - (if get m k = None then 0 else 1)"
  using cnt_del[of m "\<lambda>_ _. True" k] by (auto simp: cnt_def split: option.splits)

end

type_synonym ('k, 'v) gomap = "('k \<times> 'v) list"

abbreviation mget :: "('k, 'v) gomap \<Rightarrow> 'k \<Rightarrow> 'v option" where
  "mget \<equiv> map_of"

abbreviation mput :: "'k \<Rightarrow> 'v \<Rightarrow> ('k, 'v) gomap \<Rightarrow> ('k, 'v) gomap" where
  "mput \<equiv> AList.update"

abbreviation mdel :: "'k \<Rightarrow> ('k, 'v) gomap \<Rightarrow> ('k, 'v) gomap" where
  "mdel \<equiv> AList.delete"

definition wfm :: "('k, 'v) gomap \<Rightarrow> bool" where
  "wfm m \<longleftrightarrow> distinct (map fst m)"

interpretation gm: go_map mget mput mdel "\<lambda>m. m" wfm
proof (unfold_locales, goal_cases)
  case (1 m k v)
  show ?case by (rule update_conv')
next
  case (2 m k)
  then show ?case by (simp add: delete_conv')
next
  case (3 m k v)
  then show ?case by (simp add: wfm_def distinct_update)
next
  case (4 m k)
  then show ?case by (simp add: wfm_def distinct_delete)
next
  case (5 m)
  show ?case ..
next
  case (6 m)
  then show ?case by (simp add: wfm_def)
qed

lemma wfm_Nil [simp, wf_intros]: "wfm []"
  by (simp add: wfm_def)

lemmas [wf_intros] = gm.wf_put gm.wf_del

lemma mget_put [map_simps]: "mget (mput k v m) k' = (if k' = k then Some v else mget m k')"
  by (simp add: update_conv')

lemma mget_del [map_simps]: "mget (mdel k m) k' = (if k' = k then None else mget m k')"
  by (simp add: delete_conv')

lemma wfm_filter [wf_intros]: "wfm m \<Longrightarrow> wfm (filter P m)"
  by (simp add: wfm_def distinct_map_filter)

lemma mget_filter: "wfm m \<Longrightarrow> mget (filter (\<lambda>(k, v). P k v) m) k =
    (case mget m k of None \<Rightarrow> None | Some v \<Rightarrow> if P k v then Some v else None)"
  unfolding wfm_def by (induction m) (auto split: option.splits simp: map_of_eq_None_iff)

lemma wfm_perm: "wfm m \<Longrightarrow> mset m = mset m' \<Longrightarrow> wfm m'"
  unfolding wfm_def by (metis mset_eq_imp_distinct_iff mset_map)

lemma mget_perm: "wfm m \<Longrightarrow> mset m = mset m' \<Longrightarrow> mget m = mget m'"
  using wfm_perm[of m m'] unfolding wfm_def by (auto intro: map_of_inject_set[THEN iffD2] dest: mset_eq_setD)

end
