(* ===== verification/Float64.thy ===== *)
theory Float64
  imports Prelude "HOL-Library.Log_Nat"
begin

text \<open>
  Go's \<open>float64\<close>: IEEE 754 binary64 values as exact rationals with infinities and NaN, every
  operation rounding to nearest, ties to even. The sign of zero is not represented: the code
  modelled here only adds, multiplies and compares, which never distinguishes the two zeros.
\<close>

named_theorems f64_simps \<open>evaluation of comparisons on floats\<close>

datatype f64 = NaN | Inf bool | Fin rat

text \<open>\<open>Inf True\<close> is minus infinity.\<close>

definition pow2 :: "int \<Rightarrow> rat" where
  "pow2 e = (if 0 \<le> e then 2 ^ nat e else 1 / 2 ^ nat (- e))"

function flog2 :: "int \<Rightarrow> int" where
  "flog2 n = (if n < 2 then 0 else 1 + flog2 (n div 2))"
  by pat_completeness auto
termination
  by (relation "measure nat") auto

declare flog2.simps [simp del]

text \<open>The exponent of a positive rational: the largest \<open>e\<close> with \<open>2\<^sup>e \<le> x\<close>.\<close>

definition ilog2 :: "rat \<Rightarrow> int" where
  "ilog2 x = (let (p, q) = quotient_of x; e = flog2 p - flog2 q
              in if pow2 e \<le> x then e else e - 1)"

definition round_even :: "rat \<Rightarrow> int" where
  "round_even x = (let f = \<lfloor>x\<rfloor>; d = x - of_int f
     in if d < 1 / 2 then f else if 1 / 2 < d then f + 1 else if even f then f else f + 1)"

text \<open>Unit in the last place at magnitude \<open>a\<close>, with gradual underflow at \<open>2\<^sup>-\<^sup>1\<^sup>0\<^sup>7\<^sup>4\<close>.\<close>

definition ulp :: "rat \<Rightarrow> rat" where
  "ulp a = pow2 (max (ilog2 a - 52) (- 1074))"

definition rnd64 :: "rat \<Rightarrow> f64" where
  "rnd64 x = (if x = 0 then Fin 0
     else let u = ulp \<bar>x\<bar>; r = of_int (round_even (\<bar>x\<bar> / u)) * u
          in if pow2 1024 \<le> r then Inf (x < 0) else Fin (if x < 0 then - r else r))"

fun f64_add :: "f64 \<Rightarrow> f64 \<Rightarrow> f64" where
  "f64_add (Fin a) (Fin b) = rnd64 (a + b)"
| "f64_add (Inf s) (Fin b) = Inf s"
| "f64_add (Fin a) (Inf t) = Inf t"
| "f64_add (Inf s) (Inf t) = (if s = t then Inf s else NaN)"
| "f64_add NaN b = NaN"
| "f64_add a NaN = NaN"

fun f64_mul :: "f64 \<Rightarrow> f64 \<Rightarrow> f64" where
  "f64_mul (Fin a) (Fin b) = rnd64 (a * b)"
| "f64_mul (Inf s) (Fin b) = (if b = 0 then NaN else Inf (s \<noteq> (b < 0)))"
| "f64_mul (Fin a) (Inf t) = (if a = 0 then NaN else Inf (t \<noteq> (a < 0)))"
| "f64_mul (Inf s) (Inf t) = Inf (s \<noteq> t)"
| "f64_mul NaN b = NaN"
| "f64_mul a NaN = NaN"

fun f64_less :: "f64 \<Rightarrow> f64 \<Rightarrow> bool" where
  "f64_less (Fin a) (Fin b) \<longleftrightarrow> a < b"
| "f64_less (Inf s) (Fin b) \<longleftrightarrow> s"
| "f64_less (Fin a) (Inf t) \<longleftrightarrow> \<not> t"
| "f64_less (Inf s) (Inf t) \<longleftrightarrow> s \<and> \<not> t"
| "f64_less NaN b \<longleftrightarrow> False"
| "f64_less a NaN \<longleftrightarrow> False"

lemma f64_less_NaN [simp]: "\<not> f64_less a NaN"
  by (cases a) simp_all

definition f64_le :: "f64 \<Rightarrow> f64 \<Rightarrow> bool" where
  "f64_le a b \<longleftrightarrow> f64_less a b \<or> (a = b \<and> a \<noteq> NaN)"

text \<open>Go's operators on \<open>float64\<close> are the type class operators of \<open>f64\<close>.\<close>

instantiation f64 :: "{zero, one, plus, times, ord}"
begin

definition zero_f64 :: f64 where "0 = Fin 0"
definition one_f64 :: f64 where "1 = Fin 1"
definition plus_f64 :: "f64 \<Rightarrow> f64 \<Rightarrow> f64" where "a + b = f64_add a b"
definition times_f64 :: "f64 \<Rightarrow> f64 \<Rightarrow> f64" where "a * b = f64_mul a b"
definition less_f64 :: "f64 \<Rightarrow> f64 \<Rightarrow> bool" where "a < b \<longleftrightarrow> f64_less a b"
definition less_eq_f64 :: "f64 \<Rightarrow> f64 \<Rightarrow> bool" where "a \<le> b \<longleftrightarrow> f64_le a b"

instance ..

end

lemmas f64_ops = zero_f64_def one_f64_def plus_f64_def times_f64_def less_f64_def
  less_eq_f64_def f64_le_def

text \<open>Conversion of an integer, and the constants Go rounds at compile time.\<close>

definition f64_of_int :: "int \<Rightarrow> f64" where
  "f64_of_int n = rnd64 (of_int n)"

text \<open>The values a \<open>float64\<close> can hold: rounding leaves them alone.\<close>

definition is_f64 :: "f64 \<Rightarrow> bool" where
  "is_f64 x \<longleftrightarrow> (case x of Fin q \<Rightarrow> rnd64 q = Fin q | _ \<Rightarrow> True)"

section \<open>Powers of two and the exponent\<close>

lemma pow2_pos [simp]: "0 < pow2 e"
  by (simp add: pow2_def)

lemma pow2_nz [simp]: "pow2 e \<noteq> 0"
  and pow2_nonneg [simp]: "0 \<le> pow2 e"
  using pow2_pos[of e] by linarith+

lemma pow2_add_nat: "pow2 (e + int n) = pow2 e * 2 ^ n"
proof (induction n)
  case (Suc n)
  have step: "pow2 (e' + 1) = pow2 e' * 2" for e'
  proof (cases "0 \<le> e'")
    case True
    then show ?thesis by (simp add: pow2_def nat_add_distrib)
  next
    case False
    define m where "m = nat (- e' - 1)"
    with False have "nat (- e') = Suc m" "nat (- (e' + 1)) = m" by auto
    with False show ?thesis by (cases "e' = - 1") (auto simp: pow2_def)
  qed
  show ?case using step[of "e + int n"] Suc by (simp add: algebra_simps)
qed simp

lemma pow2_mono: "e \<le> e' \<Longrightarrow> pow2 e \<le> pow2 e'"
proof -
  assume "e \<le> e'"
  then have "pow2 e' = pow2 e * 2 ^ nat (e' - e)"
    using pow2_add_nat[of e "nat (e' - e)"] by simp
  moreover have "pow2 e * 1 \<le> pow2 e * 2 ^ nat (e' - e)"
    by (intro mult_left_mono) auto
  ultimately show ?thesis by simp
qed

lemma pow2_diff: "e \<le> e' \<Longrightarrow> pow2 e' = of_int (2 ^ nat (e' - e)) * pow2 e"
  using pow2_add_nat[of e "nat (e' - e)"] by simp

lemma flog2_nonneg: "0 \<le> flog2 n"
proof (induction n rule: flog2.induct)
  case (1 n)
  then show ?case by (cases "n < 2") (auto simp: flog2.simps[of n])
qed

lemma flog2_bounds: "0 < n \<Longrightarrow> pow2 (flog2 n) \<le> of_int n \<and> of_int n < pow2 (flog2 n + 1)"
proof (induction n rule: flog2.induct)
  case (1 n)
  show ?case
  proof (cases "n < 2")
    case True
    with 1 have n: "n = 1" by simp
    moreover have "flog2 1 = 0" by (simp add: flog2.simps)
    ultimately show ?thesis by (simp add: pow2_def)
  next
    case False
    define m where "m = nat (flog2 (n div 2))"
    have e: "flog2 (n div 2) = int m" using flog2_nonneg by (simp add: m_def)
    have p: "pow2 (int k) = of_int (2 ^ k)" for k by (simp add: pow2_def)
    have "pow2 (int m) \<le> of_int (n div 2) \<and> of_int (n div 2) < pow2 (int m + 1)"
      using 1 False e by simp
    then have "2 ^ m \<le> n div 2 \<and> n div 2 < 2 ^ Suc m"
      using p[of m] p[of "Suc m"] by (simp only: of_int_le_iff of_int_less_iff of_nat_Suc add.commute)
    then have "2 ^ Suc m \<le> n \<and> n < 2 ^ Suc (Suc m)" by auto
    then have "pow2 (int (Suc m)) \<le> of_int n \<and> of_int n < pow2 (int (Suc (Suc m)))"
      unfolding p of_int_le_iff of_int_less_iff .
    with False show ?thesis by (simp add: flog2.simps[of n] e add.commute)
  qed
qed

lemma ilog2_bounds:
  assumes "0 < x"
  shows "pow2 (ilog2 x) \<le> x" and "x < pow2 (ilog2 x + 1)"
proof -
  obtain p q where pq: "quotient_of x = (p, q)" by force
  then have x: "x = of_int p / of_int q" and q: "0 < q"
    using quotient_of_div quotient_of_denom_pos by auto
  with assms have p: "0 < p" by (simp add: zero_less_divide_iff)
  define a where "a = nat (flog2 p)"
  define b where "b = nat (flog2 q)"
  have fa: "flog2 p = int a" and fb: "flog2 q = int b"
    using flog2_nonneg by (simp_all add: a_def b_def)
  let ?a = a and ?b = b
  let ?e = "int ?a - int ?b"
  have pb: "(2::rat) ^ ?a \<le> of_int p" "of_int p < (2::rat) ^ Suc ?a"
    using flog2_bounds[OF p] by (auto simp: fa pow2_def nat_add_distrib)
  have qb: "(2::rat) ^ ?b \<le> of_int q" "of_int q < (2::rat) ^ Suc ?b"
    using flog2_bounds[OF q] by (auto simp: fb pow2_def nat_add_distrib)
  have split: "pow2 (int ?b) * pow2 ?e = pow2 (int ?a)"
  proof (cases "?b \<le> ?a")
    case True
    then show ?thesis using pow2_add_nat[of "int ?b" "?a - ?b"] by (simp add: pow2_def nat_diff_distrib)
  next
    case False
    then show ?thesis using pow2_add_nat[of "?e" "?b - ?a"] pow2_add_nat[of "?e" "?b"]
      by (simp add: pow2_def mult.commute)
  qed
  have nn: "pow2 (int n) = 2 ^ n" for n by (simp add: pow2_def)
  have up: "x < pow2 (?e + 1)"
  proof -
    have "of_int p < 2 * (2::rat) ^ ?a" using pb by simp
    also have "\<dots> = 2 ^ ?b * (2 * pow2 ?e)" using split by (simp add: nn)
    also have "\<dots> \<le> of_int q * (2 * pow2 ?e)" using qb by (intro mult_right_mono) (auto simp: less_imp_le)
    finally show ?thesis using q x pow2_add_nat[of ?e 1] by (simp add: pos_divide_less_eq mult.commute)
  qed
  have lo: "pow2 (?e - 1) \<le> x"
  proof -
    have half: "pow2 ?e = pow2 (?e - 1) * 2" using pow2_add_nat[of "?e - 1" 1] by simp
    have "of_int q * pow2 (?e - 1) \<le> 2 * 2 ^ ?b * pow2 (?e - 1)"
      using qb by (intro mult_right_mono) (auto simp: less_imp_le)
    also have "\<dots> = 2 ^ ?a" using split half by (simp add: nn mult.commute mult.left_commute)
    also have "\<dots> \<le> of_int p" by (rule pb)
    finally show ?thesis using q x by (simp add: pos_le_divide_eq mult.commute)
  qed
  show "pow2 (ilog2 x) \<le> x" and "x < pow2 (ilog2 x + 1)"
    using up lo by (auto simp: ilog2_def pq Let_def fa fb)
qed

lemma ilog2_mono: "0 < x \<Longrightarrow> x \<le> y \<Longrightarrow> ilog2 x \<le> ilog2 y"
proof (rule ccontr)
  assume a: "0 < x" "x \<le> y" and "\<not> ilog2 x \<le> ilog2 y"
  then have "pow2 (ilog2 y + 1) \<le> pow2 (ilog2 x)" by (intro pow2_mono) simp
  with ilog2_bounds(1)[of x] ilog2_bounds(2)[of y] a show False by linarith
qed

section \<open>Rounding\<close>

lemma round_even_mono: "x \<le> y \<Longrightarrow> round_even x \<le> round_even y"
proof -
  assume xy: "x \<le> y"
  then have f: "\<lfloor>x\<rfloor> \<le> \<lfloor>y\<rfloor>" by (rule floor_mono)
  have b: "\<lfloor>z\<rfloor> \<le> round_even z \<and> round_even z \<le> \<lfloor>z\<rfloor> + 1" for z
    by (auto simp: round_even_def Let_def)
  show ?thesis
  proof (cases "\<lfloor>x\<rfloor> = \<lfloor>y\<rfloor>")
    case True
    with xy show ?thesis by (auto simp: round_even_def Let_def)
  next
    case False
    with f b[of x] b[of y] show ?thesis by linarith
  qed
qed

lemma round_even_of_int [simp]: "round_even (of_int n) = n"
  by (simp add: round_even_def)

lemma round_even_ge: "of_int n \<le> x \<Longrightarrow> n \<le> round_even x"
  using round_even_mono[of "of_int n" x] by simp

lemma ulp_pos [simp]: "0 < ulp a"
  by (simp add: ulp_def)

text \<open>A representable positive value never exceeds the rounding of a larger one.\<close>

lemma rnd64_ge_representable:
  assumes rep: "rnd64 a = Fin a" and a: "0 < a" and ab: "a \<le> x"
  shows "rnd64 x = Inf False \<or> (\<exists>r. rnd64 x = Fin r \<and> a \<le> r)"
proof -
  define ra where "ra = round_even (a / ulp a)"
  have ra: "a = of_int ra * ulp a"
    using rep a by (simp add: rnd64_def ra_def Let_def split: if_splits)
  let ?u = "ulp x" and ?r = "of_int (round_even (x / ulp x)) * ulp x"
  have "a \<le> ?r"
  proof (cases "ulp a = ?u")
    case True
    have "of_int ra \<le> x / ?u" using ra ab True by (simp add: pos_le_divide_eq)
    then have "ra \<le> round_even (x / ?u)" by (rule round_even_ge)
    then have "of_int ra * ?u \<le> ?r" by (intro mult_right_mono) (auto simp: less_imp_le)
    then show ?thesis using ra True by simp
  next
    case False
    let ?ex = "max (ilog2 x - 52) (- 1074)" and ?ea = "max (ilog2 a - 52) (- 1074)"
    have "ilog2 a \<le> ilog2 x" using a ab by (rule ilog2_mono)
    with False have lt: "ilog2 a < ilog2 x" and ex: "?ex = ilog2 x - 52"
      by (cases "ilog2 a = ilog2 x"; auto simp: ulp_def max_def split: if_splits)+
    have "pow2 (ilog2 x) = of_int (2 ^ 52) * ?u"
      using pow2_diff[of "ilog2 x - 52" "ilog2 x"] ex by (simp add: ulp_def)
    moreover have x: "pow2 (ilog2 x) \<le> x" using ilog2_bounds(1)[of x] a ab by simp
    ultimately have "of_int (2 ^ 52) \<le> x / ?u" by (simp add: pos_le_divide_eq)
    then have "(2::int) ^ 52 \<le> round_even (x / ?u)" by (rule round_even_ge)
    then have "of_int (2 ^ 52) * ?u \<le> ?r" by (intro mult_right_mono) (auto simp del: of_int_power simp: less_imp_le)
    moreover have "a < pow2 (ilog2 a + 1)" using ilog2_bounds(2)[OF a] .
    moreover have "pow2 (ilog2 a + 1) \<le> pow2 (ilog2 x)" using lt by (intro pow2_mono) simp
    ultimately show ?thesis using \<open>pow2 (ilog2 x) = of_int (2 ^ 52) * ?u\<close> by linarith
  qed
  then show ?thesis using a ab by (auto simp: rnd64_def Let_def)
qed

lemma f64_pos_iff: "0 < x \<longleftrightarrow> x = Inf False \<or> (\<exists>q. x = Fin q \<and> 0 < q)"
  by (cases x) (auto simp: f64_ops)

lemma f64_add_pos_ge:
  assumes "is_f64 x" "0 < x" "0 \<le> y"
  shows "x \<le> x + y"
proof -
  consider (inf) "x = Inf False" | (fin) a where "x = Fin a" "0 < a"
    using assms(2) by (auto simp: f64_pos_iff)
  then show ?thesis
  proof cases
    case inf
    with assms(3) show ?thesis by (cases y) (auto simp: f64_ops)
  next
    case fin
    show ?thesis
    proof (cases y)
      case (Fin b)
      with assms(3) have "0 \<le> b" by (auto simp: f64_ops)
      moreover have "rnd64 a = Fin a" using assms(1) fin by (simp add: is_f64_def)
      ultimately show ?thesis
        using rnd64_ge_representable[of a "a + b"] fin Fin by (auto simp: f64_ops)
    qed (use assms(3) fin in \<open>auto simp: f64_ops split: if_splits\<close>)
  qed
qed

lemma f64_le_less_trans: "(x::f64) < y \<Longrightarrow> y \<le> z \<Longrightarrow> x < z"
  by (cases x; cases y; cases z) (auto simp: f64_ops split: if_splits)

lemma f64_order [f64_simps]:
  "x \<le> (y::f64) \<Longrightarrow> y \<le> z \<Longrightarrow> x \<le> z"
  by (cases x; cases y; cases z) (auto simp: f64_ops split: if_splits)

lemma f64_not_le_0: "\<not> x \<le> 0 \<longleftrightarrow> 0 < x \<or> x = NaN"
  by (cases x) (auto simp: f64_ops split: if_splits)

lemma f64_pos_not_le: "0 < (x::f64) \<Longrightarrow> \<not> x \<le> 0"
  by (simp add: f64_not_le_0)

lemma f64_less_imp_le: "(x::f64) < y \<Longrightarrow> x \<le> y"
  by (simp add: f64_ops)

text \<open>The representable values: an integer below \<open>2\<^sup>5\<^sup>3\<close> scaled by a power of two.\<close>

lemma rnd64_exact:
  assumes "0 < n" and "n < 2 ^ 53" and "- 1074 \<le> e" and "of_int n * pow2 e < pow2 1024"
  shows "rnd64 (of_int n * pow2 e) = Fin (of_int n * pow2 e)"
proof -
  let ?x = "of_int n * pow2 e"
  have x: "0 < ?x" using assms by simp
  have "?x < of_int (2 ^ 53) * pow2 e"
    using assms by (intro mult_strict_right_mono) (simp_all only: of_int_less_iff pow2_pos)
  also have "\<dots> = pow2 (e + 53)" using pow2_diff[of e "e + 53"] by simp
  finally have up: "?x < pow2 (e + 53)" .
  have "ilog2 ?x \<le> e + 52"
  proof (rule ccontr)
    assume "\<not> ilog2 ?x \<le> e + 52"
    then have "pow2 (e + 53) \<le> pow2 (ilog2 ?x)" by (intro pow2_mono) simp
    with ilog2_bounds(1)[OF x] up show False by linarith
  qed
  then have le: "max (ilog2 ?x - 52) (- 1074) \<le> e" using assms by simp
  define d where "d = nat (e - max (ilog2 ?x - 52) (- 1074))"
  have pe: "pow2 e = of_int (2 ^ d) * ulp ?x"
    using pow2_diff[OF le] by (simp add: ulp_def d_def)
  have "?x / ulp ?x = of_int (n * 2 ^ d)"
  proof -
    have "?x = of_int (n * 2 ^ d) * ulp ?x" by (subst pe) simp
    moreover have "ulp ?x \<noteq> 0" using ulp_pos[of ?x] by linarith
    ultimately show ?thesis by (metis nonzero_mult_div_cancel_right)
  qed
  then have "round_even (?x / ulp ?x) = n * 2 ^ d" by (simp only: round_even_of_int)
  then have r: "of_int (round_even (?x / ulp ?x)) * ulp ?x = ?x" by (subst (2) pe) simp
  have "\<not> pow2 1024 \<le> ?x" using assms by simp
  then show ?thesis using x r by (simp add: rnd64_def Let_def)
qed

lemma pow2_1024_big: "n < 2 ^ 53 \<Longrightarrow> of_int n < pow2 1024"
proof -
  assume "n < 2 ^ 53"
  then have "(of_int n :: rat) < of_int (2 ^ 53)" unfolding of_int_less_iff .
  also have "\<dots> = pow2 53" by (simp add: pow2_def)
  also have "pow2 53 \<le> pow2 1024" by (rule pow2_mono) simp
  finally show ?thesis .
qed

lemma is_f64_int: "0 < n \<Longrightarrow> n < 2 ^ 53 \<Longrightarrow> is_f64 (Fin (of_int n))"
  using rnd64_exact[of n 0] pow2_1024_big[of n] by (simp add: is_f64_def pow2_def)

lemma is_f64_half: "0 < n \<Longrightarrow> n < 2 ^ 53 \<Longrightarrow> is_f64 (Fin (of_int n / 2))"
proof -
  assume n: "0 < n" "n < 2 ^ 53"
  then have "of_int n / 2 < pow2 1024"
    using pow2_1024_big[of n] by (auto simp: divide_less_eq intro: less_trans[of _ "of_int n"])
  with n show ?thesis
    using rnd64_exact[of n "- 1"] by (simp add: is_f64_def pow2_def)
qed

lemma round_even_le: "x \<le> of_int n \<Longrightarrow> round_even x \<le> n"
  using round_even_mono[of x "of_int n"] by simp

text \<open>Rounding is idempotent: every result of an operation is a value a \<open>float64\<close> holds.\<close>

lemma rnd64_idem_pos:
  assumes x: "0 < x" and r: "rnd64 x = Fin r"
  shows "rnd64 r = Fin r"
proof -
  define e where "e = max (ilog2 x - 52) (- 1074)"
  define k where "k = round_even (x / ulp x)"
  have u: "ulp x = pow2 e" by (simp add: ulp_def e_def)
  have rk: "r = of_int k * pow2 e" and lt: "r < pow2 1024"
    using x r by (auto simp: rnd64_def Let_def k_def u split: if_splits)
  have k0: "0 \<le> k" unfolding k_def using x by (intro round_even_ge) (simp add: less_imp_le)
  have "x < pow2 (ilog2 x + 1)" using ilog2_bounds(2)[OF x] .
  also have "\<dots> \<le> pow2 (e + 53)" by (intro pow2_mono) (simp add: e_def)
  also have "\<dots> = of_int (2 ^ 53) * ulp x" using pow2_diff[of e "e + 53"] u by simp
  finally have "x / ulp x \<le> of_int (2 ^ 53)" using ulp_pos[of x] by (simp add: pos_divide_le_eq)
  then have k53: "k \<le> 2 ^ 53" unfolding k_def by (rule round_even_le)
  consider "k = 0" | "0 < k" "k < 2 ^ 53" | "k = 2 ^ 53" using k0 k53 by linarith
  then show ?thesis
  proof cases
    case 1
    then show ?thesis by (simp add: rk rnd64_def)
  next
    case 2
    then show ?thesis using rnd64_exact[of k e] lt by (simp add: rk e_def)
  next
    case 3
    have "r = of_int (2 ^ 52) * pow2 (e + 1)"
      using 3 pow2_add_nat[of e 1] by (simp add: rk)
    then show ?thesis using rnd64_exact[of "2 ^ 52" "e + 1"] lt by (simp add: e_def)
  qed
qed

lemma rnd64_neg: "rnd64 (- x) = (case rnd64 x of Fin r \<Rightarrow> Fin (- r) | Inf s \<Rightarrow> Inf (\<not> s) | NaN \<Rightarrow> NaN)"
  by (auto simp: rnd64_def Let_def)

lemma rnd64_not_NaN: "rnd64 x \<noteq> NaN"
  by (simp add: rnd64_def Let_def)

lemma is_f64_rnd: "is_f64 (rnd64 x)"
proof -
  consider "x = 0" | "0 < x" | "x < 0" by linarith
  then show ?thesis
  proof cases
    case 1
    then show ?thesis by (simp add: is_f64_def rnd64_def)
  next
    case 2
    then show ?thesis using rnd64_idem_pos[of x] by (auto simp: is_f64_def split: f64.splits)
  next
    case 3
    show ?thesis
    proof (cases "rnd64 (- x)")
      case (Fin r)
      then have "rnd64 r = Fin r" using 3 rnd64_idem_pos[of "- x" r] by simp
      then show ?thesis using Fin rnd64_neg[of "- x"] rnd64_neg[of r] by (simp add: is_f64_def)
    next
      case (Inf s)
      then show ?thesis using rnd64_neg[of "- x"] by (simp add: is_f64_def)
    qed (simp add: rnd64_not_NaN)
  qed
qed

lemma is_f64_add [simp]: "is_f64 a \<Longrightarrow> is_f64 b \<Longrightarrow> is_f64 (a + b)"
  by (cases a; cases b) (simp_all add: plus_f64_def is_f64_rnd, simp_all add: is_f64_def)

lemma is_f64_mul [simp]: "is_f64 (a * b)"
  by (cases a; cases b) (simp_all add: times_f64_def is_f64_rnd, simp_all add: is_f64_def)

lemma is_f64_numeral: "numeral n < (2 ^ 53 :: int) \<Longrightarrow> is_f64 (Fin (numeral n))"
  using is_f64_int[of "numeral n"] by simp

lemma is_f64_small [simp]: "is_f64 (Fin 0)" "is_f64 (Fin 1)"
  using is_f64_int[of 1] by (simp_all add: is_f64_def rnd64_def)

lemma rnd64_one: "rnd64 1 = Fin 1"
  using is_f64_small(2) by (simp add: is_f64_def)

lemma rnd64_nonneg: "0 \<le> x \<Longrightarrow> 0 \<le> rnd64 x"
proof -
  assume x: "0 \<le> x"
  define r where "r = of_int (round_even (\<bar>x\<bar> / ulp \<bar>x\<bar>)) * ulp \<bar>x\<bar>"
  have "0 \<le> round_even (\<bar>x\<bar> / ulp \<bar>x\<bar>)"
    by (intro round_even_ge) (simp add: zero_le_divide_iff less_imp_le)
  then have r: "0 \<le> r" unfolding r_def by (intro mult_nonneg_nonneg) (auto simp: less_imp_le)
  have "rnd64 x = (if x = 0 then Fin 0 else if pow2 1024 \<le> r then Inf False else Fin r)"
    using x by (simp add: rnd64_def r_def Let_def)
  with r show ?thesis by (auto simp: f64_ops)
qed

lemma f64_mul_pos: "0 < (x::f64) \<Longrightarrow> 0 < y \<Longrightarrow> 0 \<le> x * y"
  using rnd64_nonneg by (cases x; cases y) (auto simp: f64_pos_iff times_f64_def, auto simp: f64_ops)

end
