(* ===== verification/Rand.thy ===== *)
theory Rand
  imports Float64 "HOL-Library.Word"
begin

text \<open>
  Go's \<open>math/rand/v2\<close>: the permuted congruential generator behind \<open>rand.NewPCG\<close>, with 128 bits of
  state and 64 bits of output, and \<open>Float64\<close>, which keeps the low 53 bits of one output. Every
  random choice of the artworks is a function of this state, so a seed fixes a composition.
\<close>

unbundle bit_operations_syntax

type_synonym u64 = "64 word"

record pcg =
  pcg_hi :: u64
  pcg_lo :: u64

definition new_pcg :: "u64 \<Rightarrow> u64 \<Rightarrow> pcg" where
  "new_pcg seed1 seed2 = \<lparr>pcg_hi = seed1, pcg_lo = seed2\<rparr>"

definition pcg_mul :: "128 word" where
  "pcg_mul = 2549297995355413924 * 2 ^ 64 + 4865540595714422341"

definition pcg_inc :: "128 word" where
  "pcg_inc = 6364136223846793005 * 2 ^ 64 + 1442695040888963407"

definition pcg_next :: "pcg \<Rightarrow> pcg" where
  "pcg_next p = (let s = (ucast (pcg_hi p) * 2 ^ 64 + ucast (pcg_lo p)) * pcg_mul + pcg_inc
     in \<lparr>pcg_hi = ucast (drop_bit 64 s), pcg_lo = ucast s\<rparr>)"

definition pcg_output :: "pcg \<Rightarrow> u64" where
  "pcg_output p = (let h0 = pcg_hi p; h1 = h0 XOR drop_bit 32 h0; h2 = h1 * 0xda942042e4dd58b5;
       h3 = h2 XOR drop_bit 48 h2 in h3 * (pcg_lo p OR 1))"

definition rand_uint64 :: "pcg \<Rightarrow> u64 \<times> pcg" where
  "rand_uint64 p = (let p' = pcg_next p in (pcg_output p', p'))"

definition rand_float64 :: "pcg \<Rightarrow> f64 \<times> pcg" where
  "rand_float64 p = (let (u, p') = rand_uint64 p
     in (Fin (of_int (uint (drop_bit 11 (push_bit 11 u))) / 2 ^ 53), p'))"

lemma rand_float64_range:
  "\<exists>q. fst (rand_float64 p) = Fin q \<and> 0 \<le> q \<and> q < 1"
proof -
  obtain u p' where u: "rand_uint64 p = (u, p')" by force
  let ?k = "uint (drop_bit 11 (push_bit 11 u))"
  have "?k = uint (push_bit 11 u) div 2 ^ 11"
    by (simp add: drop_bit_eq_div uint_div_distrib)
  moreover have "uint (push_bit 11 u) < 2 ^ 64" using unsigned_less[of "push_bit 11 u"] by simp
  ultimately have k: "?k < 2 ^ 53" by simp
  have "0 \<le> (of_int n :: rat) / 2 ^ 53 \<and> (of_int n :: rat) / 2 ^ 53 < 1"
    if "0 \<le> n" "n < 2 ^ 53" for n
  proof -
    have "(of_int n :: rat) < of_int (2 ^ 53)" using that unfolding of_int_less_iff by simp
    then show ?thesis using that by simp
  qed
  from this[OF _ k] have "0 \<le> (of_int ?k :: rat) / 2 ^ 53 \<and> (of_int ?k :: rat) / 2 ^ 53 < 1" by simp
  moreover have "fst (rand_float64 p) = Fin (of_int ?k / 2 ^ 53)"
    by (simp add: rand_float64_def u)
  ultimately show ?thesis by blast
qed

end
