(* ===== verification/Trait.thy ===== *)
theory Trait
  imports Rand
begin

text \<open>
  \<open>internal/trait\<close>: the output space of an artwork as an ordered list of weighted dimensions.
  \<open>trait.go\<close> draws one value per dimension, boosts weights by what a visitor liked, and names
  files; \<open>options.go\<close> lays explicit choices over a draw.
\<close>

record trait_value =
  v_name :: string
  v_weight :: f64

record dim =
  d_name :: string
  d_key :: string
  d_doc :: string
  d_in_name :: bool
  d_values :: "trait_value list"

type_synonym schema = "dim list"
type_synonym tset = "(string, string) gomap"

section \<open>Dimensions\<close>

definition dim_has :: "dim \<Rightarrow> string \<Rightarrow> bool" where
  "dim_has d value \<longleftrightarrow> list_ex (\<lambda>v. v_name v = value) (d_values d)"

definition value_names :: "dim \<Rightarrow> string list" where
  "value_names d = map v_name (d_values d)"

fun weight_in :: "trait_value list \<Rightarrow> string \<Rightarrow> f64" where
  "weight_in [] value = 0"
| "weight_in (v # vs) value = (if v_name v = value then v_weight v else weight_in vs value)"

definition dim_weight :: "dim \<Rightarrow> string \<Rightarrow> f64" where
  "dim_weight d value = weight_in (d_values d) value"

definition total_weight :: "dim \<Rightarrow> f64" where
  "total_weight d = foldl (\<lambda>sum v. if v_weight v > 0 then sum + v_weight v else sum) 0 (d_values d)"

fun draw_pick :: "f64 \<Rightarrow> f64 \<Rightarrow> trait_value list \<Rightarrow> string option" where
  "draw_pick bisect cum [] = None"
| "draw_pick bisect cum (v # vs) =
     (if v_weight v \<le> 0 then draw_pick bisect cum vs
      else let cum' = cum + v_weight v
           in if cum' > bisect then Some (v_name v) else draw_pick bisect cum' vs)"

text \<open>The rounding fallback scans the values from the last one; \<open>None\<close> is the panic.\<close>

fun draw_last :: "trait_value list \<Rightarrow> string option" where
  "draw_last [] = None"
| "draw_last (v # rvs) = (if v_weight v > 0 then Some (v_name v) else draw_last rvs)"

definition draw :: "dim \<Rightarrow> pcg \<Rightarrow> (string \<times> pcg) option" where
  "draw d rng = (let total = total_weight d in
     if total \<le> 0 then None
     else let (r, rng') = rand_float64 rng; bisect = r * total
          in case draw_pick bisect 0 (d_values d) of
               Some n \<Rightarrow> Some (n, rng')
             | None \<Rightarrow> map_option (\<lambda>n. (n, rng')) (draw_last (rev (d_values d))))"

section \<open>Schemas\<close>

fun schema_dim :: "schema \<Rightarrow> string \<Rightarrow> dim option" where
  "schema_dim [] name = None"
| "schema_dim (d # s) name = (if d_name d = name then Some d else schema_dim s name)"

datatype schema_err =
    EmptyName
  | NoKey string
  | DuplicateDim string
  | DuplicateKey string string
  | NoValues string
  | NoDrawable string
  | EmptyValueName string
  | DuplicateValue string string

fun validate_values :: "string \<Rightarrow> string list \<Rightarrow> trait_value list \<Rightarrow> schema_err option" where
  "validate_values n seen [] = None"
| "validate_values n seen (v # vs) =
     (if v_name v = '''' then Some (EmptyValueName n)
      else if v_name v \<in> set seen then Some (DuplicateValue n (v_name v))
      else validate_values n (v_name v # seen) vs)"

fun validate_from :: "string list \<Rightarrow> string list \<Rightarrow> schema \<Rightarrow> schema_err option" where
  "validate_from names keys [] = None"
| "validate_from names keys (d # s) =
     (if d_name d = '''' then Some EmptyName
      else if d_key d = '''' then Some (NoKey (d_name d))
      else if d_name d \<in> set names then Some (DuplicateDim (d_name d))
      else if d_key d \<in> set keys then Some (DuplicateKey (d_key d) (d_name d))
      else if d_values d = [] then Some (NoValues (d_name d))
      else if total_weight d \<le> 0 then Some (NoDrawable (d_name d))
      else case validate_values (d_name d) [] (d_values d) of
             Some e \<Rightarrow> Some e
           | None \<Rightarrow> validate_from (d_name d # names) (d_key d # keys) s)"

definition schema_validate :: "schema \<Rightarrow> schema_err option" where
  "schema_validate s = validate_from [] [] s"

fun derive_onto :: "tset \<Rightarrow> schema \<Rightarrow> pcg \<Rightarrow> (tset \<times> pcg) option" where
  "derive_onto st [] rng = Some (st, rng)"
| "derive_onto st (d # s) rng =
     (case draw d rng of
        None \<Rightarrow> None
      | Some (n, rng') \<Rightarrow> derive_onto (mput (d_name d) n st) s rng')"

definition derive :: "schema \<Rightarrow> pcg \<Rightarrow> (tset \<times> pcg) option" where
  "derive s rng = derive_onto [] s rng"

definition set_get :: "tset \<Rightarrow> string \<Rightarrow> string" where
  "set_get st k = (case mget st k of None \<Rightarrow> '''' | Some v \<Rightarrow> v)"

definition set_is :: "tset \<Rightarrow> string \<Rightarrow> string \<Rightarrow> bool" where
  "set_is st k value \<longleftrightarrow> set_get st k = value"

text \<open>How many liked sets resolved dimension \<open>d\<close> to a drawable value, per value.\<close>

fun boost_counts :: "dim \<Rightarrow> tset list \<Rightarrow> (string, int) gomap \<Rightarrow> (string, int) gomap" where
  "boost_counts d [] counts = counts"
| "boost_counts d (st # liked) counts =
     (let v = set_get st (d_name d) in
      if v = '''' \<or> dim_weight d v \<le> 0 then boost_counts d liked counts
      else boost_counts d liked
             (mput v ((case mget counts v of None \<Rightarrow> 0 | Some n \<Rightarrow> n) + 1) counts))"

definition boost_value :: "(string, int) gomap \<Rightarrow> f64 \<Rightarrow> trait_value \<Rightarrow> trait_value" where
  "boost_value counts strength v =
     (if v_weight v \<le> 0 then v
      else let n = (case mget counts (v_name v) of None \<Rightarrow> 0 | Some n \<Rightarrow> n)
           in if n > 0 then v\<lparr>v_weight := v_weight v + strength * f64_of_int n\<rparr> else v)"

definition boost_dim :: "tset list \<Rightarrow> f64 \<Rightarrow> dim \<Rightarrow> dim" where
  "boost_dim liked strength d =
     d\<lparr>d_values := map (boost_value (boost_counts d liked []) strength) (d_values d)\<rparr>"

definition boost :: "schema \<Rightarrow> tset list \<Rightarrow> f64 \<Rightarrow> schema" where
  "boost s liked strength =
     (if strength \<le> 0 \<or> liked = [] then s else map (boost_dim liked strength) s)"

definition name_suffix :: "schema \<Rightarrow> tset \<Rightarrow> tset \<Rightarrow> string" where
  "name_suffix s st overrides = concat (map (\<lambda>d.
     if mget overrides (d_name d) = None \<and> \<not> d_in_name d then ''''
     else let v = set_get st (d_name d)
          in if v \<noteq> '''' then ''-'' @ d_key d @ ''-'' @ v else '''') s)"

fun join :: "string \<Rightarrow> string list \<Rightarrow> string" where
  "join sep [] = ''''"
| "join sep [p] = p"
| "join sep (p # ps) = p @ sep @ join sep ps"

definition schema_format :: "schema \<Rightarrow> tset \<Rightarrow> string" where
  "schema_format s st = join '' '' (concat (map (\<lambda>d.
     case mget st (d_name d) of Some v \<Rightarrow> [d_name d @ ''='' @ v] | None \<Rightarrow> []) s))"

section \<open>Options over a schema\<close>

text \<open>\<open>o_raw\<close> holds what each registered flag was set to, the empty string being unset.\<close>

record trait_options =
  o_schema :: schema
  o_raw :: "(string, string) gomap"
  o_over :: tset

text \<open>A malformed schema is a panic: \<open>None\<close>.\<close>

definition new_options :: "schema \<Rightarrow> trait_options option" where
  "new_options s = (case schema_validate s of
      Some e \<Rightarrow> None
    | None \<Rightarrow> Some \<lparr>o_schema = s, o_raw = [], o_over = []\<rparr>)"

definition options_flags :: "trait_options \<Rightarrow> trait_options" where
  "options_flags opts =
     opts\<lparr>o_raw := foldl (\<lambda>raw d. mput (d_name d) '''' raw) (o_raw opts) (o_schema opts)\<rparr>"

fun configure_from :: "(string, string) gomap \<Rightarrow> tset \<Rightarrow> schema \<Rightarrow> err option \<times> tset" where
  "configure_from raw over [] = (None, over)"
| "configure_from raw over (d # s) =
     (case mget raw (d_name d) of
        None \<Rightarrow> configure_from raw over s
      | Some v \<Rightarrow>
          if v = '''' then configure_from raw over s
          else if \<not> dim_has d v then
            (Some (ErrMsg (''unknown --'' @ d_name d @ '' value (have '' @
               join ''|'' (value_names d) @ '')'')), over)
          else configure_from raw (mput (d_name d) v over) s)"

text \<open>\<open>Configure\<close> empties the overrides first; a failed call keeps those it had reached.\<close>

definition options_configure :: "trait_options \<Rightarrow> err option \<times> trait_options" where
  "options_configure opts =
     (let (e, over) = configure_from (o_raw opts) [] (o_schema opts) in (e, opts\<lparr>o_over := over\<rparr>))"

definition options_resolve :: "trait_options \<Rightarrow> pcg \<Rightarrow> (tset \<times> pcg) option" where
  "options_resolve opts rng =
     map_option (\<lambda>(st, rng'). (foldl (\<lambda>st (k, v). mput k v st) st (o_over opts), rng'))
       (derive (o_schema opts) rng)"

text \<open>The choices of a typed caller: all valid, or the first invalid one as an error.\<close>

fun check_overrides :: "schema \<Rightarrow> tset \<Rightarrow> tset \<Rightarrow> tset res" where
  "check_overrides s over [] = Inr over"
| "check_overrides s over ((k, v) # st) =
     (case schema_dim s k of
        None \<Rightarrow> Inl (ErrMsg (''invalid trait '' @ k @ ''='' @ v))
      | Some d \<Rightarrow>
          if \<not> dim_has d v then Inl (ErrMsg (''invalid trait '' @ k @ ''='' @ v))
          else check_overrides s (mput k v over) st)"

definition set_overrides :: "trait_options \<Rightarrow> tset \<Rightarrow> trait_options res" where
  "set_overrides opts st =
     bind_res (check_overrides (o_schema opts) [] st) (\<lambda>over. Inr (opts\<lparr>o_over := over\<rparr>))"

section \<open>Lookup facts\<close>

lemma dim_has_iff: "dim_has d v \<longleftrightarrow> v \<in> v_name ` set (d_values d)"
  by (auto simp: dim_has_def list_ex_iff)

lemma schema_dim_Some: "schema_dim s n = Some d \<Longrightarrow> d \<in> set s \<and> d_name d = n"
  by (induction s) (auto split: if_splits)

lemma schema_dim_None: "schema_dim s n = None \<longleftrightarrow> n \<notin> d_name ` set s"
  by (induction s) auto

lemma schema_dim_member:
  "distinct (map d_name s) \<Longrightarrow> d \<in> set s \<Longrightarrow> schema_dim s (d_name d) = Some d"
  by (induction s) auto

lemma weight_in_member:
  "distinct (map v_name vs) \<Longrightarrow> v \<in> set vs \<Longrightarrow> weight_in vs (v_name v) = v_weight v"
  by (induction vs) auto

lemma mget_foldl_put:
  "wfm over \<Longrightarrow> mget (foldl (\<lambda>st (k, v). mput k v st) st over) k =
     (case mget over k of Some v \<Rightarrow> Some v | None \<Rightarrow> mget st k)"
proof (induction over arbitrary: st)
  case Nil
  then show ?case by simp
next
  case (Cons e over)
  obtain a b where e: "e = (a, b)" by force
  from Cons.prems e have "wfm over" "mget over a = None"
    by (auto simp: wfm_def map_of_eq_None_iff)
  with Cons.IH[of "mput a b st"] e show ?case
    by (auto simp: map_simps split: option.splits)
qed

section \<open>Weights and draws\<close>

text \<open>A weight the source can write: a number a \<open>float64\<close> holds.\<close>

definition real_weight :: "f64 \<Rightarrow> bool" where
  "real_weight w \<longleftrightarrow> is_f64 w \<and> w \<noteq> NaN"

definition real_dim :: "dim \<Rightarrow> bool" where
  "real_dim d \<longleftrightarrow> (\<forall>v\<in>set (d_values d). real_weight (v_weight v))"

lemma real_weight_le: "real_weight w \<Longrightarrow> w \<le> 0 \<longleftrightarrow> \<not> 0 < w"
  by (cases w) (auto simp: real_weight_def f64_ops)

lemma f64_zero_add: "is_f64 w \<Longrightarrow> 0 + w = w"
  by (cases w) (auto simp: is_f64_def f64_ops)

lemma f64_add_commute: "(a::f64) + b = b + a"
  by (cases a; cases b) (auto simp: f64_ops add.commute)

lemma f64_add_pos: "real_weight w \<Longrightarrow> 0 < w \<Longrightarrow> 0 \<le> s \<Longrightarrow> 0 < s + w"
  using f64_add_pos_ge[of w s] f64_le_less_trans[of 0 w "w + s"]
  by (simp add: f64_add_commute real_weight_def)

lemma total_weight_fold:
  assumes "\<forall>v\<in>set vs. real_weight (v_weight v)" and "0 \<le> (s::f64)"
  shows "0 < foldl (\<lambda>sum v. if v_weight v > 0 then sum + v_weight v else sum) s vs
    \<longleftrightarrow> 0 < s \<or> (\<exists>v\<in>set vs. 0 < v_weight v)"
    (is "0 < ?fold s vs \<longleftrightarrow> _")
  using assms
proof (induction vs arbitrary: s)
  case Nil
  then show ?case by simp
next
  case (Cons v vs)
  show ?case
  proof (cases "0 < v_weight v")
    case True
    with Cons.prems have "0 < s + v_weight v" by (auto intro: f64_add_pos)
    with True Cons show ?thesis by (auto simp: f64_less_imp_le)
  next
    case False
    with Cons show ?thesis by auto
  qed
qed

lemma total_weight_pos_iff:
  "real_dim d \<Longrightarrow> 0 < total_weight d \<longleftrightarrow> (\<exists>v\<in>set (d_values d). 0 < v_weight v)"
  using total_weight_fold[of "d_values d" 0]
  by (auto simp: total_weight_def real_dim_def f64_ops)

lemma total_weight_fold_real:
  assumes "\<forall>v\<in>set vs. real_weight (v_weight v)" and "0 \<le> (s::f64)"
  shows "0 \<le> foldl (\<lambda>sum v. if v_weight v > 0 then sum + v_weight v else sum) s vs"
  using assms
proof (induction vs arbitrary: s)
  case (Cons v vs)
  then show ?case
    using f64_less_imp_le[OF f64_add_pos[of "v_weight v" s]] by auto
qed simp

lemma total_weight_le_iff:
  assumes "real_dim d"
  shows "total_weight d \<le> 0 \<longleftrightarrow> (\<forall>v\<in>set (d_values d). \<not> 0 < v_weight v)"
proof -
  have "0 \<le> total_weight d"
    using assms total_weight_fold_real[of "d_values d" 0]
    by (simp add: total_weight_def real_dim_def f64_ops)
  then have "total_weight d \<le> 0 \<longleftrightarrow> \<not> 0 < total_weight d"
    by (cases "total_weight d") (auto simp: f64_ops)
  then show ?thesis using total_weight_pos_iff[OF assms] by blast
qed

lemma draw_pick_positive:
  "\<forall>v\<in>set vs. real_weight (v_weight v) \<Longrightarrow> draw_pick bisect cum vs = Some n \<Longrightarrow>
     \<exists>v\<in>set vs. v_name v = n \<and> 0 < v_weight v"
  by (induction bisect cum vs rule: draw_pick.induct)
    (auto simp: Let_def real_weight_le split: if_splits)

lemma draw_last_positive:
  "draw_last vs = Some n \<Longrightarrow> \<exists>v\<in>set vs. v_name v = n \<and> 0 < v_weight v"
  by (induction vs) (auto split: if_splits)

lemma draw_last_None: "draw_last vs = None \<longleftrightarrow> (\<forall>v\<in>set vs. \<not> 0 < v_weight v)"
  by (induction vs) auto

lemma draw_positive:
  assumes "real_dim d" and "draw d rng = Some (n, rng')"
  shows "\<exists>v\<in>set (d_values d). v_name v = n \<and> 0 < v_weight v"
  using assms draw_pick_positive[of "d_values d"] draw_last_positive[of "rev (d_values d)"]
  by (auto simp: draw_def Let_def real_dim_def split: if_splits prod.splits option.splits)

lemma draw_defined_iff:
  assumes "real_dim d"
  shows "draw d rng \<noteq> None \<longleftrightarrow> (\<exists>v\<in>set (d_values d). 0 < v_weight v)"
  using draw_last_None[of "rev (d_values d)"] total_weight_le_iff[OF assms]
  by (auto simp: draw_def Let_def split: prod.splits option.splits)

text \<open>A draw uses one float of the generator, whatever it returns.\<close>

lemma draw_rng: "draw d rng = Some (n, rng') \<Longrightarrow> rng' = snd (rand_float64 rng)"
  by (auto simp: draw_def Let_def split: if_splits prod.splits option.splits)

section \<open>Schema validation, derivation and boosting\<close>

text \<open>What a well-formed schema is, stated without the order of the checks.\<close>

definition wf_schema :: "schema \<Rightarrow> bool" where
  "wf_schema s \<longleftrightarrow> distinct (map d_name s) \<and> distinct (map d_key s)
     \<and> (\<forall>d\<in>set s. d_name d \<noteq> '''' \<and> d_key d \<noteq> '''' \<and> (\<exists>v\<in>set (d_values d). 0 < v_weight v)
          \<and> distinct (map v_name (d_values d)) \<and> (\<forall>v\<in>set (d_values d). v_name v \<noteq> ''''))"

lemma validate_values_iff:
  "validate_values n seen vs = None \<longleftrightarrow> distinct (map v_name vs)
     \<and> set (map v_name vs) \<inter> set seen = {} \<and> (\<forall>v\<in>set vs. v_name v \<noteq> '''')"
  by (induction n seen vs rule: validate_values.induct) auto

lemma validate_from_iff:
  assumes "\<forall>d\<in>set s. real_dim d"
  shows "validate_from names keys s = None \<longleftrightarrow> wf_schema s
     \<and> d_name ` set s \<inter> set names = {} \<and> d_key ` set s \<inter> set keys = {}"
  using assms
proof (induction s arbitrary: names keys)
  case Nil
  then show ?case by (simp add: wf_schema_def)
next
  case (Cons d s)
  have tw: "total_weight d \<le> 0 \<longleftrightarrow> \<not> (\<exists>v\<in>set (d_values d). 0 < v_weight v)"
    using Cons.prems total_weight_le_iff by auto
  have vv: "validate_values (d_name d) [] (d_values d) = None \<longleftrightarrow>
      distinct (map v_name (d_values d)) \<and> (\<forall>v\<in>set (d_values d). v_name v \<noteq> '''')"
    by (simp add: validate_values_iff)
  have IH: "validate_from (d_name d # names) (d_key d # keys) s = None \<longleftrightarrow> wf_schema s
     \<and> d_name ` set s \<inter> set (d_name d # names) = {} \<and> d_key ` set s \<inter> set (d_key d # keys) = {}"
    using Cons.IH[of "d_name d # names" "d_key d # keys"] Cons.prems by simp
  have wf: "wf_schema (d # s) \<longleftrightarrow> wf_schema s \<and> d_name d \<notin> d_name ` set s \<and> d_key d \<notin> d_key ` set s
      \<and> d_name d \<noteq> '''' \<and> d_key d \<noteq> '''' \<and> \<not> total_weight d \<le> 0
      \<and> validate_values (d_name d) [] (d_values d) = None"
    unfolding wf_schema_def vv tw by auto
  have ne: "d_values d = [] \<Longrightarrow> total_weight d \<le> 0" using tw by simp
  show ?case
    by (cases "validate_values (d_name d) [] (d_values d)") (auto simp: wf IH dest: ne)
qed

lemma derive_onto_spec:
  assumes "\<forall>d\<in>set s. real_dim d" "wf_schema s"
  shows "\<exists>st' rng'. derive_onto st s rng = Some (st', rng')
     \<and> (\<forall>k. k \<notin> d_name ` set s \<longrightarrow> mget st' k = mget st k)
     \<and> (\<forall>d\<in>set s. \<exists>v\<in>set (d_values d). mget st' (d_name d) = Some (v_name v) \<and> 0 < v_weight v)"
  using assms
proof (induction s arbitrary: st rng)
  case Nil
  then show ?case by simp
next
  case (Cons d s)
  from Cons.prems have d: "real_dim d" "\<exists>v\<in>set (d_values d). 0 < v_weight v"
    and s: "wf_schema s" "d_name d \<notin> d_name ` set s"
    by (auto simp: wf_schema_def)
  then obtain n r1 where dr: "draw d rng = Some (n, r1)" using draw_defined_iff by fastforce
  obtain v where v: "v \<in> set (d_values d)" "v_name v = n" "0 < v_weight v"
    using draw_positive[OF d(1) dr] by blast
  obtain st' r2 where "derive_onto (mput (d_name d) n st) s r1 = Some (st', r2)"
    and frame: "\<forall>k. k \<notin> d_name ` set s \<longrightarrow> mget st' k = mget (mput (d_name d) n st) k"
    and rest: "\<forall>d\<in>set s. \<exists>v\<in>set (d_values d). mget st' (d_name d) = Some (v_name v) \<and> 0 < v_weight v"
    using Cons.IH[of "mput (d_name d) n st" r1] Cons.prems s by auto
  then show ?case using dr v s(2) by (auto simp: map_simps)
qed

lemma derive_onto_append:
  "derive_onto st (s @ t) rng =
     (case derive_onto st s rng of None \<Rightarrow> None | Some (st', rng') \<Rightarrow> derive_onto st' t rng')"
  by (induction s arbitrary: st rng) (auto split: option.splits)

lemma derive_onto_frame:
  "derive_onto st s rng = Some (st', rng') \<Longrightarrow> k \<notin> d_name ` set s \<Longrightarrow> mget st' k = mget st k"
  by (induction s arbitrary: st rng) (auto simp: map_simps split: option.splits)

lemma derive_onto_wfm: "derive_onto st s rng = Some (st', rng') \<Longrightarrow> wfm st \<Longrightarrow> wfm st'"
  by (induction s arbitrary: st rng) (auto intro: wf_intros split: option.splits)

lemma derive_onto_dom:
  "derive_onto st s rng = Some (st', rng') \<Longrightarrow> dom (mget st') = dom (mget st) \<union> d_name ` set s"
proof (induction s arbitrary: st rng)
  case (Cons d s)
  then obtain n r1 where "derive_onto (mput (d_name d) n st) s r1 = Some (st', rng')"
    by (auto split: option.splits)
  from Cons.IH[OF this] show ?case by (auto simp: update_conv')
qed simp

lemma boost_counts_nonneg:
  "(\<forall>k n. mget counts k = Some n \<longrightarrow> 0 \<le> n) \<Longrightarrow> mget (boost_counts d liked counts) k = Some n \<Longrightarrow> 0 \<le> n"
proof (induction d liked counts arbitrary: n rule: boost_counts.induct)
  case (2 d st liked counts)
  have "\<forall>k n. mget (mput v ((case mget counts v of None \<Rightarrow> 0 | Some n \<Rightarrow> n) + 1) counts) k = Some n \<longrightarrow> 0 \<le> n" for v
    using 2(3) by (auto simp: map_simps split: option.splits if_splits)
  with 2 show ?case by (simp add: Let_def split: if_splits)
qed auto

lemma f64_of_int_nonneg: "0 < n \<Longrightarrow> 0 < f64_of_int n"
  using rnd64_ge_representable[of 1 "of_int n"]
  by (cases "rnd64 (of_int n)") (auto simp: f64_of_int_def f64_pos_iff rnd64_one f64_ops)

lemma boost_value_weight:
  assumes "real_weight (v_weight v)" and "0 < strength" and "\<forall>k n. mget counts k = Some n \<longrightarrow> 0 \<le> n"
  shows "v_name (boost_value counts strength v) = v_name v"
    and "0 < v_weight v \<Longrightarrow> v_weight v \<le> v_weight (boost_value counts strength v)"
    and "\<not> 0 < v_weight v \<Longrightarrow> boost_value counts strength v = v"
proof -
  have "v_weight v \<le> v_weight v + strength * f64_of_int n" if "0 < v_weight v" "0 < n" for n
    using that assms f64_of_int_nonneg[of n] f64_mul_pos[of strength "f64_of_int n"]
    by (intro f64_add_pos_ge) (auto simp: real_weight_def)
  then show "0 < v_weight v \<Longrightarrow> v_weight v \<le> v_weight (boost_value counts strength v)"
    using assms(1) by (auto simp: boost_value_def Let_def f64_pos_iff f64_ops split: option.splits)
qed (use assms(1) in \<open>auto simp: boost_value_def Let_def real_weight_le\<close>)

lemma boost_counts_pos: "mget (boost_counts d liked []) k = Some n \<Longrightarrow> 0 \<le> n"
  by (rule boost_counts_nonneg[rotated]) auto

text \<open>The same dimension with some positive weights raised and nothing else touched.\<close>

definition raised_dim :: "dim \<Rightarrow> dim \<Rightarrow> bool" where
  "raised_dim d d' \<longleftrightarrow> d_name d' = d_name d \<and> d_key d' = d_key d \<and> d_in_name d' = d_in_name d
     \<and> list_all2 (\<lambda>v v'. v_name v' = v_name v
          \<and> (if 0 < v_weight v then v_weight v \<le> v_weight v' else v' = v)) (d_values d) (d_values d')"

lemma raised_dim_refl: "raised_dim d d"
  by (auto simp: raised_dim_def f64_pos_iff f64_ops intro!: list.rel_refl_strong)

lemma raised_dim_boost: "real_dim d \<Longrightarrow> 0 < strength \<Longrightarrow> raised_dim d (boost_dim liked strength d)"
  using boost_value_weight[of _ strength "boost_counts d liked []"] boost_counts_pos
  by (auto simp: raised_dim_def boost_dim_def real_dim_def list.rel_map intro!: list.rel_refl_strong)

text \<open>A small schema the witnesses below evaluate.\<close>

definition demo_schema :: schema where
  "demo_schema = [
     \<lparr>d_name = ''fill'', d_key = ''f'', d_doc = '''', d_in_name = True, d_values =
        [\<lparr>v_name = ''open'', v_weight = Fin 3\<rparr>, \<lparr>v_name = ''busy'', v_weight = Fin (5 / 2)\<rparr>,
         \<lparr>v_name = ''none'', v_weight = Fin 0\<rparr>]\<rparr>,
     \<lparr>d_name = ''grain'', d_key = ''g'', d_doc = '''', d_in_name = False, d_values =
        [\<lparr>v_name = ''fine'', v_weight = Fin 1\<rparr>]\<rparr>]"

lemma demo_real: "\<forall>d\<in>set demo_schema. real_dim d"
  using is_f64_half[of 5] by (simp add: demo_schema_def real_dim_def real_weight_def is_f64_numeral)

lemma demo_valid: "schema_validate demo_schema = None"
proof -
  have "wf_schema demo_schema"
    by (simp add: wf_schema_def demo_schema_def f64_ops)
  then show ?thesis
    using validate_from_iff[OF demo_real, of "[]" "[]"] by (simp add: schema_validate_def)
qed

lemma demo_derives: "\<exists>st rng'. derive demo_schema rng = Some (st, rng')"
proof -
  have "wf_schema demo_schema"
    using demo_valid validate_from_iff[OF demo_real, of "[]" "[]"] by (simp add: schema_validate_def)
  then show ?thesis
    using derive_onto_spec[OF demo_real] by (fastforce simp: derive_def)
qed

section \<open>Properties of the output space\<close>

text \<open>C39: \<open>Schema.Validate\<close> accepts exactly the well-formed schemas: names, keys and value names
  non-empty and unique, and every dimension with a value a seed can draw. The test on the float
  sum of the weights decides whether a positive weight exists, rounding included.\<close>

theorem schema_validate_correct:
  assumes "\<forall>d\<in>set s. real_dim d"
  shows "schema_validate s = None \<longleftrightarrow> wf_schema s"
  using validate_from_iff[OF assms, of "[]" "[]"] by (simp add: schema_validate_def)

text \<open>C38: a schema that validates never panics: every generator state derives a set with exactly
  the schema's dimensions, and each dimension gets one of its own values of positive weight, so a
  weight-0 value is never drawn.\<close>

theorem derive_total_and_drawable:
  assumes "\<forall>d\<in>set s. real_dim d" and "schema_validate s = None"
  shows "\<exists>st rng'. derive s rng = Some (st, rng') \<and> dom (mget st) = d_name ` set s
    \<and> (\<forall>d\<in>set s. \<exists>v\<in>set (d_values d). mget st (d_name d) = Some (v_name v) \<and> 0 < v_weight v)"
proof -
  have wf: "wf_schema s" using assms schema_validate_correct by blast
  obtain st rng' where "derive_onto [] s rng = Some (st, rng')"
    and "\<forall>d\<in>set s. \<exists>v\<in>set (d_values d). mget st (d_name d) = Some (v_name v) \<and> 0 < v_weight v"
    using derive_onto_spec[OF assms(1) wf] by blast
  then show ?thesis using derive_onto_dom by (fastforce simp: derive_def)
qed

text \<open>Appending dimensions never changes what an existing seed draws for the others.\<close>

theorem derive_append_stable:
  assumes "derive s rng = Some (st, rng1)" and "derive (s @ t) rng = Some (st', rng2)"
    and "k \<in> d_name ` set s" and "k \<notin> d_name ` set t"
  shows "mget st' k = mget st k"
  using assms derive_onto_frame[of st t rng1 st' rng2 k]
  by (simp add: derive_def derive_onto_append)

text \<open>Boosting keeps every dimension and value in place, never lowers a positive weight and
  leaves weight-0 values exactly as they are, so the drawable values are the same.\<close>

theorem boost_keeps_space:
  assumes "\<forall>d\<in>set s. real_dim d" and "0 < strength"
  shows "list_all2 raised_dim s (boost s liked strength)"
proof (cases "strength \<le> 0 \<or> liked = []")
  case True
  then show ?thesis by (simp add: boost_def raised_dim_refl list.rel_refl_strong)
next
  case False
  then show ?thesis using assms
    by (auto simp: boost_def list.rel_map raised_dim_boost intro!: list.rel_refl_strong)
qed

text \<open>Pinning a dimension leaves every other dimension exactly as the seed had it, and the
  generator where the plain draw leaves it.\<close>

theorem resolve_pins_only:
  assumes "options_resolve opts rng = Some (st, rng1)" and "derive (o_schema opts) rng = Some (st0, rng0)"
    and "wfm (o_over opts)"
  shows "rng1 = rng0 \<and> (\<forall>k. mget st k =
    (case mget (o_over opts) k of Some v \<Rightarrow> Some v | None \<Rightarrow> mget st0 k))"
  using assms by (auto simp: options_resolve_def mget_foldl_put)

theorem schema_validate_correct_witness:
  "schema_validate demo_schema = None \<and> wf_schema demo_schema"
  using schema_validate_correct[OF demo_real] demo_valid by blast

theorem derive_total_and_drawable_witness:
  "\<exists>st rng'. derive demo_schema (new_pcg 42 2) = Some (st, rng') \<and> dom (mget st) = {''fill'', ''grain''}"
  using derive_total_and_drawable[OF demo_real demo_valid, of "new_pcg 42 2"]
  by (auto simp: demo_schema_def)

theorem derive_append_stable_witness:
  "\<exists>st st' rng1 rng2. derive (take 1 demo_schema) (new_pcg 42 2) = Some (st, rng1)
     \<and> derive demo_schema (new_pcg 42 2) = Some (st', rng2) \<and> mget st' ''fill'' = mget st ''fill''"
proof -
  obtain st' rng2 where d: "derive demo_schema (new_pcg 42 2) = Some (st', rng2)"
    using demo_derives by blast
  have app: "demo_schema = take 1 demo_schema @ drop 1 demo_schema" by simp
  then obtain st rng1 where t: "derive (take 1 demo_schema) (new_pcg 42 2) = Some (st, rng1)"
    using d derive_onto_append[of "[]" "take 1 demo_schema" "drop 1 demo_schema"]
    by (auto simp: derive_def split: option.splits)
  have "mget st' ''fill'' = mget st ''fill''"
    by (rule derive_append_stable[OF t, of "drop 1 demo_schema" st' rng2])
      (use d app in \<open>auto simp: demo_schema_def\<close>)
  with d t show ?thesis by blast
qed

theorem boost_keeps_space_witness:
  "list_all2 raised_dim demo_schema (boost demo_schema [[(''fill'', ''busy'')]] (Fin 3))"
  by (rule boost_keeps_space[OF demo_real]) (simp add: f64_ops)

theorem resolve_pins_only_witness:
  "\<exists>st rng1. options_resolve \<lparr>o_schema = demo_schema, o_raw = [], o_over = [(''fill'', ''none'')]\<rparr>
     (new_pcg 7 2) = Some (st, rng1) \<and> mget st ''fill'' = Some ''none''"
proof -
  let ?o = "\<lparr>o_schema = demo_schema, o_raw = [], o_over = [(''fill'', ''none'')]\<rparr>"
  obtain st0 rng0 where d: "derive (o_schema ?o) (new_pcg 7 2) = Some (st0, rng0)"
    using demo_derives[of "new_pcg 7 2"] by (metis trait_options.select_convs(1))
  then obtain st rng1 where r: "options_resolve ?o (new_pcg 7 2) = Some (st, rng1)"
    by (simp add: options_resolve_def)
  show ?thesis
    using resolve_pins_only[OF r d] r by (auto simp: wfm_def)
qed

end
