(* ===== verification/Explore.thy ===== *)
theory Explore
  imports Trait
begin

text \<open>
  \<open>internal/explore\<close>: candidate recipes for a batch. \<open>LocalBreed\<close> is the command line's flock
  policy, \<open>Public\<close> the studio's: up to two candidates guided by a parent, one drawn from boosted
  weights, the rest from the base distribution, with explicit pins always winning.
\<close>

record candidate =
  c_seed :: u64
  c_traits :: tset
  c_mode :: string
  c_parent :: u64

definition NeighborStride :: u64 where
  "NeighborStride = 100003"

text \<open>\<open>None\<close> is a panic of \<open>Derive\<close> on a dimension without a drawable value.\<close>

fun breed_boosted :: "schema \<Rightarrow> u64 \<Rightarrow> nat \<Rightarrow> nat \<Rightarrow> candidate list option" where
  "breed_boosted boosted seed i 0 = Some []"
| "breed_boosted boosted seed i (Suc n) =
     (let s = seed + of_nat i in
      case derive boosted (new_pcg s 2) of
        None \<Rightarrow> None
      | Some (st, _) \<Rightarrow>
          map_option (\<lambda>cs. \<lparr>c_seed = s, c_traits = st, c_mode = ''boosted'', c_parent = 0\<rparr> # cs)
            (breed_boosted boosted seed (Suc i) n))"

definition breed_neighbors :: "candidate list \<Rightarrow> nat \<Rightarrow> candidate list" where
  "breed_neighbors parents n = map (\<lambda>i. let p = parents ! (i mod length parents)
     in \<lparr>c_seed = c_seed p + of_nat (Suc i) * NeighborStride, c_traits = c_traits p,
         c_mode = ''neighbor'', c_parent = c_seed p\<rparr>) [0..<n]"

definition local_breed ::
    "schema \<Rightarrow> candidate list \<Rightarrow> int \<Rightarrow> u64 \<Rightarrow> f64 \<Rightarrow> candidate list option" where
  "local_breed s parents many seed strength =
     (if parents = [] \<or> many < 1 \<or> many > 120 then Some []
      else let n = nat many; boosted = boost s (map c_traits parents) strength
           in map_option (\<lambda>cs. cs @ breed_neighbors parents (n - n div 2))
                (breed_boosted boosted seed 0 (n div 2)))"

definition valid_set :: "schema \<Rightarrow> tset \<Rightarrow> bool" where
  "valid_set s st \<longleftrightarrow> list_all (\<lambda>(k, v).
     case schema_dim s k of None \<Rightarrow> False | Some d \<Rightarrow> dim_has d v) st"

text \<open>The parent's values laid over a draw, skipping those only a pin may reach.\<close>

definition inherit_traits :: "schema \<Rightarrow> tset \<Rightarrow> tset \<Rightarrow> tset \<Rightarrow> tset" where
  "inherit_traits s pins parent st = foldl (\<lambda>st (k, v).
     let w = (case schema_dim s k of None \<Rightarrow> 0 | Some d \<Rightarrow> dim_weight d v)
     in if w > 0 \<or> set_get pins k = v then mput k v st else st) st parent"

definition lay_pins :: "tset \<Rightarrow> tset \<Rightarrow> tset" where
  "lay_pins pins st = foldl (\<lambda>st (k, v). mput k v st) st pins"

text \<open>One candidate: position \<open>i\<close> in the batch decides which of the three sources it has.\<close>

definition make_candidate ::
    "schema \<Rightarrow> schema \<Rightarrow> tset \<Rightarrow> candidate list \<Rightarrow> nat \<Rightarrow> u64 \<Rightarrow> nat \<Rightarrow> candidate option" where
  "make_candidate s boosted pins parents turn n i =
     (case derive s (new_pcg n 2) of
        None \<Rightarrow> None
      | Some (st, _) \<Rightarrow>
          if parents \<noteq> [] \<and> i < 2 then
            let p = parents ! (((turn mod length parents) * 2 + i) mod length parents)
            in Some \<lparr>c_seed = n, c_traits = lay_pins pins (inherit_traits s pins (c_traits p) st),
                     c_mode = ''neighbor'', c_parent = c_seed p\<rparr>
          else if parents \<noteq> [] \<and> i = 2 then
            map_option (\<lambda>(bt, _). \<lparr>c_seed = n, c_traits = lay_pins pins bt, c_mode = ''boosted'',
                                   c_parent = 0\<rparr>) (derive boosted (new_pcg n 2))
          else Some \<lparr>c_seed = n, c_traits = lay_pins pins st, c_mode = ''explore'', c_parent = 0\<rparr>)"

text \<open>The attempt loop: \<open>left\<close> attempts remain of 128, seeds already seen are skipped.\<close>

fun public_loop ::
    "(u64 \<Rightarrow> nat \<Rightarrow> candidate option) \<Rightarrow> u64 \<Rightarrow> u64 list \<Rightarrow> candidate list \<Rightarrow> nat \<Rightarrow> candidate list option"
where
  "public_loop mk n seen out 0 = Some out"
| "public_loop mk n seen out (Suc left) =
     (if 4 \<le> length out then Some out
      else if n \<in> set seen then public_loop mk (n + 1) seen out left
      else case mk n (length out) of
             None \<Rightarrow> None
           | Some c \<Rightarrow> public_loop mk (n + 1) (n # seen) (out @ [c]) left)"

definition public ::
    "schema \<Rightarrow> tset \<Rightarrow> candidate list \<Rightarrow> u64 \<Rightarrow> int \<Rightarrow> u64 list \<Rightarrow> candidate list res option" where
  "public s pins parents seed turn recent =
     (if length parents > 4 \<or> length recent > 128 \<or> turn < 0 then Some (Inl (ErrMsg ''exploration limit''))
      else if \<not> valid_set s pins then Some (Inl (ErrMsg ''invalid pin''))
      else if list_ex (\<lambda>p. \<not> valid_set s (c_traits p) \<or> length (c_traits p) \<noteq> length s) parents
      then Some (Inl (ErrMsg ''invalid parent''))
      else map_option Inr (public_loop
        (make_candidate s (boost s (map c_traits parents) (Fin 3)) pins parents (nat turn))
        seed recent [] 128))"

section \<open>The attempt loop\<close>

text \<open>
  Enough attempts always fill the batch: every attempt either appends a candidate or meets one of
  the \<open>recent\<close> seeds, and 128 consecutive 64-bit seeds never repeat, wrap-around included.
\<close>

lemma upto_distinct: "m \<le> 2 ^ 64 \<Longrightarrow> inj_on (\<lambda>k. n + of_nat k :: u64) {..<m}"
proof (rule inj_onI)
  fix x y
  assume m: "m \<le> 2 ^ 64" and x: "x \<in> {..<m}" and y: "y \<in> {..<m}"
    and e: "n + of_nat x = (n + of_nat y :: u64)"
  then have "unat (of_nat x :: u64) = unat (of_nat y :: u64)" by simp
  with m x y show "x = y" by (simp add: unsigned_of_nat take_bit_nat_eq_self)
qed

lemma public_loop_total:
  assumes "\<And>n i. \<exists>c. mk n i = Some c"
  shows "\<exists>out'. public_loop mk n seen out left = Some out'"
proof (induction left arbitrary: n seen out)
  case (Suc left)
  obtain c where "mk n (length out) = Some c" using assms by blast
  then show ?case using Suc by simp
qed simp

lemma public_loop_prefix:
  "public_loop mk n seen out left = Some out' \<Longrightarrow> length out \<le> 4 \<Longrightarrow>
     length out' \<le> 4 \<and> (\<exists>new. out' = out @ new)"
proof (induction mk n seen out left arbitrary: out' rule: public_loop.induct)
  case (2 mk n seen out left)
  show ?case
  proof (cases "4 \<le> length out \<or> n \<in> set seen")
    case True
    with 2 show ?thesis by (auto split: if_splits)
  next
    case False
    then obtain c where c: "mk n (length out) = Some c"
      and r: "public_loop mk (n + 1) (n # seen) (out @ [c]) left = Some out'"
      using "2.prems" by (auto split: option.splits)
    with 2(2)[of c out'] False show ?thesis by auto
  qed
qed simp

lemma public_loop_members:
  "public_loop mk n seen out left = Some out' \<Longrightarrow>
     (\<And>m i c. mk m i = Some c \<Longrightarrow> m \<notin> set seen \<Longrightarrow> P m i c) \<Longrightarrow> length out \<le> 4 \<Longrightarrow>
     length out \<le> j \<Longrightarrow> j < length out' \<Longrightarrow>
     \<exists>k<left. n + of_nat k \<notin> set seen \<and> mk (n + of_nat k) j = Some (out' ! j)"
proof (induction mk n seen out left arbitrary: out' rule: public_loop.induct)
  case (2 mk n seen out left)
  show ?case
  proof (cases "4 \<le> length out")
    case True
    with 2 show ?thesis by simp
  next
    case F: False
    show ?thesis
    proof (cases "n \<in> set seen")
      case True
      with F 2(1)[of out'] 2(3-) obtain k where "k < left" "n + 1 + of_nat k \<notin> set seen"
        "mk (n + 1 + of_nat k) j = Some (out' ! j)" by auto
      then show ?thesis by (intro exI[of _ "Suc k"]) (simp add: add_ac)
    next
      case False
      with F 2(3) obtain c where c: "mk n (length out) = Some c"
        and r: "public_loop mk (n + 1) (n # seen) (out @ [c]) left = Some out'"
        by (auto split: option.splits)
      show ?thesis
      proof (cases "j = length out")
        case True
        obtain new where "out' = (out @ [c]) @ new"
          using public_loop_prefix[OF r] F by auto
        with c False True show ?thesis by (intro exI[of _ 0]) (simp add: nth_append)
      next
        case j: False
        have "\<exists>k<left. n + 1 + of_nat k \<notin> set (n # seen) \<and> mk (n + 1 + of_nat k) j = Some (out' ! j)"
          using 2(2)[OF F False c r] 2(4-) F j by auto
        then obtain k where "k < left" "n + 1 + of_nat k \<notin> set (n # seen)"
          "mk (n + 1 + of_nat k) j = Some (out' ! j)" by blast
        then show ?thesis by (intro exI[of _ "Suc k"]) (simp add: add_ac)
      qed
    qed
  qed
qed simp

lemma public_loop_distinct:
  assumes "\<And>m i c. mk m i = Some c \<Longrightarrow> c_seed c = m"
  shows "public_loop mk n seen out left = Some out' \<Longrightarrow> distinct (map c_seed out) \<Longrightarrow>
     c_seed ` set out \<subseteq> set seen \<Longrightarrow> distinct (map c_seed out')"
  using assms
  by (induction mk n seen out left arbitrary: out' rule: public_loop.induct)
    (fastforce split: if_splits option.splits)+

lemma public_loop_full:
  assumes "\<And>m i. \<exists>c. mk m i = Some c" and "public_loop mk n seen out left = Some out'"
    and "length out \<le> 4" and "left \<le> 2 ^ 64"
    and "card (set seen \<inter> (\<lambda>k. n + of_nat k) ` {..<left}) + (4 - length out) \<le> left"
  shows "length out' = 4"
  using assms
proof (induction mk n seen out left arbitrary: out' rule: public_loop.induct)
  case (2 mk n seen out left)
  let ?W = "(\<lambda>k. n + 1 + of_nat k) ` {..<left}"
  have W: "(\<lambda>k. n + of_nat k) ` {..<Suc left} = insert n ?W"
    unfolding lessThan_Suc_eq_insert_0 by (auto simp: image_image add_ac)
  have n: "n \<notin> ?W"
  proof
    assume "n \<in> ?W"
    then obtain k where k: "k < left" and e: "n + 1 + of_nat k = n" by (metis (no_types, lifting) imageE lessThan_iff)
    have "n + of_nat (Suc k) = n + 1 + of_nat k" by (simp add: add_ac)
    then have "n + of_nat 0 = n + of_nat (Suc k)" unfolding e by simp
    then have "(0::nat) = Suc k"
      by (rule inj_onD[OF upto_distinct[OF "2.prems"(4), of n]]) (use k in simp_all)
    then show False by simp
  qed
  show ?case
  proof (cases "4 \<le> length out")
    case True
    with "2.prems"(2,3) show ?thesis by simp
  next
    case F: False
    show ?thesis
    proof (cases "n \<in> set seen")
      case True
      have "card (set seen \<inter> insert n ?W) = Suc (card (set seen \<inter> ?W))"
        using True n by (subst Int_insert_right_if1) auto
      with 2(1)[of out'] 2(3-) F True show ?thesis by (simp add: W)
    next
      case False
      obtain c where c: "mk n (length out) = Some c" using "2.prems"(1) by blast
      with False F "2.prems"(2) have r: "public_loop mk (n + 1) (n # seen) (out @ [c]) left = Some out'"
        by simp
      have "set (n # seen) \<inter> ?W = set seen \<inter> insert n ?W" using n False by auto
      then have "card (set (n # seen) \<inter> ?W) + (4 - length (out @ [c])) \<le> left"
        using "2.prems"(5) F by (simp add: W)
      then show ?thesis
        using 2(2)[OF F False c "2.prems"(1) r] F "2.prems"(4) by simp
    qed
  qed
qed simp

section \<open>Complete sets of choices\<close>

text \<open>A set that gives every dimension of the schema one of its values, and nothing else.\<close>

definition complete_set :: "schema \<Rightarrow> tset \<Rightarrow> bool" where
  "complete_set s st \<longleftrightarrow> dom (mget st) = d_name ` set s
     \<and> (\<forall>d\<in>set s. \<exists>v\<in>set (d_values d). mget st (d_name d) = Some (v_name v))"

lemma complete_put:
  assumes "complete_set s st" "schema_dim s k = Some d" "dim_has d v" "distinct (map d_name s)"
  shows "complete_set s (mput k v st)"
proof -
  have d: "d \<in> set s" "d_name d = k" using schema_dim_Some[OF assms(2)] by auto
  have "d' = d" if "d' \<in> set s" "d_name d' = k" for d'
    using that d assms(4) by (metis distinct_map inj_onD)
  with assms d show ?thesis
    by (fastforce simp: complete_set_def map_simps dim_has_iff update_conv')
qed

lemma valid_set_Cons:
  "valid_set s ((k, v) # st) \<longleftrightarrow> (\<exists>d. schema_dim s k = Some d \<and> dim_has d v) \<and> valid_set s st"
  by (auto simp: valid_set_def split: option.splits)

lemma lay_pins_complete:
  "valid_set s pins \<Longrightarrow> distinct (map d_name s) \<Longrightarrow> complete_set s st \<Longrightarrow> complete_set s (lay_pins pins st)"
  unfolding lay_pins_def
proof (induction pins arbitrary: st)
  case (Cons p pins)
  then show ?case by (cases p) (auto simp: valid_set_Cons intro: complete_put)
qed simp

lemma inherit_traits_complete:
  "valid_set s parent \<Longrightarrow> distinct (map d_name s) \<Longrightarrow> complete_set s st \<Longrightarrow>
     complete_set s (inherit_traits s pins parent st)"
  unfolding inherit_traits_def
proof (induction parent arbitrary: st)
  case (Cons p parent)
  obtain k v where p: "p = (k, v)" by force
  obtain d where d: "schema_dim s k = Some d" "dim_has d v"
    using Cons.prems(1) p by (auto simp: valid_set_Cons)
  have "complete_set s (mput k v st)" using complete_put[OF Cons.prems(3) d Cons.prems(2)] .
  with Cons p show ?case by (simp add: valid_set_Cons Let_def)
qed simp

lemma lay_pins_wins: "wfm pins \<Longrightarrow> mget pins k = Some v \<Longrightarrow> mget (lay_pins pins st) k = Some v"
  by (simp add: lay_pins_def mget_foldl_put)

lemma derive_complete:
  assumes "\<forall>d\<in>set s. real_dim d" "wf_schema s"
  shows "\<exists>st rng'. derive s rng = Some (st, rng') \<and> complete_set s st"
proof -
  obtain st rng' where d: "derive_onto [] s rng = Some (st, rng')"
    and "\<forall>d\<in>set s. \<exists>v\<in>set (d_values d). mget st (d_name d) = Some (v_name v) \<and> 0 < v_weight v"
    using derive_onto_spec[OF assms] by blast
  then show ?thesis using derive_onto_dom[OF d] by (fastforce simp: derive_def complete_set_def)
qed

text \<open>Boosting a well-formed schema gives a well-formed schema over the same values.\<close>

lemma boost_value_real:
  assumes "real_weight (v_weight v)" "0 < strength" "is_f64 strength"
    "\<forall>k n. mget counts k = Some n \<longrightarrow> 0 \<le> n"
  shows "real_weight (v_weight (boost_value counts strength v))"
proof -
  have "real_weight (v_weight v + strength * f64_of_int n)" if "0 < n" "0 < v_weight v" for n
  proof -
    have "v_weight v \<le> v_weight v + strength * f64_of_int n"
      using that assms f64_of_int_nonneg[of n] f64_mul_pos[of strength "f64_of_int n"]
      by (intro f64_add_pos_ge) (auto simp: real_weight_def)
    then have "v_weight v + strength * f64_of_int n \<noteq> NaN" by (auto simp: f64_ops)
    moreover have "is_f64 (v_weight v + strength * f64_of_int n)"
      using assms(1) by (simp add: real_weight_def)
    ultimately show ?thesis by (simp add: real_weight_def)
  qed
  with assms show ?thesis by (auto simp: boost_value_def Let_def real_weight_le)
qed

lemma boost_wf:
  assumes "\<forall>d\<in>set s. real_dim d" "wf_schema s" "0 < strength" "is_f64 strength"
  shows "(\<forall>d\<in>set (boost s liked strength). real_dim d) \<and> wf_schema (boost s liked strength)
    \<and> list_all2 (\<lambda>d d'. d_name d' = d_name d \<and> map v_name (d_values d') = map v_name (d_values d))
        s (boost s liked strength)"
proof (cases "strength \<le> 0 \<or> liked = []")
  case True
  with assms show ?thesis by (auto simp: boost_def intro: list.rel_refl_strong)
next
  case False
  have val: "real_weight (v_weight (boost_value (boost_counts d liked []) strength v))
      \<and> v_name (boost_value (boost_counts d liked []) strength v) = v_name v
      \<and> (0 < v_weight v \<longrightarrow> 0 < v_weight (boost_value (boost_counts d liked []) strength v))"
    if "d \<in> set s" "v \<in> set (d_values d)" for d v
    using that assms boost_value_real[of v strength "boost_counts d liked []"] boost_counts_pos
      boost_value_weight[of v strength "boost_counts d liked []"] f64_le_less_trans[of 0 "v_weight v"]
    by (auto simp: real_dim_def)
  then have names: "map v_name (d_values (boost_dim liked strength d)) = map v_name (d_values d)"
    if "d \<in> set s" for d
    using that by (auto simp: boost_dim_def)
  have keys: "d_name (boost_dim liked strength d) = d_name d" "d_key (boost_dim liked strength d) = d_key d"
    for d by (simp_all add: boost_dim_def)
  have drawable: "\<exists>v\<in>set (d_values (boost_dim liked strength d)). 0 < v_weight v" if "d \<in> set s" for d
    using assms(2) val that by (fastforce simp: wf_schema_def boost_dim_def)
  have nonempty: "\<forall>v\<in>set (d_values (boost_dim liked strength d)). v_name v \<noteq> ''''" if "d \<in> set s" for d
    using assms(2) val that by (fastforce simp: wf_schema_def boost_dim_def)
  have "wf_schema (map (boost_dim liked strength) s)"
    using assms(2) names keys drawable nonempty
    by (auto simp: wf_schema_def o_def)
  moreover have "\<forall>d\<in>set s. real_dim (boost_dim liked strength d)"
    using val by (auto simp: real_dim_def boost_dim_def)
  ultimately show ?thesis using False names keys
    by (auto simp: boost_def list.rel_map intro!: list.rel_refl_strong)
qed

lemma complete_set_boost:
  assumes r: "list_all2 (\<lambda>d d'. d_name d' = d_name d \<and> map v_name (d_values d') = map v_name (d_values d)) s s'"
    and c: "complete_set s' st"
  shows "complete_set s st"
proof -
  have len: "length s' = length s" using r by (simp add: list_all2_lengthD)
  have nth: "d_name (s' ! j) = d_name (s ! j)"
    "v_name ` set (d_values (s' ! j)) = v_name ` set (d_values (s ! j))" if "j < length s" for j
  proof -
    note e = list_all2_nthD[OF r that]
    then show "d_name (s' ! j) = d_name (s ! j)" by blast
    from e show "v_name ` set (d_values (s' ! j)) = v_name ` set (d_values (s ! j))"
      by (metis list.set_map)
  qed
  have "map d_name s = map d_name s'"
    using len nth(1) by (intro nth_equalityI) auto
  then have dom: "d_name ` set s = d_name ` set s'" by (metis list.set_map)
  have "mget st (d_name (s ! j)) \<in> Some ` v_name ` set (d_values (s ! j))" if j: "j < length s" for j
  proof -
    have "s' ! j \<in> set s'" using j len by simp
    then obtain v where "v \<in> set (d_values (s' ! j))" "mget st (d_name (s' ! j)) = Some (v_name v)"
      using c unfolding complete_set_def by blast
    then have "mget st (d_name (s ! j)) \<in> Some ` v_name ` set (d_values (s' ! j))"
      using nth(1)[OF j] by simp
    then show ?thesis unfolding nth(2)[OF j] .
  qed
  then have "\<exists>v\<in>set (d_values d). mget st (d_name d) = Some (v_name v)" if "d \<in> set s" for d
    using that by (auto simp: in_set_conv_nth)
  with dom show ?thesis
    using c unfolding complete_set_def by auto
qed

section \<open>The candidates of a batch\<close>

lemma make_candidate_spec:
  assumes s: "\<forall>d\<in>set s. real_dim d" "wf_schema s"
    and pins: "valid_set s pins" "wfm pins"
    and parents: "\<forall>p\<in>set parents. valid_set s (c_traits p)"
  shows "\<exists>c. make_candidate s (boost s (map c_traits parents) (Fin 3)) pins parents turn n i = Some c
    \<and> c_seed c = n \<and> complete_set s (c_traits c)
    \<and> (\<forall>k v. mget pins k = Some v \<longrightarrow> mget (c_traits c) k = Some v)
    \<and> c_mode c = (if parents \<noteq> [] \<and> i < 2 then ''neighbor''
         else if parents \<noteq> [] \<and> i = 2 then ''boosted'' else ''explore'')
    \<and> (c_mode c = ''neighbor'' \<longrightarrow> c_parent c \<in> c_seed ` set parents)"
proof -
  let ?b = "boost s (map c_traits parents) (Fin 3)"
  have dn: "distinct (map d_name s)" using s(2) by (simp add: wf_schema_def)
  have three: "0 < Fin 3" "is_f64 (Fin 3)" by (simp_all add: f64_ops is_f64_numeral)
  note b = boost_wf[OF s three, of "map c_traits parents"]
  obtain st r1 where st: "derive s (new_pcg n 2) = Some (st, r1)" "complete_set s st"
    using derive_complete[OF s] by blast
  obtain bt r2 where bt: "derive ?b (new_pcg n 2) = Some (bt, r2)" "complete_set ?b bt"
    using derive_complete[of ?b] b by blast
  have btc: "complete_set s bt" using complete_set_boost b bt(2) by blast
  let ?p = "parents ! (((turn mod length parents) * 2 + i) mod length parents)"
  have mem: "parents \<noteq> [] \<Longrightarrow> ?p \<in> set parents" by simp
  have inh: "parents \<noteq> [] \<Longrightarrow> complete_set s (inherit_traits s pins (c_traits ?p) st)"
    using mem parents inherit_traits_complete[OF _ dn st(2)] by blast
  show ?thesis
    using st bt btc mem inh lay_pins_complete[OF pins(1) dn] lay_pins_wins[OF pins(2)]
    by (auto simp: make_candidate_def Let_def)
qed

lemma public_spec:
  assumes s: "\<forall>d\<in>set s. real_dim d" "schema_validate s = None"
    and pins: "valid_set s pins" "wfm pins"
    and parents: "length parents \<le> 4"
      "\<forall>p\<in>set parents. valid_set s (c_traits p) \<and> length (c_traits p) = length s"
    and recent: "length recent \<le> 124" and turn: "0 \<le> turn"
  shows "\<exists>cs. public s pins parents seed turn recent = Some (Inr cs) \<and> length cs = 4
    \<and> distinct (map c_seed cs) \<and> c_seed ` set cs \<inter> set recent = {}
    \<and> (\<forall>c\<in>set cs. complete_set s (c_traits c)
          \<and> (\<forall>k v. mget pins k = Some v \<longrightarrow> mget (c_traits c) k = Some v))
    \<and> (parents \<noteq> [] \<longrightarrow> map c_mode cs = [''neighbor'', ''neighbor'', ''boosted'', ''explore''])"
proof -
  let ?mk = "make_candidate s (boost s (map c_traits parents) (Fin 3)) pins parents (nat turn)"
  have wf: "wf_schema s" using s validate_from_iff[of s "[]" "[]"] by (simp add: schema_validate_def)
  note spec = make_candidate_spec[OF s(1) wf pins, of parents "nat turn"]
  have spec': "c_seed c = m \<and> complete_set s (c_traits c)
      \<and> (\<forall>k v. mget pins k = Some v \<longrightarrow> mget (c_traits c) k = Some v)
      \<and> c_mode c = (if parents \<noteq> [] \<and> i < 2 then ''neighbor''
           else if parents \<noteq> [] \<and> i = 2 then ''boosted'' else ''explore'')"
    if "?mk m i = Some c" for m i c
    using spec[of m i] parents(2) that by fastforce
  have mk: "\<exists>c. ?mk m i = Some c" for m i using spec[of m i] parents(2) by blast
  obtain cs where cs: "public_loop ?mk seed recent [] 128 = Some cs"
    using public_loop_total[of ?mk] mk by blast
  have "card (set recent \<inter> (\<lambda>k. seed + of_nat k) ` {..<128}) \<le> length recent"
    by (meson List.finite_set card_length card_mono inf_le1 le_trans)
  then have four: "length cs = 4"
    using public_loop_full[OF mk cs] recent by simp
  have nth: "\<exists>m. m \<notin> set recent \<and> ?mk m j = Some (cs ! j)" if "j < 4" for j
    using public_loop_members[OF cs, of "\<lambda>_ _ _. True" j] four that by auto
  have "distinct (map c_seed cs)"
    by (rule public_loop_distinct[OF _ cs]) (use spec' in auto)
  moreover have "c_seed ` set cs \<inter> set recent = {}"
    using nth spec' four by (fastforce simp: in_set_conv_nth)
  moreover have "\<forall>c\<in>set cs. complete_set s (c_traits c)
      \<and> (\<forall>k v. mget pins k = Some v \<longrightarrow> mget (c_traits c) k = Some v)"
    using nth spec' four by (fastforce simp: in_set_conv_nth)
  moreover have "map c_mode cs = [''neighbor'', ''neighbor'', ''boosted'', ''explore'']" if "parents \<noteq> []"
  proof (rule nth_equalityI)
    fix j assume "j < length (map c_mode cs)"
    then have j: "j < 4" "j = 0 \<or> j = 1 \<or> j = 2 \<or> j = 3" using four by auto
    obtain m where "?mk m j = Some (cs ! j)" using nth[OF j(1)] by blast
    then have "c_mode (cs ! j) = (if j < 2 then ''neighbor'' else if j = 2 then ''boosted'' else ''explore'')"
      using spec' that by auto
    then show "map c_mode cs ! j = [''neighbor'', ''neighbor'', ''boosted'', ''explore''] ! j"
      using j four by (elim disjE) simp_all
  qed (simp add: four)
  moreover have "public s pins parents seed turn recent = Some (Inr cs)"
  proof -
    have "\<not> list_ex (\<lambda>p. \<not> valid_set s (c_traits p) \<or> length (c_traits p) \<noteq> length s) parents"
      using parents(2) by (auto simp: list_ex_iff)
    moreover have "\<not> (length parents > 4 \<or> length recent > 128 \<or> turn < 0)"
      using parents(1) recent turn by simp
    ultimately show ?thesis
      using pins(1) by (simp only: public_def if_False not_not simp_thms cs option.map)
  qed
  ultimately show ?thesis using four by (intro exI[of _ cs] conjI impI) assumption+
qed

text \<open>C37: for a valid request the public planner returns exactly four candidates whenever at most
  124 seeds are recent, whatever the 64-bit start seed, wrap-around included. Their seeds are
  pairwise different and not recent; each has a complete valid choice for every dimension, in which
  every pin is kept; the first two follow a selected parent and the third is boosted.\<close>

theorem public_candidates:
  assumes s: "\<forall>d\<in>set s. real_dim d" "schema_validate s = None"
    and pins: "valid_set s pins" "wfm pins"
    and parents: "length parents \<le> 4"
      "\<forall>p\<in>set parents. valid_set s (c_traits p) \<and> length (c_traits p) = length s"
    and recent: "length recent \<le> 124" and turn: "0 \<le> turn"
  shows "\<exists>cs. public s pins parents seed turn recent = Some (Inr cs) \<and> length cs = 4
    \<and> distinct (map c_seed cs) \<and> c_seed ` set cs \<inter> set recent = {}
    \<and> (\<forall>c\<in>set cs. complete_set s (c_traits c)
          \<and> (\<forall>k v. mget pins k = Some v \<longrightarrow> mget (c_traits c) k = Some v))
    \<and> (parents \<noteq> [] \<longrightarrow> map c_mode cs = [''neighbor'', ''neighbor'', ''boosted'', ''explore''])"
  by (rule public_spec[OF assms])

text \<open>A liked recipe in the space of the witness schema.\<close>

definition demo_parent :: candidate where
  "demo_parent = \<lparr>c_seed = 5, c_traits = [(''fill'', ''open''), (''grain'', ''fine'')],
     c_mode = '''', c_parent = 0\<rparr>"

theorem public_candidates_witness:
  "\<exists>cs. public demo_schema [(''fill'', ''none'')] [demo_parent] (- 2) 3 [0, 1] = Some (Inr cs)
     \<and> length cs = 4"
  using public_candidates[OF demo_real demo_valid, of "[(''fill'', ''none'')]" "[demo_parent]" "[0, 1]" 3 "- 2"]
  by (auto simp: valid_set_def demo_schema_def demo_parent_def dim_has_def wfm_def)

end
