(* ===== verification/Strconv.thy ===== *)
theory Strconv
  imports Rand
begin

text \<open>
  Go's \<open>strconv\<close> on decimal integers, as the seeds of recipes use it: \<open>FormatUint(n, 10)\<close> and
  \<open>ParseUint(s, 10, 64)\<close>, which accepts digits only and fails on overflow; and \<open>%d\<close>.
\<close>

definition digit_char :: "nat \<Rightarrow> char" where
  "digit_char d = char_of (48 + d)"

fun format_nat :: "nat \<Rightarrow> string" where
  "format_nat n = (if n < 10 then [digit_char n] else format_nat (n div 10) @ [digit_char (n mod 10)])"

declare format_nat.simps [simp del]

definition format_uint :: "u64 \<Rightarrow> string" where
  "format_uint u = format_nat (unat u)"

definition format_int :: "int \<Rightarrow> string" where
  "format_int i = (if i < 0 then CHR ''-'' # format_nat (nat (- i)) else format_nat (nat i))"

definition digit_val :: "char \<Rightarrow> nat option" where
  "digit_val c = (let n = of_char c :: nat in if 48 \<le> n \<and> n \<le> 57 then Some (n - 48) else None)"

fun parse_digits :: "nat \<Rightarrow> string \<Rightarrow> nat option" where
  "parse_digits acc [] = Some acc"
| "parse_digits acc (c # cs) =
     (case digit_val c of None \<Rightarrow> None | Some d \<Rightarrow> parse_digits (10 * acc + d) cs)"

definition parse_uint :: "string \<Rightarrow> u64 option" where
  "parse_uint s = (if s = '''' then None
     else case parse_digits 0 s of
            None \<Rightarrow> None
          | Some n \<Rightarrow> if n < 2 ^ 64 then Some (of_nat n) else None)"

text \<open>The value \<open>ParseUint\<close> returns when its error is ignored: the maximum out of range, else 0.\<close>

definition parse_uint_value :: "string \<Rightarrow> u64" where
  "parse_uint_value s = (case parse_uint s of Some v \<Rightarrow> v
     | None \<Rightarrow> if s \<noteq> '''' \<and> list_all (\<lambda>c. digit_val c \<noteq> None) s then - 1 else 0)"

lemma digit_val_digit: "d < 10 \<Longrightarrow> digit_val (digit_char d) = Some d"
  by (simp add: digit_val_def digit_char_def Let_def)

lemma parse_digits_append:
  "parse_digits acc (s @ t) = (case parse_digits acc s of None \<Rightarrow> None | Some n \<Rightarrow> parse_digits n t)"
  by (induction s arbitrary: acc) (auto split: option.splits)

lemma parse_format_nat: "parse_digits 0 (format_nat n) = Some n"
proof (induction n rule: format_nat.induct)
  case (1 n)
  show ?case
  proof (cases "n < 10")
    case True
    then show ?thesis by (simp add: format_nat.simps[of n] digit_val_digit)
  next
    case False
    with 1 show ?thesis
      by (simp add: format_nat.simps[of n] parse_digits_append digit_val_digit)
  qed
qed

lemma format_nat_nonempty [simp]: "format_nat n \<noteq> ''''"
  by (subst format_nat.simps) simp

lemma parse_format_uint [simp]: "parse_uint (format_uint u) = Some u"
  using unsigned_less[of u]
  by (simp add: parse_uint_def format_uint_def parse_format_nat)

lemma format_uint_inj: "format_uint a = format_uint b \<longleftrightarrow> a = b"
  by (metis option.inject parse_format_uint)

end
