(* ===== verification/Opt.thy ===== *)
theory Opt
  imports Strconv
begin

text \<open>
  \<open>internal/opt/opt.go\<close>: a sketch's numeric command line options as a list of declared knobs. The
  closures of a Go knob (\<open>reg\<close>, \<open>check\<close>, \<open>show\<close>) are determined by its kind and bounds, so a knob
  is data here; the variables the knobs point to are one map from flag name to value. What \<open>%g\<close>
  prints for a float is the parameter \<open>fg\<close>.
\<close>

datatype kval = VFloat f64 | VInt int | VUint u64 | VBool bool | VStr string

datatype kkind = KFloat f64 f64 | KInt int int | KUint | KBool | KChoice "string list"

record knob =
  k_name :: string
  k_doc :: string
  k_tag :: string
  k_kind :: kkind

datatype opt_err =
    FloatRange string f64 f64
  | IntRange string int int
  | NotOneOf string "string list"

text \<open>
  \<open>os_visited\<close> is what \<open>FlagSet.Visit\<close> reports, \<open>None\<close> before \<open>Flags\<close> ran; \<open>os_applied\<close> records
  the calls of the \<open>apply\<close> callbacks of choice knobs with the chosen index.
\<close>

record optset =
  os_knobs :: "knob list"
  os_vals :: "(string, kval) gomap"
  os_visited :: "string list option"
  os_seen :: "string list"
  os_applied :: "(string \<times> nat) list"

definition new_optset :: optset where
  "new_optset = \<lparr>os_knobs = [], os_vals = [], os_visited = None, os_seen = [], os_applied = []\<rparr>"

definition declare_knob :: "knob \<Rightarrow> kval \<Rightarrow> optset \<Rightarrow> optset" where
  "declare_knob k v s = s\<lparr>os_knobs := os_knobs s @ [k], os_vals := mput (k_name k) v (os_vals s)\<rparr>"

definition opt_float :: "string \<Rightarrow> string \<Rightarrow> string \<Rightarrow> f64 \<Rightarrow> f64 \<Rightarrow> f64 \<Rightarrow> optset \<Rightarrow> optset" where
  "opt_float name doc tag lo hi dst =
     declare_knob \<lparr>k_name = name, k_doc = doc, k_tag = tag, k_kind = KFloat lo hi\<rparr> (VFloat dst)"

definition opt_int :: "string \<Rightarrow> string \<Rightarrow> string \<Rightarrow> int \<Rightarrow> int \<Rightarrow> int \<Rightarrow> optset \<Rightarrow> optset" where
  "opt_int name doc tag lo hi dst =
     declare_knob \<lparr>k_name = name, k_doc = doc, k_tag = tag, k_kind = KInt lo hi\<rparr> (VInt dst)"

definition opt_uint64 :: "string \<Rightarrow> string \<Rightarrow> string \<Rightarrow> u64 \<Rightarrow> optset \<Rightarrow> optset" where
  "opt_uint64 name doc tag dst =
     declare_knob \<lparr>k_name = name, k_doc = doc, k_tag = tag, k_kind = KUint\<rparr> (VUint dst)"

definition opt_bool :: "string \<Rightarrow> string \<Rightarrow> string \<Rightarrow> bool \<Rightarrow> optset \<Rightarrow> optset" where
  "opt_bool name doc tag dst =
     declare_knob \<lparr>k_name = name, k_doc = doc, k_tag = tag, k_kind = KBool\<rparr> (VBool dst)"

fun join_with :: "string \<Rightarrow> string list \<Rightarrow> string" where
  "join_with sep [] = ''''"
| "join_with sep [p] = p"
| "join_with sep (p # ps) = p @ sep @ join_with sep ps"

definition opt_choice :: "string \<Rightarrow> string \<Rightarrow> string \<Rightarrow> string list \<Rightarrow> string \<Rightarrow> optset \<Rightarrow> optset" where
  "opt_choice name doc tag values dst =
     declare_knob \<lparr>k_name = name, k_doc = doc @ '': '' @ join_with ''|'' values, k_tag = tag,
                   k_kind = KChoice values\<rparr> (VStr dst)"

fun index_of :: "string \<Rightarrow> string list \<Rightarrow> nat option" where
  "index_of x [] = None"
| "index_of x (v # vs) = (if v = x then Some 0 else map_option Suc (index_of x vs))"

text \<open>The check of one knob against the value it points to, with the callback it makes.\<close>

fun knob_check :: "knob \<Rightarrow> kval \<Rightarrow> (opt_err + nat option)" where
  "knob_check k v = (case (k_kind k, v) of
       (KFloat lo hi, VFloat x) \<Rightarrow>
         if x = NaN \<or> x = Inf True \<or> x = Inf False \<or> x < lo \<or> x > hi
         then Inl (FloatRange (k_name k) lo hi) else Inr None
     | (KInt lo hi, VInt x) \<Rightarrow>
         if x < lo \<or> x > hi then Inl (IntRange (k_name k) lo hi) else Inr None
     | (KChoice values, VStr x) \<Rightarrow>
         (case index_of x values of
            Some i \<Rightarrow> Inr (Some i)
          | None \<Rightarrow> Inl (NotOneOf (k_name k) values))
     | _ \<Rightarrow> Inr None)"

fun knob_show :: "(f64 \<Rightarrow> string) \<Rightarrow> knob \<Rightarrow> kval \<Rightarrow> string" where
  "knob_show fg k (VFloat x) = k_tag k @ fg x"
| "knob_show fg k (VInt x) = k_tag k @ format_int x"
| "knob_show fg k (VUint x) = k_tag k @ format_uint x"
| "knob_show fg k (VBool b) = (if b then k_tag k else '''')"
| "knob_show fg k (VStr x) = k_tag k @ x"

definition knob_val :: "optset \<Rightarrow> knob \<Rightarrow> kval" where
  "knob_val s k = (case mget (os_vals s) (k_name k) of Some v \<Rightarrow> v | None \<Rightarrow> VBool False)"

text \<open>The loop over the knobs in declaration order: the callbacks made and the filename parts.\<close>

fun validate_knobs :: "(f64 \<Rightarrow> string) \<Rightarrow> optset \<Rightarrow> knob list \<Rightarrow> (string \<times> nat) list
    \<Rightarrow> (string \<times> nat) list \<times> (opt_err + string list)" where
  "validate_knobs fg s [] app = (app, Inr [])"
| "validate_knobs fg s (k # ks) app =
     (if k_name k \<notin> set (os_seen s) then validate_knobs fg s ks app
      else case knob_check k (knob_val s k) of
             Inl e \<Rightarrow> (app, Inl e)
           | Inr cb \<Rightarrow>
               (let app' = (case cb of None \<Rightarrow> app | Some i \<Rightarrow> app @ [(k_name k, i)]);
                    p = knob_show fg k (knob_val s k);
                    (app'', r) = validate_knobs fg s ks app'
                in (app'', if k_tag k = '''' \<or> p = '''' then r else map_sum id ((#) p) r)))"

definition optset_validate :: "(f64 \<Rightarrow> string) \<Rightarrow> optset \<Rightarrow> optset \<times> (opt_err + string)" where
  "optset_validate fg s = (let (app, r) = validate_knobs fg s (os_knobs s) (os_applied s)
     in (s\<lparr>os_applied := app\<rparr>,
         map_sum id (\<lambda>parts. if parts = [] then '''' else ''-'' @ join_with ''-'' parts) r))"

text \<open>\<open>Configure\<close> reads which flags were visited, \<open>Apply\<close> is told which fields were assigned.\<close>

definition optset_configure :: "(f64 \<Rightarrow> string) \<Rightarrow> optset \<Rightarrow> optset \<times> (opt_err + string)" where
  "optset_configure fg s = optset_validate fg
     (s\<lparr>os_seen := (case os_visited s of None \<Rightarrow> [] | Some fs \<Rightarrow> fs)\<rparr>)"

definition optset_apply :: "(f64 \<Rightarrow> string) \<Rightarrow> string list \<Rightarrow> optset \<Rightarrow> optset \<times> (opt_err + string)" where
  "optset_apply fg names s = optset_validate fg (s\<lparr>os_seen := names\<rparr>)"

definition was_set :: "optset \<Rightarrow> string \<Rightarrow> bool" where
  "was_set s name \<longleftrightarrow> name \<in> set (os_seen s)"

section \<open>What validation accepts\<close>

text \<open>The value a knob points to is inside its declared bounds.\<close>

definition knob_ok :: "optset \<Rightarrow> knob \<Rightarrow> bool" where
  "knob_ok s k \<longleftrightarrow> (case k_kind k of
       KFloat lo hi \<Rightarrow> (\<forall>x. knob_val s k = VFloat x \<longrightarrow>
          (\<exists>q. x = Fin q) \<and> \<not> x < lo \<and> \<not> hi < x)
     | KInt lo hi \<Rightarrow> (\<forall>x. knob_val s k = VInt x \<longrightarrow> lo \<le> x \<and> x \<le> hi)
     | KChoice values \<Rightarrow> (\<forall>x. knob_val s k = VStr x \<longrightarrow> x \<in> set values)
     | _ \<Rightarrow> True)"

lemma index_of_None: "index_of x vs = None \<longleftrightarrow> x \<notin> set vs"
  by (induction vs) auto

lemma knob_check_ok: "(\<exists>cb. knob_check k (knob_val s k) = Inr cb) \<longleftrightarrow> knob_ok s k"
proof (cases "k_kind k")
  case (KFloat lo hi)
  then show ?thesis
    by (cases "knob_val s k"; simp add: knob_ok_def) (metis f64.exhaust f64.distinct(1,3,5) f64.simps)
next
  case (KChoice vs)
  show ?thesis
  proof (cases "knob_val s k")
    case (VStr x)
    with KChoice index_of_None[of x vs] show ?thesis
      by (cases "index_of x vs") (simp_all add: knob_ok_def)
  qed (use KChoice in \<open>simp_all add: knob_ok_def\<close>)
qed (cases "knob_val s k"; auto simp: knob_ok_def)+

lemma validate_knobs_ok:
  "(\<exists>app' parts. validate_knobs fg s ks app = (app', Inr parts))
     \<longleftrightarrow> (\<forall>k\<in>set ks. k_name k \<in> set (os_seen s) \<longrightarrow> knob_ok s k)"
proof (induction ks arbitrary: app)
  case (Cons k ks)
  show ?case
  proof (cases "k_name k \<in> set (os_seen s)")
    case True
    show ?thesis
    proof (cases "knob_check k (knob_val s k)")
      case (Inl e)
      with True knob_check_ok[of k s] show ?thesis by auto
    next
      case (Inr cb)
      then have ok: "knob_ok s k" using knob_check_ok by blast
      define app1 where "app1 = (case cb of None \<Rightarrow> app | Some i \<Rightarrow> app @ [(k_name k, i)])"
      obtain app2 r where r: "validate_knobs fg s ks app1 = (app2, r)" by force
      show ?thesis
        using Cons.IH[of app1] True Inr ok r by (cases r) (auto simp: Let_def app1_def[symmetric])
    qed
  next
    case False
    with Cons.IH[of app] show ?thesis by auto
  qed
qed simp

text \<open>C40: validation accepts exactly when every knob that was set points to a value inside its
  declared bounds; NaN and the infinities are never inside, and a knob left alone is never
  rejected whatever its default is.\<close>

theorem optset_apply_accepts_iff:
  "(\<exists>suffix. snd (optset_apply fg names s) = Inr suffix)
     \<longleftrightarrow> (\<forall>k\<in>set (os_knobs s). k_name k \<in> set names \<longrightarrow> knob_ok s k)"
proof -
  let ?s = "s\<lparr>os_seen := names\<rparr>"
  obtain app r where v: "validate_knobs fg ?s (os_knobs s) (os_applied s) = (app, r)" by force
  have "knob_val ?s = knob_val s" by (rule ext) (simp add: knob_val_def)
  then have same: "knob_ok ?s k = knob_ok s k" for k unfolding knob_ok_def by (simp only:)
  show ?thesis
    using validate_knobs_ok[of fg ?s "os_knobs s" "os_applied s"] v same
    by (cases r) (simp_all add: optset_apply_def optset_validate_def)
qed

theorem optset_apply_accepts_iff_witness:
  "\<not> (\<exists>suffix. snd (optset_apply (\<lambda>_. '''') [''octaves'']
       (opt_int ''octaves'' '''' ''oc'' 1 8 9 new_optset)) = Inr suffix)"
  by (subst optset_apply_accepts_iff)
     (simp add: opt_int_def declare_knob_def new_optset_def knob_ok_def knob_val_def)


end
