(* ===== verification/Palette.thy ===== *)
theory Palette
  imports Prelude
begin

text \<open>
  \<open>internal/palette\<close>: the table of artist palettes with its slugs and colour literals (the artist
  and title texts, which no operation reads, are left out) and the lookup by slug.
\<close>

record palette =
  p_slug :: string
  p_colors :: "string list"

abbreviation mk_pal :: "string \<Rightarrow> string list \<Rightarrow> palette" where
  "mk_pal s cs \<equiv> \<lparr>p_slug = s, p_colors = cs\<rparr>"

definition palettes :: "palette list" where
  "palettes = [
   mk_pal ''staticart-seven'' [''#ED6A5A'', ''#F4F1BB'', ''#9BC1BC'', ''#5CA4A9'', ''#E6EBE0''],
   mk_pal ''zander-spindle'' [''#5EB0D0'', ''#9ED4E6'', ''#F0D070'', ''#E09438'', ''#C06018''],
   mk_pal ''albers-luminous-day'' [''#D77186'', ''#61A2DA'', ''#6CB7DA'', ''#B5B5B3'', ''#D75725''],
   mk_pal ''albers-tehuana'' [''#C00559'', ''#DE1F6C'', ''#F3A20D'', ''#F07A13'', ''#DE6716''],
   mk_pal ''albrecht-golden-cloud'' [''#171635'', ''#00225D'', ''#763262'', ''#CA7508'', ''#E9A621''],
   mk_pal ''apple-rainbow'' [''#F24D98'', ''#813B7C'', ''#59D044'', ''#F3A002'', ''#F2F44D''],
   mk_pal ''arnoldi-spar'' [''#C2151B'', ''#2021A0'', ''#3547B3'', ''#E2C43F'', ''#E0DCDD''],
   mk_pal ''avery-bicycle-rider'' [''#F3C937'', ''#7B533E'', ''#BFA588'', ''#604847'', ''#552723''],
   mk_pal ''avery-cello-player'' [''#E2CACD'', ''#2E7CA8'', ''#F1C061'', ''#DA7338'', ''#741D13''],
   mk_pal ''afklint-swan'' [''#D6CFC4'', ''#466CA6'', ''#D1AE45'', ''#87240E'', ''#040204''],
   mk_pal ''basquiat-black-king'' [''#8CABD9'', ''#F6A7B8'', ''#F1EC7A'', ''#1D4D9F'', ''#F08838''],
   mk_pal ''basquiat-dustheads'' [''#C11432'', ''#009ADA'', ''#66A64F'', ''#FDD10A'', ''#070707''],
   mk_pal ''beckmann-dancing-bar'' [''#4B3A51'', ''#A77A4B'', ''#ECC6A2'', ''#A43020'', ''#722D24''],
   mk_pal ''botero-seated-nude'' [''#99B6BD'', ''#B3A86A'', ''#ECC9A0'', ''#D4613E'', ''#BB9568''],
   mk_pal ''botticelli-venus'' [''#7A989A'', ''#849271'', ''#C1AE8D'', ''#CF9546'', ''#C67052''],
   mk_pal ''botticelli-dante'' [''#272725'', ''#DDBD85'', ''#DA694F'', ''#A54A48'', ''#FDFFE5''],
   mk_pal ''bruegel-icarus'' [''#BFBED5'', ''#7F9086'', ''#A29A68'', ''#676A4F'', ''#A63C24''],
   mk_pal ''bush-striped-column'' [''#529DCB'', ''#ECA063'', ''#71BF50'', ''#F3CC4F'', ''#D46934''],
   mk_pal ''bush-nude'' [''#A1D8B6'', ''#D2C48E'', ''#F45F40'', ''#F9AE8D'', ''#80B9CE''],
   mk_pal ''cassatt-letter'' [''#1C5679'', ''#BBB592'', ''#CAC3B2'', ''#808C5C'', ''#5F4B3B''],
   mk_pal ''cezanne-bathers'' [''#8399B3'', ''#697A55'', ''#C4AA88'', ''#B68E52'', ''#8C5B28''],
   mk_pal ''chagall-mariee'' [''#3F6F76'', ''#69B7CE'', ''#C65840'', ''#F4CE4B'', ''#62496F''],
   mk_pal ''coolidge-poker-game'' [''#204035'', ''#4A7169'', ''#BEB59C'', ''#735231'', ''#49271B''],
   mk_pal ''dali-memory'' [''#40798C'', ''#BCA455'', ''#BFB37F'', ''#805730'', ''#514A2E''],
   mk_pal ''dali-apparition'' [''#9BC0CC'', ''#CAD8D8'', ''#D0CE9F'', ''#806641'', ''#534832''],
   mk_pal ''davinci-mona-lisa'' [''#C8B272'', ''#A88B4C'', ''#A0A584'', ''#697153'', ''#43362A''],
   mk_pal ''davis-anthracite-minuet'' [''#293757'', ''#568D4B'', ''#D5BB56'', ''#D26A1B'', ''#A41D1A''],
   mk_pal ''dechirico-melancholy'' [''#27403D'', ''#48725C'', ''#212412'', ''#F3E4C2'', ''#D88F2E''],
   mk_pal ''dechirico-red-tower'' [''#2992BF'', ''#4CBED9'', ''#292C17'', ''#F9F6EF'', ''#F0742A''],
   mk_pal ''degas-milliner'' [''#BDB592'', ''#ACBBC5'', ''#9E8D3D'', ''#8C4F36'', ''#2C2D2C''],
   mk_pal ''delaunay-bleriot'' [''#4368B6'', ''#78A153'', ''#DEC23B'', ''#E4930A'', ''#C53211''],
   mk_pal ''delaunay-air-iron-water'' [''#A4B7E1'', ''#B8B87A'', ''#EFDE80'', ''#EFBD37'', ''#A85E5E''],
   mk_pal ''demuth-figure-5'' [''#E4AF79'', ''#DF9C41'', ''#AF7231'', ''#923621'', ''#2D2A28''],
   mk_pal ''diebenkorn-seawall'' [''#2677A5'', ''#639BC1'', ''#639BC1'', ''#90A74A'', ''#5D8722''],
   mk_pal ''dix-nun'' [''#1E1D20'', ''#B66636'', ''#547A56'', ''#BDAE5B'', ''#515A7C''],
   mk_pal ''dix-mayer-hermann'' [''#E0DBC8'', ''#C9BE90'', ''#76684B'', ''#CDAB7E'', ''#3C2B23''],
   mk_pal ''duchamp-landscape'' [''#D0CEC2'', ''#7BAA80'', ''#4B6B5E'', ''#BF9A41'', ''#980019''],
   mk_pal ''durer-turf'' [''#657359'', ''#9AA582'', ''#8B775F'', ''#D7C9BE'', ''#F1E4DB''],
   mk_pal ''ernst-woman-old-man'' [''#91323A'', ''#3A4960'', ''#D7C969'', ''#6D7345'', ''#554540''],
   mk_pal ''escher-gravity'' [''#C1395E'', ''#AEC17B'', ''#F0CA50'', ''#E07B42'', ''#89A7C2''],
   mk_pal ''feeley-april-15'' [''#2C458D'', ''#E4DFD9'', ''#425B4F'', ''#EBAD30'', ''#BF2124''],
   mk_pal ''feitelson-1964'' [''#202221'', ''#661E2A'', ''#AB381B'', ''#EAD4A3'', ''#E3DED8''],
   mk_pal ''frankenthaler-mauve-district'' [''#5D7342'', ''#D7AE04'', ''#ECD7B8'', ''#A58B8C'', ''#272727''],
   mk_pal ''freud-girl-kitten'' [''#E1D2BD'', ''#A77E5E'', ''#2D291D'', ''#85868B'', ''#83774D''],
   mk_pal ''frost-suspended-forms'' [''#EF5950'', ''#8D5A78'', ''#C66F26'', ''#FB6B22'', ''#DC2227''],
   mk_pal ''gauguin-siesta'' [''#21344F'', ''#8AAD05'', ''#E2CE1B'', ''#DF5D22'', ''#E17976''],
   mk_pal ''geiger-pink-orange'' [''#FF62A9'', ''#F77177'', ''#FA9849'', ''#FE6E3A'', ''#FD5A35''],
   mk_pal ''hockney-bigger-splash'' [''#79BED9'', ''#126599'', ''#CABD8A'', ''#497E58'', ''#B28D7B''],
   mk_pal ''hockney-man-shower'' [''#BF9FB7'', ''#A65899'', ''#55AC97'', ''#ECBF00'', ''#211F20''],
   mk_pal ''hockney-lawson-sleep'' [''#A63F5A'', ''#B4D2D9'', ''#3E797A'', ''#F2E7AE'', ''#8C7D61''],
   mk_pal ''hofmann-wind'' [''#1A6DED'', ''#2C7CE6'', ''#145CBF'', ''#162B3D'', ''#F9ECE4''],
   mk_pal ''hokusai-great-wave'' [''#1F284C'', ''#2D4472'', ''#6E6352'', ''#D9CCAC'', ''#ECE2C6''],
   mk_pal ''homer-clams'' [''#A9944A'', ''#F2D9B3'', ''#725435'', ''#8E9DBF'', ''#BD483C''],
   mk_pal ''hopper-night-windows'' [''#67161C'', ''#3F6148'', ''#DBD3A4'', ''#A4804C'', ''#4B5F80''],
   mk_pal ''indiana-love'' [''#2659D8'', ''#1C6FF3'', ''#5EBC4E'', ''#53A946'', ''#F24534''],
   mk_pal ''jean-rift-scull'' [''#51394E'', ''#F6DE7D'', ''#C8AF8A'', ''#658385'', ''#B04838''],
   mk_pal ''johns-target'' [''#4B6892'', ''#F9E583'', ''#FED43F'', ''#F6BD28'', ''#BE4C46''],
   mk_pal ''kahlo-self-portrait'' [''#121510'', ''#6D8325'', ''#D6CFB7'', ''#E5AD4F'', ''#BD5630''],
   mk_pal ''kandinsky-apple-tree'' [''#5D7388'', ''#A08F27'', ''#E5A729'', ''#4F4D1D'', ''#8AAE8A''],
   mk_pal ''kandinsky-soft-pressure'' [''#D2981A'', ''#A53E1F'', ''#457277'', ''#8DCEE2'', ''#8F657D''],
   mk_pal ''kandinsky-zig-zags'' [''#C13C53'', ''#DA73A8'', ''#4052BD'', ''#EFE96D'', ''#D85143''],
   mk_pal ''klee-destruction-hope'' [''#A7B3CD'', ''#E6DA9E'', ''#676155'', ''#CDB296'', ''#CCD7AD''],
   mk_pal ''klee-fire-evening'' [''#4F51FE'', ''#8C1E92'', ''#FF4E0B'', ''#CD2019'', ''#441C21''],
   mk_pal ''klein-anthropometry'' [''#344CB9'', ''#1B288A'', ''#0F185B'', ''#D7C99A'', ''#F2E4C7''],
   mk_pal ''klimt-kiss'' [''#4A5FAB'', ''#609F5C'', ''#E3C454'', ''#A27CBA'', ''#B85031''],
   mk_pal ''koons-pink-panther'' [''#D6AABE'', ''#B69F7F'', ''#ECD9AD'', ''#76A9A2'', ''#A26775''],
   mk_pal ''krasner-1949'' [''#333333'', ''#D1B817'', ''#2A2996'', ''#B34325'', ''#C8CCC6''],
   mk_pal ''lawrence-street-shadows'' [''#614671'', ''#BE994A'', ''#C8B595'', ''#BD4335'', ''#8B3834''],
   mk_pal ''lawrence-library'' [''#5E3194'', ''#9870B9'', ''#F1B02F'', ''#EA454C'', ''#CC0115''],
   mk_pal ''lewitt-squiggles'' [''#0A71B6'', ''#F9C40A'', ''#190506'', ''#EB5432'', ''#EAF2F0''],
   mk_pal ''lichtenstein-kiss-ii'' [''#3229AD'', ''#BC000E'', ''#E7CFB7'', ''#FFEC04'', ''#090109''],
   mk_pal ''lichtenstein-hopeless'' [''#00020E'', ''#FFDE01'', ''#A5BAD6'', ''#F1C9C7'', ''#BD0304''],
   mk_pal ''lichtenstein-girl-ball'' [''#C7991F'', ''#C63D33'', ''#23254C'', ''#E0C4AE'', ''#D5D0B2''],
   mk_pal ''malevich-suprematist'' [''#151817'', ''#001A56'', ''#197C3F'', ''#D4A821'', ''#C74C25''],
   mk_pal ''manet-boating'' [''#6486AD'', ''#2D345D'', ''#D9BE7F'', ''#5A3A26'', ''#C6A490''],
   mk_pal ''magritte-son-of-man'' [''#B60614'', ''#3A282F'', ''#909018'', ''#E3BFA1'', ''#EE833E''],
   mk_pal ''magritte-menaced-assassin'' [''#B6B3BB'', ''#697D8E'', ''#B8B87E'', ''#6F5F4B'', ''#292A2D''],
   mk_pal ''masaccio-tax-collector'' [''#0E2523'', ''#324028'', ''#C26B61'', ''#5A788D'', ''#DE7944''],
   mk_pal ''matisse-dance'' [''#2168A6'', ''#165F8C'', ''#03735E'', ''#078C66'', ''#F2A29B''],
   mk_pal ''matisse-collioure'' [''#375C8C'', ''#A69649'', ''#BF7821'', ''#BFAA8F'', ''#D95E52''],
   mk_pal ''michelangelo-adam'' [''#42819F'', ''#86AA7D'', ''#CBB396'', ''#555234'', ''#4D280F''],
   mk_pal ''miro-woman-dog-moon'' [''#C04759'', ''#3B6C73'', ''#383431'', ''#F1D87F'', ''#EDE5D2''],
   mk_pal ''modigliani-zborowska'' [''#1D2025'', ''#45312A'', ''#7E2F28'', ''#202938'', ''#D58E40''],
   mk_pal ''mondrian-boogie-woogie'' [''#314290'', ''#4A71C0'', ''#F1F2ED'', ''#F0D32D'', ''#AB3A2C''],
   mk_pal ''monet-sunflowers'' [''#184430'', ''#548150'', ''#DEB738'', ''#734321'', ''#852419''],
   mk_pal ''monet-water-lilies'' [''#9F4640'', ''#4885A4'', ''#395A92'', ''#7EA860'', ''#B985BA''],
   mk_pal ''monet-parasol'' [''#82A4BC'', ''#4C7899'', ''#2F5136'', ''#B1B94C'', ''#E5DCBE''],
   mk_pal ''munch-scream-pastel'' [''#5059A1'', ''#EFC337'', ''#1F386E'', ''#D1AE82'', ''#BE3B2C''],
   mk_pal ''munch-scream-oil'' [''#272A2A'', ''#E69253'', ''#EDB931'', ''#E4502E'', ''#4378A0''],
   mk_pal ''newman-vir-heroicus'' [''#442327'', ''#C0BC98'', ''#A6885D'', ''#8A3230'', ''#973B2B''],
   mk_pal ''noland-turnsole'' [''#D0D8CD'', ''#586180'', ''#E2AC29'', ''#1A1915'', ''#E6E1CE''],
   mk_pal ''okeeffe-abstraction-blue'' [''#0E122D'', ''#182044'', ''#51628E'', ''#91A1BA'', ''#AFD0C9''],
   mk_pal ''oldenburg-red-tights'' [''#95B1C9'', ''#263656'', ''#698946'', ''#F8D440'', ''#C82720''],
   mk_pal ''picasso-demoiselles'' [''#CD6C74'', ''#566C7D'', ''#DD9D91'', ''#A1544B'', ''#D5898D''],
   mk_pal ''picasso-dream'' [''#4E7989'', ''#A9011B'', ''#E4A826'', ''#80944E'', ''#DCD6B2''],
   mk_pal ''pollock-number-1'' [''#D89CA9'', ''#1962A0'', ''#F1ECD7'', ''#E8C051'', ''#1A1C23''],
   mk_pal ''prince-purple-rain'' [''#735BCC'', ''#6650B4'', ''#59449C'', ''#4B3984'', ''#3E2D6C''],
   mk_pal ''quidor-leatherstocking'' [''#B79A59'', ''#826C37'', ''#54442F'', ''#DBCEAF'', ''#C4AA52''],
   mk_pal ''ramos-tobacco-rose'' [''#C13E43'', ''#376EA5'', ''#565654'', ''#F9D502'', ''#E7CA6B''],
   mk_pal ''redon-green-vase'' [''#695B8F'', ''#B26C61'', ''#C2AF46'', ''#4D5E30'', ''#8B1F1D''],
   mk_pal ''rembrandt-night-watch'' [''#DBC99A'', ''#A68329'', ''#5B5224'', ''#8A350C'', ''#090A04''],
   mk_pal ''renoir-moulin-galette'' [''#2B5275'', ''#A69F55'', ''#F1D395'', ''#FFFBDD'', ''#D16647''],
   mk_pal ''renoir-piano'' [''#303241'', ''#B7A067'', ''#C8C2B2'', ''#686D4F'', ''#4D3930''],
   mk_pal ''riley-diver'' [''#FAB9AC'', ''#7BBC53'', ''#DE6736'', ''#67C1EC'', ''#E6B90D''],
   mk_pal ''rosenquist-marilyn'' [''#E25D75'', ''#3F4C8C'', ''#6A79B0'', ''#D7BC1F'', ''#DCCFAB''],
   mk_pal ''rothko-1968'' [''#E49A16'', ''#E19713'', ''#D67629'', ''#DA6E2E'', ''#D85434''],
   mk_pal ''rothko-white-black-rust'' [''#D5D6D1'', ''#BEC0BF'', ''#5B382C'', ''#39352C'', ''#1B1B1B''],
   mk_pal ''sargent-vickers-children'' [''#B43A35'', ''#3E501E'', ''#F8F2F4'', ''#6B381D'', ''#20242D''],
   mk_pal ''sargent-villa-marlia'' [''#778BD0'', ''#E2D76B'', ''#95BF78'', ''#4E6A3D'', ''#5F4F38''],
   mk_pal ''sargent-carnation-lily'' [''#EEC7A0'', ''#EAA69C'', ''#BD7C96'', ''#A1A481'', ''#D97669''],
   mk_pal ''schlemmer-bauhaus-stairway'' [''#3A488A'', ''#8785B2'', ''#DABD61'', ''#D95F30'', ''#BE3428''],
   mk_pal ''seurat-grande-jatte'' [''#3F3F63'', ''#808EB7'', ''#465946'', ''#8C9355'', ''#925E48''],
   mk_pal ''skoglund-radioactive-cats'' [''#D7F96E'', ''#457D24'', ''#879387'', ''#E1C39F'', ''#394835''],
   mk_pal ''tchelitchew-hide-and-seek'' [''#AC2527'', ''#F8CC5A'', ''#5C8447'', ''#61221A'', ''#2B4868''],
   mk_pal ''turner-val-daosta'' [''#F1ECCE'', ''#9EA3B5'', ''#E9D688'', ''#A85835'', ''#AE8045''],
   mk_pal ''twombly-1961'' [''#F2788F'', ''#F591EA'', ''#F0C333'', ''#F5C2AF'', ''#F23B3F''],
   mk_pal ''ulrich-wine-barrels'' [''#FDDDAB'', ''#E7A974'', ''#A87250'', ''#7B533D'', ''#6A4531''],
   mk_pal ''vandoesburg-russian-dance'' [''#BD748F'', ''#3D578E'', ''#BFAB68'', ''#DAD7D0'', ''#272928''],
   mk_pal ''vandoesburg-composition'' [''#53628D'', ''#B8B45B'', ''#C1C3B6'', ''#984F48'', ''#2E3432''],
   mk_pal ''vaneyck-arnolfini'' [''#3C490C'', ''#3B5B71'', ''#262121'', ''#7C6C4E'', ''#6C2B23''],
   mk_pal ''vangogh-starry-night'' [''#1A3431'', ''#2B41A7'', ''#6283C8'', ''#CCC776'', ''#C7AD24''],
   mk_pal ''vangogh-straw-hat'' [''#FBDC30'', ''#A7A651'', ''#E0BA7A'', ''#9BA7B0'', ''#5A5F80''],
   mk_pal ''vangogh-arles'' [''#374D8D'', ''#93A0CB'', ''#82A866'', ''#C4B743'', ''#A35029''],
   mk_pal ''varo-harmony'' [''#C8DAAD'', ''#989E53'', ''#738D60'', ''#DEBC31'', ''#9D471A''],
   mk_pal ''velazquez-meninas'' [''#413A2C'', ''#241F1A'', ''#C5B49B'', ''#A57F5B'', ''#5C351E''],
   mk_pal ''vermeer-pearl-earring'' [''#0C0B10'', ''#707DA6'', ''#CCAD9D'', ''#B08E4A'', ''#863B34''],
   mk_pal ''vermeer-milkmaid'' [''#022F69'', ''#D6C17A'', ''#D8D0BE'', ''#6B724B'', ''#7C3E2F''],
   mk_pal ''warhol-flowers'' [''#F26386'', ''#F588AF'', ''#A4D984'', ''#FCBC52'', ''#FD814E''],
   mk_pal ''warhol-marilyn'' [''#FD0C81'', ''#FFED4D'', ''#C34582'', ''#EBA49E'', ''#272324''],
   mk_pal ''warhol-liz'' [''#D32934'', ''#2F191B'', ''#2BAA92'', ''#D12E6C'', ''#F4BCB9''],
   mk_pal ''warhol-jagger'' [''#A99364'', ''#DA95AA'', ''#F4F0E4'', ''#B74954'', ''#C2DDB2''],
   mk_pal ''wood-american-gothic'' [''#A6BDB0'', ''#8B842F'', ''#41240B'', ''#9C4823'', ''#D6AA7E''],
   mk_pal ''xanto-maiolica'' [''#2C6AA5'', ''#D9AE2C'', ''#DDC655'', ''#D88C27'', ''#64894D''],
   mk_pal ''youngerman-1953'' [''#59A55D'', ''#EFDB56'', ''#7D9DC6'', ''#ECA23F'', ''#CA4D2A''],
   mk_pal ''zerbe-harlem'' [''#46734F'', ''#CAAB6C'', ''#D0CCAF'', ''#617F97'', ''#9A352D'']]"

definition by_name :: "string \<Rightarrow> palette option" where
  "by_name slug = find (\<lambda>p. p_slug p = slug) palettes"

text \<open>The slugs alone.\<close>

definition palette_slugs :: "string list" where
  "palette_slugs = [
    ''staticart-seven'', ''zander-spindle'', ''albers-luminous-day'', ''albers-tehuana'',
    ''albrecht-golden-cloud'', ''apple-rainbow'', ''arnoldi-spar'', ''avery-bicycle-rider'',
    ''avery-cello-player'', ''afklint-swan'', ''basquiat-black-king'', ''basquiat-dustheads'',
    ''beckmann-dancing-bar'', ''botero-seated-nude'', ''botticelli-venus'', ''botticelli-dante'',
    ''bruegel-icarus'', ''bush-striped-column'', ''bush-nude'', ''cassatt-letter'',
    ''cezanne-bathers'', ''chagall-mariee'', ''coolidge-poker-game'', ''dali-memory'',
    ''dali-apparition'', ''davinci-mona-lisa'', ''davis-anthracite-minuet'',
    ''dechirico-melancholy'', ''dechirico-red-tower'', ''degas-milliner'', ''delaunay-bleriot'',
    ''delaunay-air-iron-water'', ''demuth-figure-5'', ''diebenkorn-seawall'', ''dix-nun'',
    ''dix-mayer-hermann'', ''duchamp-landscape'', ''durer-turf'', ''ernst-woman-old-man'',
    ''escher-gravity'', ''feeley-april-15'', ''feitelson-1964'', ''frankenthaler-mauve-district'',
    ''freud-girl-kitten'', ''frost-suspended-forms'', ''gauguin-siesta'', ''geiger-pink-orange'',
    ''hockney-bigger-splash'', ''hockney-man-shower'', ''hockney-lawson-sleep'', ''hofmann-wind'',
    ''hokusai-great-wave'', ''homer-clams'', ''hopper-night-windows'', ''indiana-love'',
    ''jean-rift-scull'', ''johns-target'', ''kahlo-self-portrait'', ''kandinsky-apple-tree'',
    ''kandinsky-soft-pressure'', ''kandinsky-zig-zags'', ''klee-destruction-hope'',
    ''klee-fire-evening'', ''klein-anthropometry'', ''klimt-kiss'', ''koons-pink-panther'',
    ''krasner-1949'', ''lawrence-street-shadows'', ''lawrence-library'', ''lewitt-squiggles'',
    ''lichtenstein-kiss-ii'', ''lichtenstein-hopeless'', ''lichtenstein-girl-ball'',
    ''malevich-suprematist'', ''manet-boating'', ''magritte-son-of-man'',
    ''magritte-menaced-assassin'', ''masaccio-tax-collector'', ''matisse-dance'',
    ''matisse-collioure'', ''michelangelo-adam'', ''miro-woman-dog-moon'',
    ''modigliani-zborowska'', ''mondrian-boogie-woogie'', ''monet-sunflowers'',
    ''monet-water-lilies'', ''monet-parasol'', ''munch-scream-pastel'', ''munch-scream-oil'',
    ''newman-vir-heroicus'', ''noland-turnsole'', ''okeeffe-abstraction-blue'',
    ''oldenburg-red-tights'', ''picasso-demoiselles'', ''picasso-dream'', ''pollock-number-1'',
    ''prince-purple-rain'', ''quidor-leatherstocking'', ''ramos-tobacco-rose'',
    ''redon-green-vase'', ''rembrandt-night-watch'', ''renoir-moulin-galette'', ''renoir-piano'',
    ''riley-diver'', ''rosenquist-marilyn'', ''rothko-1968'', ''rothko-white-black-rust'',
    ''sargent-vickers-children'', ''sargent-villa-marlia'', ''sargent-carnation-lily'',
    ''schlemmer-bauhaus-stairway'', ''seurat-grande-jatte'', ''skoglund-radioactive-cats'',
    ''tchelitchew-hide-and-seek'', ''turner-val-daosta'', ''twombly-1961'',
    ''ulrich-wine-barrels'', ''vandoesburg-russian-dance'', ''vandoesburg-composition'',
    ''vaneyck-arnolfini'', ''vangogh-starry-night'', ''vangogh-straw-hat'', ''vangogh-arles'',
    ''varo-harmony'', ''velazquez-meninas'', ''vermeer-pearl-earring'', ''vermeer-milkmaid'',
    ''warhol-flowers'', ''warhol-marilyn'', ''warhol-liz'', ''warhol-jagger'',
    ''wood-american-gothic'', ''xanto-maiolica'', ''youngerman-1953'', ''zerbe-harlem'']"
lemma palettes_slugs: "map p_slug palettes = palette_slugs"
  by (simp add: palettes_def palette_slugs_def)
lemma by_name_iff: "by_name slug \<noteq> None \<longleftrightarrow> slug \<in> set palette_slugs"
proof -
  have "by_name slug = None \<longleftrightarrow> slug \<notin> set (map p_slug palettes)"
    by (auto simp: by_name_def find_None_iff)
  then show ?thesis unfolding palettes_slugs by simp
qed

end
