(* ===== verification/Sketches.thy ===== *)
theory Sketches
  imports Explore Opt Palette "HOL-Library.List_Lexorder"
begin

text \<open>
  The three published artworks as data: \<open>internal/sketch/pools\<close>, \<open>foam\<close> and \<open>iris\<close> with their trait
  schemas, their command line knobs in declaration order and the fields of their \<open>Config\<close>; the
  adapter \<open>FromConfig\<close>; and the registry of \<open>internal/sketch/sketch.go\<close> and
  \<open>internal/artwork/registry.go\<close>. The defaults that a seed draws for \<open>--help\<close> (the \<open>pin\<close> fields) are
  the parameter \<open>pin\<close>: a knob left alone is never read from them.
\<close>

record sketch =
  sk_name :: string
  sk_stream :: u64
  sk_traits :: trait_options
  sk_knobs :: optset

text \<open>A decimal literal of the source, rounded to the nearest float.\<close>

definition lit :: "int \<Rightarrow> nat \<Rightarrow> f64" where
  "lit n k = rnd64 (of_int n / 10 ^ k)"

abbreviation tval :: "string \<Rightarrow> f64 \<Rightarrow> trait_value" where
  "tval n w \<equiv> \<lparr>v_name = n, v_weight = w\<rparr>"

definition pin_int :: "(string \<Rightarrow> kval) \<Rightarrow> string \<Rightarrow> int" where
  "pin_int pin k = (case pin k of VInt i \<Rightarrow> i | _ \<Rightarrow> 0)"

definition pin_float :: "(string \<Rightarrow> kval) \<Rightarrow> string \<Rightarrow> f64" where
  "pin_float pin k = (case pin k of VFloat x \<Rightarrow> x | _ \<Rightarrow> 0)"

definition declare_all :: "(optset \<Rightarrow> optset) list \<Rightarrow> optset" where
  "declare_all ds = foldl (\<lambda>s d. d s) new_optset ds"

text \<open>\<open>trait.NewOptions\<close> panics on a malformed schema: \<open>None\<close>.\<close>

definition make_sketch :: "string \<Rightarrow> u64 \<Rightarrow> schema \<Rightarrow> optset \<Rightarrow> sketch option" where
  "make_sketch name stream sch knobs = map_option
     (\<lambda>t. \<lparr>sk_name = name, sk_stream = stream, sk_traits = t, sk_knobs = knobs\<rparr>) (new_options sch)"

text \<open>\<open>Schema\<close> and \<open>Traits\<close>: the output space, and the seed's choices with the overrides on top.\<close>

definition sketch_schema :: "sketch \<Rightarrow> schema" where
  "sketch_schema s = o_schema (sk_traits s)"

definition sketch_traits :: "sketch \<Rightarrow> u64 \<Rightarrow> tset option" where
  "sketch_traits s seed = map_option fst (options_resolve (sk_traits s) (new_pcg seed (sk_stream s)))"

section \<open>Pools\<close>

definition pools_schema :: schema where
  "pools_schema =
   [\<lparr>d_name = ''arrange'', d_key = ''a'', d_doc = ''how the marks are laid out on the sheet'',
     d_in_name = True, d_values =
      [tval ''orbital'' (Fin 3), tval ''formation'' (Fin 2), tval ''shadows'' (Fin 3),
       tval ''scatter'' (Fin 1)]\<rparr>,
    \<lparr>d_name = ''colourway'', d_key = ''c'', d_doc = ''which palette the pigments come from'',
     d_in_name = True, d_values =
      [tval ''tchelitchew-hide-and-seek'' (Fin 3), tval ''botero-seated-nude'' (Fin 2),
       tval ''diebenkorn-seawall'' (Fin 2), tval ''davis-anthracite-minuet'' (Fin 2),
       tval ''bruegel-icarus'' (Fin 2), tval ''hopper-night-windows'' (Fin 2),
       tval ''cezanne-bathers'' (Fin 2), tval ''beckmann-dancing-bar'' (Fin 2),
       tval ''avery-bicycle-rider'' (Fin 1), tval ''munch-scream-oil'' (Fin 1),
       tval ''dix-nun'' (Fin 1), tval ''dechirico-red-tower'' (Fin 1),
       tval ''chagall-mariee'' (Fin 1), tval ''klee-destruction-hope'' (Fin 1),
       tval ''botticelli-venus'' (Fin 1), tval ''cassatt-letter'' (Fin 1),
       tval ''albers-tehuana'' (Fin 1), tval ''duchamp-landscape'' (Fin 1),
       tval ''from-flag'' (Fin 0)]\<rparr>,
    \<lparr>d_name = ''size-variety'', d_key = ''s'', d_doc = ''whether every run is the same size'',
     d_in_name = True, d_values =
      [tval ''varied'' (Fin 3), tval ''constant'' (Fin 2)]\<rparr>,
    \<lparr>d_name = ''flow'', d_key = ''w'', d_doc = ''the field a run of marks follows'',
     d_in_name = True, d_values =
      [tval ''horizontal'' (Fin 3), tval ''vertical'' (Fin 2), tval ''diagonal'' (Fin 2),
       tval ''spiral'' (Fin 4), tval ''circular'' (Fin 2), tval ''explosive'' (Fin 1)]\<rparr>,
    \<lparr>d_name = ''fill'', d_key = ''f'', d_doc = ''how much of the frame the discs take up'',
     d_in_name = True, d_values =
      [tval ''sparse'' (Fin 1), tval ''open'' (Fin 2), tval ''medium'' (Fin 3),
       tval ''busy'' (Fin 3), tval ''packed'' (Fin 2)]\<rparr>]"

definition pools_new :: "(string \<Rightarrow> kval) \<Rightarrow> sketch option" where
  "pools_new pin = make_sketch ''pools'' 3 pools_schema (declare_all [
   opt_int ''count'' ''anchor circles before satellites'' ''co'' 0 400 (pin_int pin ''count''),
   opt_int ''rungs'' ''steps on the size ladder'' ''ru'' 1 9 (pin_int pin ''rungs''),
   opt_float ''base'' ''smallest circle radius, canvas units''
     ''ba'' (lit 4 3) (lit 2 1) (pin_float pin ''base''),
   opt_float ''ratio'' ''size ladder step ratio''
     ''ra'' (lit 105 2) (Fin 3) (pin_float pin ''ratio''),
   opt_float ''satellites'' ''share of circles given an overlapping companion''
     ''sat'' (Fin 0) (Fin 1) (pin_float pin ''satellites''),
   opt_float ''gap'' ''clearance between circles, x radius; negative lets them cross''
     ''ga'' (Fin (- 1 / 2)) (Fin 2) (pin_float pin ''gap''),
   opt_float ''margin'' ''clear paper at the edge''
     ''ma'' (Fin 0) (lit 4 1) (pin_float pin ''margin''),
   opt_float ''ragged'' ''wash edge deviation; 0 is a true circle, 0.22 a blob''
     ''rg'' (Fin 0) (lit 6 1) (lit 55 3),
   opt_float ''rings'' ''share of circles carrying inner rings'' ''ri'' (Fin 0) (Fin 1) (lit 34 2),
   opt_float ''open'' ''share painted as annuli rather than discs''
     ''op'' (Fin 0) (Fin 1) (lit 28 2),
   opt_float ''glaze'' ''share carrying a second pigment on top''
     ''gl'' (Fin 0) (Fin 1) (lit 16 2),
   opt_float ''banded'' ''share filled with concentric rings'' ''bd'' (Fin 0) (Fin 1) (lit 3 1),
   opt_float ''band-width'' ''ring pitch of a banded circle, canvas units''
     ''bw'' (lit 8 4) (lit 1 1) (lit 22 3),
   opt_float ''band-overlap'' ''how far neighbouring rings cross, x pitch''
     ''bo'' (Fin 0) (Fin 2) (lit 4 1),
   opt_int ''max-bands'' ''most rings a banded circle may have'' ''mb'' 2 40 5,
   opt_float ''alpha'' ''pool strength; below 1 keeps crossings readable''
     ''al'' (lit 5 2) (Fin 1) (lit 74 2),
   opt_int ''pigments'' ''palette colours in play'' ''pi'' 1 12 4,
   opt_float ''ground'' ''strength of the painted ground wash; 0 is bare paper''
     ''gr'' (Fin 0) (Fin 1) (Fin (1 / 2)),
   opt_float ''ground-blotch'' ''wavelength of the ground's unevenness, canvas units''
     ''gb'' (lit 2 2) (Fin 3) (lit 34 2)])"

definition pools_fields :: "string list" where
  "pools_fields = [''count'', ''rungs'', ''base'', ''ratio'', ''satellites'', ''gap'', ''margin'', ''ragged'',
    ''rings'', ''open'', ''glaze'', ''banded'', ''band-width'', ''band-overlap'', ''max-bands'',
    ''alpha'', ''pigments'', ''ground'', ''ground-blotch'']"

section \<open>Foam\<close>

definition foam_schema :: schema where
  "foam_schema =
   [\<lparr>d_name = ''colourway'', d_key = ''c'', d_doc = ''which palette the sheet is drawn from'',
     d_in_name = True, d_values =
      [tval ''tchelitchew-hide-and-seek'' (Fin 3), tval ''kandinsky-apple-tree'' (Fin 3),
       tval ''matisse-collioure'' (Fin 3), tval ''klee-fire-evening'' (Fin 2),
       tval ''chagall-mariee'' (Fin 2), tval ''miro-woman-dog-moon'' (Fin 2),
       tval ''hockney-bigger-splash'' (Fin 2), tval ''delaunay-bleriot'' (Fin 2),
       tval ''gauguin-siesta'' (Fin 2), tval ''redon-green-vase'' (Fin 2),
       tval ''varo-harmony'' (Fin 2), tval ''seurat-grande-jatte'' (Fin 2),
       tval ''bruegel-icarus'' (Fin 1), tval ''cezanne-bathers'' (Fin 1),
       tval ''diebenkorn-seawall'' (Fin 1), tval ''hopper-night-windows'' (Fin 1),
       tval ''avery-bicycle-rider'' (Fin 1), tval ''sargent-carnation-lily'' (Fin 1),
       tval ''monet-water-lilies'' (Fin 1), tval ''vangogh-arles'' (Fin 1),
       tval ''from-flag'' (Fin 0)]\<rparr>,
    \<lparr>d_name = ''density'', d_key = ''d'', d_doc = ''how finely the sheet is divided'',
     d_in_name = True, d_values =
      [tval ''sparse'' (Fin 1), tval ''open'' (Fin 2), tval ''medium'' (Fin 3),
       tval ''busy'' (Fin 3), tval ''packed'' (Fin 2), tval ''fine'' (Fin 0)]\<rparr>,
    \<lparr>d_name = ''lobes'', d_key = ''l'', d_doc = ''how many cells are lobes rather than bubbles'',
     d_in_name = True, d_values =
      [tval ''tidy'' (Fin 1), tval ''few'' (Fin 3), tval ''many'' (Fin 3), tval ''most'' (Fin 1),
       tval ''molten'' (Fin 0)]\<rparr>,
    \<lparr>d_name = ''fills'', d_key = ''f'', d_doc = ''what the cells are filled with'',
     d_in_name = True, d_values =
      [tval ''washed'' (Fin 3), tval ''mixed'' (Fin 3), tval ''drawn'' (Fin 2),
       tval ''airy'' (Fin 2), tval ''net'' (Fin 0), tval ''watercolour'' (Fin 0),
       tval ''flat'' (Fin 0)]\<rparr>,
    \<lparr>d_name = ''line'', d_key = ''n'', d_doc = ''the weight of the ink line'',
     d_in_name = True, d_values =
      [tval ''fine'' (Fin 2), tval ''drawn'' (Fin 3), tval ''bold'' (Fin 2)]\<rparr>,
    \<lparr>d_name = ''mosaic'', d_key = ''m'', d_doc = ''how the cells are subdivided into tiles, and where a tile's colour comes from'',
     d_in_name = False, d_values =
      [tval ''plain'' (Fin 1), tval ''family'' (Fin 0), tval ''strata'' (Fin 0),
       tval ''tonal'' (Fin 0), tval ''soloist'' (Fin 0), tval ''neighbour'' (Fin 0)]\<rparr>,
    \<lparr>d_name = ''relief'', d_key = ''r'', d_doc = ''how the sheet is lit'',
     d_in_name = False, d_values =
      [tval ''flat'' (Fin 1), tval ''bevel'' (Fin 0), tval ''cushion'' (Fin 0),
       tval ''occlude'' (Fin 0), tval ''terrace'' (Fin 0), tval ''glass'' (Fin 0)]\<rparr>,
    \<lparr>d_name = ''scheme'', d_key = ''s'', d_doc = ''how colour is organised over the sheet'',
     d_in_name = True, d_values =
      [tval ''passage'' (Fin 1), tval ''gradient'' (Fin 0), tval ''sequence'' (Fin 0),
       tval ''inherit'' (Fin 0), tval ''dominance'' (Fin 0), tval ''complement'' (Fin 0),
       tval ''analogous'' (Fin 0), tval ''triad'' (Fin 0), tval ''quiet'' (Fin 0),
       tval ''notan'' (Fin 0), tval ''terrace'' (Fin 0), tval ''anchor'' (Fin 0),
       tval ''weather'' (Fin 0), tval ''duet'' (Fin 0), tval ''by-size'' (Fin 0),
       tval ''by-darkness'' (Fin 0)]\<rparr>]"

definition hatch_names :: "string list" where
  "hatch_names = [''none'', ''parallel'', ''cross'', ''contour'', ''wave'', ''shade'', ''dome'', ''sphere'',
    ''engrave'', ''stipple'', ''hollow'', ''flow'', ''weave'', ''fan'', ''spike'']"

definition foam_look :: "(string \<Rightarrow> kval) \<Rightarrow> (optset \<Rightarrow> optset) list" where
  "foam_look pin = [
   opt_float ''tile'' ''inner tile size, x the outer cell's inradius''
     ''ti'' (lit 6 2) (lit 9 1) (pin_float pin ''tile''),
   opt_float ''tiled'' ''share of cells subdivided into tiles''
     ''tl'' (Fin 0) (Fin 1) (pin_float pin ''tiled''),
   opt_float ''fine'' ''inner net width, x the outer ink''
     ''fn'' (Fin 0) (Fin (3 / 2)) (pin_float pin ''fine''),
   opt_float ''spread'' ''ramp steps a cell's family of tiles walks''
     ''sp'' (Fin 0) (Fin 14) (pin_float pin ''spread''),
   opt_float ''depth'' ''rise of the relief, x the smallest cell''
     ''dp'' (Fin 0) (Fin (3 / 2)) (lit 12 2),
   opt_float ''bevel'' ''run that rise happens over, x the smallest cell''
     ''bv'' (lit 2 2) (Fin 3) (lit 2 1),
   opt_float ''light'' ''the light's bearing in degrees; 90 is from the top''
     ''lg'' (Fin 0) (Fin 360) (Fin 135)]"

definition foam_new :: "(string \<Rightarrow> kval) \<Rightarrow> sketch option" where
  "foam_new pin = make_sketch ''foam'' 3 foam_schema (declare_all ([
   opt_int ''count'' ''sites the pack aims for'' ''co'' 2 600 (pin_int pin ''count''),
   opt_int ''rungs'' ''steps on the site size ladder'' ''ru'' 1 9 (pin_int pin ''rungs''),
   opt_float ''base'' ''smallest site radius, canvas units''
     ''ba'' (lit 5 3) (lit 3 1) (pin_float pin ''base''),
   opt_float ''ratio'' ''size ladder step ratio''
     ''ra'' (lit 105 2) (Fin 3) (pin_float pin ''ratio''),
   opt_float ''gap'' ''clearance between sites, x radius''
     ''ga'' (Fin (- 1 / 2)) (Fin 2) (pin_float pin ''gap''),
   opt_float ''over'' ''how far the pack reaches past the frame, canvas units''
     ''ov'' (Fin 0) (Fin (1 / 2)) (pin_float pin ''over''),
   opt_float ''merge'' ''share of sites merged into a neighbouring lobe''
     ''mg'' (Fin 0) (Fin 1) (pin_float pin ''merge''),
   opt_int ''max-lobe'' ''most sites one lobe may absorb'' ''ml'' 1 6 (pin_int pin ''max-lobe''),
   opt_float ''warp'' ''how far the whole partition is bent, x smallest cell''
     ''wp'' (Fin 0) (Fin 8) (pin_float pin ''warp''),
   opt_float ''swirl'' ''wavelength of that bending, x smallest cell''
     ''sl'' (Fin 2) (Fin 60) (pin_float pin ''swirl''),
   opt_float ''ink'' ''wall thickness, canvas units''
     ''ik'' (lit 5 4) (lit 5 2) (pin_float pin ''ink''),
   opt_float ''swell'' ''extra wall thickness at a junction, x ink''
     ''sw'' (Fin 0) (Fin 8) (pin_float pin ''swell''),
   opt_float ''node'' ''distance over which a third cell counts as near''
     ''nd'' (lit 2 3) (lit 3 1) (pin_float pin ''node''),
   opt_float ''round'' ''radius a cell corner is rounded over, canvas units''
     ''rd'' (Fin 0) (lit 3 1) (pin_float pin ''round''),
   opt_float ''wash'' ''weight of the wash fill'' ''fw'' (Fin 0) (Fin 20) (pin_float pin ''wash''),
   opt_float ''pencil'' ''weight of the pencil fill''
     ''fp'' (Fin 0) (Fin 20) (pin_float pin ''pencil''),
   opt_float ''bands'' ''weight of the concentric band fill''
     ''fb'' (Fin 0) (Fin 20) (pin_float pin ''bands''),
   opt_float ''hatch'' ''weight of the hatched fill''
     ''fh'' (Fin 0) (Fin 20) (pin_float pin ''hatch''),
   opt_float ''empty'' ''weight of leaving a cell as bare paper''
     ''fe'' (Fin 0) (Fin 20) (pin_float pin ''empty''),
   opt_float ''load'' ''pigment in a cell at full tone'' ''ld'' (lit 5 2) (Fin 1) (Fin 1),
   opt_float ''pool'' ''wavelength of the pigment's pooling, canvas units''
     ''pl'' (lit 2 2) (Fin 2) (lit 7 2),
   opt_float ''uneven'' ''how strongly the pigment pools''
     ''un'' (Fin 0) (Fin (3 / 2)) (Fin (3 / 4)),
   opt_float ''dry'' ''extra pigment gathered at a cell's edge as it dried''
     ''dr'' (Fin 0) (Fin 2) (Fin 0),
   opt_choice ''hatching'' ''family of marks laid over each cell'' ''ht'' hatch_names ''none'',
   opt_float ''hatch-press'' ''how hard the marks are pressed'' ''hp'' (Fin 0) (Fin 1) (lit 62 2),
   opt_int ''hatch-fit'' ''marks across a cell, whatever its size'' ''hf'' 2 40 7,
   opt_float ''hatch-pitch'' ''mark spacing in canvas units, for looks that keep one fineness''
     ''hz'' (lit 1 3) (lit 6 2) (lit 75 4),
   opt_float ''hatch-vary'' ''how irregular the marks are in spacing and in length''
     ''hv'' (Fin 0) (Fin 1) (lit 7 1),
   opt_float ''hatch-weight'' ''mark thickness, as a share of the spacing''
     ''hw'' (lit 5 2) (lit 9 1) (lit 34 2),
   opt_float ''weight'' ''how strongly a site radius bends the walls; 0 is straight''
     ''wt'' (Fin 0) (Fin 2) (lit 11 1),
   opt_float ''wobble'' ''hand wander of the line and the strokes, x width''
     ''wb'' (Fin 0) (Fin 1) (lit 28 2),
   opt_float ''rim'' ''strength of the wash's dried rim'' ''rm'' (Fin 0) (Fin 1) (lit 9 1),
   opt_float ''rim-width'' ''how far in from the wall the rim reaches''
     ''rw'' (lit 1 3) (lit 2 1) (lit 14 3),
   opt_float ''mottle'' ''wavelength of the wash's unevenness, canvas units''
     ''mo'' (lit 2 2) (Fin 2) (lit 22 2),
   opt_float ''blotch'' ''strength of that unevenness'' ''bl'' (Fin 0) (Fin (3 / 2)) (lit 24 2),
   opt_float ''grain'' ''paper tooth'' ''gn'' (Fin 0) (lit 4 1) (lit 5 2),
   opt_float ''accent'' ''share of cells taking a colour from outside their passage''
     ''ac'' (Fin 0) (Fin 1) (lit 22 2),
   opt_float ''passage'' ''wavelength of the colour field, canvas units''
     ''pa'' (lit 1 1) (Fin 4) (Fin (3 / 4)),
   opt_float ''saturate'' ''lift on every pigment saturation; 0 is the palette as mixed''
     ''sa'' (Fin 0) (Fin 2) (Fin 0),
   opt_float ''shades'' ''how far a cell wanders from its palette swatch; 0 is the bare palette''
     ''sh'' (Fin 0) (Fin 2) (lit 7 1),
   opt_float ''flat'' ''how far a flat fill deepens at full tone; 1 is no deepening''
     ''fl'' (lit 2 1) (Fin 1) (lit 76 2),
   opt_float ''stroke'' ''pencil stroke pitch, canvas units''
     ''st'' (lit 1 3) (lit 1 1) (lit 45 4)] @ foam_look pin))"

definition foam_fields :: "string list" where
  "foam_fields = [''tile'', ''tiled'', ''fine'', ''spread'', ''depth'', ''bevel'', ''light'', ''count'',
    ''rungs'', ''base'', ''ratio'', ''gap'', ''over'', ''merge'', ''max-lobe'', ''warp'',
    ''swirl'', ''ink'', ''swell'', ''node'', ''round'', ''wash'', ''pencil'', ''bands'',
    ''hatch'', ''empty'', ''load'', ''pool'', ''uneven'', ''dry'', ''hatching'', ''hatch-press'',
    ''hatch-fit'', ''hatch-pitch'', ''hatch-vary'', ''hatch-weight'', ''weight'', ''wobble'',
    ''rim'', ''rim-width'', ''mottle'', ''blotch'', ''grain'', ''accent'', ''passage'',
    ''saturate'', ''shades'', ''flat'', ''stroke'']"

section \<open>Iris\<close>

definition iris_schema :: schema where
  "iris_schema =
   [\<lparr>d_name = ''structure'', d_key = ''s'', d_doc = ''what the warped field is read as'',
     d_in_name = True, d_values =
      [tval ''fiber'' (Fin 4), tval ''filament'' (Fin (5 / 2)), tval ''strata'' (Fin (3 / 2)),
       tval ''crypt'' (Fin 2)]\<rparr>,
    \<lparr>d_name = ''weave'', d_key = ''w'', d_doc = ''which way the stroma runs out of the pupil'',
     d_in_name = True, d_values =
      [tval ''radial'' (Fin 7), tval ''swirl'' (Fin 2), tval ''vortex'' (lit 8 1)]\<rparr>,
    \<lparr>d_name = ''grain'', d_key = ''g'', d_doc = ''how finely the stroma is divided'',
     d_in_name = False, d_values =
      [tval ''broad'' (Fin 2), tval ''fine'' (Fin 3), tval ''dense'' (Fin 2)]\<rparr>,
    \<lparr>d_name = ''reach'', d_key = ''r'', d_doc = ''how far one thread holds together from pupil to limbus'',
     d_in_name = False, d_values =
      [tval ''long'' (Fin 3), tval ''broken'' (Fin 2)]\<rparr>,
    \<lparr>d_name = ''aperture'', d_key = ''a'', d_doc = ''how open the pupil is'',
     d_in_name = False, d_values =
      [tval ''narrow'' (Fin 2), tval ''even'' (Fin 3), tval ''wide'' (Fin (3 / 2))]\<rparr>,
    \<lparr>d_name = ''tint'', d_key = ''t'', d_doc = ''how hue is spread over the stroma'',
     d_in_name = False, d_values =
      [tval ''plain'' (Fin 4), tval ''sector'' (Fin 2)]\<rparr>,
    \<lparr>d_name = ''rim'', d_key = ''e'', d_doc = ''how the disc ends'',
     d_in_name = True, d_values =
      [tval ''soft'' (Fin 4), tval ''ring'' (Fin 2), tval ''halo'' (Fin 2), tval ''frayed'' (Fin 2),
       tval ''band'' (Fin 1)]\<rparr>,
    \<lparr>d_name = ''ground'', d_key = ''b'', d_doc = ''what surrounds the iris'',
     d_in_name = False, d_values =
      [tval ''light'' (Fin 4), tval ''dark'' (Fin (3 / 2)), tval ''shade'' (Fin 1),
       tval ''ink'' (Fin (3 / 2)), tval ''black'' (Fin 1)]\<rparr>]"

definition iris_new :: "sketch option" where
  "iris_new = make_sketch ''iris'' 1 iris_schema (declare_all [
   opt_float ''scale'' ''field cycles around the stroma'' ''sc'' (lit 3 1) (Fin 6) (lit 19 1),
   opt_int ''octaves'' ''number of fBM components'' ''oc'' 1 8 5,
   opt_float ''gain'' ''amplitude multiplier per octave''
     ''gn'' (lit 2 1) (lit 85 2) (Fin (1 / 2)),
   opt_float ''lacunarity'' ''frequency multiplier per octave''
     ''la'' (lit 12 1) (Fin (7 / 2)) (lit 205 2),
   opt_float ''stretch'' ''how fast the field changes from pupil to limbus''
     ''st'' (Fin 0) (Fin 4) (Fin (1 / 2)),
   opt_float ''twist'' ''radians the fibres rotate between pupil and limbus''
     ''tw'' (Fin (-6)) (Fin 6) (Fin 0),
   opt_float ''fiber'' ''tangential warp: sideways meander of the fibres''
     ''fb'' (Fin 0) (Fin 3) (lit 55 2),
   opt_float ''radial'' ''radial warp: interruption along a fibre''
     ''rd'' (Fin 0) (Fin 3) (lit 2 1),
   opt_float ''nested'' ''second warp displacement'' ''ns'' (Fin 0) (Fin 3) (Fin (1 / 2)),
   opt_float ''depth'' ''gamma on the value axis: how far the midtones sink''
     ''dp'' (Fin 0) (Fin 1) (lit 45 2),
   opt_float ''gleam'' ''how far sharp crests brighten toward the light colour''
     ''gl'' (Fin 0) (Fin 1) (lit 16 2),
   opt_float ''warmth'' ''how far the pupillary zone pulls toward the accent colour''
     ''wm'' (Fin 0) (Fin 1) (lit 35 2),
   opt_float ''bands'' ''strata terraces across the stroma, or filament contour levels''
     ''bd'' (Fin 1) (Fin 40) (Fin 14),
   opt_float ''cells'' ''crypt: cell density across the stroma'' ''cl'' (Fin 2) (Fin 40) (Fin 12),
   opt_float ''rim-width'' ''how far the disc's edge treatment reaches inward''
     ''rw'' (lit 2 2) (lit 6 1) (lit 3 1),
   opt_float ''limbus'' ''iris radius as a fraction of canvas height''
     ''lb'' (lit 15 2) (Fin (1 / 2)) (lit 42 2),
   opt_float ''pupil'' ''pupil radius as a fraction of the iris''
     ''pu'' (lit 5 2) (lit 6 1) (lit 28 2)])"

definition iris_fields :: "string list" where
  "iris_fields = [''scale'', ''octaves'', ''gain'', ''lacunarity'', ''stretch'', ''twist'', ''fiber'',
    ''radial'', ''nested'', ''depth'', ''gleam'', ''warmth'', ''bands'', ''cells'',
    ''rim-width'', ''limbus'', ''pupil'']"

section \<open>FromConfig\<close>

text \<open>
  A \<open>Config\<close>: the trait choices and, by JSON name, the numeric pointers that are not nil.
\<close>

record config =
  cf_traits :: tset
  cf_fields :: "(string, kval) gomap"

definition knob_err :: "(f64 \<Rightarrow> string) \<Rightarrow> opt_err \<Rightarrow> err" where
  "knob_err fg e = (case e of
       FloatRange n lo hi \<Rightarrow> ErrMsg (''--'' @ n @ '' must be within ['' @ fg lo @ '', '' @ fg hi @ '']'')
     | IntRange n lo hi \<Rightarrow>
         ErrMsg (''--'' @ n @ '' must be within ['' @ format_int lo @ '', '' @ format_int hi @ '']'')
     | NotOneOf n vs \<Rightarrow> ErrMsg (''--'' @ n @ '' must be one of '' @ join_with ''|'' vs))"

text \<open>
  The body the three \<open>FromConfig\<close> functions share: the traits first, then every field that is set
  is stored where its knob points and named, in the order of the struct, and the knobs are applied.
\<close>

definition set_names :: "string list \<Rightarrow> config \<Rightarrow> string list" where
  "set_names fs c = filter (\<lambda>n. mget (cf_fields c) n \<noteq> None) fs"

definition store_fields :: "string list \<Rightarrow> config \<Rightarrow> optset \<Rightarrow> optset" where
  "store_fields fs c s = s\<lparr>os_vals := foldl (\<lambda>vs n. case mget (cf_fields c) n of
       Some v \<Rightarrow> mput n v vs | None \<Rightarrow> vs) (os_vals s) fs\<rparr>"

definition from_config :: "(f64 \<Rightarrow> string) \<Rightarrow> string list \<Rightarrow> sketch option \<Rightarrow> config \<Rightarrow> sketch res" where
  "from_config fg fs new c = (case new of
       None \<Rightarrow> Inl (ErrMsg ''panic'')
     | Some s \<Rightarrow> bind_res (set_overrides (sk_traits s) (cf_traits c)) (\<lambda>t.
         case optset_apply fg (set_names fs c) (store_fields fs c (sk_knobs s)) of
           (_, Inl e) \<Rightarrow> Inl (knob_err fg e)
         | (k, Inr _) \<Rightarrow> Inr (s\<lparr>sk_traits := t, sk_knobs := k\<rparr>)))"

definition pools_from_config :: "(f64 \<Rightarrow> string) \<Rightarrow> (string \<Rightarrow> kval) \<Rightarrow> config \<Rightarrow> sketch res" where
  "pools_from_config fg pin = from_config fg pools_fields (pools_new pin)"

definition foam_from_config :: "(f64 \<Rightarrow> string) \<Rightarrow> (string \<Rightarrow> kval) \<Rightarrow> config \<Rightarrow> sketch res" where
  "foam_from_config fg pin = from_config fg foam_fields (foam_new pin)"

definition iris_from_config :: "(f64 \<Rightarrow> string) \<Rightarrow> config \<Rightarrow> sketch res" where
  "iris_from_config fg = from_config fg iris_fields iris_new"

section \<open>The registry\<close>

text \<open>
  \<open>NewFactories\<close> keeps one constructor per name (a duplicate is a panic), \<open>Get\<close> constructs a fresh
  sketch, \<open>All\<close> returns the sketches sorted by name. A local artwork that is never published is
  known by its name only.
\<close>

datatype factory = Published sketch | Local string

fun factory_name :: "factory \<Rightarrow> string" where
  "factory_name (Published s) = sk_name s"
| "factory_name (Local n) = n"

fun new_factories :: "(string, factory) gomap \<Rightarrow> factory list \<Rightarrow> (string, factory) gomap option" where
  "new_factories r [] = Some r"
| "new_factories r (f # fs) =
     (if mget r (factory_name f) \<noteq> None then None
      else new_factories (mput (factory_name f) f r) fs)"

definition registry_get :: "(string, factory) gomap \<Rightarrow> string \<Rightarrow> factory option" where
  "registry_get r name = mget r name"

definition registry_all :: "(string, factory) gomap \<Rightarrow> factory list" where
  "registry_all r = sort_key (\<lambda>f. map (of_char :: char \<Rightarrow> nat) (factory_name f)) (map snd r)"

definition registry :: "(string \<Rightarrow> kval) \<Rightarrow> (string \<Rightarrow> kval) \<Rightarrow> (string, factory) gomap option" where
  "registry pools_pin foam_pin =
     (case (pools_new pools_pin, foam_new foam_pin, iris_new) of
        (Some pools, Some foam, Some iris) \<Rightarrow> new_factories [] [
          Local ''circles'', Local ''contour'', Local ''drift'', Local ''flame'', Published foam,
          Local ''glaze'', Local ''hatchbook'', Published iris, Published pools, Local ''qql'',
          Local ''riffle'', Local ''rounds'', Local ''scree'', Local ''shallows'', Local ''shoal'',
          Local ''tapestry'', Local ''warp'']
      | _ \<Rightarrow> None)"

section \<open>The published schemas are well-formed\<close>

lemma is_f64_lit [simp]: "is_f64 (lit n k)"
  by (simp add: lit_def is_f64_rnd)

lemma lit_not_NaN [simp]: "lit n k \<noteq> NaN"
  by (simp add: lit_def rnd64_not_NaN)

lemma real_weight_lit [simp]: "real_weight (lit n k)"
  by (simp add: real_weight_def)

lemma real_weight_num [simp]:
  "real_weight (Fin 0)" "real_weight (Fin 1)"
  "numeral n < (2 ^ 53 :: int) \<Longrightarrow> real_weight (Fin (numeral n))"
  "numeral n < (2 ^ 53 :: int) \<Longrightarrow> real_weight (Fin (numeral n / 2))"
  using is_f64_numeral[of n] is_f64_half[of "numeral n"] by (simp_all add: real_weight_def)

lemma f64_num_pos [simp]: "0 < Fin 1" "0 < Fin (numeral n)" "0 < Fin (numeral n / 2)"
  by (simp_all add: f64_ops)

lemma pools_schema_ok: "\<forall>d\<in>set pools_schema. real_dim d" "wf_schema pools_schema"
  by (simp_all add: pools_schema_def real_dim_def wf_schema_def)

lemma foam_schema_ok: "\<forall>d\<in>set foam_schema. real_dim d" "wf_schema foam_schema"
  by (simp_all add: foam_schema_def real_dim_def wf_schema_def)

lemma iris_schema_ok: "\<forall>d\<in>set iris_schema. real_dim d" "wf_schema iris_schema"
  by (simp_all add: iris_schema_def real_dim_def wf_schema_def)

lemma make_sketch_ok:
  assumes "\<forall>d\<in>set sch. real_dim d" "wf_schema sch"
  shows "make_sketch n st sch ks = Some \<lparr>sk_name = n, sk_stream = st,
    sk_traits = \<lparr>o_schema = sch, o_raw = [], o_over = []\<rparr>, sk_knobs = ks\<rparr>"
  using validate_from_iff[OF assms(1), of "[]" "[]"] assms(2)
  by (simp add: make_sketch_def new_options_def schema_validate_def)

text \<open>The traits of a sketch whose schema is well-formed are always defined.\<close>

lemma sketch_traits_defined:
  assumes "\<forall>d\<in>set (sketch_schema s). real_dim d" "wf_schema (sketch_schema s)"
  shows "sketch_traits s seed \<noteq> None"
proof -
  obtain st r where "derive (o_schema (sk_traits s)) (new_pcg seed (sk_stream s)) = Some (st, r)"
    using derive_onto_spec[OF assms] by (fastforce simp: derive_def sketch_schema_def)
  then show ?thesis by (simp add: sketch_traits_def options_resolve_def)
qed

section \<open>Construction\<close>

definition base_schema :: "string \<Rightarrow> schema" where
  "base_schema art = (if art = ''pools'' then pools_schema
     else if art = ''foam'' then foam_schema else iris_schema)"

lemma base_schema_ok: "\<forall>d\<in>set (base_schema art). real_dim d" "wf_schema (base_schema art)"
  using pools_schema_ok foam_schema_ok iris_schema_ok by (simp_all add: base_schema_def)

lemma pools_new_ok: "\<exists>s. pools_new pin = Some s \<and> sk_name s = ''pools'' \<and> sketch_schema s = pools_schema"
  unfolding pools_new_def make_sketch_ok[OF pools_schema_ok] by (simp add: sketch_schema_def)

lemma foam_new_ok: "\<exists>s. foam_new pin = Some s \<and> sk_name s = ''foam'' \<and> sketch_schema s = foam_schema"
  unfolding foam_new_def make_sketch_ok[OF foam_schema_ok] by (simp add: sketch_schema_def)

lemma iris_new_ok: "\<exists>s. iris_new = Some s \<and> sk_name s = ''iris'' \<and> sketch_schema s = iris_schema"
  unfolding iris_new_def make_sketch_ok[OF iris_schema_ok] by (simp add: sketch_schema_def)

lemma registry_published:
  "\<exists>r. registry pp fp = Some r \<and> (\<forall>art\<in>{''pools'', ''foam'', ''iris''}.
     \<exists>s. registry_get r art = Some (Published s) \<and> sketch_schema s = base_schema art)"
proof -
  obtain p f i where s: "pools_new pp = Some p" "sk_name p = ''pools''" "sketch_schema p = pools_schema"
    "foam_new fp = Some f" "sk_name f = ''foam''" "sketch_schema f = foam_schema"
    "iris_new = Some i" "sk_name i = ''iris''" "sketch_schema i = iris_schema"
    using pools_new_ok[of pp] foam_new_ok[of fp] iris_new_ok by blast
  have eq: "registry pp fp = new_factories [] [Local ''circles'', Local ''contour'', Local ''drift'',
      Local ''flame'', Published f, Local ''glaze'', Local ''hatchbook'', Published i, Published p,
      Local ''qql'', Local ''riffle'', Local ''rounds'', Local ''scree'', Local ''shallows'',
      Local ''shoal'', Local ''tapestry'', Local ''warp'']"
    unfolding registry_def s by simp
  show ?thesis
    unfolding eq using s(2,3,5,6,8,9) by (simp add: registry_get_def base_schema_def)
qed

end
