(* ===== verification/Artwork.thy ===== *)
theory Artwork
  imports Sketches
begin

text \<open>
  \<open>internal/artwork/recipe.go\<close>: strict JSON, the edition envelope, canonical recipes, their keys and
  rendering. The encoders and decoders of \<open>encoding/json\<close>, SHA-256, \<open>%g\<close> and the Unicode case table
  are library functions collected in one record, an argument of every definition that calls them.
\<close>

datatype jtok = JOpen bool | JClose bool | JString string | JScalar string

text \<open>\<open>JOpen True\<close> is an opening brace, \<open>JOpen False\<close> an opening bracket.\<close>

record envelope =
  e_version :: int
  e_id :: string
  e_edition :: string
  e_seed :: string
  e_palette :: string
  e_config :: string

record rendition =
  rn_width :: int
  rn_height :: int
  rn_aa :: int
  rn_format :: string

record recipe =
  r_canonical :: string
  r_id :: string
  r_seed :: string
  r_pal :: string
  r_traits :: tset

text \<open>
  The library: the token stream of \<open>json.Decoder\<close> (the tokens up to the end of the input, and
  whether it ended without a syntax error), decoding with unknown fields disallowed and encoding of
  each type, the hexadecimal SHA-256 of a byte string, \<open>strings.ToLower\<close> outside ASCII, \<open>%g\<close>, and
  the \<open>--help\<close> defaults of the pinned knobs.
\<close>

record golib =
  gl_tokens :: "string \<Rightarrow> jtok list \<times> bool"
  gl_dec_envelope :: "string \<Rightarrow> envelope res"
  gl_dec_config :: "string \<Rightarrow> string \<Rightarrow> config res"
  gl_enc_envelope :: "envelope \<Rightarrow> string res"
  gl_enc_config :: "string \<Rightarrow> config \<Rightarrow> string res"
  gl_enc_rendition :: "rendition \<Rightarrow> string"
  gl_sha256 :: "string \<Rightarrow> string"
  gl_unicode_lower :: "string \<Rightarrow> string"
  gl_g :: "f64 \<Rightarrow> string"
  gl_pools_pin :: "string \<Rightarrow> kval"
  gl_foam_pin :: "string \<Rightarrow> kval"

section \<open>Strict JSON\<close>

definition lower_char :: "char \<Rightarrow> char" where
  "lower_char c = (let n = of_char c :: nat in
     if 65 \<le> n \<and> n \<le> 90 then char_of (n + 32) else c)"

definition to_lower :: "golib \<Rightarrow> string \<Rightarrow> string" where
  "to_lower L s = (if list_all (\<lambda>c. (of_char c :: nat) < 128) s then List.map lower_char s
     else gl_unicode_lower L s)"

text \<open>
  The members of one array or object, up to and including the closing token: \<open>left\<close> more members
  are allowed. \<open>scan\<close> reads one value one level deeper.
\<close>

fun scan_members :: "golib \<Rightarrow> (jtok list \<Rightarrow> jtok list res) \<Rightarrow> bool \<Rightarrow> string list \<Rightarrow> nat
    \<Rightarrow> jtok list \<Rightarrow> jtok list res" where
  "scan_members L scan obj seen left [] = Inl (ErrMsg ''EOF'')"
| "scan_members L scan obj seen left (JClose b # toks) = Inr toks"
| "scan_members L scan obj seen 0 (t # toks) = Inl (ErrMsg ''too many JSON members'')"
| "scan_members L scan obj seen (Suc left) (t # toks) =
     (if obj then
        case t of
          JString key \<Rightarrow>
            if key \<noteq> to_lower L key \<or> key \<in> set seen then Inl (ErrMsg ''duplicate JSON key'')
            else bind_res (scan toks) (scan_members L scan obj (key # seen) left)
        | _ \<Rightarrow> Inl (ErrMsg ''duplicate JSON key'')
      else bind_res (scan (t # toks)) (scan_members L scan obj seen left))"

text \<open>\<open>scan_json L b\<close> is \<open>scanJSON\<close> at depth \<open>17 - b\<close>: depth 17 is too deep.\<close>

fun scan_json :: "golib \<Rightarrow> nat \<Rightarrow> jtok list \<Rightarrow> jtok list res" where
  "scan_json L 0 toks = Inl (ErrMsg ''JSON nesting too deep'')"
| "scan_json L (Suc b) [] = Inl (ErrMsg ''EOF'')"
| "scan_json L (Suc b) (JOpen obj # toks) = scan_members L (scan_json L b) obj [] 256 toks"
| "scan_json L (Suc b) (JClose obj # toks) = Inl (ErrMsg ''unexpected JSON delimiter'')"
| "scan_json L (Suc b) (JString s # toks) = Inr toks"
| "scan_json L (Suc b) (JScalar s # toks) = Inr toks"

definition strict_json :: "golib \<Rightarrow> (string \<Rightarrow> 'a res) \<Rightarrow> string \<Rightarrow> 'a res" where
  "strict_json L decode_dst data =
     (if length data > 65536 then Inl (ErrMsg ''payload too large'')
      else let (toks, ended) = gl_tokens L data in
        bind_res (scan_json L 17 toks) (\<lambda>rest.
          if rest \<noteq> [] \<or> \<not> ended then Inl (ErrMsg ''trailing JSON'') else decode_dst data))"

section \<open>Recipes\<close>

definition max_recipe :: nat where
  "max_recipe = 16384"

text \<open>A panic is folded into the error result; the theorems below show that none is reached.\<close>

fun unpanic :: "'a option \<Rightarrow> 'a res" where
  "unpanic None = Inl (ErrMsg ''panic'')"
| "unpanic (Some a) = Inr a"

definition configure_with ::
  "golib \<Rightarrow> string \<Rightarrow> string \<Rightarrow> u64 \<Rightarrow> (config \<Rightarrow> sketch res) \<Rightarrow> (sketch \<times> config) res" where
  "configure_with L art raw seed from =
     bind_res (strict_json L (gl_dec_config L art) raw) (\<lambda>c.
     bind_res (from c) (\<lambda>s.
     bind_res (unpanic (sketch_traits s seed)) (\<lambda>st. Inr (s, c\<lparr>cf_traits := st\<rparr>))))"

definition configured :: "golib \<Rightarrow> string \<Rightarrow> string \<Rightarrow> u64 \<Rightarrow> (sketch \<times> config) res" where
  "configured L art raw seed =
     (if art = ''pools'' then
        configure_with L art raw seed (pools_from_config (gl_g L) (gl_pools_pin L))
      else if art = ''foam'' then
        configure_with L art raw seed (foam_from_config (gl_g L) (gl_foam_pin L))
      else if art = ''iris'' then configure_with L art raw seed (iris_from_config (gl_g L))
      else Inl (ErrMsg ''unsupported artwork''))"

definition decode :: "golib \<Rightarrow> string \<Rightarrow> recipe res" where
  "decode L data =
     (if length data > max_recipe then Inl (ErrMsg ''recipe too large'')
      else bind_res (strict_json L (gl_dec_envelope L) data) (\<lambda>e.
        if e_version e \<noteq> 1 \<or> e_edition e \<noteq> ''1'' then Inl (ErrMsg ''unsupported recipe edition'')
        else case parse_uint (e_seed e) of
          None \<Rightarrow> Inl (ErrMsg ''seed must be an unsigned decimal string'')
        | Some seed \<Rightarrow>
            let e1 = e\<lparr>e_seed := format_uint seed\<rparr> in
            if by_name (e_palette e1) = None then Inl (ErrMsg ''unknown palette'')
            else bind_res (configured L (e_id e1) (e_config e1) seed) (\<lambda>(s, c).
              bind_res (unpanic (sketch_traits s seed)) (\<lambda>st.
              let colour = set_get st ''colourway'';
                  e2 = (if colour \<noteq> '''' \<and> colour \<noteq> ''from-flag'' then e1\<lparr>e_palette := colour\<rparr>
                        else e1) in
              bind_res (gl_enc_config L (e_id e2) c) (\<lambda>cb.
              let e3 = e2\<lparr>e_config := cb\<rparr> in
              bind_res (gl_enc_envelope L e3) (\<lambda>b.
                Inr \<lparr>r_canonical = b, r_id = e_id e3, r_seed = e_seed e3, r_pal = e_palette e3,
                     r_traits = st\<rparr>))))))"

definition new_recipe :: "golib \<Rightarrow> string \<Rightarrow> u64 \<Rightarrow> string \<Rightarrow> config \<Rightarrow> recipe res" where
  "new_recipe L art seed pal c =
     bind_res (gl_enc_config L art c) (\<lambda>cb.
     bind_res (gl_enc_envelope L \<lparr>e_version = 1, e_id = art, e_edition = ''1'',
       e_seed = format_uint seed, e_palette = pal, e_config = cb\<rparr>) (decode L))"

definition recipe_digest :: "golib \<Rightarrow> recipe \<Rightarrow> string" where
  "recipe_digest L r = gl_sha256 L (r_canonical r)"

definition recipe_key :: "golib \<Rightarrow> recipe \<Rightarrow> rendition \<Rightarrow> string \<Rightarrow> string" where
  "recipe_key L r t build = gl_sha256 L (r_canonical r @ gl_enc_rendition L t @ build)"

text \<open>
  \<open>Render\<close> draws with the sketch, the size, the seed and the colours, and writes a PNG; the drawing
  and the encoder are the argument \<open>paint\<close>.
\<close>

definition rendition_ok :: "rendition \<Rightarrow> bool" where
  "rendition_ok t \<longleftrightarrow> 1 \<le> rn_width t \<and> 1 \<le> rn_height t \<and> rn_width t \<le> 1200 \<and> rn_height t \<le> 1200
     \<and> 1 \<le> rn_aa t \<and> rn_aa t \<le> 2 \<and> rn_format t = ''png''"

definition recipe_render ::
  "golib \<Rightarrow> (sketch \<Rightarrow> rendition \<Rightarrow> u64 \<Rightarrow> palette \<Rightarrow> string \<Rightarrow> string \<Rightarrow> string res)
     \<Rightarrow> recipe \<Rightarrow> rendition \<Rightarrow> string \<Rightarrow> string res" where
  "recipe_render L paint r t build =
     (if \<not> rendition_ok t then Inl (ErrMsg ''invalid rendition'')
      else bind_res (strict_json L (gl_dec_envelope L) (r_canonical r)) (\<lambda>e.
        let seed = parse_uint_value (e_seed e) in
        bind_res (configured L (e_id e) (e_config e) seed) (\<lambda>(s, _).
        case by_name (e_palette e) of
          None \<Rightarrow> Inl (ErrMsg ''unknown palette'')
        | Some pal \<Rightarrow> paint s t seed pal (''artwork '' @ build) (r_canonical r))))"

section \<open>What strict JSON accepts\<close>

text \<open>A JSON value, its tokens, and the shape the scanner demands of it, without reference to tokens.\<close>

datatype jtree = JStr string | JVal string | JArr "jtree list" | JObj "(string \<times> jtree) list"

fun tree_toks :: "jtree \<Rightarrow> jtok list" where
  "tree_toks (JStr s) = [JString s]"
| "tree_toks (JVal s) = [JScalar s]"
| "tree_toks (JArr ts) = JOpen False # concat (map tree_toks ts) @ [JClose False]"
| "tree_toks (JObj ms) =
     JOpen True # concat (map (\<lambda>(k, t). JString k # tree_toks t) ms) @ [JClose True]"

fun tree_fits :: "golib \<Rightarrow> nat \<Rightarrow> jtree \<Rightarrow> bool" where
  "tree_fits L 0 t = False"
| "tree_fits L (Suc b) (JStr s) = True"
| "tree_fits L (Suc b) (JVal s) = True"
| "tree_fits L (Suc b) (JArr ts) = (length ts \<le> 256 \<and> list_all (tree_fits L b) ts)"
| "tree_fits L (Suc b) (JObj ms) = (length ms \<le> 256 \<and> distinct (map fst ms)
     \<and> list_all (\<lambda>(k, t). to_lower L k = k \<and> tree_fits L b t) ms)"

definition scans :: "bool \<Rightarrow> jtok list res \<Rightarrow> jtok list \<Rightarrow> bool" where
  "scans ok r rest \<longleftrightarrow> (if ok then r = Inr rest else \<exists>e. r = Inl e)"

lemma tree_toks_hd: "\<exists>t0 ts. tree_toks t = t0 # ts \<and> (\<forall>b. t0 \<noteq> JClose b)"
  by (cases t) auto

lemma scan_members_arr:
  assumes "\<And>t rest. t \<in> set ts \<Longrightarrow> scans (tree_fits L b t) (scan_json L b (tree_toks t @ rest)) rest"
  shows "scans (length ts \<le> left \<and> list_all (tree_fits L b) ts)
    (scan_members L (scan_json L b) False seen left (concat (map tree_toks ts) @ JClose False # rest)) rest"
  using assms
proof (induction ts arbitrary: left)
  case (Cons t ts)
  obtain t0 tr where t0: "tree_toks t = t0 # tr" "\<forall>b. t0 \<noteq> JClose b" using tree_toks_hd by blast
  show ?case
  proof (cases left)
    case 0
    with t0 show ?thesis by (cases t0) (auto simp: scans_def)
  next
    case (Suc l)
    let ?more = "concat (map tree_toks ts) @ JClose False # rest"
    have "scans (tree_fits L b t) (scan_json L b (t0 # tr @ ?more)) ?more"
      using Cons.prems[of t ?more] t0 by simp
    moreover have "scans (length ts \<le> l \<and> list_all (tree_fits L b) ts)
        (scan_members L (scan_json L b) False seen l ?more) rest"
      using Cons.IH[of l] Cons.prems by simp
    ultimately show ?thesis
      using Suc t0 by (cases t0) (auto simp: scans_def split: if_splits)
  qed
qed (simp add: scans_def)

lemma scan_members_obj:
  assumes "\<And>k t rest. (k, t) \<in> set ms \<Longrightarrow> scans (tree_fits L b t) (scan_json L b (tree_toks t @ rest)) rest"
  shows "scans (length ms \<le> left \<and> distinct (map fst ms) \<and> set (map fst ms) \<inter> set seen = {}
      \<and> list_all (\<lambda>(k, t). to_lower L k = k \<and> tree_fits L b t) ms)
    (scan_members L (scan_json L b) True seen left
       (concat (map (\<lambda>(k, t). JString k # tree_toks t) ms) @ JClose True # rest)) rest"
  using assms
proof (induction ms arbitrary: left seen)
  case (Cons m ms)
  obtain k t where m: "m = (k, t)" by force
  show ?case
  proof (cases left)
    case 0
    with m show ?thesis by (simp add: scans_def)
  next
    case (Suc l)
    let ?more = "concat (map (\<lambda>(k, t). JString k # tree_toks t) ms) @ JClose True # rest"
    have "scans (tree_fits L b t) (scan_json L b (tree_toks t @ ?more)) ?more"
      using Cons.prems[of k t ?more] m by simp
    moreover have "scans (length ms \<le> l \<and> distinct (map fst ms) \<and> set (map fst ms) \<inter> set (k # seen) = {}
      \<and> list_all (\<lambda>(k, t). to_lower L k = k \<and> tree_fits L b t) ms)
        (scan_members L (scan_json L b) True (k # seen) l ?more) rest"
      by (rule Cons.IH) (meson Cons.prems list.set_intros(2))
    ultimately show ?thesis
      using Suc m by (auto simp: scans_def split: if_splits)
  qed
qed (simp add: scans_def)

lemma scan_json_tree: "scans (tree_fits L b t) (scan_json L b (tree_toks t @ rest)) rest"
proof (induction t arbitrary: b rest)
  case (JArr ts)
  show ?case
    using scan_members_arr[of ts L "b - 1" 256 "[]" rest] JArr by (cases b) (simp_all add: scans_def)
next
  case (JObj ms)
  show ?case
    using scan_members_obj[of ms L "b - 1" 256 "[]" rest] JObj
    by (cases b) (auto simp: scans_def)
next
  case (JStr s)
  then show ?case by (cases b) (simp_all add: scans_def)
next
  case (JVal s)
  then show ?case by (cases b) (simp_all add: scans_def)
qed

text \<open>
  The converse. The documentation of \<open>json.Decoder.Token\<close> promises that the delimiters it returns are
  properly nested and matched; \<open>nested\<close> states that of a token stream, with the open delimiters as a stack.
\<close>

fun nested :: "bool list \<Rightarrow> jtok list \<Rightarrow> bool" where
  "nested st [] = True"
| "nested st (JOpen b # toks) = nested (b # st) toks"
| "nested st (JClose b # toks) = (case st of [] \<Rightarrow> False | c # cs \<Rightarrow> b = c \<and> nested cs toks)"
| "nested st (JString s # toks) = nested st toks"
| "nested st (JScalar s # toks) = nested st toks"

lemma scan_members_arrD:
  assumes "\<And>st toks rest. scan toks = Inr rest \<Longrightarrow> nested st toks \<Longrightarrow> \<exists>t. toks = tree_toks t @ rest \<and> fits t \<and> nested st rest"
    and "scan_members L scan False seen left toks = Inr rest" "nested (False # st) toks"
  shows "\<exists>ts. toks = concat (map tree_toks ts) @ JClose False # rest \<and> length ts \<le> left \<and> list_all fits ts \<and> nested st rest"
  using assms(2,3)
proof (induction left arbitrary: toks)
  case 0
  then obtain t0 tr where "toks = t0 # tr" by (cases toks) auto
  with 0 show ?case by (cases t0) auto
next
  case (Suc left)
  then obtain t0 tr where t0: "toks = t0 # tr" by (cases toks) auto
  show ?case
  proof (cases "\<exists>b. t0 = JClose b")
    case True
    with Suc.prems t0 show ?thesis by (intro exI[of _ "[]"]) auto
  next
    case False
    with Suc.prems t0 obtain more where m: "scan toks = Inr more" "scan_members L scan False seen left more = Inr rest"
      by (cases t0) (auto simp: res_simps)
    from assms(1)[OF m(1) Suc.prems(2)] obtain t where t: "toks = tree_toks t @ more" "fits t" "nested (False # st) more" by blast
    from Suc.IH[OF m(2) t(3)] obtain ts where "more = concat (map tree_toks ts) @ JClose False # rest" "length ts \<le> left"
      "list_all fits ts" "nested st rest" by blast
    with t show ?thesis by (intro exI[of _ "t # ts"]) simp
  qed
qed

lemma scan_members_objD:
  assumes "\<And>st toks rest. scan toks = Inr rest \<Longrightarrow> nested st toks \<Longrightarrow> \<exists>t. toks = tree_toks t @ rest \<and> fits t \<and> nested st rest"
    and "scan_members L scan True seen left toks = Inr rest" "nested (True # st) toks"
  shows "\<exists>ms. toks = concat (map (\<lambda>(k, t). JString k # tree_toks t) ms) @ JClose True # rest \<and> length ms \<le> left
    \<and> distinct (map fst ms) \<and> set (map fst ms) \<inter> set seen = {} \<and> list_all (\<lambda>(k, t). to_lower L k = k \<and> fits t) ms
    \<and> nested st rest"
  using assms(2,3)
proof (induction left arbitrary: toks seen)
  case 0
  then obtain t0 tr where "toks = t0 # tr" by (cases toks) auto
  with 0 show ?case by (cases t0) auto
next
  case (Suc left)
  then obtain t0 tr where t0: "toks = t0 # tr" by (cases toks) auto
  show ?case
  proof (cases "\<exists>b. t0 = JClose b")
    case True
    with Suc.prems t0 show ?thesis by (intro exI[of _ "[]"]) auto
  next
    case False
    with Suc.prems t0 obtain k more where m: "t0 = JString k" "to_lower L k = k" "k \<notin> set seen" "scan tr = Inr more"
      "scan_members L scan True (k # seen) left more = Inr rest"
      by (cases t0) (auto simp: res_simps split: if_splits)
    have "nested (True # st) tr" using Suc.prems(2) t0 m(1) by simp
    from assms(1)[OF m(4) this] obtain t where t: "tr = tree_toks t @ more" "fits t" "nested (True # st) more" by blast
    from Suc.IH[OF m(5) t(3)] obtain ms where "more = concat (map (\<lambda>(k, t). JString k # tree_toks t) ms) @ JClose True # rest"
      "length ms \<le> left" "distinct (map fst ms)" "set (map fst ms) \<inter> set (k # seen) = {}"
      "list_all (\<lambda>(k, t). to_lower L k = k \<and> fits t) ms" "nested st rest" by blast
    with t m t0 show ?thesis by (intro exI[of _ "(k, t) # ms"]) auto
  qed
qed

lemma scan_json_sound:
  "scan_json L b toks = Inr rest \<Longrightarrow> nested st toks \<Longrightarrow> \<exists>t. toks = tree_toks t @ rest \<and> tree_fits L b t \<and> nested st rest"
proof (induction b arbitrary: st toks rest)
  case (Suc b)
  then obtain t0 tr where t0: "toks = t0 # tr" by (cases toks) auto
  show ?case
  proof (cases t0)
    case (JOpen obj)
    with Suc.prems t0 have m: "scan_members L (scan_json L b) obj [] 256 tr = Inr rest" "nested (obj # st) tr" by simp_all
    show ?thesis
    proof (cases obj)
      case True
      with m have "scan_members L (scan_json L b) True [] 256 tr = Inr rest" "nested (True # st) tr" by simp_all
      from scan_members_objD[OF Suc.IH this] obtain ms where
        "tr = concat (map (\<lambda>(k, t). JString k # tree_toks t) ms) @ JClose True # rest" "length ms \<le> 256" "distinct (map fst ms)"
        "list_all (\<lambda>(k, t). to_lower L k = k \<and> tree_fits L b t) ms" "nested st rest" by blast
      then show ?thesis using t0 JOpen True by (intro exI[of _ "JObj ms"]) simp
    next
      case False
      with m have "scan_members L (scan_json L b) False [] 256 tr = Inr rest" "nested (False # st) tr" by simp_all
      from scan_members_arrD[OF Suc.IH this] obtain ts where
        "tr = concat (map tree_toks ts) @ JClose False # rest" "length ts \<le> 256" "list_all (tree_fits L b) ts" "nested st rest" by blast
      then show ?thesis using t0 JOpen False by (intro exI[of _ "JArr ts"]) simp
    qed
  next
    case (JString s)
    with Suc.prems t0 show ?thesis by (intro exI[of _ "JStr s"]) simp
  next
    case (JScalar s)
    with Suc.prems t0 show ?thesis by (intro exI[of _ "JVal s"]) simp
  qed (use Suc.prems t0 in simp)
qed simp

text \<open>C35: strict decoding accepts exactly the payloads of at most 64 KiB that are one complete JSON value
  with nothing after it, no deeper than 16, every array and object with at most 256 members, the keys of
  every object lower case and distinct, and that the type's own decoder accepts. The hypothesis is the
  documented nesting of the delimiters that the tokenizer returns.\<close>

theorem strict_json_accepts_iff:
  assumes "nested [] (fst (gl_tokens L data))"
  shows "strict_json L dst data = Inr v \<longleftrightarrow> length data \<le> 65536
    \<and> (\<exists>t. gl_tokens L data = (tree_toks t, True) \<and> tree_fits L 17 t) \<and> dst data = Inr v"
proof -
  obtain toks ended where g: "gl_tokens L data = (toks, ended)" by force
  have "scan_json L 17 toks = Inr [] \<longleftrightarrow> (\<exists>t. toks = tree_toks t \<and> tree_fits L 17 t)"
  proof
    assume "scan_json L 17 toks = Inr []"
    from scan_json_sound[OF this, of "[]"] assms g show "\<exists>t. toks = tree_toks t \<and> tree_fits L 17 t" by auto
  next
    assume "\<exists>t. toks = tree_toks t \<and> tree_fits L 17 t"
    then obtain t where t: "toks = tree_toks t" "tree_fits L 17 t" by blast
    with scan_json_tree[of L 17 t "[]"] show "scan_json L 17 toks = Inr []" by (simp add: scans_def)
  qed
  then show ?thesis using g by (auto simp: strict_json_def res_simps split: if_splits)
qed

section \<open>Decoded recipes\<close>

lemma check_overrides_eq:
  "check_overrides s over st = Inr over' \<longleftrightarrow> valid_set s st \<and> over' = lay_pins st over"
proof (induction s over st rule: check_overrides.induct)
  case (2 s over k v st)
  then show ?case by (cases "schema_dim s k") (auto simp: valid_set_Cons lay_pins_def)
qed (auto simp: valid_set_def lay_pins_def)

definition with_config :: "sketch \<Rightarrow> tset \<Rightarrow> optset \<Rightarrow> sketch" where
  "with_config s st k = s\<lparr>sk_traits := (sk_traits s)\<lparr>o_over := lay_pins st []\<rparr>, sk_knobs := k\<rparr>"

lemma from_config_Inr:
  "from_config fg fs (Some s0) c = Inr s \<longleftrightarrow> valid_set (sketch_schema s0) (cf_traits c)
     \<and> (\<exists>k suffix. optset_apply fg (set_names fs c) (store_fields fs c (sk_knobs s0)) = (k, Inr suffix)
          \<and> s = with_config s0 (cf_traits c) k)"
  by (auto simp: from_config_def set_overrides_def res_simps check_overrides_eq sketch_schema_def
      with_config_def split: prod.splits sum.splits)

lemma valid_set_wfm_nil: "wfm (lay_pins st [])"
proof -
  have "wfm over \<Longrightarrow> wfm (lay_pins st over)" for over
    unfolding lay_pins_def by (induction st arbitrary: over) (auto intro: wf_intros)
  then show ?thesis by simp
qed

text \<open>The constructor and the field list of each artwork.\<close>

definition new_sketch :: "golib \<Rightarrow> string \<Rightarrow> sketch option" where
  "new_sketch L art = (if art = ''pools'' then pools_new (gl_pools_pin L)
     else if art = ''foam'' then foam_new (gl_foam_pin L) else iris_new)"

definition art_fields :: "string \<Rightarrow> string list" where
  "art_fields art = (if art = ''pools'' then pools_fields
     else if art = ''foam'' then foam_fields else iris_fields)"

definition published :: "string \<Rightarrow> bool" where
  "published art \<longleftrightarrow> art = ''pools'' \<or> art = ''foam'' \<or> art = ''iris''"

lemma configured_eq: "configured L art raw seed = (if published art
    then configure_with L art raw seed (from_config (gl_g L) (art_fields art) (new_sketch L art))
    else Inl (ErrMsg ''unsupported artwork''))"
  by (simp add: configured_def published_def new_sketch_def art_fields_def pools_from_config_def
      foam_from_config_def iris_from_config_def)

lemma new_sketch_ok: "\<exists>s. new_sketch L art = Some s \<and> sketch_schema s = base_schema art"
  using pools_new_ok foam_new_ok iris_new_ok unfolding new_sketch_def base_schema_def by auto

lemma valid_set_put: "valid_set s st \<Longrightarrow> valid_set s [(k, v)] \<Longrightarrow> valid_set s (mput k v st)"
  by (induction st) (auto simp: valid_set_Cons)

lemma valid_set_lay_pins: "valid_set s over \<Longrightarrow> valid_set s st \<Longrightarrow> valid_set s (lay_pins over st)"
  unfolding lay_pins_def
proof (induction over arbitrary: st)
  case (Cons kv over)
  obtain k v where kv: "kv = (k, v)" by force
  with Cons.prems have "valid_set s (mput k v st)"
    by (intro valid_set_put) (auto simp: valid_set_Cons valid_set_def[of s "[]"])
  with Cons kv show ?case by (simp add: valid_set_Cons)
qed simp

lemma resolve_over: "options_resolve \<lparr>o_schema = sch, o_raw = raw, o_over = over\<rparr> rng =
    map_option (\<lambda>(st, r). (lay_pins over st, r)) (derive sch rng)"
  by (simp add: options_resolve_def lay_pins_def)

lemma traits_with_config:
  assumes "sketch_schema s0 = base_schema art" "valid_set (base_schema art) over"
  shows "\<exists>st. sketch_traits (with_config s0 over k) seed = Some st \<and> complete_set (base_schema art) st
    \<and> wfm st"
proof -
  obtain st r where d: "derive (base_schema art) (new_pcg seed (sk_stream s0)) = Some (st, r)"
    and c: "complete_set (base_schema art) st"
    using derive_complete[OF base_schema_ok] by blast
  let ?o = "lay_pins over []"
  have v: "valid_set (base_schema art) ?o"
    using valid_set_lay_pins[OF assms(2)] by (simp add: valid_set_def)
  have w: "wfm over' \<Longrightarrow> wfm (lay_pins st' over')" for st' over'
    unfolding lay_pins_def by (induction st' arbitrary: over') (auto intro: wf_intros)
  have "sketch_traits (with_config s0 over k) seed = Some (lay_pins ?o st)"
    using d assms(1)
    by (simp add: sketch_traits_def with_config_def options_resolve_def lay_pins_def sketch_schema_def)
  moreover have "wfm st" using derive_onto_wfm[of "[]"] d by (auto simp: derive_def)
  moreover have "distinct (map d_name (base_schema art))"
    using base_schema_ok(2)[of art] by (simp add: wf_schema_def)
  ultimately show ?thesis using lay_pins_complete[OF v] c w by blast
qed

lemma configured_Inr:
  assumes "configured L art raw seed = Inr (s, c)"
  shows "published art \<and> (\<exists>s0 c0 k suffix st. new_sketch L art = Some s0
    \<and> sketch_schema s0 = base_schema art
    \<and> strict_json L (gl_dec_config L art) raw = Inr c0 \<and> valid_set (base_schema art) (cf_traits c0)
    \<and> optset_apply (gl_g L) (set_names (art_fields art) c0)
        (store_fields (art_fields art) c0 (sk_knobs s0)) = (k, Inr suffix)
    \<and> s = with_config s0 (cf_traits c0) k \<and> sketch_traits s seed = Some st
    \<and> complete_set (base_schema art) st \<and> wfm st \<and> c = c0\<lparr>cf_traits := st\<rparr>)"
proof -
  obtain s0 where s0: "new_sketch L art = Some s0" "sketch_schema s0 = base_schema art"
    using new_sketch_ok by blast
  from assms have pub: "published art" by (auto simp: configured_eq split: if_splits)
  with assms s0 obtain c0 where c0: "strict_json L (gl_dec_config L art) raw = Inr c0"
    and fc: "from_config (gl_g L) (art_fields art) (Some s0) c0 = Inr s"
    and st: "unpanic (sketch_traits s seed) = Inr (cf_traits c)" and c: "c = c0\<lparr>cf_traits := cf_traits c\<rparr>"
    by (auto simp: configured_eq configure_with_def res_simps)
  from fc s0 obtain k suffix where k: "valid_set (base_schema art) (cf_traits c0)"
    "optset_apply (gl_g L) (set_names (art_fields art) c0)
        (store_fields (art_fields art) c0 (sk_knobs s0)) = (k, Inr suffix)"
    "s = with_config s0 (cf_traits c0) k"
    by (auto simp: from_config_Inr)
  with st traits_with_config[OF s0(2) k(1), of k seed] have
    "sketch_traits s seed = Some (cf_traits c)" "complete_set (base_schema art) (cf_traits c)" "wfm (cf_traits c)"
    by auto
  with pub s0 c0 c k show ?thesis by blast
qed

text \<open>What a decoded recipe is made of.\<close>

lemma decode_Inr:
  assumes "decode L data = Inr r"
  obtains e seed s c cb where
    "strict_json L (gl_dec_envelope L) data = Inr e" "e_version e = 1" "e_edition e = ''1''"
    "parse_uint (e_seed e) = Some seed" "by_name (e_palette e) \<noteq> None"
    "configured L (e_id e) (e_config e) seed = Inr (s, c)" "sketch_traits s seed = Some (r_traits r)"
    "gl_enc_config L (e_id e) c = Inr cb"
    "r_id r = e_id e" "r_seed r = format_uint seed"
    "r_pal r = (let col = set_get (r_traits r) ''colourway''
       in if col \<noteq> '''' \<and> col \<noteq> ''from-flag'' then col else e_palette e)"
    "gl_enc_envelope L \<lparr>e_version = 1, e_id = r_id r, e_edition = ''1'', e_seed = r_seed r,
       e_palette = r_pal r, e_config = cb\<rparr> = Inr (r_canonical r)"
proof -
  from assms obtain e where e: "strict_json L (gl_dec_envelope L) data = Inr e"
    "e_version e = 1" "e_edition e = ''1''"
    by (auto simp: decode_def res_simps split: if_splits)
  with assms obtain seed where seed: "parse_uint (e_seed e) = Some seed"
    by (auto simp: decode_def res_simps split: if_splits option.splits)
  from assms e seed obtain s c st where s: "by_name (e_palette e) \<noteq> None"
    "configured L (e_id e) (e_config e) seed = Inr (s, c)" "unpanic (sketch_traits s seed) = Inr st"
    by (auto simp: decode_def res_simps Let_def split: if_splits)
  obtain v i ed sd p cf where ee: "e = \<lparr>e_version = v, e_id = i, e_edition = ed, e_seed = sd, e_palette = p, e_config = cf\<rparr>"
    by (cases e)
  from s(3) have st: "sketch_traits s seed = Some st" by (cases "sketch_traits s seed") auto
  from assms e seed s st ee obtain cb where "gl_enc_config L (e_id e) c = Inr cb"
    by (auto simp: decode_def res_simps Let_def split: if_splits)
  with assms e seed s st ee show ?thesis
    by (intro that[of e seed s c cb]) (auto simp: decode_def res_simps Let_def split: if_splits)
qed


section \<open>Canonical recipes\<close>

text \<open>
  What the code relies on in \<open>encoding/json\<close>: an encoding is a JSON value within the limits of the
  strict scanner, decoding it gives the encoded value back, a decoded map has distinct keys, and
  the encoding of a map does not depend on the order of its entries. This is asked only of what the
  code encodes: configurations of a published artwork with a complete set of choices (the other fields
  are numbers), and envelopes with the constant version and edition and a formatted seed. A palette
  name is any string a visitor sent, and an encoder replaces invalid UTF-8: an envelope is promised back
  up to its palette, and in full when either palette is one of the library.
\<close>

definition json_accepts :: "golib \<Rightarrow> string \<Rightarrow> bool" where
  "json_accepts L b \<longleftrightarrow> length b \<le> 65536 \<and> (\<exists>t. gl_tokens L b = (tree_toks t, True) \<and> tree_fits L 17 t)"

definition encoded :: "string \<Rightarrow> config \<Rightarrow> bool" where
  "encoded art c \<longleftrightarrow> published art \<and> complete_set (base_schema art) (cf_traits c)"

definition json_faithful :: "golib \<Rightarrow> bool" where
  "json_faithful L \<longleftrightarrow>
     (\<forall>art c cb. encoded art c \<and> gl_enc_config L art c = Inr cb \<longrightarrow> json_accepts L cb \<and>
        (\<exists>c'. gl_dec_config L art cb = Inr c' \<and> wfm (cf_traits c') \<and> cf_fields c' = cf_fields c
           \<and> mget (cf_traits c') = mget (cf_traits c)))
     \<and> (\<forall>art seed pal c cb b. encoded art c \<and> gl_enc_config L art c = Inr cb
          \<and> gl_enc_envelope L \<lparr>e_version = 1, e_id = art, e_edition = ''1'', e_seed = format_uint seed,
              e_palette = pal, e_config = cb\<rparr> = Inr b
          \<longrightarrow> (\<exists>pal'. gl_dec_envelope L b = Inr \<lparr>e_version = 1, e_id = art, e_edition = ''1'',
                 e_seed = format_uint seed, e_palette = pal', e_config = cb\<rparr>
               \<and> (by_name pal \<noteq> None \<or> by_name pal' \<noteq> None \<longrightarrow> pal' = pal \<and> json_accepts L b)))
     \<and> (\<forall>art c c'. encoded art c \<and> cf_fields c' = cf_fields c \<and> mget (cf_traits c') = mget (cf_traits c)
          \<longrightarrow> gl_enc_config L art c' = gl_enc_config L art c)"

lemma json_faithfulD:
  assumes "json_faithful L" "encoded art c"
  shows "gl_enc_config L art c = Inr cb \<Longrightarrow> json_accepts L cb \<and>
      (\<exists>c'. gl_dec_config L art cb = Inr c' \<and> wfm (cf_traits c') \<and> cf_fields c' = cf_fields c
         \<and> mget (cf_traits c') = mget (cf_traits c))"
    and "gl_enc_config L art c = Inr cb \<Longrightarrow> gl_enc_envelope L \<lparr>e_version = 1, e_id = art, e_edition = ''1'',
        e_seed = format_uint seed, e_palette = pal, e_config = cb\<rparr> = Inr b \<Longrightarrow>
      \<exists>pal'. gl_dec_envelope L b = Inr \<lparr>e_version = 1, e_id = art, e_edition = ''1'',
          e_seed = format_uint seed, e_palette = pal', e_config = cb\<rparr>
        \<and> (by_name pal \<noteq> None \<or> by_name pal' \<noteq> None \<longrightarrow> pal' = pal \<and> json_accepts L b)"
    and "cf_fields c' = cf_fields c \<Longrightarrow> mget (cf_traits c') = mget (cf_traits c) \<Longrightarrow>
      gl_enc_config L art c' = gl_enc_config L art c"
  using assms unfolding json_faithful_def by blast+

lemma strict_json_accepts: "json_accepts L b \<Longrightarrow> dst b = Inr v \<Longrightarrow> strict_json L dst b = Inr v"
  using scan_json_tree[of L 17 _ "[]"]
  by (force simp: json_accepts_def strict_json_def scans_def split: if_splits)

text \<open>Every colourway of a schema names a palette, except the one that defers to the flag.\<close>

definition colours_known :: "dim \<Rightarrow> bool" where
  "colours_known d \<longleftrightarrow> d_name d = ''colourway'' \<longrightarrow>
     list_all (\<lambda>v. v_name v = ''from-flag'' \<or> v_name v \<in> set palette_slugs) (d_values d)"

lemma known_colours: "list_all (\<lambda>n. n \<in> set palette_slugs) [
    ''tchelitchew-hide-and-seek'', ''botero-seated-nude'', ''diebenkorn-seawall'',
    ''davis-anthracite-minuet'', ''bruegel-icarus'', ''hopper-night-windows'',
    ''cezanne-bathers'', ''beckmann-dancing-bar'', ''avery-bicycle-rider'', ''munch-scream-oil'',
    ''dix-nun'', ''dechirico-red-tower'', ''chagall-mariee'', ''klee-destruction-hope'',
    ''botticelli-venus'', ''cassatt-letter'', ''albers-tehuana'', ''duchamp-landscape'',
    ''kandinsky-apple-tree'', ''matisse-collioure'', ''klee-fire-evening'',
    ''miro-woman-dog-moon'', ''hockney-bigger-splash'', ''delaunay-bleriot'', ''gauguin-siesta'',
    ''redon-green-vase'', ''varo-harmony'', ''seurat-grande-jatte'', ''sargent-carnation-lily'',
    ''monet-water-lilies'', ''vangogh-arles''
]"
  by (simp add: palette_slugs_def)

lemma base_colours_known: "list_all colours_known (base_schema art)"
  using known_colours
  by (simp add: base_schema_def pools_schema_def foam_schema_def iris_schema_def colours_known_def)

lemma colourway_palette:
  assumes "complete_set (base_schema art) st" "mget st ''colourway'' = Some col" "col \<noteq> ''from-flag''"
  shows "by_name col \<noteq> None"
proof -
  from assms(1,2) have "''colourway'' \<in> d_name ` set (base_schema art)"
    by (auto simp: complete_set_def)
  then obtain d where d: "d \<in> set (base_schema art)" "d_name d = ''colourway''" by force
  with assms(1,2) obtain v where v: "v \<in> set (d_values d)" "v_name v = col"
    by (fastforce simp: complete_set_def)
  have "colours_known d" using base_colours_known d(1) by (auto simp: list_all_iff)
  with v d(2) assms(3) have "col \<in> set palette_slugs" by (auto simp: colours_known_def list_all_iff)
  then show ?thesis by (simp only: by_name_iff)
qed

lemma set_get_colour: "set_get st k = col \<Longrightarrow> col \<noteq> '''' \<Longrightarrow> mget st k = Some col"
  by (auto simp: set_get_def split: option.splits)

lemma traits_overrides:
  assumes "sketch_schema s0 = base_schema art"
  obtains d where "complete_set (base_schema art) d"
    "\<And>over k. sketch_traits (with_config s0 over k) seed = Some (lay_pins (lay_pins over []) d)"
proof -
  obtain d r where "derive (base_schema art) (new_pcg seed (sk_stream s0)) = Some (d, r)"
    and "complete_set (base_schema art) d"
    using derive_complete[OF base_schema_ok] by blast
  with assms show ?thesis
    by (intro that[of d])
      (auto simp: sketch_traits_def with_config_def options_resolve_def lay_pins_def sketch_schema_def)
qed

lemma mget_lay_pins: "wfm over \<Longrightarrow>
    mget (lay_pins over st) k = (case mget over k of Some v \<Rightarrow> Some v | None \<Rightarrow> mget st k)"
  by (simp add: lay_pins_def mget_foldl_put)

lemma valid_set_complete:
  assumes "complete_set sch st" "distinct (map d_name sch)" "wfm st'" "mget st' = mget st"
  shows "valid_set sch st'"
proof -
  have "\<exists>d. schema_dim sch k = Some d \<and> dim_has d v" if "(k, v) \<in> set st'" for k v
  proof -
    have kv: "mget st k = Some v" using that assms(3,4) by (metis map_of_is_SomeI wfm_def)
    then have "k \<in> d_name ` set sch" using assms(1) by (auto simp: complete_set_def)
    then obtain d where d: "d \<in> set sch" "d_name d = k" by force
    with assms(1) kv have "dim_has d v" by (fastforce simp: complete_set_def dim_has_iff)
    with schema_dim_member[OF assms(2) d(1)] d(2) show ?thesis by auto
  qed
  then show ?thesis by (force simp: valid_set_def list_all_iff)
qed

lemma configured_canonical:
  assumes J: "json_faithful L" and conf: "configured L art raw seed = Inr (s, c)"
    and enc: "gl_enc_config L art c = Inr cb"
  shows "\<exists>s' c'. configured L art cb seed = Inr (s', c') \<and> gl_enc_config L art c' = Inr cb
    \<and> (\<exists>st st'. sketch_traits s seed = Some st \<and> sketch_traits s' seed = Some st' \<and> mget st' = mget st)"
proof -
  let ?B = "base_schema art"
  from configured_Inr[OF conf] obtain s0 c0 k suffix st where
    pub: "published art" and s0: "new_sketch L art = Some s0" "sketch_schema s0 = ?B"
    and k: "optset_apply (gl_g L) (set_names (art_fields art) c0)
        (store_fields (art_fields art) c0 (sk_knobs s0)) = (k, Inr suffix)"
    and s: "s = with_config s0 (cf_traits c0) k" "sketch_traits s seed = Some st"
    and st: "complete_set ?B st" "wfm st" "c = c0\<lparr>cf_traits := st\<rparr>"
    by blast
  have encoded: "encoded art c" using pub st(1,3) by (simp add: encoded_def)
  from json_faithfulD(1)[OF J this enc] obtain c1 where c1: "json_accepts L cb" "gl_dec_config L art cb = Inr c1"
    "wfm (cf_traits c1)" "cf_fields c1 = cf_fields c" "mget (cf_traits c1) = mget (cf_traits c)"
    by blast
  have dis: "distinct (map d_name ?B)" using base_schema_ok(2)[of art] by (simp add: wf_schema_def)
  have f: "cf_fields c1 = cf_fields c0" "mget (cf_traits c1) = mget st" using c1 st(3) by simp_all
  have names: "set_names fs c1 = set_names fs c0" "store_fields fs c1 v = store_fields fs c0 v" for fs v
    by (simp_all add: set_names_def store_fields_def f)
  have v1: "valid_set ?B (cf_traits c1)" using valid_set_complete[OF st(1) dis c1(3)] f(2) by simp
  let ?s' = "with_config s0 (cf_traits c1) k"
  have "from_config (gl_g L) (art_fields art) (Some s0) c1 = Inr ?s'"
    unfolding from_config_Inr using v1 k s0(2) by (auto simp: names)
  moreover obtain d where d: "complete_set ?B d"
    "\<And>over k. sketch_traits (with_config s0 over k) seed = Some (lay_pins (lay_pins over []) d)"
    using traits_overrides[OF s0(2)] by blast
  let ?st' = "lay_pins (lay_pins (cf_traits c1) []) d"
  have "mget ?st' x = mget st x" for x
  proof -
    have dom: "dom (mget d) = dom (mget st)" using d(1) st(1) by (simp add: complete_set_def)
    then have "mget st x = None \<Longrightarrow> mget d x = None" by (metis domIff)
    then show ?thesis
      using mget_lay_pins[OF c1(3), of "[]" x] f(2)
      by (cases "mget st x") (simp_all add: mget_lay_pins[OF valid_set_wfm_nil])
  qed
  then have same: "mget ?st' = mget st" by (rule ext)
  have "configured L art cb seed = Inr (?s', c1\<lparr>cf_traits := ?st'\<rparr>)"
    using pub s0(1) strict_json_accepts[OF c1(1), of "gl_dec_config L art" c1] c1(2) calculation d(2)
    by (simp add: configured_eq configure_with_def)
  moreover have "gl_enc_config L art (c1\<lparr>cf_traits := ?st'\<rparr>) = gl_enc_config L art c"
    using json_faithfulD(3)[OF J encoded, of "c1\<lparr>cf_traits := ?st'\<rparr>"] same f(1) st(3) by simp
  ultimately show ?thesis using enc s(2) d(2) same by auto
qed

lemma decode_fixpoint:
  assumes J: "json_faithful L" and r: "decode L data = Inr r" and short: "length (r_canonical r) \<le> 16384"
  shows "\<exists>r'. decode L (r_canonical r) = Inr r' \<and> r_canonical r' = r_canonical r \<and> r_id r' = r_id r
    \<and> r_seed r' = r_seed r \<and> r_pal r' = r_pal r \<and> mget (r_traits r') = mget (r_traits r)"
proof -
  obtain e seed s c cb where "strict_json L (gl_dec_envelope L) data = Inr e"
    "e_version e = 1" "e_edition e = ''1''" and e: "parse_uint (e_seed e) = Some seed"
    "by_name (e_palette e) \<noteq> None"
    "configured L (e_id e) (e_config e) seed = Inr (s, c)" "sketch_traits s seed = Some (r_traits r)"
    "gl_enc_config L (e_id e) c = Inr cb" "r_id r = e_id e" "r_seed r = format_uint seed"
    and pal: "r_pal r = (let col = set_get (r_traits r) ''colourway''
       in if col \<noteq> '''' \<and> col \<noteq> ''from-flag'' then col else e_palette e)"
    and env: "gl_enc_envelope L \<lparr>e_version = 1, e_id = r_id r, e_edition = ''1'', e_seed = r_seed r,
       e_palette = r_pal r, e_config = cb\<rparr> = Inr (r_canonical r)" (is "gl_enc_envelope L ?e = _")
    by (rule decode_Inr[OF r])
  obtain s' c' st' where c': "configured L (r_id r) cb seed = Inr (s', c')"
    "gl_enc_config L (r_id r) c' = Inr cb" "sketch_traits s' seed = Some st'"
    "mget st' = mget (r_traits r)"
    using configured_canonical[OF J e(3,5)] e(4,6) by auto
  have col: "set_get st' k = set_get (r_traits r) k" for k using c'(4) by (simp add: set_get_def)
  have "complete_set (base_schema (e_id e)) (r_traits r)" using configured_Inr[OF e(3)] e(4) by auto
  from colourway_palette[OF this] have pal_known: "by_name (r_pal r) \<noteq> None"
    using e(2) pal set_get_colour[of "r_traits r" "''colourway''"]
    by (auto simp: Let_def split: if_splits)
  have "encoded (e_id e) c" using configured_Inr[OF e(3)] by (auto simp: encoded_def)
  from json_faithfulD(2)[OF J this e(5), of seed "r_pal r" "r_canonical r"] env e(6,7) pal_known
  have dec: "strict_json L (gl_dec_envelope L) (r_canonical r) = Inr ?e"
    by (auto intro!: strict_json_accepts)
  have "decode L (r_canonical r) = Inr \<lparr>r_canonical = r_canonical r, r_id = r_id r, r_seed = r_seed r,
      r_pal = r_pal r, r_traits = st'\<rparr>"
    using short dec c' pal_known env e(7) pal
    by (auto simp: decode_def max_recipe_def col Let_def split: if_splits)
  with c'(4) show ?thesis by simp
qed

text \<open>C34: a canonical recipe is a fixed point: decoding the bytes \<open>Decode\<close> produced gives a recipe with
  the same bytes, artwork, seed, palette and choices, so the digest and every cache key of a stored
  recipe are stable.\<close>

theorem decode_canonical:
  assumes J: "json_faithful L" and r: "decode L data = Inr r" and short: "length (r_canonical r) \<le> 16384"
  shows "\<exists>r'. decode L (r_canonical r) = Inr r' \<and> r_canonical r' = r_canonical r \<and> r_id r' = r_id r
    \<and> r_seed r' = r_seed r \<and> r_pal r' = r_pal r \<and> mget (r_traits r') = mget (r_traits r)"
  by (rule decode_fixpoint[OF assms])

section \<open>A small library for the witnesses\<close>

text \<open>
  A library that knows two envelopes of one iris recipe: the short one a client may send and the
  canonical one. Its encoders refuse everything else.
\<close>

definition demo_traits :: tset where
  "demo_traits = (case iris_new of None \<Rightarrow> []
     | Some s \<Rightarrow> (case sketch_traits s 7 of None \<Rightarrow> [] | Some st \<Rightarrow> st))"

definition same_map :: "tset \<Rightarrow> tset \<Rightarrow> bool" where
  "same_map a b \<longleftrightarrow> list_all (\<lambda>k. mget a k = mget b k) (map fst (a @ b))"

definition demo_envelope :: "string \<Rightarrow> envelope" where
  "demo_envelope cfg = \<lparr>e_version = 1, e_id = ''iris'', e_edition = ''1'', e_seed = ''7'',
     e_palette = ''diebenkorn-seawall'', e_config = cfg\<rparr>"

definition demo_lib :: golib where
  "demo_lib = \<lparr>gl_tokens = \<lambda>data. ([JScalar data], True),
     gl_dec_envelope = \<lambda>data. if data = ''short'' then Inr (demo_envelope ''none'')
       else if data = ''canon'' then Inr (demo_envelope ''full'') else Inl (ErrMsg ''json''),
     gl_dec_config = \<lambda>art data. if data = ''full'' then Inr \<lparr>cf_traits = demo_traits, cf_fields = []\<rparr>
       else if data = ''none'' then Inr \<lparr>cf_traits = [], cf_fields = []\<rparr> else Inl (ErrMsg ''json''),
     gl_enc_envelope = \<lambda>e. if e = demo_envelope ''full'' then Inr ''canon'' else Inl (ErrMsg ''json''),
     gl_enc_config = \<lambda>art c. if cf_fields c = [] \<and> same_map (cf_traits c) demo_traits then Inr ''full''
       else Inl (ErrMsg ''json''),
     gl_enc_rendition = \<lambda>t. format_int (rn_width t), gl_sha256 = \<lambda>b. b,
     gl_unicode_lower = \<lambda>s. s, gl_g = \<lambda>x. '''', gl_pools_pin = \<lambda>k. VInt 0, gl_foam_pin = \<lambda>k. VInt 0\<rparr>"

definition demo_recipe :: "tset \<Rightarrow> recipe" where
  "demo_recipe st = \<lparr>r_canonical = ''canon'', r_id = ''iris'', r_seed = ''7'',
     r_pal = ''diebenkorn-seawall'', r_traits = st\<rparr>"

lemma same_map_iff: "same_map a b \<longleftrightarrow> mget a = mget b"
proof
  assume s: "same_map a b"
  show "mget a = mget b"
  proof
    fix k
    show "mget a k = mget b k"
    proof (cases "k \<in> fst ` set a \<or> k \<in> fst ` set b")
      case False
      then have "mget a k = None" "mget b k = None" by (simp_all add: map_of_eq_None_iff)
      then show ?thesis by simp
    qed (use s in \<open>auto simp: same_map_def list_all_iff\<close>)
  qed
qed (simp add: same_map_def list_all_iff)

lemma validate_knobs_unset: "os_seen s = [] \<Longrightarrow> validate_knobs fg s ks app = (app, Inr [])"
  by (induction ks) auto

lemma from_config_bare:
  assumes "valid_set (sketch_schema s0) st"
  shows "\<exists>k. from_config fg fs (Some s0) \<lparr>cf_traits = st, cf_fields = []\<rparr> = Inr (with_config s0 st k)"
proof -
  have "optset_apply fg [] v = (v\<lparr>os_seen := [], os_applied := os_applied v\<rparr>, Inr '''')" for v
    by (simp add: optset_apply_def optset_validate_def validate_knobs_unset)
  then show ?thesis
    using assms by (auto simp: from_config_Inr set_names_def)
qed

lemma demo_traits_ok:
  assumes "iris_new = Some s0" "sketch_schema s0 = iris_schema"
  shows "complete_set iris_schema demo_traits" "wfm demo_traits"
    and "sketch_traits (with_config s0 [] k) 7 = Some demo_traits"
    and "\<exists>st. sketch_traits (with_config s0 demo_traits k) 7 = Some st \<and> mget st = mget demo_traits"
proof -
  have b: "base_schema ''iris'' = iris_schema" by (simp add: base_schema_def)
  obtain d where d: "complete_set iris_schema d"
    "\<And>over k. sketch_traits (with_config s0 over k) 7 = Some (lay_pins (lay_pins over []) d)"
    using traits_overrides[of s0 "''iris''" 7] assms(2) b by metis
  have "o_over (sk_traits s0) = []"
    using assms(1) unfolding iris_new_def make_sketch_ok[OF iris_schema_ok] by auto
  then have "with_config s0 [] (sk_knobs s0) = s0" by (simp add: with_config_def lay_pins_def)
  with d(2)[of "[]" "sk_knobs s0"] have t: "demo_traits = d"
    by (simp add: demo_traits_def assms(1) lay_pins_def)
  show w: "wfm demo_traits" "complete_set iris_schema demo_traits"
    using traits_with_config[of s0 "''iris''" "[]" k 7] d assms(2) b t
    by (simp_all add: valid_set_def lay_pins_def)
  show "sketch_traits (with_config s0 [] k) 7 = Some demo_traits"
    using d(2)[of "[]" k] t by (simp add: lay_pins_def)
  have "mget (lay_pins (lay_pins d []) d) = mget d"
    by (rule ext) (use w t in \<open>simp add: mget_lay_pins valid_set_wfm_nil split: option.splits\<close>)
  with d(2) t show "\<exists>st. sketch_traits (with_config s0 demo_traits k) 7 = Some st \<and> mget st = mget demo_traits"
    by auto
qed

lemma demo_fields:
  "gl_tokens demo_lib b = (tree_toks (JVal b), True)"
  "gl_dec_envelope demo_lib b = (if b = ''short'' then Inr (demo_envelope ''none'')
     else if b = ''canon'' then Inr (demo_envelope ''full'') else Inl (ErrMsg ''json''))"
  "gl_dec_config demo_lib art b = (if b = ''full'' then Inr \<lparr>cf_traits = demo_traits, cf_fields = []\<rparr>
     else if b = ''none'' then Inr \<lparr>cf_traits = [], cf_fields = []\<rparr> else Inl (ErrMsg ''json''))"
  "gl_enc_config demo_lib art c = (if cf_fields c = [] \<and> mget (cf_traits c) = mget demo_traits
     then Inr ''full'' else Inl (ErrMsg ''json''))"
  "gl_enc_envelope demo_lib e = (if e = demo_envelope ''full'' then Inr ''canon'' else Inl (ErrMsg ''json''))"
  by (simp_all add: demo_lib_def same_map_iff)

lemma demo_scan: "length b \<le> 65536 \<Longrightarrow> strict_json demo_lib dst b = dst b"
proof -
  have "scan_json demo_lib 17 [JScalar b] = Inr []" by (simp add: numeral_eq_Suc)
  then show "length b \<le> 65536 \<Longrightarrow> strict_json demo_lib dst b = dst b"
    by (simp add: strict_json_def demo_fields)
qed

lemma demo_no_colourway: "complete_set iris_schema st \<Longrightarrow> set_get st ''colourway'' = ''''"
proof -
  assume "complete_set iris_schema st"
  then have "dom (mget st) = d_name ` set iris_schema" by (simp add: complete_set_def)
  moreover have "''colourway'' \<notin> d_name ` set iris_schema" by (simp add: iris_schema_def)
  ultimately have "mget st ''colourway'' = None" by (metis domIff)
  then show ?thesis by (simp add: set_get_def)
qed

lemma demo_configured:
  assumes "cfg = ''none'' \<or> cfg = ''full''"
  shows "\<exists>s st. configured demo_lib ''iris'' cfg 7 = Inr (s, \<lparr>cf_traits = st, cf_fields = []\<rparr>)
    \<and> sketch_traits s 7 = Some st \<and> mget st = mget demo_traits \<and> (cfg = ''none'' \<longrightarrow> st = demo_traits)"
proof -
  obtain s0 where s0: "iris_new = Some s0" "sketch_schema s0 = iris_schema" using iris_new_ok by blast
  note ok = demo_traits_ok[OF s0]
  have new: "new_sketch demo_lib ''iris'' = Some s0" by (simp add: new_sketch_def s0)
  have pub: "published ''iris''" by (simp add: published_def)
  let ?over = "if cfg = ''none'' then [] else demo_traits"
  have dis: "distinct (map d_name iris_schema)" using iris_schema_ok(2) by (simp add: wf_schema_def)
  have v: "valid_set (sketch_schema s0) ?over"
    using valid_set_complete[OF ok(1) dis ok(2)] s0(2) by (auto simp: valid_set_def)
  obtain k where k: "from_config (gl_g demo_lib) (art_fields ''iris'') (Some s0)
      \<lparr>cf_traits = ?over, cf_fields = []\<rparr> = Inr (with_config s0 ?over k)"
    using from_config_bare[OF v] by blast
  obtain st where st: "sketch_traits (with_config s0 ?over k) 7 = Some st" "mget st = mget demo_traits"
    "cfg = ''none'' \<longrightarrow> st = demo_traits"
    using ok(3)[of k] ok(4)[of k] by (cases "cfg = ''none''") auto
  have dec: "strict_json demo_lib (gl_dec_config demo_lib ''iris'') cfg =
      Inr \<lparr>cf_traits = ?over, cf_fields = []\<rparr>"
    using assms demo_scan[of cfg "gl_dec_config demo_lib ''iris''"] by (auto simp: demo_fields)
  have "configured demo_lib ''iris'' cfg 7 =
      Inr (with_config s0 ?over k, \<lparr>cf_traits = st, cf_fields = []\<rparr>)"
    using pub new k st(1) by (simp add: configured_eq configure_with_def dec)
  with st show ?thesis by blast
qed

lemma demo_decode:
  assumes "b = ''short'' \<or> b = ''canon''"
  shows "\<exists>st. decode demo_lib b = Inr (demo_recipe st) \<and> mget st = mget demo_traits
    \<and> (b = ''short'' \<longrightarrow> st = demo_traits)"
proof -
  let ?cfg = "if b = ''short'' then ''none'' else ''full''"
  obtain s st where c: "configured demo_lib ''iris'' ?cfg 7 = Inr (s, \<lparr>cf_traits = st, cf_fields = []\<rparr>)"
    "sketch_traits s 7 = Some st" "mget st = mget demo_traits" "?cfg = ''none'' \<longrightarrow> st = demo_traits"
    using demo_configured[of ?cfg] by (cases "b = ''short''") auto
  have env: "strict_json demo_lib (gl_dec_envelope demo_lib) b = Inr (demo_envelope ?cfg)"
    using assms demo_scan[of b "gl_dec_envelope demo_lib"] by (auto simp: demo_fields)
  have fmt: "parse_uint ''7'' = Some 7" "format_uint 7 = ''7''"
    by (simp_all add: parse_uint_def digit_val_def format_uint_def format_nat.simps digit_char_def
        Let_def char_of_def bit_0)
  obtain s0 where s0: "iris_new = Some s0" "sketch_schema s0 = iris_schema" using iris_new_ok by blast
  have "set_get st ''colourway'' = set_get demo_traits ''colourway''" using c(3) by (simp add: set_get_def)
  then have col: "set_get st ''colourway'' = ''''"
    using demo_no_colourway[OF demo_traits_ok(1)[OF s0]] by simp
  have pal: "by_name ''diebenkorn-seawall'' \<noteq> None"
    unfolding by_name_iff by (simp add: palette_slugs_def)
  have enc: "gl_enc_config demo_lib ''iris'' \<lparr>cf_traits = st, cf_fields = []\<rparr> = Inr ''full''"
    "gl_enc_envelope demo_lib (demo_envelope ''full'') = Inr ''canon''"
    using c(3) by (simp_all add: demo_fields)
  have len: "\<not> max_recipe < length b" using assms by (auto simp: max_recipe_def)
  have "decode demo_lib b = Inr (demo_recipe st)"
    using env c(1,2) fmt col pal enc len
    by (auto simp: decode_def demo_envelope_def demo_recipe_def Let_def)
  with c(3,4) assms show ?thesis by auto
qed

lemma demo_faithful: "json_faithful demo_lib"
proof -
  have acc: "json_accepts demo_lib b" if "length b \<le> 65536" for b
  proof -
    have "tree_fits demo_lib 17 (JVal b)" by (simp add: numeral_eq_Suc)
    with that show ?thesis unfolding json_accepts_def demo_fields by blast
  qed
  obtain s0 where s0: "iris_new = Some s0" "sketch_schema s0 = iris_schema" using iris_new_ok by blast
  show ?thesis
    unfolding json_faithful_def
  proof (intro conjI allI impI; (elim conjE)?)
    fix art seed pal c cb b
    let ?e = "\<lambda>pal. \<lparr>e_version = 1, e_id = art, e_edition = ''1'', e_seed = format_uint seed, e_palette = pal, e_config = cb\<rparr>"
    assume "gl_enc_envelope demo_lib (?e pal) = Inr b"
    then have "b = ''canon'' \<and> gl_dec_envelope demo_lib b = Inr (?e pal)" by (auto simp: demo_fields split: if_splits)
    then show "\<exists>pal'. gl_dec_envelope demo_lib b = Inr (?e pal')
        \<and> (by_name pal \<noteq> None \<or> by_name pal' \<noteq> None \<longrightarrow> pal' = pal \<and> json_accepts demo_lib b)"
      using acc[of "''canon''"] by auto
  qed (use acc[of "''full''"] demo_traits_ok(2)[OF s0] in \<open>auto simp: demo_fields split: if_splits\<close>)
qed

section \<open>Witnesses\<close>

definition nested_lib :: golib where
  "nested_lib = demo_lib\<lparr>gl_tokens := \<lambda>data.
     if data = ''[{}]'' then ([JOpen False, JOpen True, JClose True, JClose False], True)
     else if data = ''1 2'' then ([JScalar ''1'', JScalar ''2''], True) else ([], False)\<rparr>"

theorem strict_json_accepts_iff_witness:
  "strict_json nested_lib (\<lambda>d. Inr (length d)) ''[{}]'' = Inr 4 \<and> (\<forall>v. strict_json nested_lib (\<lambda>d. Inr (length d)) ''1 2'' \<noteq> Inr v)"
proof -
  have n: "nested [] (fst (gl_tokens nested_lib ''[{}]''))" "nested [] (fst (gl_tokens nested_lib ''1 2''))"
    by (simp_all add: nested_lib_def)
  have "tree_fits nested_lib 17 (JArr [JObj []])" by (simp add: numeral_eq_Suc)
  moreover have "gl_tokens nested_lib ''[{}]'' = (tree_toks (JArr [JObj []]), True)" by (simp add: nested_lib_def)
  ultimately have "strict_json nested_lib (\<lambda>d. Inr (length d)) ''[{}]'' = Inr 4"
    unfolding strict_json_accepts_iff[OF n(1)] by fastforce
  moreover have "tree_toks t \<noteq> [JScalar ''1'', JScalar ''2'']" for t by (cases t) auto
  then have "gl_tokens nested_lib ''1 2'' \<noteq> (tree_toks t, True)" for t by (simp add: nested_lib_def) metis
  then have "strict_json nested_lib (\<lambda>d. Inr (length d)) ''1 2'' \<noteq> Inr v" for v
    unfolding strict_json_accepts_iff[OF n(2)] by blast
  ultimately show ?thesis by blast
qed

theorem decode_canonical_witness:
  "\<exists>r'. decode demo_lib ''canon'' = Inr r' \<and> r_canonical r' = ''canon'' \<and> r_pal r' = ''diebenkorn-seawall''"
proof -
  obtain st where d: "decode demo_lib ''short'' = Inr (demo_recipe st)" using demo_decode by blast
  show ?thesis
    using decode_canonical[OF demo_faithful d] by (auto simp: demo_recipe_def)
qed

end
