(* ===== verification/Catalog.thy ===== *)
theory Catalog
  imports Artwork
begin

text \<open>
  \<open>internal/publish/catalog.go\<close>: the artworks, styles and colours that are public, the bounded trait
  space, the completion of a choice into a recipe, and the one validation policy that restore, HTTP
  and renderer input go through.
\<close>

record choice =
  ch_id :: string
  ch_name :: string
  ch_description :: string
  ch_pins :: tset

record colour =
  co_id :: string
  co_name :: string

record entry =
  en_id :: string
  en_name :: string
  en_description :: string
  en_styles :: "choice list"
  en_colours :: "colour list"

abbreviation style :: "string \<Rightarrow> string \<Rightarrow> string \<Rightarrow> tset \<Rightarrow> choice" where
  "style i n d p \<equiv> \<lparr>ch_id = i, ch_name = n, ch_description = d, ch_pins = p\<rparr>"

definition colours :: "colour list" where
  "colours = [
     \<lparr>co_id = ''diebenkorn-seawall'', co_name = ''Tide''\<rparr>,
     \<lparr>co_id = ''tchelitchew-hide-and-seek'', co_name = ''Earth''\<rparr>,
     \<lparr>co_id = ''hopper-night-windows'', co_name = ''After dark''\<rparr>,
     \<lparr>co_id = ''cezanne-bathers'', co_name = ''Meadow''\<rparr>]"

definition pools_entry :: entry where
  "pools_entry =
     \<lparr>en_id = ''pools'', en_name = ''Pools'',
      en_description = ''Transparent circles drift and overlap like pigment on paper.'',
      en_styles = [
        style ''spacious'' ''Spacious circles'' ''Air and quiet between the circles.''
          [(''fill'', ''open''), (''arrange'', ''scatter'')],
        style ''flowing'' ''Flowing strands'' ''Circles follow a wandering current.''
          [(''fill'', ''busy''), (''arrange'', ''orbital'')],
        style ''gathered'' ''Gathered colour'' ''A fuller sheet of overlapping pools.''
          [(''fill'', ''packed'')]],
      en_colours = colours\<rparr>"

definition foam_entry :: entry where
  "foam_entry =
     \<lparr>en_id = ''foam'', en_name = ''Foam'',
      en_description = ''A field of inked cells, each carrying a different trace of colour.'',
      en_styles = [
        style ''ink'' ''Ink and paper'' ''Fine lines and drawn marks.''
          [(''fills'', ''drawn''), (''line'', ''fine'')],
        style ''painted'' ''Painted cells'' ''Soft pigment settles inside each cell.''
          [(''fills'', ''watercolour''), (''line'', ''fine'')],
        style ''airy'' ''Open cells'' ''Quiet paper between passages of colour.''
          [(''fills'', ''airy''), (''density'', ''open'')]],
      en_colours = colours\<rparr>"

definition iris_entry :: entry where
  "iris_entry =
     \<lparr>en_id = ''iris'', en_name = ''Iris'',
      en_description = ''Fine fibres gather around a dark centre, winding out into light.'',
      en_styles = [
        style ''fine'' ''Fine fibres'' ''Long threads radiate from the centre.''
          [(''structure'', ''fiber''), (''grain'', ''fine''), (''weave'', ''radial'')],
        style ''winding'' ''Winding fibres'' ''Threads turn softly around the pupil.''
          [(''structure'', ''fiber''), (''weave'', ''swirl'')],
        style ''layered'' ''Layered rings'' ''Bands of colour reveal a terraced iris.''
          [(''structure'', ''strata'')]],
      en_colours = colours\<rparr>"

definition all_entries :: "entry list" where
  "all_entries = [pools_entry, foam_entry, iris_entry]"

definition get_entry :: "string \<Rightarrow> entry option" where
  "get_entry art = find (\<lambda>e. en_id e = art) all_entries"

section \<open>The public trait space\<close>

text \<open>The values of one dimension that stay public, with a colour's weight made 1.\<close>

definition space_value :: "string \<Rightarrow> entry \<Rightarrow> dim \<Rightarrow> trait_value \<Rightarrow> trait_value option" where
  "space_value art e d v =
     (let allow1 = v_weight v > 0;
          listed = list_ex (\<lambda>c. co_id c = v_name v) (en_colours e);
          allow2 = (if d_name d = ''colourway'' then listed else allow1);
          v2 = (if d_name d = ''colourway'' \<and> listed then v\<lparr>v_weight := 1\<rparr> else v);
          allow3 = (if art = ''foam'' \<and> d_name d = ''density''
                      \<and> (v_name v = ''packed'' \<or> v_name v = ''fine'') then False else allow2);
          allow4 = (if art = ''foam'' \<and> d_name d = ''fills'' \<and> v_name v = ''watercolour'' then True
                    else allow3)
      in if allow4 then Some v2 else None)"

definition space_dim :: "string \<Rightarrow> entry \<Rightarrow> dim \<Rightarrow> dim" where
  "space_dim art e d = d\<lparr>d_values := List.map_filter (space_value art e d) (d_values d)\<rparr>"

text \<open>\<open>Registry().Get(id)\<close> for a published artwork, and its schema.\<close>

definition published_schema :: "golib \<Rightarrow> string \<Rightarrow> schema res" where
  "published_schema L art = bind_res (unpanic (registry (gl_pools_pin L) (gl_foam_pin L))) (\<lambda>r.
     case registry_get r art of
       Some (Published s) \<Rightarrow> Inr (sketch_schema s)
     | _ \<Rightarrow> Inl (ErrMsg ''panic''))"

definition space :: "golib \<Rightarrow> string \<Rightarrow> schema res" where
  "space L art = (case get_entry art of
       None \<Rightarrow> Inl (ErrMsg ''artwork unavailable'')
     | Some e \<Rightarrow> bind_res (published_schema L art) (\<lambda>sch.
         Inr (map (space_dim art e) (boost sch [] 0))))"

section \<open>Choices\<close>

definition pins :: "string \<Rightarrow> string \<Rightarrow> string \<Rightarrow> (tset \<times> string) res" where
  "pins art sty col = (case get_entry art of
       None \<Rightarrow> Inl (ErrMsg ''artwork unavailable'')
     | Some e \<Rightarrow>
         let chosen = filter (\<lambda>s. ch_id s = sty) (en_styles e);
             p = foldl (\<lambda>p s. foldl (\<lambda>p (k, v). mput k v p) p (ch_pins s)) []
                   (if sty = '''' then [] else chosen)
         in if sty \<noteq> '''' \<and> chosen = [] then Inl (ErrMsg ''unknown style'')
            else if col \<noteq> '''' \<and> \<not> list_ex (\<lambda>c. co_id c = col) (en_colours e)
            then Inl (ErrMsg ''unknown colour'')
            else Inr (if col \<noteq> '''' \<and> art \<noteq> ''iris'' then mput ''colourway'' col p else p, col))"

definition complete_raw :: "golib \<Rightarrow> string \<Rightarrow> u64 \<Rightarrow> string \<Rightarrow> tset \<Rightarrow> recipe res" where
  "complete_raw L art seed pal st =
     (let pal1 = (if pal = '''' then ''diebenkorn-seawall'' else pal);
          c = set_get st ''colourway'';
          pal2 = (if c \<noteq> '''' then c else pal1)
      in if art = ''pools'' \<or> art = ''foam'' \<or> art = ''iris''
         then new_recipe L art seed pal2 \<lparr>cf_traits = st, cf_fields = []\<rparr>
         else Inl (ErrMsg ''artwork unavailable''))"

definition choice_available :: "schema \<Rightarrow> string \<times> string \<Rightarrow> bool" where
  "choice_available sch kv = (case schema_dim sch (fst kv) of
       None \<Rightarrow> False | Some d \<Rightarrow> dim_has d (snd kv))"

definition publish_validate :: "golib \<Rightarrow> string \<Rightarrow> recipe res" where
  "publish_validate L raw =
     bind_res (decode L raw) (\<lambda>r.
     bind_res (space L (r_id r)) (\<lambda>sch.
     if \<not> list_all (choice_available sch) (r_traits r) then Inl (ErrMsg ''choice unavailable'')
     else let cols = (case get_entry (r_id r) of Some e \<Rightarrow> en_colours e | None \<Rightarrow> []) in
     if \<not> list_ex (\<lambda>c. co_id c = r_pal r) cols then Inl (ErrMsg ''colour unavailable'')
     else bind_res (complete_raw L (r_id r) (parse_uint_value (r_seed r)) (r_pal r) (r_traits r)) (\<lambda>clean.
     if r_canonical clean \<noteq> r_canonical r then Inl (ErrMsg ''numeric overrides are private'')
     else Inr r)))"

definition publish_complete :: "golib \<Rightarrow> string \<Rightarrow> u64 \<Rightarrow> string \<Rightarrow> tset \<Rightarrow> recipe res" where
  "publish_complete L art seed pal st =
     bind_res (complete_raw L art seed pal st) (\<lambda>r. publish_validate L (r_canonical r))"

definition tier :: "string \<Rightarrow> string \<Rightarrow> rendition res" where
  "tier art name =
     (if get_entry art = None then Inl (ErrMsg ''artwork unavailable'')
      else if name \<noteq> ''download'' \<and> name \<noteq> ''preview'' then Inl (ErrMsg ''rendition unavailable'')
      else let size = (if name = ''download'' then 1200 else 600) in
        Inr \<lparr>rn_width = size, rn_height = size, rn_aa = 1, rn_format = ''png''\<rparr>)"

text \<open>\<open>Check\<close>, run at startup: \<open>None\<close> when the catalogue is consistent.\<close>

datatype check_err = CheckSpace err | CheckSchema schema_err | CheckStyle string string

definition check_style :: "schema \<Rightarrow> string \<Rightarrow> choice \<Rightarrow> check_err option" where
  "check_style sch art s = (if list_all (choice_available sch) (ch_pins s) then None
     else Some (CheckStyle art (ch_id s)))"

fun first_some :: "('a \<Rightarrow> 'b option) \<Rightarrow> 'a list \<Rightarrow> 'b option" where
  "first_some f [] = None"
| "first_some f (x # xs) = (case f x of Some y \<Rightarrow> Some y | None \<Rightarrow> first_some f xs)"

definition check_entry :: "golib \<Rightarrow> entry \<Rightarrow> check_err option" where
  "check_entry L e = (case space L (en_id e) of
       Inl er \<Rightarrow> Some (CheckSpace er)
     | Inr sch \<Rightarrow> (case schema_validate sch of
         Some er \<Rightarrow> Some (CheckSchema er)
       | None \<Rightarrow> first_some (check_style sch (en_id e)) (en_styles e)))"

definition catalogue_check :: "golib \<Rightarrow> check_err option" where
  "catalogue_check L = first_some (check_entry L) all_entries"

section \<open>The registry and the public spaces\<close>

lemma entry_fields [simp]:
  "en_id pools_entry = ''pools''" "en_id foam_entry = ''foam''" "en_id iris_entry = ''iris''"
  "en_colours pools_entry = colours" "en_colours foam_entry = colours" "en_colours iris_entry = colours"
  by (simp_all add: pools_entry_def foam_entry_def iris_entry_def)

lemma get_entry_simps [simp]:
  "get_entry ''pools'' = Some pools_entry" "get_entry ''foam'' = Some foam_entry"
  "get_entry ''iris'' = Some iris_entry"
  by (simp_all add: get_entry_def all_entries_def)

lemma get_entry_cases:
  assumes "get_entry art = Some e"
  shows "art \<in> {''pools'', ''foam'', ''iris''}" "en_id e = art" "en_colours e = colours" "e \<in> set all_entries"
proof -
  have e: "e \<in> set all_entries" "en_id e = art"
    using assms by (auto simp: get_entry_def find_Some_iff)
  then have "e = pools_entry \<or> e = foam_entry \<or> e = iris_entry" by (auto simp: all_entries_def)
  with e show "art \<in> {''pools'', ''foam'', ''iris''}" "en_id e = art" "en_colours e = colours"
    "e \<in> set all_entries"
    by auto
qed

lemma published_schema_eq:
  "art \<in> {''pools'', ''foam'', ''iris''} \<Longrightarrow> published_schema L art = Inr (base_schema art)"
  using registry_published[of "gl_pools_pin L" "gl_foam_pin L"]
  by (fastforce simp: published_schema_def)

lemma space_eq:
  "space L art = (case get_entry art of None \<Rightarrow> Inl (ErrMsg ''artwork unavailable'')
     | Some e \<Rightarrow> Inr (map (space_dim art e) (base_schema art)))"
  using get_entry_cases[of art] published_schema_eq[of art L]
  by (auto simp: space_def boost_def split: option.splits)

lemma space_value_name: "space_value art e d v = Some v' \<Longrightarrow> v_name v' = v_name v"
  by (auto simp: space_value_def Let_def split: if_splits)

lemma space_dim_fields [simp]:
  "d_name (space_dim art e d) = d_name d" "d_key (space_dim art e d) = d_key d"
  by (simp_all add: space_dim_def)


lemma zero_less_Fin [simp]: "\<not> (0 < Fin 0)" "0 < (1::f64)"
  by (simp_all add: f64_ops)

lemmas space_simps = space_dim_def space_value_def colours_def map_filter_simps Let_def

lemma space_wf:
  "en_colours e = colours \<Longrightarrow> wf_schema (map (space_dim ''pools'' e) pools_schema)"
  "en_colours e = colours \<Longrightarrow> wf_schema (map (space_dim ''foam'' e) foam_schema)"
  "en_colours e = colours \<Longrightarrow> wf_schema (map (space_dim ''iris'' e) iris_schema)"
  by (simp_all add: pools_schema_def foam_schema_def iris_schema_def wf_schema_def space_simps)

lemma real_weight_one [simp]: "real_weight 1"
  by (simp add: one_f64_def)

lemma space_value_real: "real_weight (v_weight v) \<Longrightarrow> space_value art e d v = Some v' \<Longrightarrow> real_weight (v_weight v')"
  by (auto simp: space_value_def Let_def split: if_splits)

lemma set_map_filter_iff: "y \<in> set (List.map_filter f xs) \<longleftrightarrow> (\<exists>x\<in>set xs. f x = Some y)"
  by (induction xs) (auto simp: map_filter_simps split: option.splits)

lemma space_dim_real: "real_dim d \<Longrightarrow> real_dim (space_dim art e d)"
  using space_value_real by (fastforce simp: real_dim_def space_dim_def set_map_filter_iff)

text \<open>The choice \<open>k = v\<close> is public: the schema has it and \<open>Space\<close> keeps it.\<close>

definition space_has :: "string \<Rightarrow> entry \<Rightarrow> schema \<Rightarrow> string \<times> string \<Rightarrow> bool" where
  "space_has art e sch kv \<longleftrightarrow> (case schema_dim sch (fst kv) of None \<Rightarrow> False
     | Some d \<Rightarrow> list_ex (\<lambda>x. v_name x = snd kv \<and> space_value art e d x \<noteq> None) (d_values d))"

lemma space_dim_has: "dim_has (space_dim art e d) v \<longleftrightarrow>
    list_ex (\<lambda>x. v_name x = v \<and> space_value art e d x \<noteq> None) (d_values d)"
proof -
  have "dim_has (space_dim art e d) v \<longleftrightarrow>
      (\<exists>y. (\<exists>x\<in>set (d_values d). space_value art e d x = Some y) \<and> v_name y = v)"
    by (simp add: dim_has_def space_dim_def list_ex_iff Bex_def set_map_filter_iff)
  also have "\<dots> \<longleftrightarrow> (\<exists>x\<in>set (d_values d). v_name x = v \<and> space_value art e d x \<noteq> None)"
    using space_value_name by (metis option.collapse option.distinct(1))
  finally show ?thesis by (simp add: list_ex_iff)
qed

lemma choice_available_space: "choice_available (map (space_dim art e) sch) = space_has art e sch"
proof
  fix kv :: "string \<times> string"
  have "schema_dim (map (space_dim art e) sch) (fst kv) = map_option (space_dim art e) (schema_dim sch (fst kv))"
    by (induction sch) auto
  then show "choice_available (map (space_dim art e) sch) kv = space_has art e sch kv"
    by (simp add: choice_available_def space_has_def space_dim_has split: option.splits)
qed

lemma styles_available:
  "list_all (\<lambda>s. list_all (space_has ''pools'' pools_entry pools_schema) (ch_pins s)) (en_styles pools_entry)"
  "list_all (\<lambda>s. list_all (space_has ''foam'' foam_entry foam_schema) (ch_pins s)) (en_styles foam_entry)"
  "list_all (\<lambda>s. list_all (space_has ''iris'' iris_entry iris_schema) (ch_pins s)) (en_styles iris_entry)"
  by (simp_all add: space_has_def pools_schema_def foam_schema_def iris_schema_def
      pools_entry_def foam_entry_def iris_entry_def space_value_def)

lemma space_schema_wf:
  assumes "get_entry art = Some e"
  shows "wf_schema (map (space_dim art e) (base_schema art))"
  using get_entry_cases[OF assms] space_wf[of e] by (auto simp: base_schema_def)

lemma space_schema_real: "\<forall>d\<in>set (map (space_dim art e) (base_schema art)). real_dim d"
  using base_schema_ok(1) space_dim_real by auto

lemma space_validates:
  "get_entry art = Some e \<Longrightarrow> schema_validate (map (space_dim art e) (base_schema art)) = None"
  using validate_from_iff[OF space_schema_real] space_schema_wf by (simp add: schema_validate_def)

lemma first_some_None: "first_some f xs = None \<longleftrightarrow> list_all (\<lambda>x. f x = None) xs"
  by (induction xs) (auto split: option.splits)

section \<open>Properties of the catalogue\<close>

text \<open>The startup check of the catalogue passes: every public space is a well-formed schema with
  a value to draw in every dimension, and every pin of every style is a public choice.\<close>

theorem catalogue_check_passes: "catalogue_check L = None"
proof -
  have styles: "list_all (\<lambda>s. list_all (choice_available (map (space_dim (en_id e) e)
      (base_schema (en_id e)))) (ch_pins s)) (en_styles e)"
    if "e = pools_entry \<or> e = foam_entry \<or> e = iris_entry" for e
    using that styles_available by (auto simp: choice_available_space base_schema_def)
  have "check_entry L e = None" if e: "e = pools_entry \<or> e = foam_entry \<or> e = iris_entry" for e
  proof -
    have g: "get_entry (en_id e) = Some e" using e by auto
    show ?thesis
      using styles[OF e] space_validates[OF g]
      by (simp add: check_entry_def space_eq g first_some_None check_style_def)
  qed
  then show ?thesis by (simp add: catalogue_check_def first_some_None all_entries_def)
qed


lemma decode_traits:
  assumes "decode L data = Inr r"
  shows "complete_set (base_schema (r_id r)) (r_traits r)"
proof (rule decode_Inr[OF assms])
  fix e seed s c
  assume "configured L (e_id e) (e_config e) seed = Inr (s, c)"
    and "sketch_traits s seed = Some (r_traits r)" "r_id r = e_id e"
  with configured_Inr[of L "e_id e" "e_config e" seed s c]
  show "complete_set (base_schema (r_id r)) (r_traits r)" by auto
qed

lemma validate_public:
  assumes "publish_validate L raw = Inr r"
  shows "\<exists>e sch clean. get_entry (r_id r) = Some e \<and> space L (r_id r) = Inr sch
    \<and> complete_set sch (r_traits r) \<and> r_pal r \<in> co_id ` set (en_colours e)
    \<and> complete_raw L (r_id r) (parse_uint_value (r_seed r)) (r_pal r) (r_traits r) = Inr clean
    \<and> r_canonical clean = r_canonical r"
proof -
  from assms obtain sch where d: "decode L raw = Inr r" and sch: "space L (r_id r) = Inr sch"
    by (auto simp: publish_validate_def res_simps Let_def split: if_splits)
  then obtain e where e: "get_entry (r_id r) = Some e" "sch = map (space_dim (r_id r) e) (base_schema (r_id r))"
    by (auto simp: space_eq split: option.splits)
  have av: "list_all (choice_available sch) (r_traits r)"
    and rest: "list_ex (\<lambda>c. co_id c = r_pal r) (en_colours e)"
    "\<exists>clean. complete_raw L (r_id r) (parse_uint_value (r_seed r)) (r_pal r) (r_traits r) = Inr clean
       \<and> r_canonical clean = r_canonical r"
    using assms d sch e by (auto simp: publish_validate_def res_simps Let_def split: if_splits)
  note B = decode_traits[OF d]
  have "\<exists>v\<in>set (d_values d'). mget (r_traits r) (d_name d') = Some (v_name v)" if d': "d' \<in> set sch" for d'
  proof -
    from d' e(2) B obtain v where v: "mget (r_traits r) (d_name d') = Some v"
      by (fastforce simp: complete_set_def)
    then have "choice_available sch (d_name d', v)" using av by (auto simp: list_all_iff dest: map_of_SomeD)
    moreover have "schema_dim sch (d_name d') = Some d'"
      using d' space_schema_wf[OF e(1)] e(2) by (intro schema_dim_member) (simp_all add: wf_schema_def)
    ultimately show ?thesis using v by (auto simp: choice_available_def dim_has_iff)
  qed
  moreover have "d_name ` set sch = d_name ` set (base_schema (r_id r))"
    by (simp add: e(2) image_image)
  ultimately have "complete_set sch (r_traits r)" using B by (simp add: complete_set_def)
  moreover have "r_pal r \<in> co_id ` set (en_colours e)" using rest(1) by (force simp: list_ex_iff)
  ultimately show ?thesis using e(1) sch rest(2) by auto
qed

text \<open>C32: whatever passes the public validation is public: the artwork is in the catalogue, the choices
  give every dimension of the public space one public value and nothing else, the palette is one of
  the curated colours, and the canonical bytes are exactly those \<open>Complete\<close> makes of these choices, so
  no numeric override can be smuggled in.\<close>

theorem publish_validate_public:
  assumes "publish_validate L raw = Inr r"
  shows "\<exists>e sch clean. get_entry (r_id r) = Some e \<and> space L (r_id r) = Inr sch
    \<and> complete_set sch (r_traits r) \<and> r_pal r \<in> co_id ` set (en_colours e)
    \<and> complete_raw L (r_id r) (parse_uint_value (r_seed r)) (r_pal r) (r_traits r) = Inr clean
    \<and> r_canonical clean = r_canonical r"
  by (rule validate_public[OF assms])

lemma lit_08_pos: "0 < lit 8 (Suc 0)"
proof -
  have "lit 8 (Suc 0) = rnd64 (4 / 5)" by (simp add: lit_def)
  moreover have "rnd64 (4 / 5) = Inf False \<or> (\<exists>r. rnd64 (4 / 5) = Fin r \<and> 1 / 2 \<le> r)"
    by (rule rnd64_ge_representable) (use is_f64_half[of 1] in \<open>simp_all add: is_f64_def\<close>)
  ultimately show ?thesis by (auto simp: f64_pos_iff)
qed

lemma iris_all_public: "list_all (\<lambda>d. list_all (\<lambda>x. space_value ''iris'' e d x \<noteq> None) (d_values d)) iris_schema"
  by (simp add: iris_schema_def space_value_def lit_08_pos)

lemma demo_traits_valid: "valid_set iris_schema demo_traits"
proof -
  obtain s0 where s0: "iris_new = Some s0" "sketch_schema s0 = iris_schema" using iris_new_ok by blast
  have dis: "distinct (map d_name iris_schema)" using iris_schema_ok(2) by (simp add: wf_schema_def)
  show ?thesis
    by (rule valid_set_complete[OF demo_traits_ok(1)[OF s0] dis demo_traits_ok(2)[OF s0] refl])
qed

lemma demo_validate: "publish_validate demo_lib ''short'' = Inr (demo_recipe demo_traits)"
proof -
  let ?r = "demo_recipe demo_traits"
  have dec: "decode demo_lib ''short'' = Inr ?r" using demo_decode[of "''short''"] by auto
  obtain st where canon: "decode demo_lib ''canon'' = Inr (demo_recipe st)"
    using demo_decode[of "''canon''"] by auto
  have "space_has ''iris'' iris_entry iris_schema (k, v)" if "(k, v) \<in> set demo_traits" for k v
  proof -
    from demo_traits_valid that obtain d where d: "schema_dim iris_schema k = Some d" "dim_has d v"
      by (force simp: valid_set_def list_all_iff split: option.splits)
    with schema_dim_Some[OF d(1)] iris_all_public[of iris_entry] show ?thesis
      by (fastforce simp: space_has_def dim_has_def list_ex_iff list_all_iff)
  qed
  then have av: "list_all (choice_available (map (space_dim ''iris'' iris_entry) iris_schema)) demo_traits"
    by (auto simp: choice_available_space list_all_iff)
  have seven: "parse_uint_value ''7'' = 7" "format_uint 7 = ''7''"
    by (simp_all add: parse_uint_value_def parse_uint_def digit_val_def format_uint_def
        format_nat.simps digit_char_def Let_def char_of_def bit_0)
  obtain s0 where s0: "iris_new = Some s0" "sketch_schema s0 = iris_schema" using iris_new_ok by blast
  have col: "set_get demo_traits ''colourway'' = ''''"
    by (rule demo_no_colourway[OF demo_traits_ok(1)[OF s0]])
  have "complete_raw demo_lib ''iris'' 7 ''diebenkorn-seawall'' demo_traits = Inr (demo_recipe st)"
    using canon col seven(2)
    by (simp add: complete_raw_def new_recipe_def demo_fields demo_envelope_def)
  then show ?thesis
    unfolding publish_validate_def using dec av seven(1)
    by (simp add: demo_recipe_def space_eq base_schema_def colours_def Let_def)
qed

theorem publish_validate_public_witness:
  "\<exists>r sch. publish_validate demo_lib ''short'' = Inr r \<and> space demo_lib ''iris'' = Inr sch
     \<and> complete_set sch (r_traits r)"
  using publish_validate_public[OF demo_validate] demo_validate by (auto simp: demo_recipe_def)

end
