(* ===== verification/Protocol.thy ===== *)
theory Protocol
  imports Catalog
begin

text \<open>
  \<open>internal/renderjob/protocol.go\<close>: the release-bound render request, the bounded writer, the
  supervisor that runs at most one child, its HTTP handler, the child, and the client of the web
  process. The child process, the HTTP transport and the drawing are arguments; what they may do
  (any output, any error) is unrestricted.
\<close>

definition MaxImage :: int where
  "MaxImage = 16777216"

record request =
  q_version :: int
  q_build :: string
  q_recipe :: string
  q_tier :: string

definition request_validate :: "golib \<Rightarrow> request \<Rightarrow> string \<Rightarrow> err option" where
  "request_validate L q build =
     (if q_version q \<noteq> 1 \<or> q_build q \<noteq> build \<or> build = '''' then Some (ErrMsg ''renderer release mismatch'')
      else case publish_validate L (q_recipe q) of
             Inl e \<Rightarrow> Some e
           | Inr r \<Rightarrow> (case tier (r_id r) (q_tier q) of Inl e \<Rightarrow> Some e | Inr _ \<Rightarrow> None))"

section \<open>The bounded writer\<close>

text \<open>A \<open>limitWriter\<close> over a buffer: \<open>lw_cancelled\<close> records that it called its cancel function.\<close>

record limit_writer =
  lw_out :: string
  lw_left :: int
  lw_exceeded :: bool
  lw_cancelled :: bool

definition new_writer :: "int \<Rightarrow> limit_writer" where
  "new_writer left = \<lparr>lw_out = '''', lw_left = left, lw_exceeded = False, lw_cancelled = False\<rparr>"

definition lw_write :: "limit_writer \<Rightarrow> string \<Rightarrow> limit_writer \<times> (err + int)" where
  "lw_write w p =
     (if int (length p) > lw_left w
      then (w\<lparr>lw_exceeded := True, lw_cancelled := True\<rparr>, Inl (ErrMsg ''renderer output exceeded limit''))
      else (w\<lparr>lw_out := lw_out w @ p, lw_left := lw_left w - int (length p)\<rparr>, Inr (int (length p))))"

text \<open>A copy loop: it stops at the first failed write and reports the bytes written.\<close>

fun copy_chunks :: "limit_writer \<Rightarrow> string list \<Rightarrow> limit_writer \<times> int \<times> err option" where
  "copy_chunks w [] = (w, 0, None)"
| "copy_chunks w (p # ps) = (case lw_write w p of
       (w', Inl e) \<Rightarrow> (w', 0, Some e)
     | (w', Inr n) \<Rightarrow> (let (w'', m, e) = copy_chunks w' ps in (w'', n + m, e)))"

section \<open>The supervisor\<close>

text \<open>One run of the child: what it wrote to stdout and stderr, how \<open>cmd.Run\<close> ended, and the error of
  the context afterwards.\<close>

record child_run =
  cr_stdout :: "string list"
  cr_stderr :: "string list"
  cr_err :: "err option"
  cr_ctx :: "err option"

record supervisor =
  su_build :: string
  su_active :: bool

definition child_timeout :: "request \<Rightarrow> int" where
  "child_timeout q = (if q_tier q = ''download'' then 30 else 15)"

text \<open>
  \<open>Supervisor.Render\<close>: the result is the supervisor, the bytes that reached the writer and the error.
  \<open>run\<close> is the child process as a function of its stdin and its time limit in seconds.
\<close>

definition sup_render ::
  "golib \<Rightarrow> (request \<Rightarrow> string res) \<Rightarrow> (string \<Rightarrow> int \<Rightarrow> child_run) \<Rightarrow> supervisor \<Rightarrow> request
     \<Rightarrow> supervisor \<times> string \<times> err option" where
  "sup_render L enc_request run s q =
     (case request_validate L q (su_build s) of
        Some e \<Rightarrow> (s, '''', Some e)
      | None \<Rightarrow>
          if su_active s then (s, '''', Some (ErrMsg ''renderer busy''))
          else (case enc_request q of
              Inl e \<Rightarrow> (s\<lparr>su_active := False\<rparr>, '''', Some e)
            | Inr data \<Rightarrow>
                (let r = run data (child_timeout q);
                     (out, _, _) = copy_chunks (new_writer MaxImage) (cr_stdout r);
                     (err, _, _) = copy_chunks (new_writer 8192) (cr_stderr r)
                 in (s\<lparr>su_active := False\<rparr>, lw_out out,
                     if lw_exceeded out \<or> lw_exceeded err
                     then Some (ErrMsg ''renderer output exceeded limit'')
                     else if cr_ctx r \<noteq> None then cr_ctx r else cr_err r))))"

record response =
  rs_status :: int
  rs_build :: "string option"
  rs_type :: string
  rs_chunks :: "string list"

abbreviation reply :: "int \<Rightarrow> string \<Rightarrow> response" where
  "reply st body \<equiv> \<lparr>rs_status = st, rs_build = None, rs_type = ''text/plain'', rs_chunks = [body]\<rparr>"

text \<open>\<open>Handler\<close>: \<open>body\<close> is what reading at most 32768 bytes of the request body gave.\<close>

definition sup_handler ::
  "golib \<Rightarrow> (string \<Rightarrow> request res) \<Rightarrow> (request \<Rightarrow> string res) \<Rightarrow> (string \<Rightarrow> int \<Rightarrow> child_run)
     \<Rightarrow> supervisor \<Rightarrow> string \<Rightarrow> string \<Rightarrow> string res \<Rightarrow> supervisor \<times> response" where
  "sup_handler L dec_request enc_request run s meth path body =
     (if path = ''/health'' \<and> meth = ''GET''
      then (s, \<lparr>rs_status = 204, rs_build = Some (su_build s), rs_type = '''', rs_chunks = []\<rparr>)
      else if path \<noteq> ''/render'' \<or> meth \<noteq> ''POST'' then (s, reply 404 ''404 page not found'')
      else case bind_res body (strict_json L dec_request) of
             Inl e \<Rightarrow> (s, reply 400 ''invalid renderer request'')
           | Inr q \<Rightarrow>
               if request_validate L q (su_build s) \<noteq> None
               then (s, reply 400 ''invalid renderer request'')
               else (case sup_render L enc_request run s q of
                   (s', out, Some e) \<Rightarrow> (s', reply 503 ''renderer failed'')
                 | (s', out, None) \<Rightarrow> (s', \<lparr>rs_status = 200, rs_build = Some (su_build s),
                       rs_type = ''image/png'', rs_chunks = [out]\<rparr>)))"

text \<open>\<open>Child\<close>: the process that draws. \<open>input\<close> is what reading 32769 bytes of stdin gave.\<close>

definition child ::
  "golib \<Rightarrow> (string \<Rightarrow> request res) \<Rightarrow> (sketch \<Rightarrow> rendition \<Rightarrow> u64 \<Rightarrow> palette \<Rightarrow> string \<Rightarrow> string \<Rightarrow> string res)
     \<Rightarrow> string res \<Rightarrow> string \<Rightarrow> string res" where
  "child L dec_request paint input build =
     (case input of Inl e \<Rightarrow> Inl (ErrMsg ''invalid input size'')
      | Inr b \<Rightarrow>
          if length (take 32769 b) > 32768 then Inl (ErrMsg ''invalid input size'')
          else bind_res (strict_json L dec_request b) (\<lambda>q.
            case request_validate L q build of
              Some e \<Rightarrow> Inl e
            | None \<Rightarrow> bind_res (publish_validate L (q_recipe q)) (\<lambda>r.
                bind_res (tier (r_id r) (q_tier q)) (\<lambda>t. recipe_render L paint r t build))))"

section \<open>The client\<close>

text \<open>\<open>Header.Get\<close>: a missing header reads as the empty string.\<close>

definition build_header :: "response \<Rightarrow> string" where
  "build_header res = (case rs_build res of None \<Rightarrow> '''' | Some b \<Rightarrow> b)"

fun take_chunks :: "nat \<Rightarrow> string list \<Rightarrow> string list" where
  "take_chunks n [] = []"
| "take_chunks n (p # ps) = (if n = 0 then []
     else take n p # take_chunks (n - length p) ps)"

text \<open>\<open>Client.Render\<close> writes the answer of \<open>POST /render\<close> to the manager's writer.\<close>

definition client_render ::
  "golib \<Rightarrow> (request \<Rightarrow> string res) \<Rightarrow> (string \<Rightarrow> response res) \<Rightarrow> string \<Rightarrow> request \<Rightarrow> limit_writer
     \<Rightarrow> limit_writer \<times> err option" where
  "client_render L enc_request post build q w =
     (case request_validate L q build of
        Some e \<Rightarrow> (w, Some e)
      | None \<Rightarrow> (case enc_request q of
          Inl e \<Rightarrow> (w, Some e)
        | Inr b \<Rightarrow> (case post b of
            Inl e \<Rightarrow> (w, Some e)
          | Inr res \<Rightarrow>
              if rs_status res \<noteq> 200 then (w, Some (ErrMsg ''renderer returned unsuccessful status''))
              else if build_header res \<noteq> build then (w, Some (ErrMsg ''renderer release mismatch''))
              else (let (w', size, e) = copy_chunks w (take_chunks (nat (MaxImage + 1)) (rs_chunks res))
                    in (w', if size > MaxImage then Some (ErrMsg ''oversized renderer output'') else e)))))"

definition client_health :: "string \<Rightarrow> response res \<Rightarrow> bool" where
  "client_health build health = (case health of Inl e \<Rightarrow> False
     | Inr res \<Rightarrow> rs_status res = 204 \<and> build_header res = build)"

section \<open>The bounded writer and the transport\<close>

lemma copy_chunks_spec:
  assumes "copy_chunks w ps = (w', n, e)" "0 \<le> lw_left w"
  shows "\<exists>written. lw_out w' = lw_out w @ written \<and> n = int (length written) \<and> lw_left w' = lw_left w - n
    \<and> 0 \<le> lw_left w' \<and> (e = None \<longrightarrow> written = concat ps)
    \<and> lw_exceeded w' = (lw_exceeded w \<or> e \<noteq> None)"
  using assms
proof (induction ps arbitrary: w n)
  case (Cons p ps)
  show ?case
  proof (cases "int (length p) > lw_left w")
    case True
    with Cons.prems show ?thesis by (auto simp: lw_write_def)
  next
    case False
    let ?w = "w\<lparr>lw_out := lw_out w @ p, lw_left := lw_left w - int (length p)\<rparr>"
    obtain n1 where c: "copy_chunks ?w ps = (w', n1, e)" "n = int (length p) + n1"
      using Cons.prems(1) False by (auto simp: lw_write_def split: prod.splits)
    from Cons.IH[OF c(1)] False obtain written where
      "lw_out w' = lw_out ?w @ written \<and> n1 = int (length written) \<and> lw_left w' = lw_left ?w - n1
        \<and> 0 \<le> lw_left w' \<and> (e = None \<longrightarrow> written = concat ps)
        \<and> lw_exceeded w' = (lw_exceeded ?w \<or> e \<noteq> None)" by auto
    then show ?thesis using c(2) by (intro exI[of _ "p @ written"]) auto
  qed
qed auto

lemma concat_take_chunks: "concat (take_chunks n ps) = take n (concat ps)"
  by (induction n ps rule: take_chunks.induct) auto

lemma new_writer_fields [simp]:
  "lw_out (new_writer k) = ''''" "lw_left (new_writer k) = k" "\<not> lw_exceeded (new_writer k)"
  by (simp_all add: new_writer_def)

lemma sup_render_aux:
  assumes "sup_render L enc run s q = (s', out, e)"
  shows "int (length out) \<le> MaxImage
    \<and> (e = None \<longrightarrow> request_validate L q (su_build s) = None \<and> \<not> su_active s \<and> \<not> su_active s'
         \<and> (\<exists>data. enc q = Inr data \<and> out = concat (cr_stdout (run data (child_timeout q)))))"
proof -
  have M: "0 \<le> MaxImage" by (simp add: MaxImage_def)
  show ?thesis
  proof (cases "request_validate L q (su_build s) = None \<and> \<not> su_active s \<and> (\<exists>data. enc q = Inr data)")
    case True
    then obtain data where t: "request_validate L q (su_build s) = None" "\<not> su_active s" "enc q = Inr data"
      by blast
    let ?r = "run data (child_timeout q)"
    obtain w1 n1 e1 where w1: "copy_chunks (new_writer MaxImage) (cr_stdout ?r) = (w1, n1, e1)"
      by (metis prod_cases3)
    obtain w2 n2 e2 where w2: "copy_chunks (new_writer 8192) (cr_stderr ?r) = (w2, n2, e2)"
      by (metis prod_cases3)
    from copy_chunks_spec[OF w1] M have "int (length (lw_out w1)) \<le> MaxImage"
      "lw_exceeded w1 = (e1 \<noteq> None)" "e1 = None \<longrightarrow> lw_out w1 = concat (cr_stdout ?r)"
      by auto
    with assms t w1 w2 show ?thesis
      by (auto simp: sup_render_def Let_def split: if_splits)
  next
    case False
    with assms M show ?thesis
      by (auto simp: sup_render_def split: option.splits if_splits sum.splits)
  qed
qed

text \<open>The supervisor forwards at most 16 MiB whatever the child writes, and when it reports success
  the request was valid for its release, no other child ran, nothing was cut off, and it is free
  again.\<close>

theorem sup_render_bounded:
  assumes "sup_render L enc run s q = (s', out, e)"
  shows "int (length out) \<le> MaxImage
    \<and> (e = None \<longrightarrow> request_validate L q (su_build s) = None \<and> \<not> su_active s \<and> \<not> su_active s'
         \<and> (\<exists>data. enc q = Inr data \<and> out = concat (cr_stdout (run data (child_timeout q)))))"
  by (rule sup_render_aux[OF assms])

text \<open>C36: rendering through the socket is faithful: when the client reports success against a
  supervisor's handler, both run the same release and the manager's writer received exactly what
  the child wrote for this request.\<close>

theorem client_render_faithful:
  assumes codec: "enc q = Inr b" "strict_json L dec b = Inr q"
    and ok: "client_render L enc (\<lambda>body. Inr (snd (sup_handler L dec enc run s ''POST'' ''/render'' (Inr body))))
               build q w = (w', None)"
    and room: "0 \<le> lw_left w"
  shows "su_build s = build \<and> request_validate L q build = None
    \<and> lw_out w' = lw_out w @ concat (cr_stdout (run b (child_timeout q)))"
proof -
  let ?h = "sup_handler L dec enc run s ''POST'' ''/render'' (Inr b)"
  from ok codec have v: "request_validate L q build = None" and st: "rs_status (snd ?h) = 200"
    "build_header (snd ?h) = build"
    by (auto simp: client_render_def Let_def split: option.splits if_splits prod.splits)
  obtain s1 out e where sr: "sup_render L enc run s q = (s1, out, e)" by (metis prod_cases3)
  from st codec sr have e: "e = None" and h: "snd ?h = \<lparr>rs_status = 200, rs_build = Some (su_build s),
      rs_type = ''image/png'', rs_chunks = [out]\<rparr>"
    by (auto simp: sup_handler_def split: if_splits option.splits)
  have out: "out = concat (cr_stdout (run b (child_timeout q)))" "int (length out) \<le> MaxImage"
    using sup_render_aux[OF sr] e codec by auto
  obtain w1 n1 e1 where cc: "copy_chunks w (take_chunks (nat (MaxImage + 1)) [out]) = (w1, n1, e1)"
    by (metis prod_cases3)
  from ok codec v st h cc have "w1 = w'" "e1 = None"
    by (auto simp: client_render_def Let_def split: if_splits)
  with copy_chunks_spec[OF cc room] have "lw_out w' = lw_out w @ take (nat (MaxImage + 1)) out"
    by (auto simp: concat_take_chunks)
  with out(2) have "lw_out w' = lw_out w @ out" by simp
  with out(1) v st(2) h show ?thesis by (simp add: build_header_def)
qed

section \<open>Witnesses\<close>

definition demo_request :: request where
  "demo_request = \<lparr>q_version = 1, q_build = ''b1'', q_recipe = ''short'', q_tier = ''preview''\<rparr>"

definition demo_run :: "string \<Rightarrow> int \<Rightarrow> child_run" where
  "demo_run data timeout = \<lparr>cr_stdout = [''PN'', ''G''], cr_stderr = [], cr_err = None, cr_ctx = None\<rparr>"

lemma demo_request_valid: "request_validate demo_lib demo_request ''b1'' = None"
  by (simp add: request_validate_def demo_request_def demo_validate demo_recipe_def tier_def)

lemma demo_sup_render:
  "sup_render demo_lib (\<lambda>q. Inr ''req'') demo_run \<lparr>su_build = ''b1'', su_active = False\<rparr> demo_request
     = (\<lparr>su_build = ''b1'', su_active = False\<rparr>, ''PNG'', None)"
  by (simp add: sup_render_def demo_request_valid demo_run_def lw_write_def MaxImage_def new_writer_def)

theorem sup_render_bounded_witness:
  "int (length ''PNG'') \<le> MaxImage \<and> request_validate demo_lib demo_request ''b1'' = None"
  using sup_render_bounded[OF demo_sup_render] by (simp add: demo_run_def)
theorem client_render_faithful_witness:
  "\<exists>w'. client_render demo_lib (\<lambda>q. Inr ''req'') (\<lambda>body. Inr (snd (sup_handler demo_lib
       (\<lambda>b. Inr demo_request) (\<lambda>q. Inr ''req'') demo_run \<lparr>su_build = ''b1'', su_active = False\<rparr>
       ''POST'' ''/render'' (Inr body)))) ''b1'' demo_request (new_writer 100) = (w', None)
     \<and> lw_out w' = ''PNG''"
proof -
  let ?s = "\<lparr>su_build = ''b1'', su_active = False\<rparr>"
  have dec: "strict_json demo_lib (\<lambda>b. Inr demo_request) ''req'' = Inr demo_request"
    using demo_scan[of "''req''"] by simp
  have h: "snd (sup_handler demo_lib (\<lambda>b. Inr demo_request) (\<lambda>q. Inr ''req'') demo_run ?s
      ''POST'' ''/render'' (Inr ''req'')) = \<lparr>rs_status = 200, rs_build = Some ''b1'',
        rs_type = ''image/png'', rs_chunks = [''PNG'']\<rparr>"
    by (simp add: sup_handler_def dec demo_request_valid demo_sup_render)
  have c: "\<exists>w'. client_render demo_lib (\<lambda>q. Inr ''req'') (\<lambda>body. Inr (snd (sup_handler demo_lib
       (\<lambda>b. Inr demo_request) (\<lambda>q. Inr ''req'') demo_run ?s ''POST'' ''/render'' (Inr body))))
       ''b1'' demo_request (new_writer 100) = (w', None)"
    by (simp add: client_render_def demo_request_valid h build_header_def lw_write_def new_writer_def
        MaxImage_def)
  then obtain w' where w': "client_render demo_lib (\<lambda>q. Inr ''req'') (\<lambda>body. Inr (snd (sup_handler demo_lib
       (\<lambda>b. Inr demo_request) (\<lambda>q. Inr ''req'') demo_run ?s ''POST'' ''/render'' (Inr body))))
       ''b1'' demo_request (new_writer 100) = (w', None)" by blast
  have "lw_out w' = ''PNG''"
    using client_render_faithful[OF refl dec w'] by (simp add: demo_run_def)
  with w' show ?thesis by blast
qed

end
