(* ===== verification/Manager.thy ===== *)
theory Manager
  imports Protocol
begin

text \<open>
  \<open>internal/renderjob/manager.go\<close>: the only render queue and the artifact cache. Each operation is a
  function of the state, the clock reading \<open>now\<close> (in nanoseconds) and the outcomes of the system
  calls it makes; the mutex makes each of them one step. The cache directory is a map from file
  names to contents; every system call may fail.
\<close>

datatype jstate = Queued | Running | Ready | Failed | Cancelled | Expired

text \<open>The pointer identity of a \<open>*job\<close> is \<open>j_ptr\<close>.\<close>

record job =
  j_ptr :: nat
  j_request :: request
  j_state :: jstate
  j_subs :: "(string, bool) gomap"
  j_owner :: string
  j_created :: int

record artifact =
  a_size :: int
  a_created :: int
  a_digest :: string
  a_refs :: int

record mconfig =
  c_directory :: string
  c_build :: string
  c_queue :: int
  c_cache_bytes :: int
  c_cache_count :: int
  c_max_age :: int

text \<open>The job the worker is rendering: its id, the pointer it holds, and whether its context was cancelled.\<close>

record run =
  w_id :: string
  w_ptr :: nat
  w_request :: request
  w_cancelled :: bool

text \<open>A lease: the artifact and the bytes of the open file.\<close>

record lease =
  l_id :: string
  l_bytes :: string

record mgr =
  m_cfg :: mconfig
  m_jobs :: "(string, job) gomap"
  m_queue :: "string list"
  m_artifacts :: "(string, artifact) gomap"
  m_bytes :: int
  m_wake :: bool
  m_stopped :: bool
  m_enabled :: bool
  m_open :: int
  m_last :: string
  m_run :: "run option"
  m_next :: nat
  m_leases :: "(nat, lease) gomap"
  m_next_lease :: nat
  m_disk :: "(string, string) gomap"

text \<open>The outcomes of the system calls: an error or success, per file where several files are touched.\<close>

record sysio =
  io_remove :: "string \<Rightarrow> err option"
  io_open :: "string \<Rightarrow> err option"
  io_statfs :: "int res"
  io_create :: "err option"
  io_temp :: string
  io_write :: "err option"
  io_sync :: "err option"
  io_close :: "err option"
  io_rename :: "err option"

definition minute :: int where
  "minute = 60000000000"

definition png_name :: "string \<Rightarrow> string" where
  "png_name i = i @ ''.png''"

definition subscribed :: "job \<Rightarrow> string \<Rightarrow> bool" where
  "subscribed j owner \<longleftrightarrow> mget (j_subs j) owner = Some True"

definition active :: "job \<Rightarrow> bool" where
  "active j \<longleftrightarrow> j_state j = Running \<or> j_state j = Queued"

section \<open>Cache eviction\<close>

definition fs_remove :: "sysio \<Rightarrow> string \<Rightarrow> (string, string) gomap \<Rightarrow> (string, string) gomap res" where
  "fs_remove io name d = (case io_remove io name of Some e \<Rightarrow> Inl e
     | None \<Rightarrow> if mget d name = None then Inl ErrNotExist else Inr (mdel name d))"

definition zero_artifact :: artifact where
  "zero_artifact = \<lparr>a_size = 0, a_created = 0, a_digest = '''', a_refs = 0\<rparr>"

definition artifact_of :: "mgr \<Rightarrow> string \<Rightarrow> artifact" where
  "artifact_of m i = (case mget (m_artifacts m) i of None \<Rightarrow> zero_artifact | Some a \<Rightarrow> a)"

definition forget :: "string \<Rightarrow> (string, string) gomap \<Rightarrow> mgr \<Rightarrow> mgr" where
  "forget i disk m = m\<lparr>m_bytes := m_bytes m - a_size (artifact_of m i),
     m_artifacts := mdel i (m_artifacts m), m_disk := disk\<rparr>"

definition remove_artifact :: "sysio \<Rightarrow> string \<Rightarrow> mgr \<Rightarrow> mgr \<times> err option" where
  "remove_artifact io i m =
     (if a_refs (artifact_of m i) > 0 then (m, Some ErrBusy)
      else case fs_remove io (png_name i) (m_disk m) of
             Inr d \<Rightarrow> (forget i d m, None)
           | Inl e \<Rightarrow> if e = ErrNotExist then (forget i (m_disk m) m, None) else (m, Some e))"

text \<open>The scan for the oldest artifact without readers: its key, \<open>''''\<close> while none was found.\<close>

fun oldest_scan :: "string \<times> int \<Rightarrow> (string \<times> artifact) list \<Rightarrow> string \<times> int" where
  "oldest_scan best [] = best"
| "oldest_scan (key, oldest) ((i, a) # es) =
     (if a_refs a = 0 \<and> (key = '''' \<or> a_created a < oldest) then oldest_scan (i, a_created a) es
      else oldest_scan (key, oldest) es)"

definition evict_oldest :: "sysio \<Rightarrow> mgr \<Rightarrow> mgr \<times> err option" where
  "evict_oldest io m = (let (key, _) = oldest_scan ('''', 0) (m_artifacts m) in
     if key = '''' then (m, Some ErrBusy) else remove_artifact io key m)"

lemma oldest_scan_member:
  "fst (oldest_scan (key, t) es) \<noteq> key \<Longrightarrow> fst (oldest_scan (key, t) es) \<in> fst ` set es"
  by (induction "(key, t)" es arbitrary: key t rule: oldest_scan.induct) (auto split: if_splits)

lemma remove_artifact_cases:
  "remove_artifact io i m = (m', e) \<Longrightarrow>
     (m' = m \<and> e \<noteq> None) \<or> (e = None \<and> \<not> a_refs (artifact_of m i) > 0 \<and>
        (m' = forget i (mdel (png_name i) (m_disk m)) m \<or> m' = forget i (m_disk m) m))"
  by (auto simp: remove_artifact_def fs_remove_def split: if_splits sum.splits option.splits)

lemma evict_oldest_cases:
  assumes "evict_oldest io m = (m', e)"
  shows "(m' = m \<and> e \<noteq> None) \<or> (e = None \<and> (\<exists>i. i \<in> fst ` set (m_artifacts m) \<and>
     remove_artifact io i m = (m', None)))"
proof (cases "fst (oldest_scan ('''', 0) (m_artifacts m)) = ''''")
  case True
  with assms show ?thesis by (auto simp: evict_oldest_def split: prod.splits)
next
  case False
  with assms oldest_scan_member[of "''''" 0 "m_artifacts m"] show ?thesis
    by (cases e) (auto simp: evict_oldest_def split: prod.splits dest: remove_artifact_cases)
qed

lemma evict_oldest_shrinks:
  assumes "evict_oldest io m = (m', None)"
  shows "length (m_artifacts m') < length (m_artifacts m)"
proof -
  from evict_oldest_cases[OF assms] obtain i where i: "i \<in> fst ` set (m_artifacts m)"
    "remove_artifact io i m = (m', None)" by auto
  then have "m_artifacts m' = mdel i (m_artifacts m)"
    using remove_artifact_cases[OF i(2)] by (auto simp: forget_def)
  with i(1) show ?thesis
    by (auto simp: AList.delete_eq intro!: length_filter_less)
qed

text \<open>The eviction loops of \<open>prune\<close> and \<open>publish\<close>: every successful eviction shrinks the cache.\<close>

function evict_while :: "sysio \<Rightarrow> (mgr \<Rightarrow> bool) \<Rightarrow> mgr \<Rightarrow> mgr \<times> err option" where
  "evict_while io cond m =
     (if \<not> cond m then (m, None)
      else case evict_oldest io m of
             (m', Some e) \<Rightarrow> (m', Some e)
           | (m', None) \<Rightarrow> evict_while io cond m')"
  by auto
termination
  by (relation "measure (\<lambda>(io, cond, m). length (m_artifacts m))") (auto dest: evict_oldest_shrinks[OF sym])

declare evict_while.simps [simp del]

definition over_budget :: "mgr \<Rightarrow> bool" where
  "over_budget m \<longleftrightarrow> m_bytes m > c_cache_bytes (m_cfg m)
     \<or> int (length (m_artifacts m)) > c_cache_count (m_cfg m)"

text \<open>The three loops of \<open>prune\<close>: expired artifacts without readers, settled jobs after thirty minutes, and
  the budget.\<close>

fun prune_artifacts :: "sysio \<Rightarrow> int \<Rightarrow> (string \<times> artifact) list \<Rightarrow> mgr \<Rightarrow> mgr" where
  "prune_artifacts io now [] m = m"
| "prune_artifacts io now ((i, a) # es) m =
     prune_artifacts io now es
       (if a_refs a = 0 \<and> now - a_created a > c_max_age (m_cfg m) then fst (remove_artifact io i m) else m)"

definition prune_jobs :: "int \<Rightarrow> mgr \<Rightarrow> mgr" where
  "prune_jobs now m = m\<lparr>m_jobs := filter (\<lambda>(i, j). \<not> (\<not> active j \<and> now - j_created j > 30 * minute)) (m_jobs m)\<rparr>"

definition prune :: "sysio \<Rightarrow> int \<Rightarrow> mgr \<Rightarrow> mgr" where
  "prune io now m = fst (evict_while io over_budget
     (prune_jobs now (prune_artifacts io now (m_artifacts m) m)))"

section \<open>Admission\<close>

text \<open>The identities of a batch: every request is validated before anything is reserved.\<close>

definition request_id :: "golib \<Rightarrow> string \<Rightarrow> request \<Rightarrow> string res" where
  "request_id L build q = (case request_validate L q build of
       Some e \<Rightarrow> Inl e
     | None \<Rightarrow> bind_res (publish_validate L (q_recipe q)) (\<lambda>r.
         bind_res (tier (r_id r) (q_tier q)) (\<lambda>t. Inr (recipe_key L r t build))))"

definition filter_queue :: "mgr \<Rightarrow> mgr" where
  "filter_queue m = m\<lparr>m_queue := filter (\<lambda>i. case mget (m_jobs m) i of
       None \<Rightarrow> False | Some j \<Rightarrow> j_state j = Queued) (m_queue m)\<rparr>"

definition queued_count :: "mgr \<Rightarrow> int" where
  "queued_count m = cnt (\<lambda>i j. j_state j = Queued) (m_jobs m)"

definition owned_count :: "string \<Rightarrow> mgr \<Rightarrow> int" where
  "owned_count owner m = cnt (\<lambda>i j. active j \<and> subscribed j owner) (m_jobs m)"

definition full_for :: "string \<Rightarrow> job \<Rightarrow> bool" where
  "full_for owner j \<longleftrightarrow> length (j_subs j) \<ge> 24 \<and> \<not> subscribed j owner"

definition cached :: "mgr \<Rightarrow> string \<Rightarrow> bool" where
  "cached m i \<longleftrightarrow> mget (m_artifacts m) i \<noteq> None"

text \<open>The first loop: the ids that need a new job and those whose job gains a subscriber.\<close>

fun admit_survey :: "mgr \<Rightarrow> string \<Rightarrow> string list \<Rightarrow> string list \<times> string list \<Rightarrow> (string list \<times> string list) res" where
  "admit_survey m owner [] acc = Inr acc"
| "admit_survey m owner (i # is) (fresh, added) = (case mget (m_jobs m) i of
       None \<Rightarrow> admit_survey m owner is (if cached m i then fresh else List.insert i fresh, added)
     | Some j \<Rightarrow>
         if j_state j = Ready \<and> cached m i \<and> full_for owner j then Inl ErrBusy
         else if active j then
           (if full_for owner j then Inl ErrBusy
            else admit_survey m owner is
              (fresh, if subscribed j owner then added else List.insert i added))
         else admit_survey m owner is (if cached m i then fresh else List.insert i fresh, added))"

definition subscribe :: "string \<Rightarrow> string \<Rightarrow> job \<Rightarrow> mgr \<Rightarrow> mgr" where
  "subscribe i owner j m = m\<lparr>m_jobs := mput i (j\<lparr>j_subs := mput owner True (j_subs j)\<rparr>) (m_jobs m)\<rparr>"

definition new_job :: "int \<Rightarrow> string \<Rightarrow> string \<Rightarrow> request \<Rightarrow> mgr \<Rightarrow> mgr" where
  "new_job now i owner q m = m\<lparr>
     m_jobs := mput i \<lparr>j_ptr = m_next m, j_request = q,
       j_state = (if cached m i then Ready else Queued), j_subs = [(owner, True)],
       j_owner = owner, j_created = now\<rparr> (m_jobs m),
     m_queue := (if cached m i then m_queue m else m_queue m @ [i]),
     m_next := Suc (m_next m)\<rparr>"

text \<open>The second loop: subscribe to a live job or create one.\<close>

fun admit_apply :: "int \<Rightarrow> string \<Rightarrow> (string \<times> request) list \<Rightarrow> mgr \<Rightarrow> mgr \<times> err option" where
  "admit_apply now owner [] m = (m, None)"
| "admit_apply now owner ((i, q) # iqs) m = (case mget (m_jobs m) i of
       None \<Rightarrow> admit_apply now owner iqs (new_job now i owner q m)
     | Some j \<Rightarrow>
         if (active j \<or> j_state j = Ready) \<and> (j_state j \<noteq> Ready \<or> cached m i) then
           (if full_for owner j then (m, Some ErrBusy)
            else admit_apply now owner iqs (subscribe i owner j m))
         else admit_apply now owner iqs (new_job now i owner q m))"

definition admit ::
  "golib \<Rightarrow> sysio \<Rightarrow> int \<Rightarrow> string \<Rightarrow> request list \<Rightarrow> mgr \<Rightarrow> mgr \<times> string list res" where
  "admit L io now owner qs m =
     (if length owner < 1 \<or> length owner > 64 \<or> length qs < 1 \<or> length qs > 4
      then (m, Inl (ErrMsg ''invalid batch''))
      else case map_res (request_id L (c_build (m_cfg m))) qs of
        Inl e \<Rightarrow> (m, Inl e)
      | Inr ids \<Rightarrow>
          (let m1 = filter_queue (prune io now m) in
           if \<not> m_enabled m1 \<or> m_stopped m1 then (m1, Inl ErrBusy)
           else case admit_survey m1 owner ids ([], []) of
             Inl e \<Rightarrow> (m1, Inl e)
           | Inr (fresh, added) \<Rightarrow>
               if queued_count m1 + int (length fresh) > c_queue (m_cfg m1)
                 \<or> owned_count owner m1 + int (length fresh) + int (length added) > 4
                 \<or> length (m_jobs m1) + length ids > 5000
               then (m1, Inl ErrBusy)
               else (case admit_apply now owner (zip ids qs) m1 of
                   (m2, Some e) \<Rightarrow> (m2, Inl e)
                 | (m2, None) \<Rightarrow> (m2\<lparr>m_wake := True\<rparr>, Inr ids))))"

section \<open>Reads and cancellation\<close>

record status =
  st_id :: string
  st_state :: jstate
  st_message :: string

definition status_of :: "int \<Rightarrow> string \<Rightarrow> string \<Rightarrow> mgr \<Rightarrow> status" where
  "status_of now owner i m =
     (let gone = \<lparr>st_id = i, st_state = Expired,
        st_message = ''This sample is no longer available. Generate it again.''\<rparr> in
      case mget (m_jobs m) i of
        None \<Rightarrow> gone
      | Some j \<Rightarrow>
          if \<not> subscribed j owner then gone
          else let st = (if j_state j = Ready then
                 (case mget (m_artifacts m) i of
                    None \<Rightarrow> Expired
                  | Some a \<Rightarrow> if now - a_created a > c_max_age (m_cfg m) then Expired else Ready)
               else j_state j)
            in \<lparr>st_id = i, st_state = st, st_message =
              (if st = Failed then ''This sample could not finish. Try again when you are ready.'' else '''')\<rparr>)"

text \<open>Cancelling the context of job \<open>j\<close> reaches the worker when it holds that job.\<close>

definition cancel_run :: "job \<Rightarrow> run option \<Rightarrow> run option" where
  "cancel_run j r = (case r of None \<Rightarrow> None
     | Some r \<Rightarrow> Some (if w_ptr r = j_ptr j then r\<lparr>w_cancelled := True\<rparr> else r))"

definition cancel :: "string \<Rightarrow> string \<Rightarrow> mgr \<Rightarrow> mgr" where
  "cancel owner i m = (case mget (m_jobs m) i of
       None \<Rightarrow> m
     | Some j \<Rightarrow>
         (let j1 = j\<lparr>j_subs := mdel owner (j_subs j)\<rparr> in
          if j_subs j1 = [] \<and> active j1
          then m\<lparr>m_jobs := mput i (j1\<lparr>j_state := Cancelled\<rparr>) (m_jobs m), m_run := cancel_run j (m_run m)\<rparr>
          else m\<lparr>m_jobs := mput i j1 (m_jobs m)\<rparr>))"

definition counts :: "mgr \<Rightarrow> int \<times> int \<times> int \<times> int" where
  "counts m = (queued_count m, cnt (\<lambda>i j. j_state j = Running) (m_jobs m),
     int (length (m_artifacts m)), m_bytes m)"

definition enable :: "bool \<Rightarrow> mgr \<Rightarrow> mgr" where
  "enable on m = m\<lparr>m_enabled := on\<rparr>"

definition close :: "mgr \<Rightarrow> mgr" where
  "close m = m\<lparr>m_stopped := True\<rparr>"

section \<open>Leases\<close>

definition open_artifact :: "sysio \<Rightarrow> int \<Rightarrow> string \<Rightarrow> mgr \<Rightarrow> mgr \<times> (nat \<times> string) res" where
  "open_artifact io now i m = (case mget (m_artifacts m) i of
       None \<Rightarrow> (m, Inl ErrNotExist)
     | Some a \<Rightarrow>
         if now - a_created a > c_max_age (m_cfg m) then (m, Inl ErrNotExist)
         else case io_open io (png_name i) of
           Some e \<Rightarrow> (m, Inl e)
         | None \<Rightarrow> (case mget (m_disk m) (png_name i) of
             None \<Rightarrow> (m, Inl ErrNotExist)
           | Some b \<Rightarrow>
               if a_refs a \<ge> 32 \<or> m_open m \<ge> 64 then (m, Inl ErrBusy)
               else (m\<lparr>m_artifacts := mput i (a\<lparr>a_refs := a_refs a + 1\<rparr>) (m_artifacts m),
                       m_open := m_open m + 1,
                       m_leases := mput (m_next_lease m) \<lparr>l_id = i, l_bytes = b\<rparr> (m_leases m),
                       m_next_lease := Suc (m_next_lease m)\<rparr>,
                     Inr (m_next_lease m, a_digest a))))"

text \<open>\<open>Lease.Close\<close>: the release runs once per lease.\<close>

definition close_lease :: "nat \<Rightarrow> mgr \<Rightarrow> mgr" where
  "close_lease n m = (case mget (m_leases m) n of
       None \<Rightarrow> m
     | Some l \<Rightarrow>
         (let a = artifact_of m (l_id l) in
          m\<lparr>m_artifacts := mput (l_id l) (a\<lparr>a_refs := a_refs a - 1\<rparr>) (m_artifacts m),
            m_open := m_open m - 1, m_leases := mdel n (m_leases m)\<rparr>))"

section \<open>The worker\<close>

text \<open>
  The scan for the next job: entries that are not queued are skipped, jobs that waited more than a
  minute expire, and the first job of another owner than the last one served wins over an earlier
  job of that owner.
\<close>

fun pick_scan :: "int \<Rightarrow> string \<Rightarrow> nat \<Rightarrow> string list \<Rightarrow> nat option \<Rightarrow> (string, job) gomap
    \<Rightarrow> (string, job) gomap \<times> nat option" where
  "pick_scan now served n [] idx jobs = (jobs, idx)"
| "pick_scan now served n (i # is) idx jobs = (case mget jobs i of
       None \<Rightarrow> pick_scan now served (Suc n) is idx jobs
     | Some j \<Rightarrow>
         if j_state j \<noteq> Queued then pick_scan now served (Suc n) is idx jobs
         else if now - j_created j > minute
         then pick_scan now served (Suc n) is idx (mput i (j\<lparr>j_state := Expired\<rparr>) jobs)
         else if j_owner j \<noteq> served then (jobs, Some n)
         else pick_scan now served (Suc n) is (if idx = None then Some n else idx) jobs)"

text \<open>One turn of the inner loop up to the unlock: the run that starts, or \<open>None\<close> when idle.\<close>

definition work_pick :: "int \<Rightarrow> mgr \<Rightarrow> mgr" where
  "work_pick now m = (case pick_scan now (m_last m) 0 (m_queue m) None (m_jobs m) of
       (jobs, None) \<Rightarrow> m\<lparr>m_jobs := jobs, m_queue := [], m_run := None\<rparr>
     | (jobs, Some n) \<Rightarrow>
         (let i = m_queue m ! n; q = take n (m_queue m) @ drop (Suc n) (m_queue m) in
          case mget jobs i of
            None \<Rightarrow> m\<lparr>m_jobs := jobs\<rparr>
          | Some j \<Rightarrow> m\<lparr>m_jobs := mput i (j\<lparr>j_state := Running\<rparr>) jobs, m_queue := q,
              m_last := j_owner j, m_run := Some \<lparr>w_id = i, w_ptr = j_ptr j,
                w_request = j_request j, w_cancelled = False\<rparr>\<rparr>))"

text \<open>
  \<open>execute\<close>: render into a buffer of at most \<open>MaxImage\<close> bytes, then check that the bytes are a PNG of
  the tier's size. The renderer and the two PNG readers of \<open>image/png\<close> are arguments.
\<close>

record png =
  pn_size :: "string \<Rightarrow> (int \<times> int) option"
  pn_decodes :: "string \<Rightarrow> bool"

definition execute ::
  "golib \<Rightarrow> png \<Rightarrow> (request \<Rightarrow> limit_writer \<Rightarrow> limit_writer \<times> err option) \<Rightarrow> request \<Rightarrow> string res" where
  "execute L P render q = (case render q (new_writer MaxImage) of
       (w, Some e) \<Rightarrow> Inl e
     | (w, None) \<Rightarrow>
         bind_res (publish_validate L (q_recipe q)) (\<lambda>r.
         bind_res (tier (r_id r) (q_tier q)) (\<lambda>t.
         if pn_size P (lw_out w) \<noteq> Some (rn_width t, rn_height t)
         then Inl (ErrMsg ''invalid renderer dimensions'')
         else if \<not> pn_decodes P (lw_out w) then Inl (ErrMsg ''invalid png'')
         else Inr (lw_out w))))"

definition crowded :: "int \<Rightarrow> mgr \<Rightarrow> bool" where
  "crowded sz m \<longleftrightarrow> (m_bytes m + sz > c_cache_bytes (m_cfg m)
       \<or> int (length (m_artifacts m)) \<ge> c_cache_count (m_cfg m)) \<and> m_artifacts m \<noteq> []"

text \<open>A temporary file that stays behind when a later step and its removal both fail.\<close>

definition leave_temp :: "sysio \<Rightarrow> string \<Rightarrow> mgr \<Rightarrow> mgr" where
  "leave_temp io b m = (if io_remove io (io_temp io) = None then m
     else m\<lparr>m_disk := mput (io_temp io) b (m_disk m)\<rparr>)"

definition install :: "golib \<Rightarrow> int \<Rightarrow> string \<Rightarrow> string \<Rightarrow> mgr \<Rightarrow> mgr" where
  "install L now i b m = m\<lparr>
     m_bytes := m_bytes m - (if cached m i then a_size (artifact_of m i) else 0) + int (length b),
     m_artifacts := mput i \<lparr>a_size = int (length b), a_created = now,
       a_digest = gl_sha256 L b, a_refs = 0\<rparr> (m_artifacts m),
     m_disk := mput (png_name i) b (m_disk m)\<rparr>"

definition publish :: "golib \<Rightarrow> sysio \<Rightarrow> int \<Rightarrow> string \<Rightarrow> string \<Rightarrow> mgr \<Rightarrow> mgr \<times> err option" where
  "publish L io now i b m =
     (let m1 = prune io now m; sz = int (length b) in
      case io_statfs io of
        Inl e \<Rightarrow> (m1, Some e)
      | Inr avail \<Rightarrow>
          if avail < sz + 67108864 then (m1, Some (ErrMsg ''disk capacity low''))
          else (case evict_while io (crowded sz) m1 of
            (m2, Some e) \<Rightarrow> (m2, Some e)
          | (m2, None) \<Rightarrow>
              if m_bytes m2 + sz > c_cache_bytes (m_cfg m2) then (m2, Some ErrBusy)
              else if io_create io \<noteq> None then (m2, io_create io)
              else if mget (m_disk m2) (io_temp io) \<noteq> None then (m2, Some (ErrMsg ''file exists''))
              else if io_write io \<noteq> None then (leave_temp io '''' m2, io_write io)
              else if io_sync io \<noteq> None then (leave_temp io b m2, io_sync io)
              else if io_close io \<noteq> None then (leave_temp io b m2, io_close io)
              else if io_rename io \<noteq> None then (leave_temp io b m2, io_rename io)
              else (install L now i b m2, None)))"

definition set_state :: "string \<Rightarrow> jstate \<Rightarrow> mgr \<Rightarrow> mgr" where
  "set_state i s m = (case mget (m_jobs m) i of
       None \<Rightarrow> m | Some j \<Rightarrow> m\<lparr>m_jobs := mput i (j\<lparr>j_state := s\<rparr>) (m_jobs m)\<rparr>)"

text \<open>
  The end of a run. The 35 second deadline may pass before the worker looks at its context, in the gap
  between that look and the \<open>cancel\<close> that follows (then nothing is published, yet no error is recorded),
  or not at all; and the manager may be closed, which takes no lock, while \<open>publish\<close> is at work. The
  result is published only when the map still holds the worker's job and it is still running.
\<close>

datatype ending = InTime | Late | LateUnseen | Closing

definition holds_job :: "run \<Rightarrow> mgr \<Rightarrow> bool" where
  "holds_job r m \<longleftrightarrow> (case mget (m_jobs m) (w_id r) of
       None \<Rightarrow> False | Some j \<Rightarrow> j_ptr j = w_ptr r \<and> j_state j = Running)"

definition work_finish :: "golib \<Rightarrow> sysio \<Rightarrow> int \<Rightarrow> ending \<Rightarrow> string res \<Rightarrow> mgr \<Rightarrow> mgr" where
  "work_finish L io now late result m = (case m_run m of
       None \<Rightarrow> m
     | Some r \<Rightarrow>
         (let res = (if w_cancelled r \<or> m_stopped m \<or> late = Late then Inl ErrContext else result);
              m1 = (if \<not> holds_job r m then m
                else (case res of
                    Inl e \<Rightarrow> set_state (w_id r) Failed m
                  | Inr b \<Rightarrow> if late = LateUnseen then set_state (w_id r) Ready m
                    else (case publish L io now (w_id r) b m of
                        (m1, Some e) \<Rightarrow> set_state (w_id r) Failed m1
                      | (m1, None) \<Rightarrow> if late = Closing then close (set_state (w_id r) Failed m1)
                          else set_state (w_id r) Ready m1)))
          in m1\<lparr>m_run := None\<rparr>))"

text \<open>
  The inner loop of \<open>work\<close> when nothing else happens in between: turns until the queue is idle or the
  manager stops. A turn brings the clock readings, the system call outcomes and the rendered bytes;
  \<open>None\<close> means that the fuel ran out.
\<close>

record turn =
  tn_pick :: int
  tn_end :: int
  tn_io :: sysio
  tn_late :: ending
  tn_result :: "string res"

fun work_drain :: "golib \<Rightarrow> (nat \<Rightarrow> turn) \<Rightarrow> nat \<Rightarrow> mgr \<Rightarrow> mgr option" where
  "work_drain L ts 0 m = None"
| "work_drain L ts (Suc n) m = (let t = ts n; m1 = work_pick (tn_pick t) m in
     if m_run m1 = None then Some m1
     else let m2 = work_finish L (tn_io t) (tn_end t) (tn_late t) (tn_result t) m1 in
       if m_stopped m2 then Some m2 else work_drain L ts n m2)"

section \<open>Construction\<close>

text \<open>An entry of the cache directory as \<open>ReadDir\<close>, \<open>Info\<close> and reading the file report it.\<close>

record dirent =
  de_name :: string
  de_symlink :: bool
  de_info :: "(bool \<times> int \<times> int) res"
  de_read :: "string res"

definition is_hex :: "char \<Rightarrow> bool" where
  "is_hex c \<longleftrightarrow> (let n = of_char c :: nat in 48 \<le> n \<and> n \<le> 57 \<or> 65 \<le> n \<and> n \<le> 70 \<or> 97 \<le> n \<and> n \<le> 102)"

definition has_suffix :: "string \<Rightarrow> string \<Rightarrow> bool" where
  "has_suffix s t \<longleftrightarrow> length t \<le> length s \<and> drop (length s - length t) s = t"

definition trim_suffix :: "string \<Rightarrow> string \<Rightarrow> string" where
  "trim_suffix s t = (if has_suffix s t then take (length s - length t) s else s)"

definition reconcile_entry :: "golib \<Rightarrow> sysio \<Rightarrow> int \<Rightarrow> dirent \<Rightarrow> mgr \<Rightarrow> mgr res" where
  "reconcile_entry L io now e m =
     (let name = de_name e; i = trim_suffix name ''.png'';
          rm = (case io_remove io name of Some er \<Rightarrow> Inl er
                | None \<Rightarrow> Inr (m\<lparr>m_disk := mdel name (m_disk m)\<rparr>)) in
      if take 8 name = ''pending-'' then rm
      else if length i \<noteq> 64 \<or> \<not> has_suffix name ''.png'' \<or> de_symlink e then Inr m
      else if \<not> list_all is_hex i then Inr m
      else bind_res (de_info e) (\<lambda>(regular, sz, mtime).
        if \<not> regular then Inr m
        else if sz > MaxImage \<or> now - mtime > c_max_age (m_cfg m)
          \<or> int (length (m_artifacts m)) \<ge> c_cache_count (m_cfg m)
          \<or> m_bytes m + sz > c_cache_bytes (m_cfg m) then rm
        else bind_res (de_read e) (\<lambda>b.
          Inr (m\<lparr>m_artifacts := mput i \<lparr>a_size = sz, a_created = mtime,
                   a_digest = gl_sha256 L b, a_refs = 0\<rparr> (m_artifacts m),
                 m_bytes := m_bytes m + sz\<rparr>))))"

fun reconcile_entries :: "golib \<Rightarrow> sysio \<Rightarrow> int \<Rightarrow> dirent list \<Rightarrow> mgr \<Rightarrow> mgr res" where
  "reconcile_entries L io now [] m = Inr m"
| "reconcile_entries L io now (e # es) m =
     bind_res (reconcile_entry L io now e m) (reconcile_entries L io now es)"

definition name_order :: "dirent \<Rightarrow> nat list" where
  "name_order e = map (of_char :: char \<Rightarrow> nat) (de_name e)"

definition reconcile :: "golib \<Rightarrow> sysio \<Rightarrow> int \<Rightarrow> dirent list res \<Rightarrow> mgr \<Rightarrow> mgr res" where
  "reconcile L io now entries m =
     bind_res entries (\<lambda>es. reconcile_entries L io now (sort_key name_order es) m)"

definition with_defaults :: "mconfig \<Rightarrow> mconfig" where
  "with_defaults c = (let c1 = (if c_queue c = 0 then c\<lparr>c_queue := 8\<rparr> else c);
       c2 = (if c_cache_bytes c1 = 0 then c1\<lparr>c_cache_bytes := 2147483648\<rparr> else c1);
       c3 = (if c_cache_count c2 = 0 then c2\<lparr>c_cache_count := 5000\<rparr> else c2)
     in if c_max_age c3 = 0 then c3\<lparr>c_max_age := 24 * 60 * minute\<rparr> else c3)"

definition config_ok :: "mconfig \<Rightarrow> bool" where
  "config_ok c \<longleftrightarrow> 1 \<le> c_queue c \<and> c_queue c \<le> 8 \<and> 1 \<le> c_cache_count c \<and> c_cache_count c \<le> 5000
     \<and> MaxImage \<le> c_cache_bytes c \<and> 0 \<le> c_max_age c"

definition empty_mgr :: "mconfig \<Rightarrow> (string, string) gomap \<Rightarrow> mgr" where
  "empty_mgr c disk = \<lparr>m_cfg = c, m_jobs = [], m_queue = [], m_artifacts = [], m_bytes = 0,
     m_wake = False, m_stopped = False, m_enabled = True, m_open = 0, m_last = '''', m_run = None,
     m_next = 0, m_leases = [], m_next_lease = 0, m_disk = disk\<rparr>"

text \<open>\<open>mkdir\<close> is the outcome of \<open>MkdirAll\<close>, \<open>has_renderer\<close> that a renderer was given.\<close>

definition new_manager :: "golib \<Rightarrow> sysio \<Rightarrow> int \<Rightarrow> mconfig \<Rightarrow> bool \<Rightarrow> err option
    \<Rightarrow> (string, string) gomap \<Rightarrow> dirent list res \<Rightarrow> mgr res" where
  "new_manager L io now c has_renderer mkdir disk entries =
     (if \<not> has_renderer \<or> c_build c = '''' \<or> c_directory c = '''' then Inl (ErrMsg ''missing renderer configuration'')
      else let c1 = with_defaults c in
        if \<not> config_ok c1 then Inl (ErrMsg ''invalid capacity'')
        else case mkdir of Some e \<Rightarrow> Inl e
          | None \<Rightarrow> reconcile L io now entries (empty_mgr c1 disk))"

end
