(* ===== verification/Studio.thy ===== *)
theory Studio
  imports Manager
begin

text \<open>
  \<open>internal/studio/studio.go\<close>: the workspaces of the visitors. Every operation holds the store's mutex,
  so it is a function of the store. The render queue behind the interface \<open>Jobs\<close> is an argument: a
  record of its three operations over a queue state of any type. Identifiers come from a stream of
  tokens of which the store has drawn a prefix; one operation reads the clock once.
\<close>

record sample =
  sa_id :: string
  sa_style :: string
  sa_colour :: string
  sa_recipe :: recipe
  sa_job :: string
  sa_download :: string
  sa_favourite :: bool
  sa_cancelled :: bool
  sa_status :: "status option"
  sa_dstatus :: "status option"

record batch =
  ba_id :: string
  ba_parent :: string
  ba_samples :: "string list"

text \<open>The exported \<open>Exploration\<close>, and the internal one around it.\<close>

record view =
  v_id :: string
  v_artwork :: string
  v_style :: string
  v_colour :: string
  v_revision :: int
  v_batches :: "batch list"
  v_samples :: "sample list"
  v_favourites :: "sample list"
  v_active :: bool

record action =
  ac_id :: string
  ac_digest :: string
  ac_batch :: string

record entry_action =
  ea_id :: string
  ea_artwork :: string
  ea_style :: string
  ea_colour :: string
  ea_exploration :: string

record exploration =
  x_view :: view
  x_actions :: "action list"
  x_round :: int

record favourite =
  fv_sample :: sample
  fv_exploration :: string
  fv_artwork :: string
  fv_revision :: int

record workspace =
  ws_token :: string
  ws_csrf :: string
  ws_created :: int
  ws_touched :: int
  ws_explorations :: "(string, exploration) gomap"
  ws_entries :: "entry_action list"

record 'q jobs_api =
  ja_admit :: "string \<Rightarrow> request list \<Rightarrow> 'q \<Rightarrow> 'q \<times> string list res"
  ja_status :: "string \<Rightarrow> string \<Rightarrow> 'q \<Rightarrow> status"
  ja_cancel :: "string \<Rightarrow> string \<Rightarrow> 'q \<Rightarrow> 'q"

text \<open>\<open>so_queue\<close> is \<open>None\<close> when the store has no jobs.\<close>

record 'q store =
  so_workspaces :: "(string, workspace) gomap"
  so_queue :: "'q option"
  so_build :: string
  so_persistent :: bool
  so_drawn :: nat

text \<open>
  What an operation gets from outside: the library, the clock, the token stream, eight random bytes and
  the digest of an action's JSON body.
\<close>

record studio_env =
  ev_lib :: golib
  ev_now :: int
  ev_token :: "nat \<Rightarrow> string"
  ev_entropy :: "u64 res"
  ev_digest :: "int \<Rightarrow> string list \<Rightarrow> bool \<Rightarrow> string"

definition new_store :: "'q option \<Rightarrow> string \<Rightarrow> 'q store" where
  "new_store q build = \<lparr>so_workspaces = [], so_queue = q, so_build = build, so_persistent = False, so_drawn = 0\<rparr>"

definition draw_token :: "studio_env \<Rightarrow> 'q store \<Rightarrow> string \<times> 'q store" where
  "draw_token E s = (ev_token E (so_drawn s), s\<lparr>so_drawn := Suc (so_drawn s)\<rparr>)"

section \<open>Workspaces\<close>

definition ws_expired :: "int \<Rightarrow> workspace \<Rightarrow> bool" where
  "ws_expired now w \<longleftrightarrow> now - ws_touched w > 30 * minute \<or> now - ws_created w > 24 * 60 * minute"

definition cancel_sample :: "'q jobs_api \<Rightarrow> string \<Rightarrow> 'q \<Rightarrow> sample \<Rightarrow> 'q" where
  "cancel_sample J key q a = ja_cancel J key (sa_download a) (ja_cancel J key (sa_job a) q)"

definition cancel_workspace :: "'q jobs_api \<Rightarrow> string \<Rightarrow> workspace \<Rightarrow> 'q \<Rightarrow> 'q" where
  "cancel_workspace J key w q =
     foldl (\<lambda>q (i, x). foldl (cancel_sample J key) q (v_samples (x_view x))) q (ws_explorations w)"

fun prune_workspaces :: "studio_env \<Rightarrow> 'q jobs_api \<Rightarrow> (string \<times> workspace) list \<Rightarrow> 'q store \<Rightarrow> 'q store" where
  "prune_workspaces E J [] s = s"
| "prune_workspaces E J ((key, w) # es) s = prune_workspaces E J es
     (if ws_expired (ev_now E) w
      then s\<lparr>so_queue := map_option (cancel_workspace J key w) (so_queue s),
             so_workspaces := mdel key (so_workspaces s)\<rparr>
      else s)"

definition studio_prune :: "studio_env \<Rightarrow> 'q jobs_api \<Rightarrow> 'q store \<Rightarrow> 'q store" where
  "studio_prune E J s = (if so_persistent s then s else prune_workspaces E J (so_workspaces s) s)"

definition studio_create :: "studio_env \<Rightarrow> 'q jobs_api \<Rightarrow> 'q store \<Rightarrow> 'q store \<times> (string \<times> string) res" where
  "studio_create E J s0 = (let s = studio_prune E J s0 in
     if length (so_workspaces s) \<ge> 1000 then (s, Inl ErrBusy)
     else let (t, s1) = draw_token E s; (c, s2) = draw_token E s1 in
       (s2\<lparr>so_workspaces := mput t \<lparr>ws_token = t, ws_csrf = c, ws_created = ev_now E, ws_touched = ev_now E,
          ws_explorations = [], ws_entries = []\<rparr> (so_workspaces s2)\<rparr>, Inr (t, c)))"

definition studio_workspace :: "studio_env \<Rightarrow> 'q jobs_api \<Rightarrow> string \<Rightarrow> 'q store \<Rightarrow> 'q store \<times> workspace res" where
  "studio_workspace E J token s0 = (let s = studio_prune E J s0 in
     case mget (so_workspaces s) token of
       None \<Rightarrow> (s, Inl ErrExpired)
     | Some w \<Rightarrow> let w' = w\<lparr>ws_touched := ev_now E\<rparr> in
         (s\<lparr>so_workspaces := mput token w' (so_workspaces s)\<rparr>, Inr w'))"

definition studio_session :: "studio_env \<Rightarrow> 'q jobs_api \<Rightarrow> string \<Rightarrow> 'q store \<Rightarrow> 'q store \<times> (string \<times> string) res" where
  "studio_session E J token s = (case studio_workspace E J token s of
       (s1, Inl e) \<Rightarrow> (s1, Inl e) | (s1, Inr w) \<Rightarrow> (s1, Inr (ws_token w, ws_csrf w)))"

definition studio_find :: "studio_env \<Rightarrow> 'q jobs_api \<Rightarrow> string \<Rightarrow> string \<Rightarrow> 'q store \<Rightarrow> 'q store \<times> exploration res" where
  "studio_find E J token i s = (case studio_workspace E J token s of
       (s1, Inl e) \<Rightarrow> (s1, Inl e)
     | (s1, Inr w) \<Rightarrow> (s1, case mget (ws_explorations w) i of None \<Rightarrow> Inl ErrExpired | Some x \<Rightarrow> Inr x))"

text \<open>Writes through the pointers that \<open>workspace\<close> and \<open>find\<close> return.\<close>

definition put_workspace :: "string \<Rightarrow> (workspace \<Rightarrow> workspace) \<Rightarrow> 'q store \<Rightarrow> 'q store" where
  "put_workspace token f s = (case mget (so_workspaces s) token of
       None \<Rightarrow> s | Some w \<Rightarrow> s\<lparr>so_workspaces := mput token (f w) (so_workspaces s)\<rparr>)"

definition put_exploration :: "string \<Rightarrow> string \<Rightarrow> exploration \<Rightarrow> 'q store \<Rightarrow> 'q store" where
  "put_exploration token i x = put_workspace token (\<lambda>w. w\<lparr>ws_explorations := mput i x (ws_explorations w)\<rparr>)"

definition new_exploration :: "string \<Rightarrow> string \<Rightarrow> string \<Rightarrow> string \<Rightarrow> exploration" where
  "new_exploration i art sty col = \<lparr>x_view = \<lparr>v_id = i, v_artwork = art, v_style = sty, v_colour = col,
     v_revision = 0, v_batches = [], v_samples = [], v_favourites = [], v_active = False\<rparr>,
     x_actions = [], x_round = 0\<rparr>"

definition studio_start :: "studio_env \<Rightarrow> 'q jobs_api \<Rightarrow> string \<Rightarrow> string \<Rightarrow> string \<Rightarrow> string \<Rightarrow> 'q store
    \<Rightarrow> 'q store \<times> view res" where
  "studio_start E J token art sty col s = (case pins art sty col of
       Inl e \<Rightarrow> (s, Inl e)
     | Inr _ \<Rightarrow> (case studio_workspace E J token s of
         (s1, Inl e) \<Rightarrow> (s1, Inl e)
       | (s1, Inr w) \<Rightarrow>
           if length (ws_explorations w) \<ge> 4
           then (s1, Inl (ErrMsg ''you have four explorations open; clear this session to begin again''))
           else let (i, s2) = draw_token E s1; x = new_exploration i art sty col in
             (put_exploration token i x s2, Inr (x_view x))))"

section \<open>Snapshots\<close>

definition in_state :: "jstate \<Rightarrow> status option \<Rightarrow> bool" where
  "in_state st so \<longleftrightarrow> (case so of None \<Rightarrow> False | Some r \<Rightarrow> st_state r = st)"

definition unfinished :: "status option \<Rightarrow> bool" where
  "unfinished so \<longleftrightarrow> in_state Queued so \<or> in_state Running so"

definition snap_sample :: "'q jobs_api \<Rightarrow> string \<Rightarrow> 'q option \<Rightarrow> sample \<Rightarrow> sample" where
  "snap_sample J token queue a =
     (let a1 = (case queue of
            None \<Rightarrow> a\<lparr>sa_status := Some \<lparr>st_id = '''', st_state = Expired, st_message = ''''\<rparr>\<rparr>
          | Some q \<Rightarrow> a\<lparr>sa_status := Some (ja_status J token (sa_job a) q),
              sa_dstatus := (if sa_download a \<noteq> '''' then Some (ja_status J token (sa_download a) q)
                else sa_dstatus a)\<rparr>);
          a2 = (if \<not> in_state Ready (sa_status a1) \<and> in_state Ready (sa_dstatus a1)
            then a1\<lparr>sa_status := sa_dstatus a1, sa_job := sa_download a1\<rparr> else a1)
      in if sa_cancelled a2 \<and> \<not> in_state Ready (sa_status a2)
         then a2\<lparr>sa_status := map_option (\<lambda>st. st\<lparr>st_state := Cancelled\<rparr>) (sa_status a2)\<rparr> else a2)"

definition snapshot :: "'q jobs_api \<Rightarrow> string \<Rightarrow> 'q option \<Rightarrow> exploration \<Rightarrow> view" where
  "snapshot J token queue x =
     (let as = map (snap_sample J token queue) (v_samples (x_view x)) in
      (x_view x)\<lparr>v_samples := as, v_favourites := filter sa_favourite as,
        v_active := list_ex (\<lambda>a. unfinished (sa_status a) \<or> unfinished (sa_dstatus a)) as\<rparr>)"

definition studio_get :: "studio_env \<Rightarrow> 'q jobs_api \<Rightarrow> string \<Rightarrow> string \<Rightarrow> 'q store \<Rightarrow> 'q store \<times> view res" where
  "studio_get E J token i s = (case studio_find E J token i s of
       (s1, Inl e) \<Rightarrow> (s1, Inl e)
     | (s1, Inr x) \<Rightarrow> (s1, Inr (snapshot J token (so_queue s1) x)))"

section \<open>Generation\<close>

definition seed_of :: "sample \<Rightarrow> u64" where
  "seed_of a = parse_uint_value (r_seed (sa_recipe a))"

text \<open>The liked images that guide a round, and their palettes by seed.\<close>

definition parent_of :: "sample \<Rightarrow> candidate" where
  "parent_of a = \<lparr>c_seed = seed_of a, c_traits = r_traits (sa_recipe a), c_mode = '''', c_parent = 0\<rparr>"

definition plan_parents :: "bool \<Rightarrow> string list \<Rightarrow> sample list \<Rightarrow> (candidate list \<times> (u64, string) gomap) res" where
  "plan_parents different selected samples =
     (if different then Inr ([], [])
      else if list_ex (\<lambda>sid. sid \<notin> sa_id ` set samples) selected
      then Inl (ErrMsg ''choose an existing image'')
      else let as = concat (map (\<lambda>sid. filter (\<lambda>a. sa_id a = sid) samples) selected) in
        Inr (map parent_of as, foldl (\<lambda>p a. mput (seed_of a) (r_pal (sa_recipe a)) p) [] as))"

text \<open>The pins, palette and labels of the round: the chosen image's family wins over the visitor's choices.\<close>

definition plan_direction :: "view \<Rightarrow> string list \<Rightarrow> ((tset \<times> string) \<times> string \<times> string) res" where
  "plan_direction v selected = bind_res (pins (v_artwork v) (v_style v) (v_colour v)) (\<lambda>pp.
     Inr (foldl (\<lambda>d a. ((r_traits (sa_recipe a), r_pal (sa_recipe a)), sa_style a, sa_colour a))
       (pp, v_style v, v_colour v)
       (if length selected = 1 then filter (\<lambda>a. sa_id a = hd selected) (v_samples v) else [])))"

definition sample_palette :: "entry \<Rightarrow> string \<Rightarrow> (u64, string) gomap \<Rightarrow> candidate \<Rightarrow> string" where
  "sample_palette e pal pals c =
     (if pal \<noteq> '''' then pal
      else let p = (case mget pals (c_parent c) of None \<Rightarrow> '''' | Some p \<Rightarrow> p) in
        if c_mode c = ''neighbor'' \<and> p \<noteq> '''' then p
        else co_id (en_colours e ! unat (c_seed c mod of_nat (length (en_colours e)))))"

record plan =
  pl_recipes :: "recipe list"
  pl_style :: string
  pl_colour :: string

text \<open>
  Everything \<open>generate\<close> chooses before admission. A panic while traits are drawn is the error
  \<open>panic\<close>; none of the published schemas has one.
\<close>

definition plan_round :: "studio_env \<Rightarrow> exploration \<Rightarrow> string list \<Rightarrow> bool \<Rightarrow> plan res" where
  "plan_round E x selected different = (let v = x_view x; L = ev_lib E in
     bind_res (plan_parents different selected (v_samples v)) (\<lambda>(parents, pals).
     bind_res (plan_direction v selected) (\<lambda>((pin, pal), sty, col).
     bind_res (space L (v_artwork v)) (\<lambda>sch.
     bind_res (ev_entropy E) (\<lambda>seed.
     bind_res (case public sch pin parents seed (x_round x) (map seed_of (v_samples v)) of
         None \<Rightarrow> Inl (ErrMsg ''panic'') | Some r \<Rightarrow> r) (\<lambda>cs.
     case get_entry (v_artwork v) of None \<Rightarrow> Inl (ErrMsg ''panic'')
     | Some e \<Rightarrow>
       bind_res (map_res (\<lambda>c. publish_complete L (v_artwork v) (c_seed c)
         (sample_palette e pal pals c) (c_traits c)) cs) (\<lambda>rs.
       Inr \<lparr>pl_recipes = rs, pl_style = sty, pl_colour = col\<rparr>)))))))"

definition preview_request :: "string \<Rightarrow> recipe \<Rightarrow> request" where
  "preview_request build r = \<lparr>q_version = 1, q_build = build, q_recipe = r_canonical r, q_tier = ''preview''\<rparr>"

definition recipe_bytes :: "'q store \<Rightarrow> int" where
  "recipe_bytes s = tot (\<lambda>k w. tot (\<lambda>i x.
     (\<Sum>a\<leftarrow>v_samples (x_view x). int (length (r_canonical (sa_recipe a))))) (ws_explorations w)) (so_workspaces s)"

text \<open>The new batch and its samples, the bounded histories and the samples that stay reachable.\<close>

definition new_samples :: "studio_env \<Rightarrow> nat \<Rightarrow> plan \<Rightarrow> string list \<Rightarrow> sample list" where
  "new_samples E n p jobs = map (\<lambda>(k, r, job). \<lparr>sa_id = ev_token E (n + k), sa_style = pl_style p,
       sa_colour = pl_colour p, sa_recipe = r, sa_job = job, sa_download = '''', sa_favourite = False,
       sa_cancelled = False, sa_status = None, sa_dstatus = None\<rparr>)
     (zip [0..<length (pl_recipes p)] (zip (pl_recipes p) jobs))"

definition last8 :: "'a list \<Rightarrow> 'a list" where
  "last8 xs = (if length xs > 8 then tl xs else xs)"

definition kept_ids :: "batch list \<Rightarrow> string set" where
  "kept_ids bs = (\<Union>b\<in>set bs. insert (ba_parent b) (set (ba_samples b)))"

definition commit_round :: "studio_env \<Rightarrow> nat \<Rightarrow> string \<Rightarrow> string \<Rightarrow> string list \<Rightarrow> plan \<Rightarrow> string list
    \<Rightarrow> exploration \<Rightarrow> exploration" where
  "commit_round E n aid digest selected p jobs x =
     (let v = x_view x; new = new_samples E (Suc n) p jobs;
          b = \<lparr>ba_id = ev_token E n, ba_parent = (if length selected = 1 then hd selected else ''''),
               ba_samples = map sa_id new\<rparr>;
          bs = last8 (v_batches v @ [b]);
          as = filter (\<lambda>a. sa_favourite a \<or> sa_id a \<in> kept_ids bs) (v_samples v @ new)
      in x\<lparr>x_view := v\<lparr>v_samples := as, v_batches := bs, v_style := pl_style p, v_colour := pl_colour p,
             v_revision := v_revision v + 1\<rparr>,
           x_actions := last8 (x_actions x @ [\<lparr>ac_id = aid, ac_digest = digest, ac_batch = ba_id b\<rparr>]),
           x_round := x_round x + 1\<rparr>)"

definition generate :: "studio_env \<Rightarrow> 'q jobs_api \<Rightarrow> string \<Rightarrow> string \<Rightarrow> int \<Rightarrow> string \<Rightarrow> string list \<Rightarrow> bool
    \<Rightarrow> 'q store \<Rightarrow> 'q store \<times> string res" where
  "generate E J token xid revision aid selected different s =
     (if \<not> distinct selected then (s, Inl (ErrMsg ''duplicate selected favourite''))
      else if length aid \<noteq> 48 \<or> length selected > 1 then (s, Inl (ErrMsg ''invalid selection''))
      else if \<not> list_all is_hex aid then (s, Inl (ErrMsg ''invalid action''))
      else case studio_find E J token xid s of
        (s1, Inl e) \<Rightarrow> (s1, Inl e)
      | (s1, Inr x) \<Rightarrow> (let digest = ev_digest E revision selected different in
          case find (\<lambda>a. ac_id a = aid) (x_actions x) of
            Some a \<Rightarrow> (s1, if ac_digest a \<noteq> digest then Inl ErrConflict else Inr (ac_batch a))
          | None \<Rightarrow>
              if revision \<noteq> v_revision (x_view x) then (s1, Inl ErrConflict)
              else if v_active (snapshot J token (so_queue s1) x)
              then (s1, Inl (ErrMsg ''your current samples are still being made''))
              else (case so_queue s1 of
                None \<Rightarrow> (s1, Inl ErrBusy)
              | Some q \<Rightarrow> (case plan_round E x selected different of
                  Inl e \<Rightarrow> (s1, Inl e)
                | Inr p \<Rightarrow>
                    if recipe_bytes s1 + int (length (pl_recipes p)) * 16384 > 33554432 then (s1, Inl ErrBusy)
                    else (case ja_admit J token (map (preview_request (so_build s1)) (pl_recipes p)) q of
                      (q', Inl e) \<Rightarrow> (s1\<lparr>so_queue := Some q'\<rparr>, Inl e)
                    | (q', Inr jobs) \<Rightarrow>
                        (let n = so_drawn s1; x' = commit_round E n aid digest selected p jobs x in
                         (put_exploration token xid x'
                            (s1\<lparr>so_queue := Some q', so_drawn := Suc n + length (pl_recipes p)\<rparr>),
                          Inr (ev_token E n))))))))"

definition studio_generate :: "studio_env \<Rightarrow> 'q jobs_api \<Rightarrow> string \<Rightarrow> string \<Rightarrow> int \<Rightarrow> string \<Rightarrow> string list \<Rightarrow> bool
    \<Rightarrow> 'q store \<Rightarrow> 'q store \<times> string res" where
  "studio_generate = generate"

section \<open>Navigation\<close>

text \<open>The exploration as it stands in the store.\<close>

definition exploration_of :: "'q store \<Rightarrow> string \<Rightarrow> string \<Rightarrow> exploration option" where
  "exploration_of s token i = (case mget (so_workspaces s) token of None \<Rightarrow> None
     | Some w \<Rightarrow> mget (ws_explorations w) i)"

definition set_direction :: "string \<Rightarrow> string \<Rightarrow> exploration \<Rightarrow> exploration" where
  "set_direction sty col x = x\<lparr>x_view := (x_view x)\<lparr>v_style := sty, v_colour := col\<rparr>\<rparr>"

definition drop_exploration :: "string \<Rightarrow> string \<Rightarrow> 'q store \<Rightarrow> 'q store" where
  "drop_exploration token i = put_workspace token (\<lambda>w. w\<lparr>ws_explorations := mdel i (ws_explorations w)\<rparr>)"

definition add_entry :: "string \<Rightarrow> entry_action \<Rightarrow> 'q store \<Rightarrow> 'q store" where
  "add_entry token a = put_workspace token (\<lambda>w. w\<lparr>ws_entries := last8 (ws_entries w @ [a])\<rparr>)"

text \<open>
  \<open>Enter\<close>: the exploration of the art form is reused or created, its direction set, and a first batch
  generated; an error restores the direction or deletes what was created.
\<close>

definition enter_undo :: "string \<Rightarrow> string \<Rightarrow> bool \<Rightarrow> exploration \<Rightarrow> 'q store \<Rightarrow> 'q store" where
  "enter_undo token i created x s = (case exploration_of s token i of
       None \<Rightarrow> s
     | Some x' \<Rightarrow>
         if created then drop_exploration token i s
         else put_exploration token i (set_direction (v_style (x_view x)) (v_colour (x_view x)) x') s)"

definition studio_enter :: "studio_env \<Rightarrow> 'q jobs_api \<Rightarrow> string \<Rightarrow> string \<Rightarrow> string \<Rightarrow> string \<Rightarrow> string
    \<Rightarrow> 'q store \<Rightarrow> 'q store \<times> string res" where
  "studio_enter E J token art sty col aid s = (case pins art sty col of
       Inl e \<Rightarrow> (s, Inl e)
     | Inr _ \<Rightarrow> (case studio_workspace E J token s of
         (s1, Inl e) \<Rightarrow> (s1, Inl e)
       | (s1, Inr w) \<Rightarrow> (case find (\<lambda>a. ea_id a = aid) (ws_entries w) of
           Some a \<Rightarrow> (s1, if ea_artwork a \<noteq> art \<or> ea_style a \<noteq> sty \<or> ea_colour a \<noteq> col then Inl ErrConflict
             else Inr (ea_exploration a))
         | None \<Rightarrow>
             (let found = find (\<lambda>(i, x). v_artwork (x_view x) = art) (ws_explorations w) in
              if found = None \<and> length (ws_explorations w) \<ge> 4 then (s1, Inl ErrBusy)
              else
                let (x, s2) = (case found of
                      Some (k, x) \<Rightarrow> (x, s1)
                    | None \<Rightarrow> let (t, s2) = draw_token E s1 in (new_exploration t art '''' '''', s2));
                    xid = v_id (x_view x);
                    s3 = put_exploration token xid (set_direction sty col x) s2
                in (case generate E J token xid (v_revision (x_view x)) aid [] False s3 of
                    (s4, Inl e) \<Rightarrow> (enter_undo token xid (found = None) x s4, Inl e)
                  | (s4, Inr b) \<Rightarrow>
                      (add_entry token \<lparr>ea_id = aid, ea_artwork = art, ea_style = sty, ea_colour = col,
                         ea_exploration = xid\<rparr> s4, Inr xid))))))"

definition id_order :: "favourite \<Rightarrow> nat list" where
  "id_order f = map (of_char :: char \<Rightarrow> nat) (sa_id (fv_sample f))"

definition studio_favourites :: "studio_env \<Rightarrow> 'q jobs_api \<Rightarrow> string \<Rightarrow> 'q store \<Rightarrow> 'q store \<times> favourite list res" where
  "studio_favourites E J token s = (case studio_workspace E J token s of
       (s1, Inl e) \<Rightarrow> (s1, Inl e)
     | (s1, Inr w) \<Rightarrow> (s1, Inr (sort_key id_order (concat (map (\<lambda>(i, x).
         map (\<lambda>a. \<lparr>fv_sample = a, fv_exploration = v_id (x_view x),
             fv_artwork = (case get_entry (v_artwork (x_view x)) of None \<Rightarrow> '''' | Some e \<Rightarrow> en_name e),
             fv_revision = v_revision (x_view x)\<rparr>)
           (v_favourites (snapshot J token (so_queue s1) x))) (ws_explorations w))))))"

definition studio_choices :: "studio_env \<Rightarrow> 'q jobs_api \<Rightarrow> string \<Rightarrow> string \<Rightarrow> int \<Rightarrow> string \<Rightarrow> string
    \<Rightarrow> 'q store \<Rightarrow> 'q store \<times> err option" where
  "studio_choices E J token i revision sty col s = (case studio_find E J token i s of
       (s1, Inl e) \<Rightarrow> (s1, Some e)
     | (s1, Inr x) \<Rightarrow>
         if revision \<noteq> v_revision (x_view x) then (s1, Some ErrConflict)
         else (case pins (v_artwork (x_view x)) sty col of
             Inl e \<Rightarrow> (s1, Some e)
           | Inr _ \<Rightarrow> (put_exploration token i (x\<lparr>x_view := (x_view x)\<lparr>v_style := sty, v_colour := col,
               v_revision := v_revision (x_view x) + 1\<rparr>\<rparr>) s1, None)))"

definition studio_retry :: "studio_env \<Rightarrow> 'q jobs_api \<Rightarrow> string \<Rightarrow> string \<Rightarrow> int \<Rightarrow> string \<Rightarrow> string
    \<Rightarrow> 'q store \<Rightarrow> 'q store \<times> string res" where
  "studio_retry E J token i revision aid bid s = (case studio_find E J token i s of
       (s1, Inl e) \<Rightarrow> (s1, Inl e)
     | (s1, Inr x) \<Rightarrow> (case find (\<lambda>b. ba_id b = bid) (v_batches (x_view x)) of
         None \<Rightarrow> (s1, Inl ErrExpired)
       | Some b \<Rightarrow>
           (let parent = (if ba_parent b \<noteq> '''' then [ba_parent b] else []) in
            if list_ex (\<lambda>a. ac_id a = aid) (x_actions x) then generate E J token i revision aid parent False s1
            else if revision \<noteq> v_revision (x_view x) \<or> ba_id (last (v_batches (x_view x))) \<noteq> bid
            then (s1, Inl ErrConflict)
            else if list_ex (\<lambda>a. sa_id a \<in> set (ba_samples b)
                \<and> (in_state Ready (sa_status a) \<or> unfinished (sa_status a)))
              (v_samples (snapshot J token (so_queue s1) x))
            then (s1, Inl (ErrMsg ''these images are still available or being made''))
            else generate E J token i revision aid parent False s1)))"

section \<open>Choices of a visitor\<close>

definition count_favourites :: "workspace \<Rightarrow> int" where
  "count_favourites w = tot (\<lambda>i x. int (length (filter sa_favourite (v_samples (x_view x))))) (ws_explorations w)"

text \<open>Changes the first sample with the given id.\<close>

fun update_sample :: "string \<Rightarrow> (sample \<Rightarrow> sample) \<Rightarrow> sample list \<Rightarrow> sample list" where
  "update_sample sid f [] = []"
| "update_sample sid f (a # as) = (if sa_id a = sid then f a # as else a # update_sample sid f as)"

definition with_samples :: "sample list \<Rightarrow> exploration \<Rightarrow> exploration" where
  "with_samples as x = x\<lparr>x_view := (x_view x)\<lparr>v_samples := as\<rparr>\<rparr>"

definition next_revision :: "exploration \<Rightarrow> exploration" where
  "next_revision x = x\<lparr>x_view := (x_view x)\<lparr>v_revision := v_revision (x_view x) + 1\<rparr>\<rparr>"

definition studio_favourite :: "studio_env \<Rightarrow> 'q jobs_api \<Rightarrow> string \<Rightarrow> string \<Rightarrow> string \<Rightarrow> int \<Rightarrow> bool
    \<Rightarrow> 'q store \<Rightarrow> 'q store \<times> err option" where
  "studio_favourite E J token i sid revision on s = (case studio_find E J token i s of
       (s1, Inl e) \<Rightarrow> (s1, Some e)
     | (s1, Inr x) \<Rightarrow>
         if v_revision (x_view x) \<noteq> revision then (s1, Some ErrConflict)
         else (let kept = (case mget (so_workspaces s1) token of None \<Rightarrow> 0 | Some w \<Rightarrow> count_favourites w);
                   as = v_samples (x_view x) in
           case find (\<lambda>a. sa_id a = sid) as of
             None \<Rightarrow> (s1, Some ErrExpired)
           | Some a \<Rightarrow>
               if on \<and> \<not> sa_favourite a \<and> kept \<ge> 24
               then (s1, Some (ErrMsg ''24 favourites kept; remove one before adding another''))
               else (put_exploration token i (next_revision (with_samples
                   (update_sample sid (\<lambda>a. a\<lparr>sa_favourite := on\<rparr>) as) x)) s1, None)))"

text \<open>The loop of \<open>Cancel\<close> over the samples of the last batch.\<close>

fun cancel_members :: "'q jobs_api \<Rightarrow> string \<Rightarrow> string list \<Rightarrow> sample list \<Rightarrow> 'q option
    \<Rightarrow> sample list \<times> 'q option" where
  "cancel_members J token members [] q = ([], q)"
| "cancel_members J token members (a # as) q =
     (let (a', q') = (case q of
            None \<Rightarrow> (a, q)
          | Some qs \<Rightarrow>
              if sa_id a \<in> set members \<and> unfinished (Some (ja_status J token (sa_job a) qs))
              then (a\<lparr>sa_cancelled := True\<rparr>, Some (ja_cancel J token (sa_job a) qs)) else (a, q));
          (as', q'') = cancel_members J token members as q'
      in (a' # as', q''))"

definition studio_cancel :: "studio_env \<Rightarrow> 'q jobs_api \<Rightarrow> string \<Rightarrow> string \<Rightarrow> int \<Rightarrow> string
    \<Rightarrow> 'q store \<Rightarrow> 'q store \<times> err option" where
  "studio_cancel E J token i revision bid s = (case studio_find E J token i s of
       (s1, Inl e) \<Rightarrow> (s1, Some e)
     | (s1, Inr x) \<Rightarrow>
         (let bs = v_batches (x_view x) in
          if v_revision (x_view x) \<noteq> revision \<or> bs = [] \<or> ba_id (last bs) \<noteq> bid
          then (s1, Some ErrConflict)
          else let (as, q) = cancel_members J token (ba_samples (last bs)) (v_samples (x_view x)) (so_queue s1)
            in (put_exploration token i (next_revision (with_samples as x)) (s1\<lparr>so_queue := q\<rparr>), None)))"

definition studio_download :: "studio_env \<Rightarrow> 'q jobs_api \<Rightarrow> string \<Rightarrow> string \<Rightarrow> string
    \<Rightarrow> 'q store \<Rightarrow> 'q store \<times> err option" where
  "studio_download E J token i sid s = (case studio_find E J token i s of
       (s1, Inl e) \<Rightarrow> (s1, Some e)
     | (s1, Inr x) \<Rightarrow> (case find (\<lambda>a. sa_id a = sid) (v_samples (x_view x)) of
         None \<Rightarrow> (s1, Some ErrExpired)
       | Some a \<Rightarrow> (case so_queue s1 of
           None \<Rightarrow> (s1, Some ErrBusy)
         | Some q \<Rightarrow>
             if sa_download a \<noteq> '''' \<and> (let st = Some (ja_status J token (sa_download a) q) in
                 unfinished st \<or> in_state Ready st)
             then (s1, None)
             else (case ja_admit J token [\<lparr>q_version = 1, q_build = so_build s1,
                 q_recipe = r_canonical (sa_recipe a), q_tier = ''download''\<rparr>] q of
                 (q', Inl e) \<Rightarrow> (s1\<lparr>so_queue := Some q'\<rparr>, Some e)
               | (q', Inr ids) \<Rightarrow> (put_exploration token i (with_samples
                   (update_sample sid (\<lambda>a. a\<lparr>sa_download := hd ids\<rparr>) (v_samples (x_view x))) x)
                   (s1\<lparr>so_queue := Some q'\<rparr>), None)))))"

section \<open>Recovery\<close>

definition studio_recovery :: "studio_env \<Rightarrow> 'q jobs_api \<Rightarrow> string \<Rightarrow> 'q store \<Rightarrow> 'q store \<times> string list res" where
  "studio_recovery E J token s = (case studio_workspace E J token s of
       (s1, Inl e) \<Rightarrow> (s1, Inl e)
     | (s1, Inr w) \<Rightarrow> (s1, Inr (concat (map (\<lambda>(i, x).
         map (\<lambda>a. r_canonical (sa_recipe a)) (filter sa_favourite (v_samples (x_view x)))) (ws_explorations w)))))"

text \<open>The first loop of \<open>Restore\<close>: every record is validated, repeated digests are dropped.\<close>

fun restore_recipes :: "golib \<Rightarrow> string list \<Rightarrow> string list \<Rightarrow> recipe list res" where
  "restore_recipes L seen [] = Inr []"
| "restore_recipes L seen (raw # raws) = bind_res (publish_validate L raw) (\<lambda>r.
     let d = recipe_digest L r in
     if d \<in> set seen then restore_recipes L seen raws
     else bind_res (restore_recipes L (d # seen) raws) (\<lambda>rs. Inr (r # rs)))"

text \<open>The second loop: one exploration per artwork, in order of appearance; \<open>by_art\<close> maps to its key.\<close>

definition restored_sample :: "string \<Rightarrow> recipe \<Rightarrow> sample" where
  "restored_sample t r = \<lparr>sa_id = t, sa_style = '''', sa_colour = '''', sa_recipe = r, sa_job = '''',
     sa_download = '''', sa_favourite = True, sa_cancelled = False, sa_status = None, sa_dstatus = None\<rparr>"

definition append_sample :: "string \<Rightarrow> string \<Rightarrow> sample \<Rightarrow> 'q store \<Rightarrow> 'q store" where
  "append_sample token i a s = (case exploration_of s token i of
       None \<Rightarrow> s
     | Some x \<Rightarrow> put_exploration token i (with_samples (v_samples (x_view x) @ [a]) x) s)"

fun restore_samples :: "studio_env \<Rightarrow> string \<Rightarrow> recipe list \<Rightarrow> (string, string) gomap \<Rightarrow> string
    \<Rightarrow> 'q store \<Rightarrow> 'q store \<times> string" where
  "restore_samples E token [] by_art first s = (s, first)"
| "restore_samples E token (r # rs) by_art first s = (case mget by_art (r_id r) of
       Some i \<Rightarrow> (let (t, s1) = draw_token E s in
         restore_samples E token rs by_art first (append_sample token i (restored_sample t r) s1))
     | None \<Rightarrow> (let (i, s1) = draw_token E s; (t, s2) = draw_token E s1;
           s3 = put_exploration token i (new_exploration i (r_id r) '''' '''') s2 in
         restore_samples E token rs (mput (r_id r) i by_art) (if first = '''' then i else first)
           (append_sample token i (restored_sample t r) s3)))"

definition studio_restore :: "studio_env \<Rightarrow> 'q jobs_api \<Rightarrow> string \<Rightarrow> string list \<Rightarrow> 'q store \<Rightarrow> 'q store \<times> string res" where
  "studio_restore E J token records s =
     (if length records > 24 then (s, Inl (ErrMsg ''too many favourites''))
      else case restore_recipes (ev_lib E) [] records of
        Inl e \<Rightarrow> (s, Inl e)
      | Inr rs \<Rightarrow> (case studio_workspace E J token s of
          (s1, Inl e) \<Rightarrow> (s1, Inl e)
        | (s1, Inr w) \<Rightarrow>
            if ws_explorations w \<noteq> []
            then (s1, Inl (ErrMsg ''restore into a fresh session to preserve your current choices''))
            else if recipe_bytes s1 + int (length rs) * 16384 > 33554432 then (s1, Inl ErrBusy)
            else let (s2, first) = restore_samples E token rs [] '''' s1 in (s2, Inr first)))"

text \<open>The zero \<open>time.Time\<close>, in nanoseconds since 1970.\<close>

definition zero_time :: int where
  "zero_time = - 62135596800000000000"

definition studio_clear :: "studio_env \<Rightarrow> 'q jobs_api \<Rightarrow> string \<Rightarrow> 'q store \<Rightarrow> 'q store" where
  "studio_clear E J token s = studio_prune E J (put_workspace token (\<lambda>w. w\<lparr>ws_touched := zero_time\<rparr>) s)"

text \<open>\<open>String\<close>: the label of a sample, with a middle dot in UTF-8.\<close>

definition sample_label :: "sample \<Rightarrow> string" where
  "sample_label a = r_id (sa_recipe a) @ '' '' @ [char_of (194 :: nat), char_of (183 :: nat)] @ '' ''
     @ r_seed (sa_recipe a)"

end
