(* ===== verification/Policy.thy ===== *)
theory Policy
  imports Prelude
begin

text \<open>
  \<open>internal/limits/policy.go\<close>: the named operational policies, their strict JSON overrides and their
  validation. \<open>encoding/json\<close> is an argument.
\<close>

record rate =
  rt_per_minute :: int
  rt_burst :: int

abbreviation rate_of :: "int \<Rightarrow> int \<Rightarrow> rate" where
  "rate_of n b \<equiv> \<lparr>rt_per_minute = n, rt_burst = b\<rparr>"

record policy =
  p_profile :: string
  p_read_ip :: rate
  p_asset_ip :: rate
  p_start_ip :: rate
  p_generate_ip :: rate
  p_generate_visitor :: rate
  p_outstanding :: int
  p_visitor_jobs :: int
  p_queue_age :: int
  p_image_readers :: int
  p_image_buffer :: int
  p_image_wait :: int

definition policy_defaults :: "string \<Rightarrow> policy res" where
  "policy_defaults profile0 =
     (let profile = (if profile0 = '''' then ''production'' else profile0);
          p = \<lparr>p_profile = profile, p_read_ip = rate_of 1200 120, p_asset_ip = rate_of 3000 300,
            p_start_ip = rate_of 60 12, p_generate_ip = rate_of 120 24, p_generate_visitor = rate_of 30 6,
            p_outstanding = 16, p_visitor_jobs = 4, p_queue_age = 120, p_image_readers = 32,
            p_image_buffer = 64, p_image_wait = 2000\<rparr> in
      if profile = ''production'' then Inr p
      else if profile = ''local-capacity'' then
        Inr (p\<lparr>p_read_ip := rate_of 60000 4000, p_asset_ip := rate_of 60000 4000,
          p_start_ip := rate_of 12000 400, p_generate_ip := rate_of 12000 400,
          p_generate_visitor := rate_of 600 30, p_outstanding := 64\<rparr>)
      else Inl (ErrMsg ''unknown limits profile''))"

definition rate_valid :: "rate \<Rightarrow> bool" where
  "rate_valid r \<longleftrightarrow> \<not> (rt_per_minute r < 1 \<or> rt_per_minute r > 120000 \<or> rt_burst r < 1 \<or> rt_burst r > 10000)"

definition policy_validate :: "policy \<Rightarrow> err option" where
  "policy_validate p =
     (if p_profile p \<noteq> ''production'' \<and> p_profile p \<noteq> ''local-capacity''
      then Some (ErrMsg ''invalid limits profile'')
      else if \<not> list_all rate_valid [p_read_ip p, p_asset_ip p, p_start_ip p, p_generate_ip p, p_generate_visitor p]
      then Some (ErrMsg ''rate must be 1..120000/minute, burst 1..10000'')
      else if p_visitor_jobs p < 4 \<or> p_visitor_jobs p > 32 \<or> p_outstanding p < p_visitor_jobs p \<or> p_outstanding p > 256
      then Some (ErrMsg ''visitor jobs must be 4..32 and outstanding between visitor jobs and 256'')
      else if p_queue_age p < 30 \<or> p_queue_age p > 300
      then Some (ErrMsg ''queue age must be 30..300 seconds'')
      else if p_image_readers p < 1 \<or> p_image_readers p > 128 \<or> p_image_buffer p < 16 \<or> p_image_buffer p > 128
        \<or> p_image_wait p < 0 \<or> p_image_wait p > 5000
      then Some (ErrMsg ''invalid image buffer/reader/wait bounds'')
      else None)"

text \<open>
  \<open>strings.TrimSpace\<close> on the left: the white space runes of Unicode in their UTF-8 bytes.
\<close>

fun trim_left :: "nat list \<Rightarrow> nat list" where
  "trim_left (a # bs) =
     (if a \<in> {9, 10, 11, 12, 13, 32} then trim_left bs
      else (case bs of
          b # cs \<Rightarrow>
            if a = 194 \<and> (b = 133 \<or> b = 160) then trim_left cs
            else (case cs of
              c # ds \<Rightarrow>
                if (a, b, c) \<in> {(225, 154, 128), (226, 128, 168), (226, 128, 169), (226, 128, 175),
                      (226, 129, 159), (227, 128, 128)} \<or> a = 226 \<and> b = 128 \<and> 128 \<le> c \<and> c \<le> 138
                then trim_left ds else a # bs
            | [] \<Rightarrow> a # bs)
        | [] \<Rightarrow> [a]))"
| "trim_left [] = []"

definition opens_object :: "string \<Rightarrow> bool" where
  "opens_object s \<longleftrightarrow> (case trim_left (map of_char s) of [] \<Rightarrow> False | c # _ \<Rightarrow> c = 123)"

text \<open>
  \<open>Parse\<close>: \<open>dec\<close> decodes the first JSON value over the given policy, unknown fields disallowed, and
  \<open>only_one\<close> says that the next decoding ends with \<open>io.EOF\<close>.
\<close>

definition policy_parse :: "(string \<Rightarrow> policy \<Rightarrow> policy res) \<Rightarrow> (string \<Rightarrow> bool) \<Rightarrow> string \<Rightarrow> string \<Rightarrow> policy res" where
  "policy_parse dec only_one profile overrides =
     bind_res (policy_defaults profile) (\<lambda>p.
     bind_res
       (if overrides = '''' then Inr p
        else if \<not> opens_object overrides then Inl (ErrMsg ''ART_LIMITS_JSON must be an object'')
        else case dec overrides p of
            Inl e \<Rightarrow> Inl (ErrMsg ''invalid ART_LIMITS_JSON'')
          | Inr p' \<Rightarrow>
              if \<not> only_one overrides then Inl (ErrMsg ''ART_LIMITS_JSON must contain one object'')
              else if p_profile p' \<noteq> p_profile p
              then Inl (ErrMsg ''set profile with ART_LIMITS_PROFILE, not JSON'')
              else Inr p')
       (\<lambda>p. case policy_validate p of None \<Rightarrow> Inr p | Some e \<Rightarrow> Inl e))"

text \<open>\<open>FromEnv\<close>: the environment as a function that is empty on unset variables.\<close>

definition policy_from_env :: "(string \<Rightarrow> policy \<Rightarrow> policy res) \<Rightarrow> (string \<Rightarrow> bool) \<Rightarrow> (string \<Rightarrow> string) \<Rightarrow> policy res" where
  "policy_from_env dec only_one env = policy_parse dec only_one (env ''ART_LIMITS_PROFILE'') (env ''ART_LIMITS_JSON'')"

section \<open>Properties\<close>

definition rate_bounded :: "rate \<Rightarrow> bool" where
  "rate_bounded r \<longleftrightarrow> rt_per_minute r \<in> {1..120000} \<and> rt_burst r \<in> {1..10000}"

definition policy_bounded :: "policy \<Rightarrow> bool" where
  "policy_bounded p \<longleftrightarrow> p_profile p \<in> {''production'', ''local-capacity''}
     \<and> (\<forall>r\<in>{p_read_ip p, p_asset_ip p, p_start_ip p, p_generate_ip p, p_generate_visitor p}. rate_bounded r)
     \<and> p_visitor_jobs p \<in> {4..32} \<and> p_outstanding p \<in> {p_visitor_jobs p..256} \<and> p_queue_age p \<in> {30..300}
     \<and> p_image_readers p \<in> {1..128} \<and> p_image_buffer p \<in> {16..128} \<and> p_image_wait p \<in> {0..5000}"

lemma rate_valid_iff: "rate_valid r \<longleftrightarrow> rate_bounded r"
  by (auto simp: rate_valid_def rate_bounded_def)

lemma policy_validate_iff: "policy_validate p = None \<longleftrightarrow> policy_bounded p"
  unfolding policy_validate_def policy_bounded_def rate_valid_iff by (auto simp: not_le not_less)

lemma policy_defaults_profile:
  "policy_defaults profile = Inr p \<Longrightarrow> p_profile p = (if profile = '''' then ''production'' else profile)"
  by (auto simp: policy_defaults_def Let_def split: if_splits)

lemma policy_defaults_bounded: "policy_defaults profile = Inr p \<Longrightarrow> policy_bounded p"
  by (auto simp: policy_defaults_def Let_def policy_bounded_def rate_bounded_def split: if_splits)

text \<open>A parsed policy is one the operator named, and every rate, queue and buffer of it lies within its
  finite bounds, whatever the JSON overrides say; without overrides every named profile is accepted.
\<close>
theorem policy_parse_bounded:
  assumes "policy_parse dec only_one profile overrides = Inr p"
  shows "policy_bounded p \<and> p_profile p = (if profile = '''' then ''production'' else profile)
    \<and> policy_parse dec only_one profile '''' \<noteq> Inl e"
proof -
  from assms obtain p0 where d: "policy_defaults profile = Inr p0" by (auto simp: policy_parse_def res_simps)
  with assms have "policy_validate p = None" "p_profile p = p_profile p0"
    by (auto simp: policy_parse_def res_simps split: if_splits sum.splits option.splits)
  moreover have "policy_validate p0 = None"
    using policy_defaults_bounded[OF d] by (simp add: policy_validate_iff)
  then have "policy_parse dec only_one profile '''' = Inr p0" using d by (simp add: policy_parse_def)
  ultimately show ?thesis using policy_defaults_profile[OF d] by (simp add: policy_validate_iff)
qed

theorem policy_parse_bounded_witness:
  "policy_bounded (\<lparr>p_profile = ''production'', p_read_ip = rate_of 1200 120, p_asset_ip = rate_of 3000 300,
     p_start_ip = rate_of 60 12, p_generate_ip = rate_of 120 24, p_generate_visitor = rate_of 30 6,
     p_outstanding = 20, p_visitor_jobs = 4, p_queue_age = 120, p_image_readers = 32,
     p_image_buffer = 64, p_image_wait = 2000\<rparr>)"
  using policy_parse_bounded[of "\<lambda>s p. Inr (p\<lparr>p_outstanding := 20\<rparr>)" "\<lambda>s. True" "''production''" "'' {}''"]
  by (simp add: policy_parse_def policy_defaults_def opens_object_def policy_validate_def rate_valid_def)

end
