(* ===== verification/Limiter.thy ===== *)
theory Limiter
  imports Policy Manager
begin

text \<open>
  The rate limiter of \<open>internal/web/web.go\<close>: token buckets by key in binary64, at most 10000 of them.
  It holds its mutex for the whole of \<open>allow\<close>, which is a function of the clock and the buckets.
\<close>

record bucket =
  bk_tokens :: f64
  bk_at :: int

type_synonym buckets = "(string, bucket) gomap"

section \<open>Durations and floats\<close>

text \<open>\<open>time.Time.Sub\<close> saturates; \<open>Duration.Seconds\<close> splits off the whole seconds, truncating.\<close>

definition time_sub :: "int \<Rightarrow> int \<Rightarrow> int" where
  "time_sub t u = max (- (2 ^ 63)) (min (2 ^ 63 - 1) (t - u))"

definition f64_div_by :: "f64 \<Rightarrow> rat \<Rightarrow> f64" where
  "f64_div_by a b = (case a of Fin x \<Rightarrow> rnd64 (x / b) | _ \<Rightarrow> a)"

definition duration_seconds :: "int \<Rightarrow> f64" where
  "duration_seconds d = (let s = sgn d * (\<bar>d\<bar> div 1000000000); n = sgn d * (\<bar>d\<bar> mod 1000000000)
     in f64_of_int s + f64_div_by (f64_of_int n) 1000000000)"

definition f64_min :: "f64 \<Rightarrow> f64 \<Rightarrow> f64" where
  "f64_min a b = (if a = NaN \<or> b = NaN then NaN else if b < a then b else a)"

section \<open>The limiter\<close>

definition refill :: "int \<Rightarrow> f64 \<Rightarrow> f64 \<Rightarrow> bucket \<Rightarrow> f64" where
  "refill now per burst b =
     f64_min burst (bk_tokens b + f64_div_by (duration_seconds (time_sub now (bk_at b)) * per) 60)"

definition limiter_take :: "int \<Rightarrow> string \<Rightarrow> f64 \<Rightarrow> f64 \<Rightarrow> bucket \<Rightarrow> buckets \<Rightarrow> buckets \<times> bool" where
  "limiter_take now key per burst b keys =
     (let t = refill now per burst b; allowed = 1 \<le> t in
      (mput key \<lparr>bk_tokens = (if allowed then t + Fin (- 1) else t), bk_at = now\<rparr> keys, allowed))"

definition limiter_allow :: "int \<Rightarrow> string \<Rightarrow> f64 \<Rightarrow> f64 \<Rightarrow> buckets \<Rightarrow> buckets \<times> bool" where
  "limiter_allow now key per burst keys = (case mget keys key of
       Some b \<Rightarrow> limiter_take now key per burst b keys
     | None \<Rightarrow>
         if length keys \<ge> 10000 then
           (let keys' = filter (\<lambda>(k, v). \<not> time_sub now (bk_at v) > 5 * minute) keys in
            if length keys' \<ge> 10000 then (keys', False)
            else limiter_take now key per burst \<lparr>bk_tokens = burst, bk_at = now\<rparr> keys')
         else limiter_take now key per burst \<lparr>bk_tokens = burst, bk_at = now\<rparr> keys)"

section \<open>Rounding below an integer\<close>

lemma rnd64_le_int:
  assumes "0 \<le> x" "x \<le> of_int n" "n < 2 ^ 53"
  shows "\<exists>r. rnd64 x = Fin r \<and> 0 \<le> r \<and> r \<le> of_int n"
proof (cases "x = 0")
  case True
  then show ?thesis using assms by (simp add: rnd64_def)
next
  case False
  with assms(1) have x: "0 < x" by simp
  define e where "e = max (ilog2 x - 52) (- 1074)"
  have "pow2 (ilog2 x) \<le> of_int n" using ilog2_bounds(1)[OF x] assms(2) by linarith
  also have "of_int n < (pow2 53 :: rat)" using assms(3) by (simp add: pow2_def)
  finally have "ilog2 x < 53" using pow2_mono[of 53 "ilog2 x"] by (meson leD leI)
  then have e: "e \<le> 0" by (simp add: e_def)
  have u: "ulp x = pow2 e" by (simp add: ulp_def e_def)
  have one: "(1 :: rat) = of_int (2 ^ nat (- e)) * pow2 e" using pow2_diff[OF e] by (simp add: pow2_def)
  let ?r = "of_int (round_even (x / pow2 e)) * pow2 e"
  have "x / pow2 e \<le> of_int (n * 2 ^ nat (- e))"
    using assms(2) one by (simp add: pos_divide_le_eq mult.assoc)
  then have "round_even (x / pow2 e) \<le> n * 2 ^ nat (- e)" by (rule round_even_le)
  then have "?r \<le> of_int (n * 2 ^ nat (- e)) * pow2 e" by (intro mult_right_mono) (simp_all only: of_int_le_iff pow2_nonneg)
  also have "\<dots> = of_int n" using one by (simp add: mult.assoc)
  finally have up: "?r \<le> of_int n" .
  have lo: "0 \<le> ?r" using x round_even_ge[of 0 "x / pow2 e"] by (intro mult_nonneg_nonneg) simp_all
  have "of_int n < (pow2 1024 :: rat)" using pow2_1024_big[OF assms(3)] .
  with up have "\<not> pow2 1024 \<le> ?r" by linarith
  with up lo x show ?thesis by (auto simp: rnd64_def u Let_def)
qed

lemma f64_nonneg_iff: "0 \<le> x \<longleftrightarrow> x = Inf False \<or> (\<exists>q. x = Fin q \<and> 0 \<le> q)"
  by (cases x) (auto simp: f64_ops)

lemma f64_add_nonneg: "0 \<le> (x :: f64) \<Longrightarrow> 0 \<le> y \<Longrightarrow> 0 \<le> x + y"
  by (cases x; cases y) (simp_all add: f64_nonneg_iff[of "Fin _"] f64_nonneg_iff[of "Inf _"] f64_nonneg_iff[of NaN]
    plus_f64_def rnd64_nonneg)

lemma f64_mul_nonneg: "0 \<le> (x :: f64) \<Longrightarrow> 0 < q \<Longrightarrow> 0 \<le> x * Fin q"
  by (cases x) (simp_all add: f64_nonneg_iff[of "Fin _"] f64_nonneg_iff[of "Inf _"] f64_nonneg_iff[of NaN]
    times_f64_def rnd64_nonneg)

lemma f64_div_nonneg: "0 \<le> x \<Longrightarrow> 0 < q \<Longrightarrow> 0 \<le> f64_div_by x q"
  by (cases x) (simp_all add: f64_nonneg_iff[of "Fin _"] f64_nonneg_iff[of "Inf _"] f64_nonneg_iff[of NaN]
    f64_div_by_def rnd64_nonneg)

lemma duration_seconds_nonneg: "0 \<le> d \<Longrightarrow> 0 \<le> duration_seconds d"
  unfolding duration_seconds_def Let_def f64_of_int_def
  by (intro f64_add_nonneg f64_div_nonneg rnd64_nonneg) (simp_all add: sgn_if)

lemma duration_seconds_zero [simp]: "duration_seconds 0 = 0"
  by (simp add: duration_seconds_def f64_of_int_def f64_div_by_def f64_ops rnd64_def)

lemma elapsed_zero [simp]: "time_sub t t = 0"
  by (simp add: time_sub_def)

section \<open>One bucket\<close>

definition filled :: "int \<Rightarrow> f64 \<Rightarrow> bool" where
  "filled n t \<longleftrightarrow> (\<exists>q. t = Fin q \<and> 0 \<le> q \<and> q \<le> of_int n)"

abbreviation rate_f64 :: "int \<Rightarrow> f64" where
  "rate_f64 n \<equiv> Fin (of_int n)"

lemma filled_int: "0 \<le> n \<Longrightarrow> filled n (rate_f64 n)"
  by (simp add: filled_def)

lemma filled_mono: "filled n t \<Longrightarrow> n \<le> m \<Longrightarrow> filled m t"
  unfolding filled_def by (metis of_int_le_iff order.trans)

lemma f64_min_filled: "0 \<le> x \<Longrightarrow> 0 \<le> n \<Longrightarrow> filled n (f64_min (rate_f64 n) x)"
  by (cases x) (auto simp: f64_min_def filled_def f64_ops)

text \<open>A refill keeps a bucket within its burst, and adds nothing when no time has passed.\<close>

lemma refill_filled:
  assumes "filled n (bk_tokens b)" "bk_at b \<le> now" "0 < per" "0 \<le> burst" "burst < 2 ^ 53"
  shows "filled burst (refill now (rate_f64 per) (rate_f64 burst) b)"
    and "bk_at b = now \<Longrightarrow> n \<le> burst \<Longrightarrow> filled n (refill now (rate_f64 per) (rate_f64 burst) b)"
proof -
  let ?d = "f64_div_by (duration_seconds (time_sub now (bk_at b)) * rate_f64 per) 60"
  from assms(1) obtain q where q: "bk_tokens b = Fin q" "0 \<le> q" "q \<le> of_int n" by (auto simp: filled_def)
  have "0 \<le> time_sub now (bk_at b)" using assms(2) by (simp add: time_sub_def)
  then have "0 \<le> ?d" using assms(3) by (intro f64_div_nonneg f64_mul_nonneg duration_seconds_nonneg) simp_all
  then have "0 \<le> bk_tokens b + ?d" using q by (intro f64_add_nonneg) (simp_all add: f64_nonneg_iff)
  then show "filled burst (refill now (rate_f64 per) (rate_f64 burst) b)"
    using assms(4) unfolding refill_def by (rule f64_min_filled)
  show "filled n (refill now (rate_f64 per) (rate_f64 burst) b)" if n: "bk_at b = now" "n \<le> burst"
  proof -
    have "?d = Fin 0" using n by (simp add: f64_div_by_def f64_ops rnd64_def)
    moreover obtain r where "rnd64 q = Fin r" "0 \<le> r" "r \<le> of_int n"
      using rnd64_le_int[of q n] q n assms(5) by force
    moreover have "(of_int n :: rat) \<le> of_int burst" using n(2) by (simp only: of_int_le_iff)
    ultimately show ?thesis using q(1) by (auto simp: refill_def f64_min_def filled_def f64_ops)
  qed
qed

lemma filled_take:
  assumes "filled n t" "1 \<le> t" "n < 2 ^ 53"
  shows "filled (n - 1) (t + Fin (- 1))"
proof -
  from assms obtain q where q: "t = Fin q" "1 \<le> q" "q \<le> of_int n" by (auto simp: filled_def f64_ops split: if_splits)
  then show ?thesis using rnd64_le_int[of "q - 1" "n - 1"] assms(3) by (auto simp: filled_def plus_f64_def)
qed

section \<open>Runs of the limiter\<close>

text \<open>A call as the server makes it, at the rate that belongs to the key.\<close>

definition allow_rate :: "int \<Rightarrow> string \<Rightarrow> rate \<Rightarrow> buckets \<Rightarrow> buckets \<times> bool" where
  "allow_rate now key r = limiter_allow now key (f64_of_int (rt_per_minute r)) (f64_of_int (rt_burst r))"

fun limiter_run :: "(string \<Rightarrow> rate) \<Rightarrow> (int \<times> string) list \<Rightarrow> buckets \<Rightarrow> buckets \<times> bool list" where
  "limiter_run R [] keys = (keys, [])"
| "limiter_run R ((now, key) # calls) keys =
     (let (keys1, ok) = allow_rate now key (R key) keys; (keys2, oks) = limiter_run R calls keys1
      in (keys2, ok # oks))"

fun granted :: "int \<Rightarrow> string \<Rightarrow> (int \<times> string) list \<Rightarrow> bool list \<Rightarrow> int" where
  "granted t k (c # calls) (ok # oks) = (if c = (t, k) \<and> ok then 1 else 0) + granted t k calls oks"
| "granted t k _ _ = 0"

definition limiter_ok :: "(string \<Rightarrow> rate) \<Rightarrow> int \<Rightarrow> buckets \<Rightarrow> bool" where
  "limiter_ok R now keys \<longleftrightarrow> wfm keys \<and> length keys \<le> 10000
     \<and> (\<forall>k b. mget keys k = Some b \<longrightarrow> bk_at b \<le> now \<and> filled (rt_burst (R k)) (bk_tokens b))"

text \<open>What a key may still be granted at an instant.\<close>

definition room :: "(string \<Rightarrow> rate) \<Rightarrow> buckets \<Rightarrow> int \<Rightarrow> string \<Rightarrow> int \<Rightarrow> bool" where
  "room R keys t k n \<longleftrightarrow> (case mget keys k of
       Some b \<Rightarrow> if bk_at b = t then filled n (bk_tokens b) \<and> n \<le> rt_burst (R k) else n = rt_burst (R k)
     | None \<Rightarrow> n = rt_burst (R k))"

lemma f64_of_int_small: "0 < n \<Longrightarrow> n < 2 ^ 53 \<Longrightarrow> f64_of_int n = rate_f64 n"
  using is_f64_int[of n] by (simp add: f64_of_int_def is_f64_def)

lemma allow_rate_eq:
  assumes "rate_bounded r"
  shows "allow_rate now key r = limiter_allow now key (rate_f64 (rt_per_minute r)) (rate_f64 (rt_burst r))"
  using assms by (simp add: allow_rate_def f64_of_int_small rate_bounded_def)

lemma limiter_take_ok:
  assumes ok: "limiter_ok R t0 keys" "t0 \<le> now" and r: "rate_bounded (R key)"
    and b: "filled n (bk_tokens b)" "bk_at b \<le> now" "n \<le> rt_burst (R key)"
    and l: "mget keys key \<noteq> None \<or> length keys < 10000"
    and t: "limiter_take now key (rate_f64 (rt_per_minute (R key))) (rate_f64 (rt_burst (R key))) b keys = (keys', ok')"
    and m: "m = (if bk_at b = now then n else rt_burst (R key))"
  shows "limiter_ok R now keys'" "\<exists>b'. mget keys' key = Some b' \<and> bk_at b' = now
      \<and> filled (m - (if ok' then 1 else 0)) (bk_tokens b')" "k \<noteq> key \<Longrightarrow> mget keys' k = mget keys k"
proof -
  let ?B = "rt_burst (R key)"
  let ?t = "refill now (rate_f64 (rt_per_minute (R key))) (rate_f64 ?B) b"
  let ?b = "\<lparr>bk_tokens = (if 1 \<le> ?t then ?t + Fin (- 1) else ?t), bk_at = now\<rparr>"
  have k: "keys' = mput key ?b keys" "ok' = (1 \<le> ?t)" using t by (auto simp: limiter_take_def Let_def)
  have B: "0 < rt_per_minute (R key)" "0 \<le> ?B" "?B < 2 ^ 53" using r by (simp_all add: rate_bounded_def)
  have f: "filled m ?t" "m \<le> ?B"
    using refill_filled[OF b(1,2) B] b(3) by (simp_all add: m)
  have f': "filled (m - (if ok' then 1 else 0)) (bk_tokens ?b)"
    using f filled_take[OF f(1)] B(3) k(2) by simp
  show "\<exists>b'. mget keys' key = Some b' \<and> bk_at b' = now \<and> filled (m - (if ok' then 1 else 0)) (bk_tokens b')"
    using f' by (simp add: k(1) map_simps)
  show "k \<noteq> key \<Longrightarrow> mget keys' k = mget keys k" by (simp add: k(1) map_simps)
  have "filled ?B (bk_tokens ?b)" using filled_mono[OF f'] f(2) by simp
  moreover have "length keys' \<le> 10000"
    using gm.size_put[of keys key ?b] ok(1) l by (auto simp: limiter_ok_def k(1) split: if_splits)
  ultimately show "limiter_ok R now keys'"
    using ok by (auto simp: limiter_ok_def k(1) map_simps gm.wf_put split: if_splits) (meson order.trans)+
qed


lemma limiter_purge_ok:
  assumes "limiter_ok R t0 keys"
  shows "limiter_ok R t0 (filter (\<lambda>(k, v). P v) keys)"
  using assms mget_filter[of keys "\<lambda>k v. P v"] wfm_filter[of keys]
  by (auto simp: limiter_ok_def intro: order.trans[OF length_filter_le] split: option.splits if_splits)

lemma allow_step:
  assumes ok: "limiter_ok R t0 keys" "t0 \<le> now" and r: "\<And>k. rate_bounded (R k)"
    and a: "allow_rate now key (R key) keys = (keys', ok')"
  shows "limiter_ok R now keys'"
    and "now \<le> t \<Longrightarrow> room R keys t k n \<Longrightarrow> \<exists>m. room R keys' t k m \<and> m + (if now = t \<and> key = k \<and> ok' then 1 else 0) \<le> n"
proof -
  let ?keys = "filter (\<lambda>(k, v). \<not> time_sub now (bk_at v) > 5 * minute) keys"
  let ?fresh = "\<lparr>bk_tokens = rate_f64 (rt_burst (R key)), bk_at = now\<rparr>"
  let ?take = "\<lambda>b. limiter_take now key (rate_f64 (rt_per_minute (R key))) (rate_f64 (rt_burst (R key))) b"
  have wf: "wfm keys" and le: "\<And>k b. mget keys k = Some b \<Longrightarrow> bk_at b \<le> now \<and> filled (rt_burst (R k)) (bk_tokens b)"
    using ok by (auto simp: limiter_ok_def) (meson order.trans)
  have fr: "filled (rt_burst (R key)) (bk_tokens ?fresh)"
    using r[of key] by (simp add: filled_int rate_bounded_def)
  have purge: "limiter_ok R t0 ?keys" by (rule limiter_purge_ok[OF ok(1)])
  have pr: "room R keys t k n \<longleftrightarrow> room R ?keys t k n" if "now \<le> t" for k n
    using that by (auto simp: room_def mget_filter[OF wf] time_sub_def minute_def split: option.splits if_splits)
  have taken: "limiter_ok R now keys' \<and> (now \<le> t \<longrightarrow> room R keys t k n \<longrightarrow>
      (\<exists>m. room R keys' t k m \<and> m + (if now = t \<and> key = k \<and> ok' then 1 else 0) \<le> n))"
    if t: "?take b ks = (keys', ok')" and l: "limiter_ok R t0 ks" "mget ks key \<noteq> None \<or> length ks < 10000"
      and b: "filled (rt_burst (R key)) (bk_tokens b)" "bk_at b \<le> now"
        "case mget ks key of Some b' \<Rightarrow> b' = b | None \<Rightarrow> b = ?fresh"
      and pr: "\<And>k n. now \<le> t \<Longrightarrow> room R keys t k n \<longleftrightarrow> room R ks t k n" for b ks
  proof -
    have 1: "limiter_ok R now keys'" by (rule limiter_take_ok(1)[OF l(1) ok(2) r b(1,2) order.refl l(2) t refl])
    have other: "k \<noteq> key \<Longrightarrow> mget keys' k = mget ks k"
      by (rule limiter_take_ok(3)[OF l(1) ok(2) r b(1,2) order.refl l(2) t refl])
    have "\<exists>m. room R keys' t k m \<and> m + (if now = t \<and> key = k \<and> ok' then 1 else 0) \<le> n"
      if h: "now \<le> t" "room R keys t k n"
    proof (cases "k = key")
      case False
      with other pr[OF h(1)] h(2) show ?thesis by (auto simp: room_def split: option.splits)
    next
      case True
      with h(2) pr[OF h(1)] b(1,3) h(1) b(2) have n: "n = rt_burst (R key) \<or> bk_at b = now \<and> filled n (bk_tokens b) \<and> n \<le> rt_burst (R key)"
        by (auto simp: room_def split: option.splits if_splits)
      have nB: "n \<le> rt_burst (R key)" and fn: "n = rt_burst (R key) \<or> bk_at b = now" "filled n (bk_tokens b)"
        using n b(1) by auto
      obtain b' where b': "mget keys' key = Some b'" "bk_at b' = now" "filled (n - (if ok' then 1 else 0)) (bk_tokens b')"
        using limiter_take_ok(2)[OF l(1) ok(2) r fn(2) b(2) nB l(2) t refl] fn(1) by (auto split: if_splits)
      show ?thesis
      proof (cases "now = t")
        case True
        with b' nB \<open>k = key\<close> show ?thesis
          by (intro exI[of _ "n - (if ok' then 1 else 0)"]) (auto simp: room_def)
      next
        case False
        with h(2) pr[OF h(1)] b(3) True b(2) h(1) have "n = rt_burst (R key) \<or> bk_at b = t" by (auto simp: room_def split: option.splits if_splits)
        with False b(2) h(1) b' True show ?thesis by (intro exI[of _ n]) (auto simp: room_def)
      qed
    qed
    with 1 show ?thesis by blast
  qed
  have "limiter_ok R now keys' \<and> (now \<le> t \<longrightarrow> room R keys t k n \<longrightarrow>
      (\<exists>m. room R keys' t k m \<and> m + (if now = t \<and> key = k \<and> ok' then 1 else 0) \<le> n))"
  proof (cases "mget keys key")
    case (Some b)
    with a have "?take b keys = (keys', ok')" by (simp add: allow_rate_eq[OF r] limiter_allow_def)
    from taken[OF this ok(1)] Some le show ?thesis by simp
  next
    case None
    have n: "mget ?keys key = None" using None mget_filter[OF wf] by simp
    consider "length keys < 10000" "?take ?fresh keys = (keys', ok')"
      | "length ?keys < 10000" "?take ?fresh ?keys = (keys', ok')" | "keys' = ?keys" "\<not> ok'"
      using a None by (auto simp: allow_rate_eq[OF r] limiter_allow_def Let_def not_le split: if_splits)
    then show ?thesis
    proof cases
      case 1
      from taken[OF 1(2) ok(1)] 1(1) None fr show ?thesis by simp
    next
      case 2
      from taken[OF 2(2) purge] 2(1) n fr pr show ?thesis by simp
    next
      case 3
      have "limiter_ok R now ?keys" using purge ok(2) by (auto simp: limiter_ok_def)  (meson order.trans)
      with 3 pr show ?thesis by auto
    qed
  qed
  then show "limiter_ok R now keys'"
    and "now \<le> t \<Longrightarrow> room R keys t k n \<Longrightarrow> \<exists>m. room R keys' t k m \<and> m + (if now = t \<and> key = k \<and> ok' then 1 else 0) \<le> n"
    by blast+
qed

lemma room_nonneg: "rate_bounded (R k) \<Longrightarrow> room R keys t k n \<Longrightarrow> 0 \<le> n"
  by (auto simp: room_def filled_def rate_bounded_def split: option.splits if_splits)

lemma limiter_run_ok:
  assumes "limiter_ok R t0 keys" "sorted (t0 # map fst calls)" "\<And>k. rate_bounded (R k)"
    "limiter_run R calls keys = (keys', oks)"
  shows "limiter_ok R (last (t0 # map fst calls)) keys'" "t0 \<le> t \<Longrightarrow> room R keys t k n \<Longrightarrow> granted t k calls oks \<le> n"
  using assms
proof (induction calls arbitrary: t0 keys n oks)
  case Nil
  { case 1 then show ?case by auto }
  { case 2 then show ?case using room_nonneg[OF 2(5) 2(2)] by auto }
next
  case (Cons c calls)
  obtain now key where c: "c = (now, key)" by force
  { case 1
    obtain keys1 ok where a: "allow_rate now key (R key) keys = (keys1, ok)" by force
    obtain oks1 where o: "limiter_run R calls keys1 = (keys', oks1)" using 1(4) c a by (auto split: prod.splits)
    have "t0 \<le> now" using 1(2) c by simp
    from allow_step(1)[OF 1(1) this 1(3) a] have "limiter_ok R now keys1" .
    from Cons.IH(1)[OF this _ 1(3) o] 1(2) c show ?case by simp }
  { case 2
    obtain keys1 ok where a: "allow_rate now key (R key) keys = (keys1, ok)" by force
    obtain oks1 where o: "limiter_run R calls keys1 = (keys', oks1)" "oks = ok # oks1"
      using 2(6) c a by (auto split: prod.splits)
    have le: "t0 \<le> now" using 2(4) c by simp
    from allow_step(1)[OF 2(3) le 2(5) a] have k1: "limiter_ok R now keys1" .
    show ?case
    proof (cases "now \<le> t")
      case True
      from allow_step(2)[OF 2(3) le 2(5) a True 2(2)] obtain m where m: "room R keys1 t k m"
        "m + (if now = t \<and> key = k \<and> ok then 1 else 0) \<le> n" by auto
      from Cons.IH(2)[OF True m(1) k1 _ 2(5) o(1)] 2(4) c m(2) o(2) show ?thesis by (auto split: if_splits)
    next
      case False
      have "granted t k cs os = 0" if "\<forall>c\<in>set cs. t < fst c" for cs os
        using that by (induction t k cs os rule: granted.induct) auto
      moreover have "\<forall>c'\<in>set (c # calls). t < fst c'" using False 2(4) c by fastforce
      ultimately show ?thesis using room_nonneg[OF 2(5) 2(2)] by simp
    qed }
qed

text \<open>At one instant a new key gets its burst and nothing more.\<close>

lemma limiter_burst:
  assumes r: "\<And>k. rate_bounded (R k)" and w: "0 \<le> m" "m \<le> rt_burst (R k)"
    "mget keys k = Some \<lparr>bk_tokens = rate_f64 m, bk_at = t\<rparr>"
  shows "snd (limiter_run R (replicate n (t, k)) keys) = replicate (min n (nat m)) True @ replicate (n - nat m) False"
  using w
proof (induction n arbitrary: m keys)
  case (Suc n)
  let ?B = "rt_burst (R k)"
  have B: "?B < 2 ^ 53" "m < 2 ^ 53" using r[of k] Suc.prems by (simp_all add: rate_bounded_def)
  have i: "rnd64 (of_int i) = Fin (of_int i)" if "0 \<le> i" "i < 2 ^ 53" for i
    using is_f64_int[of i] that by (cases "i = 0") (simp_all add: is_f64_def rnd64_def)
  have "f64_div_by (duration_seconds (time_sub t t) * rate_f64 (rt_per_minute (R k))) 60 = Fin 0"
    by (simp add: f64_div_by_def f64_ops rnd64_def)
  then have t: "refill t (rate_f64 (rt_per_minute (R k))) (rate_f64 ?B) \<lparr>bk_tokens = rate_f64 m, bk_at = t\<rparr> = rate_f64 m"
    using i[OF Suc.prems(1) B(2)] Suc.prems(2) by (auto simp: refill_def f64_min_def f64_ops)
  show ?case
  proof (cases "1 \<le> m")
    case True
    have "rate_f64 m + Fin (- 1) = rate_f64 (m - 1)" using i[of "m - 1"] True B(2) by (simp add: plus_f64_def)
    moreover have "1 \<le> rate_f64 m" using True by (auto simp: f64_ops)
    ultimately obtain keys' where a: "allow_rate t k (R k) keys = (keys', True)"
      "mget keys' k = Some \<lparr>bk_tokens = rate_f64 (m - 1), bk_at = t\<rparr>"
      using Suc.prems(3) by (simp add: allow_rate_eq[OF r] limiter_allow_def limiter_take_def t map_simps)
    from Suc.IH[OF _ _ a(2)] True Suc.prems(2) obtain j where "nat m = Suc j"
      "snd (limiter_run R (replicate n (t, k)) keys') = replicate (min n j) True @ replicate (n - j) False"
      by (cases "nat m") (auto simp: nat_diff_distrib')
    with a(1) show ?thesis by (auto split: prod.splits)
  next
    case False
    with Suc.prems(1) have m: "m = 0" by simp
    then have "\<not> 1 \<le> rate_f64 m" by (auto simp: f64_ops)
    then obtain keys' where a: "allow_rate t k (R k) keys = (keys', False)"
      "mget keys' k = Some \<lparr>bk_tokens = rate_f64 0, bk_at = t\<rparr>"
      using Suc.prems(3) m by (simp add: allow_rate_eq[OF r] limiter_allow_def limiter_take_def t[unfolded m, simplified] map_simps)
    from Suc.IH[OF _ _ a(2)] r[of k] a(1) m show ?thesis by (auto simp: rate_bounded_def split: prod.splits)
  qed
qed simp

lemma limiter_first:
  assumes r: "\<And>k. rate_bounded (R k)"
  shows "snd (limiter_run R (replicate n (t, k)) []) = replicate (min n (nat (rt_burst (R k)))) True
    @ replicate (n - nat (rt_burst (R k))) False"
proof -
  let ?keys = "[(k, \<lparr>bk_tokens = rate_f64 (rt_burst (R k)), bk_at = t\<rparr>)]"
  have "allow_rate t k (R k) [] = allow_rate t k (R k) ?keys"
    by (simp add: allow_rate_eq[OF r] limiter_allow_def limiter_take_def)
  then have "snd (limiter_run R (replicate n (t, k)) []) = snd (limiter_run R (replicate n (t, k)) ?keys)"
    by (cases n) simp_all
  also have "\<dots> = replicate (min n (nat (rt_burst (R k)))) True @ replicate (n - nat (rt_burst (R k))) False"
    using r[of k] by (intro limiter_burst[OF r]) (simp_all add: rate_bounded_def)
  finally show ?thesis .
qed

text \<open>C29: whatever requests arrive in whatever order, the limiter keeps at most 10000 keys, every bucket holds
  between zero tokens and the burst of its key, and at any instant no key is granted more than its burst;
  a key that was never seen is granted exactly its burst.
\<close>
theorem limiter_bounded:
  assumes "limiter_run R calls [] = (keys, oks)" and "sorted (map fst calls)" and "\<And>k. rate_bounded (R k)"
  shows "length keys \<le> 10000
    \<and> (\<forall>k b. mget keys k = Some b \<longrightarrow> (\<exists>q. bk_tokens b = Fin q \<and> 0 \<le> q \<and> q \<le> of_int (rt_burst (R k))))
    \<and> granted t k calls oks \<le> rt_burst (R k)
    \<and> snd (limiter_run R (replicate n (t, k)) []) = replicate (min n (nat (rt_burst (R k)))) True
        @ replicate (n - nat (rt_burst (R k))) False"
proof -
  define t0 where "t0 = min t (if calls = [] then t else fst (hd calls))"
  have t0: "limiter_ok R t0 []" "sorted (t0 # map fst calls)" "t0 \<le> t" "room R [] t k (rt_burst (R k))"
    using assms(2) by (cases calls; auto simp: t0_def limiter_ok_def room_def)+
  note ok = limiter_run_ok(1)[OF t0(1,2) assms(3,1)] limiter_run_ok(2)[OF t0(1,2) assms(3,1) t0(3,4)]
  then show ?thesis using limiter_first[OF assms(3)] by (auto simp: limiter_ok_def filled_def)
qed

text \<open>Two tokens per key: the third call of the instant is refused.\<close>

theorem limiter_bounded_witness:
  "\<exists>keys. limiter_run (\<lambda>k. rate_of 60 2) (replicate 3 (0, ''a'')) [] = (keys, [True, True, False])
    \<and> length keys \<le> 10000 \<and> granted 0 ''a'' (replicate 3 (0, ''a'')) [True, True, False] \<le> 2"
proof -
  obtain keys oks where r: "limiter_run (\<lambda>k. rate_of 60 2) (replicate 3 (0, ''a'')) [] = (keys, oks)" by force
  have R: "rate_bounded (rate_of 60 2)" by (simp add: rate_bounded_def)
  have "oks = [True, True, False]"
    using limiter_bounded[OF r _ R, of 0 "''a''" 3] r by (simp add: numeral_eq_Suc)
  with r limiter_bounded[OF r _ R, of 0 "''a''" 3] show ?thesis by simp
qed

end
