(* ===== verification/Web.thy ===== *)
theory Web
  imports Studio Limiter
begin

text \<open>
  \<open>internal/web\<close>: the HTTP handlers. A handler runs concurrently with others and calls the studio, the
  limiter, the queue and the object store in between, so it is a tree: a node is a call and has one
  continuation per answer, a leaf is the response. A theorem about all paths of a tree holds for every
  interleaving of requests. The \<open>http.ResponseWriter\<close> is a response that the code builds up.
\<close>

section \<open>Strings\<close>

definition has_prefix :: "string \<Rightarrow> string \<Rightarrow> bool" where
  "has_prefix p s \<longleftrightarrow> take (length p) s = p"

definition trim_prefix :: "string \<Rightarrow> string \<Rightarrow> string" where
  "trim_prefix p s = (if has_prefix p s then drop (length p) s else s)"

definition trim_char :: "char \<Rightarrow> string \<Rightarrow> string" where
  "trim_char c s = rev (dropWhile ((=) c) (rev (dropWhile ((=) c) s)))"

fun split_char :: "char \<Rightarrow> string \<Rightarrow> string list" where
  "split_char c [] = ['''']"
| "split_char c (x # xs) = (if x = c then '''' # split_char c xs
     else case split_char c xs of [] \<Rightarrow> [[x]] | p # ps \<Rightarrow> (x # p) # ps)"

text \<open>\<open>strconv.Atoi\<close>.\<close>

definition atoi :: "string \<Rightarrow> int option" where
  "atoi s = (let (neg, ds) = (case s of c # cs \<Rightarrow> if c = CHR ''-'' then (True, cs)
         else if c = CHR ''+'' then (False, cs) else (False, s) | [] \<Rightarrow> (False, s)) in
     if ds = '''' then None
     else case parse_digits 0 ds of
         None \<Rightarrow> None
       | Some n \<Rightarrow> let i = (if neg then - int n else int n) in
           if - (2 ^ 63) \<le> i \<and> i < 2 ^ 63 then Some i else None)"

section \<open>Requests and configuration\<close>

text \<open>
  \<open>netip.Addr\<close> with \<open>Unmap\<close>. Parsing and printing of addresses, the JSON of a recovery file and of a
  snapshot are arguments.
\<close>

datatype addr = V4 "32 word" | V6 "128 word" string

definition unmap :: "addr \<Rightarrow> addr" where
  "unmap a = (case a of V4 w \<Rightarrow> a
     | V6 w zone \<Rightarrow> if drop_bit 32 w = 0xffff then V4 (ucast w) else a)"

record weblib =
  wl_go :: golib
  wl_split_host :: "string \<Rightarrow> string option"
  wl_parse_addr :: "string \<Rightarrow> addr option"
  wl_show_addr :: "addr \<Rightarrow> string"
  wl_recovery :: "string \<Rightarrow> (int \<times> string list) res"
  wl_marshal :: "view \<Rightarrow> string res"

text \<open>
  A request: \<open>rq_form\<close> is what \<open>ParseForm\<close> leaves in \<open>PostForm\<close>, \<open>None\<close> when it fails, \<open>rq_token\<close> the
  token that \<open>studio.Token\<close> draws for the next action of a page, and \<open>rq_wakeups\<close> how often an event stream
  wakes up before the client is gone.
\<close>

record http_request =
  rq_method :: string
  rq_host :: string
  rq_uri :: string
  rq_path :: string
  rq_query :: string
  rq_remote :: string
  rq_header :: "string \<Rightarrow> string"
  rq_cookie :: "string \<Rightarrow> string option"
  rq_form :: "(string, string list) gomap option"
  rq_token :: string
  rq_wakeups :: nat

text \<open>The application: which of its optional dependencies are present, and the asset hashes.\<close>

record web_app =
  wc_origin :: string
  wc_host :: string
  wc_secure :: bool
  wc_persistent :: bool
  wc_database :: bool
  wc_jobs :: bool
  wc_events :: bool
  wc_proxy :: "addr option"
  wc_limits :: policy
  wc_hashes :: "(string, string) gomap"

definition cookie_name :: "web_app \<Rightarrow> string" where
  "cookie_name C = (if wc_secure C then ''__Host-art-studio'' else ''art-studio'')"

text \<open>
  \<open>New\<close>: \<open>url\<close> is the scheme, host, path and user of the parsed origin, \<open>check\<close> the result of
  \<open>publish.Check\<close> and \<open>hashes\<close> the checked assets. With a database the limits are the database's.
\<close>

definition web_new :: "(string \<times> string \<times> string \<times> bool) option \<Rightarrow> bool \<Rightarrow> err option \<Rightarrow> (string, string) gomap res
    \<Rightarrow> web_app \<Rightarrow> web_app res" where
  "web_new url studio check hashes c =
     (let c1 = (if \<not> wc_database c \<and> p_profile (wc_limits c) = ''''
            then c\<lparr>wc_limits := (case policy_defaults ''production'' of Inr p \<Rightarrow> p | Inl e \<Rightarrow> wc_limits c)\<rparr> else c) in
      case policy_validate (wc_limits c1) of Some e \<Rightarrow> Inl e | None \<Rightarrow>
      (case url of None \<Rightarrow> Inl (ErrMsg ''invalid canonical origin'')
       | Some (scheme, host, path, user) \<Rightarrow>
           if host = '''' \<or> scheme \<noteq> ''http'' \<and> scheme \<noteq> ''https'' \<or> path \<noteq> '''' \<or> user
           then Inl (ErrMsg ''invalid canonical origin'')
           else if \<not> studio then Inl (ErrMsg ''missing studio'')
           else case check of Some e \<Rightarrow> Inl e | None \<Rightarrow> bind_res hashes (\<lambda>h. Inr (c1\<lparr>wc_host := host, wc_secure := (scheme = ''https''), wc_hashes := h\<rparr>))))"

definition web_client :: "weblib \<Rightarrow> web_app \<Rightarrow> http_request \<Rightarrow> string" where
  "web_client W C rq = (case Option.bind (wl_split_host W (rq_remote rq)) (wl_parse_addr W) of
       None \<Rightarrow> ''unknown''
     | Some ip \<Rightarrow>
         let ip' = (case wc_proxy C of
               Some proxy \<Rightarrow>
                 if unmap ip = unmap proxy
                 then (case wl_parse_addr W (rq_header rq ''X-Art-Client'') of Some candidate \<Rightarrow> candidate | None \<Rightarrow> ip)
                 else ip
             | None \<Rightarrow> ip)
         in wl_show_addr W (unmap ip'))"

section \<open>The catalogue's assets\<close>

text \<open>
  \<open>catalogueAssets\<close>: the embedded files are a map from names to bytes, \<open>png\<close> reads the size of an image, and
  \<open>dec\<close> decodes the list of examples.
\<close>

record example =
  ex_file :: string
  ex_recipe :: string
  ex_sha256 :: string
  ex_width :: int
  ex_height :: int
  ex_alt :: string
  ex_provenance :: string

fun check_examples :: "golib \<Rightarrow> (string, string) gomap \<Rightarrow> (string \<Rightarrow> (int \<times> int) option) \<Rightarrow> string list
    \<Rightarrow> example list \<Rightarrow> string list res" where
  "check_examples L files png known [] = Inr known"
| "check_examples L files png known (e # es) =
     (if ex_file e \<in> set known \<or> CHR ''/'' \<in> set (ex_file e) then Inl (ErrMsg ''invalid catalogue file'')
      else case mget files (ex_file e) of
          None \<Rightarrow> Inl ErrNotExist
        | Some b \<Rightarrow>
            if gl_sha256 L b \<noteq> ex_sha256 e then Inl (ErrMsg ''catalogue image digest mismatch'')
            else if png b \<noteq> Some (ex_width e, ex_height e) then Inl (ErrMsg ''catalogue dimensions mismatch'')
            else case publish_validate L (ex_recipe e) of
                Inl err \<Rightarrow> Inl err
              | Inr _ \<Rightarrow>
                  if ex_alt e = '''' \<or> ex_provenance e = '''' then Inl (ErrMsg ''catalogue provenance missing'')
                  else check_examples L files png (ex_file e # known) es)"

definition missing_example :: "string list \<Rightarrow> entry \<Rightarrow> err option" where
  "missing_example known e =
     (if en_id e @ ''-hero.png'' \<notin> set known then Some (ErrMsg ''missing hero'')
      else if list_ex (\<lambda>c. en_id e @ ''-'' @ ch_id c @ ''.png'' \<notin> set known) (en_styles e)
      then Some (ErrMsg ''missing style example'')
      else if list_ex (\<lambda>c. en_id e @ ''-'' @ co_id c @ ''.png'' \<notin> set known) (en_colours e)
      then Some (ErrMsg ''missing colour example'')
      else None)"

definition catalogue_assets :: "golib \<Rightarrow> (string \<Rightarrow> example list res) \<Rightarrow> (string, string) gomap
    \<Rightarrow> (string \<Rightarrow> (int \<times> int) option) \<Rightarrow> (string, string) gomap res" where
  "catalogue_assets L dec files png = (case mget files ''catalogue.json'' of
       None \<Rightarrow> Inl ErrNotExist
     | Some raw \<Rightarrow>
         bind_res (strict_json L dec raw) (\<lambda>examples.
         bind_res (check_examples L files png [] examples) (\<lambda>known.
           case List.map_filter (missing_example known) all_entries of
             e # _ \<Rightarrow> Inl e
           | [] \<Rightarrow> Inr (map (\<lambda>(name, b). (name, take 12 (gl_sha256 L b))) files))))"

section \<open>Responses\<close>

text \<open>The data of a page; the templates that print it are not modelled.\<close>

record page =
  pg_title :: string
  pg_kind :: string
  pg_message :: string
  pg_csrf :: string
  pg_action :: string
  pg_entry :: "entry option"
  pg_entries :: "entry list"
  pg_exploration :: "view option"
  pg_samples :: "sample list"
  pg_sample :: "sample option"
  pg_active :: bool
  pg_ready :: int
  pg_previous :: "sample list"
  pg_batch :: string
  pg_style_name :: string
  pg_colour_name :: string
  pg_style_image :: string
  pg_colour_image :: string
  pg_favourites :: "favourite list"
  pg_failed :: bool

definition new_page :: "string \<Rightarrow> string \<Rightarrow> page" where
  "new_page title kind = \<lparr>pg_title = title, pg_kind = kind, pg_message = '''', pg_csrf = '''', pg_action = '''',
     pg_entry = None, pg_entries = [], pg_exploration = None, pg_samples = [], pg_sample = None,
     pg_active = False, pg_ready = 0, pg_previous = [], pg_batch = '''', pg_style_name = '''',
     pg_colour_name = '''', pg_style_image = '''', pg_colour_image = '''', pg_favourites = [], pg_failed = False\<rparr>"

text \<open>
  What is written after the headers. A file or bytes go through \<open>http.ServeContent\<close>, which may still
  answer a conditional or range request; an asset goes to the embedded file server; a stream has sent its
  events before.
\<close>

datatype http_body = NoBody | Text string | Page page | Fragment page | RecoveryFile "string list"
  | Asset string | File nat | Bytes string

text \<open>A cookie: its name, value, path, lifetime in seconds, and the attributes \<open>Secure\<close>, \<open>HttpOnly\<close> and \<open>SameSite\<close>.\<close>

record cookie =
  ck_name :: string
  ck_value :: string
  ck_path :: string
  ck_age :: int
  ck_secure :: bool
  ck_http_only :: bool
  ck_same_site :: string

record http_response =
  hr_status :: int
  hr_headers :: "(string, string) gomap"
  hr_cookies :: "cookie list"
  hr_body :: http_body

definition set_header :: "string \<Rightarrow> string \<Rightarrow> http_response \<Rightarrow> http_response" where
  "set_header k v w = w\<lparr>hr_headers := mput k v (hr_headers w)\<rparr>"

text \<open>\<open>http.Error\<close>, \<open>http.NotFound\<close>, and \<open>http.Redirect\<close> with the target it is given.\<close>

definition http_error :: "http_response \<Rightarrow> string \<Rightarrow> int \<Rightarrow> http_response" where
  "http_error w msg code = (set_header ''X-Content-Type-Options'' ''nosniff''
     (set_header ''Content-Type'' ''text/plain; charset=utf-8'' w))\<lparr>hr_status := code, hr_body := Text msg\<rparr>"

definition not_found :: "http_response \<Rightarrow> http_response" where
  "not_found w = http_error w ''404 page not found'' 404"

definition redirect :: "http_response \<Rightarrow> string \<Rightarrow> http_response" where
  "redirect w target = (set_header ''Location'' target w)\<lparr>hr_status := 303\<rparr>"

definition web_page :: "http_request \<Rightarrow> http_response \<Rightarrow> page \<Rightarrow> http_response" where
  "web_page rq w p = (let w1 = set_header ''Content-Type'' ''text/html; charset=utf-8'' w in
     if rq_method rq = ''HEAD'' then w1 else w1\<lparr>hr_body := Page p\<rparr>)"

definition web_fail :: "http_request \<Rightarrow> http_response \<Rightarrow> int \<Rightarrow> string \<Rightarrow> http_response" where
  "web_fail rq w status message =
     (let w1 = (if status = 429 \<or> status = 503 then set_header ''Retry-After'' ''10'' w else w);
          w2 = (set_header ''Content-Type'' ''text/html; charset=utf-8'' w1)\<lparr>hr_status := status\<rparr> in
      web_page rq w2 ((new_page ''A moment to pause'' ''error'')\<lparr>pg_message := message\<rparr>))"

definition err_text :: "err \<Rightarrow> string" where
  "err_text e = (case e of
       ErrBusy \<Rightarrow> ''generation is busy; try again shortly''
     | ErrExpired \<Rightarrow> ''these images are no longer available; choose an art form to begin again''
     | ErrConflict \<Rightarrow> ''your choices changed in another tab; refresh this page and try again''
     | ErrUnavailable \<Rightarrow> ''the studio storage is temporarily unavailable; please try again''
     | ErrNotExist \<Rightarrow> ''file does not exist''
     | ErrContext \<Rightarrow> ''context canceled''
     | ErrMsg s \<Rightarrow> s)"

definition fail_error :: "http_request \<Rightarrow> http_response \<Rightarrow> err \<Rightarrow> int \<Rightarrow> http_response" where
  "fail_error rq w e fallback =
     (if e = ErrUnavailable then web_fail rq w 503 (err_text ErrUnavailable) else web_fail rq w fallback (err_text e))"

text \<open>\<open>persistence.Lifetime\<close> is 90 days.\<close>

definition web_set_cookie :: "web_app \<Rightarrow> string \<Rightarrow> http_response \<Rightarrow> http_response" where
  "web_set_cookie C token w = w\<lparr>hr_cookies := hr_cookies w @ [\<lparr>ck_name = cookie_name C, ck_value = token,
     ck_path = ''/'', ck_age = (if token = '''' then - 1 else 90 * 24 * 60 * 60), ck_secure = wc_secure C,
     ck_http_only = True, ck_same_site = ''Lax''\<rparr>]\<rparr>"

definition security_policy :: string where
  "security_policy = ''default-src 'self'; script-src 'self'; style-src 'self'; img-src 'self'; font-src 'self'; connect-src 'self'; object-src 'none'; base-uri 'none'; frame-ancestors 'none'; form-action 'self'' @ [char_of (39 :: nat)]"

definition new_response :: http_response where
  "new_response = \<lparr>hr_status = 200,
     hr_headers = [(''Content-Security-Policy'', security_policy),
       (''X-Content-Type-Options'', ''nosniff''), (''Referrer-Policy'', ''same-origin''),
       (''Permissions-Policy'', ''camera=(), microphone=(), geolocation=(), web-share=(self)''),
       (''Cache-Control'', ''private, no-store'')],
     hr_cookies = [], hr_body = NoBody\<rparr>"

section \<open>Handlers\<close>

text \<open>
  The calls of a handler, by the type of their answer: the interface \<open>Studio\<close>, the limiters in memory and
  in the database, the counting channels, and the readers of images. \<open>Release\<close> and \<open>CloseFile\<close> give back
  what an earlier answer granted.
\<close>

datatype done_call =
    CallChoices string string int string string
  | CallFavourite string string string int bool
  | CallCancel string string int string
  | CallDownload string string string
  | CallClear string
  | CallTouch string
  | CallMissing string string
  | CallSchema

datatype pair_call = CallCreate | CallSession string

datatype text_call =
    CallEnter string string string string string
  | CallRestore string "string list"
  | CallRetry string string int string string
  | CallGenerate string string int string "string list" bool

datatype slot = Active | Streams | Images | ImageBytes int

datatype give_back = Release slot | CloseFile nat

record artifact_meta =
  am_key :: string
  am_digest :: string
  am_size :: int

datatype handler =
    Reply http_response
  | AskDone done_call "err option \<Rightarrow> handler"
  | AskPair pair_call "(string \<times> string) res \<Rightarrow> handler"
  | AskText text_call "string res \<Rightarrow> handler"
  | AskView string string "view res \<Rightarrow> handler"
  | AskFavourites string "favourite list res \<Rightarrow> handler"
  | AskRecovery string "string list res \<Rightarrow> handler"
  | AskRate string rate "bool \<Rightarrow> handler"
  | AskShared string rate "bool res \<Rightarrow> handler"
  | AskSlot slot int "bool \<Rightarrow> handler"
  | AskOpen string "(nat \<times> string) res \<Rightarrow> handler"
  | AskStat nat "bool \<Rightarrow> handler"
  | AskMeta string "artifact_meta res \<Rightarrow> handler"
  | AskObject string string int "string res \<Rightarrow> handler"
  | AskSend string "bool \<Rightarrow> handler"
  | Tell give_back handler

text \<open>Go's \<open>defer\<close>: something is given back after the rest of the handler.\<close>

primrec deferring :: "give_back \<Rightarrow> handler \<Rightarrow> handler" where
  "deferring g (Reply r) = Tell g (Reply r)"
| "deferring g (AskDone c k) = AskDone c (\<lambda>a. deferring g (k a))"
| "deferring g (AskPair c k) = AskPair c (\<lambda>a. deferring g (k a))"
| "deferring g (AskText c k) = AskText c (\<lambda>a. deferring g (k a))"
| "deferring g (AskView t i k) = AskView t i (\<lambda>a. deferring g (k a))"
| "deferring g (AskFavourites t k) = AskFavourites t (\<lambda>a. deferring g (k a))"
| "deferring g (AskRecovery t k) = AskRecovery t (\<lambda>a. deferring g (k a))"
| "deferring g (AskRate key r k) = AskRate key r (\<lambda>a. deferring g (k a))"
| "deferring g (AskShared key r k) = AskShared key r (\<lambda>a. deferring g (k a))"
| "deferring g (AskSlot s n k) = AskSlot s n (\<lambda>a. deferring g (k a))"
| "deferring g (AskOpen i k) = AskOpen i (\<lambda>a. deferring g (k a))"
| "deferring g (AskStat n k) = AskStat n (\<lambda>a. deferring g (k a))"
| "deferring g (AskMeta i k) = AskMeta i (\<lambda>a. deferring g (k a))"
| "deferring g (AskObject key d n k) = AskObject key d n (\<lambda>a. deferring g (k a))"
| "deferring g (AskSend e k) = AskSend e (\<lambda>a. deferring g (k a))"
| "deferring g (Tell g' p) = Tell g' (deferring g p)"

section \<open>Sessions and limits\<close>

definition with_session :: "web_app \<Rightarrow> http_request \<Rightarrow> ((string \<times> string) res \<Rightarrow> handler) \<Rightarrow> handler" where
  "with_session C rq k = (case rq_cookie rq (cookie_name C) of
       None \<Rightarrow> k (Inl ErrExpired)
     | Some v \<Rightarrow> AskPair (CallSession v) k)"

definition web_touch :: "web_app \<Rightarrow> http_request \<Rightarrow> http_response \<Rightarrow> (http_response \<Rightarrow> handler) \<Rightarrow> handler" where
  "web_touch C rq w k =
     (if \<not> wc_persistent C then k w
      else with_session C rq (\<lambda>s. case s of
          Inl e \<Rightarrow>
            if e = ErrExpired then k w
            else if rq_method rq = ''GET'' \<and> (rq_path rq = ''/'' \<or> rq_path rq = ''/about'') then k w
            else Reply (web_fail rq w 503 (err_text ErrUnavailable))
        | Inr (t, csrf) \<Rightarrow> AskDone (CallTouch t) (\<lambda>e. case e of
              Some e \<Rightarrow> Reply (web_fail rq w 503 (err_text ErrUnavailable))
            | None \<Rightarrow> k (web_set_cookie C t w))))"

definition allow_expensive :: "web_app \<Rightarrow> http_request \<Rightarrow> http_response \<Rightarrow> string \<Rightarrow> rate \<Rightarrow> handler \<Rightarrow> handler" where
  "allow_expensive C rq w key r k =
     (let decide = (\<lambda>ok. if ok then k
          else Reply (web_fail rq (set_header ''X-Art-Limit'' (hd (split_char CHR '':'' key)) w) 429
            ''Give these images a moment, then try again.'')) in
      if \<not> wc_database C then AskRate key r decide
      else AskShared (p_profile (wc_limits C) @ '':'' @ key) r (\<lambda>a. case a of
          Inl e \<Rightarrow> Reply (fail_error rq w e 503)
        | Inr ok \<Rightarrow> decide ok))"

definition allow_generation :: "weblib \<Rightarrow> web_app \<Rightarrow> http_request \<Rightarrow> http_response \<Rightarrow> string \<Rightarrow> handler \<Rightarrow> handler" where
  "allow_generation W C rq w token k =
     allow_expensive C rq w (''generate-ip:'' @ web_client W C rq) (p_generate_ip (wc_limits C))
       (allow_expensive C rq w (''generate-workspace:'' @ token) (p_generate_visitor (wc_limits C)) k)"

section \<open>Images\<close>

definition image_id :: "http_request \<Rightarrow> string" where
  "image_id rq = trim_prefix ''/downloads/'' (trim_prefix ''/images/'' (rq_path rq))"

definition image_headers :: "http_request \<Rightarrow> string \<Rightarrow> string \<Rightarrow> http_response \<Rightarrow> http_response" where
  "image_headers rq i digest w =
     (let w1 = set_header ''Cache-Control'' ''public, max-age=31536000, immutable''
          (set_header ''ETag'' ([char_of (34 :: nat)] @ digest @ [char_of (34 :: nat)])
            (set_header ''Content-Type'' ''image/png'' w)) in
      if has_prefix ''/downloads/'' (rq_path rq)
      then set_header ''Content-Disposition''
        (''attachment; filename='' @ [char_of (34 :: nat)] @ ''singular-seed-'' @ take 12 i @ ''.png'' @ [char_of (34 :: nat)]) w1
      else w1)"

text \<open>\<open>reserveImage\<close>: a reader's slot and the bytes of the image, within the configured wait.\<close>

definition reserve_image :: "web_app \<Rightarrow> int \<Rightarrow> (string \<Rightarrow> handler) \<Rightarrow> handler \<Rightarrow> handler" where
  "reserve_image C n busy k =
     (let wait = p_image_wait (wc_limits C) in
      AskSlot Images wait (\<lambda>ok. if \<not> ok then busy ''image-readers''
        else AskSlot (ImageBytes n) wait (\<lambda>ok.
          if \<not> ok then Tell (Release Images) (busy ''image-bytes'')
          else deferring (Release Images) (deferring (Release (ImageBytes n)) k))))"

definition max_image :: int where
  "max_image = 16 * 2 ^ 20"

definition object_image :: "web_app \<Rightarrow> http_request \<Rightarrow> http_response \<Rightarrow> handler" where
  "object_image C rq w = (let i = image_id rq in
     if length i \<noteq> 64 then Reply (not_found w)
     else AskMeta i (\<lambda>m. case m of
         Inl e \<Rightarrow> Reply (if e = ErrNotExist then web_fail rq w 410 ''This image has expired.'' else fail_error rq w e 503)
       | Inr m \<Rightarrow>
           if am_size m < 1 \<or> am_size m > max_image then Reply (web_fail rq w 503 ''Invalid image metadata.'')
           else reserve_image C (am_size m)
             (\<lambda>reason. Reply (web_fail rq (set_header ''X-Art-Limit'' reason w) 503 ''Downloads are busy.''))
             (AskObject (am_key m) (am_digest m) (am_size m) (\<lambda>d. case d of
                 Inl e \<Rightarrow>
                   if e = ErrNotExist then AskDone (CallMissing i (am_key m)) (\<lambda>e. case e of
                       Some e \<Rightarrow> Reply (fail_error rq w e 503)
                     | None \<Rightarrow> Reply (web_fail rq w 410 ''This image has expired.''))
                   else Reply (web_fail rq w 503 ''Image storage is temporarily unavailable.'')
               | Inr b \<Rightarrow> Reply ((image_headers rq i (am_digest m) w)\<lparr>hr_body := Bytes b\<rparr>)))))"

definition web_image :: "web_app \<Rightarrow> http_request \<Rightarrow> http_response \<Rightarrow> handler" where
  "web_image C rq w =
     (if wc_database C then object_image C rq w
      else if \<not> wc_jobs C then Reply (not_found w)
      else let i = image_id rq in
        if length i \<noteq> 64 then Reply (not_found w)
        else AskOpen i (\<lambda>f. case f of
            Inl e \<Rightarrow> Reply (if e = ErrBusy then web_fail rq w 503 ''Downloads are busy. Try again in a moment.''
              else (set_header ''Content-Type'' ''text/plain'' w)\<lparr>hr_status := 410,
                hr_body := Text ''This image has expired. Return to the studio to make it again.''\<rparr>)
          | Inr (n, digest) \<Rightarrow> deferring (CloseFile n) (AskStat n (\<lambda>ok.
              if \<not> ok then Reply (not_found w)
              else Reply ((image_headers rq i digest w)\<lparr>hr_body := File n\<rparr>)))))"

section \<open>Reading\<close>

definition last_match :: "('a \<Rightarrow> bool) \<Rightarrow> 'a list \<Rightarrow> 'a option" where
  "last_match P xs = find P (rev xs)"

definition entry_name :: "string \<Rightarrow> string" where
  "entry_name art = (case get_entry art of None \<Rightarrow> '''' | Some e \<Rightarrow> en_name e)"

text \<open>The data of a studio page: the latest batch, the ready images of the one before while it is active, and the labels.\<close>

definition members :: "view \<Rightarrow> batch \<Rightarrow> sample list" where
  "members x b = concat (map (\<lambda>i. filter (\<lambda>a. sa_id a = i) (v_samples x)) (ba_samples b))"

definition with_batches :: "view \<Rightarrow> page \<Rightarrow> page" where
  "with_batches x p = (let bs = v_batches x in
     if bs = [] then p
     else let as = members x (last bs) in
       p\<lparr>pg_batch := ba_id (last bs),
         pg_previous := (if v_active x \<and> length bs > 1
           then filter (\<lambda>a. in_state Ready (sa_status a)) (members x (bs ! (length bs - 2))) else []),
         pg_samples := as, pg_ready := int (length (filter (\<lambda>a. in_state Ready (sa_status a)) as))\<rparr>)"

definition with_labels :: "view \<Rightarrow> page \<Rightarrow> page" where
  "with_labels x p =
     (let e = get_entry (v_artwork x);
          eid = (case e of None \<Rightarrow> '''' | Some e \<Rightarrow> en_id e);
          sty = last_match (\<lambda>c. ch_id c = v_style x) (case e of None \<Rightarrow> [] | Some e \<Rightarrow> en_styles e);
          col = last_match (\<lambda>c. co_id c = v_colour x) (case e of None \<Rightarrow> [] | Some e \<Rightarrow> en_colours e) in
      p\<lparr>pg_style_name := (case sty of None \<Rightarrow> ''Keep it open'' | Some c \<Rightarrow> ch_name c),
        pg_style_image := (case sty of None \<Rightarrow> '''' | Some c \<Rightarrow> eid @ ''-'' @ ch_id c @ ''.png''),
        pg_colour_name := (case col of None \<Rightarrow> ''Surprise me'' | Some c \<Rightarrow> co_name c),
        pg_colour_image := (case col of None \<Rightarrow> '''' | Some c \<Rightarrow> eid @ ''-'' @ co_id c @ ''.png''),
        pg_failed := (\<not> pg_active p \<and> pg_ready p = 0 \<and> pg_samples p \<noteq> [])\<rparr>)"

text \<open>The page of an exploration or of one image of it; \<open>None\<close> is not found.\<close>

definition studio_page :: "http_request \<Rightarrow> string \<Rightarrow> string list \<Rightarrow> view \<Rightarrow> page option" where
  "studio_page rq csrf parts x =
     (let p = with_batches x ((new_page (entry_name (v_artwork x) @ '' studio'') ''studio'')
            \<lparr>pg_exploration := Some x, pg_entry := get_entry (v_artwork x), pg_csrf := csrf,
              pg_action := rq_token rq, pg_active := v_active x\<rparr>);
          q = (if length parts = 4 \<and> parts ! 2 = ''samples''
            then map_option (\<lambda>a. p\<lparr>pg_kind := ''sample'', pg_sample := Some a\<rparr>)
              (last_match (\<lambda>a. sa_id a = parts ! 3) (v_samples x))
            else if length parts \<noteq> 2 then None else Some p) in
      map_option (with_labels x) q)"

definition get_exploration :: "web_app \<Rightarrow> http_request \<Rightarrow> http_response \<Rightarrow> string \<Rightarrow> string \<Rightarrow> handler" where
  "get_exploration C rq w token csrf =
     (let fragment = has_prefix ''/fragments/'' (rq_path rq);
          parts = split_char CHR ''/'' (trim_char CHR ''/'' (trim_prefix ''/fragments'' (rq_path rq))) in
      if length parts < 2 \<or> hd parts \<noteq> ''explorations'' then Reply (not_found w)
      else AskView token (parts ! 1) (\<lambda>x. case x of
          Inl e \<Rightarrow> Reply (fail_error rq w e 410)
        | Inr x \<Rightarrow> (case studio_page rq csrf parts x of
            None \<Rightarrow> Reply (not_found w)
          | Some p \<Rightarrow>
              if fragment then Reply ((set_header ''Content-Type'' ''text/html; charset=utf-8'' w)\<lparr>hr_body := Fragment p\<rparr>)
              else Reply (web_page rq w p))))"

text \<open>The recovery file, on a page of its own or as a download.\<close>

definition get_recovery :: "web_app \<Rightarrow> http_request \<Rightarrow> http_response \<Rightarrow> string \<Rightarrow> bool \<Rightarrow> handler" where
  "get_recovery C rq w token export = AskRecovery token (\<lambda>r. case r of
       Inl e \<Rightarrow> Reply (fail_error rq w e 410)
     | Inr records \<Rightarrow>
         let w1 = set_header ''Content-Type'' ''application/json'' w;
             w2 = (if export then set_header ''Content-Disposition''
               (''attachment; filename='' @ [char_of (34 :: nat)] @ ''art-favourites.json'' @ [char_of (34 :: nat)]) w1 else w1)
         in Reply (if \<not> export \<and> rq_method rq = ''HEAD'' then w2 else w2\<lparr>hr_body := RecoveryFile records\<rparr>))"

definition get_favourites :: "web_app \<Rightarrow> http_request \<Rightarrow> http_response \<Rightarrow> handler" where
  "get_favourites C rq w = (let p = new_page ''Favourites'' ''favourites'' in
     with_session C rq (\<lambda>s. case s of
         Inr (t, csrf) \<Rightarrow> AskFavourites t (\<lambda>fs. case fs of
             Inl e \<Rightarrow> Reply (fail_error rq w e 410)
           | Inr fs \<Rightarrow> Reply (web_page rq w (p\<lparr>pg_csrf := csrf, pg_favourites := fs\<rparr>)))
       | Inl e \<Rightarrow> Reply (if e \<noteq> ErrExpired then fail_error rq w e 503 else web_page rq w p)))"

definition get_art :: "web_app \<Rightarrow> http_request \<Rightarrow> http_response \<Rightarrow> handler" where
  "get_art C rq w = (case get_entry (trim_prefix ''/art/'' (rq_path rq)) of
       None \<Rightarrow> Reply (not_found w)
     | Some e \<Rightarrow>
         let p = (new_page (en_name e) ''art'')\<lparr>pg_entry := Some e, pg_action := rq_token rq\<rparr> in
         with_session C rq (\<lambda>s. case s of
             Inr (t, csrf) \<Rightarrow> Reply (web_page rq w (p\<lparr>pg_csrf := csrf\<rparr>))
           | Inl e \<Rightarrow> Reply (if e \<noteq> ErrExpired then fail_error rq w e 503 else web_page rq w p)))"

text \<open>A name outside the map has the empty hash, as in Go.\<close>

definition get_asset :: "web_app \<Rightarrow> http_request \<Rightarrow> http_response \<Rightarrow> handler" where
  "get_asset C rq w = (let parts = split_char CHR ''/'' (trim_prefix ''/assets/'' (rq_path rq)) in
     if length parts \<noteq> 2 \<or> (case mget (wc_hashes C) (parts ! 1) of None \<Rightarrow> '''' | Some h \<Rightarrow> h) \<noteq> hd parts
     then Reply (not_found w)
     else Reply ((set_header ''Cache-Control'' ''public, max-age=31536000, immutable'' w)\<lparr>hr_body := Asset (parts ! 1)\<rparr>))"

definition web_get :: "web_app \<Rightarrow> http_request \<Rightarrow> http_response \<Rightarrow> handler" where
  "web_get C rq w = (let path = rq_path rq in
     if path = ''/health/live'' then Reply (w\<lparr>hr_status := 204\<rparr>)
     else if path = ''/health/ready'' then
       (if wc_database C then AskDone CallSchema (\<lambda>e. case e of
            Some e \<Rightarrow> Reply (http_error w ''storage unavailable'' 503)
          | None \<Rightarrow> Reply (w\<lparr>hr_status := 204\<rparr>))
        else Reply (w\<lparr>hr_status := 204\<rparr>))
     else if has_prefix ''/assets/'' path then get_asset C rq w
     else if has_prefix ''/images/'' path \<or> has_prefix ''/downloads/'' path then web_image C rq w
     else if path = ''/'' then Reply (web_page rq w
       ((new_page ''Explore art. Find your favourite.'' ''gallery'')\<lparr>pg_entries := all_entries\<rparr>))
     else if path = ''/about'' then Reply (web_page rq w (new_page ''About Singular Seed'' ''about''))
     else if path = ''/recover'' then Reply (redirect w ''/favourites'')
     else if path = ''/favourites'' then get_favourites C rq w
     else if has_prefix ''/art/'' path then get_art C rq w
     else with_session C rq (\<lambda>s. case s of
         Inl e \<Rightarrow> Reply (fail_error rq w e 410)
       | Inr (t, csrf) \<Rightarrow>
           if path = ''/recovery'' then get_recovery C rq w t False
           else if path = ''/export'' then get_recovery C rq w t True
           else get_exploration C rq w t csrf))"

section \<open>Acting\<close>

definition form_get :: "(string, string list) gomap \<Rightarrow> string \<Rightarrow> string" where
  "form_get form k = (case mget form k of Some (v # vs) \<Rightarrow> v | _ \<Rightarrow> '''')"

definition form_allowed :: "(string, string list) gomap \<Rightarrow> string list \<Rightarrow> bool" where
  "form_allowed form keys \<longleftrightarrow> list_all (\<lambda>(k, v). k \<in> set (''csrf'' # keys)) form"

text \<open>The recipes of a recovery file, or the message that refuses it.\<close>

definition recovery_form :: "weblib \<Rightarrow> string \<Rightarrow> string list res" where
  "recovery_form W raw = (case strict_json (wl_go W) (wl_recovery W) raw of
       Inl e \<Rightarrow> Inl (ErrMsg ''This recovery file is not supported.'')
     | Inr (version, recipes) \<Rightarrow>
         if version \<noteq> 1 \<or> length recipes > 24 then Inl (ErrMsg ''This recovery file is not supported.'')
         else if list_ex (\<lambda>r. case publish_validate (wl_go W) r of Inl e \<Rightarrow> True | Inr _ \<Rightarrow> False) recipes
         then Inl (ErrMsg ''This recovery file contains an unavailable artwork.'')
         else Inr recipes)"

text \<open>The session of the visitor, or a new one.\<close>

definition or_create :: "web_app \<Rightarrow> http_request \<Rightarrow> http_response \<Rightarrow> string option \<Rightarrow> (string \<Rightarrow> http_response \<Rightarrow> handler) \<Rightarrow> handler" where
  "or_create C rq w session k = (case session of
       Some t \<Rightarrow> k t w
     | None \<Rightarrow> AskPair CallCreate (\<lambda>s. case s of
         Inl e \<Rightarrow> Reply (web_fail rq w 503 (err_text e))
       | Inr (t, csrf) \<Rightarrow> k t (web_set_cookie C t w)))"

definition start_reply :: "http_request \<Rightarrow> http_response \<Rightarrow> string res \<Rightarrow> handler" where
  "start_reply rq w r = (case r of
       Inl e \<Rightarrow> Reply (fail_error rq w e (if e = ErrConflict then 409 else if e = ErrBusy then 503 else 400))
     | Inr i \<Rightarrow> Reply (redirect w (if i \<noteq> '''' then ''/explorations/'' @ i else ''/'')))"

definition post_explorations :: "weblib \<Rightarrow> web_app \<Rightarrow> http_request \<Rightarrow> (string, string list) gomap \<Rightarrow> http_response
    \<Rightarrow> string option \<Rightarrow> handler" where
  "post_explorations W C rq form w session =
     (let art = form_get form ''artwork''; sty = form_get form ''style''; col = form_get form ''colour'' in
      if \<not> form_allowed form [''artwork'', ''style'', ''colour'', ''action'']
      then Reply (web_fail rq w 400 ''Unknown choice.'')
      else case pins art sty col of
          Inl e \<Rightarrow> Reply (web_fail rq w 400 (err_text e))
        | Inr _ \<Rightarrow> or_create C rq w session (\<lambda>t w. allow_generation W C rq w t
            (AskText (CallEnter t art sty col (form_get form ''action'')) (start_reply rq w))))"

definition post_restore :: "weblib \<Rightarrow> web_app \<Rightarrow> http_request \<Rightarrow> (string, string list) gomap \<Rightarrow> http_response
    \<Rightarrow> string option \<Rightarrow> handler" where
  "post_restore W C rq form w session =
     (if \<not> form_allowed form [''recovery''] then Reply (web_fail rq w 400 ''Unknown recovery field.'')
      else case recovery_form W (form_get form ''recovery'') of
          Inl e \<Rightarrow> Reply (web_fail rq w 400 (err_text e))
        | Inr recipes \<Rightarrow> or_create C rq w session (\<lambda>t w. AskText (CallRestore t recipes) (start_reply rq w)))"

definition post_clear :: "web_app \<Rightarrow> http_request \<Rightarrow> (string, string list) gomap \<Rightarrow> http_response \<Rightarrow> string \<Rightarrow> handler" where
  "post_clear C rq form w t =
     (if \<not> form_allowed form [] then Reply (web_fail rq w 400 ''Invalid form.'')
      else AskDone (CallClear t) (\<lambda>e. case e of
          Some e \<Rightarrow> Reply (fail_error rq w e 503)
        | None \<Rightarrow> Reply (redirect (web_set_cookie C '''' w) ''/'')))"

definition action_status :: "err \<Rightarrow> int" where
  "action_status e = (if e = ErrBusy then 503 else if e = ErrConflict then 409 else if e = ErrExpired then 410 else 400)"

definition action_reply :: "http_request \<Rightarrow> http_response \<Rightarrow> string \<Rightarrow> err option \<Rightarrow> handler" where
  "action_reply rq w target e = (case e of
       Some e \<Rightarrow> Reply (fail_error rq w e (action_status e))
     | None \<Rightarrow> Reply (redirect w target))"

definition text_reply :: "http_request \<Rightarrow> http_response \<Rightarrow> string \<Rightarrow> string res \<Rightarrow> handler" where
  "text_reply rq w target r = action_reply rq w target (case r of Inl e \<Rightarrow> Some e | Inr _ \<Rightarrow> None)"

definition action_fields :: "string \<Rightarrow> string list option" where
  "action_fields operation =
     (if operation = ''choices'' then Some [''revision'', ''style'', ''colour'']
      else if operation = ''batches'' then Some [''revision'', ''action'', ''batch'']
      else if operation = ''similar'' then Some [''revision'', ''action'', ''sample'']
      else if operation = ''favourites'' then Some [''revision'', ''sample'', ''on'', ''return'']
      else if operation = ''download'' then Some [''sample'']
      else if operation = ''cancel'' then Some [''revision'', ''batch'']
      else None)"

text \<open>The switch over the operation, after its form has been admitted.\<close>

definition perform :: "http_request \<Rightarrow> (string, string list) gomap \<Rightarrow> http_response \<Rightarrow> string \<Rightarrow> string \<Rightarrow> int
    \<Rightarrow> string \<Rightarrow> handler" where
  "perform rq form w t i revision operation =
     (let get = form_get form; target = ''/explorations/'' @ i in
      if operation = ''choices'' then
        AskDone (CallChoices t i revision (get ''style'') (get ''colour'')) (action_reply rq w target)
      else if operation = ''batches'' then
        AskText (CallRetry t i revision (get ''action'') (get ''batch'')) (text_reply rq w target)
      else if operation = ''similar'' then
        AskText (CallGenerate t i revision (get ''action'') [get ''sample''] False) (text_reply rq w target)
      else if operation = ''favourites'' then
        (let destination = get ''return'' in
         if destination \<noteq> '''' \<and> destination \<noteq> ''sample'' \<and> destination \<noteq> ''favourites''
         then Reply (web_fail rq w 400 ''Unknown destination.'')
         else AskDone (CallFavourite t i (get ''sample'') revision (get ''on'' = ''yes''))
           (action_reply rq w (if destination = ''sample'' then target @ ''/samples/'' @ get ''sample''
             else if destination = ''favourites'' then ''/favourites'' else target)))
      else if operation = ''cancel'' then
        AskDone (CallCancel t i revision (get ''batch'')) (action_reply rq w target)
      else if operation = ''download'' then
        AskDone (CallDownload t i (get ''sample'')) (action_reply rq w (target @ ''/samples/'' @ get ''sample''))
      else Reply (not_found w))"

text \<open>A download goes on without a revision, which it does not use.\<close>

definition post_action :: "weblib \<Rightarrow> web_app \<Rightarrow> http_request \<Rightarrow> (string, string list) gomap \<Rightarrow> http_response \<Rightarrow> string \<Rightarrow> handler" where
  "post_action W C rq form w t =
     (let parts = split_char CHR ''/'' (trim_char CHR ''/'' (rq_path rq)) in
      if length parts \<noteq> 3 \<or> hd parts \<noteq> ''explorations'' then Reply (not_found w)
      else let i = parts ! 1; operation = parts ! 2; revision = atoi (form_get form ''revision'') in
        if operation \<noteq> ''download'' \<and> (case revision of None \<Rightarrow> True | Some n \<Rightarrow> n < 0)
        then Reply (web_fail rq w 400 ''Invalid exploration revision.'')
        else if (case action_fields operation of None \<Rightarrow> True | Some keys \<Rightarrow> \<not> form_allowed form keys)
        then Reply (web_fail rq w 400 ''Unknown action field.'')
        else let go = perform rq form w t i (case revision of None \<Rightarrow> 0 | Some n \<Rightarrow> n) operation in
          if operation = ''batches'' \<or> operation = ''similar'' \<or> operation = ''download''
          then allow_generation W C rq w t go else go)"

definition post_session :: "weblib \<Rightarrow> web_app \<Rightarrow> http_request \<Rightarrow> (string, string list) gomap \<Rightarrow> http_response
    \<Rightarrow> string option \<Rightarrow> handler" where
  "post_session W C rq form w session = (let path = rq_path rq in
     if path = ''/explorations'' \<or> path = ''/restore'' then
       allow_expensive C rq w (''start:'' @ web_client W C rq) (p_start_ip (wc_limits C))
         (if path = ''/explorations'' then post_explorations W C rq form w session else post_restore W C rq form w session)
     else case session of
         None \<Rightarrow> Reply (web_fail rq w 410 (err_text ErrExpired))
       | Some t \<Rightarrow> if path = ''/clear'' then post_clear C rq form w t else post_action W C rq form w t)"

definition web_post :: "weblib \<Rightarrow> web_app \<Rightarrow> http_request \<Rightarrow> (string, string list) gomap \<Rightarrow> http_response \<Rightarrow> handler" where
  "web_post W C rq form w = with_session C rq (\<lambda>s. case s of
       Inl e \<Rightarrow> if e \<noteq> ErrExpired then Reply (fail_error rq w e 503) else post_session W C rq form w None
     | Inr (t, csrf) \<Rightarrow>
         if form_get form ''csrf'' \<noteq> csrf
         then Reply (web_fail rq w 403 ''This form has expired. Refresh the page before trying again.'')
         else post_session W C rq form w (Some t))"

section \<open>Event streams\<close>

definition web_snapshot :: "weblib \<Rightarrow> web_app \<Rightarrow> http_request \<Rightarrow> string \<Rightarrow> string \<Rightarrow> (string option \<Rightarrow> handler) \<Rightarrow> handler" where
  "web_snapshot W C rq t i k = with_session C rq (\<lambda>s. case s of
       Inl e \<Rightarrow> k None
     | Inr _ \<Rightarrow> AskView t i (\<lambda>x. case x of
         Inl e \<Rightarrow> k None
       | Inr x \<Rightarrow> k (case wl_marshal W x of Inl e \<Rightarrow> None | Inr b \<Rightarrow> Some b)))"

primrec stream :: "weblib \<Rightarrow> web_app \<Rightarrow> http_request \<Rightarrow> http_response \<Rightarrow> string \<Rightarrow> string \<Rightarrow> nat \<Rightarrow> string \<Rightarrow> handler" where
  "stream W C rq w t i 0 previous = Reply w"
| "stream W C rq w t i (Suc n) previous = web_snapshot W C rq t i (\<lambda>current. case current of
       None \<Rightarrow> Reply w
     | Some b \<Rightarrow> AskSend (if b \<noteq> previous then ''changed'' else ''heartbeat'') (\<lambda>ok.
         if ok then stream W C rq w t i n b else Reply w))"

definition web_events :: "weblib \<Rightarrow> web_app \<Rightarrow> http_request \<Rightarrow> http_response \<Rightarrow> handler" where
  "web_events W C rq w =
     (if \<not> wc_events C then Reply (not_found w)
      else if rq_header rq ''Origin'' \<noteq> '''' \<and> rq_header rq ''Origin'' \<noteq> wc_origin C
      then Reply (http_error w ''origin rejected'' 403)
      else AskSlot Streams 0 (\<lambda>ok. if \<not> ok then Reply (http_error w ''too many streams'' 503)
        else deferring (Release Streams) (let i = trim_prefix ''/events/'' (rq_path rq) in
          with_session C rq (\<lambda>s. case s of
              Inl e \<Rightarrow> Reply (fail_error rq w e 410)
            | Inr (t, csrf) \<Rightarrow> web_snapshot W C rq t i (\<lambda>previous. case previous of
                None \<Rightarrow> Reply (http_error w ''unavailable'' 503)
              | Some b \<Rightarrow>
                  let w1 = set_header ''X-Accel-Buffering'' ''no'' (set_header ''Cache-Control'' ''no-store''
                    (set_header ''Content-Type'' ''text/event-stream'' w)) in
                  AskSend ''snapshot'' (\<lambda>ok. if \<not> ok then Reply w1
                    else stream W C rq w1 t i (rq_wakeups rq) b))))))"

section \<open>Admission of requests\<close>

text \<open>The loop over the form, in the order in which Go visits its keys.\<close>

fun form_error :: "(string, string list) gomap \<Rightarrow> string option" where
  "form_error [] = None"
| "form_error ((k, v) # form) =
     (if length v \<noteq> 1 \<and> k \<noteq> ''selected'' then Some ''Conflicting form values.''
      else if length v > 4 then Some ''Choose at most four favourites.''
      else form_error form)"

text \<open>What follows the rate limit of a mutation: origin, body and form.\<close>

definition admit_post :: "weblib \<Rightarrow> web_app \<Rightarrow> http_request \<Rightarrow> http_response \<Rightarrow> handler" where
  "admit_post W C rq w =
     (if rq_method rq \<noteq> ''POST''
      then Reply (http_error (set_header ''Allow'' ''GET, HEAD, POST'' w) ''method unavailable'' 405)
      else if rq_header rq ''Origin'' \<noteq> wc_origin C
      then Reply (web_fail rq w 403 ''This action must come from this site.'')
      else web_touch C rq w (\<lambda>w.
        if rq_header rq ''Content-Type'' \<noteq> ''application/x-www-form-urlencoded''
        then Reply (web_fail rq w 415 ''This form could not be read.'')
        else case rq_form rq of
            None \<Rightarrow> Reply (web_fail rq w 413 ''This form is too large.'')
          | Some form \<Rightarrow>
              if rq_query rq \<noteq> '''' then Reply (web_fail rq w 400 ''Unexpected query values.'')
              else case form_error form of
                  Some message \<Rightarrow> Reply (web_fail rq w 400 message)
                | None \<Rightarrow> web_post W C rq form w))"

definition quiet_path :: "string \<Rightarrow> bool" where
  "quiet_path path \<longleftrightarrow> has_prefix ''/fragments/'' path \<or> has_prefix ''/images/'' path
     \<or> has_prefix ''/downloads/'' path \<or> has_prefix ''/assets/'' path \<or> has_prefix ''/health/'' path"

definition serve_admitted :: "weblib \<Rightarrow> web_app \<Rightarrow> http_request \<Rightarrow> http_response \<Rightarrow> handler" where
  "serve_admitted W C rq w =
     (if length (rq_uri rq) > 4096 then Reply (http_error w ''request target too long'' 414)
      else let (bucket, r) = (if has_prefix ''/assets/'' (rq_path rq) then (''asset'', p_asset_ip (wc_limits C))
            else (''read'', p_read_ip (wc_limits C))) in
        AskRate (bucket @ '':'' @ web_client W C rq) r (\<lambda>ok.
          if \<not> ok then Reply (web_fail rq (set_header ''X-Art-Limit'' (bucket @ ''-ip'') w) 429
            ''Too many requests. Give this page a moment.'')
          else if rq_method rq = ''GET'' \<or> rq_method rq = ''HEAD'' then
            (if rq_method rq = ''GET'' \<and> \<not> quiet_path (rq_path rq) then web_touch C rq w (web_get C rq)
             else web_get C rq w)
          else admit_post W C rq w))"

definition serve_http :: "weblib \<Rightarrow> web_app \<Rightarrow> http_request \<Rightarrow> handler" where
  "serve_http W C rq = (let w = new_response in
     if rq_host rq \<noteq> wc_host C then Reply (http_error w ''unknown host'' 421)
     else if rq_method rq = ''GET'' \<and> has_prefix ''/events/'' (rq_path rq) then web_events W C rq w
     else AskSlot Active 0 (\<lambda>ok.
       if \<not> ok then Reply (web_fail rq w 503 ''The studio is busy. Try again in a moment.'')
       else deferring (Release Active) (serve_admitted W C rq w)))"

text \<open>\<open>Metrics\<close>: the counters for the operator.\<close>

definition metrics_text :: "mgr \<Rightarrow> string" where
  "metrics_text m = (let (q, r, f, b) = counts m; line = (\<lambda>name n. name @ '' '' @ format_int n @ [char_of (10 :: nat)]) in
     line ''art_jobs_queued'' q @ line ''art_jobs_running'' r @ line ''art_cache_files'' f @ line ''art_cache_bytes'' b)"

end
