(* ===== verification/WebPaths.thy ===== *)
theory WebPaths
  imports Web
begin

text \<open>
  The paths of a handler: the events of one request with the answers it got, and a predicate over trees
  that holds when every event and every response on every path is as it should be. Answers are arbitrary,
  so the paths include whatever concurrent requests do to the shared state in between.
\<close>

datatype web_event =
    EvDone done_call "err option"
  | EvPair pair_call "(string \<times> string) res"
  | EvText text_call "string res"
  | EvView string string "view res"
  | EvFavourites string "favourite list res"
  | EvRecovery string "string list res"
  | EvRate string rate bool
  | EvShared string rate "bool res"
  | EvSlot slot int bool
  | EvOpen string "(nat \<times> string) res"
  | EvStat nat bool
  | EvMeta string "artifact_meta res"
  | EvObject string string int "string res"
  | EvSend string bool
  | EvGive give_back

inductive does :: "handler \<Rightarrow> web_event list \<Rightarrow> http_response \<Rightarrow> bool" where
  does_reply: "does (Reply r) [] r"
| does_done: "does (k a) es r \<Longrightarrow> does (AskDone c k) (EvDone c a # es) r"
| does_pair: "does (k b) es r \<Longrightarrow> does (AskPair p k) (EvPair p b # es) r"
| does_text: "does (k s) es r \<Longrightarrow> does (AskText c k) (EvText c s # es) r"
| does_view: "does (k x) es r \<Longrightarrow> does (AskView t i k) (EvView t i x # es) r"
| does_favourites: "does (k f) es r \<Longrightarrow> does (AskFavourites t k) (EvFavourites t f # es) r"
| does_recovery: "does (k f) es r \<Longrightarrow> does (AskRecovery t k) (EvRecovery t f # es) r"
| does_rate: "does (k ok) es r \<Longrightarrow> does (AskRate key rt k) (EvRate key rt ok # es) r"
| does_shared: "does (k ok) es r \<Longrightarrow> does (AskShared key rt k) (EvShared key rt ok # es) r"
| does_slot: "does (k ok) es r \<Longrightarrow> does (AskSlot s n k) (EvSlot s n ok # es) r"
| does_open: "does (k f) es r \<Longrightarrow> does (AskOpen i k) (EvOpen i f # es) r"
| does_stat: "does (k ok) es r \<Longrightarrow> does (AskStat m k) (EvStat m ok # es) r"
| does_meta: "does (k a) es r \<Longrightarrow> does (AskMeta i k) (EvMeta i a # es) r"
| does_object: "does (k b) es r \<Longrightarrow> does (AskObject key d n k) (EvObject key d n b # es) r"
| does_send: "does (k ok) es r \<Longrightarrow> does (AskSend e k) (EvSend e ok # es) r"
| does_tell: "does p es r \<Longrightarrow> does (Tell g p) (EvGive g # es) r"

text \<open>
  \<open>along G Q p h\<close>: after the events \<open>h\<close>, every event \<open>e\<close> of \<open>p\<close> satisfies \<open>G\<close> of the events before it, and
  every response satisfies \<open>Q\<close>.
\<close>

primrec along :: "(web_event list \<Rightarrow> web_event \<Rightarrow> bool) \<Rightarrow> (web_event list \<Rightarrow> http_response \<Rightarrow> bool)
    \<Rightarrow> handler \<Rightarrow> web_event list \<Rightarrow> bool" where
  "along G Q (Reply r) h = Q h r"
| "along G Q (AskDone c k) h = (\<forall>a. G h (EvDone c a) \<and> along G Q (k a) (h @ [EvDone c a]))"
| "along G Q (AskPair c k) h = (\<forall>a. G h (EvPair c a) \<and> along G Q (k a) (h @ [EvPair c a]))"
| "along G Q (AskText c k) h = (\<forall>a. G h (EvText c a) \<and> along G Q (k a) (h @ [EvText c a]))"
| "along G Q (AskView t i k) h = (\<forall>a. G h (EvView t i a) \<and> along G Q (k a) (h @ [EvView t i a]))"
| "along G Q (AskFavourites t k) h = (\<forall>a. G h (EvFavourites t a) \<and> along G Q (k a) (h @ [EvFavourites t a]))"
| "along G Q (AskRecovery t k) h = (\<forall>a. G h (EvRecovery t a) \<and> along G Q (k a) (h @ [EvRecovery t a]))"
| "along G Q (AskRate key r k) h = (\<forall>a. G h (EvRate key r a) \<and> along G Q (k a) (h @ [EvRate key r a]))"
| "along G Q (AskShared key r k) h = (\<forall>a. G h (EvShared key r a) \<and> along G Q (k a) (h @ [EvShared key r a]))"
| "along G Q (AskSlot s n k) h = (\<forall>a. G h (EvSlot s n a) \<and> along G Q (k a) (h @ [EvSlot s n a]))"
| "along G Q (AskOpen i k) h = (\<forall>a. G h (EvOpen i a) \<and> along G Q (k a) (h @ [EvOpen i a]))"
| "along G Q (AskStat n k) h = (\<forall>a. G h (EvStat n a) \<and> along G Q (k a) (h @ [EvStat n a]))"
| "along G Q (AskMeta i k) h = (\<forall>a. G h (EvMeta i a) \<and> along G Q (k a) (h @ [EvMeta i a]))"
| "along G Q (AskObject key d n k) h = (\<forall>a. G h (EvObject key d n a) \<and> along G Q (k a) (h @ [EvObject key d n a]))"
| "along G Q (AskSend e k) h = (\<forall>a. G h (EvSend e a) \<and> along G Q (k a) (h @ [EvSend e a]))"
| "along G Q (Tell g p) h = (G h (EvGive g) \<and> along G Q p (h @ [EvGive g]))"

lemma along_does:
  "does p es r \<Longrightarrow> along G Q p h \<Longrightarrow> Q (h @ es) r \<and> (\<forall>es1 e es2. es = es1 @ e # es2 \<longrightarrow> G (h @ es1) e)"
  by (induction arbitrary: h rule: does.induct) (simp, (fastforce simp: Cons_eq_append_conv)+)

lemma along_deferring:
  "along G (\<lambda>h r. G h (EvGive g) \<and> Q (h @ [EvGive g]) r) p h \<Longrightarrow> along G Q (deferring g p) h"
  by (induction p arbitrary: h) auto

section \<open>What events may happen\<close>

text \<open>
  The workspace that an event changes, the workspace that it shows or whose lifetime it extends, and the
  events that cost a rendering.
\<close>

fun acting :: "web_event \<Rightarrow> string option" where
  "acting (EvDone (CallChoices t i revision sty col) a) = Some t"
| "acting (EvDone (CallFavourite t i sid revision on) a) = Some t"
| "acting (EvDone (CallCancel t i revision bid) a) = Some t"
| "acting (EvDone (CallDownload t i sid) a) = Some t"
| "acting (EvDone (CallClear t) a) = Some t"
| "acting (EvText (CallEnter t art sty col aid) a) = Some t"
| "acting (EvText (CallRestore t recipes) a) = Some t"
| "acting (EvText (CallRetry t i revision aid bid) a) = Some t"
| "acting (EvText (CallGenerate t i revision aid sel different) a) = Some t"
| "acting _ = None"

fun showing :: "web_event \<Rightarrow> string option" where
  "showing (EvView t i x) = Some t"
| "showing (EvFavourites t f) = Some t"
| "showing (EvRecovery t f) = Some t"
| "showing (EvDone (CallTouch t) a) = Some t"
| "showing _ = None"

fun rendering :: "web_event \<Rightarrow> bool" where
  "rendering (EvDone (CallDownload t i sid) a) = True"
| "rendering (EvText (CallEnter t art sty col aid) a) = True"
| "rendering (EvText (CallRetry t i revision aid bid) a) = True"
| "rendering (EvText (CallGenerate t i revision aid sel different) a) = True"
| "rendering _ = False"

text \<open>The request carries the cookie of the session, its form repeats the session's secret, it comes from the site.\<close>

definition visitor :: "web_app \<Rightarrow> http_request \<Rightarrow> web_event list \<Rightarrow> string \<Rightarrow> string \<Rightarrow> bool" where
  "visitor C rq h t c \<longleftrightarrow> (\<exists>v. rq_cookie rq (cookie_name C) = Some v \<and> EvPair (CallSession v) (Inr (t, c)) \<in> set h)"

definition from_site :: "web_app \<Rightarrow> http_request \<Rightarrow> bool" where
  "from_site C rq \<longleftrightarrow> rq_method rq = ''POST'' \<and> rq_host rq = wc_host C \<and> rq_header rq ''Origin'' = wc_origin C"

definition entitled :: "web_app \<Rightarrow> http_request \<Rightarrow> web_event list \<Rightarrow> string \<Rightarrow> bool" where
  "entitled C rq h t \<longleftrightarrow> from_site C rq
     \<and> ((\<exists>form c. rq_form rq = Some form \<and> form_get form ''csrf'' = c \<and> visitor C rq h t c)
       \<or> (\<exists>c. EvPair CallCreate (Inr (t, c)) \<in> set h))"

definition within_rate :: "web_app \<Rightarrow> web_event list \<Rightarrow> string \<Rightarrow> rate \<Rightarrow> bool" where
  "within_rate C h key r \<longleftrightarrow> EvRate key r True \<in> set h
     \<or> EvShared (p_profile (wc_limits C) @ '':'' @ key) r (Inr True) \<in> set h"

definition paid :: "weblib \<Rightarrow> web_app \<Rightarrow> http_request \<Rightarrow> web_event list \<Rightarrow> string \<Rightarrow> bool" where
  "paid W C rq h t \<longleftrightarrow> within_rate C h (''generate-ip:'' @ web_client W C rq) (p_generate_ip (wc_limits C))
     \<and> within_rate C h (''generate-workspace:'' @ t) (p_generate_visitor (wc_limits C))"

text \<open>
  The calls that need a database, a persistent studio or a render manager, and are made only with one. The
  bytes that are reserved for an image are those of a valid size.
\<close>

fun sized :: "slot \<Rightarrow> bool" where
  "sized (ImageBytes n) = (1 \<le> n \<and> n \<le> max_image)"
| "sized sl = True"

fun provided :: "web_app \<Rightarrow> web_event \<Rightarrow> bool" where
  "provided C (EvDone (CallTouch t) a) = wc_persistent C"
| "provided C (EvDone (CallMissing i key) a) = wc_database C"
| "provided C (EvDone CallSchema a) = wc_database C"
| "provided C (EvShared key r ok) = wc_database C"
| "provided C (EvMeta i a) = wc_database C"
| "provided C (EvObject key d n a) = wc_database C"
| "provided C (EvSlot s n ok) = (sized s \<and> (s = Active \<or> s = Streams \<or> wc_database C))"
| "provided C (EvOpen i a) = (wc_jobs C \<and> \<not> wc_database C)"
| "provided C (EvStat n ok) = (wc_jobs C \<and> \<not> wc_database C)"
| "provided C (EvGive (Release s)) = sized s"
| "provided C _ = True"

text \<open>A pointer is reported as missing only by a request that read it from the database.\<close>

fun reported :: "web_event list \<Rightarrow> web_event \<Rightarrow> bool" where
  "reported h (EvDone (CallMissing i key) a) = (\<exists>m. EvMeta i (Inr m) \<in> set h \<and> am_key m = key)"
| "reported h e = True"

definition rightful :: "weblib \<Rightarrow> web_app \<Rightarrow> http_request \<Rightarrow> web_event list \<Rightarrow> web_event \<Rightarrow> bool" where
  "rightful W C rq h e \<longleftrightarrow> provided C e \<and> reported h e \<and>
     (\<forall>t. acting e = Some t \<longrightarrow> entitled C rq h t \<and> (rendering e \<longrightarrow> paid W C rq h t))
     \<and> (\<forall>t. showing e = Some t \<longrightarrow> (\<exists>c. visitor C rq h t c))
     \<and> (\<forall>a. e = EvPair CallCreate a \<longrightarrow> from_site C rq)"

section \<open>What a request holds\<close>

fun change :: "give_back \<Rightarrow> web_event \<Rightarrow> int" where
  "change g (EvSlot s n ok) = (if ok \<and> g = Release s then 1 else 0)"
| "change g (EvOpen i (Inr (n, d))) = (if g = CloseFile n then 1 else 0)"
| "change g (EvGive g') = (if g' = g then - 1 else 0)"
| "change g _ = 0"

definition held :: "web_event list \<Rightarrow> give_back \<Rightarrow> int" where
  "held h g = (\<Sum>e\<leftarrow>h. change g e)"

lemma held_Nil [simp]: "held [] g = 0"
  and held_snoc [simp]: "held (h @ [e]) g = held h g + change g e"
  by (simp_all add: held_def)

section \<open>What responses look like\<close>

definition cookies_ok :: "web_event list \<Rightarrow> http_response \<Rightarrow> bool" where
  "cookies_ok h r \<longleftrightarrow> (\<forall>k\<in>set (hr_cookies r). ck_age k = (if ck_value k = '''' then - 1 else 90 * 24 * 60 * 60)
     \<and> ck_path k = ''/'' \<and> ck_http_only k \<and> ck_same_site k = ''Lax'' \<and> (ck_secure k \<longleftrightarrow> ck_name k = ''__Host-art-studio'')
     \<and> ((\<exists>p c. EvPair p (Inr (ck_value k, c)) \<in> set h)
       \<or> ck_value k = '''' \<and> (\<exists>t. EvDone (CallClear t) None \<in> set h)))"

definition secured :: "http_response \<Rightarrow> bool" where
  "secured r \<longleftrightarrow> mget (hr_headers r) ''Content-Security-Policy'' = Some security_policy
     \<and> mget (hr_headers r) ''X-Content-Type-Options'' = Some ''nosniff''"

fun secret_of :: "http_body \<Rightarrow> string" where
  "secret_of (Page p) = pg_csrf p"
| "secret_of (Fragment p) = pg_csrf p"
| "secret_of _ = ''''"

fun shared_body :: "http_body \<Rightarrow> bool" where
  "shared_body (Asset a) = True"
| "shared_body (File n) = True"
| "shared_body (Bytes b) = True"
| "shared_body _ = False"

definition statuses :: "int list" where
  "statuses = [200, 204, 303, 400, 403, 404, 405, 409, 410, 413, 414, 415, 421, 429, 503]"

definition proper :: "web_app \<Rightarrow> http_request \<Rightarrow> web_event list \<Rightarrow> http_response \<Rightarrow> bool" where
  "proper C rq h r \<longleftrightarrow> hr_status r \<in> set statuses \<and> secured r \<and> cookies_ok h r
     \<and> (secret_of (hr_body r) = '''' \<or> (\<exists>t. visitor C rq h t (secret_of (hr_body r))))
     \<and> (mget (hr_headers r) ''Cache-Control'' = Some ''public, max-age=31536000, immutable'' \<longrightarrow> shared_body (hr_body r))"

text \<open>A response that a handler is still building.\<close>

definition started :: "web_event list \<Rightarrow> http_response \<Rightarrow> bool" where
  "started h w \<longleftrightarrow> hr_status w = 200 \<and> hr_body w = NoBody \<and> secured w \<and> cookies_ok h w
     \<and> mget (hr_headers w) ''Cache-Control'' \<noteq> Some ''public, max-age=31536000, immutable''"

lemma visitor_more: "visitor C rq h t c \<Longrightarrow> visitor C rq (h @ es) t c"
  by (auto simp: visitor_def)

lemma cookies_more: "cookies_ok h r \<Longrightarrow> cookies_ok (h @ es) r"
  by (fastforce simp: cookies_ok_def)

lemma started_more: "started h w \<Longrightarrow> started (h @ es) w"
  by (simp add: started_def cookies_more)

lemma proper_more: "proper C rq h r \<Longrightarrow> proper C rq (h @ es) r"
  by (auto simp: proper_def cookies_more intro: visitor_more)

lemma started_header:
  "started h w \<Longrightarrow> k \<notin> {''Content-Security-Policy'', ''X-Content-Type-Options'', ''Cache-Control''} \<Longrightarrow>
    started h (set_header k v w)"
  by (auto simp: started_def secured_def cookies_ok_def set_header_def map_simps)

lemma started_cookie:
  "started h w \<Longrightarrow> EvPair p (Inr (v, c)) \<in> set h \<Longrightarrow> started h (web_set_cookie C v w)"
  by (auto simp: started_def secured_def cookies_ok_def web_set_cookie_def cookie_name_def)

lemma along_mono:
  "along G Q p h \<Longrightarrow> (\<And>h e. G h e \<Longrightarrow> G' h e) \<Longrightarrow> (\<And>h r. Q h r \<Longrightarrow> Q' h r) \<Longrightarrow> along G' Q' p h"
  by (induction p arbitrary: h) auto

end
