(* ===== verification/WebRules.thy ===== *)
theory WebRules
  imports WebPaths
begin

text \<open>
  Every handler of \<open>internal/web\<close> behaves: its events are rightful, its responses proper, and it gives
  back what it took. One lemma per handler, from the replies up to \<open>ServeHTTP\<close>.
\<close>

section \<open>Replies\<close>

lemmas headers_defs = http_error_def not_found_def redirect_def web_page_def web_fail_def set_header_def
  new_page_def secured_def cookies_ok_def Let_def

lemma started_new: "started [] new_response"
  by (simp add: started_def new_response_def secured_def cookies_ok_def)

named_theorems proper_intros \<open>responses that are proper\<close>

lemma proper_page [proper_intros]:
  assumes "started h w" "pg_csrf p = '''' \<or> (\<exists>t. visitor C rq h t (pg_csrf p))"
  shows "proper C rq h (web_page rq w p)"
  using assms by (auto simp: started_def proper_def headers_defs statuses_def map_simps)

lemma proper_fail [proper_intros]: "started h w \<Longrightarrow> st \<in> set statuses \<Longrightarrow> proper C rq h (web_fail rq w st msg)"
  by (auto simp: started_def proper_def headers_defs map_simps)

lemma proper_fail_error [proper_intros]: "started h w \<Longrightarrow> st \<in> set statuses \<Longrightarrow> proper C rq h (fail_error rq w e st)"
  unfolding fail_error_def by (simp add: proper_fail statuses_def)

lemma proper_error [proper_intros]: "started h w \<Longrightarrow> st \<in> set statuses \<Longrightarrow> proper C rq h (http_error w msg st)"
  by (auto simp: started_def proper_def headers_defs map_simps)

lemma proper_not_found [proper_intros]: "started h w \<Longrightarrow> proper C rq h (not_found w)"
  unfolding not_found_def by (simp add: proper_error statuses_def)

lemma proper_redirect [proper_intros]: "started h w \<Longrightarrow> proper C rq h (redirect w target)"
  by (auto simp: started_def proper_def headers_defs map_simps statuses_def)

lemma proper_plain [proper_intros]: "started h w \<Longrightarrow> st \<in> set statuses \<Longrightarrow> proper C rq h (w\<lparr>hr_status := st\<rparr>)"
  by (auto simp: started_def proper_def headers_defs)

lemma proper_started: "started h w \<Longrightarrow> proper C rq h w"
  by (auto simp: started_def proper_def statuses_def)

lemma proper_body [proper_intros]:
  "started h w \<Longrightarrow> secret_of b = '''' \<or> (\<exists>t. visitor C rq h t (secret_of b)) \<Longrightarrow> proper C rq h (w\<lparr>hr_body := b\<rparr>)"
  by (auto simp: started_def proper_def headers_defs statuses_def)

lemma proper_gone [proper_intros]: "started h w \<Longrightarrow> secret_of b = '''' \<Longrightarrow> st \<in> set statuses \<Longrightarrow>
    proper C rq h (w\<lparr>hr_status := st, hr_body := b\<rparr>)"
  by (auto simp: started_def proper_def headers_defs)

lemma proper_image [proper_intros]: "started h w \<Longrightarrow> shared_body b \<Longrightarrow> proper C rq h ((image_headers rq i d w)\<lparr>hr_body := b\<rparr>)"
  by (cases b) (auto simp: started_def proper_def image_headers_def headers_defs map_simps statuses_def)

lemma proper_asset [proper_intros]: "started h w \<Longrightarrow> proper C rq h ((set_header ''Cache-Control'' v w)\<lparr>hr_body := Asset a\<rparr>)"
  by (auto simp: started_def proper_def headers_defs map_simps statuses_def)

lemma started_no_store: "started h w \<Longrightarrow> started h (set_header ''Cache-Control'' ''no-store'' w)"
  by (auto simp: started_def headers_defs map_simps)

section \<open>Behaving\<close>

definition behaves :: "weblib \<Rightarrow> web_app \<Rightarrow> http_request \<Rightarrow> (give_back \<Rightarrow> int) \<Rightarrow> handler \<Rightarrow> web_event list \<Rightarrow> bool" where
  "behaves W C rq b = along (rightful W C rq) (\<lambda>h r. proper C rq h r \<and> held h = b)"

definition ready :: "(give_back \<Rightarrow> int) \<Rightarrow> web_event list \<Rightarrow> http_response \<Rightarrow> bool" where
  "ready b h w \<longleftrightarrow> started h w \<and> held h = b"

definition still :: "web_event \<Rightarrow> bool" where
  "still e \<longleftrightarrow> (\<forall>g. change g e = 0)"

lemma readyD: "ready b h w \<Longrightarrow> started h w"
  by (simp add: ready_def)

lemma held_still: "still e \<Longrightarrow> held (h @ [e]) = held h"
  by (simp add: still_def fun_eq_iff)

lemma ready_snoc: "ready b h w \<Longrightarrow> still e \<Longrightarrow> ready b (h @ [e]) w"
  by (simp add: ready_def held_still started_more)

lemma ready_header: "ready b h w \<Longrightarrow> k \<notin> {''Content-Security-Policy'', ''X-Content-Type-Options'', ''Cache-Control''} \<Longrightarrow>
    ready b h (set_header k v w)"
  by (simp add: ready_def started_header)

lemma behaves_reply: "ready b h w \<Longrightarrow> (started h w \<Longrightarrow> proper C rq h r) \<Longrightarrow> behaves W C rq b (Reply r) h"
  by (simp add: behaves_def ready_def)

lemma behaves_if: "(c \<Longrightarrow> behaves W C rq b p h) \<Longrightarrow> (\<not> c \<Longrightarrow> behaves W C rq b q h) \<Longrightarrow> behaves W C rq b (if c then p else q) h"
  by simp

text \<open>The nodes of the tree.\<close>

lemma behaves_asks:
  "behaves W C rq b (AskDone c k) h \<longleftrightarrow> (\<forall>a. rightful W C rq h (EvDone c a) \<and> behaves W C rq b (k a) (h @ [EvDone c a]))"
  "behaves W C rq b (AskPair p f) h \<longleftrightarrow> (\<forall>a. rightful W C rq h (EvPair p a) \<and> behaves W C rq b (f a) (h @ [EvPair p a]))"
  "behaves W C rq b (AskText u g) h \<longleftrightarrow> (\<forall>a. rightful W C rq h (EvText u a) \<and> behaves W C rq b (g a) (h @ [EvText u a]))"
  "behaves W C rq b (AskView t i kx) h \<longleftrightarrow> (\<forall>a. rightful W C rq h (EvView t i a) \<and> behaves W C rq b (kx a) (h @ [EvView t i a]))"
  "behaves W C rq b (AskFavourites t kf) h \<longleftrightarrow> (\<forall>a. rightful W C rq h (EvFavourites t a) \<and> behaves W C rq b (kf a) (h @ [EvFavourites t a]))"
  "behaves W C rq b (AskRecovery t kr) h \<longleftrightarrow> (\<forall>a. rightful W C rq h (EvRecovery t a) \<and> behaves W C rq b (kr a) (h @ [EvRecovery t a]))"
  "behaves W C rq b (AskSlot s n ks) h \<longleftrightarrow> (\<forall>a. (sized s \<and> (s = Active \<or> s = Streams \<or> wc_database C)) \<and> behaves W C rq b (ks a) (h @ [EvSlot s n a]))"
  "behaves W C rq b (AskOpen i ko) h \<longleftrightarrow> (\<forall>a. (wc_jobs C \<and> \<not> wc_database C) \<and> behaves W C rq b (ko a) (h @ [EvOpen i a]))"
  "behaves W C rq b (AskRate key r kb) h \<longleftrightarrow> (\<forall>a. behaves W C rq b (kb a) (h @ [EvRate key r a]))"
  "behaves W C rq b (AskShared key r kd) h \<longleftrightarrow> (\<forall>a. wc_database C \<and> behaves W C rq b (kd a) (h @ [EvShared key r a]))"
  "behaves W C rq b (AskStat m kb) h \<longleftrightarrow> (\<forall>a. (wc_jobs C \<and> \<not> wc_database C) \<and> behaves W C rq b (kb a) (h @ [EvStat m a]))"
  "behaves W C rq b (AskMeta i km) h \<longleftrightarrow> (\<forall>a. wc_database C \<and> behaves W C rq b (km a) (h @ [EvMeta i a]))"
  "behaves W C rq b (AskObject key d sz kt) h \<longleftrightarrow> (\<forall>a. wc_database C \<and> behaves W C rq b (kt a) (h @ [EvObject key d sz a]))"
  "behaves W C rq b (AskSend e kb) h \<longleftrightarrow> (\<forall>a. behaves W C rq b (kb a) (h @ [EvSend e a]))"
  "behaves W C rq b (Tell x q) h \<longleftrightarrow> provided C (EvGive x) \<and> behaves W C rq b q (h @ [EvGive x])"
  by (simp_all add: behaves_def rightful_def)

lemma behaves_deferring:
  assumes g: "provided C (EvGive g)" and "behaves W C rq (b(g := b g + 1)) p h"
  shows "behaves W C rq b (deferring g p) h"
proof -
  have q: "proper C rq h' r \<and> held h' = b(g := b g + 1) \<Longrightarrow>
      rightful W C rq h' (EvGive g) \<and> proper C rq (h' @ [EvGive g]) r \<and> held (h' @ [EvGive g]) = b" for h' r
    using g by (auto simp: rightful_def fun_eq_iff intro: proper_more)
  from assms(2) have "along (rightful W C rq) (\<lambda>h r. rightful W C rq h (EvGive g) \<and> proper C rq (h @ [EvGive g]) r
      \<and> held (h @ [EvGive g]) = b) p h"
    unfolding behaves_def by (rule along_mono) (use q in \<open>blast+\<close>)
  then show ?thesis unfolding behaves_def by (rule along_deferring[where Q = "\<lambda>h r. proper C rq h r \<and> held h = b"])
qed

lemma still_simps [simp]:
  "still (EvDone c a)" "still (EvPair p s)" "still (EvText u x)" "still (EvView t i v)" "still (EvFavourites t f)"
  "still (EvRecovery t rs)" "still (EvRate key r ok)" "still (EvShared key r d)" "still (EvSlot sl n False)"
  "still (EvOpen i (Inl e))" "still (EvStat m ok)" "still (EvMeta i q)" "still (EvObject key dg n x)" "still (EvSend ev ok)"
  by (simp_all add: still_def)

text \<open>The events grow, and what was established before stays.\<close>

lemma visitor_grow: "visitor C rq h t c \<Longrightarrow> set h \<subseteq> set h' \<Longrightarrow> visitor C rq h' t c"
  by (auto simp: visitor_def)

lemma rate_grow: "within_rate C h key r \<Longrightarrow> set h \<subseteq> set h' \<Longrightarrow> within_rate C h' key r"
  by (auto simp: within_rate_def)

lemma entitled_grow: "entitled C rq h t \<Longrightarrow> set h \<subseteq> set h' \<Longrightarrow> entitled C rq h' t"
  by (auto simp: entitled_def visitor_def)

lemma status_mem [simp]:
  "200 \<in> set statuses" "204 \<in> set statuses" "400 \<in> set statuses" "403 \<in> set statuses" "404 \<in> set statuses"
  "405 \<in> set statuses" "409 \<in> set statuses" "410 \<in> set statuses" "413 \<in> set statuses" "414 \<in> set statuses"
  "415 \<in> set statuses" "421 \<in> set statuses" "429 \<in> set statuses" "503 \<in> set statuses"
  by (simp_all add: statuses_def)

lemmas grow = visitor_grow rate_grow entitled_grow

text \<open>Replies where the response that the handler is building is ready.\<close>

named_theorems replies \<open>replies that behave\<close>

lemma reply_page [replies]: "ready b h w \<Longrightarrow> pg_csrf p = '''' \<or> (\<exists>t. visitor C rq h t (pg_csrf p)) \<Longrightarrow>
    behaves W C rq b (Reply (web_page rq w p)) h"
  and reply_fail [replies]: "ready b h w \<Longrightarrow> st \<in> set statuses \<Longrightarrow> behaves W C rq b (Reply (web_fail rq w st msg)) h"
  and reply_fail_error [replies]: "ready b h w \<Longrightarrow> st \<in> set statuses \<Longrightarrow> behaves W C rq b (Reply (fail_error rq w e st)) h"
  and reply_error [replies]: "ready b h w \<Longrightarrow> st \<in> set statuses \<Longrightarrow> behaves W C rq b (Reply (http_error w msg st)) h"
  and reply_not_found [replies]: "ready b h w \<Longrightarrow> behaves W C rq b (Reply (not_found w)) h"
  and reply_redirect [replies]: "ready b h w \<Longrightarrow> behaves W C rq b (Reply (redirect w target)) h"
  and reply_plain [replies]: "ready b h w \<Longrightarrow> st \<in> set statuses \<Longrightarrow> behaves W C rq b (Reply (w\<lparr>hr_status := st\<rparr>)) h"
  and reply_body [replies]: "ready b h w \<Longrightarrow> secret_of bd = '''' \<or> (\<exists>t. visitor C rq h t (secret_of bd)) \<Longrightarrow>
    behaves W C rq b (Reply (w\<lparr>hr_body := bd\<rparr>)) h"
  and reply_gone [replies]: "ready b h w \<Longrightarrow> secret_of bd = '''' \<Longrightarrow> st \<in> set statuses \<Longrightarrow>
    behaves W C rq b (Reply (w\<lparr>hr_status := st, hr_body := bd\<rparr>)) h"
  and reply_image [replies]: "ready b h w \<Longrightarrow> shared_body bd \<Longrightarrow>
    behaves W C rq b (Reply ((image_headers rq i d w)\<lparr>hr_body := bd\<rparr>)) h"
  and reply_asset [replies]: "ready b h w \<Longrightarrow> behaves W C rq b (Reply ((set_header ''Cache-Control'' v w)\<lparr>hr_body := Asset a\<rparr>)) h"
  and reply_ready: "ready b h w \<Longrightarrow> behaves W C rq b (Reply w) h"
  by (erule behaves_reply, rule proper_intros proper_started, assumption+)+

section \<open>Sessions and limits\<close>

lemma with_session_behaves:
  assumes r: "ready b h w"
    and k: "\<And>h' s. ready b h' w \<Longrightarrow> set h \<subseteq> set h' \<Longrightarrow> (\<And>t c. s = Inr (t, c) \<Longrightarrow> visitor C rq h' t c) \<Longrightarrow>
      behaves W C rq b (k s) h'"
  shows "behaves W C rq b (with_session C rq k) h"
proof (cases "rq_cookie rq (cookie_name C)")
  case None
  then show ?thesis using k[OF r, of "Inl ErrExpired"] by (simp add: with_session_def)
next
  case (Some v)
  have "behaves W C rq b (k s) (h @ [EvPair (CallSession v) s])" for s
    by (rule k[OF ready_snoc[OF r]]) (auto simp: visitor_def Some)
  then show ?thesis by (simp add: with_session_def Some behaves_asks rightful_def)
qed

lemma web_touch_behaves:
  assumes r: "ready b h w" and k: "\<And>h' w'. ready b h' w' \<Longrightarrow> set h \<subseteq> set h' \<Longrightarrow> behaves W C rq b (k w') h'"
  shows "behaves W C rq b (web_touch C rq w k) h"
proof (cases "wc_persistent C")
  case True
  have "behaves W C rq b (case s of Inl e \<Rightarrow> if e = ErrExpired then k w
        else if rq_method rq = ''GET'' \<and> (rq_path rq = ''/'' \<or> rq_path rq = ''/about'') then k w
        else Reply (web_fail rq w 503 (err_text ErrUnavailable))
      | Inr (t, csrf) \<Rightarrow> AskDone (CallTouch t) (\<lambda>e. case e of
          Some e \<Rightarrow> Reply (web_fail rq w 503 (err_text ErrUnavailable)) | None \<Rightarrow> k (web_set_cookie C t w))) h'"
    if h': "ready b h' w" "set h \<subseteq> set h'" "\<And>t c. s = Inr (t, c) \<Longrightarrow> visitor C rq h' t c" for h' s
  proof (cases s)
    case (Inl e)
    then show ?thesis using k[OF h'(1,2)] by (auto intro!: replies[OF h'(1)])
  next
    case (Inr a)
    obtain t c where a: "a = (t, c)" by force
    obtain v where v: "EvPair (CallSession v) (Inr (t, c)) \<in> set h'" using h'(3) Inr a by (auto simp: visitor_def)
    have "behaves W C rq b (case e of Some e \<Rightarrow> Reply (web_fail rq w 503 (err_text ErrUnavailable))
        | None \<Rightarrow> k (web_set_cookie C t w)) (h' @ [EvDone (CallTouch t) e])" for e
    proof -
      have r1: "ready b (h' @ [EvDone (CallTouch t) e]) w" by (rule ready_snoc[OF h'(1)]) simp
      then have "ready b (h' @ [EvDone (CallTouch t) e]) (web_set_cookie C t w)"
        using v by (auto simp: ready_def intro: started_cookie)
      with h'(2) have "behaves W C rq b (k (web_set_cookie C t w)) (h' @ [EvDone (CallTouch t) e])" by (intro k) auto
      then show ?thesis using reply_fail[OF r1, where st = 503 and C = C and W = W and rq = rq] by (cases e) simp_all
    qed
    moreover have "\<exists>c. visitor C rq h' t c" using h'(3) Inr a by blast
    ultimately show ?thesis using True by (simp add: Inr a behaves_asks rightful_def)
  qed
  with True show ?thesis by (simp add: web_touch_def with_session_behaves[OF r])
qed (use k[OF r] in \<open>simp add: web_touch_def\<close>)

lemma allow_expensive_behaves:
  assumes r: "ready b h w"
    and k: "\<And>h'. ready b h' w \<Longrightarrow> set h \<subseteq> set h' \<Longrightarrow> within_rate C h' key rt \<Longrightarrow> behaves W C rq b k h'"
  shows "behaves W C rq b (allow_expensive C rq w key rt k) h"
proof -
  have full: "behaves W C rq b (Reply (web_fail rq (set_header ''X-Art-Limit'' v w) 429 msg)) h'" if "ready b h' w" for h' v msg
    using that by (intro replies ready_header) simp_all
  have 1: "ready b (h @ [EvRate key rt ok]) w" "ready b (h @ [EvShared q rt a]) w" for ok q a
    using r by (auto intro: ready_snoc)
  have 2: "behaves W C rq b k (h @ [EvRate key rt True])"
    "behaves W C rq b k (h @ [EvShared (p_profile (wc_limits C) @ '':'' @ key) rt (Inr True)])"
    using 1 by (auto intro!: k simp: within_rate_def)
  have 3: "behaves W C rq b (Reply (fail_error rq w e 503)) (h @ [EvShared q rt a])" for e q a
    by (intro replies 1) simp
  show ?thesis
    using 2 3 full[OF 1(1)] full[OF 1(2)]
    by (simp add: allow_expensive_def behaves_asks Let_def split: sum.split)
qed

lemma allow_generation_behaves:
  assumes r: "ready b h w"
    and k: "\<And>h'. ready b h' w \<Longrightarrow> set h \<subseteq> set h' \<Longrightarrow> paid W C rq h' t \<Longrightarrow> behaves W C rq b k h'"
  shows "behaves W C rq b (allow_generation W C rq w t k) h"
  unfolding allow_generation_def
  by (intro allow_expensive_behaves[OF r] allow_expensive_behaves k) (auto simp: paid_def intro: grow)

section \<open>Images\<close>

lemma reserve_image_behaves:
  assumes r: "ready b h w" and db: "wc_database C" and n: "1 \<le> n" "n \<le> max_image"
    and busy: "\<And>h' reason. ready b h' w \<Longrightarrow> behaves W C rq b (busy reason) h'"
    and k: "\<And>b' h'. ready b' h' w \<Longrightarrow> set h \<subseteq> set h' \<Longrightarrow> behaves W C rq b' k h'"
  shows "behaves W C rq b (reserve_image C n busy k) h"
proof -
  let ?wait = "p_image_wait (wc_limits C)"
  let ?h1 = "h @ [EvSlot Images ?wait True]" and ?n = "ImageBytes n"
  have e: "ready b (?h1 @ [EvSlot ?n ?wait False, EvGive (Release Images)]) w"
    "ready b (h @ [EvSlot Images ?wait False]) w"
    "ready ((b(Release Images := b (Release Images) + 1))(Release ?n := b (Release ?n) + 1)) (?h1 @ [EvSlot ?n ?wait True]) w"
    using r by (auto simp: ready_def fun_eq_iff held_def intro!: started_more)
  have k': "behaves W C rq (b(Release Images := b (Release Images) + 1)) (deferring (Release ?n) k) (?h1 @ [EvSlot ?n ?wait True])"
    using k[OF e(3)] n by (intro behaves_deferring) auto
  show ?thesis
    using busy[OF e(1)] busy[OF e(2)] behaves_deferring[OF _ k'] db n
    by (simp add: reserve_image_def Let_def behaves_asks all_bool_eq)
qed

lemma object_image_behaves: "ready b h w \<Longrightarrow> wc_database C \<Longrightarrow> behaves W C rq b (object_image C rq w) h"
proof -
  assume r: "ready b h w" and db: "wc_database C"
  let ?i = "image_id rq"
  have busy: "behaves W C rq b' (Reply (web_fail rq (set_header ''X-Art-Limit'' v w) 503 msg)) h'" if "ready b' h' w" for b' h' v msg
    using that by (intro replies ready_header) simp_all
  have obj: "behaves W C rq b' (AskObject (am_key m) (am_digest m) (am_size m) (\<lambda>d. case d of
      Inl e \<Rightarrow> if e = ErrNotExist then AskDone (CallMissing ?i (am_key m)) (\<lambda>e. case e of
            Some e \<Rightarrow> Reply (fail_error rq w e 503) | None \<Rightarrow> Reply (web_fail rq w 410 ''This image has expired.''))
          else Reply (web_fail rq w 503 ''Image storage is temporarily unavailable.'')
    | Inr d \<Rightarrow> Reply ((image_headers rq ?i (am_digest m) w)\<lparr>hr_body := Bytes d\<rparr>))) h'"
    if "ready b' h' w" "set (h @ [EvMeta ?i (Inr m)]) \<subseteq> set h'" for b' h' m
    using that db by (auto simp: behaves_asks rightful_def simp del: append_assoc split: sum.split option.split intro!: replies ready_snoc)
  have "ready b (h @ [EvMeta ?i a]) w" for a using r by (simp add: ready_snoc)
  then show ?thesis
    using r db by (auto simp: object_image_def Let_def behaves_asks split: sum.split
      intro!: replies reserve_image_behaves[OF _ db _ _ busy obj])
qed

lemma web_image_behaves: "ready b h w \<Longrightarrow> behaves W C rq b (web_image C rq w) h"
proof -
  assume r: "ready b h w"
  let ?i = "image_id rq"
  have "behaves W C rq b (deferring (CloseFile n) (AskStat n (\<lambda>ok. if \<not> ok then Reply (not_found w)
      else Reply ((image_headers rq ?i d w)\<lparr>hr_body := File n\<rparr>)))) (h @ [EvOpen ?i (Inr (n, d))])"
    if "wc_jobs C" "\<not> wc_database C" for n d
  proof (rule behaves_deferring)
    show "provided C (EvGive (CloseFile n))" by simp
    have "ready (b(CloseFile n := b (CloseFile n) + 1)) (h @ [EvOpen ?i (Inr (n, d))]) w"
      using r by (auto simp: ready_def fun_eq_iff intro: started_more)
    then show "behaves W C rq (b(CloseFile n := b (CloseFile n) + 1)) (AskStat n (\<lambda>ok. if \<not> ok then Reply (not_found w)
        else Reply ((image_headers rq ?i d w)\<lparr>hr_body := File n\<rparr>))) (h @ [EvOpen ?i (Inr (n, d))])"
      using that by (auto simp: behaves_asks simp del: append_assoc intro!: replies ready_snoc)
  qed
  moreover have "ready b (h @ [EvOpen ?i (Inl e)]) w" for e using r by (simp add: ready_snoc)
  moreover have g: "behaves W C rq b (Reply ((set_header ''Content-Type'' v w)\<lparr>hr_status := 410, hr_body := Text t\<rparr>)) h'"
    if "ready b h' w" for h' v t using that by (intro replies ready_header) simp_all
  ultimately show ?thesis
    using r by (auto simp: web_image_def Let_def behaves_asks object_image_behaves split: sum.split intro!: replies g)
qed

section \<open>Reading\<close>

lemma new_page_csrf [simp]: "pg_csrf (new_page title kind) = ''''"
  by (simp add: new_page_def)

lemma with_batches_csrf [simp]: "pg_csrf (with_batches x p) = pg_csrf p" "pg_csrf (with_labels x p) = pg_csrf p"
  by (simp_all add: with_batches_def with_labels_def Let_def)

lemma studio_page_csrf: "studio_page rq c parts x = Some p \<Longrightarrow> pg_csrf p = c"
  by (auto simp: studio_page_def Let_def split: if_splits)

lemma rightful_show: "visitor C rq h t c \<Longrightarrow> rightful W C rq h (EvView t i x)"
    "visitor C rq h t c \<Longrightarrow> rightful W C rq h (EvFavourites t f)"
    "visitor C rq h t c \<Longrightarrow> rightful W C rq h (EvRecovery t rs)"
  by (auto simp: rightful_def)

lemma get_exploration_behaves:
  assumes r: "ready b h w" and v: "visitor C rq h t c"
  shows "behaves W C rq b (get_exploration C rq w t c) h"
proof -
  have 1: "ready b (h @ [EvView t i x]) w" for i x using r by (simp add: ready_snoc)
  have 2: "behaves W C rq b (Reply ((set_header ''Content-Type'' u w)\<lparr>hr_body := Fragment p\<rparr>)) (h @ [EvView t i x])"
    if "pg_csrf p = c" for u p i x
    using visitor_more[OF v] that by (intro replies ready_header 1) auto
  have 3: "behaves W C rq b (Reply (web_page rq w p)) (h @ [EvView t i x])" if "pg_csrf p = c" for p i x
    using visitor_more[OF v] that by (intro replies 1) auto
  show ?thesis
    using r by (auto simp: get_exploration_def Let_def behaves_asks rightful_show[OF v] studio_page_csrf
        split: sum.split option.split intro!: replies 1 2 3)
qed

lemma get_recovery_behaves:
  assumes r: "ready b h w" and v: "visitor C rq h t c"
  shows "behaves W C rq b (get_recovery C rq w t export) h"
proof -
  have 1: "ready b (h @ [EvRecovery t x]) w" for x using r by (simp add: ready_snoc)
  have 2: "ready b (h @ [EvRecovery t x]) (set_header ''Content-Type'' u w)" 
    "ready b (h @ [EvRecovery t x]) (set_header ''Content-Disposition'' u' (set_header ''Content-Type'' u w))" for x u u'
    by (intro ready_header 1; simp)+
  have "behaves W C rq b (Reply (w'\<lparr>hr_body := RecoveryFile rs\<rparr>)) h'" "behaves W C rq b (Reply w') h'"
    if "ready b h' w'" for h' w' rs using reply_body[OF that] reply_ready[OF that] by simp_all
  note 3 = this[OF 2(1)] this[OF 2(2)] reply_fail_error[OF 1]
  show ?thesis by (simp add: get_recovery_def Let_def behaves_asks rightful_show[OF v] 3 split: sum.split)
qed

lemma get_favourites_behaves:
  assumes r: "ready b h w"
  shows "behaves W C rq b (get_favourites C rq w) h"
  unfolding get_favourites_def Let_def
proof (rule with_session_behaves[OF r])
  fix h' and s :: "(string \<times> string) res"
  assume h': "ready b h' w" "\<And>t c. s = Inr (t, c) \<Longrightarrow> visitor C rq h' t c"
  have 1: "ready b (h' @ [EvFavourites t x]) w" for t x using h'(1) by (simp add: ready_snoc)
  have 2: "\<forall>t c. s = Inr (t, c) \<longrightarrow> (\<forall>e. visitor C rq (h' @ [e]) t c) \<and> (\<forall>f. rightful W C rq h' (EvFavourites t f))"
    using h'(2) by (auto intro: visitor_more rightful_show)
  show "behaves W C rq b (case s of
      Inl e \<Rightarrow> Reply (if e \<noteq> ErrExpired then fail_error rq w e 503 else web_page rq w (new_page ''Favourites'' ''favourites''))
    | Inr (t, csrf) \<Rightarrow> AskFavourites t (\<lambda>fs. case fs of Inl e \<Rightarrow> Reply (fail_error rq w e 410)
        | Inr fs \<Rightarrow> Reply (web_page rq w ((new_page ''Favourites'' ''favourites'')\<lparr>pg_csrf := csrf, pg_favourites := fs\<rparr>)))) h'"
    using 2 by (auto simp: behaves_asks split: sum.split intro!: replies h'(1) 1) blast
qed

lemma get_art_behaves:
  assumes r: "ready b h w"
  shows "behaves W C rq b (get_art C rq w) h"
proof -
  have "behaves W C rq b (case s of Inl e \<Rightarrow> Reply (if e \<noteq> ErrExpired then fail_error rq w e 503 else web_page rq w p)
      | Inr (t, csrf) \<Rightarrow> Reply (web_page rq w (p\<lparr>pg_csrf := csrf\<rparr>))) h'"
    if "ready b h' w" "\<And>t c. s = Inr (t, c) \<Longrightarrow> visitor C rq h' t c" "pg_csrf p = ''''" for h' s p
    using that(2,3) by (auto split: sum.split intro!: replies that(1))
  then show ?thesis
    using r by (auto simp: get_art_def Let_def split: option.split intro!: reply_not_found with_session_behaves[OF r])
qed

lemma get_asset_behaves: "ready b h w \<Longrightarrow> behaves W C rq b (get_asset C rq w) h"
  by (simp add: get_asset_def Let_def replies)

lemma web_get_behaves:
  assumes r: "ready b h w"
  shows "behaves W C rq b (web_get C rq w) h"
proof -
  have 1: "ready b (h @ [EvDone CallSchema x]) w" for x using r by (simp add: ready_snoc)
  have ses: "behaves W C rq b (with_session C rq (\<lambda>s. case s of Inl e \<Rightarrow> Reply (fail_error rq w e 410)
      | Inr (t, csrf) \<Rightarrow> if rq_path rq = ''/recovery'' then get_recovery C rq w t False
          else if rq_path rq = ''/export'' then get_recovery C rq w t True else get_exploration C rq w t csrf)) h"
    by (rule with_session_behaves[OF r])
      (auto split: sum.split intro!: replies get_recovery_behaves get_exploration_behaves)
  have health: "wc_database C \<Longrightarrow> behaves W C rq b (AskDone CallSchema (\<lambda>e. case e of Some e \<Rightarrow> Reply (http_error w ''storage unavailable'' 503)
      | None \<Rightarrow> Reply (w\<lparr>hr_status := 204\<rparr>))) h"
    by (auto simp: behaves_asks rightful_def split: option.split intro!: replies 1)
  show ?thesis
    unfolding web_get_def Let_def
    by (intro behaves_if ses health replies r web_image_behaves get_asset_behaves get_favourites_behaves get_art_behaves)
      simp_all
qed

section \<open>Acting\<close>

lemma rightful_act:
  "entitled C rq h t \<Longrightarrow> rightful W C rq h (EvDone (CallChoices t i n sty col) a)"
  "entitled C rq h t \<Longrightarrow> rightful W C rq h (EvDone (CallFavourite t i sid n on) a)"
  "entitled C rq h t \<Longrightarrow> rightful W C rq h (EvDone (CallCancel t i n bid) a)"
  "entitled C rq h t \<Longrightarrow> rightful W C rq h (EvDone (CallClear t) a)"
  "entitled C rq h t \<Longrightarrow> rightful W C rq h (EvText (CallRestore t recipes) u)"
  "entitled C rq h t \<Longrightarrow> paid W C rq h t \<Longrightarrow> rightful W C rq h (EvDone (CallDownload t i sid) a)"
  "entitled C rq h t \<Longrightarrow> paid W C rq h t \<Longrightarrow> rightful W C rq h (EvText (CallEnter t art sty col aid) u)"
  "entitled C rq h t \<Longrightarrow> paid W C rq h t \<Longrightarrow> rightful W C rq h (EvText (CallRetry t i n aid bid) u)"
  "entitled C rq h t \<Longrightarrow> paid W C rq h t \<Longrightarrow> rightful W C rq h (EvText (CallGenerate t i n aid sel different) u)"
  by (simp_all add: rightful_def)

lemma or_create_behaves:
  assumes r: "ready b h w" and site: "from_site C rq" and s: "\<And>t. session = Some t \<Longrightarrow> entitled C rq h t"
    and k: "\<And>h' t w'. ready b h' w' \<Longrightarrow> set h \<subseteq> set h' \<Longrightarrow> entitled C rq h' t \<Longrightarrow> behaves W C rq b (k t w') h'"
  shows "behaves W C rq b (or_create C rq w session k) h"
proof (cases session)
  case None
  have 1: "ready b (h @ [EvPair CallCreate a]) w" for a using r by (simp add: ready_snoc)
  have "behaves W C rq b (k t (web_set_cookie C t w)) (h @ [EvPair CallCreate (Inr (t, c))])" for t c
  proof (rule k)
    show "ready b (h @ [EvPair CallCreate (Inr (t, c))]) (web_set_cookie C t w)"
      using 1[of "Inr (t, c)"] by (auto simp: ready_def intro: started_cookie)
    show "entitled C rq (h @ [EvPair CallCreate (Inr (t, c))]) t" using site by (auto simp: entitled_def)
  qed auto
  then show ?thesis
    using None site reply_fail[OF 1] by (auto simp: or_create_def behaves_asks rightful_def split: sum.split)
next
  case (Some t)
  then show ?thesis using k[OF r _ s] by (simp add: or_create_def)
qed

lemma start_reply_behaves: "ready b h w \<Longrightarrow> behaves W C rq b (start_reply rq w r) h"
  by (auto simp: start_reply_def split: sum.split intro!: replies)

lemma action_reply_behaves: "ready b h w \<Longrightarrow> behaves W C rq b (action_reply rq w target e) h"
  by (auto simp: action_reply_def action_status_def split: option.split intro!: replies)

lemma text_reply_behaves: "ready b h w \<Longrightarrow> behaves W C rq b (text_reply rq w target r) h"
  unfolding text_reply_def by (rule action_reply_behaves)

lemma post_explorations_behaves:
  assumes r: "ready b h w" and site: "from_site C rq" and s: "\<And>t. session = Some t \<Longrightarrow> entitled C rq h t"
  shows "behaves W C rq b (post_explorations W C rq form w session) h"
proof -
  have enter: "behaves W C rq b (AskText (CallEnter t art sty col aid) (start_reply rq w')) h'"
    if "ready b h' w'" "entitled C rq h' t" "paid W C rq h' t" for h' w' t art sty col aid
    using that by (simp add: behaves_asks rightful_act start_reply_behaves ready_snoc)
  show ?thesis
    unfolding post_explorations_def Let_def
    by (auto split: sum.split intro!: replies r or_create_behaves[OF r site s] allow_generation_behaves enter intro: grow)
qed

lemma post_restore_behaves:
  assumes r: "ready b h w" and site: "from_site C rq" and s: "\<And>t. session = Some t \<Longrightarrow> entitled C rq h t"
  shows "behaves W C rq b (post_restore W C rq form w session) h"
proof -
  have restore: "behaves W C rq b (AskText (CallRestore t rs) (start_reply rq w')) h'"
    if "ready b h' w'" "entitled C rq h' t" for h' w' t rs
    using that by (simp add: behaves_asks rightful_act start_reply_behaves ready_snoc)
  show ?thesis
    unfolding post_restore_def
    by (auto split: sum.split intro!: replies r or_create_behaves[OF r site s] restore)
qed

lemma post_clear_behaves:
  assumes r: "ready b h w" and e: "entitled C rq h t"
  shows "behaves W C rq b (post_clear C rq form w t) h"
proof -
  have 1: "ready b (h @ [EvDone (CallClear t) a]) w" for a using r by (simp add: ready_snoc)
  then have "ready b (h @ [EvDone (CallClear t) None]) (web_set_cookie C '''' w)"
    by (auto simp: ready_def started_def secured_def cookies_ok_def web_set_cookie_def cookie_name_def)
  from reply_redirect[OF this] reply_fail_error[OF 1] reply_fail[OF r] show ?thesis
    by (simp add: post_clear_def behaves_asks rightful_act(4)[OF e] split: option.split)
qed

lemma perform_behaves:
  assumes r: "ready b h w" and e: "entitled C rq h t"
    and p: "operation = ''batches'' \<or> operation = ''similar'' \<or> operation = ''download'' \<Longrightarrow> paid W C rq h t"
  shows "behaves W C rq b (perform rq form w t i n operation) h"
proof -
  have 1: "ready b (h @ [EvDone d a]) w" "ready b (h @ [EvText u x]) w" for d a u x using r by (simp_all add: ready_snoc)
  note 2 = action_reply_behaves[OF 1(1)] text_reply_behaves[OF 1(2)]
  show ?thesis
    unfolding perform_def Let_def
    by (intro behaves_if) (simp_all add: behaves_asks 2 rightful_act e p reply_fail[OF r] reply_not_found[OF r])
qed

lemma post_action_behaves:
  assumes r: "ready b h w" and e: "entitled C rq h t"
  shows "behaves W C rq b (post_action W C rq form w t) h"
proof -
  have go: "behaves W C rq b (perform rq form w t i n operation) h'"
    if "ready b h' w" "set h \<subseteq> set h'" "paid W C rq h' t" for h' i n operation
    using that entitled_grow[OF e that(2)] by (intro perform_behaves) auto
  have free: "behaves W C rq b (perform rq form w t i n operation) h"
    if "\<not> (operation = ''batches'' \<or> operation = ''similar'' \<or> operation = ''download'')" for i n operation
    using that by (intro perform_behaves r e) auto
  show ?thesis
    unfolding post_action_def Let_def
    by (intro behaves_if replies r allow_generation_behaves[OF r] go free) simp_all
qed

lemma post_session_behaves:
  assumes r: "ready b h w" and site: "from_site C rq" and s: "\<And>t. session = Some t \<Longrightarrow> entitled C rq h t"
  shows "behaves W C rq b (post_session W C rq form w session) h"
proof -
  have start: "behaves W C rq b (allow_expensive C rq w key rt (if rq_path rq = ''/explorations''
      then post_explorations W C rq form w session else post_restore W C rq form w session)) h" for key rt
  proof (intro allow_expensive_behaves[OF r] behaves_if)
    fix h' assume h': "ready b h' w" "set h \<subseteq> set h'"
    have s': "entitled C rq h' t" if "session = Some t" for t using entitled_grow[OF s[OF that] h'(2)] .
    show "behaves W C rq b (post_explorations W C rq form w session) h'"
      "behaves W C rq b (post_restore W C rq form w session) h'"
      by (rule post_explorations_behaves[OF h'(1) site s'] post_restore_behaves[OF h'(1) site s'], assumption)+
  qed
  have "behaves W C rq b (case session of None \<Rightarrow> Reply (web_fail rq w 410 (err_text ErrExpired))
      | Some t \<Rightarrow> if rq_path rq = ''/clear'' then post_clear C rq form w t else post_action W C rq form w t) h"
    using s by (auto split: option.split intro!: replies r post_clear_behaves post_action_behaves)
  then show ?thesis unfolding post_session_def Let_def by (intro behaves_if start)
qed

lemma web_post_behaves:
  assumes r: "ready b h w" and site: "from_site C rq" and f: "rq_form rq = Some form"
  shows "behaves W C rq b (web_post W C rq form w) h"
  unfolding web_post_def
proof (rule with_session_behaves[OF r])
  fix h' and s :: "(string \<times> string) res"
  assume h': "ready b h' w" "\<And>t c. s = Inr (t, c) \<Longrightarrow> visitor C rq h' t c"
  have e: "entitled C rq h' t" if "s = Inr (t, form_get form ''csrf'')" for t
    using h'(2)[OF that] site f by (auto simp: entitled_def)
  show "behaves W C rq b (case s of
      Inl e \<Rightarrow> if e \<noteq> ErrExpired then Reply (fail_error rq w e 503) else post_session W C rq form w None
    | Inr (t, csrf) \<Rightarrow> if form_get form ''csrf'' \<noteq> csrf
        then Reply (web_fail rq w 403 ''This form has expired. Refresh the page before trying again.'')
        else post_session W C rq form w (Some t)) h'"
    using e by (auto split: sum.split intro!: replies h'(1) post_session_behaves[OF h'(1) site])
qed

section \<open>Streams and admission\<close>

lemma web_snapshot_behaves:
  assumes r: "ready b h w" and v: "visitor C rq h t c"
    and k: "\<And>h' s. ready b h' w \<Longrightarrow> visitor C rq h' t c \<Longrightarrow> behaves W C rq b (k s) h'"
  shows "behaves W C rq b (web_snapshot W C rq t i k) h"
  unfolding web_snapshot_def
proof (rule with_session_behaves[OF r])
  fix h' and s :: "(string \<times> string) res"
  assume h': "ready b h' w" "set h \<subseteq> set h'"
  have v': "visitor C rq h' t c" using v h'(2) by (rule grow)
  have 1: "behaves W C rq b (k s) (h' @ [EvView t i x])" for s x
    by (rule k[OF ready_snoc[OF h'(1)] visitor_more[OF v']]) simp
  show "behaves W C rq b (case s of Inl e \<Rightarrow> k None
      | Inr _ \<Rightarrow> AskView t i (\<lambda>x. case x of Inl e \<Rightarrow> k None
          | Inr x \<Rightarrow> k (case wl_marshal W x of Inl e \<Rightarrow> None | Inr b \<Rightarrow> Some b))) h'"
    using k[OF h'(1) v'] 1 by (simp add: behaves_asks rightful_show[OF v'] split: sum.split)
qed

lemma stream_behaves: "ready b h w \<Longrightarrow> visitor C rq h t c \<Longrightarrow> behaves W C rq b (stream W C rq w t i n previous) h"
proof (induction n arbitrary: h previous)
  case 0
  then show ?case by (simp add: reply_ready)
next
  case (Suc n)
  have "behaves W C rq b (case s of None \<Rightarrow> Reply w
      | Some d \<Rightarrow> AskSend (if d \<noteq> previous then ''changed'' else ''heartbeat'') (\<lambda>ok.
          if ok then stream W C rq w t i n d else Reply w)) h'" if "ready b h' w" "visitor C rq h' t c" for h' s
    using that Suc.IH reply_ready by (auto simp: behaves_asks visitor_more ready_snoc split: option.split)
  from web_snapshot_behaves[OF Suc.prems this] show ?case by simp
qed

lemma web_events_behaves:
  assumes r: "ready b h w"
  shows "behaves W C rq b (web_events W C rq w) h"
proof -
  let ?i = "trim_prefix ''/events/'' (rq_path rq)" and ?b = "b(Release Streams := b (Release Streams) + 1)"
  let ?w = "set_header ''X-Accel-Buffering'' ''no'' (set_header ''Cache-Control'' ''no-store''
    (set_header ''Content-Type'' ''text/event-stream'' w))"
  have w: "ready b' h' ?w" if "ready b' h' w" for b' h'
    using that by (auto simp: ready_def intro!: started_header started_no_store)
  have send: "behaves W C rq ?b (case s of None \<Rightarrow> Reply (http_error w ''unavailable'' 503)
      | Some d \<Rightarrow> AskSend ''snapshot'' (\<lambda>ok. if \<not> ok then Reply ?w else stream W C rq ?w t ?i (rq_wakeups rq) d)) h'"
    if "ready ?b h' w" "visitor C rq h' t c" for s h' t c
    using that w[OF ready_snoc[OF that(1)]] reply_ready stream_behaves[OF _ visitor_more[OF that(2)]]
    by (auto simp: behaves_asks split: option.split intro!: reply_error)
  have 1: "ready ?b (h @ [EvSlot Streams 0 True]) w" "ready b (h @ [EvSlot Streams 0 False]) w"
    using r by (auto simp: ready_def fun_eq_iff intro: started_more)
  have "behaves W C rq ?b (with_session C rq (\<lambda>s. case s of Inl e \<Rightarrow> Reply (fail_error rq w e 410)
      | Inr (t, csrf) \<Rightarrow> web_snapshot W C rq t ?i (\<lambda>previous. case previous of
            None \<Rightarrow> Reply (http_error w ''unavailable'' 503)
          | Some d \<Rightarrow> AskSend ''snapshot'' (\<lambda>ok. if \<not> ok then Reply ?w else stream W C rq ?w t ?i (rq_wakeups rq) d))))
      (h @ [EvSlot Streams 0 True])"
    by (rule with_session_behaves[OF 1(1)])
      (auto split: sum.split intro!: reply_fail_error web_snapshot_behaves send)
  from behaves_deferring[OF _ this] show ?thesis
    using r 1(2) by (auto simp: web_events_def Let_def behaves_asks all_bool_eq intro!: reply_not_found reply_error)
qed

lemma admit_post_behaves:
  assumes r: "ready b h w" and host: "rq_host rq = wc_host C"
  shows "behaves W C rq b (admit_post W C rq w) h"
proof -
  have m: "behaves W C rq b (Reply (http_error (set_header ''Allow'' v w) msg 405)) h" for v msg
    by (intro reply_error ready_header r) simp_all
  have "behaves W C rq b (web_touch C rq w (\<lambda>w.
      if rq_header rq ''Content-Type'' \<noteq> ''application/x-www-form-urlencoded''
      then Reply (web_fail rq w 415 ''This form could not be read.'')
      else case rq_form rq of None \<Rightarrow> Reply (web_fail rq w 413 ''This form is too large.'')
        | Some form \<Rightarrow> if rq_query rq \<noteq> '''' then Reply (web_fail rq w 400 ''Unexpected query values.'')
            else case form_error form of Some message \<Rightarrow> Reply (web_fail rq w 400 message)
              | None \<Rightarrow> web_post W C rq form w)) h" if "from_site C rq"
    by (rule web_touch_behaves[OF r]) (auto split: option.split intro!: reply_fail web_post_behaves that)
  then show ?thesis
    using m r host by (auto simp: admit_post_def from_site_def intro!: reply_fail)
qed

lemma serve_admitted_behaves:
  assumes r: "ready b h w" and host: "rq_host rq = wc_host C"
  shows "behaves W C rq b (serve_admitted W C rq w) h"
proof -
  have go: "behaves W C rq b (if \<not> ok then Reply (web_fail rq (set_header ''X-Art-Limit'' v w) 429 msg)
      else if rq_method rq = ''GET'' \<or> rq_method rq = ''HEAD'' then
        (if rq_method rq = ''GET'' \<and> \<not> quiet_path (rq_path rq) then web_touch C rq w (web_get C rq) else web_get C rq w)
      else admit_post W C rq w) h'" if "ready b h' w" for h' ok v msg
    by (intro behaves_if reply_fail ready_header web_touch_behaves[OF that] web_get_behaves admit_post_behaves that host) simp_all
  have 1: "ready b (h @ [EvRate key rt ok]) w" for key rt ok using r by (simp add: ready_snoc)
  show ?thesis
    unfolding serve_admitted_def
    by (intro behaves_if reply_error r) (simp_all add: Let_def behaves_asks go[OF 1] del: de_Morgan_conj)
qed

lemma serve_http_behaves: "behaves W C rq (\<lambda>g. 0) (serve_http W C rq) []"
proof -
  have r: "ready (\<lambda>g. 0) [] new_response" by (simp add: ready_def started_new fun_eq_iff)
  have 1: "ready ((\<lambda>g. 0)(Release Active := 1)) [EvSlot Active 0 True] new_response"
    "ready (\<lambda>g. 0) [EvSlot Active 0 False] new_response"
    using started_more[OF started_new, of "[_]"] by (auto simp: ready_def fun_eq_iff held_def)
  show ?thesis
    unfolding serve_http_def Let_def
    by (intro behaves_if reply_error r web_events_behaves)
      (auto simp: behaves_asks all_bool_eq intro!: reply_fail 1(2) behaves_deferring serve_admitted_behaves 1(1))
qed

end
