(* ===== verification/ManagerInv.thy ===== *)
theory ManagerInv
  imports Manager
begin

text \<open>
  The invariant of the render manager and its preservation by every operation, the step relation of
  the running system, and the properties of admission, the cache and the worker.
\<close>

section \<open>The invariant\<close>

definition job_ok :: "nat \<Rightarrow> job \<Rightarrow> bool" where
  "job_ok n j \<longleftrightarrow> wfm (j_subs j) \<and> length (j_subs j) \<le> 24 \<and> j_ptr j < n"

definition inv_jobs :: "mgr \<Rightarrow> bool" where
  "inv_jobs m \<longleftrightarrow> wfm (m_jobs m) \<and> (\<forall>i j. mget (m_jobs m) i = Some j \<longrightarrow> job_ok (m_next m) j)
     \<and> length (m_jobs m) \<le> 5000"

definition inv_queue :: "mgr \<Rightarrow> bool" where
  "inv_queue m \<longleftrightarrow> distinct (m_queue m)
     \<and> (\<forall>i j. mget (m_jobs m) i = Some j \<and> j_state j = Queued \<longrightarrow> i \<in> set (m_queue m))"

definition inv_run :: "mgr \<Rightarrow> bool" where
  "inv_run m \<longleftrightarrow> (\<forall>i j. mget (m_jobs m) i = Some j \<and> j_state j = Running \<longrightarrow>
     (\<exists>r. m_run m = Some r \<and> w_id r = i \<and> w_ptr r = j_ptr j))"

definition inv_uncached :: "mgr \<Rightarrow> bool" where
  "inv_uncached m \<longleftrightarrow> (\<forall>i j. mget (m_jobs m) i = Some j \<and> active j \<longrightarrow> \<not> cached m i)"

definition inv_quota :: "mgr \<Rightarrow> bool" where
  "inv_quota m \<longleftrightarrow> queued_count m \<le> c_queue (m_cfg m) \<and> (\<forall>owner. owned_count owner m \<le> 4)"

definition inv_cache :: "mgr \<Rightarrow> bool" where
  "inv_cache m \<longleftrightarrow> wfm (m_artifacts m) \<and> m_bytes m = tot (\<lambda>i a. a_size a) (m_artifacts m)
     \<and> (\<forall>i a. mget (m_artifacts m) i = Some a \<longrightarrow> 0 \<le> a_size a)
     \<and> m_bytes m \<le> c_cache_bytes (m_cfg m) \<and> int (length (m_artifacts m)) \<le> c_cache_count (m_cfg m)"

definition readers :: "string \<Rightarrow> mgr \<Rightarrow> int" where
  "readers i m = cnt (\<lambda>n l. l_id l = i) (m_leases m)"

definition inv_leases :: "mgr \<Rightarrow> bool" where
  "inv_leases m \<longleftrightarrow> wfm (m_leases m)
     \<and> (\<forall>n l. mget (m_leases m) n = Some l \<longrightarrow> n < m_next_lease m \<and> cached m (l_id l))
     \<and> (\<forall>i a. mget (m_artifacts m) i = Some a \<longrightarrow> a_refs a = readers i m \<and> readers i m \<le> 32)
     \<and> m_open m = int (length (m_leases m)) \<and> m_open m \<le> 64"

definition inv_disk :: "golib \<Rightarrow> mgr \<Rightarrow> bool" where
  "inv_disk L m \<longleftrightarrow> wfm (m_disk m)
     \<and> (\<forall>i a. mget (m_artifacts m) i = Some a \<longrightarrow> (\<exists>b. mget (m_disk m) (png_name i) = Some b
          \<and> a_digest a = gl_sha256 L b \<and> a_size a = int (length b)))
     \<and> (\<forall>n l. mget (m_leases m) n = Some l \<longrightarrow> mget (m_disk m) (png_name (l_id l)) = Some (l_bytes l))"

definition mgr_inv :: "golib \<Rightarrow> mgr \<Rightarrow> bool" where
  "mgr_inv L m \<longleftrightarrow> config_ok (m_cfg m) \<and> inv_jobs m \<and> inv_queue m \<and> inv_run m \<and> inv_uncached m
     \<and> inv_quota m \<and> inv_cache m \<and> inv_leases m \<and> inv_disk L m"

lemma png_name_inj [simp]: "png_name i = png_name j \<longleftrightarrow> i = j"
  by (simp add: png_name_def)

lemma cached_iff: "cached m i \<longleftrightarrow> (\<exists>a. mget (m_artifacts m) i = Some a)"
  by (auto simp: cached_def)

section \<open>Eviction\<close>

text \<open>What a sequence of evictions does: artifacts without readers are forgotten one by one.\<close>

definition no_readers :: "mgr \<Rightarrow> string \<Rightarrow> bool" where
  "no_readers m i \<longleftrightarrow> \<not> a_refs (artifact_of m i) > 0"

inductive evicts :: "mgr \<Rightarrow> mgr \<Rightarrow> bool" where
  evicts_refl: "evicts m m"
| evicts_step: "no_readers m i \<Longrightarrow> d = m_disk m \<or> d = mdel (png_name i) (m_disk m) \<Longrightarrow>
    evicts (forget i d m) m' \<Longrightarrow> evicts m m'"

lemma evicts_trans: "evicts m1 m2 \<Longrightarrow> evicts m2 m3 \<Longrightarrow> evicts m1 m3"
  by (induction rule: evicts.induct) (auto intro: evicts_step)

lemma evicts_remove: "remove_artifact io i m = (m', e) \<Longrightarrow> evicts m m'"
  by (drule remove_artifact_cases) (auto simp: no_readers_def intro: evicts_refl evicts_step)

lemma evicts_oldest: "evict_oldest io m = (m', e) \<Longrightarrow> evicts m m'"
  by (drule evict_oldest_cases) (auto intro: evicts_refl evicts_remove)

lemma evicts_while: "evict_while io cond m = (m', e) \<Longrightarrow> evicts m m'"
proof (induction io cond m arbitrary: m' e rule: evict_while.induct)
  case (1 io cond m)
  show ?case
  proof (cases "cond m")
    case False
    with 1(2) show ?thesis by (simp add: evict_while.simps[of io cond m] evicts_refl)
  next
    case True
    obtain m1 e1 where o: "evict_oldest io m = (m1, e1)" by force
    note step = evicts_oldest[OF o]
    show ?thesis
    proof (cases e1)
      case None
      with 1(1)[OF _ o[symmetric]] 1(2) True o show ?thesis
        by (auto simp: evict_while.simps[of io cond m] intro: evicts_trans[OF step])
    next
      case (Some x)
      with 1(2) True o step show ?thesis by (simp add: evict_while.simps[of io cond m])
    qed
  qed
qed

lemma evict_while_done: "evict_while io cond m = (m', None) \<Longrightarrow> \<not> cond m'"
proof (induction io cond m arbitrary: m' rule: evict_while.induct)
  case (1 io cond m)
  show ?case
  proof (cases "cond m")
    case False
    with 1(2) show ?thesis by (simp add: evict_while.simps[of io cond m])
  next
    case True
    obtain m1 e1 where o: "evict_oldest io m = (m1, e1)" by force
    with 1(2) True have "e1 = None" "evict_while io cond m1 = (m', None)"
      by (auto simp: evict_while.simps[of io cond m] split: option.splits)
    with 1(1)[OF _ o[symmetric]] True show ?thesis by auto
  qed
qed

lemma evicts_prune_artifacts: "evicts m (prune_artifacts io now es m)"
proof (induction io now es m rule: prune_artifacts.induct)
  case (2 io now i a es m)
  let ?m = "if a_refs a = 0 \<and> now - a_created a > c_max_age (m_cfg m) then fst (remove_artifact io i m) else m"
  have "evicts m ?m"
    using evicts_remove[of io i m] by (cases "remove_artifact io i m") (auto intro: evicts_refl)
  with 2 show ?case by (auto intro: evicts_trans)
qed (simp add: evicts_refl)

lemma prune_evicts:
  "\<exists>m1. evicts m m1 \<and> evicts (prune_jobs now m1) (prune io now m)"
  using evicts_prune_artifacts[of m io now "m_artifacts m"]
    evicts_while[of io over_budget "prune_jobs now (prune_artifacts io now (m_artifacts m) m)"]
  unfolding prune_def by (metis prod.collapse)

text \<open>Evictions touch the artifacts, their byte count and the directory only.\<close>

lemma forget_fields [simp]:
  "m_cfg (forget i d m) = m_cfg m" "m_jobs (forget i d m) = m_jobs m" "m_queue (forget i d m) = m_queue m"
  "m_run (forget i d m) = m_run m" "m_next (forget i d m) = m_next m" "m_leases (forget i d m) = m_leases m"
  "m_open (forget i d m) = m_open m" "m_next_lease (forget i d m) = m_next_lease m"
  "m_enabled (forget i d m) = m_enabled m" "m_stopped (forget i d m) = m_stopped m"
  "m_last (forget i d m) = m_last m" "m_wake (forget i d m) = m_wake m"
  "m_artifacts (forget i d m) = mdel i (m_artifacts m)" "m_disk (forget i d m) = d"
  "m_bytes (forget i d m) = m_bytes m - a_size (artifact_of m i)"
  by (simp_all add: forget_def)

lemma evicts_fields:
  "evicts m m' \<Longrightarrow> m_cfg m' = m_cfg m \<and> m_jobs m' = m_jobs m \<and> m_queue m' = m_queue m
     \<and> m_run m' = m_run m \<and> m_next m' = m_next m \<and> m_leases m' = m_leases m \<and> m_open m' = m_open m
     \<and> m_enabled m' = m_enabled m \<and> m_stopped m' = m_stopped m \<and> m_last m' = m_last m"
  by (induction rule: evicts.induct) simp_all

lemma no_readers_lease:
  assumes "inv_leases m" "no_readers m i" "mget (m_leases m) n = Some l"
  shows "l_id l \<noteq> i"
proof
  assume l: "l_id l = i"
  with assms(1,3) obtain a where a: "mget (m_artifacts m) i = Some a"
    unfolding inv_leases_def cached_iff by blast
  with assms have "readers i m = a_refs a" "a_refs a \<le> 0"
    by (auto simp: inv_leases_def no_readers_def artifact_of_def)
  moreover have "(n, l) \<in> set (m_leases m)" using assms(3) by (rule map_of_SomeD)
  then have "0 < readers i m" using l
    by (auto simp: readers_def cnt_def filter_empty_conv intro!: Nat.gr0I)
  ultimately show False by simp
qed

lemma inv_forget:
  assumes inv: "mgr_inv L m" and nr: "no_readers m i" and d: "d = m_disk m \<or> d = mdel (png_name i) (m_disk m)"
  shows "mgr_inv L (forget i d m)"
proof -
  let ?m = "forget i d m"
  from inv have J: "inv_jobs m" and Q: "inv_queue m" and R: "inv_run m" and U: "inv_uncached m"
    and K: "inv_quota m" and C: "inv_cache m" and S: "inv_leases m" and D: "inv_disk L m" and cfg: "config_ok (m_cfg m)"
    by (auto simp: mgr_inv_def)
  have wa: "wfm (m_artifacts m)" using C by (simp add: inv_cache_def)
  have get: "mget (m_artifacts ?m) k = (if k = i then None else mget (m_artifacts m) k)" for k
    by (simp add: map_simps)
  have size: "0 \<le> a_size (artifact_of m i)"
    using C by (auto simp: inv_cache_def artifact_of_def zero_artifact_def split: option.splits)
  have "tot (\<lambda>i a. a_size a) (m_artifacts ?m) = tot (\<lambda>i a. a_size a) (m_artifacts m) - a_size (artifact_of m i)"
    using gm.tot_del[OF wa] by (auto simp: artifact_of_def zero_artifact_def split: option.splits)
  moreover have "int (length (m_artifacts ?m)) \<le> int (length (m_artifacts m))"
    using gm.size_del[OF wa, of i] by (simp split: if_splits)
  ultimately have "inv_cache ?m"
    using C size get gm.wf_del[OF wa] by (auto simp: inv_cache_def split: if_splits)
  moreover have "inv_leases ?m"
    using S get no_readers_lease[OF S nr]
    by (auto simp: inv_leases_def readers_def cached_iff split: if_splits)
  moreover have "inv_disk L ?m"
  proof -
    have "mget d (png_name k) = mget (m_disk m) (png_name k)" if "k \<noteq> i" for k
      using d that by (auto simp: map_simps)
    moreover have "wfm d" using D d gm.wf_del by (auto simp: inv_disk_def)
    ultimately show ?thesis
      using D get no_readers_lease[OF S nr] by (auto simp: inv_disk_def split: if_splits)
  qed
  moreover have "inv_uncached ?m" using U get by (auto simp: inv_uncached_def cached_iff)
  ultimately show ?thesis
    using J Q R K cfg
    by (simp add: mgr_inv_def inv_jobs_def inv_queue_def inv_run_def inv_quota_def queued_count_def owned_count_def)
qed

lemma inv_evicts: "evicts m m' \<Longrightarrow> mgr_inv L m \<Longrightarrow> mgr_inv L m'"
  by (induction rule: evicts.induct) (auto dest: inv_forget)

section \<open>Pruning and the queue filter\<close>

lemma cnt_filter_le: "cnt P (filter Q es) \<le> cnt P es"
proof -
  have "length (filter f (filter Q es)) \<le> length (filter f es)" for f
    by (induction es) auto
  then show ?thesis by (simp add: cnt_def)
qed

lemma mget_prune_jobs:
  assumes "wfm (m_jobs m)"
  shows "mget (m_jobs (prune_jobs now m)) i = (case mget (m_jobs m) i of None \<Rightarrow> None
    | Some j \<Rightarrow> if \<not> active j \<and> now - j_created j > 30 * minute then None else Some j)"
  using mget_filter[OF assms, of "\<lambda>i j. \<not> (\<not> active j \<and> now - j_created j > 30 * minute)" i]
  by (auto simp: prune_jobs_def split: option.splits)

lemma prune_jobs_fields [simp]:
  "m_cfg (prune_jobs now m) = m_cfg m" "m_queue (prune_jobs now m) = m_queue m"
  "m_run (prune_jobs now m) = m_run m" "m_next (prune_jobs now m) = m_next m"
  "m_leases (prune_jobs now m) = m_leases m" "m_open (prune_jobs now m) = m_open m"
  "m_next_lease (prune_jobs now m) = m_next_lease m" "m_enabled (prune_jobs now m) = m_enabled m"
  "m_stopped (prune_jobs now m) = m_stopped m" "m_last (prune_jobs now m) = m_last m"
  "m_artifacts (prune_jobs now m) = m_artifacts m" "m_disk (prune_jobs now m) = m_disk m"
  "m_bytes (prune_jobs now m) = m_bytes m"
  by (simp_all add: prune_jobs_def)

text \<open>Changes of the jobs and the queue leave the cache, the leases and the directory alone.\<close>

lemma inv_cache_frame:
  assumes "mgr_inv L m" "m_cfg m' = m_cfg m" "m_artifacts m' = m_artifacts m" "m_bytes m' = m_bytes m"
    "m_leases m' = m_leases m" "m_open m' = m_open m" "m_next_lease m' = m_next_lease m" "m_disk m' = m_disk m"
  shows "config_ok (m_cfg m')" "inv_cache m'" "inv_leases m'" "inv_disk L m'"
  using assms
  by (auto simp: mgr_inv_def inv_cache_def inv_leases_def inv_disk_def readers_def cached_def)

lemma inv_prune_jobs:
  assumes inv: "mgr_inv L m"
  shows "mgr_inv L (prune_jobs now m)"
proof -
  let ?m = "prune_jobs now m"
  from inv have J: "inv_jobs m" and Q: "inv_queue m" and R: "inv_run m" and U: "inv_uncached m"
    and K: "inv_quota m" by (auto simp: mgr_inv_def)
  have w: "wfm (m_jobs m)" using J by (simp add: inv_jobs_def)
  have get: "mget (m_jobs ?m) i = Some j \<Longrightarrow> mget (m_jobs m) i = Some j" for i j
    using mget_prune_jobs[OF w] by (auto split: option.splits if_splits)
  have "length (m_jobs ?m) \<le> length (m_jobs m)" "wfm (m_jobs ?m)"
    using wfm_filter[OF w] by (simp_all add: prune_jobs_def)
  then have "inv_jobs ?m" using J get by (auto simp: inv_jobs_def)
  moreover have "inv_queue ?m" "inv_run ?m" "inv_uncached ?m"
    using Q R U get by (auto simp: inv_queue_def inv_run_def inv_uncached_def cached_def)
  moreover have "queued_count ?m \<le> queued_count m" "owned_count ow ?m \<le> owned_count ow m" for ow
    by (simp_all add: queued_count_def owned_count_def prune_jobs_def cnt_filter_le)
  then have "inv_quota ?m" using K by (fastforce simp: inv_quota_def intro: order_trans)
  ultimately show ?thesis
    using inv_cache_frame[OF inv, of ?m] by (simp add: mgr_inv_def)
qed

lemma inv_prune: "mgr_inv L m \<Longrightarrow> mgr_inv L (prune io now m)"
  using prune_evicts[of m now io] by (auto dest: inv_evicts inv_prune_jobs)

definition queue_live :: "mgr \<Rightarrow> bool" where
  "queue_live m \<longleftrightarrow> (\<forall>i\<in>set (m_queue m). \<exists>j. mget (m_jobs m) i = Some j \<and> j_state j = Queued)"

lemma filter_queue_fields [simp]:
  "m_cfg (filter_queue m) = m_cfg m" "m_jobs (filter_queue m) = m_jobs m"
  "m_run (filter_queue m) = m_run m" "m_next (filter_queue m) = m_next m"
  "m_leases (filter_queue m) = m_leases m" "m_open (filter_queue m) = m_open m"
  "m_next_lease (filter_queue m) = m_next_lease m" "m_enabled (filter_queue m) = m_enabled m"
  "m_stopped (filter_queue m) = m_stopped m" "m_last (filter_queue m) = m_last m"
  "m_artifacts (filter_queue m) = m_artifacts m" "m_disk (filter_queue m) = m_disk m"
  "m_bytes (filter_queue m) = m_bytes m"
  by (simp_all add: filter_queue_def)

lemma inv_filter_queue:
  assumes "mgr_inv L m"
  shows "mgr_inv L (filter_queue m)" "queue_live (filter_queue m)"
proof -
  show "queue_live (filter_queue m)"
    by (auto simp: queue_live_def filter_queue_def split: option.splits)
  have "inv_queue (filter_queue m)"
    using assms by (auto simp: mgr_inv_def inv_queue_def filter_queue_def)
  then show "mgr_inv L (filter_queue m)"
    using assms inv_cache_frame[OF assms, of "filter_queue m"]
    by (simp add: mgr_inv_def inv_jobs_def inv_run_def inv_uncached_def inv_quota_def cached_def
        queued_count_def owned_count_def)
qed

section \<open>Admission\<close>

text \<open>The ids of a batch that will get a new queued job, and those whose job gains the owner.\<close>

definition needs_job :: "mgr \<Rightarrow> string \<Rightarrow> bool" where
  "needs_job m i \<longleftrightarrow> \<not> cached m i \<and> (case mget (m_jobs m) i of None \<Rightarrow> True | Some j \<Rightarrow> \<not> active j)"

definition gains :: "mgr \<Rightarrow> string \<Rightarrow> string \<Rightarrow> bool" where
  "gains m owner i \<longleftrightarrow> (case mget (m_jobs m) i of None \<Rightarrow> False
     | Some j \<Rightarrow> active j \<and> \<not> subscribed j owner)"

definition roomy :: "mgr \<Rightarrow> string \<Rightarrow> string \<Rightarrow> bool" where
  "roomy m owner i \<longleftrightarrow> (case mget (m_jobs m) i of None \<Rightarrow> True
     | Some j \<Rightarrow> active j \<or> j_state j = Ready \<and> cached m i \<longrightarrow> \<not> full_for owner j)"

definition fresh_ids :: "mgr \<Rightarrow> string list \<Rightarrow> string set" where
  "fresh_ids m is = {i \<in> set is. needs_job m i}"

definition added_ids :: "mgr \<Rightarrow> string \<Rightarrow> string list \<Rightarrow> string set" where
  "added_ids m owner is = {i \<in> set is. gains m owner i}"

lemma admit_survey_Inr:
  "admit_survey m owner is (f, a) = Inr (fresh, added) \<Longrightarrow> distinct f \<Longrightarrow> distinct a \<Longrightarrow>
     distinct fresh \<and> distinct added \<and> set fresh = set f \<union> fresh_ids m is
     \<and> set added = set a \<union> added_ids m owner is \<and> (\<forall>i\<in>set is. roomy m owner i)"
proof (induction m owner "is" "(f, a)" arbitrary: f a rule: admit_survey.induct)
  case (2 m owner i "is" f a)
  show ?case
  proof (cases "mget (m_jobs m) i")
    case None
    with 2 show ?thesis
      by (auto simp: fresh_ids_def added_ids_def needs_job_def gains_def roomy_def split: if_splits)
  next
    case (Some j)
    with 2 show ?thesis
      by (auto simp: fresh_ids_def added_ids_def needs_job_def gains_def roomy_def active_def split: if_splits)
  qed
qed (auto simp: fresh_ids_def added_ids_def)

lemma new_job_fields [simp]:
  "m_cfg (new_job now i owner q m) = m_cfg m" "m_run (new_job now i owner q m) = m_run m"
  "m_leases (new_job now i owner q m) = m_leases m" "m_open (new_job now i owner q m) = m_open m"
  "m_next_lease (new_job now i owner q m) = m_next_lease m"
  "m_artifacts (new_job now i owner q m) = m_artifacts m" "m_disk (new_job now i owner q m) = m_disk m"
  "m_bytes (new_job now i owner q m) = m_bytes m" "m_next (new_job now i owner q m) = Suc (m_next m)"
  "cached (new_job now i owner q m) k = cached m k"
  by (simp_all add: new_job_def cached_def)

lemma subscribe_fields [simp]:
  "m_cfg (subscribe i owner j m) = m_cfg m" "m_run (subscribe i owner j m) = m_run m"
  "m_leases (subscribe i owner j m) = m_leases m" "m_open (subscribe i owner j m) = m_open m"
  "m_next_lease (subscribe i owner j m) = m_next_lease m" "m_queue (subscribe i owner j m) = m_queue m"
  "m_artifacts (subscribe i owner j m) = m_artifacts m" "m_disk (subscribe i owner j m) = m_disk m"
  "m_bytes (subscribe i owner j m) = m_bytes m" "m_next (subscribe i owner j m) = m_next m"
  "cached (subscribe i owner j m) k = cached m k"
  by (simp_all add: subscribe_def cached_def)

lemma new_job_get:
  "mget (m_jobs (new_job now i owner q m)) k = (if k = i then Some \<lparr>j_ptr = m_next m, j_request = q,
     j_state = (if cached m i then Ready else Queued), j_subs = [(owner, True)],
     j_owner = owner, j_created = now\<rparr> else mget (m_jobs m) k)"
  by (simp add: new_job_def map_simps)

lemma subscribe_get:
  "mget (m_jobs (subscribe i owner j m)) k =
     (if k = i then Some (j\<lparr>j_subs := mput owner True (j_subs j)\<rparr>) else mget (m_jobs m) k)"
  by (simp add: subscribe_def map_simps)

lemma new_job_counts:
  assumes "wfm (m_jobs m)" "\<forall>j. mget (m_jobs m) i = Some j \<longrightarrow> \<not> active j"
  shows "queued_count (new_job now i owner q m) = queued_count m + (if cached m i then 0 else 1)"
    and "owned_count ow (new_job now i owner q m) =
      owned_count ow m + (if \<not> cached m i \<and> ow = owner then 1 else 0)"
    and "int (length (m_jobs (new_job now i owner q m))) \<le> int (length (m_jobs m)) + 1"
  using assms(2) gm.size_put[OF assms(1), of i]
  by (cases "mget (m_jobs m) i";
      auto simp: queued_count_def owned_count_def new_job_def gm.cnt_put[OF assms(1)] active_def subscribed_def)+

lemma inv_new_job:
  assumes inv: "mgr_inv L m" and live: "queue_live m"
    and idle: "\<forall>j. mget (m_jobs m) i = Some j \<longrightarrow> \<not> active j"
    and room: "\<not> cached m i \<Longrightarrow> queued_count m < c_queue (m_cfg m) \<and> owned_count owner m < 4"
    and len: "length (m_jobs m) < 5000"
  shows "mgr_inv L (new_job now i owner q m)" "queue_live (new_job now i owner q m)"
proof -
  let ?m = "new_job now i owner q m"
  from inv have J: "inv_jobs m" and Q: "inv_queue m" and R: "inv_run m" and U: "inv_uncached m"
    and K: "inv_quota m" by (auto simp: mgr_inv_def)
  have w: "wfm (m_jobs m)" using J by (simp add: inv_jobs_def)
  note cnts = new_job_counts[OF w idle]
  have notin: "i \<notin> set (m_queue m)" using live idle by (fastforce simp: queue_live_def active_def)
  have "wfm (m_jobs ?m)" using w by (simp add: new_job_def gm.wf_put)
  moreover have "job_ok n j \<Longrightarrow> job_ok (Suc n) j" for n j by (simp add: job_ok_def)
  moreover have "length (m_jobs ?m) \<le> 5000" using cnts(3)[of now owner q] len by simp
  moreover have "wfm [(owner, True)]" by (simp add: wfm_def)
  ultimately have "inv_jobs ?m"
    using J by (auto simp: inv_jobs_def new_job_get job_ok_def less_SucI)
  moreover have "inv_queue ?m"
    using Q notin by (auto simp: inv_queue_def new_job_get new_job_def map_simps)
  moreover have "inv_run ?m" "inv_uncached ?m"
    using R U by (auto simp: inv_run_def inv_uncached_def new_job_get active_def)
  moreover have "inv_quota ?m" using K room cnts(1,2) by (force simp: inv_quota_def)
  ultimately show "mgr_inv L ?m"
    using inv_cache_frame[OF inv, of ?m] by (simp add: mgr_inv_def)
  show "queue_live ?m"
    using live notin by (auto simp: queue_live_def new_job_def map_simps)
qed

lemma length_put_le: "length (mput k v m) \<le> Suc (length m)"
  and length_put_old: "mget m k = Some v0 \<Longrightarrow> length (mput k v m) = length m"
  by (induction m) auto

lemma subscribe_counts:
  assumes w: "wfm (m_jobs m)" and j: "mget (m_jobs m) i = Some j"
  shows "queued_count (subscribe i owner j m) = queued_count m"
    and "owned_count ow (subscribe i owner j m) =
      owned_count ow m + (if ow = owner \<and> active j \<and> \<not> subscribed j owner then 1 else 0)"
    and "length (m_jobs (subscribe i owner j m)) = length (m_jobs m)"
  using j by (auto simp: queued_count_def owned_count_def subscribe_def gm.cnt_put[OF w] active_def
      subscribed_def map_simps length_put_old)

lemma inv_subscribe:
  assumes inv: "mgr_inv L m" and live: "queue_live m" and j: "mget (m_jobs m) i = Some j"
    and room: "\<not> full_for owner j" and quota: "gains m owner i \<Longrightarrow> owned_count owner m < 4"
  shows "mgr_inv L (subscribe i owner j m)" "queue_live (subscribe i owner j m)"
proof -
  let ?m = "subscribe i owner j m"
  from inv have J: "inv_jobs m" and Q: "inv_queue m" and R: "inv_run m" and U: "inv_uncached m"
    and K: "inv_quota m" by (auto simp: mgr_inv_def)
  have w: "wfm (m_jobs m)" using J by (simp add: inv_jobs_def)
  note cnts = subscribe_counts[OF w j]
  have ok: "job_ok (m_next m) j" using J j by (simp add: inv_jobs_def)
  have "length (mput owner True (j_subs j)) \<le> 24"
    using room ok length_put_le[of owner True "j_subs j"] length_put_old[of "j_subs j" owner True True]
    by (cases "subscribed j owner") (auto simp: full_for_def job_ok_def subscribed_def)
  then have "job_ok (m_next m) (j\<lparr>j_subs := mput owner True (j_subs j)\<rparr>)"
    using ok by (simp add: job_ok_def gm.wf_put)
  moreover have "wfm (m_jobs ?m)" using w by (simp add: subscribe_def gm.wf_put)
  ultimately have "inv_jobs ?m" using J cnts(3) by (auto simp: inv_jobs_def subscribe_get)
  moreover have "inv_queue ?m" "inv_run ?m" "inv_uncached ?m"
    using Q R U j by (auto simp: inv_queue_def inv_run_def inv_uncached_def subscribe_get active_def)
  moreover have "inv_quota ?m" using K cnts(1,2) quota j by (force simp: inv_quota_def gains_def)
  ultimately show "mgr_inv L ?m"
    using inv_cache_frame[OF inv, of ?m] by (simp add: mgr_inv_def)
  show "queue_live ?m"
    using live j by (force simp: queue_live_def subscribe_get)
qed

lemma finite_ids [simp]: "finite (fresh_ids m is)" "finite (added_ids m owner is)"
  by (simp_all add: fresh_ids_def added_ids_def)

lemma ids_new_job:
  "fresh_ids (new_job now i owner q m) is \<subseteq> fresh_ids m (i # is) - {i}"
  "added_ids (new_job now i owner q m) owner is \<subseteq> added_ids m owner (i # is) - {i}"
  by (auto simp: fresh_ids_def added_ids_def needs_job_def gains_def new_job_get active_def subscribed_def
      split: if_splits)

lemma ids_subscribe:
  assumes "mget (m_jobs m) i = Some j"
  shows "fresh_ids (subscribe i owner j m) is \<subseteq> fresh_ids m (i # is)"
    and "added_ids (subscribe i owner j m) owner is \<subseteq> added_ids m owner (i # is) - {i}"
  using assms
  by (auto simp: fresh_ids_def added_ids_def needs_job_def gains_def subscribe_get active_def subscribed_def
      map_simps split: if_splits)

lemma card_shrinks:
  assumes "A \<subseteq> B - {i}" "finite B"
  shows "int (card A) + (if i \<in> B then 1 else 0) \<le> int (card B)"
proof -
  have "card A \<le> card (B - {i})" using assms by (intro card_mono) auto
  moreover have "i \<in> B \<Longrightarrow> 0 < card B" using assms(2) by (auto simp: card_gt_0_iff)
  ultimately show ?thesis using assms(2) by (auto simp: card_Diff_singleton split: if_splits)
qed

text \<open>What the owner gets: a job it is subscribed to that is live, or done with its artifact cached.\<close>

definition served :: "mgr \<Rightarrow> string \<Rightarrow> string \<Rightarrow> bool" where
  "served m owner i \<longleftrightarrow> (\<exists>j. mget (m_jobs m) i = Some j \<and> subscribed j owner
     \<and> (active j \<or> j_state j = Ready \<and> cached m i))"

text \<open>Nothing another visitor waits for is touched: live jobs keep their identity, state and subscribers.\<close>

definition keeps_live :: "mgr \<Rightarrow> mgr \<Rightarrow> bool" where
  "keeps_live m m' \<longleftrightarrow> m_artifacts m' = m_artifacts m \<and> m_cfg m' = m_cfg m \<and> m_run m' = m_run m
     \<and> (\<forall>k j. mget (m_jobs m) k = Some j \<and> (active j \<or> j_state j = Ready \<and> cached m k) \<longrightarrow>
          (\<exists>j'. mget (m_jobs m') k = Some j' \<and> j_ptr j' = j_ptr j \<and> j_state j' = j_state j
             \<and> j_request j' = j_request j \<and> (\<forall>ow. subscribed j ow \<longrightarrow> subscribed j' ow)))"

lemma keeps_live_refl: "keeps_live m m"
  by (auto simp: keeps_live_def)

lemma keeps_live_job:
  assumes "keeps_live m m'" "mget (m_jobs m) k = Some j" "active j \<or> j_state j = Ready \<and> cached m k"
  obtains j' where "mget (m_jobs m') k = Some j'" "j_ptr j' = j_ptr j" "j_state j' = j_state j"
    "j_request j' = j_request j" "\<And>ow. subscribed j ow \<Longrightarrow> subscribed j' ow"
    "active j' = active j" "cached m' k = cached m k"
proof -
  from assms obtain j' where j': "mget (m_jobs m') k = Some j'" "j_ptr j' = j_ptr j" "j_state j' = j_state j"
    "j_request j' = j_request j" "\<forall>ow. subscribed j ow \<longrightarrow> subscribed j' ow"
    unfolding keeps_live_def by blast
  moreover have "active j' = active j" using j'(3) by (simp add: active_def)
  moreover have "cached m' k = cached m k" using assms(1) by (simp add: keeps_live_def cached_def)
  ultimately show thesis using that by blast
qed

lemma keeps_live_trans:
  assumes "keeps_live m1 m2" "keeps_live m2 m3"
  shows "keeps_live m1 m3"
proof -
  have "\<exists>j'. mget (m_jobs m3) k = Some j' \<and> j_ptr j' = j_ptr j \<and> j_state j' = j_state j
     \<and> j_request j' = j_request j \<and> (\<forall>ow. subscribed j ow \<longrightarrow> subscribed j' ow)"
    if j: "mget (m_jobs m1) k = Some j" "active j \<or> j_state j = Ready \<and> cached m1 k" for k j
  proof -
    obtain j2 where j2: "mget (m_jobs m2) k = Some j2" "j_ptr j2 = j_ptr j" "j_state j2 = j_state j"
      "j_request j2 = j_request j" "\<And>ow. subscribed j ow \<Longrightarrow> subscribed j2 ow"
      "active j2 = active j" "cached m2 k = cached m1 k"
      by (rule keeps_live_job[OF assms(1) j]) (rule that)
    then have "active j2 \<or> j_state j2 = Ready \<and> cached m2 k" using j(2) by simp
    from keeps_live_job[OF assms(2) j2(1) this] j2 show ?thesis by metis
  qed
  with assms show ?thesis by (simp add: keeps_live_def)
qed

lemma keeps_live_served:
  assumes "keeps_live m m'" "served m owner i"
  shows "served m' owner i"
proof -
  from assms(2) obtain j where j: "mget (m_jobs m) i = Some j" "subscribed j owner"
    "active j \<or> j_state j = Ready \<and> cached m i" by (auto simp: served_def)
  from keeps_live_job[OF assms(1) j(1,3)] j(2,3) show ?thesis by (metis served_def)
qed

lemma keeps_new_job:
  "\<forall>j. mget (m_jobs m) i = Some j \<longrightarrow> \<not> active j \<and> \<not> (j_state j = Ready \<and> cached m i) \<Longrightarrow>
     keeps_live m (new_job now i owner q m)"
  by (auto simp: keeps_live_def new_job_get)

lemma keeps_subscribe:
  "mget (m_jobs m) i = Some j \<Longrightarrow> keeps_live m (subscribe i owner j m)"
  by (auto simp: keeps_live_def subscribe_get subscribed_def map_simps)

lemma served_new_job: "served (new_job now i owner q m) owner i"
  by (simp add: served_def new_job_get subscribed_def active_def)

lemma served_subscribe:
  "active j \<or> j_state j = Ready \<and> cached m i \<Longrightarrow> served (subscribe i owner j m) owner i"
  by (auto simp: served_def subscribe_get subscribed_def active_def map_simps)

lemma roomy_step:
  assumes "roomy m owner k"
  shows "roomy (new_job now i owner q m) owner k"
    and "mget (m_jobs m) i = Some j \<Longrightarrow> roomy (subscribe i owner j m) owner k"
  using assms
  by (auto simp: roomy_def new_job_get subscribe_get full_for_def subscribed_def active_def map_simps
      split: option.splits)

lemma admit_apply_inv:
  assumes "mgr_inv L m" "queue_live m" "\<forall>i\<in>fst ` set iqs. roomy m owner i"
    and "queued_count m + int (card (fresh_ids m (map fst iqs))) \<le> c_queue (m_cfg m)"
    and "owned_count owner m + int (card (fresh_ids m (map fst iqs)))
           + int (card (added_ids m owner (map fst iqs))) \<le> 4"
    and "length (m_jobs m) + length iqs \<le> 5000"
  shows "\<exists>m'. admit_apply now owner iqs m = (m', None) \<and> mgr_inv L m' \<and> queue_live m'
    \<and> keeps_live m m' \<and> (\<forall>i\<in>fst ` set iqs. served m' owner i)"
  using assms
proof (induction iqs arbitrary: m)
  case Nil
  then show ?case by (auto simp: keeps_live_refl)
next
  case (Cons iq iqs)
  obtain i q where iq: "iq = (i, q)" by force
  from Cons.prems(1) have w: "wfm (m_jobs m)" by (simp add: mgr_inv_def inv_jobs_def)
  let ?F = "fresh_ids m (i # map fst iqs)" and ?A = "added_ids m owner (i # map fst iqs)"
  show ?case
  proof (cases "\<exists>j. mget (m_jobs m) i = Some j \<and> (active j \<or> j_state j = Ready \<and> cached m i)")
    case True
    then obtain j where j: "mget (m_jobs m) i = Some j" "active j \<or> j_state j = Ready \<and> cached m i" by blast
    let ?m = "subscribe i owner j m"
    note cnts = subscribe_counts[OF w j(1)]
    have full: "\<not> full_for owner j" using Cons.prems(3) iq j by (auto simp: roomy_def)
    have g: "i \<in> ?A \<longleftrightarrow> active j \<and> \<not> subscribed j owner" using j(1) by (simp add: added_ids_def gains_def)
    have q4: "gains m owner i \<Longrightarrow> owned_count owner m < 4"
      using Cons.prems(5) iq card_shrinks[of "{}" ?A i] by (auto simp: added_ids_def split: if_splits)
    note inv = inv_subscribe[OF Cons.prems(1,2) j(1) full q4]
    have F: "card (fresh_ids ?m (map fst iqs)) \<le> card ?F"
      by (intro card_mono ids_subscribe[OF j(1)]) simp
    have A: "int (card (added_ids ?m owner (map fst iqs))) + (if i \<in> ?A then 1 else 0) \<le> int (card ?A)"
      by (intro card_shrinks ids_subscribe(2)[OF j(1)]) simp
    have "\<exists>m'. admit_apply now owner iqs ?m = (m', None) \<and> mgr_inv L m' \<and> queue_live m'
        \<and> keeps_live ?m m' \<and> (\<forall>i\<in>fst ` set iqs. served m' owner i)"
      using Cons.prems(3-6) iq F A g cnts roomy_step(2)[OF _ j(1)]
      by (intro Cons.IH inv) (auto split: if_splits)
    moreover have "admit_apply now owner (iq # iqs) m = admit_apply now owner iqs ?m"
      using iq j full by (auto simp: active_def)
    ultimately show ?thesis
      using iq keeps_subscribe[OF j(1), of owner] served_subscribe[OF j(2), of owner] keeps_live_served
      by (auto intro: keeps_live_trans)
  next
    case False
    then have idle: "\<forall>j. mget (m_jobs m) i = Some j \<longrightarrow> \<not> active j \<and> \<not> (j_state j = Ready \<and> cached m i)" by blast
    then have idle1: "\<forall>j. mget (m_jobs m) i = Some j \<longrightarrow> \<not> active j" by blast
    let ?m = "new_job now i owner q m"
    note cnts = new_job_counts[OF w idle1]
    have f: "i \<in> ?F \<longleftrightarrow> \<not> cached m i"
      using idle1 by (auto simp: fresh_ids_def needs_job_def split: option.splits)
    have F: "int (card (fresh_ids ?m (map fst iqs))) + (if i \<in> ?F then 1 else 0) \<le> int (card ?F)"
      by (intro card_shrinks ids_new_job) simp
    have A: "card (added_ids ?m owner (map fst iqs)) \<le> card ?A"
      using ids_new_job(2)[of now i owner q m "map fst iqs"] by (intro card_mono) auto
    have len: "length (m_jobs m) < 5000" using Cons.prems(6) by simp
    have room: "\<not> cached m i \<Longrightarrow> queued_count m < c_queue (m_cfg m) \<and> owned_count owner m < 4"
      using Cons.prems(4,5) iq F f by (auto split: if_splits)
    note inv = inv_new_job[OF Cons.prems(1,2) idle1 room len]
    have "\<exists>m'. admit_apply now owner iqs ?m = (m', None) \<and> mgr_inv L m' \<and> queue_live m'
        \<and> keeps_live ?m m' \<and> (\<forall>i\<in>fst ` set iqs. served m' owner i)"
      using Cons.prems(3-6) iq F A f cnts(1)[where now=now and owner=owner and q=q] cnts(2)[where now=now and owner=owner and q=q and ow=owner]
        cnts(3)[where now=now and owner=owner and q=q] roomy_step(1)
      by (intro Cons.IH inv) (auto split: if_splits)
    moreover have "admit_apply now owner (iq # iqs) m = admit_apply now owner iqs ?m"
      using iq idle by (auto split: option.splits)
    ultimately show ?thesis
      using iq keeps_new_job[OF idle, of now owner q] served_new_job[of now i owner q m] keeps_live_served
      by (auto intro: keeps_live_trans)
  qed
qed

lemma admit_prep_inv:
  assumes "mgr_inv L m"
  shows "mgr_inv L (filter_queue (prune io now m))" "queue_live (filter_queue (prune io now m))"
  using inv_filter_queue[OF inv_prune[OF assms]] by simp_all

lemma inv_wake [simp]: "mgr_inv L (m\<lparr>m_wake := b\<rparr>) = mgr_inv L m"
  "mgr_inv L (m\<lparr>m_enabled := b\<rparr>) = mgr_inv L m" "mgr_inv L (m\<lparr>m_stopped := b\<rparr>) = mgr_inv L m"
  by (simp_all add: mgr_inv_def inv_jobs_def inv_queue_def inv_run_def inv_uncached_def inv_quota_def
      inv_cache_def inv_leases_def inv_disk_def readers_def cached_def queued_count_def owned_count_def)

lemma served_wake [simp]: "served (m\<lparr>m_wake := b\<rparr>) owner i = served m owner i"
  "keeps_live m0 (m\<lparr>m_wake := b\<rparr>) = keeps_live m0 m"
  by (simp_all add: served_def keeps_live_def cached_def)

text \<open>Every admission: rejected with the pruned state, or accepted with every identity served.\<close>

lemma admit_cases:
  assumes inv: "mgr_inv L m" and adm: "admit L io now owner qs m = (m', r)"
  defines "m1 \<equiv> filter_queue (prune io now m)"
  obtains (reject) e where "r = Inl e" "m' = m \<or> m' = m1"
  | (accept) "ids" m2 where "r = Inr ids" "map_res (request_id L (c_build (m_cfg m))) qs = Inr ids"
      "m' = m2\<lparr>m_wake := True\<rparr>" "mgr_inv L m2" "keeps_live m1 m2" "\<forall>i\<in>set ids. served m2 owner i"
      "m_enabled m1" "\<not> m_stopped m1"
proof (cases "length owner < 1 \<or> length owner > 64 \<or> length qs < 1 \<or> length qs > 4")
  case True
  with adm show ?thesis by (intro reject) (auto simp: admit_def)
next
  case small: False
  note pre = admit_prep_inv[OF inv, of io now, folded m1_def]
  show ?thesis
  proof (cases "map_res (request_id L (c_build (m_cfg m))) qs")
    case (Inl e)
    with adm small have "r = Inl e" "m' = m" by (auto simp: admit_def)
    then show ?thesis by (intro reject) auto
  next
    case ids: (Inr "ids")
    have len: "length ids = length qs" using ids by (rule map_res_length)
    show ?thesis
    proof (cases "\<not> m_enabled m1 \<or> m_stopped m1")
      case True
      with adm small ids show ?thesis by (intro reject) (auto simp: admit_def Let_def m1_def)
    next
      case on: False
      show ?thesis
      proof (cases "admit_survey m1 owner ids ([], [])")
        case (Inl e)
        with adm small ids on have "r = Inl e" "m' = m1" by (auto simp: admit_def Let_def m1_def)
        then show ?thesis by (intro reject) auto
      next
        case (Inr fa)
        obtain fresh added where fa: "fa = (fresh, added)" by force
        note sv = admit_survey_Inr[OF Inr[unfolded fa]]
        show ?thesis
        proof (cases "queued_count m1 + int (length fresh) > c_queue (m_cfg m1)
            \<or> owned_count owner m1 + int (length fresh) + int (length added) > 4
            \<or> length (m_jobs m1) + length ids > 5000")
          case True
          with adm small ids on Inr fa show ?thesis by (intro reject) (auto simp: admit_def Let_def m1_def)
        next
          case fits: False
          have c: "length fresh = card (fresh_ids m1 ids)" "length added = card (added_ids m1 owner ids)"
            using sv distinct_card[of fresh] distinct_card[of added] by auto
          have z: "map fst (zip ids qs) = ids" "fst ` set (zip ids qs) = set ids" "length (zip ids qs) = length ids"
            using len by (simp_all flip: set_map)
          have "\<exists>m2. admit_apply now owner (zip ids qs) m1 = (m2, None) \<and> mgr_inv L m2 \<and> queue_live m2
            \<and> keeps_live m1 m2 \<and> (\<forall>i\<in>fst ` set (zip ids qs). served m2 owner i)"
            using fits sv c z by (intro admit_apply_inv pre) auto
          then obtain m2 where m2: "admit_apply now owner (zip ids qs) m1 = (m2, None)" "mgr_inv L m2"
            "keeps_live m1 m2" "\<forall>i\<in>set ids. served m2 owner i" unfolding z by blast
          with adm small ids on Inr fa fits have "m' = m2\<lparr>m_wake := True\<rparr>" "r = Inr ids"
            by (auto simp: admit_def Let_def m1_def)
          with m2 ids on show ?thesis by (intro accept) auto
        qed
      qed
    qed
  qed
qed

lemma inv_admit:
  assumes "mgr_inv L m"
  shows "mgr_inv L (fst (admit L io now owner qs m))"
proof -
  obtain m' r where adm: "admit L io now owner qs m = (m', r)" by force
  from assms admit_prep_inv(1)[OF assms] show ?thesis
    unfolding adm by (cases rule: admit_cases[OF assms adm]) auto
qed

section \<open>Cancellation\<close>

lemma active_update [simp]:
  "active (j\<lparr>j_subs := s\<rparr>) = active j" "active (j\<lparr>j_subs := s, j_state := st\<rparr>) = active (j\<lparr>j_state := st\<rparr>)"
  by (simp_all add: active_def)

lemma wfm_subs: "inv_jobs m \<Longrightarrow> mget (m_jobs m) i = Some j \<Longrightarrow> job_ok (m_next m) j"
  by (auto simp: inv_jobs_def)

text \<open>A change of one job that does not make it live, or that keeps its state.\<close>

lemma inv_put_job:
  assumes inv: "mgr_inv L m" and j: "mget (m_jobs m) i = Some j" and ok: "job_ok (m_next m) j'"
    and ptr: "j_ptr j' = j_ptr j" and st: "j_state j' = j_state j \<or> \<not> active j'"
    and subs: "\<And>ow. subscribed j' ow \<Longrightarrow> subscribed j ow"
    and run: "r' = m_run m \<or> (\<exists>r. m_run m = Some r \<and> r' = Some (r\<lparr>w_cancelled := True\<rparr>))"
  shows "mgr_inv L (m\<lparr>m_jobs := mput i j' (m_jobs m), m_run := r'\<rparr>)" (is "mgr_inv L ?m")
proof -
  from inv have J: "inv_jobs m" and Q: "inv_queue m" and R: "inv_run m" and U: "inv_uncached m"
    and K: "inv_quota m" by (auto simp: mgr_inv_def)
  have w: "wfm (m_jobs m)" using J by (simp add: inv_jobs_def)
  have act: "active j' \<Longrightarrow> active j" "j_state j' = Queued \<Longrightarrow> j_state j = Queued"
    "j_state j' = Running \<Longrightarrow> j_state j = Running" using st by (auto simp: active_def)
  have "inv_jobs ?m"
    using J ok w length_put_old[OF j, of j'] by (auto simp: inv_jobs_def map_simps gm.wf_put)
  moreover have "inv_queue ?m" "inv_uncached ?m"
    using Q U j act by (auto simp: inv_queue_def inv_uncached_def cached_def map_simps)
  moreover have "inv_run ?m"
    unfolding inv_run_def
  proof (intro allI impI, goal_cases)
    case (1 k jk)
    then obtain jo where jo: "mget (m_jobs m) k = Some jo" "j_state jo = Running" "j_ptr jo = j_ptr jk"
      using j act ptr by (auto simp: map_simps split: if_splits)
    with R obtain r where "m_run m = Some r" "w_id r = k" "w_ptr r = j_ptr jo"
      unfolding inv_run_def by blast
    with run jo(3) show ?case by auto
  qed
  moreover have "queued_count ?m \<le> queued_count m" "owned_count ow ?m \<le> owned_count ow m" for ow
    using j act subs by (auto simp: queued_count_def owned_count_def gm.cnt_put[OF w])
  then have "inv_quota ?m" using K by (fastforce simp: inv_quota_def intro: order_trans)
  ultimately show ?thesis
    using inv_cache_frame[OF inv, of ?m] by (simp add: mgr_inv_def)
qed

lemma subscribed_drop:
  "subscribed (j\<lparr>j_subs := mdel owner (j_subs j)\<rparr>) ow \<longleftrightarrow> ow \<noteq> owner \<and> subscribed j ow"
  "subscribed (j\<lparr>j_subs := s, j_state := st\<rparr>) ow \<longleftrightarrow> subscribed (j\<lparr>j_subs := s\<rparr>) ow"
  by (auto simp: subscribed_def map_simps)

lemma job_ok_drop:
  assumes "job_ok n j"
  shows "job_ok n (j\<lparr>j_subs := mdel owner (j_subs j)\<rparr>)"
  using assms length_delete_le[of owner "j_subs j"] by (auto simp: job_ok_def gm.wf_del)

lemma inv_cancel: "mgr_inv L m \<Longrightarrow> mgr_inv L (cancel owner i m)"
proof (cases "mget (m_jobs m) i")
  case (Some j)
  assume inv: "mgr_inv L m"
  then have "job_ok (m_next m) j" using wfm_subs[OF _ Some] by (auto simp: mgr_inv_def)
  note ok = job_ok_drop[OF this, of owner]
  have run: "cancel_run j (m_run m) = m_run m
    \<or> (\<exists>r. m_run m = Some r \<and> cancel_run j (m_run m) = Some (r\<lparr>w_cancelled := True\<rparr>))"
    by (cases "m_run m") (auto simp: cancel_run_def)
  show ?thesis
  proof (cases "j_subs (j\<lparr>j_subs := mdel owner (j_subs j)\<rparr>) = [] \<and> active (j\<lparr>j_subs := mdel owner (j_subs j)\<rparr>)")
    case True
    have "mgr_inv L (m\<lparr>m_jobs := mput i (j\<lparr>j_subs := mdel owner (j_subs j), j_state := Cancelled\<rparr>) (m_jobs m),
        m_run := cancel_run j (m_run m)\<rparr>)"
      using ok by (intro inv_put_job[OF inv Some _ _ _ _ run])
        (auto simp: job_ok_def active_def subscribed_drop)
    with True Some show ?thesis by (simp add: cancel_def Let_def)
  next
    case False
    have "mgr_inv L (m\<lparr>m_jobs := mput i (j\<lparr>j_subs := mdel owner (j_subs j)\<rparr>) (m_jobs m), m_run := m_run m\<rparr>)"
      using ok by (intro inv_put_job[OF inv Some]) (auto simp: subscribed_drop)
    with False Some show ?thesis by (auto simp: cancel_def Let_def)
  qed
qed (simp add: cancel_def)

section \<open>Leases\<close>

lemma wfm_length_cnt: "cnt (\<lambda>k v. True) m = int (length m)"
  by (simp add: cnt_def)

text \<open>Changes of the cache and the leases leave the jobs, the queue and the worker alone.\<close>

lemma inv_jobs_frame:
  assumes "mgr_inv L m" "m_cfg m' = m_cfg m" "m_jobs m' = m_jobs m" "m_queue m' = m_queue m"
    "m_run m' = m_run m" "m_next m' = m_next m"
  shows "config_ok (m_cfg m')" "inv_jobs m'" "inv_queue m'" "inv_run m'" "inv_quota m'"
  using assms
  by (auto simp: mgr_inv_def inv_jobs_def inv_queue_def inv_run_def inv_quota_def queued_count_def owned_count_def)

text \<open>A change of the reader count of one artifact and of the leases on it.\<close>

lemma inv_put_refs:
  assumes inv: "mgr_inv L m" and a: "mget (m_artifacts m) i = Some a"
    and ls: "wfm ls" "\<And>n l. mget ls n = Some l \<Longrightarrow> n < nl \<and>
        (mget (m_leases m) n = Some l \<or> l_id l = i \<and> mget (m_disk m) (png_name i) = Some (l_bytes l))"
    and refs: "cnt (\<lambda>n l. l_id l = i) ls = r" "r \<le> 32"
    and other: "\<And>k. k \<noteq> i \<Longrightarrow> cnt (\<lambda>n l. l_id l = k) ls = readers k m"
    and op: "int (length ls) = no" "no \<le> 64"
  shows "mgr_inv L (m\<lparr>m_artifacts := mput i (a\<lparr>a_refs := r\<rparr>) (m_artifacts m), m_open := no,
      m_leases := ls, m_next_lease := nl\<rparr>)" (is "mgr_inv L ?m")
proof -
  from inv have U: "inv_uncached m" and C: "inv_cache m" and S: "inv_leases m" and D: "inv_disk L m"
    by (auto simp: mgr_inv_def)
  have wa: "wfm (m_artifacts m)" using C by (simp add: inv_cache_def)
  have "inv_uncached ?m" using U a by (auto simp: inv_uncached_def cached_def map_simps)
  moreover have "tot (\<lambda>i a. a_size a) (m_artifacts ?m) = tot (\<lambda>i a. a_size a) (m_artifacts m)"
    using a by (simp add: gm.tot_put[OF wa])
  then have "inv_cache ?m"
    using C a length_put_old[OF a, of "a\<lparr>a_refs := r\<rparr>"]
    by (auto simp: inv_cache_def map_simps gm.wf_put)
  moreover have "inv_leases ?m"
    using S a ls refs other op by (fastforce simp: inv_leases_def cached_def map_simps readers_def)
  moreover have "inv_disk L ?m"
    using D a ls by (fastforce simp: inv_disk_def map_simps)
  ultimately show ?thesis
    using inv_jobs_frame[OF inv, of ?m] by (simp add: mgr_inv_def)
qed

lemma inv_open:
  assumes inv: "mgr_inv L m"
  shows "mgr_inv L (fst (open_artifact io now i m))"
proof -
  have same: "fst (open_artifact io now i m) = m \<or> (\<exists>a b. mget (m_artifacts m) i = Some a
     \<and> mget (m_disk m) (png_name i) = Some b \<and> a_refs a < 32 \<and> m_open m < 64
     \<and> fst (open_artifact io now i m) = m\<lparr>m_artifacts := mput i (a\<lparr>a_refs := a_refs a + 1\<rparr>) (m_artifacts m),
         m_open := m_open m + 1, m_leases := mput (m_next_lease m) \<lparr>l_id = i, l_bytes = b\<rparr> (m_leases m),
         m_next_lease := Suc (m_next_lease m)\<rparr>)"
    by (auto simp: open_artifact_def split: option.splits)
  then consider "fst (open_artifact io now i m) = m"
    | (lease) a b where "mget (m_artifacts m) i = Some a" "mget (m_disk m) (png_name i) = Some b"
      "a_refs a < 32" "m_open m < 64"
      "fst (open_artifact io now i m) = m\<lparr>m_artifacts := mput i (a\<lparr>a_refs := a_refs a + 1\<rparr>) (m_artifacts m),
         m_open := m_open m + 1, m_leases := mput (m_next_lease m) \<lparr>l_id = i, l_bytes = b\<rparr> (m_leases m),
         m_next_lease := Suc (m_next_lease m)\<rparr>"
    by blast
  then show ?thesis
  proof cases
    case 1
    with inv show ?thesis by simp
  next
    case lease
    from inv have S: "inv_leases m" by (simp add: mgr_inv_def)
    have w: "wfm (m_leases m)" and fresh: "mget (m_leases m) (m_next_lease m) = None"
      using S by (auto simp: inv_leases_def) (metis less_irrefl option.exhaust)
    show ?thesis unfolding lease(5)
    proof (rule inv_put_refs[OF inv lease(1)], goal_cases)
      case 1
      show ?case using w by (rule gm.wf_put)
    next
      case (2 n l)
      with S lease(2) show ?case
        by (auto simp: map_simps inv_leases_def less_SucI split: if_splits)
    next
      case 3
      show ?case using S lease(1) fresh by (simp add: gm.cnt_put[OF w] inv_leases_def readers_def)
    next
      case 4
      show ?case using lease(3) by simp
    next
      case (5 k)
      then show ?case using fresh by (simp add: gm.cnt_put[OF w] readers_def)
    next
      case 6
      show ?case using S fresh gm.size_put[OF w] by (simp add: inv_leases_def)
    next
      case 7
      show ?case using lease(4) by simp
    qed
  qed
qed

lemma inv_close_lease:
  assumes inv: "mgr_inv L m"
  shows "mgr_inv L (close_lease n m)"
proof (cases "mget (m_leases m) n")
  case (Some l)
  from inv have S: "inv_leases m" and D: "inv_disk L m" by (auto simp: mgr_inv_def)
  have w: "wfm (m_leases m)" using S by (simp add: inv_leases_def)
  from S Some have "cached m (l_id l)" unfolding inv_leases_def by blast
  then obtain a where a: "mget (m_artifacts m) (l_id l) = Some a" by (auto simp: cached_iff)
  have "close_lease n m = m\<lparr>m_artifacts := mput (l_id l) (a\<lparr>a_refs := a_refs a - 1\<rparr>) (m_artifacts m),
      m_open := m_open m - 1, m_leases := mdel n (m_leases m), m_next_lease := m_next_lease m\<rparr>"
    using Some a by (simp add: close_lease_def artifact_of_def Let_def)
  also have "mgr_inv L \<dots>"
  proof (rule inv_put_refs[OF inv a], goal_cases)
    case 1
    show ?case using w by (rule gm.wf_del)
  next
    case (2 k l)
    with S show ?case by (auto simp: map_simps inv_leases_def split: if_splits)
  next
    case 3
    show ?case using S a Some by (simp add: gm.cnt_del[OF w] inv_leases_def readers_def)
  next
    case 4
    show ?case using S a by (force simp: inv_leases_def)
  next
    case (5 k)
    then show ?case using Some by (simp add: gm.cnt_del[OF w] readers_def)
  next
    case 6
    show ?case using S Some gm.size_del[OF w] by (simp add: inv_leases_def)
  next
    case 7
    show ?case using S by (simp add: inv_leases_def)
  qed
  finally show ?thesis .
qed (simp add: close_lease_def inv)

section \<open>Picking the next job\<close>

definition waiting :: "int \<Rightarrow> (string, job) gomap \<Rightarrow> string \<Rightarrow> bool" where
  "waiting now jobs i \<longleftrightarrow> (case mget jobs i of None \<Rightarrow> False
     | Some j \<Rightarrow> j_state j = Queued \<and> now - j_created j \<le> minute)"

definition owner_at :: "(string, job) gomap \<Rightarrow> string \<Rightarrow> string" where
  "owner_at jobs i = (case mget jobs i of None \<Rightarrow> '''' | Some j \<Rightarrow> j_owner j)"

text \<open>Jobs may only expire while they are scanned.\<close>

definition aged :: "int \<Rightarrow> (string, job) gomap \<Rightarrow> (string, job) gomap \<Rightarrow> bool" where
  "aged now jobs jobs' \<longleftrightarrow> map fst jobs' = map fst jobs \<and> (\<forall>k. mget jobs' k = mget jobs k \<or>
     (\<exists>j. mget jobs k = Some j \<and> j_state j = Queued \<and> now - j_created j > minute
        \<and> mget jobs' k = Some (j\<lparr>j_state := Expired\<rparr>)))"

lemma aged_refl [simp]: "aged now jobs jobs"
  by (simp add: aged_def)

lemma keys_put_old: "mget m k = Some v0 \<Longrightarrow> map fst (mput k v m) = map fst m"
  by (induction m) auto

lemma aged_expire:
  assumes "mget jobs i = Some j" "j_state j = Queued" "now - j_created j > minute"
  shows "aged now jobs (mput i (j\<lparr>j_state := Expired\<rparr>) jobs)"
  using assms keys_put_old[OF assms(1)] by (simp add: aged_def map_simps)

lemma aged_trans: "aged now a b \<Longrightarrow> aged now b c \<Longrightarrow> aged now a c"
  unfolding aged_def by (metis (no_types, lifting) job.select_convs(3) job.surjective job.update_convs(3) jstate.distinct(7) option.inject)

lemma aged_waiting:
  assumes "aged now jobs jobs'"
  shows "waiting now jobs' = waiting now jobs" "owner_at jobs' = owner_at jobs"
proof -
  have "waiting now jobs' k = waiting now jobs k \<and> owner_at jobs' k = owner_at jobs k" for k
    using assms[unfolded aged_def, THEN conjunct2, THEN spec, of k]
    by (auto simp: waiting_def owner_at_def)
  then show "waiting now jobs' = waiting now jobs" "owner_at jobs' = owner_at jobs" by auto
qed

lemma drop_Cons_nth: "i # is = drop n q \<Longrightarrow> n < length q \<and> q ! n = i \<and> is = drop (Suc n) q"
  by (metis Cons_nth_drop_Suc drop_all leI list.distinct(1) list.inject)

text \<open>
  The next job of a scan: the first waiting one of another owner than the one served last, else the
  earliest waiting one.
\<close>

definition head_opt :: "'a list \<Rightarrow> 'a option" where
  "head_opt xs = (case xs of [] \<Rightarrow> None | x # _ \<Rightarrow> Some x)"

lemma head_opt_simps [simp]: "head_opt [] = None" "head_opt (x # xs) = Some x"
  by (simp_all add: head_opt_def)

definition or_else :: "'a option \<Rightarrow> 'a option \<Rightarrow> 'a option" where
  "or_else a b = (case a of None \<Rightarrow> b | Some x \<Rightarrow> Some x)"

lemma or_else_simps [simp]: "or_else None b = b" "or_else (Some x) b = Some x" "or_else a None = a"
  by (auto simp: or_else_def split: option.splits)

definition next_up :: "int \<Rightarrow> string \<Rightarrow> (string, job) gomap \<Rightarrow> string option \<Rightarrow> string list \<Rightarrow> string option" where
  "next_up now sv jobs best is =
     or_else (head_opt (filter (\<lambda>i. waiting now jobs i \<and> owner_at jobs i \<noteq> sv) is))
       (or_else best (head_opt (filter (waiting now jobs) is)))"

lemma next_up_skip: "\<not> waiting now jobs i \<Longrightarrow> next_up now sv jobs best (i # is) = next_up now sv jobs best is"
  and next_up_other: "waiting now jobs i \<Longrightarrow> owner_at jobs i \<noteq> sv \<Longrightarrow> next_up now sv jobs best (i # is) = Some i"
  and next_up_same: "waiting now jobs i \<Longrightarrow> owner_at jobs i = sv \<Longrightarrow>
    next_up now sv jobs best (i # is) = next_up now sv jobs (or_else best (Some i)) is"
  and next_up_aged: "aged now jobs jobs' \<Longrightarrow> next_up now sv jobs' = next_up now sv jobs"
  by (auto simp: fun_eq_iff next_up_def aged_waiting or_else_def split: option.splits)

definition quiet :: "(string, job) gomap \<Rightarrow> string \<Rightarrow> bool" where
  "quiet jobs i \<longleftrightarrow> (\<forall>j. mget jobs i = Some j \<longrightarrow> j_state j \<noteq> Queued)"

lemma aged_quiet: "aged now jobs jobs' \<Longrightarrow> quiet jobs i \<Longrightarrow> quiet jobs' i"
  unfolding aged_def quiet_def by (metis option.inject)

lemma quiet_not_waiting: "quiet jobs i \<Longrightarrow> \<not> waiting now jobs i"
  by (auto simp: quiet_def waiting_def split: option.splits)

definition pick_ok where
  "pick_ok now sv q idx is jobs jobs' idx' \<longleftrightarrow> aged now jobs jobs'
    \<and> (\<forall>k. idx' = Some k \<longrightarrow> k < length q \<and> waiting now jobs (q ! k))
    \<and> map_option ((!) q) idx' = next_up now sv jobs (map_option ((!) q) idx) is
    \<and> (idx' = None \<longrightarrow> (\<forall>i\<in>set is. quiet jobs' i))"

lemma pick_ok_skip:
  assumes "aged now jobs jobs1" "quiet jobs1 i" "pick_ok now sv q idx is jobs1 jobs' idx'"
  shows "pick_ok now sv q idx (i # is) jobs jobs' idx'"
proof -
  have "\<not> waiting now jobs i" using quiet_not_waiting[OF assms(2), of now] aged_waiting(1)[OF assms(1)] by simp
  then show ?thesis
    using assms aged_quiet[of now jobs1 jobs' i] aged_trans[OF assms(1), of jobs']
    by (auto simp: pick_ok_def next_up_skip next_up_aged[OF assms(1)] aged_waiting[OF assms(1)])
qed

lemma pick_scan_spec:
  assumes "pick_scan now sv n is idx jobs = (jobs', idx')"
    and "is = drop n q" "\<forall>k. idx = Some k \<longrightarrow> k < length q \<and> waiting now jobs (q ! k)"
  shows "pick_ok now sv q idx is jobs jobs' idx'"
  using assms
proof (induction now sv n "is" idx jobs rule: pick_scan.induct)
  case (1 now sv n idx jobs)
  then show ?case by (auto simp: next_up_def pick_ok_def)
next
  case (2 now sv n i "is" idx jobs)
  note n = drop_Cons_nth[OF 2(6)]
  show ?case
  proof (cases "mget jobs i")
    case None
    with 2(5) have "pick_scan now sv (Suc n) is idx jobs = (jobs', idx')" by simp
    from 2(1)[OF None this] n 2(7) None show ?thesis
      by (intro pick_ok_skip[OF aged_refl]) (auto simp: quiet_def)
  next
    case (Some j)
    show ?thesis
    proof (cases "j_state j = Queued")
      case False
      with Some 2(5) have "pick_scan now sv (Suc n) is idx jobs = (jobs', idx')" by simp
      from 2(2)[OF Some False this] n 2(7) Some False show ?thesis
        by (intro pick_ok_skip[OF aged_refl]) (auto simp: quiet_def)
    next
      case q: True
      show ?thesis
      proof (cases "now - j_created j > minute")
        case True
        let ?jobs = "mput i (j\<lparr>j_state := Expired\<rparr>) jobs"
        note ag = aged_expire[OF Some q True]
        have "pick_scan now sv (Suc n) is idx ?jobs = (jobs', idx')" using Some q True 2(5) by simp
        from 2(3)[OF Some _ True this] q n 2(7) have "pick_ok now sv q idx is ?jobs jobs' idx'"
          by (simp add: aged_waiting[OF ag])
        then show ?thesis by (rule pick_ok_skip[OF ag, rotated]) (simp add: quiet_def map_simps)
      next
        case wait: False
        then have w: "waiting now jobs i" and o: "owner_at jobs i = j_owner j"
          using Some q by (simp_all add: waiting_def owner_at_def)
        show ?thesis
        proof (cases "j_owner j = sv")
          case False
          with Some q wait 2(5) have "jobs' = jobs" "idx' = Some n" by auto
          with False n w o show ?thesis by (simp add: pick_ok_def next_up_other)
        next
          case True
          let ?idx = "if idx = None then Some n else idx"
          have "pick_scan now sv (Suc n) is ?idx jobs = (jobs', idx')" using Some q wait True 2(5) by simp
          moreover have "\<forall>k. ?idx = Some k \<longrightarrow> k < length q \<and> waiting now jobs (q ! k)"
            using 2(7) n w by auto
          ultimately have ok: "pick_ok now sv q ?idx is jobs jobs' idx'"
            using 2(4)[OF Some _ wait] True q n by simp
          have "idx' \<noteq> None"
            using ok by (auto simp: pick_ok_def next_up_def or_else_def split: option.splits if_splits)
          moreover have "map_option ((!) q) ?idx = or_else (map_option ((!) q) idx) (Some i)"
            using n by (cases idx) auto
          ultimately show ?thesis
            using ok True o w by (auto simp: pick_ok_def next_up_same)
        qed
      qed
    qed
  qed
qed

lemma wfm_keys: "wfm m \<longleftrightarrow> distinct (map fst m)"
  by (simp add: wfm_def)

text \<open>A count over a map is the number of its keys that satisfy the predicate.\<close>

lemma cnt_card: "wfm m \<Longrightarrow> cnt P m = int (card {k. \<exists>v. mget m k = Some v \<and> P k v})"
proof -
  assume w: "wfm m"
  have d: "distinct (map fst (filter (\<lambda>(k, v). P k v) m))"
    using w by (simp add: wfm_def distinct_map_filter)
  have "set (map fst (filter (\<lambda>(k, v). P k v) m)) = {k. \<exists>v. mget m k = Some v \<and> P k v}"
    using w by (force simp: gm.entry_iff[OF w] image_iff)
  with distinct_card[OF d] show ?thesis by (simp add: cnt_def)
qed

lemma cnt_le_map:
  assumes "wfm m" "wfm m'" "\<And>k v'. mget m' k = Some v' \<Longrightarrow> P k v' \<Longrightarrow> \<exists>v. mget m k = Some v \<and> P k v"
  shows "cnt P m' \<le> cnt P m"
proof -
  have "finite {k. \<exists>v. mget m k = Some v \<and> P k v}"
    using gm.finite_dom[OF assms(1)] by (rule finite_subset[rotated]) auto
  then have "card {k. \<exists>v. mget m' k = Some v \<and> P k v} \<le> card {k. \<exists>v. mget m k = Some v \<and> P k v}"
    using assms(3) by (intro card_mono) auto
  then show ?thesis using assms by (simp add: cnt_card)
qed

lemma aged_get:
  assumes "aged now jobs jobs'" "mget jobs' k = Some j'"
  obtains j where "mget jobs k = Some j" "j' = j \<or> j_state j = Queued \<and> j' = j\<lparr>j_state := Expired\<rparr>"
  using assms(1)[unfolded aged_def, THEN conjunct2, THEN spec, of k] assms(2) that by fastforce

lemma inv_aged:
  assumes inv: "mgr_inv L m" and ag: "aged now (m_jobs m) jobs'"
  shows "mgr_inv L (m\<lparr>m_jobs := jobs'\<rparr>)" (is "mgr_inv L ?m")
proof -
  from inv have J: "inv_jobs m" and Q: "inv_queue m" and R: "inv_run m" and U: "inv_uncached m"
    and K: "inv_quota m" by (auto simp: mgr_inv_def)
  have w: "wfm (m_jobs m)" using J by (simp add: inv_jobs_def)
  have keys: "map fst jobs' = map fst (m_jobs m)" using ag by (simp add: aged_def)
  then have w': "wfm jobs'" and len: "length jobs' = length (m_jobs m)"
    using w map_eq_imp_length_eq[OF keys] by (simp_all add: wfm_def)
  have old: "\<exists>j. mget (m_jobs m) k = Some j \<and> job_ok n j = job_ok n j' \<and> j_ptr j = j_ptr j'
      \<and> (active j' \<longrightarrow> j' = j) \<and> (\<forall>ow. subscribed j' ow = subscribed j ow)"
    if "mget jobs' k = Some j'" for k j' n
    by (rule aged_get[OF ag that]) (auto simp: active_def job_ok_def subscribed_def)
  have "inv_jobs ?m" using J w' len old by (fastforce simp: inv_jobs_def)
  moreover have "inv_queue ?m" "inv_run ?m" "inv_uncached ?m"
    using Q R U old by (fastforce simp: inv_queue_def inv_run_def inv_uncached_def cached_def active_def)+
  moreover have "queued_count ?m \<le> queued_count m" "owned_count ow ?m \<le> owned_count ow m" for ow
    unfolding queued_count_def owned_count_def
    using old by (auto intro!: cnt_le_map[OF w] simp: w' active_def) blast+
  then have "inv_quota ?m" using K by (fastforce simp: inv_quota_def intro: order_trans)
  ultimately show ?thesis
    using inv_cache_frame[OF inv, of ?m] by (simp add: mgr_inv_def)
qed

lemma no_running: "inv_run m \<Longrightarrow> m_run m = None \<Longrightarrow> mget (m_jobs m) k = Some j \<Longrightarrow> j_state j \<noteq> Running"
  by (auto simp: inv_run_def)

lemma set_remove_nth:
  assumes "distinct q" "n < length q"
  shows "set (take n q @ drop (Suc n) q) = set q - {q ! n}"
proof -
  have q: "q = take n q @ q ! n # drop (Suc n) q" using assms(2) by (rule id_take_nth_drop)
  then have "distinct (take n q @ q ! n # drop (Suc n) q)" using assms(1) by simp
  moreover have "set q = set (take n q @ q ! n # drop (Suc n) q)" using q by simp
  ultimately show ?thesis by auto
qed

lemma distinct_remove_nth: "distinct q \<Longrightarrow> distinct (take n q @ drop (Suc n) q)"
  by (auto simp: set_take_disj_set_drop_if_distinct)

text \<open>One turn of the worker loop up to the unlock.\<close>

lemma work_pick_cases:
  obtains (idle) jobs where "aged now (m_jobs m) jobs" "\<forall>i\<in>set (m_queue m). quiet jobs i"
      "next_up now (m_last m) (m_jobs m) None (m_queue m) = None"
      "work_pick now m = m\<lparr>m_jobs := jobs, m_queue := [], m_run := None\<rparr>"
  | (start) jobs n j where "aged now (m_jobs m) jobs" "n < length (m_queue m)"
      "next_up now (m_last m) (m_jobs m) None (m_queue m) = Some (m_queue m ! n)"
      "mget jobs (m_queue m ! n) = Some j" "j_state j = Queued" "now - j_created j \<le> minute"
      "mget (m_jobs m) (m_queue m ! n) = Some j"
      "work_pick now m = m\<lparr>m_jobs := mput (m_queue m ! n) (j\<lparr>j_state := Running\<rparr>) jobs,
         m_queue := take n (m_queue m) @ drop (Suc n) (m_queue m), m_last := j_owner j,
         m_run := Some \<lparr>w_id = m_queue m ! n, w_ptr = j_ptr j, w_request = j_request j, w_cancelled = False\<rparr>\<rparr>"
proof -
  obtain jobs idx where s: "pick_scan now (m_last m) 0 (m_queue m) None (m_jobs m) = (jobs, idx)" by force
  have ok: "pick_ok now (m_last m) (m_queue m) None (m_queue m) (m_jobs m) jobs idx"
    using pick_scan_spec[OF s, of "m_queue m"] by simp
  show thesis
  proof (cases idx)
    case None
    with ok s show thesis by (intro idle[of jobs]) (auto simp: pick_ok_def work_pick_def)
  next
    case (Some n)
    with ok have w: "n < length (m_queue m)" "waiting now (m_jobs m) (m_queue m ! n)" "aged now (m_jobs m) jobs"
      "next_up now (m_last m) (m_jobs m) None (m_queue m) = Some (m_queue m ! n)" by (auto simp: pick_ok_def)
    then obtain j where j: "mget (m_jobs m) (m_queue m ! n) = Some j" "j_state j = Queued" "now - j_created j \<le> minute"
      by (auto simp: waiting_def split: option.splits)
    have j': "mget jobs (m_queue m ! n) = Some j"
      using w(3)[unfolded aged_def, THEN conjunct2, THEN spec, of "m_queue m ! n"] j by auto
    show thesis
      using s Some j' by (intro start[OF w(3,1,4) j' j(2,3,1)]) (simp add: work_pick_def Let_def)
  qed
qed

lemma inv_pick:
  assumes inv: "mgr_inv L m" and r: "m_run m = None"
  shows "mgr_inv L (work_pick now m)"
proof (cases rule: work_pick_cases[of now m])
  case (idle jobs)
  note inv1 = inv_aged[OF inv idle(1)]
  then have "inv_queue (m\<lparr>m_jobs := jobs, m_queue := [], m_run := None\<rparr>)"
    using idle(2) by (auto simp: mgr_inv_def inv_queue_def quiet_def)
  then show ?thesis
    using inv1 inv_cache_frame[OF inv1, of "m\<lparr>m_jobs := jobs, m_queue := [], m_run := None\<rparr>"] r
    unfolding idle by (auto simp: mgr_inv_def inv_jobs_def inv_run_def inv_uncached_def inv_quota_def cached_def
      queued_count_def owned_count_def)
next
  case (start jobs n j)
  let ?i = "m_queue m ! n" and ?m1 = "m\<lparr>m_jobs := jobs\<rparr>"
  note inv1 = inv_aged[OF inv start(1)]
  from inv1 have J: "inv_jobs ?m1" and Q: "inv_queue ?m1" and R: "inv_run ?m1" and U: "inv_uncached ?m1"
    and K: "inv_quota ?m1" by (auto simp: mgr_inv_def)
  let ?m = "work_pick now m"
  have w: "wfm jobs" using J by (simp add: inv_jobs_def)
  have nr: "mget jobs k = Some jk \<Longrightarrow> j_state jk \<noteq> Running" for k jk
    using no_running[OF R] r by simp
  have "inv_jobs ?m"
    using J start(4) w length_put_old[OF start(4), of "j\<lparr>j_state := Running\<rparr>"]
    by (auto simp: start(8) inv_jobs_def map_simps gm.wf_put job_ok_def)
  moreover have "distinct (m_queue m)" using Q by (simp add: inv_queue_def)
  then have "inv_queue ?m"
    using Q set_remove_nth[OF _ start(2)] distinct_remove_nth
    by (auto simp: start(8) inv_queue_def map_simps simp del: set_append distinct_append split: if_splits)
  moreover have "inv_run ?m" using nr by (auto simp: start(8) inv_run_def map_simps split: if_splits)
  moreover have "inv_uncached ?m"
    using U start(4,5) by (auto simp: start(8) inv_uncached_def cached_def map_simps active_def)
  moreover have "queued_count ?m \<le> queued_count ?m1" "owned_count ow ?m \<le> owned_count ow ?m1" for ow
    using start(4,5) by (auto simp: start(8) queued_count_def owned_count_def gm.cnt_put[OF w] active_def subscribed_def)
  then have "inv_quota ?m" using K start(8) by (fastforce simp: inv_quota_def intro: order_trans)
  ultimately show ?thesis
    using inv_cache_frame[OF inv, of ?m] by (simp add: start(8) mgr_inv_def)
qed

end
