(* ===== verification/StudioQueue.thy ===== *)
theory StudioQueue
  imports ManagerInv Studio
begin

text \<open>
  The interface between the studio (\<open>internal/studio\<close>) and the render queue: the contract behind the
  interface \<open>Jobs\<close> of \<open>studio.go\<close> as a locale, and its interpretation on the manager of
  \<open>internal/renderjob\<close>.
\<close>

section \<open>The queue interface\<close>

text \<open>
  What the studio relies on behind its \<open>Jobs\<close> interface: every operation keeps the queue well-formed,
  an admission answers every request, cancelling ends the caller's interest in one job and touches
  nobody else's view.
\<close>

locale jobs_queue =
  fixes J :: "'q jobs_api" and good :: "'q \<Rightarrow> bool"
  assumes admit_good: "good q \<Longrightarrow> good (fst (ja_admit J owner qs q))"
    and cancel_good: "good q \<Longrightarrow> good (ja_cancel J owner i q)"
    and admit_length: "ja_admit J owner qs q = (q', Inr ids) \<Longrightarrow> length ids = length qs"
    and cancel_ends: "good q \<Longrightarrow> \<not> unfinished (Some (ja_status J owner i (ja_cancel J owner i q)))"
    and cancel_keeps: "good q \<Longrightarrow> owner' \<noteq> owner \<or> k \<noteq> i \<Longrightarrow>
      ja_status J owner' k (ja_cancel J owner i q) = ja_status J owner' k q"
begin

lemma cancel_sample_good: "good q \<Longrightarrow> good (cancel_sample J key q a)"
  by (simp add: cancel_sample_def cancel_good)

lemma cancel_samples_good: "good q \<Longrightarrow> good (foldl (cancel_sample J key) q as)"
  by (induction as arbitrary: q) (simp_all add: cancel_sample_good)

lemma cancel_workspace_good: "good q \<Longrightarrow> good (cancel_workspace J key w q)"
proof -
  have "good q \<Longrightarrow> good (foldl (\<lambda>q (i, x). foldl (cancel_sample J key) q (v_samples (x_view x))) q xs)" for xs
    by (induction xs arbitrary: q) (auto intro: cancel_samples_good)
  then show "good q \<Longrightarrow> ?thesis" by (simp add: cancel_workspace_def)
qed

text \<open>The loop of \<open>Cancel\<close>: afterwards no member of the batch is queued or running.\<close>

lemma cancel_done_stays:
  assumes "good q" "\<not> unfinished (Some (ja_status J owner k q))"
  shows "\<not> unfinished (Some (ja_status J owner k (ja_cancel J owner i q)))"
  using assms cancel_ends[of q owner k] cancel_keeps[of q owner owner k i] by (cases "k = i") auto

lemma cancel_members_good:
  "cancel_members J token ms as (Some q) = (as', q') \<Longrightarrow> good q \<Longrightarrow> \<exists>q2. q' = Some q2 \<and> good q2
     \<and> (\<forall>k. \<not> unfinished (Some (ja_status J token k q)) \<longrightarrow> \<not> unfinished (Some (ja_status J token k q2)))
     \<and> (\<forall>a\<in>set as. sa_id a \<in> set ms \<longrightarrow> \<not> unfinished (Some (ja_status J token (sa_job a) q2)))
     \<and> (\<forall>owner k. owner \<noteq> token \<longrightarrow> ja_status J owner k q2 = ja_status J owner k q)"
proof (induction as arbitrary: q as' q')
  case (Cons a as)
  let ?hit = "sa_id a \<in> set ms \<and> unfinished (Some (ja_status J token (sa_job a) q))"
  let ?q = "if ?hit then ja_cancel J token (sa_job a) q else q"
  obtain as2 q2 where r: "cancel_members J token ms as (Some ?q) = (as2, q2)" by force
  with Cons.prems(1) have q': "q' = q2" by (auto split: if_splits)
  have g: "good ?q" using Cons.prems(2) cancel_good by simp
  have keep: "\<not> unfinished (Some (ja_status J token k q)) \<Longrightarrow> \<not> unfinished (Some (ja_status J token k ?q))" for k
    using cancel_done_stays[OF Cons.prems(2)] by simp
  have me: "sa_id a \<in> set ms \<Longrightarrow> \<not> unfinished (Some (ja_status J token (sa_job a) ?q))"
    using cancel_ends[OF Cons.prems(2)] by auto
  have other: "owner \<noteq> token \<Longrightarrow> ja_status J owner k ?q = ja_status J owner k q" for owner k
    using cancel_keeps[OF Cons.prems(2)] by simp
  from Cons.IH[OF r g] keep me other q' show ?case by fastforce
qed simp

end

section \<open>The render manager behind the interface\<close>

definition manager_jobs :: "golib \<Rightarrow> sysio \<Rightarrow> int \<Rightarrow> mgr jobs_api" where
  "manager_jobs L io now = \<lparr>ja_admit = admit L io now, ja_status = status_of now, ja_cancel = cancel\<rparr>"

lemma manager_jobs_simps [simp]:
  "ja_admit (manager_jobs L io now) = admit L io now" "ja_status (manager_jobs L io now) = status_of now"
  "ja_cancel (manager_jobs L io now) = cancel"
  by (simp_all add: manager_jobs_def)

lemma admit_ids: "admit L io now owner qs m = (m', Inr ids) \<Longrightarrow> length ids = length qs"
  by (auto simp: admit_def Let_def split: if_splits sum.splits prod.splits option.splits dest: map_res_length)

lemma cancel_get:
  "mget (m_jobs (cancel owner i m)) k = (case mget (m_jobs m) k of None \<Rightarrow> None
     | Some j \<Rightarrow> if k \<noteq> i then Some j else
         let j1 = j\<lparr>j_subs := mdel owner (j_subs j)\<rparr> in
         Some (if j_subs j1 = [] \<and> active j1 then j1\<lparr>j_state := Cancelled\<rparr> else j1))"
  "m_artifacts (cancel owner i m) = m_artifacts m" "m_cfg (cancel owner i m) = m_cfg m"
  by (auto simp: cancel_def Let_def map_simps split: option.splits)

lemma cancel_unsubscribed: "status_of now owner i (cancel owner i m) = \<lparr>st_id = i, st_state = Expired,
    st_message = ''This sample is no longer available. Generate it again.''\<rparr>"
  by (auto simp: status_of_def cancel_get subscribed_def map_simps Let_def split: option.splits)

lemma cancel_others:
  assumes "owner' \<noteq> owner \<or> k \<noteq> i"
  shows "status_of now owner' k (cancel owner i m) = status_of now owner' k m"
proof (cases "k = i")
  case False
  then show ?thesis by (simp add: status_of_def cancel_get split: option.splits)
next
  case True
  with assms have o: "owner' \<noteq> owner" by simp
  show ?thesis
  proof (cases "mget (m_jobs m) i")
    case None
    with True show ?thesis by (simp add: status_of_def cancel_get)
  next
    case (Some j)
    let ?j = "j\<lparr>j_subs := mdel owner (j_subs j)\<rparr>"
    have s: "subscribed ?j owner' = subscribed j owner'" using o by (simp add: subscribed_drop)
    show ?thesis
    proof (cases "j_subs ?j = []")
      case e: True
      then have "\<not> subscribed ?j owner'" by (simp add: subscribed_def)
      with s Some True e show ?thesis by (simp add: status_of_def cancel_get Let_def subscribed_def)
    next
      case False
      with s Some True show ?thesis by (simp add: status_of_def cancel_get Let_def split: option.splits)
    qed
  qed
qed

interpretation mq: jobs_queue "manager_jobs L io now" "mgr_inv L"
proof unfold_locales
  fix q owner qs
  assume "mgr_inv L q"
  then show "mgr_inv L (fst (ja_admit (manager_jobs L io now) owner qs q))" by (simp add: inv_admit)
next
  fix q owner i
  assume "mgr_inv L q"
  then show "mgr_inv L (ja_cancel (manager_jobs L io now) owner i q)" by (simp add: inv_cancel)
next
  fix owner qs q q' ids
  assume "ja_admit (manager_jobs L io now) owner qs q = (q', Inr ids)"
  then show "length ids = length qs" by (simp add: admit_ids)
next
  fix q owner i
  show "\<not> unfinished (Some (ja_status (manager_jobs L io now) owner i (ja_cancel (manager_jobs L io now) owner i q)))"
    by (simp add: cancel_unsubscribed unfinished_def in_state_def)
next
  fix q :: mgr and owner' owner k i :: string
  assume "owner' \<noteq> owner \<or> k \<noteq> i"
  then show "ja_status (manager_jobs L io now) owner' k (ja_cancel (manager_jobs L io now) owner i q)
      = ja_status (manager_jobs L io now) owner' k q"
    by (simp add: cancel_others)
qed

end
