(* ===== verification/Completion.thy ===== *)
theory Completion
  imports Catalog
begin

text \<open>
  What \<open>publish.Complete\<close> and \<open>publish.Validate\<close> promise their callers: a completed recipe is public,
  small, of the requested artwork and seed, and keeps the requested choices and palette.
\<close>

lemma strict_json_Inr: "strict_json L dst b = Inr v \<Longrightarrow> dst b = Inr v"
  by (auto simp: strict_json_def res_simps split: if_splits prod.splits)

definition public_recipe :: "golib \<Rightarrow> recipe \<Rightarrow> bool" where
  "public_recipe L r \<longleftrightarrow> (\<exists>raw. publish_validate L raw = Inr r)"

lemma decode_traits_wfm: "decode L data = Inr r \<Longrightarrow> wfm (r_traits r)"
  by (erule decode_Inr) (auto dest!: configured_Inr)

lemma complete_set_length:
  assumes "complete_set sch st" "wfm st" "distinct (map d_name sch)"
  shows "length st = length sch"
proof -
  have "fst ` set st = d_name ` set sch"
    using assms(1) by (simp add: complete_set_def dom_map_of_conv_image_fst)
  then have "set (map fst st) = set (map d_name sch)" by simp
  then show ?thesis
    using assms(2,3) by (metis distinct_card length_map wfm_def)
qed

text \<open>The choices of a public recipe.\<close>

lemma public_recipe_traits:
  assumes "public_recipe L r"
  obtains e where "get_entry (r_id r) = Some e"
    "space L (r_id r) = Inr (map (space_dim (r_id r) e) (base_schema (r_id r)))"
    "complete_set (map (space_dim (r_id r) e) (base_schema (r_id r))) (r_traits r)"
    "valid_set (map (space_dim (r_id r) e) (base_schema (r_id r))) (r_traits r)"
    "wfm (r_traits r)" "length (r_traits r) = length (base_schema (r_id r))"
    "r_pal r \<in> co_id ` set (en_colours e)"
proof -
  from assms obtain raw where v: "publish_validate L raw = Inr r" by (auto simp: public_recipe_def)
  then have "decode L raw = Inr r" by (auto simp: publish_validate_def res_simps Let_def split: if_splits)
  from decode_traits_wfm[OF this] have w: "wfm (r_traits r)" .
  from validate_public[OF v] obtain e sch where e: "get_entry (r_id r) = Some e" "space L (r_id r) = Inr sch"
    "complete_set sch (r_traits r)" "r_pal r \<in> co_id ` set (en_colours e)" by blast
  then have sch: "sch = map (space_dim (r_id r) e) (base_schema (r_id r))" by (simp add: space_eq)
  have dis: "distinct (map d_name sch)" using space_schema_wf[OF e(1)] sch by (simp add: wf_schema_def)
  show thesis
    using that e w sch valid_set_complete[OF e(3) dis w refl] complete_set_length[OF e(3) w dis] by simp
qed

text \<open>A configuration that gives every dimension is resolved to itself.\<close>

lemma configured_complete:
  assumes J: "json_faithful L" and enc: "gl_enc_config L art c = Inr cb"
    and st: "complete_set (base_schema art) (cf_traits c)"
    and conf: "configured L art cb seed = Inr (s, c')"
  shows "mget (cf_traits c') = mget (cf_traits c)" "cf_fields c' = cf_fields c" "gl_enc_config L art c' = Inr cb"
    and "sketch_traits s seed = Some (cf_traits c')"
proof -
  from configured_Inr[OF conf] obtain s0 c0 k suffix st' where
    pub: "published art" and s0: "sketch_schema s0 = base_schema art" and c0: "strict_json L (gl_dec_config L art) cb = Inr c0"
    and s: "s = with_config s0 (cf_traits c0) k" "sketch_traits s seed = Some st'"
    and st': "complete_set (base_schema art) st'" "c' = c0\<lparr>cf_traits := st'\<rparr>" by blast
  have encoded: "encoded art c" using pub st by (simp add: encoded_def)
  from json_faithfulD(1)[OF J encoded enc] strict_json_Inr[OF c0] have c1: "wfm (cf_traits c0)" "cf_fields c0 = cf_fields c"
    "mget (cf_traits c0) = mget (cf_traits c)" by auto
  obtain d where d: "complete_set (base_schema art) d"
    "\<And>over k. sketch_traits (with_config s0 over k) seed = Some (lay_pins (lay_pins over []) d)"
    using traits_overrides[OF s0] by blast
  with s have e: "st' = lay_pins (lay_pins (cf_traits c0) []) d" by simp
  have "mget st' x = mget (cf_traits c) x" for x
  proof -
    have "dom (mget d) = dom (mget (cf_traits c))" using d(1) st by (simp add: complete_set_def)
    then have "mget (cf_traits c) x = None \<Longrightarrow> mget d x = None" by (metis domIff)
    then show ?thesis
      using mget_lay_pins[OF c1(1), of "[]" x] c1(3) e
      by (cases "mget (cf_traits c) x") (simp_all add: mget_lay_pins[OF valid_set_wfm_nil])
  qed
  then show m: "mget (cf_traits c') = mget (cf_traits c)" using st'(2) by auto
  show f: "cf_fields c' = cf_fields c" using c1(2) st'(2) by simp
  show "gl_enc_config L art c' = Inr cb" using json_faithfulD(3)[OF J encoded f m] enc by simp
  show "sketch_traits s seed = Some (cf_traits c')" using s(2) st'(2) by simp
qed

text \<open>The recipe that \<open>complete\<close> builds of a full set of choices is the encoding of these choices.\<close>

lemma complete_raw_spec:
  assumes J: "json_faithful L" and c: "complete_raw L art seed pal st = Inr r"
    and st: "complete_set (base_schema art) st"
  shows "r_id r = art \<and> r_seed r = format_uint seed \<and> mget (r_traits r) = mget st
    \<and> length (r_canonical r) \<le> max_recipe
    \<and> r_pal r = (let col = set_get st ''colourway'' in if col \<noteq> '''' then
         (if col = ''from-flag'' then ''from-flag'' else col) else if pal = '''' then ''diebenkorn-seawall'' else pal)"
proof -
  let ?c = "\<lparr>cf_traits = st, cf_fields = []\<rparr>"
  let ?col = "set_get st ''colourway''"
  let ?pal = "if ?col \<noteq> '''' then ?col else if pal = '''' then ''diebenkorn-seawall'' else pal"
  from c obtain cb b where cb: "gl_enc_config L art ?c = Inr cb"
    and b: "gl_enc_envelope L \<lparr>e_version = 1, e_id = art, e_edition = ''1'', e_seed = format_uint seed,
       e_palette = ?pal, e_config = cb\<rparr> = Inr b" (is "gl_enc_envelope L ?e = _")
    and d: "decode L b = Inr r" and pub: "published art"
    by (auto simp: complete_raw_def new_recipe_def published_def res_simps Let_def split: if_splits)
  have "encoded art ?c" using pub st by (simp add: encoded_def)
  from json_faithfulD(2)[OF J this cb b] obtain pal' where de: "gl_dec_envelope L b = Inr (?e\<lparr>e_palette := pal'\<rparr>)"
    "by_name pal' \<noteq> None \<longrightarrow> pal' = ?pal" by auto
  from d obtain seed' s c' cb' where r: "parse_uint (format_uint seed) = Some seed'"
    "configured L art cb seed' = Inr (s, c')" "sketch_traits s seed' = Some (r_traits r)"
    "gl_enc_config L art c' = Inr cb'" "r_id r = art" "r_seed r = format_uint seed'"
    "r_pal r = (let col = set_get (r_traits r) ''colourway''
       in if col \<noteq> '''' \<and> col \<noteq> ''from-flag'' then col else ?pal)"
    "gl_enc_envelope L \<lparr>e_version = 1, e_id = r_id r, e_edition = ''1'', e_seed = r_seed r,
       e_palette = r_pal r, e_config = cb'\<rparr> = Inr (r_canonical r)"
  proof (rule decode_Inr)
    fix e seed' s c' cb'
    assume known: "by_name (e_palette e) \<noteq> None"
      and a: "strict_json L (gl_dec_envelope L) b = Inr e" "parse_uint (e_seed e) = Some seed'"
      "configured L (e_id e) (e_config e) seed' = Inr (s, c')" "sketch_traits s seed' = Some (r_traits r)"
      "gl_enc_config L (e_id e) c' = Inr cb'" "r_id r = e_id e" "r_seed r = format_uint seed'"
      "r_pal r = (let col = set_get (r_traits r) ''colourway''
         in if col \<noteq> '''' \<and> col \<noteq> ''from-flag'' then col else e_palette e)"
      "gl_enc_envelope L \<lparr>e_version = 1, e_id = r_id r, e_edition = ''1'', e_seed = r_seed r,
         e_palette = r_pal r, e_config = cb'\<rparr> = Inr (r_canonical r)"
    then have e: "e = ?e" using strict_json_Inr[OF a(1)] de known by auto
    show thesis
      by (rule that[of seed' s c' cb'])
        (use a(2-9)[unfolded e] in \<open>simp_all only: envelope.select_convs\<close>)
  qed
  have seed': "seed' = seed" using r(1) by simp
  note cc = configured_complete[OF J cb _ r(2)]
  have m: "mget (r_traits r) = mget st" using cc(1,4) st r(3) by simp
  then have col: "set_get (r_traits r) ''colourway'' = ?col" by (simp add: set_get_def)
  have p: "r_pal r = ?pal" using r(7) col by (auto simp: Let_def)
  have "cb' = cb" using cc(3) st r(4) by simp
  then have "r_canonical r = b" using r(5,6,8) b p seed' by simp
  moreover have "length b \<le> max_recipe" using d by (auto simp: decode_def split: if_splits)
  ultimately show ?thesis using r(5,6) seed' m p by (auto simp: Let_def)
qed

lemma validate_small:
  assumes J: "json_faithful L" and r: "public_recipe L r"
  shows "length (r_canonical r) \<le> max_recipe"
proof -
  from r obtain raw where v: "publish_validate L raw = Inr r" by (auto simp: public_recipe_def)
  from validate_public[OF v] obtain clean where
    c: "complete_raw L (r_id r) (parse_uint_value (r_seed r)) (r_pal r) (r_traits r) = Inr clean"
    "r_canonical clean = r_canonical r" by blast
  have "decode L raw = Inr r" using v by (auto simp: publish_validate_def res_simps Let_def split: if_splits)
  from complete_raw_spec[OF J c(1) decode_traits[OF this]] c(2) show ?thesis by simp
qed

lemma publish_complete_spec:
  assumes J: "json_faithful L" and c: "publish_complete L art seed pal st = Inr r"
    and st: "complete_set (base_schema art) st"
  shows "public_recipe L r \<and> r_id r = art \<and> r_seed r = format_uint seed \<and> mget (r_traits r) = mget st
    \<and> length (r_canonical r) \<le> max_recipe"
    and "set_get st ''colourway'' = '''' \<Longrightarrow> pal \<noteq> '''' \<Longrightarrow> r_pal r = pal"
proof -
  from c obtain r0 where r0: "complete_raw L art seed pal st = Inr r0" "publish_validate L (r_canonical r0) = Inr r"
    by (auto simp: publish_complete_def res_simps)
  note s0 = complete_raw_spec[OF J r0(1) st]
  from r0(1) obtain b where b: "decode L b = Inr r0"
    by (auto simp: complete_raw_def new_recipe_def res_simps Let_def split: if_splits)
  have small: "length (r_canonical r0) \<le> 16384" using s0 by (simp add: max_recipe_def)
  from decode_fixpoint[OF J b small] r0(2) have same: "r_canonical r = r_canonical r0" "r_id r = r_id r0"
    "r_seed r = r_seed r0" "r_pal r = r_pal r0" "mget (r_traits r) = mget (r_traits r0)"
    by (auto simp: publish_validate_def res_simps Let_def split: if_splits)
  show "public_recipe L r \<and> r_id r = art \<and> r_seed r = format_uint seed \<and> mget (r_traits r) = mget st
    \<and> length (r_canonical r) \<le> max_recipe"
    using s0 same r0(2) by (auto simp: public_recipe_def)
  show "set_get st ''colourway'' = '''' \<Longrightarrow> pal \<noteq> '''' \<Longrightarrow> r_pal r = pal"
    using s0 same by simp
qed

end
