(* ===== verification/Offers.thy ===== *)
theory Offers
  imports Completion
begin

text \<open>
  The converse of \<open>Completion\<close>: \<open>publish.Complete\<close> succeeds for every combination of choices and colour that
  the catalogue offers, given a JSON library that can encode it.
\<close>

lemma complete_space_base:
  assumes "complete_set (map (space_dim art e) (base_schema art)) st"
  shows "complete_set (base_schema art) st"
proof -
  have "\<exists>v\<in>set (d_values d). mget st (d_name d) = Some (v_name v)" if "d \<in> set (base_schema art)" for d
  proof -
    from assms that obtain v' where v': "v' \<in> set (d_values (space_dim art e d))" "mget st (d_name d) = Some (v_name v')"
      by (fastforce simp: complete_set_def)
    then obtain v where "v \<in> set (d_values d)" "space_value art e d v = Some v'"
      by (auto simp: space_dim_def set_map_filter_iff)
    with v'(2) space_value_name show ?thesis by metis
  qed
  with assms show ?thesis by (simp add: complete_set_def image_image)
qed

section \<open>Every offered choice can be completed\<close>

text \<open>
  A library that encodes every complete set of choices of an artwork into a recipe within the size
  limit; \<open>encoding/json\<close> does, as the configurations are small.
\<close>

definition encodes :: "golib \<Rightarrow> string \<Rightarrow> bool" where
  "encodes L art \<longleftrightarrow> (\<forall>st. complete_set (base_schema art) st \<longrightarrow>
     (\<exists>cb. gl_enc_config L art \<lparr>cf_traits = st, cf_fields = []\<rparr> = Inr cb
       \<and> (\<forall>seed pal. pal \<in> co_id ` set colours \<longrightarrow> (\<exists>b. gl_enc_envelope L \<lparr>e_version = 1, e_id = art,
            e_edition = ''1'', e_seed = format_uint seed, e_palette = pal, e_config = cb\<rparr> = Inr b
            \<and> length b \<le> max_recipe))))"

lemma colours_by_name: "pal \<in> co_id ` set colours \<Longrightarrow> by_name pal \<noteq> None \<and> pal \<noteq> '''' \<and> pal \<noteq> ''from-flag''"
  unfolding by_name_iff by (auto simp: colours_def palette_slugs_def)

lemma space_colourway:
  assumes "get_entry art = Some e" "complete_set (map (space_dim art e) (base_schema art)) st"
    "set_get st ''colourway'' \<noteq> ''''"
  shows "set_get st ''colourway'' \<in> co_id ` set colours"
proof -
  from assms(3) obtain col where col: "mget st ''colourway'' = Some col" "set_get st ''colourway'' = col"
    by (auto simp: set_get_def split: option.splits)
  then have "''colourway'' \<in> d_name ` set (map (space_dim art e) (base_schema art))"
    using assms(2) unfolding complete_set_def by blast
  then obtain d where d: "d \<in> set (base_schema art)" "d_name d = ''colourway''" by auto
  with assms(2) obtain v' where v': "v' \<in> set (d_values (space_dim art e d))" "mget st ''colourway'' = Some (v_name v')"
    by (fastforce simp: complete_set_def)
  then obtain v where v: "space_value art e d v = Some v'" by (auto simp: space_dim_def set_map_filter_iff)
  then have "list_ex (\<lambda>c. co_id c = v_name v') (en_colours e)"
    using d(2) by (auto simp: space_value_def Let_def split: if_splits)
  then show ?thesis using col v'(2) get_entry_cases(3)[OF assms(1)] by (force simp: list_ex_iff)
qed

text \<open>Reading back what \<open>complete\<close> writes.\<close>

lemma decode_completed:
  assumes J: "json_faithful L" and pub: "published art" and st: "complete_set (base_schema art) st"
    and pal: "pal \<in> co_id ` set colours" and col: "set_get st ''colourway'' \<noteq> '''' \<Longrightarrow> set_get st ''colourway'' = pal"
    and cb: "gl_enc_config L art \<lparr>cf_traits = st, cf_fields = []\<rparr> = Inr cb"
    and b: "gl_enc_envelope L \<lparr>e_version = 1, e_id = art, e_edition = ''1'', e_seed = format_uint seed,
       e_palette = pal, e_config = cb\<rparr> = Inr b" "length b \<le> max_recipe"
  shows "\<exists>r. decode L b = Inr r \<and> r_canonical r = b \<and> r_id r = art \<and> r_seed r = format_uint seed \<and> r_pal r = pal
    \<and> mget (r_traits r) = mget st \<and> wfm (r_traits r)"
proof -
  let ?c = "\<lparr>cf_traits = st, cf_fields = []\<rparr>"
  let ?e = "\<lparr>e_version = 1, e_id = art, e_edition = ''1'', e_seed = format_uint seed, e_palette = pal, e_config = cb\<rparr>"
  note dis = base_schema_ok(2)[of art, unfolded wf_schema_def]
  have encoded: "encoded art ?c" using pub st by (simp add: encoded_def)
  obtain c0 where c0: "json_accepts L cb" "gl_dec_config L art cb = Inr c0" "wfm (cf_traits c0)" "cf_fields c0 = []"
    "mget (cf_traits c0) = mget st"
    using json_faithfulD(1)[OF J encoded cb] by auto
  have env: "strict_json L (gl_dec_envelope L) b = Inr ?e"
    using json_faithfulD(2)[OF J encoded cb b(1)] colours_by_name[OF pal] by (auto intro: strict_json_accepts)
  have dc: "strict_json L (gl_dec_config L art) cb = Inr c0" using c0(1,2) by (intro strict_json_accepts)
  obtain s0 where s0: "new_sketch L art = Some s0" "sketch_schema s0 = base_schema art" using new_sketch_ok by blast
  have v: "valid_set (base_schema art) (cf_traits c0)"
    using st c0(3,5) dis by (intro valid_set_complete) simp_all
  obtain k where k: "from_config (gl_g L) (art_fields art) (Some s0) c0 = Inr (with_config s0 (cf_traits c0) k)"
    using from_config_bare[of s0 "cf_traits c0" "gl_g L" "art_fields art"] v s0(2) c0(4) by (cases c0) auto
  obtain st' where st': "sketch_traits (with_config s0 (cf_traits c0) k) seed = Some st'" "wfm st'"
    using traits_with_config[OF s0(2) v, of k seed] by blast
  have conf: "configured L art cb seed = Inr (with_config s0 (cf_traits c0) k, c0\<lparr>cf_traits := st'\<rparr>)"
    using pub dc s0 k st'(1) by (simp add: configured_eq configure_with_def)
  note cc = configured_complete[OF J cb _ conf]
  have m: "mget st' = mget st" and enc: "gl_enc_config L art (c0\<lparr>cf_traits := st'\<rparr>) = Inr cb"
    using cc(1,3) st by simp_all
  have "set_get st' ''colourway'' = set_get st ''colourway''" using m by (simp add: set_get_def)
  then have p: "(if set_get st' ''colourway'' \<noteq> '''' \<and> set_get st' ''colourway'' \<noteq> ''from-flag''
      then ?e\<lparr>e_palette := set_get st' ''colourway''\<rparr> else ?e) = ?e"
    using col by simp
  have "decode L b = Inr \<lparr>r_canonical = b, r_id = art, r_seed = format_uint seed, r_pal = pal, r_traits = st'\<rparr>"
    using b(2) env colours_by_name[OF pal] conf st'(1) enc b(1) p
    by (simp add: decode_def Let_def split: if_splits)
  with m st'(2) show ?thesis by simp
qed

lemma get_entry_published: "get_entry art = Some e \<Longrightarrow> published art"
  using get_entry_cases(1) by (fastforce simp: published_def)

lemma complete_offered:
  assumes J: "json_faithful L" and enc: "encodes L art" and e: "get_entry art = Some e"
    and st: "complete_set (map (space_dim art e) (base_schema art)) st" and pal: "pal \<in> co_id ` set (en_colours e)"
  shows "\<exists>r. publish_complete L art seed pal st = Inr r"
proof -
  let ?sch = "map (space_dim art e) (base_schema art)" and ?col = "set_get st ''colourway''"
  let ?pal = "if ?col \<noteq> '''' then ?col else pal"
  have cols: "en_colours e = colours" by (rule get_entry_cases(3)[OF e])
  have base: "complete_set (base_schema art) st" by (rule complete_space_base[OF st])
  have p: "?pal \<in> co_id ` set colours" using space_colourway[OF e st] pal cols by simp
  have pub: "published art" by (rule get_entry_published[OF e])
  obtain cb where cb: "gl_enc_config L art \<lparr>cf_traits = st, cf_fields = []\<rparr> = Inr cb"
    "\<And>seed pal. pal \<in> co_id ` set colours \<Longrightarrow> \<exists>b. gl_enc_envelope L \<lparr>e_version = 1, e_id = art,
            e_edition = ''1'', e_seed = format_uint seed, e_palette = pal, e_config = cb\<rparr> = Inr b \<and> length b \<le> max_recipe"
    using enc base unfolding encodes_def by blast
  from cb(2)[OF p, of seed] obtain b where b: "gl_enc_envelope L \<lparr>e_version = 1, e_id = art, e_edition = ''1'',
     e_seed = format_uint seed, e_palette = ?pal, e_config = cb\<rparr> = Inr b" "length b \<le> max_recipe" by blast
  have "?col \<noteq> [] \<Longrightarrow> ?col = ?pal" by simp
  from decode_completed[OF J pub base p this cb(1) b] obtain r where r: "decode L b = Inr r" "r_canonical r = b"
    "r_id r = art" "r_seed r = format_uint seed" "r_pal r = ?pal" "mget (r_traits r) = mget st" "wfm (r_traits r)"
    by metis
  have pal1: "pal \<noteq> ''''" using pal cols colours_by_name[of pal] by simp
  have raw: "complete_raw L art seed ?pal st' = Inr r"
    if "mget st' = mget st" for st'
  proof -
    have "gl_enc_config L art \<lparr>cf_traits = st', cf_fields = []\<rparr> = Inr cb"
      using json_faithfulD(3)[OF J, of art "\<lparr>cf_traits = st, cf_fields = []\<rparr>" "\<lparr>cf_traits = st', cf_fields = []\<rparr>"]
        pub base cb(1) that by (simp add: encoded_def)
    moreover have "set_get st' ''colourway'' = ?col" using that by (simp add: set_get_def)
    ultimately show ?thesis
      using pub b(1) r(1) pal1
      by (cases "?col = []") (simp_all add: complete_raw_def new_recipe_def published_def Let_def)
  qed
  have raw0: "complete_raw L art seed pal st = Inr r"
    using raw[OF refl] pal1 by (auto simp: complete_raw_def Let_def split: if_splits)
  have av: "list_all (choice_available ?sch) (r_traits r)"
  proof -
    have "distinct (map d_name ?sch)" using space_schema_wf[OF e] by (simp add: wf_schema_def)
    from valid_set_complete[OF st this r(7,6)] show ?thesis
      by (simp add: valid_set_def choice_available_def list_all_iff split_def)
  qed
  have "list_ex (\<lambda>c. co_id c = r_pal r) (en_colours e)" using p r(5) cols by (auto simp: list_ex_iff)
  then have "publish_validate L b = Inr r"
    using r e av raw[OF r(6)] by (simp add: publish_validate_def space_eq parse_uint_value_def Let_def)
  then show ?thesis using raw0 r(2) by (simp add: publish_complete_def)
qed

end
