(* ===== verification/StudioInv.thy ===== *)
theory StudioInv
  imports StudioQueue Offers
begin

text \<open>
  What every operation of \<open>internal/studio/studio.go\<close> keeps of a store: the bounds on workspaces,
  explorations, batches, samples and favourites, and recipes that are public. The first part states the
  invariant, the second what planning a round returns, the third what committing a round does.
\<close>

section \<open>The invariant of the store\<close>


definition favs :: "exploration \<Rightarrow> int" where
  "favs x = int (length (filter sa_favourite (v_samples (x_view x))))"

text \<open>\<open>T\<close> is the set of the tokens drawn so far.\<close>

definition expl_ok :: "golib \<Rightarrow> string set \<Rightarrow> string \<Rightarrow> exploration \<Rightarrow> bool" where
  "expl_ok L T i x \<longleftrightarrow> v_id (x_view x) = i \<and> i \<in> T \<and> 0 \<le> v_revision (x_view x) \<and> 0 \<le> x_round x
     \<and> length (v_batches (x_view x)) \<le> 8 \<and> (\<forall>b\<in>set (v_batches (x_view x)). length (ba_samples b) \<le> 4)
     \<and> length (x_actions x) \<le> 8 \<and> length (v_samples (x_view x)) \<le> 64
     \<and> distinct (map sa_id (v_samples (x_view x))) \<and> sa_id ` set (v_samples (x_view x)) \<subseteq> T
     \<and> (\<forall>a\<in>set (v_samples (x_view x)). public_recipe L (sa_recipe a) \<and> r_id (sa_recipe a) = v_artwork (x_view x))"

definition ws_ok :: "golib \<Rightarrow> string set \<Rightarrow> workspace \<Rightarrow> bool" where
  "ws_ok L T w \<longleftrightarrow> wfm (ws_explorations w) \<and> length (ws_explorations w) \<le> 4 \<and> length (ws_entries w) \<le> 8
     \<and> count_favourites w \<le> 24 \<and> (\<forall>i x. mget (ws_explorations w) i = Some x \<longrightarrow> expl_ok L T i x)"

definition drawn :: "(nat \<Rightarrow> string) \<Rightarrow> nat \<Rightarrow> string set" where
  "drawn tok n = tok ` {..<n}"

definition studio_inv :: "golib \<Rightarrow> (nat \<Rightarrow> string) \<Rightarrow> 'q store \<Rightarrow> bool" where
  "studio_inv L tok s \<longleftrightarrow> wfm (so_workspaces s) \<and> length (so_workspaces s) \<le> 1000
     \<and> (\<forall>k w. mget (so_workspaces s) k = Some w \<longrightarrow> ws_ok L (drawn tok (so_drawn s)) w)"

lemma drawn_mono: "m \<le> n \<Longrightarrow> drawn tok m \<subseteq> drawn tok n"
  by (auto simp: drawn_def)

lemma expl_ok_mono: "expl_ok L T i x \<Longrightarrow> T \<subseteq> T' \<Longrightarrow> expl_ok L T' i x"
  by (auto simp: expl_ok_def)

lemma ws_ok_mono: "ws_ok L T w \<Longrightarrow> T \<subseteq> T' \<Longrightarrow> ws_ok L T' w"
  by (auto simp: ws_ok_def intro: expl_ok_mono)

lemma count_favs: "count_favourites w = tot (\<lambda>i x. favs x) (ws_explorations w)"
  by (simp add: count_favourites_def favs_def)

lemma favs_nonneg [simp]: "0 \<le> favs x"
  by (simp add: favs_def)

lemma studio_inv_queue [simp]: "studio_inv L tok (s\<lparr>so_queue := q\<rparr>) = studio_inv L tok s"
  by (simp add: studio_inv_def)

lemma studio_inv_drawn: "studio_inv L tok s \<Longrightarrow> so_drawn s \<le> n \<Longrightarrow> studio_inv L tok (s\<lparr>so_drawn := n\<rparr>)"
  by (auto simp: studio_inv_def intro: ws_ok_mono[OF _ drawn_mono])

lemma studio_invD: "studio_inv L tok s \<Longrightarrow> mget (so_workspaces s) k = Some w \<Longrightarrow> ws_ok L (drawn tok (so_drawn s)) w"
  by (simp add: studio_inv_def)

lemma inv_put_ws:
  assumes inv: "studio_inv L tok s" and w: "mget (so_workspaces s) k = Some w0" and ok: "ws_ok L (drawn tok (so_drawn s)) w"
  shows "studio_inv L tok (s\<lparr>so_workspaces := mput k w (so_workspaces s)\<rparr>)"
  using inv ok length_put_old[OF w, of w] by (auto simp: studio_inv_def map_simps gm.wf_put)

lemma inv_put_workspace:
  assumes "studio_inv L tok s" "\<And>w. mget (so_workspaces s) k = Some w \<Longrightarrow> ws_ok L (drawn tok (so_drawn s)) (f w)"
  shows "studio_inv L tok (put_workspace k f s)"
  using assms by (auto simp: put_workspace_def intro: inv_put_ws split: option.splits)

text \<open>Pruning only drops workspaces.\<close>

definition drop_ws :: "string \<Rightarrow> 'q option \<Rightarrow> 'q store \<Rightarrow> 'q store" where
  "drop_ws key q s = s\<lparr>so_queue := q, so_workspaces := mdel key (so_workspaces s)\<rparr>"

lemma drop_ws_fields [simp]:
  "so_drawn (drop_ws key q s) = so_drawn s" "so_build (drop_ws key q s) = so_build s"
  "so_persistent (drop_ws key q s) = so_persistent s" "so_queue (drop_ws key q s) = q"
  "so_workspaces (drop_ws key q s) = mdel key (so_workspaces s)"
  by (simp_all add: drop_ws_def)

lemma inv_drop_ws: "studio_inv L tok s \<Longrightarrow> studio_inv L tok (drop_ws key q s)"
  using length_delete_le[of key "so_workspaces s"] by (auto simp: studio_inv_def map_simps gm.wf_del)

lemma prune_workspaces_Cons: "prune_workspaces E J ((key, w) # es) s = prune_workspaces E J es
     (if ws_expired (ev_now E) w then drop_ws key (map_option (cancel_workspace J key w) (so_queue s)) s else s)"
  by (simp add: drop_ws_def)

lemma prune_workspaces_fields:
  "so_drawn (prune_workspaces E J es s) = so_drawn s" "so_build (prune_workspaces E J es s) = so_build s"
  "so_persistent (prune_workspaces E J es s) = so_persistent s"
  by (induction es arbitrary: s) (auto split: if_splits)

lemma inv_prune_workspaces: "studio_inv L tok s \<Longrightarrow> studio_inv L tok (prune_workspaces E J es s)"
  by (induction es arbitrary: s) (auto simp: prune_workspaces_Cons inv_drop_ws simp del: prune_workspaces.simps(2))

lemma prune_workspaces_le: "mget (so_workspaces (prune_workspaces E J es s)) \<subseteq>\<^sub>m mget (so_workspaces s)"
proof (induction es arbitrary: s)
  case (Cons e es)
  obtain key w where e: "e = (key, w)" by force
  show ?case
    unfolding e prune_workspaces_Cons
    by (rule map_le_trans[OF Cons.IH]) (auto simp: map_le_def map_simps split: if_splits)
qed simp

lemma inv_prune_store: "studio_inv L tok s \<Longrightarrow> studio_inv L tok (studio_prune E J s)"
  by (simp add: studio_prune_def inv_prune_workspaces)

lemma prune_store_fields [simp]:
  "so_drawn (studio_prune E J s) = so_drawn s" "so_build (studio_prune E J s) = so_build s"
  "so_persistent (studio_prune E J s) = so_persistent s"
  by (simp_all add: studio_prune_def prune_workspaces_fields)

lemma ws_ok_touch [simp]: "ws_ok L T (w\<lparr>ws_touched := t\<rparr>) = ws_ok L T w"
  by (simp add: ws_ok_def count_favourites_def)

lemma workspace_spec:
  assumes "studio_workspace E J token s = (s1, r)"
  shows "so_drawn s1 = so_drawn s" "so_build s1 = so_build s" "so_persistent s1 = so_persistent s"
    and "so_queue s1 = so_queue (studio_prune E J s)"
    and "studio_inv L tok s \<Longrightarrow> studio_inv L tok s1"
    and "\<And>w. r = Inr w \<Longrightarrow> mget (so_workspaces s1) token = Some w \<and> ws_touched w = ev_now E
      \<and> (\<exists>w0. mget (so_workspaces (studio_prune E J s)) token = Some w0 \<and> w = w0\<lparr>ws_touched := ev_now E\<rparr>)"
    and "\<And>k. k \<noteq> token \<Longrightarrow> mget (so_workspaces s1) k = mget (so_workspaces (studio_prune E J s)) k"
proof -
  have "so_drawn s1 = so_drawn s \<and> so_build s1 = so_build s \<and> so_persistent s1 = so_persistent s
    \<and> so_queue s1 = so_queue (studio_prune E J s)
    \<and> (\<forall>w. r = Inr w \<longrightarrow> mget (so_workspaces s1) token = Some w \<and> ws_touched w = ev_now E
      \<and> (\<exists>w0. mget (so_workspaces (studio_prune E J s)) token = Some w0 \<and> w = w0\<lparr>ws_touched := ev_now E\<rparr>))
    \<and> (\<forall>k. k \<noteq> token \<longrightarrow> mget (so_workspaces s1) k = mget (so_workspaces (studio_prune E J s)) k)"
    using assms by (auto simp: studio_workspace_def Let_def map_simps split: option.splits)
  then show "so_drawn s1 = so_drawn s" "so_build s1 = so_build s" "so_persistent s1 = so_persistent s"
    "so_queue s1 = so_queue (studio_prune E J s)"
    "\<And>w. r = Inr w \<Longrightarrow> mget (so_workspaces s1) token = Some w \<and> ws_touched w = ev_now E
      \<and> (\<exists>w0. mget (so_workspaces (studio_prune E J s)) token = Some w0 \<and> w = w0\<lparr>ws_touched := ev_now E\<rparr>)"
    "\<And>k. k \<noteq> token \<Longrightarrow> mget (so_workspaces s1) k = mget (so_workspaces (studio_prune E J s)) k"
    by blast+
  assume inv: "studio_inv L tok s"
  note p = inv_prune_store[OF inv, of E J]
  show "studio_inv L tok s1"
  proof (cases "mget (so_workspaces (studio_prune E J s)) token")
    case None
    with assms p show ?thesis by (simp add: studio_workspace_def)
  next
    case (Some w)
    from inv_put_ws[OF p Some, of "w\<lparr>ws_touched := ev_now E\<rparr>"] studio_invD[OF p Some] Some assms
    show ?thesis by (auto simp: studio_workspace_def Let_def)
  qed
qed

lemma find_spec:
  assumes "studio_find E J token i s = (s1, r)"
  shows "\<exists>rw. studio_workspace E J token s = (s1, rw)
    \<and> (\<forall>x. r = Inr x \<longrightarrow> (\<exists>w. rw = Inr w \<and> mget (ws_explorations w) i = Some x))"
proof -
  obtain s2 rw where w: "studio_workspace E J token s = (s2, rw)" by force
  show ?thesis
  proof (cases rw)
    case (Inl e)
    with assms w have "s2 = s1" "r = Inl e" by (simp_all add: studio_find_def)
    with w show ?thesis by simp
  next
    case (Inr wk)
    with assms w have "s2 = s1" "r = (case mget (ws_explorations wk) i of None \<Rightarrow> Inl ErrExpired | Some x \<Rightarrow> Inr x)"
      by (simp_all add: studio_find_def)
    with w Inr show ?thesis by (auto split: option.splits)
  qed
qed

lemma find_Inr:
  assumes "studio_find E J token i s = (s1, Inr x)" "studio_inv L tok s"
  obtains w where "studio_inv L tok s1" "mget (so_workspaces s1) token = Some w" "mget (ws_explorations w) i = Some x"
    "expl_ok L (drawn tok (so_drawn s1)) i x" "so_drawn s1 = so_drawn s" "ws_ok L (drawn tok (so_drawn s1)) w"
proof -
  from find_spec[OF assms(1)] obtain w
    where w: "studio_workspace E J token s = (s1, Inr w)" "mget (ws_explorations w) i = Some x"
    by auto
  note sp = workspace_spec[OF w(1)]
  have inv: "studio_inv L tok s1" by (rule sp(5)[OF assms(2)])
  have m: "mget (so_workspaces s1) token = Some w" using sp(6) by blast
  have ok: "ws_ok L (drawn tok (so_drawn s1)) w" by (rule studio_invD[OF inv m])
  then have "expl_ok L (drawn tok (so_drawn s1)) i x" using w(2) by (simp add: ws_ok_def)
  with inv m w(2) sp(1) ok show thesis by (intro that)
qed

lemma find_inv: "studio_find E J token i s = (s1, r) \<Longrightarrow> studio_inv L tok s \<Longrightarrow> studio_inv L tok s1"
  by (drule find_spec) (auto intro: workspace_spec(5))

lemma inv_put_exploration:
  assumes inv: "studio_inv L tok s"
    and w: "\<And>w. mget (so_workspaces s) token = Some w \<Longrightarrow>
      (mget (ws_explorations w) i = None \<longrightarrow> length (ws_explorations w) < 4)
      \<and> count_favourites w - (case mget (ws_explorations w) i of None \<Rightarrow> 0 | Some x0 \<Rightarrow> favs x0) + favs x \<le> 24"
    and ok: "expl_ok L (drawn tok (so_drawn s)) i x"
  shows "studio_inv L tok (put_exploration token i x s)"
  unfolding put_exploration_def
proof (rule inv_put_workspace[OF inv])
  fix wk assume m: "mget (so_workspaces s) token = Some wk"
  note wo = studio_invD[OF inv m]
  have wf: "wfm (ws_explorations wk)" using wo by (simp add: ws_ok_def)
  have "int (length (mput i x (ws_explorations wk))) \<le> 4"
    using wo w[OF m] gm.size_put[OF wf, of i x] by (auto simp: ws_ok_def split: if_splits)
  then show "ws_ok L (drawn tok (so_drawn s)) (wk\<lparr>ws_explorations := mput i x (ws_explorations wk)\<rparr>)"
    using wo w[OF m] ok wf by (auto simp: ws_ok_def count_favs gm.tot_put[OF wf] gm.wf_put map_simps)
qed

section \<open>Planning a round\<close>

lemma wfm_single [simp, wf_intros]: "wfm [(k, v)]"
  by (simp add: wfm_def)

lemma wfm_foldl_put: "wfm p \<Longrightarrow> wfm (foldl (\<lambda>p (k, v). mput k v p) p kvs)"
  by (induction kvs arbitrary: p) (auto intro: wf_intros)

lemma pins_wfm: "pins art sty col = Inr (p, pal) \<Longrightarrow> wfm p"
proof -
  have "wfm p0 \<Longrightarrow> wfm (foldl (\<lambda>p s. foldl (\<lambda>p (k, v). mput k v p) p (ch_pins s)) p0 ss)" for p0 and ss :: "choice list"
    by (induction ss arbitrary: p0) (auto intro: wfm_foldl_put)
  then show "pins art sty col = Inr (p, pal) \<Longrightarrow> wfm p"
    by (auto simp: pins_def Let_def split: option.splits if_splits intro: wf_intros)
qed

text \<open>With distinct ids at most one sample is selected.\<close>

lemma filter_id:
  "distinct (map sa_id as) \<Longrightarrow> filter (\<lambda>a. sa_id a = sid) as = [] \<or> (\<exists>a\<in>set as. sa_id a = sid \<and> filter (\<lambda>a. sa_id a = sid) as = [a])"
proof (induction as)
  case (Cons a as)
  show ?case
  proof (cases "sa_id a = sid")
    case True
    then have "filter (\<lambda>a. sa_id a = sid) as = []" using Cons.prems by (auto simp: filter_empty_conv image_iff)
    with True show ?thesis by simp
  next
    case False
    with Cons show ?thesis by auto
  qed
qed simp

definition selected_samples :: "exploration \<Rightarrow> string list \<Rightarrow> sample list" where
  "selected_samples x sel = (if length sel = 1 then filter (\<lambda>a. sa_id a = hd sel) (v_samples (x_view x)) else [])"

lemma plan_parents_Inr:
  assumes "plan_parents different sel (v_samples (x_view x)) = Inr (ps, pals)" "length sel \<le> 1"
  shows "ps = (if different then [] else map parent_of (selected_samples x sel))
    \<and> (different \<or> sel = [] \<or> selected_samples x sel \<noteq> [])"
proof (cases sel)
  case Nil
  with assms show ?thesis by (auto simp: plan_parents_def selected_samples_def split: if_splits)
next
  case (Cons sid rest)
  with assms(2) have sel: "sel = [sid]" by simp
  from assms(1) sel show ?thesis
    by (auto simp: plan_parents_def selected_samples_def Let_def filter_empty_conv split: if_splits)
qed

lemma plan_direction_Inr:
  assumes "plan_direction (x_view x) sel = Inr ((pin, pal), sty, col)" "distinct (map sa_id (v_samples (x_view x)))"
  obtains (free) "selected_samples x sel = []" "pins (v_artwork (x_view x)) (v_style (x_view x)) (v_colour (x_view x)) = Inr (pin, pal)"
      "sty = v_style (x_view x)" "col = v_colour (x_view x)"
  | (chosen) a where "a \<in> set (v_samples (x_view x))" "sel = [sa_id a]" "selected_samples x sel = [a]"
      "pin = r_traits (sa_recipe a)" "pal = r_pal (sa_recipe a)" "sty = sa_style a" "col = sa_colour a"
proof -
  from assms(1) obtain pp where pp: "pins (v_artwork (x_view x)) (v_style (x_view x)) (v_colour (x_view x)) = Inr pp"
    and d: "foldl (\<lambda>d a. ((r_traits (sa_recipe a), r_pal (sa_recipe a)), sa_style a, sa_colour a))
       (pp, v_style (x_view x), v_colour (x_view x)) (selected_samples x sel) = ((pin, pal), sty, col)"
    by (auto simp: plan_direction_def res_simps selected_samples_def)
  consider "selected_samples x sel = []" | a where "a \<in> set (v_samples (x_view x))" "sel = [sa_id a]" "selected_samples x sel = [a]"
  proof (cases "length sel = 1")
    case True
    then obtain sid where "sel = [sid]" by (auto simp: length_Suc_conv)
    with filter_id[OF assms(2), of sid] that show ?thesis by (auto simp: selected_samples_def)
  qed (simp add: selected_samples_def)
  then show thesis
  proof cases
    case 1
    with pp d show thesis by (intro free) auto
  next
    case (2 a)
    with d show thesis by (intro chosen[of a]) auto
  qed
qed

lemma space_names: "distinct (map d_name (map (space_dim art e) (base_schema art)))"
  using base_schema_ok(2)[of art] by (simp add: wf_schema_def comp_def)

lemma plan_round_Inr:
  assumes E: "ev_lib E = L" and p: "plan_round E x sel different = Inr p"
  obtains ps pals pin pal e sch seed cs where
    "plan_parents different sel (v_samples (x_view x)) = Inr (ps, pals)"
    "plan_direction (x_view x) sel = Inr ((pin, pal), pl_style p, pl_colour p)"
    "get_entry (v_artwork (x_view x)) = Some e"
    "sch = map (space_dim (v_artwork (x_view x)) e) (base_schema (v_artwork (x_view x)))"
    "ev_entropy E = Inr seed"
    "public sch pin ps seed (x_round x) (map seed_of (v_samples (x_view x))) = Some (Inr cs)"
    "list_all2 (\<lambda>c r. publish_complete L (v_artwork (x_view x)) (c_seed c) (sample_palette e pal pals c) (c_traits c) = Inr r)
       cs (pl_recipes p)"
proof -
  from p obtain ps pals where 1: "plan_parents different sel (v_samples (x_view x)) = Inr (ps, pals)"
    by (auto simp: plan_round_def Let_def res_simps)
  with p obtain pin pal sty col where 2: "plan_direction (x_view x) sel = Inr ((pin, pal), sty, col)"
    by (auto simp: plan_round_def Let_def res_simps)
  with p 1 obtain sch where 3: "space L (v_artwork (x_view x)) = Inr sch"
    by (auto simp: plan_round_def Let_def res_simps E)
  with p 1 2 obtain seed where 4: "ev_entropy E = Inr seed"
    by (auto simp: plan_round_def Let_def res_simps E)
  with p 1 2 3 obtain cs where 5: "public sch pin ps seed (x_round x) (map seed_of (v_samples (x_view x))) = Some (Inr cs)"
    by (auto simp: plan_round_def Let_def res_simps E split: option.splits)
  from 3 obtain e where 6: "get_entry (v_artwork (x_view x)) = Some e"
    "sch = map (space_dim (v_artwork (x_view x)) e) (base_schema (v_artwork (x_view x)))"
    by (auto simp: space_eq split: option.splits)
  with p 1 2 3 4 5 obtain rs where 7: "map_res (\<lambda>c. publish_complete L (v_artwork (x_view x)) (c_seed c)
         (sample_palette e pal pals c) (c_traits c)) cs = Inr rs" "p = \<lparr>pl_recipes = rs, pl_style = sty, pl_colour = col\<rparr>"
    by (auto simp: plan_round_def Let_def res_simps E)
  from 7 have "pl_recipes p = rs" "pl_style p = sty" "pl_colour p = col" by simp_all
  with 1 2 4 5 6 7(1) show thesis by (intro that[of ps pals pin pal e sch seed cs]) (auto simp: map_res_Inr_iff)
qed

lemma expl_okD:
  assumes "expl_ok L T i x"
  shows "v_id (x_view x) = i" "0 \<le> v_revision (x_view x)" "0 \<le> x_round x" "length (v_batches (x_view x)) \<le> 8"
    "\<And>b. b \<in> set (v_batches (x_view x)) \<Longrightarrow> length (ba_samples b) \<le> 4" "length (x_actions x) \<le> 8"
    "length (v_samples (x_view x)) \<le> 64" "distinct (map sa_id (v_samples (x_view x)))"
    "sa_id ` set (v_samples (x_view x)) \<subseteq> T"
    "\<And>a. a \<in> set (v_samples (x_view x)) \<Longrightarrow> public_recipe L (sa_recipe a)"
    "\<And>a. a \<in> set (v_samples (x_view x)) \<Longrightarrow> r_id (sa_recipe a) = v_artwork (x_view x)" "i \<in> T"
  using assms by (simp_all add: expl_ok_def)

text \<open>The traits of a sample fit the public space of its exploration.\<close>

lemma sample_fits:
  assumes ok: "expl_ok L T i x" and a: "a \<in> set (v_samples (x_view x))" and e: "get_entry (v_artwork (x_view x)) = Some e"
  defines "sch \<equiv> map (space_dim (v_artwork (x_view x)) e) (base_schema (v_artwork (x_view x)))"
  shows "valid_set sch (r_traits (sa_recipe a))" "wfm (r_traits (sa_recipe a))"
    "length (r_traits (sa_recipe a)) = length sch" "complete_set sch (r_traits (sa_recipe a))"
    "r_pal (sa_recipe a) \<in> co_id ` set (en_colours e)"
proof -
  obtain e' where "get_entry (r_id (sa_recipe a)) = Some e'"
    "complete_set (map (space_dim (r_id (sa_recipe a)) e') (base_schema (r_id (sa_recipe a)))) (r_traits (sa_recipe a))"
    "valid_set (map (space_dim (r_id (sa_recipe a)) e') (base_schema (r_id (sa_recipe a)))) (r_traits (sa_recipe a))"
    "wfm (r_traits (sa_recipe a))" "length (r_traits (sa_recipe a)) = length (base_schema (r_id (sa_recipe a)))"
    "r_pal (sa_recipe a) \<in> co_id ` set (en_colours e')"
    using public_recipe_traits[OF expl_okD(10)[OF ok a]] by metis
  with e expl_okD(11)[OF ok a] show "valid_set sch (r_traits (sa_recipe a))" "wfm (r_traits (sa_recipe a))"
    "length (r_traits (sa_recipe a)) = length sch" "complete_set sch (r_traits (sa_recipe a))"
    "r_pal (sa_recipe a) \<in> co_id ` set (en_colours e)"
    by (simp_all add: sch_def)
qed

lemma selected_member: "a \<in> set (selected_samples x sel) \<Longrightarrow> a \<in> set (v_samples (x_view x))"
  by (auto simp: selected_samples_def split: if_splits)

lemma selected_short: "distinct (map sa_id (v_samples (x_view x))) \<Longrightarrow> length (selected_samples x sel) \<le> 1"
  using filter_id[of "v_samples (x_view x)" "hd sel"] by (auto simp: selected_samples_def)

text \<open>The candidates of a round, and the recipes completed from them.\<close>

definition round_ok :: "golib \<Rightarrow> exploration \<Rightarrow> tset \<Rightarrow> string \<Rightarrow> candidate \<Rightarrow> recipe \<Rightarrow> bool" where
  "round_ok L x pin pal c r \<longleftrightarrow> public_recipe L r \<and> r_id r = v_artwork (x_view x)
     \<and> r_seed r = format_uint (c_seed c) \<and> length (r_canonical r) \<le> max_recipe
     \<and> mget (r_traits r) = mget (c_traits c) \<and> (\<forall>k v. mget pin k = Some v \<longrightarrow> mget (r_traits r) k = Some v)
     \<and> (pal \<noteq> '''' \<and> set_get (r_traits r) ''colourway'' = '''' \<longrightarrow> r_pal r = pal)"

lemma plan_round_spec:
  assumes J: "json_faithful L" and E: "ev_lib E = L" and ok: "expl_ok L T i x" and sel: "length sel \<le> 1"
    and p: "plan_round E x sel different = Inr p"
  obtains pin pal cs where
    "plan_direction (x_view x) sel = Inr ((pin, pal), pl_style p, pl_colour p)"
    "length cs = 4" "distinct (map c_seed cs)" "c_seed ` set cs \<inter> seed_of ` set (v_samples (x_view x)) = {}"
    "list_all2 (round_ok L x pin pal) cs (pl_recipes p)"
    "different \<or> sel = [] \<or> selected_samples x sel \<noteq> []"
proof -
  obtain ps pals pin pal e sch seed cs where
    ps: "plan_parents different sel (v_samples (x_view x)) = Inr (ps, pals)"
    and dir: "plan_direction (x_view x) sel = Inr ((pin, pal), pl_style p, pl_colour p)"
    and e: "get_entry (v_artwork (x_view x)) = Some e"
    and sch: "sch = map (space_dim (v_artwork (x_view x)) e) (base_schema (v_artwork (x_view x)))"
    and pub: "public sch pin ps seed (x_round x) (map seed_of (v_samples (x_view x))) = Some (Inr cs)"
    and rs: "list_all2 (\<lambda>c r. publish_complete L (v_artwork (x_view x)) (c_seed c) (sample_palette e pal pals c) (c_traits c) = Inr r)
       cs (pl_recipes p)"
    by (rule plan_round_Inr[OF E p])
  note fit = sample_fits[OF ok _ e, folded sch]
  note dis = expl_okD(8)[OF ok]
  have ps': "ps = (if different then [] else map parent_of (selected_samples x sel))"
    and sd: "different \<or> sel = [] \<or> selected_samples x sel \<noteq> []"
    using plan_parents_Inr[OF ps sel] by blast+
  have pin: "wfm pin"
    using dir dis by (rule plan_direction_Inr) (auto dest: pins_wfm intro: fit)
  have "valid_set sch pin" using pub by (auto simp: public_def split: if_splits)
  moreover have "length ps \<le> 4" using ps' selected_short[OF dis, of sel] by simp
  moreover have "\<forall>q\<in>set ps. valid_set sch (c_traits q) \<and> length (c_traits q) = length sch"
    using ps' fit selected_member by (auto simp: parent_of_def)
  moreover have "length (map seed_of (v_samples (x_view x))) \<le> 124" using expl_okD(7)[OF ok] by simp
  moreover have real: "\<forall>d\<in>set sch. real_dim d" using space_schema_real sch by simp
  moreover have "schema_validate sch = None" using space_validates[OF e] sch by simp
  ultimately have cs: "length cs = 4" "distinct (map c_seed cs)" "c_seed ` set cs \<inter> seed_of ` set (v_samples (x_view x)) = {}"
    "\<forall>c\<in>set cs. complete_set sch (c_traits c) \<and> (\<forall>k v. mget pin k = Some v \<longrightarrow> mget (c_traits c) k = Some v)"
    using public_spec[OF real _ _ pin, of ps "map seed_of (v_samples (x_view x))" "x_round x" seed]
      pub expl_okD(3)[OF ok] by auto
  have "list_all2 (round_ok L x pin pal) cs (pl_recipes p)"
  proof (rule list.rel_mono_strong[OF rs])
    fix c r
    assume c: "c \<in> set cs" and r: "publish_complete L (v_artwork (x_view x)) (c_seed c) (sample_palette e pal pals c) (c_traits c) = Inr r"
    have cb: "complete_set (base_schema (v_artwork (x_view x))) (c_traits c)"
      using cs(4) c sch complete_space_base by blast
    note sp = publish_complete_spec[OF J r cb]
    have "pal \<noteq> '''' \<Longrightarrow> sample_palette e pal pals c = pal" by (simp add: sample_palette_def)
    moreover have "set_get (r_traits r) ''colourway'' = set_get (c_traits c) ''colourway''"
      using sp(1) by (simp add: set_get_def)
    ultimately show "round_ok L x pin pal c r"
      using sp cs(4) c by (auto simp: round_ok_def)
  qed
  with dir cs sd show thesis by (intro that)
qed

section \<open>Committing a round\<close>

lemma new_samples_fields:
  assumes "length jobs = length (pl_recipes p)"
  shows "map sa_id (new_samples E n p jobs) = map (\<lambda>k. ev_token E (n + k)) [0..<length (pl_recipes p)]"
    "map sa_recipe (new_samples E n p jobs) = pl_recipes p" "map sa_job (new_samples E n p jobs) = jobs"
    "length (new_samples E n p jobs) = length (pl_recipes p)"
    "\<And>a. a \<in> set (new_samples E n p jobs) \<Longrightarrow> \<not> sa_favourite a \<and> \<not> sa_cancelled a \<and> sa_download a = ''''
       \<and> sa_style a = pl_style p \<and> sa_colour a = pl_colour p"
  using assms by (auto simp: new_samples_def intro!: nth_equalityI)

definition bytes :: "exploration \<Rightarrow> int" where
  "bytes x = (\<Sum>a\<leftarrow>v_samples (x_view x). int (length (r_canonical (sa_recipe a))))"

lemma recipe_bytes_alt: "recipe_bytes s = tot (\<lambda>k w. tot (\<lambda>i x. bytes x) (ws_explorations w)) (so_workspaces s)"
  by (simp add: recipe_bytes_def bytes_def)

lemma last8_short: "length xs \<le> 8 \<Longrightarrow> length (last8 (xs @ [y])) \<le> 8"
  and last8_set: "set (last8 xs) \<subseteq> set xs"
  by (auto simp: last8_def dest: list.set_sel(2)) (metis empty_iff list.set(1) list.set_sel(2) tl_Nil)+

lemma sum_list_filter_le: "(\<And>a. a \<in> set as \<Longrightarrow> 0 \<le> f a) \<Longrightarrow> (\<Sum>a\<leftarrow>filter P as. f a) \<le> (\<Sum>a\<leftarrow>as. f a :: int)"
  by (induction as) (auto intro: add_increasing)

lemma card_kept:
  assumes "length bs \<le> 8" "\<And>b. b \<in> set bs \<Longrightarrow> length (ba_samples b) \<le> 4"
  shows "card (kept_ids bs) \<le> 40"
proof -
  have one: "card (insert (ba_parent b) (set (ba_samples b))) \<le> 5" if "b \<in> set bs" for b
    using assms(2)[OF that] card_length[of "ba_samples b"] card_insert_le_m1[of 5 "set (ba_samples b)"]
    by (simp add: card_insert_if)
  have "card (kept_ids bs) \<le> (\<Sum>b\<in>set bs. card (insert (ba_parent b) (set (ba_samples b))))"
    unfolding kept_ids_def by (rule card_UN_le) simp
  also have "\<dots> \<le> 5 * card (set bs)" using sum_mono[OF one, of "set bs" "\<lambda>b. b"] by simp
  also have "\<dots> \<le> 40" using assms(1) card_length[of bs] by simp
  finally show ?thesis .
qed

lemma kept_length:
  assumes "distinct (map sa_id as)" "int (length (filter sa_favourite as)) \<le> 24" "card K \<le> 40" "finite K"
  shows "length (filter (\<lambda>a. sa_favourite a \<or> sa_id a \<in> K) as) \<le> 64"
proof -
  have "length (filter (\<lambda>a. sa_favourite a \<or> sa_id a \<in> K) as)
      \<le> length (filter sa_favourite as) + length (filter (\<lambda>a. sa_id a \<in> K) as)"
    by (induction as) auto
  moreover have "length (filter (\<lambda>a. sa_id a \<in> K) as) \<le> card K"
  proof -
    let ?l = "map sa_id (filter (\<lambda>a. sa_id a \<in> K) as)"
    have "distinct ?l" using assms(1) by (simp add: distinct_map_filter)
    then have "length ?l = card (set ?l)" by (simp only: distinct_card)
    also have "\<dots> \<le> card K" by (rule card_mono[OF assms(4)]) auto
    finally show ?thesis by simp
  qed
  ultimately show ?thesis using assms(2,3) by simp
qed

lemma commit_view:
  "x_view (commit_round E n aid dg sel p jobs x) = (x_view x)\<lparr>
     v_samples := v_samples (x_view (commit_round E n aid dg sel p jobs x)),
     v_batches := last8 (v_batches (x_view x) @ [\<lparr>ba_id = ev_token E n,
       ba_parent = (if length sel = 1 then hd sel else ''''),
       ba_samples = map sa_id (new_samples E (Suc n) p jobs)\<rparr>]),
     v_style := pl_style p, v_colour := pl_colour p, v_revision := v_revision (x_view x) + 1\<rparr>"
  "v_samples (x_view (commit_round E n aid dg sel p jobs x)) = filter (\<lambda>a. sa_favourite a
     \<or> sa_id a \<in> kept_ids (v_batches (x_view (commit_round E n aid dg sel p jobs x))))
     (v_samples (x_view x) @ new_samples E (Suc n) p jobs)"
  "x_actions (commit_round E n aid dg sel p jobs x) =
     last8 (x_actions x @ [\<lparr>ac_id = aid, ac_digest = dg, ac_batch = ev_token E n\<rparr>])"
  "x_round (commit_round E n aid dg sel p jobs x) = x_round x + 1"
  by (simp_all add: commit_round_def Let_def)

lemma commit_round_ok:
  fixes aid dg :: string and sel :: "string list"
  assumes ok: "expl_ok L (drawn tok n) i x" and tok: "ev_token E = tok" "inj tok"
    and rs: "length (pl_recipes p) = 4" "\<And>r. r \<in> set (pl_recipes p) \<Longrightarrow> public_recipe L r \<and> r_id r = v_artwork (x_view x)
      \<and> length (r_canonical r) \<le> max_recipe"
    and jobs: "length jobs = length (pl_recipes p)" and fv: "favs x \<le> 24"
  defines "x' \<equiv> commit_round E n aid dg sel p jobs x"
  shows "expl_ok L (drawn tok (Suc n + 4)) i x'" "favs x' = favs x" "bytes x' \<le> bytes x + 4 * 16384"
    "v_artwork (x_view x') = v_artwork (x_view x)"
proof -
  let ?new = "new_samples E (Suc n) p jobs" and ?old = "v_samples (x_view x)"
  let ?K = "kept_ids (v_batches (x_view x'))"
  note nf = new_samples_fields[OF jobs, where E=E and n="Suc n"]
  note D = expl_okD[OF ok]
  note cv = commit_view[where E=E and n=n and aid=aid and dg=dg and sel=sel and p=p and jobs=jobs and x=x, folded x'_def]
  have samples: "v_samples (x_view x') = filter (\<lambda>a. sa_favourite a \<or> sa_id a \<in> ?K) (?old @ ?new)" by (rule cv(2))
  have batches: "v_batches (x_view x') = last8 (v_batches (x_view x) @ [\<lparr>ba_id = ev_token E n,
       ba_parent = (if length sel = 1 then hd sel else ''''), ba_samples = map sa_id ?new\<rparr>])"
    by (subst cv(1)) simp
  have newid: "sa_id ` set ?new = tok ` {Suc n..<Suc n + 4}"
  proof -
    have "set (map sa_id ?new) = (\<lambda>k. tok (Suc n + k)) ` {0..<4}" using nf(1) rs(1) tok(1) by simp
    also have "\<dots> = tok ` ((\<lambda>k. Suc n + k) ` {0..<4})" by (simp add: image_image)
    also have "(\<lambda>k. Suc n + k) ` {0..<4} = {Suc n..<Suc n + 4}"
      using image_add_atLeastLessThan[of "Suc n" 0 4] by (simp add: ac_simps)
    finally show ?thesis by simp
  qed
  have dnew: "distinct (map sa_id ?new)"
    unfolding nf(1) distinct_map using tok by (auto intro!: inj_onI dest: injD)
  have disj: "sa_id ` set ?old \<inter> sa_id ` set ?new = {}"
  proof -
    have "tok ` {..<n} \<inter> tok ` {Suc n..<Suc n + 4} = {}" using injD[OF tok(2)] by fastforce
    with D(9) newid show ?thesis unfolding drawn_def by blast
  qed
  have dis: "distinct (map sa_id (?old @ ?new))" using D(8) dnew disj by simp
  have bs: "length (v_batches (x_view x')) \<le> 8" "\<And>b. b \<in> set (v_batches (x_view x')) \<Longrightarrow> length (ba_samples b) \<le> 4"
  proof -
    show "length (v_batches (x_view x')) \<le> 8" unfolding batches by (rule last8_short[OF D(4)])
    fix b assume "b \<in> set (v_batches (x_view x'))"
    then have "b \<in> set (v_batches (x_view x)) \<or> ba_samples b = map sa_id ?new"
      using last8_set unfolding batches by fastforce
    then show "length (ba_samples b) \<le> 4" using D(5) nf(4) rs(1) by auto
  qed
  have nofav: "filter sa_favourite ?new = []" using nf(5) by (simp add: filter_empty_conv)
  have "filter sa_favourite (v_samples (x_view x')) = filter sa_favourite (?old @ ?new)"
    unfolding samples filter_filter by (rule filter_cong) auto
  then show f: "favs x' = favs x" using nofav by (simp add: favs_def)
  have "length (v_samples (x_view x')) \<le> 64"
    unfolding samples
    by (rule kept_length[OF dis _ card_kept[OF bs]]) (use fv nofav in \<open>simp_all add: favs_def kept_ids_def\<close>)
  moreover have "distinct (map sa_id (v_samples (x_view x')))"
    unfolding samples by (rule distinct_map_filter[OF dis])
  moreover have "sa_id ` set (v_samples (x_view x')) \<subseteq> drawn tok (Suc n + 4)"
  proof -
    have "tok ` {..<n} \<subseteq> drawn tok (Suc n + 4)" "tok ` {Suc n..<Suc n + 4} \<subseteq> drawn tok (Suc n + 4)"
      by (auto simp: drawn_def)
    with D(9) newid have "sa_id ` set (?old @ ?new) \<subseteq> drawn tok (Suc n + 4)"
      unfolding drawn_def[of tok n] set_append image_Un by blast
    then show ?thesis unfolding samples by (auto intro: subsetD)
  qed
  moreover have art: "v_artwork (x_view x') = v_artwork (x_view x)" by (subst cv(1)) simp
  moreover have recs: "public_recipe L (sa_recipe a) \<and> r_id (sa_recipe a) = v_artwork (x_view x)" if "a \<in> set (?old @ ?new)" for a
  proof (cases "a \<in> set ?old")
    case True
    then show ?thesis using D(10,11) by blast
  next
    case False
    with that have "sa_recipe a \<in> set (map sa_recipe ?new)" by simp
    then have "sa_recipe a \<in> set (pl_recipes p)" unfolding nf(2) .
    then show ?thesis using rs(2) by blast
  qed
  then have "\<forall>a\<in>set (v_samples (x_view x')). public_recipe L (sa_recipe a) \<and> r_id (sa_recipe a) = v_artwork (x_view x')"
    unfolding samples art by auto
  moreover have "v_id (x_view x') = i" "v_revision (x_view x') = v_revision (x_view x) + 1"
    using D(1) by (subst cv(1), simp)+
  moreover have "length (x_actions x') \<le> 8" unfolding cv(3) by (rule last8_short[OF D(6)])
  ultimately show "expl_ok L (drawn tok (Suc n + 4)) i x'"
    using bs D(2,3) cv(4) subsetD[OF drawn_mono D(12), of "Suc n + 4"] by (simp add: expl_ok_def)
  show "v_artwork (x_view x') = v_artwork (x_view x)" by (rule art)
  have "bytes x' \<le> (\<Sum>a\<leftarrow>?old @ ?new. int (length (r_canonical (sa_recipe a))))"
    unfolding bytes_def samples by (rule sum_list_filter_le) simp
  also have "\<dots> = bytes x + (\<Sum>r\<leftarrow>pl_recipes p. int (length (r_canonical r)))"
    by (simp add: bytes_def comp_def flip: nf(2))
  also have "(\<Sum>r\<leftarrow>pl_recipes p. int (length (r_canonical r))) \<le> (\<Sum>r\<leftarrow>pl_recipes p. 16384)"
    using rs(2) by (intro sum_list_mono) (auto simp: max_recipe_def)
  also have "\<dots> = 4 * 16384" using rs(1) by (simp add: sum_list_triv)
  finally show "bytes x' \<le> bytes x + 4 * 16384" by simp
qed

end
