(* ===== verification/StudioOps.thy ===== *)
theory StudioOps
  imports StudioInv
begin

text \<open>
  Every operation of \<open>internal/studio/studio.go\<close> but \<open>Restore\<close> keeps the invariant of the store, its byte
  budget and the well-formedness of the queue; the proofs about operations that admit or cancel jobs use
  only the contract of the queue.
\<close>

section \<open>The invariant with the byte budget and the queue\<close>

text \<open>\<open>max_recipes\<close> is the 32 MiB of \<open>maxRecipeBytes\<close>; \<open>good\<close> is the invariant of the queue.\<close>

definition store_ok :: "golib \<Rightarrow> (nat \<Rightarrow> string) \<Rightarrow> ('q \<Rightarrow> bool) \<Rightarrow> 'q store \<Rightarrow> bool" where
  "store_ok L tok good s \<longleftrightarrow> studio_inv L tok s \<and> recipe_bytes s \<le> 33554432
     \<and> (\<forall>q. so_queue s = Some q \<longrightarrow> good q)"

definition wbytes :: "workspace \<Rightarrow> int" where
  "wbytes w = tot (\<lambda>i x. bytes x) (ws_explorations w)"

lemma bytes_nonneg [simp]: "0 \<le> bytes x"
  by (auto simp: bytes_def intro!: sum_list_nonneg)

lemma wbytes_nonneg [simp]: "0 \<le> wbytes w"
  by (auto simp: wbytes_def intro!: tot_nonneg)

lemma recipe_bytes_ws: "recipe_bytes s = tot (\<lambda>k w. wbytes w) (so_workspaces s)"
  by (simp add: recipe_bytes_alt wbytes_def)

lemma recipe_bytes_cong [simp]:
  "recipe_bytes (s\<lparr>so_queue := q\<rparr>) = recipe_bytes s" "recipe_bytes (s\<lparr>so_drawn := n\<rparr>) = recipe_bytes s"
  by (simp_all add: recipe_bytes_def)

lemma store_okD:
  assumes "store_ok L tok good s"
  shows "studio_inv L tok s" "recipe_bytes s \<le> 33554432" "so_queue s = Some q \<Longrightarrow> good q"
  using assms by (simp_all add: store_ok_def)

lemma store_ok_queue: "store_ok L tok good s \<Longrightarrow> (\<And>q. q' = Some q \<Longrightarrow> good q) \<Longrightarrow> store_ok L tok good (s\<lparr>so_queue := q'\<rparr>)"
  by (simp add: store_ok_def)

lemma store_ok_drawn: "store_ok L tok good s \<Longrightarrow> so_drawn s \<le> n \<Longrightarrow> store_ok L tok good (s\<lparr>so_drawn := n\<rparr>)"
  by (simp add: store_ok_def studio_inv_drawn)

text \<open>A write to one workspace.\<close>

lemma bytes_put_ws:
  assumes "wfm (so_workspaces s)" "mget (so_workspaces s) k = Some w"
  shows "recipe_bytes (s\<lparr>so_workspaces := mput k w' (so_workspaces s)\<rparr>) = recipe_bytes s - wbytes w + wbytes w'"
  using assms by (simp add: recipe_bytes_ws gm.tot_put)

lemma store_ok_put_workspace:
  assumes ok: "store_ok L tok good s"
    and f: "\<And>w. mget (so_workspaces s) k = Some w \<Longrightarrow> ws_ok L (drawn tok (so_drawn s)) (f w)
      \<and> recipe_bytes s - wbytes w + wbytes (f w) \<le> 33554432"
  shows "store_ok L tok good (put_workspace k f s)"
proof -
  have "studio_inv L tok (put_workspace k f s)"
    using ok f by (intro inv_put_workspace) (auto simp: store_ok_def)
  moreover have "recipe_bytes (put_workspace k f s) \<le> 33554432"
    using ok f[of "the (mget (so_workspaces s) k)"]
    by (auto simp: put_workspace_def store_ok_def studio_inv_def bytes_put_ws split: option.splits)
  moreover have "so_queue (put_workspace k f s) = so_queue s"
    by (simp add: put_workspace_def split: option.splits)
  ultimately show ?thesis using ok by (simp add: store_ok_def)
qed

lemma wbytes_put:
  "wfm (ws_explorations w) \<Longrightarrow> wbytes (w\<lparr>ws_explorations := mput i x (ws_explorations w)\<rparr>)
     = wbytes w - (case mget (ws_explorations w) i of None \<Rightarrow> 0 | Some x0 \<Rightarrow> bytes x0) + bytes x"
  by (simp add: wbytes_def gm.tot_put)

text \<open>Replacing an exploration and adding one.\<close>

lemma ws_ok_put:
  assumes wo: "ws_ok L T w" and ok: "expl_ok L T i x"
    and new: "mget (ws_explorations w) i = None \<Longrightarrow> length (ws_explorations w) < 4"
    and fv: "count_favourites w - (case mget (ws_explorations w) i of None \<Rightarrow> 0 | Some x0 \<Rightarrow> favs x0) + favs x \<le> 24"
  shows "ws_ok L T (w\<lparr>ws_explorations := mput i x (ws_explorations w)\<rparr>)"
proof -
  have wf: "wfm (ws_explorations w)" using wo by (simp add: ws_ok_def)
  have "int (length (mput i x (ws_explorations w))) \<le> 4"
    using wo new gm.size_put[OF wf, of i x] by (auto simp: ws_ok_def split: if_splits)
  then show ?thesis
    using wo fv ok wf by (auto simp: ws_ok_def count_favs gm.tot_put[OF wf] gm.wf_put map_simps)
qed

lemma drawn_Suc: "drawn tok (Suc n) = insert (tok n) (drawn tok n)"
  by (auto simp: drawn_def lessThan_Suc)

lemma exploration_of_Some:
  "exploration_of s token i = Some x \<longleftrightarrow> (\<exists>w. mget (so_workspaces s) token = Some w \<and> mget (ws_explorations w) i = Some x)"
  by (auto simp: exploration_of_def split: option.splits)

lemma store_ok_replace:
  assumes ok: "store_ok L tok good s" and x0: "exploration_of s token i = Some x0"
    and x: "expl_ok L (drawn tok (so_drawn s)) i x"
    and fv: "\<And>w. mget (so_workspaces s) token = Some w \<Longrightarrow> count_favourites w - favs x0 + favs x \<le> 24"
    and bud: "recipe_bytes s - bytes x0 + bytes x \<le> 33554432"
  shows "store_ok L tok good (put_exploration token i x s)"
  unfolding put_exploration_def
proof (rule store_ok_put_workspace[OF ok], intro conjI)
  fix w assume w: "mget (so_workspaces s) token = Some w"
  then have x0w: "mget (ws_explorations w) i = Some x0" using x0 by (simp add: exploration_of_def)
  note wo = studio_invD[OF store_okD(1)[OF ok] w]
  then have wf: "wfm (ws_explorations w)" by (simp add: ws_ok_def)
  show "ws_ok L (drawn tok (so_drawn s)) (w\<lparr>ws_explorations := mput i x (ws_explorations w)\<rparr>)"
    using x0w fv[OF w] by (intro ws_ok_put[OF wo x]) simp_all
  show "recipe_bytes s - wbytes w + wbytes (w\<lparr>ws_explorations := mput i x (ws_explorations w)\<rparr>) \<le> 33554432"
    using bud x0w by (simp add: wbytes_put[OF wf])
qed

lemma count_favs_le: "store_ok L tok good s \<Longrightarrow> mget (so_workspaces s) token = Some w \<Longrightarrow> count_favourites w \<le> 24"
  using studio_invD store_okD(1) by (fastforce simp: ws_ok_def)

lemma store_ok_replace_same:
  assumes "store_ok L tok good s" "exploration_of s token i = Some x0" "expl_ok L (drawn tok (so_drawn s)) i x"
    "favs x \<le> favs x0" "bytes x \<le> bytes x0"
  shows "store_ok L tok good (put_exploration token i x s)"
  using assms(4,5) store_okD(2)[OF assms(1)] count_favs_le[OF assms(1)]
  by (intro store_ok_replace[OF assms(1-3)]) fastforce+

lemma new_exploration_simps [simp]:
  "favs (new_exploration i art sty col) = 0" "bytes (new_exploration i art sty col) = 0"
  "expl_ok L T i (new_exploration i art sty col) = (i \<in> T)"
  by (simp_all add: new_exploration_def favs_def bytes_def expl_ok_def)

lemma store_ok_add:
  assumes ok: "store_ok L tok good s" and x: "expl_ok L (drawn tok (so_drawn s)) i x" and z: "favs x = 0" "bytes x = 0"
    and new: "\<And>w. mget (so_workspaces s) token = Some w \<Longrightarrow> length (ws_explorations w) < 4"
  shows "store_ok L tok good (put_exploration token i x s)"
  unfolding put_exploration_def
proof (rule store_ok_put_workspace[OF ok], intro conjI)
  fix w assume w: "mget (so_workspaces s) token = Some w"
  note wo = studio_invD[OF store_okD(1)[OF ok] w]
  then have wf: "wfm (ws_explorations w)" by (simp add: ws_ok_def)
  have le: "0 \<le> (case mget (ws_explorations w) i of None \<Rightarrow> 0 | Some x0 \<Rightarrow> favs x0)"
    "0 \<le> (case mget (ws_explorations w) i of None \<Rightarrow> 0 | Some x0 \<Rightarrow> bytes x0)"
    by (simp_all split: option.splits)
  show "ws_ok L (drawn tok (so_drawn s)) (w\<lparr>ws_explorations := mput i x (ws_explorations w)\<rparr>)"
    using new[OF w] z count_favs_le[OF ok w] le(1) by (intro ws_ok_put[OF wo x]) simp_all
  show "recipe_bytes s - wbytes w + wbytes (w\<lparr>ws_explorations := mput i x (ws_explorations w)\<rparr>) \<le> 33554432"
    using z store_okD(2)[OF ok] le(2) by (simp add: wbytes_put[OF wf])
qed

section \<open>Every operation keeps the invariant\<close>

lemma store_ok_drop_ws:
  assumes "store_ok L tok good s" "\<And>q. q' = Some q \<Longrightarrow> good q"
  shows "store_ok L tok good (drop_ws key q' s)"
proof -
  have wf: "wfm (so_workspaces s)" using assms(1) by (simp add: store_ok_def studio_inv_def)
  have "0 \<le> (case mget (so_workspaces s) key of None \<Rightarrow> 0 | Some w \<Rightarrow> wbytes w)"
    by (simp split: option.splits)
  then have "recipe_bytes (drop_ws key q' s) \<le> recipe_bytes s"
    by (simp add: recipe_bytes_ws gm.tot_del[OF wf])
  then show ?thesis using assms inv_drop_ws by (auto simp: store_ok_def)
qed

lemma wbytes_touch [simp]: "wbytes (w\<lparr>ws_touched := t\<rparr>) = wbytes w" "wbytes (w\<lparr>ws_entries := es\<rparr>) = wbytes w"
  by (simp_all add: wbytes_def)

lemma put_workspace_fields [simp]:
  "so_drawn (put_workspace k f s) = so_drawn s" "so_queue (put_workspace k f s) = so_queue s"
  "so_build (put_workspace k f s) = so_build s" "so_persistent (put_workspace k f s) = so_persistent s"
  by (simp_all add: put_workspace_def split: option.splits)

lemma put_exploration_fields [simp]:
  "so_drawn (put_exploration token i x s) = so_drawn s" "so_queue (put_exploration token i x s) = so_queue s"
  "so_build (put_exploration token i x s) = so_build s" "so_persistent (put_exploration token i x s) = so_persistent s"
  by (simp_all add: put_exploration_def)

context jobs_queue begin

lemma prune_workspaces_ok: "store_ok L tok good s \<Longrightarrow> store_ok L tok good (prune_workspaces E J es s)"
proof (induction es arbitrary: s)
  case (Cons e es)
  obtain key w where e: "e = (key, w)" by force
  have "store_ok L tok good (drop_ws key (map_option (cancel_workspace J key w) (so_queue s)) s)"
    using Cons.prems by (intro store_ok_drop_ws) (auto simp: store_ok_def cancel_workspace_good)
  with Cons show ?case unfolding e prune_workspaces_Cons by simp
qed simp

lemma prune_ok: "store_ok L tok good s \<Longrightarrow> store_ok L tok good (studio_prune E J s)"
  by (simp add: studio_prune_def prune_workspaces_ok)

lemma workspace_ok:
  assumes ok: "store_ok L tok good s" and s1: "studio_workspace E J token s = (s1, r)"
  shows "store_ok L tok good s1"
proof (cases "mget (so_workspaces (studio_prune E J s)) token")
  case None
  with s1 prune_ok[OF ok, of E] show ?thesis by (auto simp: studio_workspace_def)
next
  case (Some w)
  with s1 have "s1 = put_workspace token (\<lambda>w. w\<lparr>ws_touched := ev_now E\<rparr>) (studio_prune E J s)"
    by (auto simp: studio_workspace_def put_workspace_def Let_def)
  moreover have "store_ok L tok good \<dots>"
    using studio_invD store_okD[OF prune_ok[OF ok]] by (intro store_ok_put_workspace prune_ok ok) fastforce
  ultimately show ?thesis by simp
qed

lemma find_ok: "store_ok L tok good s \<Longrightarrow> studio_find E J token i s = (s1, r) \<Longrightarrow> store_ok L tok good s1"
  by (drule find_spec) (auto intro: workspace_ok)

lemma find_exploration:
  assumes "studio_find E J token i s = (s1, Inr x)" "store_ok L tok good s"
  shows "store_ok L tok good s1" "exploration_of s1 token i = Some x" "expl_ok L (drawn tok (so_drawn s1)) i x"
proof -
  show "store_ok L tok good s1" by (rule find_ok[OF assms(2,1)])
  show "exploration_of s1 token i = Some x" "expl_ok L (drawn tok (so_drawn s1)) i x"
    using find_Inr[OF assms(1) store_okD(1)[OF assms(2)]] unfolding exploration_of_Some by metis+
qed

end

text \<open>The outcomes of \<open>generate\<close>.\<close>

lemma generate_cases:
  assumes g: "generate E J token xid revision aid sel different s = (s', r)"
  obtains (early) e where "s' = s" "r = Inl e"
  | (refused) e r1 where "studio_find E J token xid s = (s', r1)" "r = Inl e"
  | (replay) x a where "studio_find E J token xid s = (s', Inr x)" "find (\<lambda>a. ac_id a = aid) (x_actions x) = Some a"
      "ac_digest a = ev_digest E revision sel different" "r = Inr (ac_batch a)" "length sel \<le> 1"
  | (rejected) s1 x q q' p e where "studio_find E J token xid s = (s1, Inr x)" "so_queue s1 = Some q"
      "plan_round E x sel different = Inr p"
      "ja_admit J token (map (preview_request (so_build s1)) (pl_recipes p)) q = (q', Inl e)"
      "s' = s1\<lparr>so_queue := Some q'\<rparr>" "r = Inl e"
  | (generated) s1 x q q' p jobs where "studio_find E J token xid s = (s1, Inr x)" "so_queue s1 = Some q"
      "length sel \<le> 1" "find (\<lambda>a. ac_id a = aid) (x_actions x) = None" "v_revision (x_view x) = revision"
      "\<not> v_active (snapshot J token (Some q) x)"
      "plan_round E x sel different = Inr p"
      "recipe_bytes s1 + int (length (pl_recipes p)) * 16384 \<le> 33554432"
      "ja_admit J token (map (preview_request (so_build s1)) (pl_recipes p)) q = (q', Inr jobs)"
      "s' = put_exploration token xid
          (commit_round E (so_drawn s1) aid (ev_digest E revision sel different) sel p jobs x)
          (s1\<lparr>so_queue := Some q', so_drawn := Suc (so_drawn s1) + length (pl_recipes p)\<rparr>)"
      "r = Inr (ev_token E (so_drawn s1))"
proof (cases "\<not> distinct sel \<or> length aid \<noteq> 48 \<or> length sel > 1 \<or> \<not> list_all is_hex aid")
  case True
  with g show thesis by (intro early[of "projl r"]) (auto simp: generate_def split: if_splits)
next
  case ok: False
  obtain s1 rx where f: "studio_find E J token xid s = (s1, rx)" by force
  show thesis
  proof (cases rx)
    case (Inl e)
    with g ok f show thesis by (intro refused[of rx e]) (auto simp: generate_def)
  next
    case rx: (Inr x)
    show thesis
    proof (cases "find (\<lambda>a. ac_id a = aid) (x_actions x)")
      case (Some a)
      with g ok f rx show thesis
        by (cases "ac_digest a = ev_digest E revision sel different")
          (auto simp: generate_def Let_def intro: replay refused)
    next
      case None
      show thesis
      proof (cases "revision \<noteq> v_revision (x_view x) \<or> v_active (snapshot J token (so_queue s1) x) \<or> so_queue s1 = None")
        case True
        with g ok f rx None show thesis
          by (intro refused[of rx "projl r"]) (auto simp: generate_def Let_def split: if_splits)
      next
        case c: False
        then obtain q where q: "so_queue s1 = Some q" by auto
        show thesis
        proof (cases "plan_round E x sel different")
          case (Inl e)
          with g ok f rx None c q show thesis by (intro refused[of rx e]) (auto simp: generate_def Let_def)
        next
          case p: (Inr p)
          obtain q' ra where a: "ja_admit J token (map (preview_request (so_build s1)) (pl_recipes p)) q = (q', ra)" by force
          show thesis
          proof (cases "recipe_bytes s1 + int (length (pl_recipes p)) * 16384 > 33554432")
            case True
            with g ok f rx None c q p show thesis
              by (intro refused[of rx ErrBusy]) (auto simp: generate_def Let_def)
          next
            case b: False
            show thesis
            proof (cases ra)
              case (Inl e)
              with g ok f rx None c q p a b show thesis
                by (intro rejected[of s1 x q p q' e]) (auto simp: generate_def Let_def)
            next
              case (Inr jobs)
              with g ok f rx None c q p a b show thesis
                by (intro generated[of s1 x q p q' jobs]) (auto simp: generate_def Let_def)
            qed
          qed
        qed
      qed
    qed
  qed
qed

text \<open>The outside world of a run: a lawful library and the stream of tokens.\<close>

definition env_ok :: "golib \<Rightarrow> (nat \<Rightarrow> string) \<Rightarrow> studio_env \<Rightarrow> bool" where
  "env_ok L tok E \<longleftrightarrow> ev_lib E = L \<and> ev_token E = tok \<and> json_faithful L \<and> inj tok"

lemma env_okD: "env_ok L tok E \<Longrightarrow> ev_lib E = L" "env_ok L tok E \<Longrightarrow> ev_token E = tok"
  "env_ok L tok E \<Longrightarrow> json_faithful L" "env_ok L tok E \<Longrightarrow> inj tok"
  by (simp_all add: env_ok_def)

lemma favs_le_24:
  assumes "store_ok L tok good s" "exploration_of s token i = Some x"
  shows "favs x \<le> 24"
proof -
  from assms(2) obtain w where w: "mget (so_workspaces s) token = Some w" "mget (ws_explorations w) i = Some x"
    by (auto simp: exploration_of_Some)
  from studio_invD[OF store_okD(1)[OF assms(1)] w(1)] have wf: "wfm (ws_explorations w)" by (simp add: ws_ok_def)
  have "(i, x) \<in> set (ws_explorations w)" using w(2) gm.entry_iff[OF wf] by simp
  then have "favs x \<le> count_favourites w"
    unfolding count_favs by (rule tot_ge_member) simp
  also have "\<dots> \<le> 24" by (rule count_favs_le[OF assms(1) w(1)])
  finally show ?thesis .
qed

text \<open>What a successful planning contributes to the invariant.\<close>

lemma plan_round_recipes:
  assumes env: "env_ok L tok E" and ok: "expl_ok L T i x" and sel: "length sel \<le> 1"
    and p: "plan_round E x sel different = Inr p"
  shows "length (pl_recipes p) = 4" "\<And>r. r \<in> set (pl_recipes p) \<Longrightarrow> public_recipe L r \<and> r_id r = v_artwork (x_view x)
      \<and> length (r_canonical r) \<le> max_recipe"
proof -
  obtain pin pal cs where cs: "length cs = 4" "list_all2 (round_ok L x pin pal) cs (pl_recipes p)"
    by (rule plan_round_spec[OF env_okD(3)[OF env] env_okD(1)[OF env] ok sel p])
  show "length (pl_recipes p) = 4" using list_all2_lengthD[OF cs(2)] cs(1) by simp
  fix r assume "r \<in> set (pl_recipes p)"
  with cs(2) obtain c where "round_ok L x pin pal c r"
    by (auto simp: list_all2_conv_all_nth in_set_conv_nth)
  then show "public_recipe L r \<and> r_id r = v_artwork (x_view x) \<and> length (r_canonical r) \<le> max_recipe"
    by (simp add: round_ok_def)
qed

context jobs_queue begin

lemma generate_ok:
  assumes ok: "store_ok L tok good s" and env: "env_ok L tok E"
    and g: "generate E J token xid revision aid sel different s = (s', r)"
  shows "store_ok L tok good s'"
  using g
proof (cases rule: generate_cases)
  case (rejected s1 x q q' p e)
  note f = find_exploration[OF rejected(1) ok]
  have "good q'" using admit_good store_okD(3)[OF f(1) rejected(2)] rejected(4) by (metis fst_conv)
  then show ?thesis using store_ok_queue[OF f(1), of "Some q'"] rejected(5) by simp
next
  case (generated s1 x q q' p jobs)
  let ?x = "commit_round E (so_drawn s1) aid (ev_digest E revision sel different) sel p jobs x"
  let ?s = "s1\<lparr>so_queue := Some q', so_drawn := Suc (so_drawn s1) + length (pl_recipes p)\<rparr>"
  note f = find_exploration[OF generated(1) ok]
  note pr = plan_round_recipes[OF env f(3) generated(3) generated(7)]
  have len: "length jobs = length (pl_recipes p)" using admit_length[OF generated(9)] by simp
  note cm = commit_round_ok[OF f(3) env_okD(2,4)[OF env] pr len favs_le_24[OF f(1,2)],
      of aid "ev_digest E revision sel different" sel]
  have "good q'" using admit_good store_okD(3)[OF f(1) generated(2)] generated(9) by (metis fst_conv)
  then have s: "store_ok L tok good ?s"
    using store_ok_queue[OF f(1), of "Some q'"] by (simp add: store_ok_drawn)
  have x0: "exploration_of ?s token xid = Some x" using f(2) by (simp add: exploration_of_def)
  have "store_ok L tok good (put_exploration token xid ?x ?s)"
  proof (rule store_ok_replace[OF s x0])
    show "expl_ok L (drawn tok (so_drawn ?s)) xid ?x" using cm(1) pr(1) by simp
    show "count_favourites w - favs x + favs ?x \<le> 24" if "mget (so_workspaces ?s) token = Some w" for w
      using count_favs_le[OF s that] cm(2) by simp
    show "recipe_bytes ?s - bytes x + bytes ?x \<le> 33554432" using generated(8) cm(3) pr(1) by simp
  qed
  then show ?thesis unfolding generated(10) .
qed (use ok find_ok in blast)+

end

lemma expl_ok_view_upd [simp]:
  "expl_ok L T i (set_direction sty col x) = expl_ok L T i x"
  "favs (set_direction sty col x) = favs x" "bytes (set_direction sty col x) = bytes x"
  "v_samples (x_view (set_direction sty col x)) = v_samples (x_view x)"
  "favs (next_revision x) = favs x" "bytes (next_revision x) = bytes x"
  by (simp_all add: set_direction_def next_revision_def expl_ok_def favs_def bytes_def)

lemma expl_ok_next: "expl_ok L T i x \<Longrightarrow> expl_ok L T i (next_revision x)"
  by (simp add: next_revision_def expl_ok_def)

text \<open>A change of the flags of samples.\<close>

lemma expl_ok_with_samples:
  assumes "expl_ok L T i x" "map sa_id as = map sa_id (v_samples (x_view x))"
    "map sa_recipe as = map sa_recipe (v_samples (x_view x))"
  shows "expl_ok L T i (with_samples as x)" "bytes (with_samples as x) = bytes x"
proof -
  have s: "sa_id ` set as = sa_id ` set (v_samples (x_view x))" "sa_recipe ` set as = sa_recipe ` set (v_samples (x_view x))"
    using arg_cong[OF assms(2), of set] arg_cong[OF assms(3), of set] by simp_all
  have "length as = length (v_samples (x_view x))" using arg_cong[OF assms(2), of length] by simp
  moreover have "public_recipe L (sa_recipe a) \<and> r_id (sa_recipe a) = v_artwork (x_view x)" if "a \<in> set as" for a
  proof -
    from that s(2) obtain b where "b \<in> set (v_samples (x_view x))" "sa_recipe a = sa_recipe b" by blast
    with assms(1) show ?thesis by (simp add: expl_ok_def)
  qed
  ultimately show "expl_ok L T i (with_samples as x)"
    using assms(1,2) s by (simp add: expl_ok_def with_samples_def)
  have "map (\<lambda>a. int (length (r_canonical (sa_recipe a)))) as = map (\<lambda>a. int (length (r_canonical (sa_recipe a)))) (v_samples (x_view x))"
    using arg_cong[OF assms(3), of "map (\<lambda>r. int (length (r_canonical r)))"] by (simp add: comp_def)
  then show "bytes (with_samples as x) = bytes x" by (simp add: bytes_def with_samples_def)
qed

lemma update_sample_map: "(\<And>a. g (f a) = g a) \<Longrightarrow> map g (update_sample sid f as) = map g as"
  by (induction as) auto

lemma update_sample_favs:
  assumes "find (\<lambda>a. sa_id a = sid) as = Some a"
  shows "int (length (filter sa_favourite (update_sample sid f as)))
    = int (length (filter sa_favourite as)) - (if sa_favourite a then 1 else 0) + (if sa_favourite (f a) then 1 else 0)"
  using assms by (induction as) (auto split: if_splits)

lemma cancel_members_map:
  "cancel_members J token ms as q = (as', q') \<Longrightarrow> map sa_id as' = map sa_id as \<and> map sa_recipe as' = map sa_recipe as
     \<and> map sa_favourite as' = map sa_favourite as \<and> map sa_job as' = map sa_job as"
  by (induction as arbitrary: q as' q') (auto split: if_splits option.splits prod.splits)

lemma favs_with_samples: "map sa_favourite as = map sa_favourite (v_samples (x_view x)) \<Longrightarrow> favs (with_samples as x) = favs x"
proof -
  assume "map sa_favourite as = map sa_favourite (v_samples (x_view x))"
  then have "length (filter id (map sa_favourite as)) = length (filter id (map sa_favourite (v_samples (x_view x))))"
    by simp
  then show ?thesis by (simp add: favs_def with_samples_def filter_map)
qed

context jobs_queue begin

lemma favourite_ok:
  assumes ok: "store_ok L tok good s" and r: "studio_favourite E J token i sid revision on s = (s', r)"
  shows "store_ok L tok good s'"
proof -
  obtain s1 rx where f: "studio_find E J token i s = (s1, rx)" by force
  note s1 = find_ok[OF ok f]
  show ?thesis
  proof (cases "\<exists>x a. rx = Inr x \<and> v_revision (x_view x) = revision \<and> find (\<lambda>a. sa_id a = sid) (v_samples (x_view x)) = Some a
      \<and> s' \<noteq> s1")
    case False
    with r f have "s' = s1"
      by (cases rx) (auto simp: studio_favourite_def Let_def split: if_splits option.splits)
    with s1 show ?thesis by simp
  next
    case True
    then obtain x a where x: "rx = Inr x" "v_revision (x_view x) = revision"
      "find (\<lambda>a. sa_id a = sid) (v_samples (x_view x)) = Some a" "s' \<noteq> s1" by blast
    note fx = find_exploration[OF f[unfolded x(1)] ok]
    let ?x = "with_samples (update_sample sid (\<lambda>a. a\<lparr>sa_favourite := on\<rparr>) (v_samples (x_view x))) x"
    from r f x have s': "s' = put_exploration token i (next_revision ?x) s1"
      and lim: "\<And>w. mget (so_workspaces s1) token = Some w \<Longrightarrow> on \<Longrightarrow> \<not> sa_favourite a \<Longrightarrow> count_favourites w < 24"
      by (auto simp: studio_favourite_def Let_def split: if_splits option.splits)
    have ws: "expl_ok L (drawn tok (so_drawn s1)) i ?x" "bytes ?x = bytes x"
      by (rule expl_ok_with_samples[OF fx(3)]; simp add: update_sample_map)+
    have fv: "favs ?x = favs x - (if sa_favourite a then 1 else 0) + (if on then 1 else 0)"
      using update_sample_favs[OF x(3), of "\<lambda>a. a\<lparr>sa_favourite := on\<rparr>"] by (simp add: favs_def with_samples_def)
    show ?thesis
      unfolding s'
    proof (rule store_ok_replace[OF fx(1,2) expl_ok_next[OF ws(1)]])
      fix w assume w: "mget (so_workspaces s1) token = Some w"
      show "count_favourites w - favs x + favs (next_revision ?x) \<le> 24"
        using count_favs_le[OF s1 w] lim[OF w] fv by auto
    next
      show "recipe_bytes s1 - bytes x + bytes (next_revision ?x) \<le> 33554432"
        using store_okD(2)[OF s1] ws(2) by simp
    qed
  qed
qed

lemma choices_ok:
  assumes ok: "store_ok L tok good s" and r: "studio_choices E J token i revision sty col s = (s', r)"
  shows "store_ok L tok good s'"
proof -
  obtain s1 rx where f: "studio_find E J token i s = (s1, rx)" by force
  note s1 = find_ok[OF ok f]
  show ?thesis
  proof (cases "\<exists>x. rx = Inr x \<and> s' \<noteq> s1")
    case False
    with r f s1 show ?thesis by (cases rx) (auto simp: studio_choices_def split: if_splits sum.splits)
  next
    case True
    then obtain x where x: "rx = Inr x" "s' \<noteq> s1" by blast
    note fx = find_exploration[OF f[unfolded x(1)] ok]
    from r f x have s': "s' = put_exploration token i (next_revision (set_direction sty col x)) s1"
      by (auto simp: studio_choices_def next_revision_def set_direction_def split: if_splits sum.splits)
    show ?thesis
      unfolding s' using fx by (intro store_ok_replace_same[OF fx(1,2)] expl_ok_next) simp_all
  qed
qed

lemma cancel_ok:
  assumes ok: "store_ok L tok good s" and r: "studio_cancel E J token i revision bid s = (s', r)"
  shows "store_ok L tok good s'"
proof -
  obtain s1 rx where f: "studio_find E J token i s = (s1, rx)" by force
  note s1 = find_ok[OF ok f]
  show ?thesis
  proof (cases "\<exists>x. rx = Inr x \<and> s' \<noteq> s1")
    case False
    with r f s1 show ?thesis by (cases rx) (auto simp: studio_cancel_def split: if_splits)
  next
    case True
    then obtain x where x: "rx = Inr x" "s' \<noteq> s1" by blast
    note fx = find_exploration[OF f[unfolded x(1)] ok]
    obtain as q where m: "cancel_members J token (ba_samples (last (v_batches (x_view x)))) (v_samples (x_view x)) (so_queue s1) = (as, q)"
      by force
    from r f x m have s': "s' = put_exploration token i (next_revision (with_samples as x)) (s1\<lparr>so_queue := q\<rparr>)"
      by (auto simp: studio_cancel_def Let_def split: if_splits)
    have "good q2" if "q = Some q2" for q2
    proof (cases "so_queue s1")
      case None
      have "cancel_members J token ms as0 None = (as0, None)" for ms as0
        by (induction as0) simp_all
      with m None that show ?thesis by simp
    next
      case (Some q1)
      from cancel_members_good[OF m[unfolded Some] store_okD(3)[OF s1 Some]] that show ?thesis by auto
    qed
    then have s2: "store_ok L tok good (s1\<lparr>so_queue := q\<rparr>)" by (rule store_ok_queue[OF s1])
    note cm = cancel_members_map[OF m]
    have ws: "expl_ok L (drawn tok (so_drawn s1)) i (with_samples as x)" "bytes (with_samples as x) = bytes x"
      using cm by (auto intro: expl_ok_with_samples[OF fx(3)])
    show ?thesis
      unfolding s' using fx(2) ws favs_with_samples[of as x] cm
      by (intro store_ok_replace_same[OF s2, of token i x] expl_ok_next) (simp_all add: exploration_of_def)
  qed
qed

end

lemma store_ok_drop_exploration:
  assumes ok: "store_ok L tok good s"
  shows "store_ok L tok good (drop_exploration token i s)"
  unfolding drop_exploration_def
proof (rule store_ok_put_workspace[OF ok], intro conjI)
  fix w assume w: "mget (so_workspaces s) token = Some w"
  note wo = studio_invD[OF store_okD(1)[OF ok] w]
  then have wf: "wfm (ws_explorations w)" by (simp add: ws_ok_def)
  have le: "0 \<le> (case mget (ws_explorations w) i of None \<Rightarrow> 0 | Some x0 \<Rightarrow> favs x0)"
    "0 \<le> (case mget (ws_explorations w) i of None \<Rightarrow> 0 | Some x0 \<Rightarrow> bytes x0)"
    by (simp_all split: option.splits)
  show "ws_ok L (drawn tok (so_drawn s)) (w\<lparr>ws_explorations := mdel i (ws_explorations w)\<rparr>)"
    using wo le(1) length_delete_le[of i "ws_explorations w"]
    by (auto simp: ws_ok_def count_favs gm.tot_del[OF wf] gm.wf_del map_simps)
  show "recipe_bytes s - wbytes w + wbytes (w\<lparr>ws_explorations := mdel i (ws_explorations w)\<rparr>) \<le> 33554432"
    using le(2) store_okD(2)[OF ok] by (simp add: wbytes_def gm.tot_del[OF wf])
qed

lemma last8_length: "length xs \<le> 9 \<Longrightarrow> length (last8 xs) \<le> 8"
  by (auto simp: last8_def)

lemma store_ok_add_entry:
  assumes ok: "store_ok L tok good s"
  shows "store_ok L tok good (add_entry token a s)"
  unfolding add_entry_def
proof (rule store_ok_put_workspace[OF ok], intro conjI)
  fix w assume w: "mget (so_workspaces s) token = Some w"
  show "ws_ok L (drawn tok (so_drawn s)) (w\<lparr>ws_entries := last8 (ws_entries w @ [a])\<rparr>)"
    using studio_invD[OF store_okD(1)[OF ok] w] by (auto simp: ws_ok_def count_favs intro: last8_length)
qed (use store_okD(2)[OF ok] in simp)

lemma draw_token_simps [simp]:
  "draw_token E s = (ev_token E (so_drawn s), s\<lparr>so_drawn := Suc (so_drawn s)\<rparr>)"
  by (simp add: draw_token_def)

lemma new_direction: "set_direction sty col (new_exploration i art sty' col') = new_exploration i art sty col"
  by (simp add: set_direction_def new_exploration_def)

lemma store_ok_new_ws:
  assumes ok: "store_ok L tok good s" and room: "length (so_workspaces s) < 1000"
    and w: "ws_explorations w = []" "ws_entries w = []"
  shows "store_ok L tok good (s\<lparr>so_workspaces := mput t w (so_workspaces s)\<rparr>)"
proof -
  have wf: "wfm (so_workspaces s)" using ok by (simp add: store_ok_def studio_inv_def)
  have "ws_ok L T w" for T using w by (simp add: ws_ok_def count_favourites_def)
  moreover have "int (length (mput t w (so_workspaces s))) \<le> 1000"
    using room gm.size_put[OF wf, of t w] by (auto split: if_splits)
  ultimately have inv: "studio_inv L tok (s\<lparr>so_workspaces := mput t w (so_workspaces s)\<rparr>)"
    using store_okD(1)[OF ok] by (auto simp: studio_inv_def gm.wf_put map_simps)
  have "0 \<le> (case mget (so_workspaces s) t of None \<Rightarrow> 0 | Some w \<Rightarrow> wbytes w)"
    by (simp split: option.splits)
  moreover have "wbytes w = 0" using w by (simp add: wbytes_def)
  ultimately show ?thesis
    using inv ok by (simp add: store_ok_def recipe_bytes_ws gm.tot_put[OF wf])
qed

context jobs_queue begin

lemma create_ok:
  assumes ok: "store_ok L tok good s" and r: "studio_create E J s = (s', r)"
  shows "store_ok L tok good s'"
proof (cases "length (so_workspaces (studio_prune E J s)) < 1000")
  case True
  let ?s = "(studio_prune E J s)\<lparr>so_drawn := Suc (Suc (so_drawn s))\<rparr>"
  have s: "store_ok L tok good ?s" by (rule store_ok_drawn[OF prune_ok[OF ok]]) simp
  from r True have s': "s' = ?s\<lparr>so_workspaces := mput (ev_token E (so_drawn s))
      \<lparr>ws_token = ev_token E (so_drawn s), ws_csrf = ev_token E (Suc (so_drawn s)), ws_created = ev_now E,
       ws_touched = ev_now E, ws_explorations = [], ws_entries = []\<rparr> (so_workspaces ?s)\<rparr>"
    by (auto simp: studio_create_def Let_def)
  show ?thesis unfolding s' using True by (intro store_ok_new_ws[OF s]) simp_all
next
  case False
  with r prune_ok[OF ok, of E] show ?thesis by (auto simp: studio_create_def Let_def)
qed

lemma session_ok: "store_ok L tok good s \<Longrightarrow> studio_session E J token s = (s', r) \<Longrightarrow> store_ok L tok good s'"
  by (auto simp: studio_session_def split: prod.splits sum.splits dest: workspace_ok)

lemma get_ok: "store_ok L tok good s \<Longrightarrow> studio_get E J token i s = (s', r) \<Longrightarrow> store_ok L tok good s'"
  by (auto simp: studio_get_def split: prod.splits sum.splits dest: find_ok)

lemma favourites_ok: "store_ok L tok good s \<Longrightarrow> studio_favourites E J token s = (s', r) \<Longrightarrow> store_ok L tok good s'"
  by (auto simp: studio_favourites_def split: prod.splits sum.splits dest: workspace_ok)

lemma recovery_ok: "store_ok L tok good s \<Longrightarrow> studio_recovery E J token s = (s', r) \<Longrightarrow> store_ok L tok good s'"
  by (auto simp: studio_recovery_def split: prod.splits sum.splits dest: workspace_ok)

lemma clear_ok:
  assumes "store_ok L tok good s"
  shows "store_ok L tok good (studio_clear E J token s)"
  unfolding studio_clear_def
  using studio_invD[OF store_okD(1)[OF assms]] store_okD(2)[OF assms]
  by (intro prune_ok store_ok_put_workspace[OF assms]) simp_all

lemma start_ok:
  assumes ok: "store_ok L tok good s" and env: "env_ok L tok E"
    and r: "studio_start E J token art sty col s = (s', r)"
  shows "store_ok L tok good s'"
proof (cases "\<exists>s1 w pp. pins art sty col = Inr pp \<and> studio_workspace E J token s = (s1, Inr w) \<and> length (ws_explorations w) < 4")
  case True
  then obtain s1 w pp where w: "pins art sty col = Inr pp" "studio_workspace E J token s = (s1, Inr w)"
    "length (ws_explorations w) < 4" by blast
  note s1 = workspace_ok[OF ok w(2)]
  have m: "mget (so_workspaces s1) token = Some w" using workspace_spec(6)[OF w(2)] by blast
  have s2: "store_ok L tok good (s1\<lparr>so_drawn := Suc (so_drawn s1)\<rparr>)" by (rule store_ok_drawn[OF s1]) simp
  from r w have "s' = put_exploration token (ev_token E (so_drawn s1))
      (new_exploration (ev_token E (so_drawn s1)) art sty col) (s1\<lparr>so_drawn := Suc (so_drawn s1)\<rparr>)"
    by (auto simp: studio_start_def Let_def)
  then show ?thesis using m w(3) by (auto simp: drawn_Suc env_okD(2)[OF env] intro!: store_ok_add[OF s2])
next
  case False
  obtain s1 rw where "studio_workspace E J token s = (s1, rw)" by force
  with False r ok workspace_ok[OF ok this] show ?thesis
    by (auto simp: studio_start_def split: sum.splits)
qed

lemma retry_ok:
  assumes ok: "store_ok L tok good s" and env: "env_ok L tok E"
    and r: "studio_retry E J token i revision aid bid s = (s', r)"
  shows "store_ok L tok good s'"
proof -
  obtain s1 rx where f: "studio_find E J token i s = (s1, rx)" by force
  note s1 = find_ok[OF ok f]
  show ?thesis
  proof (cases "s' = s1")
    case False
    with r f obtain sel where "generate E J token i revision aid sel False s1 = (s', r)"
      by (auto simp: studio_retry_def Let_def split: sum.splits option.splits if_splits)
    then show ?thesis by (rule generate_ok[OF s1 env])
  qed (use s1 in simp)
qed

lemma undo_ok:
  assumes ok: "store_ok L tok good s"
  shows "store_ok L tok good (enter_undo token i created x s)"
proof (cases "exploration_of s token i")
  case (Some x')
  then obtain w where w: "mget (so_workspaces s) token = Some w" "mget (ws_explorations w) i = Some x'"
    by (auto simp: exploration_of_Some)
  have "expl_ok L (drawn tok (so_drawn s)) i x'"
    using studio_invD[OF store_okD(1)[OF ok] w(1)] w(2) by (simp add: ws_ok_def)
  then show ?thesis
    using Some store_ok_drop_exploration[OF ok] store_ok_replace_same[OF ok Some] by (simp add: enter_undo_def)
qed (simp add: enter_undo_def ok)

end

text \<open>The exploration that \<open>Enter\<close> works on: an open one of the art form or a fresh one.\<close>

definition enter_target :: "studio_env \<Rightarrow> workspace \<Rightarrow> string \<Rightarrow> 'q store \<Rightarrow> exploration \<times> 'q store" where
  "enter_target E w art s = (case find (\<lambda>(i, x). v_artwork (x_view x) = art) (ws_explorations w) of
     Some (k, x) \<Rightarrow> (x, s)
   | None \<Rightarrow> (new_exploration (ev_token E (so_drawn s)) art '''' '''', s\<lparr>so_drawn := Suc (so_drawn s)\<rparr>))"

lemma enter_cases:
  assumes "studio_enter E J token art sty col aid s = (s', r)"
  obtains (early) e where "pins art sty col = Inl e" "s' = s" "r = Inl e"
  | (expired) e where "studio_workspace E J token s = (s', Inl e)" "r = Inl e"
  | (known) w a where "studio_workspace E J token s = (s', Inr w)" "find (\<lambda>a. ea_id a = aid) (ws_entries w) = Some a"
      "r = (if ea_artwork a \<noteq> art \<or> ea_style a \<noteq> sty \<or> ea_colour a \<noteq> col then Inl ErrConflict else Inr (ea_exploration a))"
  | (full) w where "studio_workspace E J token s = (s', Inr w)" "r = Inl ErrBusy"
  | (generated) s1 w x s2 s4 r4 pp where "pins art sty col = Inr pp" "studio_workspace E J token s = (s1, Inr w)"
      "find (\<lambda>a. ea_id a = aid) (ws_entries w) = None"
      "find (\<lambda>(i, x). v_artwork (x_view x) = art) (ws_explorations w) = None \<Longrightarrow> length (ws_explorations w) < 4"
      "enter_target E w art s1 = (x, s2)"
      "generate E J token (v_id (x_view x)) (v_revision (x_view x)) aid [] False
         (put_exploration token (v_id (x_view x)) (set_direction sty col x) s2) = (s4, r4)"
      "(s', r) = (case r4 of
          Inl e \<Rightarrow> (enter_undo token (v_id (x_view x))
            (find (\<lambda>(i, x). v_artwork (x_view x) = art) (ws_explorations w) = None) x s4, Inl e)
        | Inr b \<Rightarrow> (add_entry token \<lparr>ea_id = aid, ea_artwork = art, ea_style = sty, ea_colour = col,
            ea_exploration = v_id (x_view x)\<rparr> s4, Inr (v_id (x_view x))))"
proof (cases "pins art sty col")
  case (Inl e)
  with assms show thesis by (intro early) (auto simp: studio_enter_def)
next
  case p: (Inr pp)
  obtain s1 rw where w: "studio_workspace E J token s = (s1, rw)" by force
  show thesis
  proof (cases rw)
    case (Inl e)
    with assms p w show thesis by (intro expired) (auto simp: studio_enter_def)
  next
    case rw: (Inr w)
    show thesis
    proof (cases "find (\<lambda>a. ea_id a = aid) (ws_entries w)")
      case (Some a)
      with assms p w rw show thesis by (intro known) (auto simp: studio_enter_def)
    next
      case None
      let ?found = "find (\<lambda>(i, x). v_artwork (x_view x) = art) (ws_explorations w)"
      show thesis
      proof (cases "?found = None \<and> length (ws_explorations w) \<ge> 4")
        case True
        with assms p w rw None show thesis by (intro full) (auto simp: studio_enter_def)
      next
        case False
        obtain x s2 where t: "enter_target E w art s1 = (x, s2)" by force
        obtain s4 r4 where g: "generate E J token (v_id (x_view x)) (v_revision (x_view x)) aid [] False
          (put_exploration token (v_id (x_view x)) (set_direction sty col x) s2) = (s4, r4)" by force
        have "(s', r) = (case r4 of
          Inl e \<Rightarrow> (enter_undo token (v_id (x_view x)) (?found = None) x s4, Inl e)
        | Inr b \<Rightarrow> (add_entry token \<lparr>ea_id = aid, ea_artwork = art, ea_style = sty, ea_colour = col,
            ea_exploration = v_id (x_view x)\<rparr> s4, Inr (v_id (x_view x))))"
          using assms p w rw None False t g
          by (cases r4) (auto simp: studio_enter_def enter_target_def Let_def split: option.splits)
        with p w rw None False t g show thesis by (intro generated[of pp s1 w x s2 s4 r4]) auto
      qed
    qed
  qed
qed

lemma find_Some_in: "find P xs = Some x \<Longrightarrow> x \<in> set xs \<and> P x"
  by (auto simp: find_Some_iff in_set_conv_nth)

context jobs_queue begin

lemma enter_target_ok:
  assumes ok: "store_ok L tok good s" and env: "env_ok L tok E" and w: "mget (so_workspaces s) token = Some w"
    and t: "enter_target E w art s = (x, s2)"
    and room: "find (\<lambda>(i, x). v_artwork (x_view x) = art) (ws_explorations w) = None \<Longrightarrow> length (ws_explorations w) < 4"
  shows "store_ok L tok good (put_exploration token (v_id (x_view x)) (set_direction sty col x) s2)"
proof (cases "find (\<lambda>(i, x). v_artwork (x_view x) = art) (ws_explorations w)")
  case None
  with t have x: "x = new_exploration (ev_token E (so_drawn s)) art '''' ''''" "s2 = s\<lparr>so_drawn := Suc (so_drawn s)\<rparr>"
    by (auto simp: enter_target_def)
  have s2: "store_ok L tok good s2" unfolding x by (rule store_ok_drawn[OF ok]) simp
  have "set_direction sty col x = new_exploration (v_id (x_view x)) art sty col"
    unfolding x new_direction by (simp add: new_exploration_def)
  moreover have "v_id (x_view x) \<in> drawn tok (so_drawn s2)"
    unfolding x using env_okD(2)[OF env] by (simp add: drawn_Suc new_exploration_def)
  moreover have "i \<in> drawn tok (so_drawn s2) \<Longrightarrow> store_ok L tok good (put_exploration token i (new_exploration i art sty col) s2)" for i
    using s2 w room[OF None] by (intro store_ok_add) (auto simp: x)
  ultimately show ?thesis by simp
next
  case (Some kx)
  obtain k where k: "kx = (k, x)" using t Some by (auto simp: enter_target_def split: prod.splits)
  note wo = studio_invD[OF store_okD(1)[OF ok] w]
  then have wf: "wfm (ws_explorations w)" by (simp add: ws_ok_def)
  have x0: "mget (ws_explorations w) k = Some x"
    using find_Some_in[OF Some] gm.entry_iff[OF wf] k by simp
  then have e: "expl_ok L (drawn tok (so_drawn s)) k x" using wo by (simp add: ws_ok_def)
  have "store_ok L tok good (put_exploration token k (set_direction sty col x) s)"
    using w x0 e by (intro store_ok_replace_same[OF ok]) (auto simp: exploration_of_Some)
  moreover have "s2 = s" using t Some by (auto simp: enter_target_def split: prod.splits)
  ultimately show ?thesis using expl_okD(1)[OF e] by simp
qed

lemma enter_ok:
  assumes ok: "store_ok L tok good s" and env: "env_ok L tok E"
    and r: "studio_enter E J token art sty col aid s = (s', r)"
  shows "store_ok L tok good s'"
  using r
proof (cases rule: enter_cases)
  case (generated s1 w x s2 s4 r4 pp)
  have m: "mget (so_workspaces s1) token = Some w" using workspace_spec(6)[OF generated(2)] by blast
  have "store_ok L tok good s4"
    by (rule generate_ok[OF enter_target_ok[OF workspace_ok[OF ok generated(2)] env m generated(5,4)] env generated(6)])
  then show ?thesis using generated(7) undo_ok store_ok_add_entry by (cases r4) auto
qed (use ok workspace_ok in blast)+

lemma download_ok:
  assumes ok: "store_ok L tok good s" and r: "studio_download E J token i sid s = (s', r)"
  shows "store_ok L tok good s'"
proof -
  obtain s1 rx where f: "studio_find E J token i s = (s1, rx)" by force
  note s1 = find_ok[OF ok f]
  show ?thesis
  proof (cases "s' = s1")
    case False
    with r f obtain x a q where x: "rx = Inr x" "find (\<lambda>a. sa_id a = sid) (v_samples (x_view x)) = Some a" "so_queue s1 = Some q"
      by (auto simp: studio_download_def split: sum.splits option.splits)
    note fx = find_exploration[OF f[unfolded x(1)] ok]
    let ?qs = "[\<lparr>q_version = 1, q_build = so_build s1, q_recipe = r_canonical (sa_recipe a), q_tier = ''download''\<rparr>]"
    obtain q' ra where a: "ja_admit J token ?qs q = (q', ra)" by force
    have "good q'" using admit_good[OF store_okD(3)[OF s1 x(3)], of token ?qs] a by simp
    then have s2: "store_ok L tok good (s1\<lparr>so_queue := Some q'\<rparr>)" using store_ok_queue[OF s1, of "Some q'"] by simp
    have ws: "expl_ok L T i (with_samples (update_sample sid (\<lambda>a. a\<lparr>sa_download := d\<rparr>) (v_samples (x_view x))) x)
      \<and> bytes (with_samples (update_sample sid (\<lambda>a. a\<lparr>sa_download := d\<rparr>) (v_samples (x_view x))) x) = bytes x
      \<and> favs (with_samples (update_sample sid (\<lambda>a. a\<lparr>sa_download := d\<rparr>) (v_samples (x_view x))) x) = favs x"
      if "expl_ok L T i x" for d T
      using expl_ok_with_samples[OF that] favs_with_samples by (simp add: update_sample_map)
    show ?thesis
      using r f x False a s2 fx(2) ws[OF fx(3)]
      by (auto simp: studio_download_def exploration_of_def split: sum.splits if_splits
          intro!: store_ok_replace_same[OF s2, of token i x])
  qed (use s1 in simp)
qed

end

end
