(* ===== verification/StudioRestore.thy ===== *)
theory StudioRestore
  imports StudioOps
begin

text \<open>
  \<open>Recovery\<close> and \<open>Restore\<close> of \<open>internal/studio/studio.go\<close>: the loop invariant of a restore and the
  favourites that it leaves.
\<close>

section \<open>Restoring favourites\<close>

text \<open>How many favourites of a workspace have these canonical bytes.\<close>

definition fav_count :: "string \<Rightarrow> workspace \<Rightarrow> int" where
  "fav_count c w = tot (\<lambda>i x. int (length (filter (\<lambda>a. sa_favourite a \<and> r_canonical (sa_recipe a) = c)
     (v_samples (x_view x))))) (ws_explorations w)"

definition fav_recipes :: "workspace \<Rightarrow> string list" where
  "fav_recipes w = concat (map (\<lambda>(i, x). map (\<lambda>a. r_canonical (sa_recipe a))
     (filter sa_favourite (v_samples (x_view x)))) (ws_explorations w))"

lemma count_fav_recipes: "int (count (mset (fav_recipes w)) c) = fav_count c w"
proof -
  have one: "int (count (mset (map (\<lambda>a. r_canonical (sa_recipe a)) (filter sa_favourite as))) c)
    = int (length (filter (\<lambda>a. sa_favourite a \<and> r_canonical (sa_recipe a) = c) as))" for as
    by (induction as) auto
  have "int (count (mset (concat (map (\<lambda>(i, x). map (\<lambda>a. r_canonical (sa_recipe a))
     (filter sa_favourite (v_samples (x_view x)))) es))) c) = tot (\<lambda>i x. int (length (filter
     (\<lambda>a. sa_favourite a \<and> r_canonical (sa_recipe a) = c) (v_samples (x_view x))))) es" for es :: "(string \<times> exploration) list"
    by (induction es) (auto simp: one simp flip: mset_map mset_filter)
  then show ?thesis by (simp add: fav_recipes_def fav_count_def)
qed

text \<open>The loop invariant, with \<open>k\<close> recipes to come.\<close>

definition restoring :: "golib \<Rightarrow> (nat \<Rightarrow> string) \<Rightarrow> ('q \<Rightarrow> bool) \<Rightarrow> string \<Rightarrow> (string, string) gomap \<Rightarrow> int
    \<Rightarrow> 'q store \<Rightarrow> workspace \<Rightarrow> bool" where
  "restoring L tok good token by_art k s w \<longleftrightarrow> store_ok L tok good s \<and> mget (so_workspaces s) token = Some w
     \<and> wfm by_art \<and> fst ` set by_art \<subseteq> {''pools'', ''foam'', ''iris''}
     \<and> length (ws_explorations w) \<le> length by_art
     \<and> (\<forall>i. mget (ws_explorations w) i \<noteq> None \<longrightarrow> i \<in> drawn tok (so_drawn s))
     \<and> (\<forall>i x. mget (ws_explorations w) i = Some x \<longrightarrow> favs x = int (length (v_samples (x_view x))))
     \<and> (\<forall>art i. mget by_art art = Some i \<longrightarrow> (\<exists>x. mget (ws_explorations w) i = Some x \<and> v_artwork (x_view x) = art))
     \<and> count_favourites w + k \<le> 24 \<and> recipe_bytes s + k * 16384 \<le> 33554432"

lemma restoringD:
  assumes "restoring L tok good token by_art k s w"
  shows "store_ok L tok good s" "mget (so_workspaces s) token = Some w" "wfm by_art"
    "fst ` set by_art \<subseteq> {''pools'', ''foam'', ''iris''}" "length (ws_explorations w) \<le> length by_art"
    "\<And>i x. mget (ws_explorations w) i = Some x \<Longrightarrow> i \<in> drawn tok (so_drawn s)"
    "\<And>i x. mget (ws_explorations w) i = Some x \<Longrightarrow> favs x = int (length (v_samples (x_view x)))"
    "\<And>art i. mget by_art art = Some i \<Longrightarrow> \<exists>x. mget (ws_explorations w) i = Some x \<and> v_artwork (x_view x) = art"
    "count_favourites w + k \<le> 24" "recipe_bytes s + k * 16384 \<le> 33554432"
    "wfm (ws_explorations w)" "ws_ok L (drawn tok (so_drawn s)) w" "wfm (so_workspaces s)"
proof -
  show 1: "store_ok L tok good s" "mget (so_workspaces s) token = Some w" using assms by (simp_all add: restoring_def)
  from studio_invD[OF store_okD(1)[OF 1(1)] 1(2)] show "ws_ok L (drawn tok (so_drawn s)) w" "wfm (ws_explorations w)"
    by (simp_all add: ws_ok_def)
  show "wfm (so_workspaces s)" using 1(1) by (simp add: store_ok_def studio_inv_def)
qed (use assms in \<open>auto simp: restoring_def\<close>)

lemma put_exploration_at:
  "mget (so_workspaces s) token = Some w \<Longrightarrow>
     mget (so_workspaces (put_exploration token i x s)) token = Some (w\<lparr>ws_explorations := mput i x (ws_explorations w)\<rparr>)"
  "k \<noteq> token \<Longrightarrow> mget (so_workspaces (put_exploration token i x s)) k = mget (so_workspaces s) k"
  by (auto simp: put_exploration_def put_workspace_def map_simps split: option.splits)

lemma put_exploration_drawn: "put_exploration token i x (s\<lparr>so_drawn := n\<rparr>) = (put_exploration token i x s)\<lparr>so_drawn := n\<rparr>"
  by (simp add: put_exploration_def put_workspace_def split: option.splits)

lemma put_exploration_bytes:
  assumes "wfm (so_workspaces s)" "mget (so_workspaces s) token = Some w" "wfm (ws_explorations w)"
  shows "recipe_bytes (put_exploration token i x s)
    = recipe_bytes s - (case mget (ws_explorations w) i of None \<Rightarrow> 0 | Some x0 \<Rightarrow> bytes x0) + bytes x"
  using assms by (simp add: put_exploration_def put_workspace_def bytes_put_ws wbytes_put)

lemma wfm_dom_card:
  assumes "wfm m" "fst ` set m \<subseteq> A" "finite A"
  shows "length m \<le> card A"
proof -
  have "length m = card (fst ` set m)" using assms(1) by (metis distinct_card length_map list.set_map wfm_def)
  then show ?thesis using card_mono[OF assms(3,2)] by simp
qed

lemma restoring_open:
  assumes R: "restoring L tok good token by_art k s w" and inj: "inj tok" and art: "art \<in> {''pools'', ''foam'', ''iris''}"
    and new: "mget by_art art = None"
  defines "i \<equiv> tok (so_drawn s)" and "w' \<equiv> w\<lparr>ws_explorations :=
    mput (tok (so_drawn s)) (new_exploration (tok (so_drawn s)) art '''' '''') (ws_explorations w)\<rparr>"
  shows "restoring L tok good token (mput art i by_art) k
    (put_exploration token i (new_exploration i art '''' '''') (s\<lparr>so_drawn := Suc (so_drawn s)\<rparr>)) w'"
    and "fav_count c w' = fav_count c w"
proof -
  note D = restoringD[OF R]
  have fresh: "mget (ws_explorations w) i = None"
  proof (rule ccontr)
    assume "mget (ws_explorations w) i \<noteq> None"
    with D(6) have "i \<in> drawn tok (so_drawn s)" by blast
    with inj show False by (auto simp: drawn_def i_def dest: injD)
  qed
  have art': "art \<notin> fst ` set by_art" using new gm.keys_eq[OF D(3)] by (auto simp: domIff)
  have "length by_art \<le> card ({''pools'', ''foam'', ''iris''} - {art})"
    using D(4) art' by (intro wfm_dom_card[OF D(3)]) auto
  also have "\<dots> \<le> 2" using art by (auto simp: card_insert_if)
  finally have small: "length by_art \<le> 2" .
  let ?s = "s\<lparr>so_drawn := Suc (so_drawn s)\<rparr>" and ?x = "new_exploration i art '''' ''''"
  have s: "store_ok L tok good ?s" by (rule store_ok_drawn[OF D(1)]) simp
  have "store_ok L tok good (put_exploration token i ?x ?s)"
    using D(2,5) small by (intro store_ok_add[OF s]) (auto simp: i_def drawn_Suc)
  moreover have "mget (so_workspaces (put_exploration token i ?x ?s)) token = Some w'"
    using put_exploration_at(1)[of ?s token w i ?x] D(2) by (simp add: w'_def i_def)
  moreover have "length (ws_explorations w') \<le> length (mput art i by_art)"
    using gm.size_put[OF D(11), of i ?x] gm.size_put[OF D(3), of art i] fresh new D(5) by (simp add: w'_def i_def)
  moreover have "fst ` set (mput art i by_art) \<subseteq> {''pools'', ''foam'', ''iris''}"
  proof -
    have "dom (mget (mput art i by_art)) = insert art (dom (mget by_art))"
      by (auto simp: map_simps split: if_splits)
    then have "fst ` set (mput art i by_art) = insert art (fst ` set by_art)"
      using gm.keys_eq[OF gm.wf_put[OF D(3)], of art i] gm.keys_eq[OF D(3)] by simp
    then show ?thesis using D(4) art by simp
  qed
  moreover have "count_favourites w' = count_favourites w"
    using fresh by (simp add: count_favs w'_def gm.tot_put[OF D(11)] i_def[symmetric])
  moreover have "recipe_bytes (put_exploration token i ?x ?s) = recipe_bytes s"
    using put_exploration_bytes[of ?s token w i ?x] D(2,11,13) fresh by simp
  moreover have "so_drawn s < Suc (so_drawn s) \<and> drawn tok (so_drawn s) \<subseteq> drawn tok (Suc (so_drawn s)) \<and> i \<in> drawn tok (Suc (so_drawn s))"
    by (auto simp: drawn_def i_def)
  moreover have "mget by_art a \<noteq> Some i" for a using D(8)[of a i] fresh by auto
  moreover have "v_samples (x_view ?x) = []" "v_artwork (x_view ?x) = art" "favs ?x = 0" by (simp_all add: new_exploration_def favs_def)
  moreover have "\<exists>x. mget (ws_explorations w') j = Some x \<and> v_artwork (x_view x) = a"
    if "mget (mput art i by_art) a = Some j" for a j
  proof (cases "a = art")
    case True
    with that have "j = i" by (simp add: map_simps)
    then show ?thesis using True by (simp add: w'_def map_simps i_def[symmetric] new_exploration_def)
  next
    case False
    with that have a: "mget by_art a = Some j" by (simp add: map_simps)
    with D(8)[OF a] fresh show ?thesis by (auto simp: w'_def map_simps i_def[symmetric])
  qed
  ultimately show "restoring L tok good token (mput art i by_art) k (put_exploration token i ?x ?s) w'"
    using D(6,7,9,10) gm.wf_put[OF D(3), of art i]
    by (simp add: restoring_def map_simps w'_def i_def[symmetric]) blast
  show "fav_count c w' = fav_count c w"
    using fresh by (simp add: fav_count_def w'_def gm.tot_put[OF D(11)] i_def[symmetric] new_exploration_def)
qed

lemma append_fields:
  assumes "a = restored_sample t r"
  shows "favs (with_samples (v_samples (x_view x) @ [a]) x) = favs x + 1"
    "bytes (with_samples (v_samples (x_view x) @ [a]) x) = bytes x + int (length (r_canonical r))"
    "v_artwork (x_view (with_samples (v_samples (x_view x) @ [a]) x)) = v_artwork (x_view x)"
    "v_samples (x_view (with_samples (v_samples (x_view x) @ [a]) x)) = v_samples (x_view x) @ [a]"
  by (simp_all add: assms favs_def bytes_def with_samples_def restored_sample_def)

lemma append_expl_ok:
  assumes ok: "expl_ok L (drawn tok n) i x" and inj: "inj tok" and r: "public_recipe L r" "r_id r = v_artwork (x_view x)"
    and room: "length (v_samples (x_view x)) < 64"
  shows "expl_ok L (drawn tok (Suc n)) i (with_samples (v_samples (x_view x) @ [restored_sample (tok n) r]) x)"
proof -
  have "tok n \<notin> drawn tok n" using inj by (auto simp: drawn_def dest: injD)
  then show ?thesis
    using ok r room by (auto simp: expl_ok_def with_samples_def restored_sample_def drawn_Suc)
qed

lemma restoring_append:
  assumes R: "restoring L tok good token by_art (k + 1) s w" and inj: "inj tok" and k: "0 \<le> k"
    and i: "mget by_art (r_id r) = Some i" and r: "public_recipe L r" "length (r_canonical r) \<le> max_recipe"
  obtains w' where
    "restoring L tok good token by_art k (append_sample token i (restored_sample (tok (so_drawn s)) r) (s\<lparr>so_drawn := Suc (so_drawn s)\<rparr>)) w'"
    "\<And>c. fav_count c w' = fav_count c w + (if r_canonical r = c then 1 else 0)"
proof -
  note D = restoringD[OF R]
  obtain x where x: "mget (ws_explorations w) i = Some x" "v_artwork (x_view x) = r_id r"
    using D(8)[OF i] by blast
  let ?s = "s\<lparr>so_drawn := Suc (so_drawn s)\<rparr>" and ?a = "restored_sample (tok (so_drawn s)) r"
  let ?x = "with_samples (v_samples (x_view x) @ [?a]) x"
  let ?w = "w\<lparr>ws_explorations := mput i ?x (ws_explorations w)\<rparr>"
  note af = append_fields[OF refl, where t="tok (so_drawn s)" and r=r and x=x]
  have s: "store_ok L tok good ?s" by (rule store_ok_drawn[OF D(1)]) simp
  have x0: "exploration_of ?s token i = Some x" using D(2) x(1) by (simp add: exploration_of_def)
  have app: "append_sample token i ?a ?s = put_exploration token i ?x ?s"
    using x0 by (simp add: append_sample_def)
  have e: "expl_ok L (drawn tok (so_drawn s)) i x" using D(12) x(1) by (simp add: ws_ok_def)
  have "favs x \<le> 24" by (rule favs_le_24[OF s x0])
  then have room: "length (v_samples (x_view x)) < 64" using D(7)[OF x(1)] by simp
  have ex: "expl_ok L (drawn tok (so_drawn ?s)) i ?x"
    using append_expl_ok[OF e inj r(1) _ room] x(2) by simp
  have small: "int (length (r_canonical r)) \<le> 16384" using r(2) by (simp add: max_recipe_def)
  have cf: "count_favourites ?w = count_favourites w + 1"
    using x(1) af(1) by (simp add: count_favs gm.tot_put[OF D(11)])
  have "store_ok L tok good (put_exploration token i ?x ?s)"
  proof (rule store_ok_replace[OF s x0 ex])
    fix wk assume "mget (so_workspaces ?s) token = Some wk"
    then have "wk = w" using D(2) by simp
    then show "count_favourites wk - favs x + favs ?x \<le> 24" using af(1) D(9) k by simp
  next
    show "recipe_bytes ?s - bytes x + bytes ?x \<le> 33554432" using af(2) small D(10) k by simp
  qed
  moreover have "mget (so_workspaces (put_exploration token i ?x ?s)) token = Some ?w"
    by (rule put_exploration_at(1)) (simp add: D(2))
  moreover have "recipe_bytes (put_exploration token i ?x ?s) + k * 16384 \<le> 33554432"
    using put_exploration_bytes[of ?s token w i ?x] D(2,10,11,13) x(1) af(2) small by simp
  moreover have "length (mput i ?x (ws_explorations w)) = length (ws_explorations w)"
    by (rule length_put_old[OF x(1)])
  moreover have "j \<in> drawn tok (Suc (so_drawn s))" if "mget (mput i ?x (ws_explorations w)) j = Some y" for j y
    using that x(1) D(6)[of j] drawn_mono[of "so_drawn s" "Suc (so_drawn s)" tok] by (auto simp: map_simps split: if_splits)
  moreover have "favs y = int (length (v_samples (x_view y)))" if "mget (mput i ?x (ws_explorations w)) j = Some y" for j y
    using that D(7)[OF x(1)] D(7)[of j y] af(1,4) by (auto simp: map_simps split: if_splits)
  moreover have "\<exists>y. mget (mput i ?x (ws_explorations w)) j = Some y \<and> v_artwork (x_view y) = art"
    if "mget by_art art = Some j" for art j
    using D(8)[OF that] x(1) af(3) by (auto simp: map_simps)
  ultimately have "restoring L tok good token by_art k (append_sample token i ?a ?s) ?w"
    using D(3,4,5,9) cf unfolding app by (auto simp: restoring_def)
  moreover have "fav_count c ?w = fav_count c w + (if r_canonical r = c then 1 else 0)" for c
    using x(1) af(4) by (simp add: fav_count_def gm.tot_put[OF D(11)] restored_sample_def)
  ultimately show thesis by (rule that)
qed

lemma restore_samples_spec:
  assumes tok: "ev_token E = tok" "inj tok"
  shows "restoring L tok good token by_art (int (length rs)) s w \<Longrightarrow>
    (\<And>r. r \<in> set rs \<Longrightarrow> public_recipe L r \<and> length (r_canonical r) \<le> max_recipe) \<Longrightarrow>
    \<exists>w' by_art'. restoring L tok good token by_art' 0 (fst (restore_samples E token rs by_art first s)) w'
      \<and> (\<forall>c. fav_count c w' = fav_count c w + int (count (mset (map r_canonical rs)) c))"
proof (induction rs arbitrary: by_art first s w)
  case (Cons r rs)
  have r: "public_recipe L r" "length (r_canonical r) \<le> max_recipe" using Cons.prems(2) by auto
  obtain e where "get_entry (r_id r) = Some e" by (rule public_recipe_traits[OF r(1)])
  from get_entry_cases(1)[OF this] have three: "r_id r \<in> {''pools'', ''foam'', ''iris''}" .
  have R: "restoring L tok good token by_art (int (length rs) + 1) s w" using Cons.prems(1) by (simp add: add.commute)
  show ?case
  proof (cases "mget by_art (r_id r)")
    case (Some i)
    obtain w1 where w1: "restoring L tok good token by_art (int (length rs))
        (append_sample token i (restored_sample (tok (so_drawn s)) r) (s\<lparr>so_drawn := Suc (so_drawn s)\<rparr>)) w1"
      "\<And>c. fav_count c w1 = fav_count c w + (if r_canonical r = c then 1 else 0)"
      by (rule restoring_append[OF R tok(2) _ Some r]) auto
    from Cons.IH[OF w1(1) Cons.prems(2), of first] w1(2) Some tok(1) show ?thesis by (fastforce simp: Let_def)
  next
    case None
    let ?i = "tok (so_drawn s)"
    let ?s1 = "put_exploration token ?i (new_exploration ?i (r_id r) '''' '''') (s\<lparr>so_drawn := Suc (so_drawn s)\<rparr>)"
    note open_ = restoring_open[OF R tok(2) three None]
    obtain w1 where w1: "restoring L tok good token (mput (r_id r) ?i by_art) (int (length rs))
        (append_sample token ?i (restored_sample (tok (so_drawn ?s1)) r) (?s1\<lparr>so_drawn := Suc (so_drawn ?s1)\<rparr>)) w1"
      "\<And>c. fav_count c w1 = fav_count c w + (if r_canonical r = c then 1 else 0)"
      by (rule restoring_append[OF open_(1) tok(2) _ _ r]) (auto simp: map_simps open_(2))
    have step: "fst (restore_samples E token (r # rs) by_art first s) = fst (restore_samples E token rs
        (mput (r_id r) ?i by_art) (if first = '''' then ?i else first)
        (append_sample token ?i (restored_sample (tok (so_drawn ?s1)) r) (?s1\<lparr>so_drawn := Suc (so_drawn ?s1)\<rparr>)))"
      using None tok(1) by (simp add: Let_def put_exploration_drawn)
    have "\<And>r'. r' \<in> set rs \<Longrightarrow> public_recipe L r' \<and> length (r_canonical r') \<le> max_recipe"
      using Cons.prems(2) by simp
    from Cons.IH[OF w1(1) this, of "if first = '''' then ?i else first"] w1(2)
    show ?thesis unfolding step by fastforce
  qed
qed auto

lemma restore_recipes_public: "restore_recipes L seen raws = Inr rs \<Longrightarrow> r \<in> set rs \<Longrightarrow> public_recipe L r"
  by (induction raws arbitrary: seen rs)
    (auto simp: res_simps Let_def public_recipe_def split: if_splits)

lemma restore_recipes_length: "restore_recipes L seen raws = Inr rs \<Longrightarrow> length rs \<le> length raws"
  by (induction raws arbitrary: seen rs) (fastforce simp: res_simps Let_def split: if_splits)+

context jobs_queue begin

lemma restore_spec:
  assumes ok: "store_ok L tok good s" and env: "env_ok L tok E"
    and r: "studio_restore E J token records s = (s', res)"
  shows "store_ok L tok good s'"
    and "res = Inr first \<Longrightarrow> \<exists>rs w. restore_recipes L [] records = Inr rs
      \<and> mget (so_workspaces s') token = Some w \<and> mset (fav_recipes w) = mset (map r_canonical rs)"
proof -
  note e = env_okD[OF env]
  have "store_ok L tok good s' \<and> (\<forall>first. res = Inr first \<longrightarrow> (\<exists>rs w. restore_recipes L [] records = Inr rs
      \<and> mget (so_workspaces s') token = Some w \<and> mset (fav_recipes w) = mset (map r_canonical rs)))"
  proof (cases "restore_recipes L [] records")
    case rs: (Inr rs)
    obtain s1 rw where w: "studio_workspace E J token s = (s1, rw)" by force
    note s1 = workspace_ok[OF ok w]
    show ?thesis
    proof (cases "length records \<le> 24 \<and> (\<exists>wk. rw = Inr wk \<and> ws_explorations wk = []
        \<and> recipe_bytes s1 + int (length rs) * 16384 \<le> 33554432)")
      case True
      then obtain wk where wk: "length records \<le> 24" "rw = Inr wk" "ws_explorations wk = []"
        "recipe_bytes s1 + int (length rs) * 16384 \<le> 33554432" by blast
      have m: "mget (so_workspaces s1) token = Some wk" using workspace_spec(6)[OF w] wk(2) by blast
      have "restoring L tok good token [] (int (length rs)) s1 wk"
        using s1 m wk restore_recipes_length[OF rs] by (simp add: restoring_def count_favs)
      moreover have "public_recipe L r \<and> length (r_canonical r) \<le> max_recipe" if "r \<in> set rs" for r
        using restore_recipes_public[OF rs that] validate_small[OF e(3)] by blast
      ultimately obtain w' by_art' where
        w': "restoring L tok good token by_art' 0 (fst (restore_samples E token rs [] '''' s1)) w'"
        "\<And>c. fav_count c w' = fav_count c wk + int (count (mset (map r_canonical rs)) c)"
        using restore_samples_spec[OF e(2,4)] by blast
      have "fav_count c wk = 0" for c using wk(3) by (simp add: fav_count_def)
      then have "mset (fav_recipes w') = mset (map r_canonical rs)"
        using w'(2) count_fav_recipes[of w'] by (intro multiset_eqI) (metis add_0 of_nat_eq_iff)
      moreover have "s' = fst (restore_samples E token rs [] '''' s1)"
        using r rs w wk e(1) by (auto simp: studio_restore_def split: prod.splits)
      ultimately show ?thesis using restoringD(1,2)[OF w'(1)] rs by auto
    next
      case False
      with r rs w ok s1 e(1) show ?thesis
        by (auto simp: studio_restore_def Let_def split: if_splits sum.splits prod.splits)
    qed
  next
    case (Inl er)
    with r ok e(1) show ?thesis by (auto simp: studio_restore_def split: if_splits)
  qed
  then show "store_ok L tok good s'" "res = Inr first \<Longrightarrow> \<exists>rs w. restore_recipes L [] records = Inr rs
      \<and> mget (so_workspaces s') token = Some w \<and> mset (fav_recipes w) = mset (map r_canonical rs)" by blast+
qed

end

end
