(* ===== verification/ManagerRun.thy ===== *)
theory ManagerRun
  imports ManagerInv
begin

text \<open>
  The render manager at run time: what a publication and the end of a run leave behind, the step
  relation of the running system, startup from a cache directory, and the properties of every
  reachable state.
\<close>

section \<open>Publication\<close>

lemma config_bounds: "mgr_inv L m \<Longrightarrow> 1 \<le> c_cache_count (m_cfg m) \<and> 1 \<le> c_queue (m_cfg m) \<and> MaxImage \<le> c_cache_bytes (m_cfg m)"
  by (simp add: mgr_inv_def config_ok_def)

text \<open>Pruning and eviction keep every live job and never touch what is leased.\<close>

definition settles :: "mgr \<Rightarrow> mgr \<Rightarrow> bool" where
  "settles m m' \<longleftrightarrow> m_cfg m' = m_cfg m \<and> m_queue m' = m_queue m \<and> m_run m' = m_run m \<and> m_next m' = m_next m
     \<and> m_leases m' = m_leases m \<and> m_enabled m' = m_enabled m \<and> m_stopped m' = m_stopped m
     \<and> (\<forall>i j. mget (m_jobs m) i = Some j \<and> active j \<longrightarrow> mget (m_jobs m') i = Some j)
     \<and> mget (m_jobs m') \<subseteq>\<^sub>m mget (m_jobs m)
     \<and> mget (m_artifacts m') \<subseteq>\<^sub>m mget (m_artifacts m)"

lemma settles_refl: "settles m m"
  by (simp add: settles_def)

lemma map_leD: "f \<subseteq>\<^sub>m g \<Longrightarrow> f k = Some v \<Longrightarrow> g k = Some v"
  by (metis domI map_le_def)

lemma settles_job: "settles m m' \<Longrightarrow> mget (m_jobs m) i = Some j \<Longrightarrow> active j \<Longrightarrow> mget (m_jobs m') i = Some j"
  and settles_prior: "settles m m' \<Longrightarrow> mget (m_jobs m') i = Some j \<Longrightarrow> mget (m_jobs m) i = Some j"
  and settles_artifact: "settles m m' \<Longrightarrow> mget (m_artifacts m') i = Some a \<Longrightarrow> mget (m_artifacts m) i = Some a"
  unfolding settles_def by (blast dest: map_leD)+

lemma settles_trans:
  assumes "settles m1 m2" "settles m2 m3"
  shows "settles m1 m3"
proof -
  have "mget (m_jobs m3) \<subseteq>\<^sub>m mget (m_jobs m1)" "mget (m_artifacts m3) \<subseteq>\<^sub>m mget (m_artifacts m1)"
    using assms by (auto simp: settles_def elim: map_le_trans)
  then show ?thesis
    using assms settles_job[OF assms(2) settles_job[OF assms(1)]] by (simp add: settles_def)
qed

lemma map_le_shrinks: "mget (mdel i m) \<subseteq>\<^sub>m mget m" "wfm m \<Longrightarrow> mget (filter P m) \<subseteq>\<^sub>m mget m"
  using mget_filter[of m "\<lambda>k v. P (k, v)"] by (auto simp: map_le_def map_simps dom_def split: option.splits if_splits)

lemma settles_evicts: "evicts m m' \<Longrightarrow> settles m m'"
proof (induction rule: evicts.induct)
  case (evicts_step m i d m')
  have "settles m (forget i d m)" by (simp add: settles_def map_le_shrinks)
  with evicts_step show ?case by (blast intro: settles_trans)
qed (rule settles_refl)

lemma settles_prune_jobs:
  assumes "wfm (m_jobs m)"
  shows "settles m (prune_jobs now m)"
proof -
  have "mget (m_jobs (prune_jobs now m)) \<subseteq>\<^sub>m mget (m_jobs m)"
    using map_le_shrinks(2)[OF assms] by (simp add: prune_jobs_def)
  then show ?thesis using mget_prune_jobs[OF assms] by (simp add: settles_def)
qed

lemma settles_prune:
  assumes "mgr_inv L m"
  shows "settles m (prune io now m)"
proof -
  obtain m1 where m1: "evicts m m1" "evicts (prune_jobs now m1) (prune io now m)"
    using prune_evicts by blast
  have "wfm (m_jobs m1)" using inv_evicts[OF m1(1) assms] by (simp add: mgr_inv_def inv_jobs_def)
  with m1 show ?thesis by (blast intro: settles_trans settles_evicts settles_prune_jobs)
qed

lemma inv_leave_temp:
  assumes inv: "mgr_inv L m" and fresh: "mget (m_disk m) (io_temp io) = None"
  shows "mgr_inv L (leave_temp io b m)"
proof -
  have D: "inv_disk L m" using inv by (simp add: mgr_inv_def)
  have "inv_disk L (m\<lparr>m_disk := mput (io_temp io) b (m_disk m)\<rparr>)" (is "inv_disk L ?m")
  proof -
    have w: "wfm (m_disk m)" and onfile: "\<And>i a. mget (m_artifacts m) i = Some a \<Longrightarrow>
      \<exists>b. mget (m_disk m) (png_name i) = Some b \<and> a_digest a = gl_sha256 L b \<and> a_size a = int (length b)"
      using D by (auto simp: inv_disk_def)
    have "mget (m_artifacts m) i = Some a \<Longrightarrow> png_name i \<noteq> io_temp io" for i a
      using onfile fresh by force
    moreover have "mget (m_leases m) n = Some l \<Longrightarrow> png_name (l_id l) \<noteq> io_temp io" for n l
      using D fresh unfolding inv_disk_def by force
    ultimately show ?thesis using D gm.wf_put[OF w] by (auto simp: inv_disk_def map_simps)
  qed
  then show ?thesis
    using inv inv_jobs_frame[OF inv, of ?m]
    by (auto simp: leave_temp_def mgr_inv_def inv_uncached_def inv_cache_def inv_leases_def readers_def cached_def)
qed

lemma inv_install:
  assumes inv: "mgr_inv L m" and new: "\<not> cached m i" and idle: "\<forall>j. mget (m_jobs m) i = Some j \<longrightarrow> \<not> active j"
    and bytes: "m_bytes m + int (length b) \<le> c_cache_bytes (m_cfg m)"
    and room: "int (length (m_artifacts m)) < c_cache_count (m_cfg m)"
  shows "mgr_inv L (install L now i b m)" (is "mgr_inv L ?m")
proof -
  from inv have U: "inv_uncached m" and C: "inv_cache m" and S: "inv_leases m" and D: "inv_disk L m"
    by (auto simp: mgr_inv_def)
  have wa: "wfm (m_artifacts m)" using C by (simp add: inv_cache_def)
  have wd: "wfm (m_disk m)" using D by (simp add: inv_disk_def)
  have none: "mget (m_artifacts m) i = None" using new by (simp add: cached_def)
  have nl: "mget (m_leases m) n = Some l \<Longrightarrow> l_id l \<noteq> i" for n l
    using S new by (auto simp: inv_leases_def)
  have "inv_uncached ?m"
    using U idle by (auto simp: inv_uncached_def install_def cached_def map_simps split: if_splits)
  moreover have "int (length (m_artifacts ?m)) \<le> c_cache_count (m_cfg ?m)"
    using room gm.size_put[OF wa] none by (simp add: install_def)
  then have "inv_cache ?m"
    using C bytes new none
    by (auto simp: inv_cache_def install_def gm.tot_put[OF wa] gm.wf_put map_simps split: if_splits)
  moreover have "readers i m = 0"
  proof -
    have "\<And>n l. (n, l) \<in> set (m_leases m) \<Longrightarrow> l_id l \<noteq> i"
      using nl S gm.entry_iff by (fastforce simp: inv_leases_def)
    then show ?thesis by (auto simp: readers_def cnt_def filter_empty_conv)
  qed
  then have "inv_leases ?m"
    using S by (fastforce simp: inv_leases_def install_def readers_def cached_def map_simps)
  moreover have "inv_disk L ?m"
    using D nl gm.wf_put[OF wd] by (fastforce simp: inv_disk_def install_def map_simps)
  ultimately show ?thesis
    using inv_jobs_frame[OF inv, of ?m] by (simp add: install_def mgr_inv_def)
qed

text \<open>What \<open>publish\<close> leaves behind.\<close>

lemma publish_cases:
  assumes inv: "mgr_inv L m" and p: "publish L io now i b m = (m', e)"
  obtains (kept) m2 where "e \<noteq> None" "settles m m2" "mgr_inv L m2"
      "m' = m2 \<or> (mget (m_disk m2) (io_temp io) = None \<and> (\<exists>b'. m' = leave_temp io b' m2))"
  | (stored) m2 where "e = None" "settles m m2" "mgr_inv L m2" "m' = install L now i b m2"
      "m_bytes m2 + int (length b) \<le> c_cache_bytes (m_cfg m2)"
      "int (length (m_artifacts m2)) < c_cache_count (m_cfg m2)"
proof -
  let ?m1 = "prune io now m" and ?sz = "int (length b)"
  note inv1 = inv_prune[OF inv, of io now] and set1 = settles_prune[OF inv, of io now]
  obtain m2 e2 where ev: "evict_while io (crowded ?sz) ?m1 = (m2, e2)" by force
  note set2 = settles_trans[OF set1 settles_evicts[OF evicts_while[OF ev]]]
  note inv2 = inv_evicts[OF evicts_while[OF ev] inv1]
  show thesis
  proof (cases "e = None")
    case True
    with p ev have ok: "e2 = None" "m' = install L now i b m2" "m_bytes m2 + ?sz \<le> c_cache_bytes (m_cfg m2)"
      by (auto simp: publish_def Let_def split: sum.splits if_splits option.splits)
    with ev have "\<not> crowded ?sz m2" by (auto dest: evict_while_done)
    with config_bounds[OF inv2] have "int (length (m_artifacts m2)) < c_cache_count (m_cfg m2)"
      by (auto simp: crowded_def)
    with True ok set2 inv2 show thesis by (intro stored[of m2])
  next
    case False
    with p ev have "m' = ?m1 \<or> m' = m2 \<or> (mget (m_disk m2) (io_temp io) = None \<and> (\<exists>b'. m' = leave_temp io b' m2))"
      by (auto simp: publish_def Let_def split: sum.splits if_splits option.splits)
    with False set1 set2 inv1 inv2 kept show thesis by metis
  qed
qed

lemma set_state_install: "set_state k s (install L now i b m) = install L now i b (set_state k s m)"
  by (auto simp: set_state_def install_def cached_def artifact_of_def split: option.splits)

section \<open>The end of a run\<close>

lemma inv_run_done:
  assumes inv: "mgr_inv L m" and nr: "\<And>k j. mget (m_jobs m) k = Some j \<Longrightarrow> j_state j \<noteq> Running"
  shows "mgr_inv L (m\<lparr>m_run := None\<rparr>)"
  using inv nr by (auto simp: mgr_inv_def inv_jobs_def inv_queue_def inv_run_def inv_uncached_def inv_quota_def
      inv_cache_def inv_leases_def inv_disk_def readers_def cached_def queued_count_def owned_count_def)

lemma set_state_get:
  "mget (m_jobs (set_state i s m)) k = (if k = i then map_option (\<lambda>j. j\<lparr>j_state := s\<rparr>) (mget (m_jobs m) i)
     else mget (m_jobs m) k)"
  by (auto simp: set_state_def map_simps split: option.splits)

lemma set_state_fields [simp]:
  "m_cfg (set_state i s m) = m_cfg m" "m_run (set_state i s m) = m_run m" "m_queue (set_state i s m) = m_queue m"
  "m_leases (set_state i s m) = m_leases m" "m_artifacts (set_state i s m) = m_artifacts m"
  "m_disk (set_state i s m) = m_disk m" "m_bytes (set_state i s m) = m_bytes m" "m_next (set_state i s m) = m_next m"
  "m_stopped (set_state i s m) = m_stopped m" "cached (set_state i s m) k = cached m k"
  by (simp_all add: set_state_def cached_def split: option.splits)

lemma inv_set_state:
  assumes inv: "mgr_inv L m" and r: "m_run m = Some r" and s: "s = Failed \<or> s = Ready"
  shows "mgr_inv L (set_state (w_id r) s m)"
    and "mget (m_jobs (set_state (w_id r) s m)) k = Some j \<Longrightarrow> j_state j \<noteq> Running"
proof -
  have R: "inv_run m" and J: "inv_jobs m" using inv by (auto simp: mgr_inv_def)
  show "mgr_inv L (set_state (w_id r) s m)"
  proof (cases "mget (m_jobs m) (w_id r)")
    case (Some j)
    have "mgr_inv L (m\<lparr>m_jobs := mput (w_id r) (j\<lparr>j_state := s\<rparr>) (m_jobs m), m_run := m_run m\<rparr>)"
      using wfm_subs[OF J Some] s by (intro inv_put_job[OF inv Some]) (auto simp: job_ok_def active_def subscribed_def)
    with Some show ?thesis by (simp add: set_state_def)
  qed (simp add: set_state_def inv)
  show "mget (m_jobs (set_state (w_id r) s m)) k = Some j \<Longrightarrow> j_state j \<noteq> Running"
    using R r s by (auto simp: set_state_get inv_run_def split: if_splits)
qed

text \<open>A run that no longer holds its job changes nothing.\<close>

lemma finish_lost: "m_run m = Some r \<Longrightarrow> \<not> holds_job r m \<Longrightarrow>
    work_finish L io now late res m = m\<lparr>m_run := None\<rparr>"
  by (simp add: work_finish_def)

lemma leave_temp_fields [simp]:
  "m_run (leave_temp io b m) = m_run m" "m_jobs (leave_temp io b m) = m_jobs m"
  "m_queue (leave_temp io b m) = m_queue m" "m_artifacts (leave_temp io b m) = m_artifacts m"
  "m_next (leave_temp io b m) = m_next m" "m_stopped (leave_temp io b m) = m_stopped m"
  "m_leases (leave_temp io b m) = m_leases m"
  by (simp_all add: leave_temp_def)

text \<open>Otherwise the job fails in a settled state, or it is ready with its bytes installed.\<close>

lemma finish_cases:
  assumes inv: "mgr_inv L m" and r: "m_run m = Some r" and h: "holds_job r m"
  obtains (failed) m2 where "mgr_inv L m2" "settles m m2 \<or> (\<exists>m1 b'. settles m m1 \<and> m2 = leave_temp io b' m1)"
      "m_run m2 = Some r" "work_finish L io now late res m = (set_state (w_id r) Failed m2)\<lparr>m_run := None\<rparr>"
  | (unseen) b where "res = Inr b" "late = LateUnseen"
      "work_finish L io now late res m = (set_state (w_id r) Ready m)\<lparr>m_run := None\<rparr>"
  | (stored) m2 b s M where "res = Inr b" "\<not> w_cancelled r" "\<not> m_stopped m" "settles m m2" "mgr_inv L m2"
      "m_bytes m2 + int (length b) \<le> c_cache_bytes (m_cfg m2)"
      "int (length (m_artifacts m2)) < c_cache_count (m_cfg m2)"
      "late = InTime \<and> s = Ready \<or> late = Closing \<and> s = Failed"
      "M = install L now (w_id r) b (set_state (w_id r) s m2)"
      "work_finish L io now late res m = (if late = Closing then close M else M)\<lparr>m_run := None\<rparr>"
proof -
  let ?res = "if w_cancelled r \<or> m_stopped m \<or> late = Late then Inl ErrContext else res"
  show thesis
  proof (cases ?res)
    case (Inl e)
    with r h have "work_finish L io now late res m = (set_state (w_id r) Failed m)\<lparr>m_run := None\<rparr>"
      by (auto simp: work_finish_def Let_def split: if_splits)
    with inv r settles_refl show thesis by (intro failed[of m]) auto
  next
    case (Inr b)
    then have ok: "res = Inr b" "\<not> w_cancelled r" "\<not> m_stopped m" "late \<noteq> Late" by (auto split: if_splits)
    show thesis
    proof (cases "late = LateUnseen")
      case True
      with ok r h show thesis by (intro unseen[of b]) (simp_all add: work_finish_def)
    next
      case seen: False
      obtain m' e where p: "publish L io now (w_id r) b m = (m', e)" by force
      show thesis
      proof (cases rule: publish_cases[OF inv p])
        case (1 m2)
        have m2: "m_run m2 = Some r" using 1(2) r by (simp add: settles_def)
        have "work_finish L io now late res m = (set_state (w_id r) Failed m')\<lparr>m_run := None\<rparr>"
          using 1(1) r h ok p seen by (auto simp: work_finish_def Let_def)
        moreover have "mgr_inv L m'" "m_run m' = Some r" using 1(3,4) m2 inv_leave_temp[OF 1(3)] by auto
        moreover have "settles m m' \<or> (\<exists>m1 b'. settles m m1 \<and> m' = leave_temp io b' m1)" using 1(2,4) by blast
        ultimately show thesis by (intro failed) auto
      next
        case (2 m2)
        let ?s = "if late = Closing then Failed else Ready"
        let ?M = "install L now (w_id r) b (set_state (w_id r) ?s m2)"
        have "work_finish L io now late res m = (if late = Closing then close ?M else ?M)\<lparr>m_run := None\<rparr>"
          using 2(1,4) r h ok p seen by (simp add: work_finish_def Let_def set_state_install)
        moreover have "late = InTime \<or> late = Closing" using ok(4) seen by (cases late) auto
        ultimately show thesis using 2 ok by (intro stored[of b m2 ?s ?M]) auto
      qed
    qed
  qed
qed

lemma holds_active: "holds_job r m \<Longrightarrow> \<exists>j. mget (m_jobs m) (w_id r) = Some j \<and> j_state j = Running \<and> j_ptr j = w_ptr r"
  by (auto simp: holds_job_def split: option.splits)

lemma inv_stop: "mgr_inv L m \<Longrightarrow> mgr_inv L (m\<lparr>m_stopped := b\<rparr>)"
  by (simp add: mgr_inv_def inv_jobs_def inv_queue_def inv_run_def inv_uncached_def inv_quota_def inv_cache_def
      inv_leases_def inv_disk_def readers_def cached_def queued_count_def owned_count_def)

lemma inv_finish:
  assumes inv: "mgr_inv L m"
  shows "mgr_inv L (work_finish L io now late res m)"
proof (cases "m_run m")
  case None
  then show ?thesis by (simp add: work_finish_def inv)
next
  case r: (Some r)
  have R: "inv_run m" using inv by (simp add: mgr_inv_def)
  show ?thesis
  proof (cases "holds_job r m")
    case False
    have "mget (m_jobs m) k = Some j \<Longrightarrow> j_state j \<noteq> Running" for k j
      using R False r by (auto simp: inv_run_def holds_job_def split: option.splits)
    from inv_run_done[OF inv this] show ?thesis by (simp add: finish_lost[OF r False])
  next
    case h: True
    show ?thesis
    proof (cases rule: finish_cases[OF inv r h, of io now late res])
      case (1 m2)
      from inv_set_state[OF 1(1,3), of Failed] show ?thesis unfolding 1 by (auto intro: inv_run_done)
    next
      case (2 b)
      from inv_set_state[OF inv r, of Ready] show ?thesis unfolding 2(3) by (auto intro: inv_run_done)
    next
      case (3 m2 b s M)
      from holds_active[OF h] 3(4) obtain j where j: "mget (m_jobs m2) (w_id r) = Some j" "j_state j = Running"
        by (auto simp: settles_def active_def)
      have r2: "m_run m2 = Some r" using 3(4) r by (simp add: settles_def)
      have new: "\<not> cached m2 (w_id r)" using 3(5) j by (auto simp: mgr_inv_def inv_uncached_def active_def)
      have s: "s = Failed \<or> s = Ready" using 3(8) by blast
      note S = inv_set_state[OF 3(5) r2 s]
      have "mgr_inv L M" unfolding 3(9)
        using S new j 3(6,7) s by (intro inv_install) (auto simp: set_state_get active_def)
      then have "mgr_inv L (if late = Closing then close M else M)" by (simp add: close_def inv_stop)
      moreover have "mget (m_jobs (if late = Closing then close M else M)) k = Some j \<Longrightarrow> j_state j \<noteq> Running" for k j
        using S(2) by (simp add: 3(9) install_def close_def split: if_splits)
      ultimately show ?thesis unfolding 3(10) by (rule inv_run_done)
    qed
  qed
qed

section \<open>The running system\<close>

lemma inv_reorder:
  assumes inv: "mgr_inv L m" and js: "mset js = mset (m_jobs m)" and as: "mset as = mset (m_artifacts m)"
  shows "mgr_inv L (m\<lparr>m_jobs := js, m_artifacts := as\<rparr>)"
proof -
  from inv have w: "wfm (m_jobs m)" "wfm (m_artifacts m)" by (auto simp: mgr_inv_def inv_jobs_def inv_cache_def)
  have g: "mget js = mget (m_jobs m)" "mget as = mget (m_artifacts m)" "wfm js" "wfm as"
    using mget_perm[OF w(1)] mget_perm[OF w(2)] wfm_perm[OF w(1)] wfm_perm[OF w(2)] js as by metis+
  have c: "cnt P js = cnt P (m_jobs m)" "tot f as = tot f (m_artifacts m)" for P f
    using cnt_perm[OF js] tot_perm[OF as] by auto
  have l: "length js = length (m_jobs m)" "length as = length (m_artifacts m)"
    using js as by (metis size_mset)+
  show ?thesis
    using inv by (simp add: g c l mgr_inv_def inv_jobs_def inv_queue_def inv_run_def inv_uncached_def inv_quota_def
      inv_cache_def inv_leases_def inv_disk_def readers_def cached_def queued_count_def owned_count_def)
qed

text \<open>
  One step of the running manager. The visitors' calls, the maintenance tick and the two halves of the
  worker's turn interleave freely; a \<open>range\<close> loop may see the maps in any order.
\<close>

inductive mstep :: "golib \<Rightarrow> mgr \<Rightarrow> mgr \<Rightarrow> bool" for L where
  step_admit: "mstep L m (fst (admit L io now owner qs m))"
| step_cancel: "mstep L m (cancel owner i m)"
| step_enable: "mstep L m (enable on m)"
| step_close: "mstep L m (close m)"
| step_open: "mstep L m (fst (open_artifact io now i m))"
| step_release: "mstep L m (close_lease n m)"
| step_prune: "mstep L m (prune io now m)"
| step_pick: "m_run m = None \<Longrightarrow> mstep L m (work_pick now m)"
| step_finish: "mstep L m (work_finish L io now late res m)"
| step_reorder: "mset js = mset (m_jobs m) \<Longrightarrow> mset as = mset (m_artifacts m) \<Longrightarrow>
    mstep L m (m\<lparr>m_jobs := js, m_artifacts := as\<rparr>)"

lemma inv_mstep: "mstep L m m' \<Longrightarrow> mgr_inv L m \<Longrightarrow> mgr_inv L m'"
  by (induction rule: mstep.induct)
    (auto simp: enable_def close_def intro: inv_admit inv_cancel inv_open inv_close_lease inv_prune inv_pick
      inv_finish inv_reorder)

section \<open>Startup\<close>

text \<open>
  What reading the cache directory reports agrees with its contents: distinct names, and the size and
  the bytes of every regular file that can be read.
\<close>

definition dir_agrees :: "(string, string) gomap \<Rightarrow> dirent list \<Rightarrow> bool" where
  "dir_agrees disk es \<longleftrightarrow> wfm disk \<and> distinct (map de_name es)
     \<and> (\<forall>e\<in>set es. \<forall>sz t b. de_info e = Inr (True, sz, t) \<and> de_read e = Inr b \<longrightarrow>
          mget disk (de_name e) = Some b \<and> sz = int (length b))"

definition starting :: "mgr \<Rightarrow> bool" where
  "starting m \<longleftrightarrow> m_jobs m = [] \<and> m_queue m = [] \<and> m_run m = None \<and> m_leases m = [] \<and> m_open m = 0"

lemma inv_empty:
  assumes "config_ok c" "wfm disk"
  shows "mgr_inv L (empty_mgr c disk)" "starting (empty_mgr c disk)"
  using assms
  by (auto simp: mgr_inv_def empty_mgr_def starting_def inv_jobs_def inv_queue_def inv_run_def inv_uncached_def
      inv_quota_def inv_cache_def inv_leases_def inv_disk_def queued_count_def owned_count_def config_ok_def MaxImage_def)

lemma suffix_name: "has_suffix name ''.png'' \<Longrightarrow> png_name (trim_suffix name ''.png'') = name"
  by (metis append_take_drop_id has_suffix_def png_name_def trim_suffix_def)

lemma inv_drop_file:
  assumes inv: "mgr_inv L m" and nofile: "\<And>i. cached m i \<Longrightarrow> png_name i \<noteq> name"
  shows "mgr_inv L (m\<lparr>m_disk := mdel name (m_disk m)\<rparr>)" (is "mgr_inv L ?m")
proof -
  have D: "inv_disk L m" and S: "inv_leases m" using inv by (simp_all add: mgr_inv_def)
  have "mget (m_leases m) n = Some l \<Longrightarrow> png_name (l_id l) \<noteq> name" for n l
    using S nofile unfolding inv_leases_def by blast
  then have "inv_disk L ?m"
    using D nofile by (auto simp: inv_disk_def map_simps cached_def gm.wf_del)
  then show ?thesis
    using inv inv_jobs_frame[OF inv, of ?m]
    by (auto simp: mgr_inv_def inv_uncached_def inv_cache_def inv_leases_def readers_def cached_def)
qed

lemma inv_index_file:
  assumes inv: "mgr_inv L m" and st: "starting m" and new: "\<not> cached m i"
    and b: "mget (m_disk m) (png_name i) = Some b" "sz = int (length b)"
    and room: "int (length (m_artifacts m)) < c_cache_count (m_cfg m)" "m_bytes m + sz \<le> c_cache_bytes (m_cfg m)"
  shows "mgr_inv L (m\<lparr>m_artifacts := mput i \<lparr>a_size = sz, a_created = t, a_digest = gl_sha256 L b, a_refs = 0\<rparr>
      (m_artifacts m), m_bytes := m_bytes m + sz\<rparr>)" (is "mgr_inv L ?m")
proof -
  from inv have C: "inv_cache m" and D: "inv_disk L m" by (auto simp: mgr_inv_def)
  have wa: "wfm (m_artifacts m)" using C by (simp add: inv_cache_def)
  have none: "mget (m_artifacts m) i = None" using new by (simp add: cached_def)
  have "int (length (m_artifacts ?m)) \<le> c_cache_count (m_cfg ?m)"
    using room gm.size_put[OF wa] none by simp
  then have "inv_cache ?m"
    using C room none b by (auto simp: inv_cache_def gm.tot_put[OF wa] gm.wf_put map_simps split: if_splits)
  moreover have "inv_leases ?m" "inv_disk L ?m" "inv_uncached ?m"
    using inv st b by (auto simp: mgr_inv_def starting_def inv_leases_def inv_disk_def inv_uncached_def readers_def
        cached_def map_simps)
  ultimately show ?thesis
    using inv_jobs_frame[OF inv, of ?m] by (simp add: mgr_inv_def)
qed

text \<open>The directory index after some entries: what is cached comes from entries already read.\<close>

definition indexed :: "golib \<Rightarrow> (string, string) gomap \<Rightarrow> dirent list \<Rightarrow> mgr \<Rightarrow> bool" where
  "indexed L disk es m \<longleftrightarrow> mgr_inv L m \<and> starting m
     \<and> (\<forall>e\<in>set es. \<forall>i. cached m i \<longrightarrow> png_name i \<noteq> de_name e)
     \<and> (\<forall>e\<in>set es. mget (m_disk m) (de_name e) = mget disk (de_name e))"

lemma starting_update [simp]:
  "starting (m\<lparr>m_disk := d\<rparr>) = starting m" "starting (m\<lparr>m_artifacts := as, m_bytes := b\<rparr>) = starting m"
  by (simp_all add: starting_def)

lemma reconcile_entry_cases:
  assumes "reconcile_entry L io now e m = Inr m'"
  shows "m' = m \<or> m' = m\<lparr>m_disk := mdel (de_name e) (m_disk m)\<rparr> \<or> (\<exists>sz t b. has_suffix (de_name e) ''.png''
     \<and> de_info e = Inr (True, sz, t) \<and> de_read e = Inr b
     \<and> int (length (m_artifacts m)) < c_cache_count (m_cfg m) \<and> m_bytes m + sz \<le> c_cache_bytes (m_cfg m)
     \<and> m' = m\<lparr>m_artifacts := mput (trim_suffix (de_name e) ''.png'')
          \<lparr>a_size = sz, a_created = t, a_digest = gl_sha256 L b, a_refs = 0\<rparr> (m_artifacts m), m_bytes := m_bytes m + sz\<rparr>)"
proof (cases "de_info e")
  case (Inl x)
  with assms show ?thesis by (auto simp: reconcile_entry_def Let_def split: if_splits option.splits)
next
  case (Inr x)
  obtain rg sz t where x: "x = (rg, sz, t)" by (cases x) auto
  show ?thesis
    using assms Inr x
    by (cases "de_read e") (simp_all add: reconcile_entry_def Let_def not_le not_less split: if_splits option.splits)
qed

lemma indexed_entry:
  assumes "indexed L disk (e # es) m" "dir_agrees disk (e # es)" "reconcile_entry L io now e m = Inr m'"
  shows "indexed L disk es m'"
proof -
  from assms(1) have inv: "mgr_inv L m" "starting m" and nf: "\<And>i. cached m i \<Longrightarrow> png_name i \<noteq> de_name e"
    by (auto simp: indexed_def)
  have "de_name e \<notin> de_name ` set es" using assms(2) by (simp add: dir_agrees_def)
  then have d: "\<And>e'. e' \<in> set es \<Longrightarrow> de_name e' \<noteq> de_name e" by (metis image_eqI)
  consider "m' = m" | "m' = m\<lparr>m_disk := mdel (de_name e) (m_disk m)\<rparr>"
    | (new) i sz t b where "i = trim_suffix (de_name e) ''.png''" "has_suffix (de_name e) ''.png''"
        "de_info e = Inr (True, sz, t)" "de_read e = Inr b"
        "int (length (m_artifacts m)) < c_cache_count (m_cfg m)" "m_bytes m + sz \<le> c_cache_bytes (m_cfg m)"
        "m' = m\<lparr>m_artifacts := mput i \<lparr>a_size = sz, a_created = t, a_digest = gl_sha256 L b, a_refs = 0\<rparr>
          (m_artifacts m), m_bytes := m_bytes m + sz\<rparr>"
    using reconcile_entry_cases[OF assms(3)] by blast
  then show ?thesis
  proof cases
    case 1
    with assms(1) show ?thesis by (simp add: indexed_def)
  next
    case 2
    with assms(1) d inv_drop_file[OF inv(1) nf] show ?thesis by (auto simp: indexed_def map_simps cached_def)
  next
    case new
    have nm: "png_name i = de_name e" using suffix_name[OF new(2)] new(1) by simp
    have "mget disk (de_name e) = Some b \<and> sz = int (length b)"
      using assms(2) new(3,4) by (auto simp: dir_agrees_def)
    with assms(1) nm have b: "mget (m_disk m) (png_name i) = Some b" "sz = int (length b)"
      by (auto simp: indexed_def)
    have "\<not> cached m i" using nf nm by auto
    note I = inv_index_file[OF inv this b new(5,6), of t]
    show ?thesis
      using assms(1) I d d[symmetric] nm unfolding new(7) by (auto simp: indexed_def cached_def map_simps split: if_splits)
  qed
qed

lemma indexed_entries:
  "reconcile_entries L io now es m = Inr m' \<Longrightarrow> indexed L disk es m \<Longrightarrow> dir_agrees disk es \<Longrightarrow>
     mgr_inv L m' \<and> starting m'"
proof (induction L io now es m rule: reconcile_entries.induct)
  case (2 L io now e es m)
  then obtain m1 where m1: "reconcile_entry L io now e m = Inr m1" "reconcile_entries L io now es m1 = Inr m'"
    by (auto simp: res_simps)
  have "dir_agrees disk es" using 2(4) by (auto simp: dir_agrees_def)
  with 2 m1 indexed_entry show ?case by blast
qed (simp add: indexed_def)

lemma dir_agrees_sort: "dir_agrees disk es \<Longrightarrow> dir_agrees disk (sort_key name_order es)"
proof -
  have "mset (map de_name (sort_key name_order es)) = mset (map de_name es)" by simp
  then show "dir_agrees disk es \<Longrightarrow> ?thesis"
    unfolding dir_agrees_def by (metis mset_eq_imp_distinct_iff set_sort)
qed

lemma inv_new_manager:
  assumes "new_manager L io now c hr mk disk (Inr es) = Inr m" "dir_agrees disk es"
  shows "mgr_inv L m" "starting m"
proof -
  from assms(1) have c: "config_ok (with_defaults c)"
    and r: "reconcile_entries L io now (sort_key name_order es) (empty_mgr (with_defaults c) disk) = Inr m"
    by (auto simp: new_manager_def Let_def reconcile_def split: if_splits option.splits)
  have "wfm disk" using assms(2) by (simp add: dir_agrees_def)
  with inv_empty(1)[OF c this, of L] inv_empty(2)[OF c this] have "indexed L disk es' (empty_mgr (with_defaults c) disk)" for es'
    by (auto simp: indexed_def empty_mgr_def cached_def)
  from indexed_entries[OF r this dir_agrees_sort[OF assms(2)]] show "mgr_inv L m" "starting m" by auto
qed

inductive reachable :: "golib \<Rightarrow> mgr \<Rightarrow> bool" for L where
  reach_new: "new_manager L io now c hr mk disk (Inr es) = Inr m \<Longrightarrow> dir_agrees disk es \<Longrightarrow> reachable L m"
| reach_step: "reachable L m \<Longrightarrow> mstep L m m' \<Longrightarrow> reachable L m'"

lemma reachable_mgr_inv: "reachable L m \<Longrightarrow> mgr_inv L m"
  by (induction rule: reachable.induct) (auto intro: inv_new_manager inv_mstep)

section \<open>Worker identity\<close>

text \<open>Pointers identify jobs, and a cancelled run's job is cancelled for good.\<close>

definition ptr_inv :: "mgr \<Rightarrow> bool" where
  "ptr_inv m \<longleftrightarrow> (\<forall>i i' j j'. mget (m_jobs m) i = Some j \<and> mget (m_jobs m) i' = Some j' \<and> j_ptr j = j_ptr j'
        \<longrightarrow> i = i')
     \<and> (\<forall>i j. mget (m_jobs m) i = Some j \<longrightarrow> j_ptr j < m_next m)
     \<and> (\<forall>r. m_run m = Some r \<longrightarrow> w_ptr r < m_next m \<and> (\<forall>i j. mget (m_jobs m) i = Some j \<and> j_ptr j = w_ptr r
          \<longrightarrow> i = w_id r \<and> (w_cancelled r \<longrightarrow> j_state j = Cancelled)))"

text \<open>Steps after which every job continues an old one: same key, same pointer, still cancelled if it was.\<close>

definition continues :: "mgr \<Rightarrow> mgr \<Rightarrow> bool" where
  "continues m m' \<longleftrightarrow> m_next m' = m_next m \<and> (m_run m' = m_run m \<or> m_run m' = None)
     \<and> (\<forall>i j'. mget (m_jobs m') i = Some j' \<longrightarrow> (\<exists>j. mget (m_jobs m) i = Some j \<and> j_ptr j' = j_ptr j
          \<and> (j_state j = Cancelled \<longrightarrow> j_state j' = Cancelled)))"

lemma continues_refl: "continues m m"
  by (simp add: continues_def)

lemma continues_trans: "continues m1 m2 \<Longrightarrow> continues m2 m3 \<Longrightarrow> continues m1 m3"
  unfolding continues_def by metis

lemma ptr_continues:
  assumes "ptr_inv m" "continues m m'"
  shows "ptr_inv m'"
proof -
  have old: "\<exists>j. mget (m_jobs m) i = Some j \<and> j_ptr j' = j_ptr j \<and> (j_state j = Cancelled \<longrightarrow> j_state j' = Cancelled)"
    if "mget (m_jobs m') i = Some j'" for i j' using assms(2) that by (simp add: continues_def)
  show ?thesis
    unfolding ptr_inv_def
  proof (intro conjI allI impI, goal_cases)
    case (1 i i' j j')
    with old[of i j] old[of i' j'] assms(1) show ?case unfolding ptr_inv_def by metis
  next
    case (2 i j)
    with old[of i j] assms show ?case unfolding ptr_inv_def continues_def by metis
  next
    case (3 r)
    with assms show ?case unfolding ptr_inv_def continues_def by (metis option.distinct(1))
  next
    case (4 r i j)
    with assms have "m_run m = Some r" unfolding continues_def by (metis option.distinct(1))
    with 4 old[of i j] assms(1) show ?case unfolding ptr_inv_def by metis
  next
    case (5 r i j)
    with assms have "m_run m = Some r" unfolding continues_def by (metis option.distinct(1))
    with 5 old[of i j] assms(1) show ?case unfolding ptr_inv_def by metis
  qed
qed

lemma ptr_run: "ptr_inv m \<Longrightarrow> m_run m = Some r \<Longrightarrow> w_cancelled r \<Longrightarrow> \<not> holds_job r m"
  by (auto simp: ptr_inv_def holds_job_def split: option.splits)

lemma continues_settles:
  assumes "settles m m'"
  shows "continues m m'"
proof -
  have "m_next m' = m_next m" "m_run m' = m_run m" using assms by (simp_all add: settles_def)
  with settles_prior[OF assms] show ?thesis by (simp add: continues_def)
qed

lemma ptr_frame:
  "mget (m_jobs m') = mget (m_jobs m) \<Longrightarrow> m_run m' = m_run m \<Longrightarrow> m_next m' = m_next m \<Longrightarrow> ptr_inv m' = ptr_inv m"
  by (simp add: ptr_inv_def)

lemma ptr_uniq:
  "ptr_inv m \<Longrightarrow> mget (m_jobs m) i = Some j \<Longrightarrow> mget (m_jobs m) i' = Some j' \<Longrightarrow> j_ptr j = j_ptr j' \<Longrightarrow> i = i'"
  and ptr_lt: "ptr_inv m \<Longrightarrow> mget (m_jobs m) i = Some j \<Longrightarrow> j_ptr j < m_next m"
  and ptr_run_lt: "ptr_inv m \<Longrightarrow> m_run m = Some r \<Longrightarrow> w_ptr r < m_next m"
  and ptr_run_job: "ptr_inv m \<Longrightarrow> m_run m = Some r \<Longrightarrow> mget (m_jobs m) i = Some j \<Longrightarrow> j_ptr j = w_ptr r \<Longrightarrow>
     i = w_id r \<and> (w_cancelled r \<longrightarrow> j_state j = Cancelled)"
  unfolding ptr_inv_def by blast+

text \<open>A new job gets a fresh pointer.\<close>

lemma ptr_new_job:
  assumes p: "ptr_inv m"
  shows "ptr_inv (new_job now i owner q m)"
  unfolding ptr_inv_def
proof (intro conjI allI impI, goal_cases)
  case (1 k k' j j')
  then have g: "mget (m_jobs (new_job now i owner q m)) k = Some j" "mget (m_jobs (new_job now i owner q m)) k' = Some j'"
    "j_ptr j = j_ptr j'" by blast+
  show ?case
    using g ptr_lt[OF p, of k j] ptr_lt[OF p, of k' j'] ptr_uniq[OF p, of k j k' j']
    by (cases "k = i"; cases "k' = i") (simp_all add: new_job_get, auto)
next
  case (2 k j)
  then show ?case using ptr_lt[OF p, of k j] by (auto simp: new_job_get split: if_splits)
next
  case (3 r)
  then show ?case using ptr_run_lt[OF p, of r] by simp
next
  case (4 r k j)
  then show ?case using ptr_run_lt[OF p, of r] ptr_run_job[OF p, of r k j] by (auto simp: new_job_get split: if_splits)
next
  case (5 r k j)
  then show ?case using ptr_run_lt[OF p, of r] ptr_run_job[OF p, of r k j] by (auto simp: new_job_get split: if_splits)
qed

lemma ptr_subscribe: "ptr_inv m \<Longrightarrow> mget (m_jobs m) i = Some j \<Longrightarrow> ptr_inv (subscribe i owner j m)"
  by (erule ptr_continues) (auto simp: continues_def subscribe_get)

lemma ptr_admit_apply: "ptr_inv m \<Longrightarrow> ptr_inv (fst (admit_apply now owner iqs m))"
proof (induction now owner iqs m rule: admit_apply.induct)
  case (2 now owner i q iqs m)
  then show ?case
    by (cases "mget (m_jobs m) i") (auto intro: ptr_new_job ptr_subscribe)
qed simp

lemma ptr_admit:
  assumes "ptr_inv m" "mgr_inv L m"
  shows "ptr_inv (fst (admit L io now owner qs m))"
proof -
  let ?m1 = "filter_queue (prune io now m)"
  have "continues m ?m1" using continues_settles[OF settles_prune[OF assms(2), of io now]] by (simp add: continues_def)
  then have p1: "ptr_inv ?m1" by (rule ptr_continues[OF assms(1)])
  have wake: "ptr_inv (x\<lparr>m_wake := True\<rparr>) = ptr_inv x" for x by (simp add: ptr_inv_def)
  have "ptr_inv m2" if "admit_apply now owner iqs ?m1 = (m2, e)" for iqs m2 e
    using ptr_admit_apply[OF p1, of now owner iqs] that by simp
  then show ?thesis
    using assms(1) p1 wake by (auto simp: admit_def Let_def split: sum.splits prod.splits option.splits)
qed

lemma ptr_set_run:
  assumes "ptr_inv m" "m_run m = Some r"
    and "\<And>k j. mget (m_jobs m) k = Some j \<Longrightarrow> j_ptr j = w_ptr r \<Longrightarrow> j_state j = Cancelled"
  shows "ptr_inv (m\<lparr>m_run := Some (r\<lparr>w_cancelled := True\<rparr>)\<rparr>)"
  using assms by (simp add: ptr_inv_def) blast

lemma ptr_cancel:
  assumes "ptr_inv m"
  shows "ptr_inv (cancel owner i m)"
proof (cases "mget (m_jobs m) i")
  case None
  with assms show ?thesis by (simp add: cancel_def)
next
  case (Some j)
  let ?j = "j\<lparr>j_subs := mdel owner (j_subs j)\<rparr>"
  show ?thesis
  proof (cases "j_subs ?j = [] \<and> active ?j")
    case False
    then have "cancel owner i m = m\<lparr>m_jobs := mput i ?j (m_jobs m)\<rparr>"
      using Some by (auto simp: cancel_def Let_def)
    moreover have "continues m (m\<lparr>m_jobs := mput i ?j (m_jobs m)\<rparr>)"
      using Some by (auto simp: continues_def map_simps)
    ultimately show ?thesis using ptr_continues[OF assms] by simp
  next
    case True
    let ?m = "m\<lparr>m_jobs := mput i (?j\<lparr>j_state := Cancelled\<rparr>) (m_jobs m)\<rparr>"
    have "continues m ?m" using Some by (auto simp: continues_def map_simps)
    note p = ptr_continues[OF assms this]
    have "cancel owner i m = ?m\<lparr>m_run := cancel_run j (m_run m)\<rparr>"
      using Some True by (auto simp: cancel_def Let_def)
    moreover have "ptr_inv (?m\<lparr>m_run := cancel_run j (m_run m)\<rparr>)"
    proof (cases "m_run m")
      case None
      then have "?m\<lparr>m_run := cancel_run j (m_run m)\<rparr> = ?m" by (simp add: cancel_run_def)
      with p show ?thesis by (simp only:)
    next
      case r: (Some r)
      show ?thesis
      proof (cases "w_ptr r = j_ptr j")
        case False
        then have "?m\<lparr>m_run := cancel_run j (m_run m)\<rparr> = ?m" using r by (simp add: cancel_run_def)
        with p show ?thesis by (simp only:)
      next
        case True
        let ?r = "r\<lparr>w_cancelled := True\<rparr>"
        have m': "?m\<lparr>m_run := cancel_run j (m_run m)\<rparr> = ?m\<lparr>m_run := Some ?r\<rparr>"
          using r True by (simp add: cancel_run_def)
        have c: "j_state jk = Cancelled" if "mget (m_jobs ?m) k = Some jk" "j_ptr jk = j_ptr j" for k jk
          using that ptr_uniq[OF assms, of k jk i j] Some by (auto simp: map_simps split: if_splits)
        have "m_run ?m = Some r" using r by simp
        from ptr_set_run[OF p this] c True show ?thesis unfolding m' by simp
      qed
    qed
    ultimately show ?thesis by simp
  qed
qed

lemma ptr_pick:
  assumes "ptr_inv m"
  shows "ptr_inv (work_pick now m)"
proof (cases rule: work_pick_cases[of now m])
  case (idle jobs)
  have "continues m (work_pick now m)"
    unfolding continues_def idle(4) using aged_get[OF idle(1)] by (auto, metis job.select_convs(1,3) job.surjective job.update_convs(3) jstate.distinct(7))
  then show ?thesis by (rule ptr_continues[OF assms])
next
  case (start jobs n j)
  let ?m1 = "m\<lparr>m_jobs := jobs, m_run := None\<rparr>"
  have "continues m ?m1"
    unfolding continues_def using aged_get[OF start(1)] by (auto, metis job.select_convs(1,3) job.surjective job.update_convs(3) jstate.distinct(7))
  then have p: "ptr_inv ?m1" by (rule ptr_continues[OF assms])
  then show ?thesis
    unfolding start(8) using start(4) by (auto simp: ptr_inv_def map_simps split: if_splits) 
qed

lemma continues_set_state:
  "(\<And>j. mget (m_jobs m) i = Some j \<Longrightarrow> j_state j \<noteq> Cancelled) \<Longrightarrow> continues m (set_state i s m)"
  by (auto simp: continues_def set_state_get split: if_splits)

lemma ptr_finish:
  assumes p: "ptr_inv m" and inv: "mgr_inv L m"
  shows "ptr_inv (work_finish L io now late res m)"
proof (cases "m_run m")
  case None
  with p show ?thesis by (simp add: work_finish_def)
next
  case r: (Some r)
  have stop: "continues m m' \<Longrightarrow> ptr_inv (m'\<lparr>m_run := None\<rparr>)" for m'
    using ptr_continues[OF p, of "m'\<lparr>m_run := None\<rparr>"] by (simp add: continues_def)
  show ?thesis
  proof (cases "holds_job r m")
    case False
    with stop[OF continues_refl] show ?thesis by (simp add: finish_lost[OF r])
  next
    case True
    from holds_active[OF True] obtain j where j: "mget (m_jobs m) (w_id r) = Some j" "j_state j = Running" by blast
    show ?thesis
    proof (cases rule: finish_cases[OF inv r True, of io now late res])
      case (1 m2)
      from 1(2) have c: "continues m m2" by (auto dest: continues_settles simp: continues_def)
      have "mget (m_jobs m2) (w_id r) = Some j" using 1(2) j by (auto simp: settles_def active_def)
      then have "continues m2 (set_state (w_id r) Failed m2)" using j by (intro continues_set_state) auto
      from stop[OF continues_trans[OF c this]] show ?thesis unfolding 1(4) .
    next
      case (2 b)
      have "continues m (set_state (w_id r) Ready m)" using j by (intro continues_set_state) auto
      from stop[OF this] show ?thesis unfolding 2(3) .
    next
      case (3 m2 b s M)
      have "mget (m_jobs m2) (w_id r) = Some j" using 3(4) j by (auto simp: settles_def active_def)
      then have "continues m2 (set_state (w_id r) s m2)" using j by (intro continues_set_state) auto
      from continues_trans[OF continues_settles[OF 3(4)] this]
      have "continues m (if late = Closing then close M else M)"
        by (simp add: continues_def install_def close_def 3(9))
      from stop[OF this] show ?thesis unfolding 3(10) .
    qed
  qed
qed

lemma ptr_mstep:
  assumes "mstep L m m'" "mgr_inv L m" "ptr_inv m"
  shows "ptr_inv m'"
  using assms
proof (induction rule: mstep.induct)
  case (step_open m io now i)
  have "mget (m_jobs (fst (open_artifact io now i m))) = mget (m_jobs m)" "m_run (fst (open_artifact io now i m)) = m_run m"
    "m_next (fst (open_artifact io now i m)) = m_next m"
    by (simp_all add: open_artifact_def split: option.splits)
  from ptr_frame[OF this] step_open show ?case by simp
next
  case (step_release m n)
  have "mget (m_jobs (close_lease n m)) = mget (m_jobs m)" "m_run (close_lease n m) = m_run m" "m_next (close_lease n m) = m_next m"
    by (simp_all add: close_lease_def Let_def split: option.splits)
  from ptr_frame[OF this] step_release show ?case by simp
next
  case (step_enable m on)
  then show ?case using ptr_frame[of "enable on m" m] by (simp add: enable_def)
next
  case (step_close m)
  then show ?case using ptr_frame[of "close m" m] by (simp add: close_def)
next
  case (step_prune m io now)
  then show ?case by (blast intro: ptr_continues continues_settles settles_prune)
next
  case (step_reorder js m as)
  then have "mget js = mget (m_jobs m)"
    using mget_perm[of "m_jobs m" js] by (simp add: mgr_inv_def inv_jobs_def)
  then have "ptr_inv (m\<lparr>m_jobs := js, m_artifacts := as\<rparr>) = ptr_inv m" by (intro ptr_frame) simp_all
  with step_reorder show ?case by simp
qed (blast intro: ptr_admit ptr_cancel ptr_pick ptr_finish)+

lemma reachable_ptr_inv: "reachable L m \<Longrightarrow> ptr_inv m"
proof (induction rule: reachable.induct)
  case (reach_new io now c hr mk disk es m)
  from inv_new_manager(2)[OF this] show ?case by (simp add: starting_def ptr_inv_def)
qed (blast intro: ptr_mstep reachable_mgr_inv)

end
