(* ===== verification/ManagerProps.thy ===== *)
theory ManagerProps
  imports ManagerRun
begin

text \<open>
  The properties of the render manager, stated for every reachable state, and a concrete run of the
  manager (admit, render, publish, lease, cancel) that the witnesses use.
\<close>

section \<open>A demonstration run\<close>

definition demo_io :: sysio where
  "demo_io = \<lparr>io_remove = \<lambda>f. None, io_open = \<lambda>f. None, io_statfs = Inr 1000000000, io_create = None,
     io_temp = ''pending-1'', io_write = None, io_sync = None, io_close = None, io_rename = None\<rparr>"

definition demo_config :: mconfig where
  "demo_config = \<lparr>c_directory = ''cache'', c_build = ''b1'', c_queue = 0, c_cache_bytes = 0,
     c_cache_count = 0, c_max_age = 0\<rparr>"

definition demo_id :: string where
  "demo_id = recipe_key demo_lib (demo_recipe demo_traits)
     \<lparr>rn_width = 600, rn_height = 600, rn_aa = 1, rn_format = ''png''\<rparr> ''b1''"

definition demo_idle :: mgr where
  "demo_idle = empty_mgr (with_defaults demo_config) []"

definition demo_job :: "jstate \<Rightarrow> job" where
  "demo_job s = \<lparr>j_ptr = 0, j_request = demo_request, j_state = s, j_subs = [(''v'', True)],
     j_owner = ''v'', j_created = 0\<rparr>"

definition demo_queued :: mgr where
  "demo_queued = demo_idle\<lparr>m_jobs := [(demo_id, demo_job Queued)], m_queue := [demo_id], m_wake := True,
     m_next := 1\<rparr>"

definition demo_running :: mgr where
  "demo_running = demo_queued\<lparr>m_jobs := [(demo_id, demo_job Running)], m_queue := [], m_last := ''v'',
     m_run := Some \<lparr>w_id = demo_id, w_ptr = 0, w_request = demo_request, w_cancelled = False\<rparr>\<rparr>"

definition demo_ready :: mgr where
  "demo_ready = demo_running\<lparr>m_jobs := [(demo_id, demo_job Ready)], m_run := None, m_bytes := 3,
     m_artifacts := [(demo_id, \<lparr>a_size = 3, a_created = 0, a_digest = ''PNG'', a_refs = 0\<rparr>)],
     m_disk := [(png_name demo_id, ''PNG'')]\<rparr>"

definition demo_leased :: mgr where
  "demo_leased = demo_ready\<lparr>m_artifacts := [(demo_id, \<lparr>a_size = 3, a_created = 0, a_digest = ''PNG'', a_refs = 1\<rparr>)],
     m_open := 1, m_leases := [(0, \<lparr>l_id = demo_id, l_bytes = ''PNG''\<rparr>)], m_next_lease := 1\<rparr>"

definition demo_cancelled :: mgr where
  "demo_cancelled = demo_running\<lparr>m_jobs := [(demo_id, (demo_job Cancelled)\<lparr>j_subs := []\<rparr>)],
     m_run := Some \<lparr>w_id = demo_id, w_ptr = 0, w_request = demo_request, w_cancelled = True\<rparr>\<rparr>"

lemma demo_request_id: "request_id demo_lib ''b1'' demo_request = Inr demo_id"
proof -
  have "q_recipe demo_request = ''short''" "q_tier demo_request = ''preview''" by (simp_all add: demo_request_def)
  then show ?thesis
    by (simp add: request_id_def demo_request_valid demo_validate tier_def demo_id_def)
      (simp add: demo_recipe_def tier_def get_entry_simps Let_def)
qed

lemma demo_limits: "with_defaults demo_config = \<lparr>c_directory = ''cache'', c_build = ''b1'', c_queue = 8,
    c_cache_bytes = 2147483648, c_cache_count = 5000, c_max_age = 86400000000000\<rparr>"
  by (simp add: with_defaults_def demo_config_def Let_def minute_def)

lemmas demo_states = demo_idle_def empty_mgr_def demo_queued_def demo_running_def demo_ready_def demo_job_def
  demo_leased_def demo_cancelled_def demo_limits

lemma demo_prune:
  "prune demo_io 0 demo_idle = demo_idle" "prune demo_io 0 demo_running = demo_running"
  by (simp_all add: prune_def evict_while.simps over_budget_def prune_jobs_def active_def demo_states)

lemma demo_admit: "admit demo_lib demo_io 0 ''v'' [demo_request] demo_idle = (demo_queued, Inr [demo_id])"
proof -
  have b: "c_build (m_cfg demo_idle) = ''b1''" by (simp add: demo_states)
  have f: "filter_queue demo_idle = demo_idle" by (simp add: filter_queue_def demo_states)
  show ?thesis
    unfolding admit_def b demo_prune f
    by (simp add: demo_request_id Let_def) (simp add: demo_states cached_def queued_count_def owned_count_def new_job_def)
qed

lemma demo_pick: "work_pick 0 demo_queued = demo_running"
  by (simp add: work_pick_def demo_states minute_def Let_def)

lemma demo_finish: "work_finish demo_lib demo_io 0 InTime (Inr ''PNG'') demo_running = demo_ready"
proof -
  have "publish demo_lib demo_io 0 demo_id ''PNG'' demo_running
      = (install demo_lib 0 demo_id ''PNG'' demo_running, None)"
    unfolding publish_def demo_prune
    by (simp add: Let_def demo_io_def evict_while.simps crowded_def demo_states)
  then show ?thesis
    by (simp add: work_finish_def holds_job_def demo_states Let_def install_def cached_def set_state_def demo_lib_def)
qed

lemma demo_open: "open_artifact demo_io 0 demo_id demo_ready = (demo_leased, Inr (0, ''PNG''))"
  by (simp add: open_artifact_def demo_states demo_io_def)

lemma demo_cancel: "cancel ''v'' demo_id demo_running = demo_cancelled"
  by (simp add: cancel_def cancel_run_def active_def demo_states Let_def)

lemma demo_reachable: "reachable demo_lib demo_idle" "reachable demo_lib demo_queued"
  "reachable demo_lib demo_running" "reachable demo_lib demo_ready" "reachable demo_lib demo_leased"
  "reachable demo_lib demo_cancelled"
proof -
  have "new_manager demo_lib demo_io 0 demo_config True None [] (Inr []) = Inr demo_idle"
    unfolding new_manager_def demo_idle_def Let_def demo_limits reconcile_def
    by (simp add: demo_config_def config_ok_def MaxImage_def)
  then show i: "reachable demo_lib demo_idle" by (rule reach_new) (simp add: dir_agrees_def)
  from reach_step[OF i step_admit[of _ _ demo_io 0 "''v''" "[demo_request]"]] demo_admit
  show q: "reachable demo_lib demo_queued" by simp
  have "m_run demo_queued = None" by (simp add: demo_states)
  from reach_step[OF q step_pick[OF this]] demo_pick show r: "reachable demo_lib demo_running" by metis
  from reach_step[OF r step_finish] demo_finish show d: "reachable demo_lib demo_ready" by metis
  from reach_step[OF d step_open[of _ _ demo_io 0 demo_id]] demo_open show "reachable demo_lib demo_leased" by simp
  from reach_step[OF r step_cancel] demo_cancel show "reachable demo_lib demo_cancelled" by metis
qed

section \<open>Properties\<close>

text \<open>C1: every state the running manager reaches satisfies the invariant of the render manager.\<close>
theorem manager_invariant: "reachable L m \<Longrightarrow> mgr_inv L m"
  by (rule reachable_mgr_inv)

theorem manager_invariant_witness: "mgr_inv demo_lib demo_leased"
  by (rule manager_invariant[OF demo_reachable(5)])

text \<open>C19: the operational bounds.\<close>
theorem manager_bounds:
  assumes "reachable L m" "counts m = (queued, running, files, bytes)"
  shows "0 \<le> queued \<and> queued \<le> 8 \<and> 0 \<le> running \<and> running \<le> 1 \<and> files \<le> 5000 \<and> 0 \<le> bytes
    \<and> bytes \<le> c_cache_bytes (m_cfg m) \<and> owned_count owner m \<le> 4 \<and> length (m_jobs m) \<le> 5000 \<and> m_open m \<le> 64"
proof -
  have inv: "mgr_inv L m" using assms(1) by (rule reachable_mgr_inv)
  then have J: "wfm (m_jobs m)" and R: "inv_run m" and C: "inv_cache m" and K: "inv_quota m" and S: "inv_leases m"
    by (auto simp: mgr_inv_def inv_jobs_def)
  obtain x where "{k. \<exists>j. mget (m_jobs m) k = Some j \<and> j_state j = Running} \<subseteq> {x}"
    using R by (cases "m_run m") (auto simp: inv_run_def)
  from card_mono[OF _ this] have "card {k. \<exists>j. mget (m_jobs m) k = Some j \<and> j_state j = Running} \<le> 1"
    by simp
  then have "running \<le> 1" using assms(2) by (auto simp: counts_def cnt_card[OF J])
  moreover have "0 \<le> bytes"
  proof -
    have sizes: "0 \<le> a_size a" if "(i, a) \<in> set (m_artifacts m)" for i a
      using C that gm.entry_iff[of "m_artifacts m" i a] by (auto simp: inv_cache_def)
    have "bytes = tot (\<lambda>i a. a_size a) (m_artifacts m)" using C assms(2) by (simp add: inv_cache_def counts_def)
    then show ?thesis using tot_nonneg[OF sizes] by simp
  qed
  moreover have "queued \<le> 8 \<and> files \<le> 5000 \<and> bytes \<le> c_cache_bytes (m_cfg m)"
    using inv K C assms(2) by (simp add: counts_def mgr_inv_def inv_quota_def inv_cache_def config_ok_def)
  moreover have "0 \<le> queued \<and> 0 \<le> running" using assms(2) by (auto simp: counts_def queued_count_def)
  moreover have "owned_count owner m \<le> 4" using K by (simp add: inv_quota_def)
  moreover have "length (m_jobs m) \<le> 5000" using inv by (simp add: mgr_inv_def inv_jobs_def)
  moreover have "m_open m \<le> 64" using S unfolding inv_leases_def by blast
  ultimately show ?thesis by blast
qed

theorem manager_bounds_witness: "length (m_jobs demo_running) \<le> 5000 \<and> counts demo_running = (0, 1, 0, 0)"
proof -
  have c: "counts demo_running = (0, 1, 0, 0)" by (simp add: counts_def queued_count_def demo_states)
  from manager_bounds[OF demo_reachable(3) c] c show ?thesis by blast
qed

text \<open>C18: admission is all or nothing.\<close>
theorem admit_rejects_atomically:
  assumes "reachable L m" "admit L io now owner qs m = (m', Inl e)"
  shows "(m' = m \<or> m' = filter_queue (prune io now m)) \<and> mget (m_jobs m') \<subseteq>\<^sub>m mget (m_jobs m)
    \<and> (\<forall>i j. mget (m_jobs m) i = Some j \<and> active j \<longrightarrow> mget (m_jobs m') i = Some j)
    \<and> m_leases m' = m_leases m \<and> m_run m' = m_run m"
proof -
  have inv: "mgr_inv L m" using assms(1) by (rule reachable_mgr_inv)
  note st = settles_prune[OF inv, of io now]
  have "m' = m \<or> m' = filter_queue (prune io now m)"
    by (cases rule: admit_cases[OF inv assms(2)]) auto
  then show ?thesis
  proof
    assume "m' = filter_queue (prune io now m)"
    with st settles_job[OF st] show ?thesis by (simp add: settles_def)
  qed simp
qed

theorem admit_rejects_atomically_witness:
  "\<exists>m' e. admit demo_lib demo_io 0 '''' [demo_request] demo_running = (m', Inl e) \<and> m_run m' = m_run demo_running"
proof -
  have a: "admit demo_lib demo_io 0 '''' [demo_request] demo_running = (demo_running, Inl (ErrMsg ''invalid batch''))"
    by (simp add: admit_def)
  from admit_rejects_atomically[OF demo_reachable(3) a] a show ?thesis by blast
qed

text \<open>C17: an admitted batch is served, and nobody else loses anything.\<close>
theorem admit_serves:
  assumes "reachable L m" "admit L io now owner qs m = (m', Inr ids)"
  shows "map_res (request_id L (c_build (m_cfg m))) qs = Inr ids
    \<and> (\<forall>i\<in>set ids. served m' owner i) \<and> keeps_live (filter_queue (prune io now m)) m'
    \<and> m_enabled m \<and> \<not> m_stopped m \<and> m_wake m'"
proof -
  have inv: "mgr_inv L m" using assms(1) by (rule reachable_mgr_inv)
  show ?thesis
  proof (cases rule: admit_cases[OF inv assms(2)])
    case (2 ids' m2)
    with settles_prune[OF inv, of io now] show ?thesis by (simp add: settles_def)
  qed simp
qed

theorem admit_serves_witness: "served demo_queued ''v'' demo_id"
  using admit_serves[OF demo_reachable(1) demo_admit] by simp

text \<open>C4: what is leased stays: as long as a lease is open its artifact is cached, counted once per lease,
  and its file still holds the bytes that the lease reads.\<close>
theorem lease_keeps_artifact:
  assumes "reachable L m" "mget (m_leases m) n = Some l"
  shows "\<exists>a. mget (m_artifacts m) (l_id l) = Some a \<and> a_refs a = readers (l_id l) m \<and> 0 < a_refs a
    \<and> a_refs a \<le> 32 \<and> a_digest a = gl_sha256 L (l_bytes l) \<and> a_size a = int (length (l_bytes l))
    \<and> mget (m_disk m) (png_name (l_id l)) = Some (l_bytes l)"
proof -
  have inv: "mgr_inv L m" using assms(1) by (rule reachable_mgr_inv)
  then have S: "inv_leases m" and D: "inv_disk L m" by (auto simp: mgr_inv_def)
  from S assms(2) obtain a where a: "mget (m_artifacts m) (l_id l) = Some a"
    unfolding inv_leases_def cached_iff by blast
  from D assms(2) have d: "mget (m_disk m) (png_name (l_id l)) = Some (l_bytes l)" unfolding inv_disk_def by blast
  with D a have b: "a_digest a = gl_sha256 L (l_bytes l)" "a_size a = int (length (l_bytes l))"
    unfolding inv_disk_def by fastforce+
  have r: "a_refs a = readers (l_id l) m" "readers (l_id l) m \<le> 32" using S a by (auto simp: inv_leases_def)
  have "(n, l) \<in> set (m_leases m)" using assms(2) by (rule map_of_SomeD)
  then have "0 < readers (l_id l) m" by (auto simp: readers_def cnt_def filter_empty_conv intro!: Nat.gr0I)
  with a b d r show ?thesis by auto
qed

theorem lease_keeps_artifact_witness: "mget (m_disk demo_leased) (png_name demo_id) = Some ''PNG''"
  using lease_keeps_artifact[OF demo_reachable(5), of 0] by (auto simp: demo_states)

text \<open>C3: a cancelled run never publishes.\<close>
theorem cancelled_run_never_publishes:
  assumes "reachable L m" "m_run m = Some r" "w_cancelled r"
  shows "work_finish L io now late res m = m\<lparr>m_run := None\<rparr>"
  by (rule finish_lost[OF assms(2) ptr_run[OF reachable_ptr_inv[OF assms(1)] assms(2,3)]])

theorem cancelled_run_never_publishes_witness:
  "work_finish demo_lib demo_io 0 InTime (Inr ''PNG'') demo_cancelled = demo_cancelled\<lparr>m_run := None\<rparr>"
  by (rule cancelled_run_never_publishes[OF demo_reachable(6),
      of "\<lparr>w_id = demo_id, w_ptr = 0, w_request = demo_request, w_cancelled = True\<rparr>"])
    (simp_all add: demo_states)

text \<open>C31: the worker's pick.\<close>
theorem work_pick_next_up:
  "map_option w_id (m_run (work_pick now m)) = next_up now (m_last m) (m_jobs m) None (m_queue m)"
  by (cases rule: work_pick_cases[of now m]) auto

lemma cnt_none: "wfm es \<Longrightarrow> (\<And>k v. mget es k = Some v \<Longrightarrow> \<not> P k v) \<Longrightarrow> cnt P es = 0"
proof -
  assume w: "wfm es" and "\<And>k v. mget es k = Some v \<Longrightarrow> \<not> P k v"
  then show "cnt P es = 0" by (auto simp: cnt_def filter_empty_conv gm.entry_iff[OF w])
qed

lemma finish_queue: "mgr_inv L m \<Longrightarrow> m_queue (work_finish L io now late res m) = m_queue m"
  (is "_ \<Longrightarrow> ?l = _")
proof (cases "m_run m")
  case (Some r)
  assume inv: "mgr_inv L m"
  show ?thesis
  proof (cases "holds_job r m")
    case True
    then show ?thesis
      by (cases rule: finish_cases[OF inv Some True, of io now late res])
        (auto simp: settles_def install_def close_def)
  qed (simp add: finish_lost[OF Some])
qed (simp add: work_finish_def)

text \<open>C2: the worker's inner loop ends, and leaves no job queued or running.\<close>
theorem worker_drains:
  assumes "reachable L m" "m_run m = None" "length (m_queue m) < n"
  shows "\<exists>m'. work_drain L ts n m = Some m' \<and> reachable L m' \<and> m_run m' = None
    \<and> (m_stopped m' \<or> m_queue m' = [] \<and> counts m' = (0, 0, int (length (m_artifacts m')), m_bytes m'))"
  using assms
proof (induction n arbitrary: m)
  case (Suc n)
  let ?m1 = "work_pick (tn_pick (ts n)) m"
  have r1: "reachable L ?m1" using reach_step[OF Suc(2) step_pick[OF Suc(3)]] .
  note inv1 = reachable_mgr_inv[OF r1]
  show ?case
  proof (cases "m_run ?m1")
    case None
    then have q: "m_queue ?m1 = []" by (cases rule: work_pick_cases[of "tn_pick (ts n)" m]) auto
    have w: "wfm (m_jobs ?m1)" "inv_queue ?m1" "inv_run ?m1" using inv1 by (auto simp: mgr_inv_def inv_jobs_def)
    have "queued_count ?m1 = 0" unfolding queued_count_def
      using q w(2) by (intro cnt_none[OF w(1)]) (auto simp: inv_queue_def)
    moreover have "cnt (\<lambda>i j. j_state j = Running) (m_jobs ?m1) = 0"
      using no_running[OF w(3) None] by (intro cnt_none[OF w(1)])
    ultimately have "counts ?m1 = (0, 0, int (length (m_artifacts ?m1)), m_bytes ?m1)"
      by (simp add: counts_def)
    with None q r1 show ?thesis by (auto simp: Let_def)
  next
    case (Some r)
    then have q: "length (m_queue ?m1) < length (m_queue m)"
      by (cases rule: work_pick_cases[of "tn_pick (ts n)" m]) auto
    let ?m2 = "work_finish L (tn_io (ts n)) (tn_end (ts n)) (tn_late (ts n)) (tn_result (ts n)) ?m1"
    have r2: "reachable L ?m2" using reach_step[OF r1 step_finish] .
    have n2: "m_run ?m2 = None" using Some by (simp add: work_finish_def Let_def)
    have "length (m_queue ?m2) < n" using finish_queue[OF inv1] q Suc(4) by simp
    from Suc(1)[OF r2 n2 this] Some r2 n2 show ?thesis by (auto simp: Let_def)
  qed
qed simp

theorem worker_drains_witness:
  "\<exists>m'. work_drain demo_lib (\<lambda>n. \<lparr>tn_pick = 0, tn_end = 0, tn_io = demo_io, tn_late = InTime, tn_result = Inr ''PNG''\<rparr>)
      2 demo_queued = Some m' \<and> m_run m' = None"
proof -
  have "m_run demo_queued = None" "length (m_queue demo_queued) < 2" by (simp_all add: demo_states)
  from worker_drains[OF demo_reachable(2) this] show ?thesis by blast
qed

text \<open>
  The gap in \<open>work\<close>: a deadline that passes after the worker looked at its context skips \<open>publish\<close>
  without an error, and the job becomes ready with no artifact.
\<close>

lemma unseen_deadline:
  assumes "mgr_inv L m" "holds_job r m"
  shows "open_artifact io now (w_id r) ((set_state (w_id r) Ready m)\<lparr>m_run := None\<rparr>)
    = ((set_state (w_id r) Ready m)\<lparr>m_run := None\<rparr>, Inl ErrNotExist)"
proof -
  obtain j where "mget (m_jobs m) (w_id r) = Some j" "j_state j = Running" using holds_active[OF assms(2)] by blast
  then have "\<not> cached m (w_id r)" using assms(1) unfolding mgr_inv_def inv_uncached_def active_def by blast
  then show ?thesis by (simp add: open_artifact_def cached_iff)
qed

text \<open>C20: what is published is what a reader gets: when a run ends with its job ready, a reader gets the
  rendered bytes and their digest. The exception is a deadline that passes unseen, between the worker's look
  at its context and its \<open>cancel\<close>: then the job is ready and a reader finds nothing.\<close>
theorem publish_open_roundtrip:
  assumes "reachable L m" "m_run m = Some r" "holds_job r m"
    and m': "m' = work_finish L io now late (Inr b) m"
    and ready: "mget (m_jobs m') (w_id r) = Some j" "j_state j = Ready"
    and "io_open io' (png_name (w_id r)) = None" "now' - now \<le> c_max_age (m_cfg m)" "m_open m' < 64"
  shows "if late = LateUnseen then open_artifact io' now' (w_id r) m' = (m', Inl ErrNotExist)
    else \<exists>n m''. open_artifact io' now' (w_id r) m' = (m'', Inr (n, gl_sha256 L b))
      \<and> mget (m_leases m'') n = Some \<lparr>l_id = w_id r, l_bytes = b\<rparr>"
proof -
  have inv: "mgr_inv L m" using assms(1) by (rule reachable_mgr_inv)
  show ?thesis
  proof (cases rule: finish_cases[OF inv assms(2,3), of io now late "Inr b"])
    case (1 m2)
    from ready show ?thesis unfolding m' 1(4) by (auto simp: set_state_get split: if_splits)
  next
    case (2 b')
    then show ?thesis using unseen_deadline[OF inv assms(3)] by (simp add: m')
  next
    case (3 m2 b' s M)
    have cfg: "m_cfg m2 = m_cfg m" using 3(4) by (simp add: settles_def)
    have b': "b' = b" "late \<noteq> LateUnseen" using 3(1,8) by auto
    show ?thesis
      using assms(7-9) unfolding m' 3(9,10)
      by (auto simp: open_artifact_def install_def map_simps close_def cfg b' split: if_splits)
  qed
qed

theorem publish_open_roundtrip_witness:
  "\<exists>n m''. open_artifact demo_io 5 demo_id demo_ready = (m'', Inr (n, ''PNG''))"
proof -
  let ?r = "\<lparr>w_id = demo_id, w_ptr = 0, w_request = demo_request, w_cancelled = False\<rparr>"
  have pre: "m_run demo_running = Some ?r" "holds_job ?r demo_running"
    "mget (m_jobs demo_ready) (w_id ?r) = Some (demo_job Ready)" "j_state (demo_job Ready) = Ready"
    "io_open demo_io (png_name (w_id ?r)) = None" "5 - 0 \<le> c_max_age (m_cfg demo_running)" "m_open demo_ready < 64"
    by (simp_all add: demo_states holds_job_def demo_io_def)
  from publish_open_roundtrip[OF demo_reachable(3) pre(1,2) demo_finish[symmetric] pre(3-7)]
  show ?thesis by (auto simp: demo_lib_def)
qed

end
