(* ===== verification/StudioRuns.thy ===== *)
theory StudioRuns
  imports StudioRestore ManagerProps
begin

text \<open>
  The running application: the requests of \<open>internal/studio/studio.go\<close> as a step relation, composed
  with the steps of the render manager, its reachable states, and the isolation of the visitors.
\<close>

section \<open>Steps of the application\<close>

text \<open>One request of the visitor with session \<open>token\<close>.\<close>

inductive visit :: "studio_env \<Rightarrow> 'q jobs_api \<Rightarrow> string \<Rightarrow> 'q store \<Rightarrow> 'q store \<Rightarrow> bool" for E J token where
  visit_create: "token = ev_token E (so_drawn s) \<Longrightarrow> visit E J token s (fst (studio_create E J s))"
| visit_session: "visit E J token s (fst (studio_session E J token s))"
| visit_start: "visit E J token s (fst (studio_start E J token art sty col s))"
| visit_get: "visit E J token s (fst (studio_get E J token i s))"
| visit_generate: "visit E J token s (fst (studio_generate E J token i revision aid sel different s))"
| visit_enter: "visit E J token s (fst (studio_enter E J token art sty col aid s))"
| visit_favourites: "visit E J token s (fst (studio_favourites E J token s))"
| visit_choices: "visit E J token s (fst (studio_choices E J token i revision sty col s))"
| visit_retry: "visit E J token s (fst (studio_retry E J token i revision aid bid s))"
| visit_favourite: "visit E J token s (fst (studio_favourite E J token i sid revision on s))"
| visit_cancel: "visit E J token s (fst (studio_cancel E J token i revision bid s))"
| visit_download: "visit E J token s (fst (studio_download E J token i sid s))"
| visit_recovery: "visit E J token s (fst (studio_recovery E J token s))"
| visit_restore: "visit E J token s (fst (studio_restore E J token records s))"
| visit_clear: "visit E J token s (studio_clear E J token s)"

context jobs_queue begin

lemma visit_ok: "visit E J token s s' \<Longrightarrow> env_ok L tok E \<Longrightarrow> store_ok L tok good s \<Longrightarrow> store_ok L tok good s'"
  by (induction rule: visit.induct)
    (simp_all add: studio_generate_def create_ok[OF _ surjective_pairing] session_ok[OF _ surjective_pairing]
      start_ok[OF _ _ surjective_pairing] get_ok[OF _ surjective_pairing] generate_ok[OF _ _ surjective_pairing]
      enter_ok[OF _ _ surjective_pairing] favourites_ok[OF _ surjective_pairing] choices_ok[OF _ surjective_pairing]
      retry_ok[OF _ _ surjective_pairing] favourite_ok[OF _ surjective_pairing] cancel_ok[OF _ surjective_pairing]
      download_ok[OF _ surjective_pairing] recovery_ok[OF _ surjective_pairing] restore_spec(1)[OF _ _ surjective_pairing] clear_ok)

end

text \<open>
  The process: visitors, the render worker and maintenance between them, and the order in which Go
  ranges over its maps.
\<close>

inductive app_step :: "golib \<Rightarrow> (nat \<Rightarrow> string) \<Rightarrow> mgr store \<Rightarrow> mgr store \<Rightarrow> bool" for L tok where
  app_visit: "env_ok L tok E \<Longrightarrow> visit E (manager_jobs L io (ev_now E)) token s s' \<Longrightarrow> app_step L tok s s'"
| app_queue: "so_queue s = Some m \<Longrightarrow> mstep L m m' \<Longrightarrow> app_step L tok s (s\<lparr>so_queue := Some m'\<rparr>)"
| app_range: "mset ws = mset (so_workspaces s) \<Longrightarrow> app_step L tok s (s\<lparr>so_workspaces := ws\<rparr>)"
| app_range_ws: "mget (so_workspaces s) k = Some w \<Longrightarrow> mset xs = mset (ws_explorations w) \<Longrightarrow>
    app_step L tok s (put_workspace k (\<lambda>w. w\<lparr>ws_explorations := xs\<rparr>) s)"

inductive app_reachable :: "golib \<Rightarrow> (nat \<Rightarrow> string) \<Rightarrow> mgr store \<Rightarrow> bool" for L tok where
  app_new: "(\<And>m. q = Some m \<Longrightarrow> reachable L m) \<Longrightarrow> app_reachable L tok (new_store q build)"
| app_next: "app_reachable L tok s \<Longrightarrow> app_step L tok s s' \<Longrightarrow> app_reachable L tok s'"

lemma ws_ok_reorder:
  assumes "ws_ok L T w" "mset xs = mset (ws_explorations w)"
  shows "ws_ok L T (w\<lparr>ws_explorations := xs\<rparr>)" "wbytes (w\<lparr>ws_explorations := xs\<rparr>) = wbytes w"
    "count_favourites (w\<lparr>ws_explorations := xs\<rparr>) = count_favourites w"
proof -
  have wf: "wfm (ws_explorations w)" using assms(1) by (simp add: ws_ok_def)
  note g = mget_perm[OF wf assms(2)[symmetric]] wfm_perm[OF wf assms(2)[symmetric]] mset_eq_length[OF assms(2)]
  show c: "count_favourites (w\<lparr>ws_explorations := xs\<rparr>) = count_favourites w" "wbytes (w\<lparr>ws_explorations := xs\<rparr>) = wbytes w"
    by (simp_all add: count_favs wbytes_def tot_perm[OF assms(2)])
  show "ws_ok L T (w\<lparr>ws_explorations := xs\<rparr>)" using assms(1) g c by (simp add: ws_ok_def)
qed

lemma app_step_ok: "app_step L tok s s' \<Longrightarrow> store_ok L tok (mgr_inv L) s \<Longrightarrow> store_ok L tok (mgr_inv L) s'"
proof (induction rule: app_step.induct)
  case (app_visit E io token s s')
  show ?case by (rule mq.visit_ok[OF app_visit(2,1,3)])
next
  case (app_queue s m m')
  then show ?case using inv_mstep by (auto simp: store_ok_def)
next
  case (app_range ws s)
  have wf: "wfm (so_workspaces s)" using app_range by (simp add: store_ok_def studio_inv_def)
  note g = mget_perm[OF wf app_range(1)[symmetric]] wfm_perm[OF wf app_range(1)[symmetric]] mset_eq_length[OF app_range(1)]
  with app_range show ?case
    by (simp add: store_ok_def studio_inv_def recipe_bytes_ws tot_perm[OF app_range(1)])
next
  case (app_range_ws s k w xs)
  from studio_invD[OF store_okD(1)[OF app_range_ws(3)] app_range_ws(1)] have "ws_ok L (drawn tok (so_drawn s)) w" .
  note r = ws_ok_reorder[OF this app_range_ws(2)]
  show ?case
    using app_range_ws(1) r store_okD(2)[OF app_range_ws(3)] by (intro store_ok_put_workspace[OF app_range_ws(3)]) auto
qed

lemma app_reachable_ok: "app_reachable L tok s \<Longrightarrow> store_ok L tok (mgr_inv L) s"
proof (induction rule: app_reachable.induct)
  case (app_new q build)
  then show ?case
    by (auto simp: store_ok_def studio_inv_def new_store_def recipe_bytes_def intro: reachable_mgr_inv)
qed (rule app_step_ok)

section \<open>Visitors do not touch each other's workspaces\<close>

text \<open>The workspaces of everyone else stay as they are, unless they have expired.\<close>

definition left_alone :: "int \<Rightarrow> string \<Rightarrow> 'q store \<Rightarrow> 'q store \<Rightarrow> bool" where
  "left_alone now token s s' \<longleftrightarrow> so_persistent s' = so_persistent s
     \<and> (\<forall>k. k \<noteq> token \<longrightarrow> mget (so_workspaces s') k = mget (so_workspaces s) k
       \<or> mget (so_workspaces s') k = None \<and> \<not> so_persistent s
         \<and> (\<exists>w. mget (so_workspaces s) k = Some w \<and> ws_expired now w))"

lemma left_alone_refl [simp, intro]: "left_alone now token s s"
  by (simp add: left_alone_def)

lemma left_alone_trans: "left_alone now token s s1 \<Longrightarrow> left_alone now token s1 s2 \<Longrightarrow> left_alone now token s s2"
  unfolding left_alone_def by metis

lemma left_alone_queue [simp]: "left_alone now token s (s'\<lparr>so_queue := q\<rparr>) = left_alone now token s s'"
  "left_alone now token s (s'\<lparr>so_drawn := n\<rparr>) = left_alone now token s s'"
  by (simp_all add: left_alone_def)

lemma left_alone_put_workspace: "left_alone now token s s' \<Longrightarrow> left_alone now token s (put_workspace token f s')"
  by (auto simp: left_alone_def put_workspace_def map_simps split: option.splits)

lemma left_alone_put: "left_alone now token s s' \<Longrightarrow> left_alone now token s (put_exploration token i x s')"
  "left_alone now token s s' \<Longrightarrow> left_alone now token s (drop_exploration token i s')"
  "left_alone now token s s' \<Longrightarrow> left_alone now token s (add_entry token a s')"
  by (simp_all add: put_exploration_def drop_exploration_def add_entry_def left_alone_put_workspace)

lemma left_alone_prune:
  assumes "wfm (so_workspaces s)"
  shows "left_alone (ev_now E) token s (studio_prune E J s)"
proof -
  have "(\<And>k w. (k, w) \<in> set es \<Longrightarrow> mget (so_workspaces s) k = Some w) \<Longrightarrow> \<not> so_persistent s \<Longrightarrow>
      left_alone (ev_now E) token s s' \<Longrightarrow> left_alone (ev_now E) token s (prune_workspaces E J es s')" for es s'
  proof (induction es arbitrary: s')
    case (Cons e es)
    obtain k w where e: "e = (k, w)" by force
    with Cons.prems have w: "mget (so_workspaces s) k = Some w" by simp
    have "left_alone (ev_now E) token s (drop_ws k q s')" if "ws_expired (ev_now E) w" for q
      using Cons.prems(2,3) w that by (auto simp: left_alone_def map_simps)
    then show ?case unfolding e prune_workspaces_Cons using Cons by (auto intro!: Cons.IH)
  qed simp
  from this[of "so_workspaces s" s] gm.entry_iff[OF assms] show ?thesis
    by (cases "so_persistent s") (simp_all add: studio_prune_def)
qed

lemma left_alone_workspace:
  assumes "wfm (so_workspaces s)" "studio_workspace E J token s = (s1, r)"
  shows "left_alone (ev_now E) token s s1"
proof -
  note p = left_alone_prune[OF assms(1), of E token J]
  show ?thesis
    using p workspace_spec(3,7)[OF assms(2)] by (simp add: left_alone_def)
qed

lemma left_alone_find:
  "wfm (so_workspaces s) \<Longrightarrow> studio_find E J token i s = (s1, r) \<Longrightarrow> left_alone (ev_now E) token s s1"
  by (drule find_spec) (auto intro: left_alone_workspace)

lemma wfm_put_workspace: "wfm (so_workspaces s) \<Longrightarrow> wfm (so_workspaces (put_workspace k f s))"
  by (auto simp: put_workspace_def gm.wf_put split: option.splits)

lemma wfm_prune: "wfm (so_workspaces s) \<Longrightarrow> wfm (so_workspaces (studio_prune E J s))"
proof -
  have "wfm (so_workspaces s) \<Longrightarrow> wfm (so_workspaces (prune_workspaces E J es s))" for es
    by (induction es arbitrary: s) (auto simp: prune_workspaces_Cons gm.wf_del simp del: prune_workspaces.simps(2))
  then show "wfm (so_workspaces s) \<Longrightarrow> ?thesis" by (simp add: studio_prune_def)
qed

lemma wfm_workspace: "wfm (so_workspaces s) \<Longrightarrow> studio_workspace E J token s = (s1, r) \<Longrightarrow> wfm (so_workspaces s1)"
  using wfm_prune[of s E J] by (auto simp: studio_workspace_def Let_def gm.wf_put split: option.splits)

lemma wfm_find: "wfm (so_workspaces s) \<Longrightarrow> studio_find E J token i s = (s1, r) \<Longrightarrow> wfm (so_workspaces s1)"
  by (drule find_spec) (auto intro: wfm_workspace)

lemma left_alone_generate:
  assumes wf: "wfm (so_workspaces s)" and g: "generate E J token i revision aid sel different s = (s', r)"
  shows "left_alone (ev_now E) token s s'"
  using g by (cases rule: generate_cases) (use wf in \<open>auto intro!: left_alone_put intro: left_alone_find\<close>)

lemma left_alone_undo: "left_alone now token s s' \<Longrightarrow> left_alone now token s (enter_undo token i created x s')"
  by (simp add: enter_undo_def left_alone_put split: option.splits)

lemma left_alone_enter:
  assumes wf: "wfm (so_workspaces s)" and r: "studio_enter E J token art sty col aid s = (s', r)"
  shows "left_alone (ev_now E) token s s'"
  using r
proof (cases rule: enter_cases)
  case (generated s1 w x s2 s4 r4 pp)
  let ?s3 = "put_exploration token (v_id (x_view x)) (set_direction sty col x) s2"
  have s2: "s2 = s1 \<or> s2 = s1\<lparr>so_drawn := Suc (so_drawn s1)\<rparr>"
    using generated(5) by (auto simp: enter_target_def split: option.splits prod.splits)
  note w1 = wfm_workspace[OF wf generated(2)] left_alone_workspace[OF wf generated(2)]
  have 3: "left_alone (ev_now E) token s ?s3" using s2 w1(2) by (auto intro: left_alone_put)
  have "wfm (so_workspaces ?s3)"
    using s2 w1(1) by (auto simp: put_exploration_def intro: wfm_put_workspace)
  from left_alone_trans[OF 3 left_alone_generate[OF this generated(6)]] have "left_alone (ev_now E) token s s4" .
  then show ?thesis using generated(7) by (cases r4) (auto intro: left_alone_undo left_alone_put)
qed (use wf in \<open>auto intro: left_alone_workspace\<close>)

lemma left_alone_append: "left_alone now token s0 s \<Longrightarrow> left_alone now token s0 (append_sample token i a s)"
  by (auto simp: append_sample_def intro: left_alone_put split: option.splits)

lemma left_alone_restore_samples:
  "left_alone now token s0 s \<Longrightarrow> left_alone now token s0 (fst (restore_samples E token rs by_art first s))"
proof (induction rs arbitrary: by_art first s)
  case (Cons r rs)
  have "left_alone now token s0 (append_sample token i a (s\<lparr>so_drawn := n\<rparr>))"
    "left_alone now token s0 (append_sample token i a (put_exploration token j x (s\<lparr>so_drawn := n\<rparr>)))" for i a j x n
    using Cons.prems by (auto intro!: left_alone_append left_alone_put)
  with Cons.IH show ?case by (simp add: Let_def split: option.splits)
qed simp

lemma left_alone_retry:
  assumes wf: "wfm (so_workspaces s)" and r: "studio_retry E J token i revision aid bid s = (s', r)"
  shows "left_alone (ev_now E) token s s'"
proof -
  obtain s1 rx where f: "studio_find E J token i s = (s1, rx)" by force
  note s1 = left_alone_find[OF wf f]
  show ?thesis
  proof (cases "s' = s1")
    case False
    with r f obtain sel where "generate E J token i revision aid sel False s1 = (s', r)"
      by (auto simp: studio_retry_def Let_def split: sum.splits option.splits if_splits)
    from left_alone_trans[OF s1 left_alone_generate[OF wfm_find[OF wf f] this]] show ?thesis .
  qed (use s1 in simp)
qed

text \<open>The operations that look an exploration up and write it back.\<close>

lemma left_alone_found:
  assumes "wfm (so_workspaces s)" "studio_find E J token i s = (s1, r)"
    "s' = s1 \<or> (\<exists>q x. s' = s1\<lparr>so_queue := q\<rparr> \<or> s' = put_exploration token i x (s1\<lparr>so_queue := q\<rparr>))"
  shows "left_alone (ev_now E) token s s'"
  using assms(3) left_alone_find[OF assms(1,2)] by (auto intro: left_alone_put)

lemma put_no_queue: "put_exploration token i x s = put_exploration token i x (s\<lparr>so_queue := so_queue s\<rparr>)"
  by simp

lemma left_alone_edits:
  assumes wf: "wfm (so_workspaces s)"
  shows "left_alone (ev_now E) token s (fst (studio_choices E J token i revision sty col s))"
    and "left_alone (ev_now E) token s (fst (studio_favourite E J token i sid revision on s))"
    and "left_alone (ev_now E) token s (fst (studio_cancel E J token i revision bid s))"
    and "left_alone (ev_now E) token s (fst (studio_download E J token i sid s))"
proof -
  obtain s1 rx where f: "studio_find E J token i s = (s1, rx)" by force
  note a = left_alone_find[OF wf f]
  show "left_alone (ev_now E) token s (fst (studio_choices E J token i revision sty col s))"
    using f a by (cases rx) (auto simp: studio_choices_def intro: left_alone_put split: sum.splits)
  show "left_alone (ev_now E) token s (fst (studio_favourite E J token i sid revision on s))"
    using f a by (cases rx) (auto simp: studio_favourite_def Let_def intro: left_alone_put split: option.splits)
  show "left_alone (ev_now E) token s (fst (studio_cancel E J token i revision bid s))"
    using f a by (cases rx) (auto simp: studio_cancel_def Let_def intro!: left_alone_put split: prod.splits)
  show "left_alone (ev_now E) token s (fst (studio_download E J token i sid s))"
    using f a by (cases rx) (auto simp: studio_download_def Let_def intro!: left_alone_put split: prod.splits option.splits sum.splits)
qed

lemma left_alone_visit:
  assumes "visit E J token s s'" "wfm (so_workspaces s)"
  shows "left_alone (ev_now E) token s s'"
  using assms
proof (induction rule: visit.induct)
  case (visit_create s)
  then show ?case
    using left_alone_prune[of s E token J]
    by (auto simp: studio_create_def Let_def left_alone_def map_simps)
next
  case (visit_start s art sty col)
  obtain s1 rw where "studio_workspace E J token s = (s1, rw)" by force
  with left_alone_workspace[OF visit_start this] show ?case
    by (auto simp: studio_start_def Let_def intro!: left_alone_put split: sum.splits)
next
  case (visit_restore s records)
  obtain s1 rw where "studio_workspace E J token s = (s1, rw)" by force
  with left_alone_workspace[OF visit_restore this] left_alone_restore_samples[of "ev_now E" token s s1 E _ "[]" "''''"]
  show ?case
    by (auto simp: studio_restore_def Let_def split: sum.splits prod.splits) (metis fst_conv)+
next
  case (visit_clear s)
  have "left_alone (ev_now E) token s (put_workspace token (\<lambda>w. w\<lparr>ws_touched := zero_time\<rparr>) s)"
    by (rule left_alone_put_workspace) simp
  then show ?case
    unfolding studio_clear_def
    by (rule left_alone_trans) (rule left_alone_prune[OF wfm_put_workspace[OF visit_clear]])
qed (auto simp: studio_session_def studio_get_def studio_favourites_def studio_recovery_def studio_generate_def
    intro: left_alone_workspace left_alone_find left_alone_generate left_alone_enter left_alone_retry left_alone_edits
      surjective_pairing[THEN left_alone_generate[rotated]] surjective_pairing[THEN left_alone_enter[rotated]]
      surjective_pairing[THEN left_alone_retry[rotated]]
    split: prod.splits sum.splits)

end
