(* ===== verification/Server.thy ===== *)
theory Server
  imports WebRules StudioRuns
begin

text \<open>
  The server with the studio in memory: the handlers in flight of \<open>internal/web\<close> over one store, one
  limiter and the counting channels. Any handler may move next, one call at a time, and the render worker
  moves in between.
\<close>

record server =
  sv_store :: "mgr store"
  sv_keys :: buckets
  sv_taken :: "slot \<Rightarrow> int"
  sv_handlers :: "handler list"

text \<open>The capacities of the channels that \<open>New\<close> makes.\<close>

fun capacity :: "web_app \<Rightarrow> slot \<Rightarrow> int" where
  "capacity C Active = 128"
| "capacity C Streams = 32"
| "capacity C Images = p_image_readers (wc_limits C)"
| "capacity C (ImageBytes n) = p_image_buffer (wc_limits C) * 2 ^ 20"

definition on_store :: "(mgr store \<Rightarrow> mgr store) \<Rightarrow> server \<Rightarrow> server" where
  "on_store f S = S\<lparr>sv_store := f (sv_store S)\<rparr>"

definition on_queue :: "(mgr \<Rightarrow> mgr) \<Rightarrow> server \<Rightarrow> server" where
  "on_queue f = on_store (\<lambda>s. s\<lparr>so_queue := map_option f (so_queue s)\<rparr>)"

definition take_slot :: "slot \<Rightarrow> int \<Rightarrow> server \<Rightarrow> server" where
  "take_slot s n S = S\<lparr>sv_taken := (sv_taken S)(s := sv_taken S s + n)\<rparr>"

section \<open>One call\<close>

text \<open>The calls that answer with an error or nothing, a pair of token and secret, or an identifier.\<close>

fun done_answer :: "studio_env \<Rightarrow> mgr jobs_api \<Rightarrow> done_call \<Rightarrow> mgr store \<Rightarrow> (mgr store \<times> err option) option" where
  "done_answer E J (CallChoices t i n sty col) s = Some (studio_choices E J t i n sty col s)"
| "done_answer E J (CallFavourite t i sid n on) s = Some (studio_favourite E J t i sid n on s)"
| "done_answer E J (CallCancel t i n bid) s = Some (studio_cancel E J t i n bid s)"
| "done_answer E J (CallDownload t i sid) s = Some (studio_download E J t i sid s)"
| "done_answer E J (CallClear t) s = Some (studio_clear E J t s, None)"
| "done_answer E J _ s = None"

fun pair_answer :: "studio_env \<Rightarrow> mgr jobs_api \<Rightarrow> pair_call \<Rightarrow> mgr store \<Rightarrow> mgr store \<times> (string \<times> string) res" where
  "pair_answer E J CallCreate s = studio_create E J s"
| "pair_answer E J (CallSession t) s = studio_session E J t s"

fun text_answer :: "studio_env \<Rightarrow> mgr jobs_api \<Rightarrow> text_call \<Rightarrow> mgr store \<Rightarrow> mgr store \<times> string res" where
  "text_answer E J (CallEnter t art sty col aid) s = studio_enter E J t art sty col aid s"
| "text_answer E J (CallRestore t recipes) s = studio_restore E J t recipes s"
| "text_answer E J (CallRetry t i n aid bid) s = studio_retry E J t i n aid bid s"
| "text_answer E J (CallGenerate t i n aid sel different) s = studio_generate E J t i n aid sel different s"

fun given_back :: "give_back \<Rightarrow> server \<Rightarrow> server" where
  "given_back (Release s) S = take_slot s (- 1) S"
| "given_back (CloseFile n) S = on_queue (close_lease n) S"

text \<open>
  \<open>moves E io C S p S' p'\<close>: the next call of \<open>p\<close>, made in \<open>S\<close>. Whether a file can be examined and whether an
  event reaches the client is up to the system and the network.
\<close>

inductive moves :: "studio_env \<Rightarrow> sysio \<Rightarrow> web_app \<Rightarrow> server \<Rightarrow> handler \<Rightarrow> server \<Rightarrow> handler \<Rightarrow> bool" for E io C where
  moves_done: "done_answer E (manager_jobs (ev_lib E) io (ev_now E)) c (sv_store S) = Some (s, a) \<Longrightarrow>
    moves E io C S (AskDone c k) (on_store (\<lambda>_. s) S) (k a)"
| moves_pair: "pair_answer E (manager_jobs (ev_lib E) io (ev_now E)) p (sv_store S) = (s, b) \<Longrightarrow>
    moves E io C S (AskPair p f) (on_store (\<lambda>_. s) S) (f b)"
| moves_text: "text_answer E (manager_jobs (ev_lib E) io (ev_now E)) u (sv_store S) = (s, x) \<Longrightarrow>
    moves E io C S (AskText u g) (on_store (\<lambda>_. s) S) (g x)"
| moves_view: "studio_get E (manager_jobs (ev_lib E) io (ev_now E)) t i (sv_store S) = (s, v) \<Longrightarrow>
    moves E io C S (AskView t i kv) (on_store (\<lambda>_. s) S) (kv v)"
| moves_favourites: "studio_favourites E (manager_jobs (ev_lib E) io (ev_now E)) t (sv_store S) = (s, fs) \<Longrightarrow>
    moves E io C S (AskFavourites t kf) (on_store (\<lambda>_. s) S) (kf fs)"
| moves_recovery: "studio_recovery E (manager_jobs (ev_lib E) io (ev_now E)) t (sv_store S) = (s, rs) \<Longrightarrow>
    moves E io C S (AskRecovery t kr) (on_store (\<lambda>_. s) S) (kr rs)"
| moves_rate: "allow_rate (ev_now E) key r (sv_keys S) = (keys, ok) \<Longrightarrow>
    moves E io C S (AskRate key r kb) (S\<lparr>sv_keys := keys\<rparr>) (kb ok)"
| moves_slot: "sl = Active \<or> sl = Streams \<Longrightarrow> ok = (sv_taken S sl < capacity C sl) \<Longrightarrow>
    moves E io C S (AskSlot sl n kb) (if ok then take_slot sl 1 S else S) (kb ok)"
| moves_open: "so_queue (sv_store S) = Some m \<Longrightarrow> open_artifact io (ev_now E) i m = (m', fl) \<Longrightarrow>
    moves E io C S (AskOpen i ko) (on_queue (\<lambda>_. m') S) (ko fl)"
| moves_no_jobs: "so_queue (sv_store S) = None \<Longrightarrow> moves E io C S (AskOpen i ko) S (ko (Inl ErrNotExist))"
| moves_stat: "moves E io C S (AskStat l kb) S (kb ok)"
| moves_send: "moves E io C S (AskSend ev kb) S (kb ok)"
| moves_tell: "moves E io C S (Tell g q) (given_back g S) q"

section \<open>The process\<close>

inductive server_step :: "weblib \<Rightarrow> golib \<Rightarrow> (nat \<Rightarrow> string) \<Rightarrow> web_app \<Rightarrow> server \<Rightarrow> server \<Rightarrow> bool" for W L tok C where
  server_accept: "server_step W L tok C S (S\<lparr>sv_handlers := sv_handlers S @ [serve_http W C rq]\<rparr>)"
| server_move: "env_ok L tok E \<Longrightarrow> j < length (sv_handlers S) \<Longrightarrow> moves E io C S (sv_handlers S ! j) S' p \<Longrightarrow>
    server_step W L tok C S (S'\<lparr>sv_handlers := (sv_handlers S)[j := p]\<rparr>)"
| server_reply: "sv_handlers S = ps @ Reply r # qs \<Longrightarrow> server_step W L tok C S (S\<lparr>sv_handlers := ps @ qs\<rparr>)"
| server_studio: "app_step L tok (sv_store S) s \<Longrightarrow> server_step W L tok C S (on_store (\<lambda>_. s) S)"

inductive server_reachable :: "weblib \<Rightarrow> golib \<Rightarrow> (nat \<Rightarrow> string) \<Rightarrow> web_app \<Rightarrow> server \<Rightarrow> bool" for W L tok C where
  server_new: "(\<And>m. q = Some m \<Longrightarrow> reachable L m) \<Longrightarrow> server_reachable W L tok C
    \<lparr>sv_store = new_store q build, sv_keys = [], sv_taken = (\<lambda>s. 0), sv_handlers = []\<rparr>"
| server_next: "server_reachable W L tok C S \<Longrightarrow> server_step W L tok C S S' \<Longrightarrow> server_reachable W L tok C S'"

section \<open>Every move is a step of the application\<close>

lemma on_store_simps [simp]:
  "sv_store (on_store f S) = f (sv_store S)" "sv_keys (on_store f S) = sv_keys S"
  "sv_taken (on_store f S) = sv_taken S" "sv_handlers (on_store f S) = sv_handlers S"
  "sv_store (take_slot sl n S) = sv_store S" "sv_keys (take_slot sl n S) = sv_keys S"
  "sv_taken (take_slot sl n S) sl' = sv_taken S sl' + (if sl' = sl then n else 0)"
  "sv_handlers (take_slot sl n S) = sv_handlers S"
  by (simp_all add: on_store_def take_slot_def)

lemmas on_queue_simps [simp] = on_queue_def

definition stays :: "golib \<Rightarrow> (nat \<Rightarrow> string) \<Rightarrow> mgr store \<Rightarrow> mgr store \<Rightarrow> bool" where
  "stays L tok s s' \<longleftrightarrow> s' = s \<or> app_step L tok s s'"

lemma stays_visit: "env_ok L tok E \<Longrightarrow> visit E (manager_jobs (ev_lib E) io (ev_now E)) t s s' \<Longrightarrow> stays L tok s s'"
  using app_visit[of L tok E io t s s'] by (simp add: stays_def env_okD)

lemma stays_queue: "(\<And>m. so_queue s = Some m \<Longrightarrow> mstep L m (f m)) \<Longrightarrow>
    stays L tok s (s\<lparr>so_queue := map_option f (so_queue s)\<rparr>)"
  by (cases "so_queue s") (auto simp: stays_def intro: app_queue)

lemma done_answer_stays: "env_ok L tok E \<Longrightarrow> done_answer E (manager_jobs (ev_lib E) io (ev_now E)) c s = Some (s', a) \<Longrightarrow>
    stays L tok s s'"
  by (cases c) (auto simp: prod_eq_iff intro!: stays_visit
    intro: visit_choices visit_favourite visit_cancel visit_download visit_clear)

lemma pair_answer_stays: "env_ok L tok E \<Longrightarrow> pair_answer E (manager_jobs (ev_lib E) io (ev_now E)) p s = (s', b) \<Longrightarrow>
    stays L tok s s'"
  by (cases p) (auto simp: prod_eq_iff intro!: stays_visit intro: visit_session visit_create[OF refl])

lemma text_answer_stays: "env_ok L tok E \<Longrightarrow> text_answer E (manager_jobs (ev_lib E) io (ev_now E)) u s = (s', x) \<Longrightarrow>
    stays L tok s s'"
  by (cases u) (auto simp: prod_eq_iff intro!: stays_visit intro: visit_enter visit_restore visit_retry visit_generate)

lemma moves_stays:
  assumes "moves E io C S p S' p'" "env_ok L tok E"
  shows "stays L tok (sv_store S) (sv_store S')"
  using assms
proof (induction rule: moves.induct)
  case (moves_view t i S s v kv)
  then show ?case using stays_visit[OF _ visit_get] by (auto simp: prod_eq_iff)
next
  case (moves_favourites t S s fs kf)
  then show ?case using stays_visit[OF _ visit_favourites] by (auto simp: prod_eq_iff)
next
  case (moves_recovery t S s rs kr)
  then show ?case using stays_visit[OF _ visit_recovery] by (auto simp: prod_eq_iff)
next
  case (moves_open S m i m' fl ko)
  have "mstep L m m'" using step_open[of L m io "ev_now E" i] moves_open(2) by simp
  then show ?case using moves_open(1) stays_queue[of "sv_store S" L "\<lambda>_. m'"] by simp
next
  case (moves_tell S g q)
  then show ?case by (cases g) (auto simp: stays_def[of L tok "sv_store S" "sv_store S"] intro!: stays_queue step_release)
qed (auto simp: stays_def[of L tok "sv_store _" "sv_store _"] intro: done_answer_stays pair_answer_stays text_answer_stays)

section \<open>Limits and slots\<close>

lemma limiter_size:
  assumes "wfm keys" "length keys \<le> 10000" "allow_rate now key r keys = (keys', ok)"
  shows "wfm keys' \<and> length keys' \<le> 10000"
proof -
  have take: "wfm ks' \<and> length ks' \<le> 10000" if "wfm ks" "length ks < 10000 \<or> mget ks key \<noteq> None \<and> length ks \<le> 10000"
    "limiter_take now key per burst b ks = (ks', ok')" for per burst b ks ks' ok'
  proof -
    have "length (mput key v ks) \<le> 10000" for v
      using gm.size_put[OF that(1), of key v] that(2) by (auto split: if_splits)
    then show ?thesis using that by (auto simp: limiter_take_def Let_def gm.wf_put)
  qed
  let ?keys = "filter (\<lambda>(k, v). \<not> time_sub now (bk_at v) > 5 * minute) keys"
  have "wfm ?keys" "length ?keys \<le> 10000" using assms wfm_filter le_trans[OF length_filter_le assms(2)] by blast+
  with assms show ?thesis
    by (auto simp: allow_rate_def limiter_allow_def Let_def not_le elim!: take[rotated -1] split: option.splits if_splits)
qed

lemma moves_keys: "moves E io C S p S' p' \<Longrightarrow> wfm (sv_keys S) \<and> length (sv_keys S) \<le> 10000 \<Longrightarrow>
    wfm (sv_keys S') \<and> length (sv_keys S') \<le> 10000"
proof (induction rule: moves.induct)
  case (moves_rate key r S keys ok kb)
  then show ?case using limiter_size[OF _ _ moves_rate(1)] by simp
next
  case (moves_tell S g q)
  then show ?case by (cases g) simp_all
qed (simp_all add: on_store_def take_slot_def)

lemma moves_capacity: "moves E io C S p S' p' \<Longrightarrow> sl = Active \<or> sl = Streams \<Longrightarrow> sv_taken S sl \<le> capacity C sl \<Longrightarrow>
    sv_taken S' sl \<le> capacity C sl"
proof (induction rule: moves.induct)
  case (moves_tell S g q)
  then show ?case by (cases g) auto
qed auto

text \<open>A move is an event of the handler, and changes the channels by what the event grants or gives back.\<close>

lemma moves_behaves:
  assumes "moves E io C S p S' p'" "behaves W C rq b p h"
  shows "\<exists>e. behaves W C rq b p' (h @ [e]) \<and> (\<forall>sl. sv_taken S' sl = sv_taken S sl + change (Release sl) e)"
  using assms
proof (induction rule: moves.induct)
  case (moves_done c S s a k)
  then show ?case by (intro exI[of _ "EvDone c a"]) (simp add: behaves_asks)
next
  case (moves_pair p S s b f)
  then show ?case by (intro exI[of _ "EvPair p b"]) (simp add: behaves_asks)
next
  case (moves_text u S s x g)
  then show ?case by (intro exI[of _ "EvText u x"]) (simp add: behaves_asks)
next
  case (moves_view t i S s v kv)
  then show ?case by (intro exI[of _ "EvView t i v"]) (simp add: behaves_asks)
next
  case (moves_favourites t S s fs kf)
  then show ?case by (intro exI[of _ "EvFavourites t fs"]) (simp add: behaves_asks)
next
  case (moves_recovery t S s rs kr)
  then show ?case by (intro exI[of _ "EvRecovery t rs"]) (simp add: behaves_asks)
next
  case (moves_rate key r S keys ok kb)
  then show ?case by (intro exI[of _ "EvRate key r ok"]) (simp add: behaves_asks)
next
  case (moves_slot sl ok S n kb)
  then show ?case by (intro exI[of _ "EvSlot sl n ok"]) (simp add: behaves_asks)
next
  case (moves_open S m i m' fl ko)
  have "change (Release sl) (EvOpen i fl) = 0" for sl by (cases fl) auto
  with moves_open show ?case by (intro exI[of _ "EvOpen i fl"]) (simp add: behaves_asks)
next
  case (moves_no_jobs S i ko)
  then show ?case by (intro exI[of _ "EvOpen i (Inl ErrNotExist)"]) (simp add: behaves_asks)
next
  case (moves_stat S l kb ok)
  then show ?case by (intro exI[of _ "EvStat l ok"]) (simp add: behaves_asks)
next
  case (moves_send S ev kb ok)
  then show ?case by (intro exI[of _ "EvSend ev ok"]) (simp add: behaves_asks)
next
  case (moves_tell S g q)
  then show ?case by (intro exI[of _ "EvGive g"], cases g) (auto simp: behaves_asks)
qed

text \<open>No handler waits for a part that this server does not have.\<close>

lemma progress:
  assumes "behaves W C rq b p h" and "\<not> wc_database C" "\<not> wc_persistent C"
  shows "(\<exists>r. p = Reply r) \<or> (\<exists>S' p'. moves E io C S p S' p')"
proof (cases p)
  case (AskDone c k)
  have "provided C (EvDone c a)" for a using assms(1) by (auto simp: AskDone behaves_asks rightful_def)
  then have "done_answer E J c s \<noteq> None" for J s using assms(2,3) by (cases c) auto
  then obtain s a where "done_answer E (manager_jobs (ev_lib E) io (ev_now E)) c (sv_store S) = Some (s, a)" by fastforce
  then show ?thesis using AskDone by (blast intro: moves_done)
next
  case (AskSlot sl n kb)
  have "sl = Active \<or> sl = Streams" using assms(1,2) by (auto simp: AskSlot behaves_asks)
  then show ?thesis using AskSlot moves_slot[OF _ refl] by blast
next
  case (AskOpen i ko)
  then show ?thesis
    by (cases "so_queue (sv_store S)") (blast intro: moves_no_jobs moves_open[OF _ surjective_pairing])+
qed (use assms(1,2) in \<open>auto simp: behaves_asks intro: moves.intros moves_pair[OF surjective_pairing] moves_text[OF surjective_pairing]
    moves_view[OF surjective_pairing] moves_favourites[OF surjective_pairing] moves_recovery[OF surjective_pairing]
    moves_rate[OF surjective_pairing]\<close>)

end
