(* ===== verification/StudioSession.thy ===== *)
theory StudioSession
  imports StudioRuns
begin

text \<open>
  What the requests of \<open>internal/studio/studio.go\<close> leave unchanged when they are refused, and a
  demonstration session that the witnesses use.
\<close>

section \<open>What a visitor's own request leaves unchanged\<close>

lemma prune_keeps:
  assumes wf: "wfm (so_workspaces s)"
  shows "mget (so_workspaces (studio_prune E J s)) k = (case mget (so_workspaces s) k of None \<Rightarrow> None
    | Some w \<Rightarrow> if \<not> so_persistent s \<and> ws_expired (ev_now E) w then None else Some w)"
proof -
  have loop: "wfm es \<Longrightarrow> (\<And>k' w. (k', w) \<in> set es \<Longrightarrow> mget (so_workspaces s) k' = Some w) \<Longrightarrow>
      mget (so_workspaces (prune_workspaces E J es s)) k = (case mget es k of
        Some w \<Rightarrow> if ws_expired (ev_now E) w then None else mget (so_workspaces s) k
      | None \<Rightarrow> mget (so_workspaces s) k)" for es s
  proof (induction es arbitrary: s)
    case (Cons e es)
    obtain k' w where e: "e = (k', w)" by force
    have d: "k' \<notin> fst ` set es" "wfm es" using Cons.prems(1) e by (simp_all add: wfm_def)
    let ?s = "if ws_expired (ev_now E) w then drop_ws k' (map_option (cancel_workspace J k' w) (so_queue s)) s else s"
    have "mget (so_workspaces ?s) k'' = Some w'" if "(k'', w') \<in> set es" for k'' w'
    proof -
      have "k'' \<noteq> k'" using d(1) that by force
      then show ?thesis using Cons.prems(2)[of k'' w'] that by (simp add: map_simps)
    qed
    from Cons.IH[OF d(2) this] have IH: "mget (so_workspaces (prune_workspaces E J es ?s)) k = (case mget es k of
        Some w \<Rightarrow> if ws_expired (ev_now E) w then None else mget (so_workspaces ?s) k
      | None \<Rightarrow> mget (so_workspaces ?s) k)" .
    have n: "mget es k' = None" using d(1) gm.keys_eq[OF d(2)] by (auto simp: domIff)
    have "mget (e # es) k = (if k = k' then Some w else mget es k)" unfolding e by simp
    with IH n show ?case
      unfolding e prune_workspaces_Cons by (auto simp: map_simps split: option.splits)
  qed simp
  from loop[OF wf] gm.entry_iff[OF wf] show ?thesis
    by (auto simp: studio_prune_def split: option.splits)
qed

definition live :: "int \<Rightarrow> string \<Rightarrow> 'q store \<Rightarrow> bool" where
  "live now token s \<longleftrightarrow> (\<exists>w. mget (so_workspaces s) token = Some w \<and> (so_persistent s \<or> \<not> ws_expired now w))"

lemma workspace_outcome:
  assumes wf: "wfm (so_workspaces s)" and r: "studio_workspace E J token s = (s1, r)"
  shows "case r of Inl e \<Rightarrow> e = ErrExpired \<and> mget (so_workspaces s1) token = None \<and> \<not> live (ev_now E) token s
      | Inr w \<Rightarrow> mget (so_workspaces s1) token = Some w \<and> (\<exists>w0. mget (so_workspaces s) token = Some w0
          \<and> w = w0\<lparr>ws_touched := ev_now E\<rparr> \<and> (so_persistent s \<or> \<not> ws_expired (ev_now E) w0))"
  using r prune_keeps[OF wf, of E J token]
  by (auto simp: studio_workspace_def Let_def map_simps live_def split: option.splits if_splits)

lemma workspace_live:
  assumes "wfm (so_workspaces s)" "studio_workspace E J token s = (s1, Inr w)"
  shows "live (ev_now E) token s1"
  using workspace_outcome[OF assms] workspace_spec(3)[OF assms(2)]
  by (auto simp: live_def ws_expired_def minute_def)

text \<open>The visitor's session and its explorations are as before, or the session had expired and is gone.\<close>

definition unchanged :: "int \<Rightarrow> string \<Rightarrow> 'q store \<Rightarrow> 'q store \<Rightarrow> bool" where
  "unchanged now token s s' \<longleftrightarrow> (\<forall>i. exploration_of s' token i = exploration_of s token i)
       \<and> (mget (so_workspaces s') token = None \<longleftrightarrow> mget (so_workspaces s) token = None)
     \<or> mget (so_workspaces s') token = None \<and> \<not> live now token s"

lemma workspace_unchanged:
  assumes "wfm (so_workspaces s)" "studio_workspace E J token s = (s1, Inr w)"
  shows "exploration_of s1 token i = exploration_of s token i" "ws_explorations w = (case mget (so_workspaces s) token of
    None \<Rightarrow> [] | Some w0 \<Rightarrow> ws_explorations w0)" "live (ev_now E) token s"
    "ws_entries w = (case mget (so_workspaces s) token of None \<Rightarrow> [] | Some w0 \<Rightarrow> ws_entries w0)"
  using workspace_outcome[OF assms] by (auto simp: exploration_of_def live_def)

lemma find_outcome:
  assumes wf: "wfm (so_workspaces s)" and r: "studio_find E J token i s = (s1, r)"
  shows "unchanged (ev_now E) token s s1"
    and "r = Inr x \<Longrightarrow> exploration_of s token i = Some x \<and> live (ev_now E) token s
      \<and> (\<forall>j. exploration_of s1 token j = exploration_of s token j)"
    and "r = Inl e \<Longrightarrow> e = ErrExpired \<and> (live (ev_now E) token s \<longrightarrow> exploration_of s token i = None)"
proof -
  obtain rw where w: "studio_workspace E J token s = (s1, rw)"
    "\<And>x. r = Inr x \<Longrightarrow> \<exists>w. rw = Inr w \<and> mget (ws_explorations w) i = Some x" using find_spec[OF r] by auto
  note o = workspace_outcome[OF wf w(1)]
  show "unchanged (ev_now E) token s s1"
    using o workspace_unchanged(1)[OF wf, of E J token s1] w(1) by (cases rw) (auto simp: unchanged_def)
  show "exploration_of s token i = Some x \<and> live (ev_now E) token s \<and> (\<forall>j. exploration_of s1 token j = exploration_of s token j)"
    if rx: "r = Inr x"
  proof -
    from w(2)[OF rx] obtain wk where wk: "rw = Inr wk" "mget (ws_explorations wk) i = Some x" by blast
    from workspace_unchanged[OF wf w(1)[unfolded wk(1)]] wk(2) show ?thesis
      by (auto simp: exploration_of_def split: option.splits)
  qed
  show "e = ErrExpired \<and> (live (ev_now E) token s \<longrightarrow> exploration_of s token i = None)" if "r = Inl e"
  proof (cases rw)
    case (Inl e')
    with that r w(1) o show ?thesis by (auto simp: studio_find_def)
  next
    case (Inr wk)
    from workspace_unchanged[OF wf w(1)[unfolded Inr]] that r w(1) Inr o show ?thesis
      by (auto simp: studio_find_def exploration_of_def split: option.splits)
  qed
qed

lemma unchanged_refl [simp]: "unchanged now token s s"
  by (simp add: unchanged_def)

lemma unchanged_queue [simp]: "unchanged now token s (s'\<lparr>so_queue := q\<rparr>) = unchanged now token s s'"
  "unchanged now token (s\<lparr>so_queue := q\<rparr>) s' = unchanged now token s s'"
  "unchanged now token s (s'\<lparr>so_drawn := n\<rparr>) = unchanged now token s s'"
  by (simp_all add: unchanged_def exploration_of_def live_def)

lemma store_ok_wfm: "store_ok L tok good s \<Longrightarrow> wfm (so_workspaces s)"
  by (simp add: store_ok_def studio_inv_def)

lemma generate_error_unchanged:
  assumes wf: "wfm (so_workspaces s)" and g: "generate E J token i revision aid sel different s = (s', Inl e)"
  shows "unchanged (ev_now E) token s s'"
  using g by (cases rule: generate_cases) (use wf find_outcome(1) in \<open>auto\<close>)

section \<open>A demonstration session\<close>

definition demo_tok :: "nat \<Rightarrow> string" where
  "demo_tok n = replicate (Suc n) CHR ''t''"

definition demo_env :: "int \<Rightarrow> studio_env" where
  "demo_env now = \<lparr>ev_lib = demo_lib, ev_now = now, ev_token = demo_tok, ev_entropy = Inr 1,
     ev_digest = \<lambda>revision sel different. ''d''\<rparr>"

definition demo_jobs :: "int \<Rightarrow> mgr jobs_api" where
  "demo_jobs now = manager_jobs demo_lib demo_io now"

lemma demo_env_ok: "env_ok demo_lib demo_tok (demo_env now)"
proof -
  have "inj demo_tok"
  proof (rule injI)
    fix m n assume "demo_tok m = demo_tok n"
    then have "length (demo_tok m) = length (demo_tok n)" by simp
    then show "m = n" by (simp add: demo_tok_def)
  qed
  then show ?thesis using demo_faithful by (simp add: env_ok_def demo_env_def)
qed

lemma demo_env_simps [simp]:
  "ev_lib (demo_env now) = demo_lib" "ev_now (demo_env now) = now" "ev_token (demo_env now) = demo_tok"
  "ev_digest (demo_env now) revision sel different = ''d''"
  by (simp_all add: demo_env_def)

lemma demo_tok_eq [simp]: "(demo_tok m = demo_tok n) = (m = n)"
  using env_okD(4)[OF demo_env_ok[of 0]] by (simp add: inj_eq)

text \<open>A session that restored one favourite.\<close>

definition demo_sample :: sample where
  "demo_sample = restored_sample (demo_tok 3) (demo_recipe demo_traits)"

definition demo_exploration :: exploration where
  "demo_exploration = with_samples [demo_sample] (new_exploration (demo_tok 2) ''iris'' '''' '''')"

definition demo_workspace :: workspace where
  "demo_workspace = \<lparr>ws_token = demo_tok 0, ws_csrf = demo_tok 1, ws_created = 0, ws_touched = 0,
     ws_explorations = [(demo_tok 2, demo_exploration)], ws_entries = []\<rparr>"

definition demo_store :: "mgr store" where
  "demo_store = \<lparr>so_workspaces = [(demo_tok 0, demo_workspace)], so_queue = Some demo_idle, so_build = ''b1'',
     so_persistent = False, so_drawn = 4\<rparr>"

definition demo_created :: "mgr store" where
  "demo_created = \<lparr>so_workspaces = [(demo_tok 0, demo_workspace\<lparr>ws_explorations := []\<rparr>)], so_queue = Some demo_idle,
     so_build = ''b1'', so_persistent = False, so_drawn = 2\<rparr>"

lemma demo_create: "studio_create (demo_env 0) J (new_store (Some demo_idle) ''b1'') = (demo_created, Inr (demo_tok 0, demo_tok 1))"
  by (simp add: studio_create_def new_store_def studio_prune_def demo_created_def demo_workspace_def numeral_eq_Suc)

lemma demo_expired [simp]: "ws_touched w = 0 \<Longrightarrow> ws_created w = 0 \<Longrightarrow> ws_expired 0 w = False"
  by (simp add: ws_expired_def minute_def)

lemma demo_restore: "studio_restore (demo_env 0) J (demo_tok 0) [''short''] demo_created = (demo_store, Inr (demo_tok 2))"
proof -
  have w: "studio_workspace (demo_env 0) J (demo_tok 0) demo_created = (demo_created, Inr (demo_workspace\<lparr>ws_explorations := []\<rparr>))"
    by (simp add: studio_workspace_def studio_prune_def demo_created_def demo_workspace_def Let_def)
  have b: "recipe_bytes demo_created = 0" by (simp add: recipe_bytes_def demo_created_def)
  have t: "demo_tok n \<noteq> ''''" for n by (simp add: demo_tok_def)
  have n: "v_samples (x_view (new_exploration i art sty col)) = []" for i art sty col
    by (simp add: new_exploration_def)
  show ?thesis
    unfolding studio_restore_def
    by (simp add: demo_validate w b t) (simp add: demo_created_def demo_store_def demo_workspace_def demo_exploration_def demo_sample_def
        append_sample_def exploration_of_def put_exploration_def put_workspace_def demo_recipe_def numeral_eq_Suc n)
qed

lemma demo_created_reachable: "app_reachable demo_lib demo_tok demo_created"
proof -
  let ?s = "new_store (Some demo_idle) ''b1''"
  have 0: "app_reachable demo_lib demo_tok ?s" by (rule app_new) (auto simp: demo_reachable)
  have v: "visit (demo_env 0) J (demo_tok 0) ?s (fst (studio_create (demo_env 0) J ?s))" for J
    by (rule visit_create) (simp add: new_store_def)
  show ?thesis using app_next[OF 0 app_visit[OF demo_env_ok[of 0] v]] by (simp add: demo_create)
qed

lemma demo_store_reachable: "app_reachable demo_lib demo_tok demo_store"
proof -
  have v: "visit (demo_env 0) J (demo_tok 0) demo_created (fst (studio_restore (demo_env 0) J (demo_tok 0) [''short''] demo_created))" for J
    by (rule visit_restore)
  show ?thesis using app_next[OF demo_created_reachable app_visit[OF demo_env_ok[of 0] v]] by (simp add: demo_restore)
qed

lemma demo_live: "live 0 (demo_tok 0) demo_store"
  by (simp add: live_def demo_store_def demo_workspace_def ws_expired_def minute_def)

lemma demo_exploration_of: "exploration_of demo_store (demo_tok 0) (demo_tok 2) = Some demo_exploration"
  by (simp add: exploration_of_def demo_store_def demo_workspace_def)

end
