(* ===== verification/WebProps.thy ===== *)
theory WebProps
  imports Server StudioSession
begin

text \<open>
  The properties of the web server (\<open>internal/web\<close>): what a request may do, what a response looks like, and
  that the concurrent server is a run of the studio.
\<close>

inductive_simps does_simps [simp]:
  "does (Reply r) es r'" "does (AskDone c k) es r'" "does (AskPair p f) es r'" "does (AskText u g) es r'"
  "does (AskView t i kv) es r'" "does (AskFavourites t kf) es r'" "does (AskRecovery t kr) es r'"
  "does (AskRate key rt kb) es r'" "does (AskShared key rt ks) es r'" "does (AskSlot sl n kb) es r'"
  "does (AskOpen i ko) es r'" "does (AskStat m kb) es r'" "does (AskMeta i km) es r'"
  "does (AskObject key d n kt) es r'" "does (AskSend ev kb) es r'" "does (Tell gb q) es r'"

lemma serve_does:
  assumes "does (serve_http W C rq) es r"
  shows "proper C rq es r \<and> held es = (\<lambda>g. 0)" "es = es1 @ e # es2 \<Longrightarrow> rightful W C rq es1 e"
  using along_does[OF assms serve_http_behaves[unfolded behaves_def]] by auto

section \<open>A demonstration server\<close>

definition demo_web :: weblib where
  "demo_web = \<lparr>wl_go = demo_lib, wl_split_host = \<lambda>s. None, wl_parse_addr = \<lambda>s. None, wl_show_addr = \<lambda>a. '''',
     wl_recovery = \<lambda>s. Inl (ErrMsg s), wl_marshal = \<lambda>x. Inl (ErrMsg '''')\<rparr>"

definition demo_policy :: policy where
  "demo_policy = \<lparr>p_profile = ''production'', p_read_ip = rate_of 1200 120, p_asset_ip = rate_of 3000 300,
     p_start_ip = rate_of 60 12, p_generate_ip = rate_of 120 24, p_generate_visitor = rate_of 30 6,
     p_outstanding = 16, p_visitor_jobs = 4, p_queue_age = 120, p_image_readers = 32,
     p_image_buffer = 64, p_image_wait = 2000\<rparr>"

definition demo_app :: web_app where
  "demo_app = \<lparr>wc_origin = ''http://art'', wc_host = ''art'', wc_secure = False, wc_persistent = False,
     wc_database = False, wc_jobs = False, wc_events = False, wc_proxy = None, wc_limits = demo_policy, wc_hashes = []\<rparr>"

text \<open>A visitor who clears the session.\<close>

definition demo_clear :: http_request where
  "demo_clear = \<lparr>rq_method = ''POST'', rq_host = ''art'', rq_uri = ''/clear'', rq_path = ''/clear'', rq_query = '''',
     rq_remote = '''', rq_header = (\<lambda>k. if k = ''Origin'' then ''http://art''
       else if k = ''Content-Type'' then ''application/x-www-form-urlencoded'' else ''''),
     rq_cookie = (\<lambda>k. Some ''t''), rq_form = Some [(''csrf'', [''c''])], rq_token = '''', rq_wakeups = 0\<rparr>"

abbreviation demo_trace :: "web_event list" where
  "demo_trace \<equiv> [EvSlot Active 0 True, EvRate ''read:unknown'' (rate_of 1200 120) True,
     EvPair (CallSession ''t'') (Inr (''t'', ''c''))]"

lemma demo_does: "does (serve_http demo_web demo_app demo_clear)
    (demo_trace @ EvDone (CallClear ''t'') None # [EvGive (Release Active)]) (redirect (web_set_cookie demo_app '''' new_response) ''/'')"
  by (simp add: serve_http_def serve_admitted_def admit_post_def web_touch_def web_post_def post_session_def post_clear_def
    with_session_def demo_app_def demo_clear_def demo_web_def demo_policy_def has_prefix_def web_client_def form_get_def
    form_allowed_def Let_def) blast

lemma serve_http_asks: "rq_host rq = wc_host C \<Longrightarrow> rq_method rq \<noteq> ''GET'' \<Longrightarrow> serve_http W C rq \<noteq> Reply r"
  by (simp add: serve_http_def Let_def)

section \<open>Assets without a version\<close>

text \<open>
  A name outside the map of hashes has the empty hash, so the path \<open>/assets//name\<close> passes the check and goes to
  the file server with a year of public caching; the empty name is the directory.
\<close>

lemma split_char_plain: "c \<notin> set s \<Longrightarrow> split_char c s = [s]"
  by (induction s) auto

lemma asset_without_version:
  assumes "CHR ''/'' \<notin> set name" "mget (wc_hashes C) name = None" "rq_path rq = ''/assets//'' @ name"
  shows "get_asset C rq w =
    Reply ((set_header ''Cache-Control'' ''public, max-age=31536000, immutable'' w)\<lparr>hr_body := Asset name\<rparr>)"
  using assms by (simp add: get_asset_def trim_prefix_def has_prefix_def split_char_plain)

section \<open>Properties\<close>

text \<open>C7: whatever other requests do in between, a request changes a workspace only as a POST from the site itself,
  for the session of its cookie whose secret the form repeats, or for the session that it has just been
  given; it renders only within both generation limits; and it shows, and extends the lifetime of, only the
  workspace of its cookie.
\<close>
theorem requests_rightful:
  assumes "does (serve_http W C rq) (es1 @ e # es2) r"
  shows "(acting e = Some t \<or> (\<exists>a. e = EvPair CallCreate a) \<longrightarrow>
      rq_method rq = ''POST'' \<and> rq_host rq = wc_host C \<and> rq_header rq ''Origin'' = wc_origin C)
    \<and> (acting e = Some t \<longrightarrow>
        (\<exists>v form c. rq_cookie rq (cookie_name C) = Some v \<and> EvPair (CallSession v) (Inr (t, c)) \<in> set es1
          \<and> rq_form rq = Some form \<and> form_get form ''csrf'' = c)
        \<or> (\<exists>c. EvPair CallCreate (Inr (t, c)) \<in> set es1))
    \<and> (acting e = Some t \<and> rendering e \<longrightarrow>
        within_rate C es1 (''generate-ip:'' @ web_client W C rq) (p_generate_ip (wc_limits C))
        \<and> within_rate C es1 (''generate-workspace:'' @ t) (p_generate_visitor (wc_limits C)))
    \<and> (showing e = Some t \<longrightarrow>
        (\<exists>v c. rq_cookie rq (cookie_name C) = Some v \<and> EvPair (CallSession v) (Inr (t, c)) \<in> set es1))"
proof -
  from serve_does(2)[OF assms refl] have r: "acting e = Some t \<Longrightarrow> entitled C rq es1 t \<and> (rendering e \<longrightarrow> paid W C rq es1 t)"
    "showing e = Some t \<Longrightarrow> \<exists>c. visitor C rq es1 t c" "\<And>a. e = EvPair CallCreate a \<Longrightarrow> from_site C rq"
    by (auto simp: rightful_def)
  show ?thesis
  proof (intro conjI[of "_ \<longrightarrow> _"])
    show "acting e = Some t \<or> (\<exists>a. e = EvPair CallCreate a) \<longrightarrow>
        rq_method rq = ''POST'' \<and> rq_host rq = wc_host C \<and> rq_header rq ''Origin'' = wc_origin C"
      using r(1,3) unfolding entitled_def from_site_def by blast
    show "acting e = Some t \<longrightarrow>
        (\<exists>v form c. rq_cookie rq (cookie_name C) = Some v \<and> EvPair (CallSession v) (Inr (t, c)) \<in> set es1
          \<and> rq_form rq = Some form \<and> form_get form ''csrf'' = c)
        \<or> (\<exists>c. EvPair CallCreate (Inr (t, c)) \<in> set es1)"
      using r(1) unfolding entitled_def visitor_def by blast
  qed (use r in \<open>unfold paid_def visitor_def, blast+\<close>)
qed

theorem requests_rightful_witness:
  "\<exists>v form. rq_cookie demo_clear (cookie_name demo_app) = Some v \<and> EvPair (CallSession v) (Inr (''t'', ''c'')) \<in> set demo_trace
     \<and> rq_form demo_clear = Some form \<and> form_get form ''csrf'' = ''c'' \<and> rq_header demo_clear ''Origin'' = wc_origin demo_app"
  using requests_rightful[OF demo_does, of "''t''"] by auto

text \<open>C28: every response is well-formed, and the request has given back every slot and file that it took: a known
  status, the security headers, cookies only for the session that the studio named or cleared, for the whole
  site, hidden from scripts, and secure exactly under the name that browsers demand it for, a page
  secret only for the holder of the session's cookie, and public caching only of images and assets.
\<close>
theorem responses_proper:
  assumes "does (serve_http W C rq) es r"
  shows "hr_status r \<in> {200, 204, 303, 400, 403, 404, 405, 409, 410, 413, 414, 415, 421, 429, 503}
    \<and> mget (hr_headers r) ''Content-Security-Policy'' = Some security_policy
    \<and> mget (hr_headers r) ''X-Content-Type-Options'' = Some ''nosniff''
    \<and> (\<forall>k\<in>set (hr_cookies r). ck_path k = ''/'' \<and> ck_http_only k \<and> ck_same_site k = ''Lax''
        \<and> (ck_secure k \<longleftrightarrow> ck_name k = ''__Host-art-studio'')
        \<and> ((\<exists>p c. EvPair p (Inr (ck_value k, c)) \<in> set es)
          \<or> ck_value k = '''' \<and> ck_age k = - 1 \<and> (\<exists>t. EvDone (CallClear t) None \<in> set es)))
    \<and> (secret_of (hr_body r) \<noteq> '''' \<longrightarrow> (\<exists>v t. rq_cookie rq (cookie_name C) = Some v
        \<and> EvPair (CallSession v) (Inr (t, secret_of (hr_body r))) \<in> set es))
    \<and> (mget (hr_headers r) ''Cache-Control'' = Some ''public, max-age=31536000, immutable'' \<longrightarrow> shared_body (hr_body r))
    \<and> held es g = 0"
  using serve_does(1)[OF assms] unfolding proper_def secured_def cookies_ok_def visitor_def statuses_def by fastforce

theorem responses_proper_witness:
  "\<exists>r :: http_response. hr_status r = 303 \<and> mget (hr_headers r) ''Content-Security-Policy'' = Some security_policy
    \<and> held (demo_trace @ EvDone (CallClear ''t'') None # [EvGive (Release Active)]) (Release Active) = 0"
proof -
  note p = responses_proper[OF demo_does, of "Release Active"]
  show ?thesis
    by (intro exI[of _ "redirect (web_set_cookie demo_app '''' new_response) ''/''"] conjI p[THEN conjunct2, THEN conjunct1]
      p[THEN conjunct2, THEN conjunct2, THEN conjunct2, THEN conjunct2, THEN conjunct2, THEN conjunct2])
      (simp add: redirect_def)
qed

section \<open>The concurrent server\<close>

definition server_inv :: "weblib \<Rightarrow> web_app \<Rightarrow> server \<Rightarrow> bool" where
  "server_inv W C S \<longleftrightarrow> (\<exists>hs. list_all2 (\<lambda>p h. \<exists>rq. behaves W C rq (\<lambda>g. 0) p h) (sv_handlers S) hs
     \<and> (\<forall>sl. sv_taken S sl = (\<Sum>h\<leftarrow>hs. held h (Release sl))))
   \<and> wfm (sv_keys S) \<and> length (sv_keys S) \<le> 10000
   \<and> (\<forall>sl\<in>{Active, Streams}. sv_taken S sl \<le> capacity C sl)"

lemma sum_list_update_int:
  "j < length xs \<Longrightarrow> sum_list (map f (xs[j := y])) = sum_list (map f xs) - f (xs ! j) + (f y :: int)"
  by (induction xs arbitrary: j) (auto split: nat.split)

lemma server_inv_step:
  assumes "server_step W L tok C S S'" "server_inv W C S"
  shows "server_inv W C S'"
  using assms(1)
proof cases
  case (server_accept rq)
  from assms(2) obtain hs where hs: "list_all2 (\<lambda>p h. \<exists>rq. behaves W C rq (\<lambda>g. 0) p h) (sv_handlers S) hs"
    "\<forall>sl. sv_taken S sl = (\<Sum>h\<leftarrow>hs. held h (Release sl))" by (auto simp: server_inv_def)
  have "list_all2 (\<lambda>p h. \<exists>rq. behaves W C rq (\<lambda>g. 0) p h) (sv_handlers S @ [serve_http W C rq]) (hs @ [[]])"
    by (rule list_all2_appendI[OF hs(1)]) (auto intro: serve_http_behaves)
  with hs(2) assms(2) show ?thesis unfolding server_inv_def server_accept
    by (intro conjI exI[of _ "hs @ [[]]"]) auto
next
  case (server_move E j io S1 p)
  from assms(2) obtain hs where hs: "list_all2 (\<lambda>p h. \<exists>rq. behaves W C rq (\<lambda>g. 0) p h) (sv_handlers S) hs"
    "\<forall>sl. sv_taken S sl = (\<Sum>h\<leftarrow>hs. held h (Release sl))" by (auto simp: server_inv_def)
  from list_all2_nthD[OF hs(1) server_move(3)] obtain rq where "behaves W C rq (\<lambda>g. 0) (sv_handlers S ! j) (hs ! j)" by blast
  from moves_behaves[OF server_move(4) this] obtain e where e: "behaves W C rq (\<lambda>g. 0) p (hs ! j @ [e])"
    "\<forall>sl. sv_taken S1 sl = sv_taken S sl + change (Release sl) e" by blast
  have j: "j < length hs" using server_move(3) list_all2_lengthD[OF hs(1)] by simp
  have "list_all2 (\<lambda>p h. \<exists>rq. behaves W C rq (\<lambda>g. 0) p h) ((sv_handlers S)[j := p]) (hs[j := hs ! j @ [e]])"
    using hs(1) e(1) by (auto intro: list_all2_update_cong)
  moreover have "\<forall>sl. sv_taken S1 sl = (\<Sum>h\<leftarrow>hs[j := hs ! j @ [e]]. held h (Release sl))"
    using e(2) hs(2) by (simp add: sum_list_update_int[OF j])
  moreover have "wfm (sv_keys S1) \<and> length (sv_keys S1) \<le> 10000"
    using assms(2) moves_keys[OF server_move(4)] by (simp add: server_inv_def)
  moreover have "\<forall>sl\<in>{Active, Streams}. sv_taken S1 sl \<le> capacity C sl"
    using assms(2) moves_capacity[OF server_move(4)] unfolding server_inv_def by blast
  ultimately show ?thesis unfolding server_inv_def server_move(1) by auto
next
  case (server_reply ps r qs)
  from assms(2) obtain hs where hs: "list_all2 (\<lambda>p h. \<exists>rq. behaves W C rq (\<lambda>g. 0) p h) (ps @ Reply r # qs) hs"
    "\<forall>sl. sv_taken S sl = (\<Sum>h\<leftarrow>hs. held h (Release sl))" using server_reply(2) by (auto simp: server_inv_def)
  from hs(1) obtain h1 h h2 where h': "hs = h1 @ h # h2" "list_all2 (\<lambda>p h. \<exists>rq. behaves W C rq (\<lambda>g. 0) p h) ps h1"
    "\<exists>rq. behaves W C rq (\<lambda>g. 0) (Reply r) h" "list_all2 (\<lambda>p h. \<exists>rq. behaves W C rq (\<lambda>g. 0) p h) qs h2"
    by (auto simp: list_all2_append1 list_all2_Cons1)
  then have h: "hs = h1 @ h # h2" "list_all2 (\<lambda>p h. \<exists>rq. behaves W C rq (\<lambda>g. 0) p h) (ps @ qs) (h1 @ h2)"
    "held h = (\<lambda>g. 0)" by (auto simp: behaves_def intro!: list_all2_appendI)
  with hs(2) assms(2) show ?thesis unfolding server_inv_def server_reply(1)
    by (intro conjI exI[of _ "h1 @ h2"]) auto
next
  case (server_studio s)
  with assms(2) show ?thesis by (auto simp: server_inv_def)
qed

lemma server_reachable_inv: "server_reachable W L tok C S \<Longrightarrow> server_inv W C S \<and> app_reachable L tok (sv_store S)"
proof (induction rule: server_reachable.induct)
  case (server_new q build)
  then show ?case by (auto simp: server_inv_def intro: app_new intro!: exI[of _ "[]"])
next
  case (server_next S S')
  have "stays L tok (sv_store S) (sv_store S')"
    using server_next(2) by cases (auto simp: stays_def dest: moves_stays[unfolded stays_def])
  with server_next show ?case by (auto simp: stays_def intro: server_inv_step app_next)
qed

text \<open>
  The server over a studio in memory, which is the configuration of the tests: whatever requests are in flight
  and in whatever order their calls happen, the store is one that the studio's own steps reach. The server of
  the deployment, over the database, is \<open>DurableServer\<close>.
\<close>

theorem memory_server_refines:
  assumes "server_reachable W L tok C S" and "\<not> wc_database C" and "\<not> wc_persistent C"
  shows "app_reachable L tok (sv_store S)
    \<and> sv_taken S Active \<le> 128 \<and> sv_taken S Streams \<le> 32 \<and> (sv_handlers S = [] \<longrightarrow> sv_taken S sl = 0)
    \<and> length (sv_keys S) \<le> 10000
    \<and> (\<forall>p\<in>set (sv_handlers S). (\<exists>r. p = Reply r) \<or> (\<exists>S' p'. moves E io C S p S' p'))"
proof -
  from server_reachable_inv[OF assms(1)] have i: "server_inv W C S" "app_reachable L tok (sv_store S)" by auto
  from i(1) obtain hs where hs: "list_all2 (\<lambda>p h. \<exists>rq. behaves W C rq (\<lambda>g. 0) p h) (sv_handlers S) hs"
    "\<forall>sl. sv_taken S sl = (\<Sum>h\<leftarrow>hs. held h (Release sl))" by (auto simp: server_inv_def)
  have "(\<exists>r. p = Reply r) \<or> (\<exists>S' p'. moves E io C S p S' p')" if "p \<in> set (sv_handlers S)" for p
  proof -
    from that obtain j where "j < length (sv_handlers S)" "sv_handlers S ! j = p" by (auto simp: in_set_conv_nth)
    with list_all2_nthD[OF hs(1)] obtain rq where "behaves W C rq (\<lambda>g. 0) p (hs ! j)" by blast
    from progress[OF this assms(2,3)] show ?thesis .
  qed
  moreover have "sv_handlers S = [] \<longrightarrow> sv_taken S sl = 0" using hs by auto
  moreover have "sv_taken S Active \<le> 128" "sv_taken S Streams \<le> 32" "length (sv_keys S) \<le> 10000"
    using i(1) by (simp_all add: server_inv_def)
  ultimately show ?thesis using i(2) by blast
qed

end
