(* ===== verification/Durable.thy ===== *)
theory Durable
  imports Studio Policy
begin

text \<open>
  \<open>internal/persistence\<close>, the tables and the transactions of the web processes: the durable queue of
  \<open>queue.go\<close>, the reads of \<open>read.go\<close>, the release control, the schema check and the instances of
  \<open>database.go\<close> and \<open>instances.go\<close>, and the local event hub of \<open>events.go\<close>.

  The database is a record of tables, and a table is a list of rows by primary key; the order of the
  list is the order in which PostgreSQL visits rows, which no theorem fixes. Every transaction is a
  function of the database: the writers lock the row of \<open>art_control\<close> first, so they are serial. A
  statement that fails aborts its transaction, and the deferred rollback discards what it did:
  \<open>de_fault\<close> gives the error of the failing statement of an operation, and the database stays. River
  is outside the repository: its operations on \<open>river_job\<close> are the record \<open>river\<close> of arguments.
\<close>

section \<open>Tables\<close>

datatype rstate =
    JAvailable | JPending | JScheduled | JRetryable | JRunning | JCompleted | JCancelled | JDiscarded

record river_job =
  rj_kind :: string
  rj_request :: string
  rj_build :: string
  rj_state :: rstate
  rj_attempt :: int

type_synonym river_jobs = "(int, river_job) gomap"

record workspace_row =
  dw_csrf :: string
  dw_touched :: int
  dw_expires :: int
  dw_data :: string

record request_row =
  dr_recipe :: string
  dr_tier :: string
  dr_build :: string
  dr_job :: int
  dr_generation :: string
  dr_epoch :: int
  dr_outcome :: jstate
  dr_created :: int
  dr_started :: "int option"

record artifact_row =
  da_key :: string
  da_digest :: string
  da_size :: int
  da_created :: int
  da_expires :: int

datatype ustate = UPending | UPublished | UDeleting

record upload_row =
  du_request :: string
  du_generation :: string
  du_size :: int
  du_state :: ustate
  du_created :: int
  du_delete_after :: "int option"
  du_deleted :: "int option"

record 'f bucket_row =
  dk_tokens :: 'f
  dk_touched :: int

record renderer_row =
  dn_build :: string
  dn_touched :: int
  dn_storage :: bool

record boot =
  di_id :: string
  di_role :: string
  di_hostname :: string
  di_name :: string
  di_build :: string

record instance_row =
  dj_instance :: boot
  dj_touched :: int
  dj_stopped :: "int option"
  dj_storage :: "bool option"

text \<open>The single row of \<open>art_control\<close> is part of the record; \<open>'f\<close> is \<open>double precision\<close>.\<close>

record 'f db =
  db_enabled :: bool
  db_build :: string
  db_epoch :: int
  db_bound :: bool
  db_location :: string
  db_cursor :: string
  db_workspaces :: "(string, workspace_row) gomap"
  db_requests :: "(string, request_row) gomap"
  db_interests :: "(string \<times> string) list"
  db_artifacts :: "(string, artifact_row) gomap"
  db_pins :: "(string \<times> string, string) gomap"
  db_uploads :: "(string, upload_row) gomap"
  db_buckets :: "(string, 'f bucket_row) gomap"
  db_renderers :: "(string, renderer_row) gomap"
  db_instances :: "(string, instance_row) gomap"
  db_jobs :: river_jobs

section \<open>What the code gets from outside\<close>

text \<open>
  River's transactional API: \<open>InsertTx\<close> gets the arguments, the queue and the metadata and gives the
  new job's number, \<open>JobCancelTx\<close> gives \<open>None\<close> when the job does not exist, \<open>JobCompleteTx\<close> gives the
  state of the completed row.
\<close>

record river =
  rv_insert :: "string \<Rightarrow> string \<Rightarrow> string \<Rightarrow> (string \<times> string) list \<Rightarrow> river_jobs \<Rightarrow> river_jobs \<times> int"
  rv_cancel :: "int \<Rightarrow> river_jobs \<Rightarrow> river_jobs option"
  rv_complete :: "int \<Rightarrow> river_jobs \<Rightarrow> river_jobs \<times> rstate"

record dbconf =
  dc_build :: string
  dc_instance :: boot
  dc_policy :: policy
  dc_river :: river

text \<open>
  One transaction: \<open>now()\<close>, the fault of an operation, the outcome of the commit (an error, and whether
  the commit took place all the same), the random execution ids by request, and the \<open>md5\<close> of a text
  followed by the clock.
\<close>

record dbenv =
  de_lib :: golib
  de_now :: int
  de_fault :: "string \<Rightarrow> err option"
  de_commit :: "(err \<times> bool) option"
  de_exec :: "string \<Rightarrow> string"
  de_md5 :: "string \<Rightarrow> string"

definition sql :: "dbenv \<Rightarrow> string \<Rightarrow> 'a res \<Rightarrow> 'a res" where
  "sql V s r = (case de_fault V s of Some e \<Rightarrow> Inl e | None \<Rightarrow> r)"

lemma sql_Inr_iff [res_simps]: "sql V s r = Inr x \<longleftrightarrow> de_fault V s = None \<and> r = Inr x"
  by (cases "de_fault V s") (simp_all add: sql_def)

lemma sql_calm [simp]: "de_fault V s = None \<Longrightarrow> sql V s r = r"
  by (simp add: sql_def)

text \<open>\<open>Commit\<close>: a network error may hide a commit that took place.\<close>

definition commit :: "dbenv \<Rightarrow> 'd \<Rightarrow> 'd \<Rightarrow> 'a \<Rightarrow> (err \<Rightarrow> 'a) \<Rightarrow> 'd \<times> 'a" where
  "commit V d d' ok fail = (case de_commit V of
       None \<Rightarrow> (d', ok)
     | Some (e, applied) \<Rightarrow> (if applied then d' else d, fail e))"

definition token_hash :: "golib \<Rightarrow> string \<Rightarrow> string" where
  "token_hash L token = gl_sha256 L token"

definition queue_name :: "golib \<Rightarrow> string \<Rightarrow> string" where
  "queue_name L build = ''render_'' @ take 24 (token_hash L build)"

text \<open>\<open>UPDATE\<close>: every row is mapped, the keys stay.\<close>

definition update_rows :: "('k \<Rightarrow> 'v \<Rightarrow> 'v) \<Rightarrow> ('k, 'v) gomap \<Rightarrow> ('k, 'v) gomap" where
  "update_rows f es = map (\<lambda>(k, r). (k, f k r)) es"

lemma update_rows_fst [simp]: "map fst (update_rows f es) = map fst es"
  and update_rows_length [simp]: "length (update_rows f es) = length es"
  and tot_update_rows [simp]: "tot g (update_rows f es) = tot (\<lambda>k r. g k (f k r)) es"
  and mget_update_rows [simp]: "mget (update_rows f es) k = map_option (f k) (mget es k)"
  by (induction es) (auto simp: update_rows_def)

lemma wfm_update_rows [simp]: "wfm (update_rows f es) = wfm es"
  by (simp add: wfm_def)

lemma cnt_update_rows [simp]: "cnt P (update_rows f es) = cnt (\<lambda>k r. P k (f k r)) es"
  by (simp add: cnt_eq_tot)

section \<open>The durable queue\<close>

definition active_state :: "rstate \<Rightarrow> bool" where
  "active_state st \<longleftrightarrow> st \<in> {JAvailable, JRunning, JRetryable, JScheduled, JPending}"

definition job_active :: "'f db \<Rightarrow> int \<Rightarrow> bool" where
  "job_active d n = (case mget (db_jobs d) n of None \<Rightarrow> False | Some j \<Rightarrow> active_state (rj_state j))"

definition live_workspace :: "dbenv \<Rightarrow> 'f db \<Rightarrow> string \<Rightarrow> bool" where
  "live_workspace V d k = (case mget (db_workspaces d) k of None \<Rightarrow> False | Some w \<Rightarrow> dw_expires w > de_now V)"

definition pinned :: "dbenv \<Rightarrow> 'f db \<Rightarrow> string \<Rightarrow> bool" where
  "pinned V d i = list_ex (\<lambda>((k, s), r). r = i \<and> live_workspace V d k) (db_pins d)"

definition artifact_live :: "dbenv \<Rightarrow> 'f db \<Rightarrow> string \<Rightarrow> artifact_row \<Rightarrow> bool" where
  "artifact_live V d i a \<longleftrightarrow> da_expires a > de_now V \<or> pinned V d i"

definition artifact_ready :: "dbenv \<Rightarrow> 'f db \<Rightarrow> string \<Rightarrow> bool" where
  "artifact_ready V d i = (case mget (db_artifacts d) i of None \<Rightarrow> False | Some a \<Rightarrow> artifact_live V d i a)"

definition request_active :: "'f db \<Rightarrow> string \<Rightarrow> bool" where
  "request_active d i = (case mget (db_requests d) i of None \<Rightarrow> False | Some r \<Rightarrow> job_active d (dr_job r))"

text \<open>The three counts of \<open>Admit\<close>.\<close>

definition subscribers :: "'f db \<Rightarrow> string \<Rightarrow> string \<Rightarrow> int" where
  "subscribers d owner i = int (length (filter (\<lambda>(k, r). r = i \<and> k \<noteq> owner) (db_interests d)))"

definition owned_jobs :: "'f db \<Rightarrow> string \<Rightarrow> string \<Rightarrow> int" where
  "owned_jobs d owner i =
     int (length (filter (\<lambda>(k, r). k = owner \<and> r \<noteq> i \<and> request_active d r) (db_interests d)))"

definition outstanding :: "'f db \<Rightarrow> int" where
  "outstanding d = cnt (\<lambda>n j. rj_kind j = ''render'' \<and> active_state (rj_state j)) (db_jobs d)"

text \<open>The \<open>CHECK\<close> constraints of \<open>art_requests\<close> and the foreign keys of \<open>art_interests\<close>.\<close>

definition request_row_ok :: "string \<Rightarrow> string \<Rightarrow> string \<Rightarrow> bool" where
  "request_row_ok i recipe t \<longleftrightarrow> length i = 64 \<and> t \<in> {''preview'', ''download''} \<and> length recipe \<le> 16384"

definition add_interest :: "string \<Rightarrow> string \<Rightarrow> 'f db \<Rightarrow> 'f db res" where
  "add_interest owner i d =
     (if mget (db_workspaces d) owner = None \<or> mget (db_requests d) i = None
      then Inl (ErrMsg ''foreign key violation'')
      else Inr (d\<lparr>db_interests := List.insert (owner, i) (db_interests d)\<rparr>))"

definition job_metadata :: "dbconf \<Rightarrow> string \<Rightarrow> (string \<times> string) list" where
  "job_metadata C build = (let n = dc_instance C in
     [(''producer_id'', di_id n), (''producer_name'', di_name n), (''producer_hostname'', di_hostname n),
      (''producer_build'', build)])"

text \<open>A new River job, and the request's row inserted or pointed to it.\<close>

definition queued_row :: "dbenv \<Rightarrow> string \<Rightarrow> int \<Rightarrow> int \<Rightarrow> string \<Rightarrow> request \<Rightarrow> request_row option \<Rightarrow> request_row" where
  "queued_row V build epoch n i q old = (case old of
       None \<Rightarrow> \<lparr>dr_recipe = q_recipe q, dr_tier = q_tier q, dr_build = build, dr_job = n,
         dr_generation = de_exec V i, dr_epoch = epoch, dr_outcome = Queued, dr_created = de_now V,
         dr_started = None\<rparr>
     | Some r \<Rightarrow> r\<lparr>dr_job := n, dr_generation := de_exec V i, dr_epoch := epoch, dr_outcome := Queued,
         dr_created := de_now V, dr_started := None\<rparr>)"

definition enqueue :: "dbconf \<Rightarrow> dbenv \<Rightarrow> string \<Rightarrow> int \<Rightarrow> string \<Rightarrow> request \<Rightarrow> 'f db \<Rightarrow> 'f db res" where
  "enqueue C V build epoch i q d =
     (if outstanding d \<ge> p_outstanding (dc_policy C) then Inl ErrBusy
      else let (jobs, n) = rv_insert (dc_river C) i build (queue_name (de_lib V) build) (job_metadata C build)
             (db_jobs d) in
        if \<not> request_row_ok i (q_recipe q) (q_tier q) then Inl (ErrMsg ''check violation'')
        else Inr (d\<lparr>db_jobs := jobs, db_requests := mput i
          (queued_row V build epoch n i q (mget (db_requests d) i)) (db_requests d)\<rparr>))"

definition queue_admit_one :: "dbconf \<Rightarrow> dbenv \<Rightarrow> string \<Rightarrow> string \<Rightarrow> int \<Rightarrow> request \<Rightarrow> 'f db \<Rightarrow> ('f db \<times> string) res" where
  "queue_admit_one C V owner build epoch q d = (case request_validate (de_lib V) q build of
       Some e \<Rightarrow> Inl e
     | None \<Rightarrow> bind_res (publish_validate (de_lib V) (q_recipe q)) (\<lambda>r.
         bind_res (tier (r_id r) (q_tier q)) (\<lambda>t.
         let i = recipe_key (de_lib V) r t build;
             ready = (mget (db_requests d) i \<noteq> None \<and> artifact_ready V d i);
             active = request_active d i in
         if subscribers d owner i \<ge> 24 then Inl ErrBusy
         else if \<not> ready \<and> owned_jobs d owner i \<ge> p_visitor_jobs (dc_policy C) then Inl ErrBusy
         else bind_res (if \<not> ready \<and> \<not> active then enqueue C V build epoch i q d else Inr d) (\<lambda>d'.
           bind_res (add_interest owner i d') (\<lambda>d''. Inr (d'', i))))))"

fun queue_admit_all :: "dbconf \<Rightarrow> dbenv \<Rightarrow> string \<Rightarrow> string \<Rightarrow> int \<Rightarrow> request list \<Rightarrow> 'f db
    \<Rightarrow> ('f db \<times> string list) res" where
  "queue_admit_all C V owner build epoch [] d = Inr (d, [])"
| "queue_admit_all C V owner build epoch (q # qs) d =
     bind_res (queue_admit_one C V owner build epoch q d) (\<lambda>(d', i).
     bind_res (queue_admit_all C V owner build epoch qs d') (\<lambda>(d'', is). Inr (d'', i # is)))"

text \<open>\<open>QueueTx\<close>: the database within a transaction and the error that its caller checks before committing.\<close>

record 'f queue_tx =
  qt_db :: "'f db"
  qt_err :: "err option"

definition queue_admit :: "dbconf \<Rightarrow> dbenv \<Rightarrow> string \<Rightarrow> request list \<Rightarrow> 'f queue_tx \<Rightarrow> 'f queue_tx \<times> string list res" where
  "queue_admit C V owner qs t =
     (if length qs = 0 \<or> length qs > 4 then (t, Inl ErrBusy)
      else let d = qt_db t in
        case sql V ''admit''
          (if \<not> db_enabled d \<or> db_build d \<noteq> dc_build C then Inl ErrBusy
           else queue_admit_all C V owner (db_build d) (db_epoch d) qs d) of
          Inl e \<Rightarrow> (t, Inl e)
        | Inr (d', is) \<Rightarrow> (t\<lparr>qt_db := d'\<rparr>, Inr is))"

text \<open>
  \<open>Status\<close>: the state of the job where there is one, else the outcome of the request. A failing query
  is reported through \<open>Err\<close>: it aborts the transaction, whose commit then fails.
\<close>

definition state_of :: "rstate option \<Rightarrow> jstate \<Rightarrow> jstate" where
  "state_of st outcome = (let s = (case st of
         None \<Rightarrow> outcome
       | Some JRunning \<Rightarrow> Running
       | Some JCancelled \<Rightarrow> if outcome \<noteq> Expired \<and> outcome \<noteq> Failed then Cancelled else outcome
       | Some JDiscarded \<Rightarrow> Failed
       | Some JCompleted \<Rightarrow> Expired
       | Some _ \<Rightarrow> Queued)
     in if s = Ready then Expired else s)"

definition queue_status :: "dbenv \<Rightarrow> string \<Rightarrow> string \<Rightarrow> 'f queue_tx \<Rightarrow> status" where
  "queue_status V owner i t = (let d = qt_db t; s = \<lparr>st_id = i, st_state = Expired, st_message = ''''\<rparr> in
     if i = '''' then s
     else case mget (db_requests d) i of
       None \<Rightarrow> s
     | Some r \<Rightarrow>
         if (owner, i) \<notin> set (db_interests d) then s
         else if artifact_ready V d i then s\<lparr>st_state := Ready\<rparr>
         else let st = state_of (map_option rj_state (mget (db_jobs d) (dr_job r))) (dr_outcome r) in
           s\<lparr>st_state := st, st_message := (if st = Failed
             then ''This sample could not finish. Try again when you are ready.'' else '''')\<rparr>)"

text \<open>\<open>Cancel\<close>: the last interest that goes fences the request with a new generation and cancels its job.\<close>

definition release_interest :: "dbconf \<Rightarrow> dbenv \<Rightarrow> string \<Rightarrow> string \<Rightarrow> 'f db \<Rightarrow> 'f db" where
  "release_interest C V owner i d0 =
     (let d = d0\<lparr>db_interests := removeAll (owner, i) (db_interests d0)\<rparr> in
      case mget (db_requests d) i of
        None \<Rightarrow> d
      | Some r \<Rightarrow>
          if list_ex (\<lambda>(k, j). j = i) (db_interests d) then d
          else let r' = r\<lparr>dr_generation := de_md5 V (dr_generation r),
                   dr_outcome := (if dr_outcome r \<in> {Queued, Running} then Cancelled else dr_outcome r)\<rparr> in
            d\<lparr>db_requests := mput i r' (db_requests d),
              db_jobs := (if dr_job r = 0 then db_jobs d
                else case rv_cancel (dc_river C) (dr_job r) (db_jobs d) of None \<Rightarrow> db_jobs d | Some jobs \<Rightarrow> jobs)\<rparr>)"

definition queue_cancel :: "dbconf \<Rightarrow> dbenv \<Rightarrow> string \<Rightarrow> string \<Rightarrow> 'f queue_tx \<Rightarrow> 'f queue_tx" where
  "queue_cancel C V owner i t =
     (if i = '''' \<or> qt_err t \<noteq> None then t
      else case de_fault V ''cancel'' of
        Some e \<Rightarrow> t\<lparr>qt_err := Some e\<rparr>
      | None \<Rightarrow> t\<lparr>qt_db := release_interest C V owner i (qt_db t)\<rparr>)"

definition durable_jobs :: "dbconf \<Rightarrow> dbenv \<Rightarrow> 'f queue_tx jobs_api" where
  "durable_jobs C V = \<lparr>ja_admit = queue_admit C V, ja_status = queue_status V, ja_cancel = queue_cancel C V\<rparr>"

section \<open>Reads and control\<close>

definition db_artifact :: "dbenv \<Rightarrow> string \<Rightarrow> 'f db \<Rightarrow> artifact_row res" where
  "db_artifact V i d = (case de_fault V ''artifact'' of Some _ \<Rightarrow> Inl ErrUnavailable
     | None \<Rightarrow> (case mget (db_artifacts d) i of
         None \<Rightarrow> Inl ErrNotExist
       | Some a \<Rightarrow> if artifact_live V d i a then Inr a else Inl ErrNotExist))"

definition mark_deleting :: "int \<Rightarrow> (string \<Rightarrow> upload_row \<Rightarrow> bool) \<Rightarrow> (string, upload_row) gomap \<Rightarrow> (string, upload_row) gomap" where
  "mark_deleting after P us = update_rows (\<lambda>k u.
     if P k u then u\<lparr>du_state := UDeleting, du_delete_after := Some after\<rparr> else u) us"

definition db_missing :: "dbenv \<Rightarrow> string \<Rightarrow> string \<Rightarrow> 'f db \<Rightarrow> 'f db \<times> err option" where
  "db_missing V i key d = (case de_fault V ''missing'' of Some e \<Rightarrow> (d, Some e)
     | None \<Rightarrow> commit V d (d\<lparr>
         db_artifacts := filter (\<lambda>(j, a). \<not> (j = i \<and> da_key a = key)) (db_artifacts d),
         db_uploads := mark_deleting (de_now V) (\<lambda>k u. k = key) (db_uploads d)\<rparr>) None Some)"

definition db_counts :: "'f db \<Rightarrow> int \<times> int \<times> int \<times> int" where
  "db_counts d =
     (cnt (\<lambda>n j. rj_kind j = ''render'' \<and> rj_state j \<in> {JAvailable, JScheduled, JRetryable, JPending}) (db_jobs d),
      cnt (\<lambda>n j. rj_kind j = ''render'' \<and> rj_state j = JRunning) (db_jobs d),
      int (length (db_artifacts d)), tot (\<lambda>i a. da_size a) (db_artifacts d))"

definition second :: int where
  "second = 1000000000"

text \<open>
  \<open>Allow\<close>: the arithmetic of PostgreSQL on tokens is given by \<open>refill\<close> (the new tokens of an existing
  row from its tokens, the elapsed nanoseconds, the rate and the burst), \<open>full\<close> (at least one) and
  \<open>spend\<close> (one less).
\<close>

record 'f pg_float =
  pg_refill :: "'f \<Rightarrow> int \<Rightarrow> 'f \<Rightarrow> 'f \<Rightarrow> 'f"
  pg_full :: "'f \<Rightarrow> bool"
  pg_spend :: "'f \<Rightarrow> 'f"

definition stale_bucket :: "dbenv \<Rightarrow> 'f bucket_row \<Rightarrow> bool" where
  "stale_bucket V b \<longleftrightarrow> dk_touched b < de_now V - 5 * minute"

definition db_allow :: "'f pg_float \<Rightarrow> dbenv \<Rightarrow> string \<Rightarrow> 'f \<Rightarrow> 'f \<Rightarrow> 'f db \<Rightarrow> 'f db \<times> bool res" where
  "db_allow P V key rate burst d = (case de_fault V ''allow'' of Some _ \<Rightarrow> (d, Inl ErrUnavailable)
     | None \<Rightarrow> (let bs = (if length (db_buckets d) \<ge> 10000
           then filter (\<lambda>(k, b). \<not> stale_bucket V b) (db_buckets d) else db_buckets d) in
         if length bs \<ge> 10000 then (d, Inr False)
         else let h = token_hash (de_lib V) key;
             tokens = (case mget bs h of None \<Rightarrow> burst
               | Some b \<Rightarrow> pg_refill P (dk_tokens b) (de_now V - dk_touched b) rate burst);
             allowed = pg_full P tokens;
             row = \<lparr>dk_tokens = (if allowed then pg_spend P tokens else tokens), dk_touched = de_now V\<rparr> in
           commit V d (d\<lparr>db_buckets := mput h row bs\<rparr>) (Inr allowed) (\<lambda>_. Inl ErrUnavailable)))"

definition db_activate :: "dbconf \<Rightarrow> dbenv \<Rightarrow> 'f db \<Rightarrow> 'f db \<times> err option" where
  "db_activate C V d = (case de_fault V ''activate'' of Some e \<Rightarrow> (d, Some e)
     | None \<Rightarrow>
         if outstanding d \<noteq> 0 then (d, Some (ErrMsg (''cannot activate with '' @ format_int (outstanding d) @ '' unfinished jobs'')))
         else commit V d (d\<lparr>db_build := dc_build C, db_epoch := db_epoch d + 1\<rparr>) None Some)"

definition db_enable :: "dbenv \<Rightarrow> bool \<Rightarrow> 'f db \<Rightarrow> 'f db \<times> err option" where
  "db_enable V on d = (case de_fault V ''enable'' of Some e \<Rightarrow> (d, Some e)
     | None \<Rightarrow> commit V d (d\<lparr>db_enabled := on\<rparr>) None Some)"

section \<open>Instances\<close>

text \<open>\<open>Identify\<close>: \<open>host\<close> is what \<open>os.Hostname\<close> gives, \<open>name\<close> the variable \<open>ART_INSTANCE_NAME\<close>.\<close>

definition identify :: "string \<Rightarrow> string res \<Rightarrow> string \<Rightarrow> string \<Rightarrow> dbconf \<Rightarrow> dbconf res" where
  "identify role host name exec C =
     (if role \<noteq> ''web'' \<and> role \<noteq> ''renderer'' then Inl (ErrMsg ''invalid instance role'')
      else bind_res host (\<lambda>h. let n = (if name = '''' then h else name) in
        if length n > 200 \<or> length h > 200 then Inl (ErrMsg ''instance name or hostname exceeds 200 bytes'')
        else Inr (C\<lparr>dc_instance := \<lparr>di_id = role @ ''-'' @ exec, di_role = role, di_hostname = h, di_name = n,
          di_build = dc_build C\<rparr>\<rparr>)))"

definition heartbeat :: "dbconf \<Rightarrow> dbenv \<Rightarrow> bool option \<Rightarrow> 'f db \<Rightarrow> 'f db \<times> err option" where
  "heartbeat C V storage d = (let n = dc_instance C in
     if di_id n = '''' then (d, Some (ErrMsg ''instance identity not configured''))
     else case de_fault V ''heartbeat'' of Some e \<Rightarrow> (d, Some e)
     | None \<Rightarrow> commit V d (d\<lparr>db_instances := mput (di_id n)
         (case mget (db_instances d) (di_id n) of
            None \<Rightarrow> \<lparr>dj_instance = n, dj_touched = de_now V, dj_stopped = None, dj_storage = storage\<rparr>
          | Some r \<Rightarrow> r\<lparr>dj_touched := de_now V, dj_storage := storage, dj_stopped := None\<rparr>)
         (db_instances d)\<rparr>) None Some)"

definition stop_instance :: "dbconf \<Rightarrow> dbenv \<Rightarrow> 'f db \<Rightarrow> 'f db \<times> err option" where
  "stop_instance C V d = (case de_fault V ''stop'' of Some e \<Rightarrow> (d, Some e)
     | None \<Rightarrow> commit V d (d\<lparr>db_instances := update_rows (\<lambda>k r.
         if k = di_id (dc_instance C) then r\<lparr>dj_stopped := Some (de_now V)\<rparr> else r) (db_instances d)\<rparr>) None Some)"

section \<open>Migrations\<close>

text \<open>
  The table \<open>art_schema\<close> as the list of its rows in order of version; \<open>ms\<close> are the migrations' texts.
  Running a migration's statements is an argument that may fail. River's own versions are compared as
  lists of number and name.
\<close>

type_synonym schema_table = "(int \<times> string) list"

fun migrate_from :: "golib \<Rightarrow> (string \<Rightarrow> err option) \<Rightarrow> int \<Rightarrow> int \<Rightarrow> string list \<Rightarrow> schema_table \<Rightarrow> schema_table res" where
  "migrate_from L run latest n [] rows = Inr rows"
| "migrate_from L run latest n (m # ms) rows = (case mget rows n of
       None \<Rightarrow>
         if latest \<ge> n then Inl (ErrMsg ''application migration history has a gap'')
         else (case run m of Some e \<Rightarrow> Inl e
           | None \<Rightarrow> migrate_from L run latest (n + 1) ms (rows @ [(n, token_hash L m)]))
     | Some c \<Rightarrow>
         if c \<noteq> token_hash L m then Inl (ErrMsg ''application migration checksum mismatch'')
         else migrate_from L run latest (n + 1) ms rows)"

definition migrate :: "golib \<Rightarrow> (string \<Rightarrow> err option) \<Rightarrow> string list \<Rightarrow> schema_table \<Rightarrow> schema_table res" where
  "migrate L run ms rows = (let latest = fold max (map fst rows) 0 in
     if latest > int (length ms) then Inl (ErrMsg ''database schema is newer than this release'')
     else migrate_from L run latest 1 ms rows)"

fun schema_rows_ok :: "golib \<Rightarrow> int \<Rightarrow> string list \<Rightarrow> schema_table \<Rightarrow> bool" where
  "schema_rows_ok L n ms [] = (ms = [])"
| "schema_rows_ok L n [] (r # rs) = False"
| "schema_rows_ok L n (m # ms) ((v, c) # rs) = (v = n \<and> c = token_hash L m \<and> schema_rows_ok L (n + 1) ms rs)"

definition check_schema :: "golib \<Rightarrow> string list \<Rightarrow> (int \<times> string) list \<Rightarrow> (int \<times> string) list \<Rightarrow> schema_table \<Rightarrow> err option" where
  "check_schema L ms have want rows =
     (if \<not> schema_rows_ok L 1 ms rows then Some (ErrMsg ''incompatible application schema'')
      else if length have \<noteq> length want then Some (ErrMsg ''incompatible River schema'')
      else if \<not> list_all (\<lambda>v. v \<in> set want) have then Some (ErrMsg ''incompatible River migration set'')
      else None)"

text \<open>\<open>Ready\<close>: the schema is this release's, and a renderer of the same build is alive.\<close>

definition db_ready :: "dbconf \<Rightarrow> dbenv \<Rightarrow> string list \<Rightarrow> (int \<times> string) list \<Rightarrow> (int \<times> string) list
    \<Rightarrow> schema_table \<Rightarrow> 'f db \<Rightarrow> err option" where
  "db_ready C V ms have want rows d = (case check_schema (de_lib V) ms have want rows of Some e \<Rightarrow> Some e
     | None \<Rightarrow> (case de_fault V ''ready'' of Some e \<Rightarrow> Some e
     | None \<Rightarrow> if list_ex (\<lambda>(k, r). dn_build r = db_build d \<and> dn_build r = dc_build C
           \<and> dn_touched r > de_now V - 45 * second \<and> dn_storage r) (db_renderers d)
         then None else Some (ErrMsg ''matching renderer unavailable'')))"

section \<open>Local events\<close>

text \<open>The hub's subscribers by channel; a channel of capacity one is full or empty.\<close>

type_synonym hub = "(nat, bool) gomap"

definition hub_subscribe :: "nat \<Rightarrow> hub \<Rightarrow> hub" where
  "hub_subscribe ch h = mput ch False h"

definition hub_leave :: "nat \<Rightarrow> hub \<Rightarrow> hub" where
  "hub_leave ch h = mdel ch h"

definition hub_broadcast :: "hub \<Rightarrow> hub" where
  "hub_broadcast h = map (\<lambda>(ch, full). (ch, True)) h"

end
