(* ===== verification/Objects.thy ===== *)
theory Objects
  imports Protocol
begin

text \<open>
  \<open>internal/objectstore\<close>: immutable PNGs in a private bucket. The bucket is a map from keys, relative to
  the configured prefix, to the bytes and the time of their last modification. The S3 client is outside
  the repository: a call may fail, and a failed write or deletion may have taken place all the same.
\<close>

type_synonym bucket_objects = "(string, string \<times> int) gomap"

section \<open>Configuration\<close>

text \<open>What \<open>url.Parse\<close> gives for the endpoint.\<close>

record endpoint =
  ep_scheme :: string
  ep_host :: string
  ep_user :: bool
  ep_query :: string

record object_config =
  oc_endpoint :: string
  oc_region :: string
  oc_bucket :: string
  oc_prefix :: string
  oc_access :: string
  oc_secret :: string
  oc_local :: bool

record object_store =
  ob_bucket :: string
  ob_prefix :: string
  ob_location :: string

definition key_char :: "char \<Rightarrow> bool" where
  "key_char c \<longleftrightarrow> (let n = of_char c :: nat in
     97 \<le> n \<and> n \<le> 122 \<or> 65 \<le> n \<and> n \<le> 90 \<or> 48 \<le> n \<and> n \<le> 57 \<or> c \<in> set ''/-_.'')"

fun has_dots :: "string \<Rightarrow> bool" where
  "has_dots (a # b # s) = (a = CHR ''.'' \<and> b = CHR ''.'' \<or> has_dots (b # s))"
| "has_dots s = False"

definition safe_key :: "string \<Rightarrow> bool" where
  "safe_key key \<longleftrightarrow> \<not> (key = '''' \<or> hd key = CHR ''/'' \<or> has_dots key) \<and> list_all key_char key"

definition objects_new :: "(string \<Rightarrow> endpoint res) \<Rightarrow> object_config \<Rightarrow> object_store res" where
  "objects_new parse c = (case parse (oc_endpoint c) of
       Inl _ \<Rightarrow> Inl (ErrMsg ''invalid S3 endpoint; HTTPS required'')
     | Inr u \<Rightarrow>
         if ep_host u = '''' \<or> ep_user u \<or> ep_query u \<noteq> ''''
           \<or> ep_scheme u \<noteq> ''https'' \<and> (\<not> oc_local c \<or> ep_scheme u \<noteq> ''http'')
         then Inl (ErrMsg ''invalid S3 endpoint; HTTPS required'')
         else if oc_bucket c = '''' \<or> oc_region c = '''' \<or> oc_access c = '''' \<or> oc_secret c = ''''
         then Inl (ErrMsg ''incomplete S3 configuration'')
         else let prefix = (if oc_prefix c = '''' then ''artifacts'' else oc_prefix c) in
           if \<not> safe_key prefix then Inl (ErrMsg ''invalid S3 prefix'')
           else Inr \<lparr>ob_bucket = oc_bucket c, ob_prefix = prefix @ ''/'',
             ob_location = oc_endpoint c @ ''/'' @ oc_bucket c @ ''/'' @ prefix\<rparr>)"

section \<open>Operations\<close>

text \<open>\<open>fault\<close> is the error of the client and whether the call took place.\<close>

definition object_put :: "(err \<times> bool) option \<Rightarrow> int \<Rightarrow> string \<Rightarrow> string \<Rightarrow> bucket_objects
    \<Rightarrow> bucket_objects \<times> err option" where
  "object_put fault now key data obs =
     (if \<not> safe_key key \<or> data = '''' \<or> int (length data) > MaxImage then (obs, Some (ErrMsg ''invalid object''))
      else case fault of
        None \<Rightarrow> (mput key (data, now) obs, None)
      | Some (e, applied) \<Rightarrow> (if applied then mput key (data, now) obs else obs, Some e))"

definition object_get :: "golib \<Rightarrow> err option \<Rightarrow> string \<Rightarrow> string \<Rightarrow> int \<Rightarrow> bucket_objects \<Rightarrow> string res" where
  "object_get L fault key digest sz obs =
     (if \<not> safe_key key \<or> sz < 1 \<or> sz > MaxImage then Inl (ErrMsg ''invalid object metadata'')
      else case fault of Some e \<Rightarrow> Inl e
      | None \<Rightarrow> (case mget obs key of
          None \<Rightarrow> Inl ErrNotExist
        | Some (body, t) \<Rightarrow>
            let b = take (nat sz) body in
            if int (length b) < sz then Inl (ErrMsg (if b = '''' then ''EOF'' else ''unexpected EOF''))
            else if int (length body) > sz then Inl (ErrMsg ''unexpected trailing image data'')
            else if gl_sha256 L b \<noteq> digest then Inl (ErrMsg ''image integrity mismatch'')
            else Inr b))"

definition object_delete :: "(err \<times> bool) option \<Rightarrow> string \<Rightarrow> bucket_objects \<Rightarrow> bucket_objects \<times> err option" where
  "object_delete fault key obs =
     (if \<not> safe_key key then (obs, Some (ErrMsg ''invalid object key''))
      else case fault of
        None \<Rightarrow> (mdel key obs, None)
      | Some (e, applied) \<Rightarrow> (if applied then mdel key obs else obs, Some e))"

lemma object_get_Inr:
  "object_get L fault key digest sz obs = Inr b \<Longrightarrow>
    (\<exists>t. mget obs key = Some (b, t)) \<and> int (length b) = sz \<and> gl_sha256 L b = digest"
  by (auto simp: object_get_def Let_def split: if_splits option.splits)

lemma object_get_complete:
  assumes "mget obs key = Some (b, t)" "safe_key key" "1 \<le> length b" "int (length b) \<le> MaxImage"
  shows "object_get L None key (gl_sha256 L b) (int (length b)) obs = Inr b"
  using assms by (cases b) (simp_all add: object_get_def)

end
