(* ===== verification/DurableWork.thy ===== *)
theory DurableWork
  imports Durable Objects
begin

text \<open>
  \<open>internal/persistence/worker.go\<close> and \<open>maintenance.go\<close>: one attempt of the renderer's worker at a job,
  from the check of the bucket to the publication, and one run of the maintenance job. Between two
  transactions of an attempt or a run everything else may happen, so both are machines whose phase says
  which transaction or call comes next; one step is one transaction, one call of the object store, or
  the rendering.
\<close>

section \<open>Transactions of the worker\<close>

text \<open>An error that River retries, and one that cancels the job (\<open>river.JobCancel\<close>).\<close>

datatype work_err = Retry err | JobCancel err

fun cause :: "work_err \<Rightarrow> err" where
  "cause (Retry e) = e"
| "cause (JobCancel e) = e"

text \<open>The job as River handed it to the worker, the attempt's generation and its phase.\<close>

datatype phase =
    PhCheck
  | PhBegin nat
  | PhRender request int
  | PhReserve int string
  | PhPut int string
  | PhComplete nat int string
  | PhFail err
  | PhDone "work_err option"

record attempt =
  at_job :: int
  at_attempt :: int
  at_request :: string
  at_build :: string
  at_generation :: string
  at_phase :: phase

definition live_interest :: "dbenv \<Rightarrow> 'f db \<Rightarrow> string \<Rightarrow> bool" where
  "live_interest V d i = list_ex (\<lambda>(k, r). r = i \<and> live_workspace V d k) (db_interests d)"

definition eligible :: "dbenv \<Rightarrow> attempt \<Rightarrow> 'f db \<Rightarrow> err option" where
  "eligible V a d = (case de_fault V ''eligible'' of Some e \<Rightarrow> Some e
     | None \<Rightarrow> (case mget (db_jobs d) (at_job a) of
         None \<Rightarrow> Some ErrNotExist
       | Some j \<Rightarrow> if rj_state j \<noteq> JRunning \<or> rj_attempt j \<noteq> at_attempt a
           then Some (ErrMsg ''render attempt superseded'') else None))"

definition overdue :: "dbconf \<Rightarrow> dbenv \<Rightarrow> request_row \<Rightarrow> bool" where
  "overdue C V r = (case dr_started r of
       None \<Rightarrow> dr_created r < de_now V - p_queue_age (dc_policy C) * second
     | Some t \<Rightarrow> t < de_now V - 5 * minute)"

definition update_request :: "string \<Rightarrow> (request_row \<Rightarrow> request_row) \<Rightarrow> 'f db \<Rightarrow> 'f db" where
  "update_request i f d = d\<lparr>db_requests := (case mget (db_requests d) i of
     None \<Rightarrow> db_requests d | Some r \<Rightarrow> mput i (f r) (db_requests d))\<rparr>"

definition work_begin :: "dbconf \<Rightarrow> dbenv \<Rightarrow> attempt \<Rightarrow> 'f db \<Rightarrow> 'f db \<times> (work_err + request \<times> int)" where
  "work_begin C V a d = (case de_fault V ''begin'' of Some e \<Rightarrow> (d, Inl (Retry e))
     | None \<Rightarrow> (case eligible V a d of Some e \<Rightarrow> (d, Inl (JobCancel e))
     | None \<Rightarrow> (let i = at_request a; gone = JobCancel (ErrMsg ''render request no longer active'') in
         case mget (db_requests d) i of
           None \<Rightarrow> (d, Inl gone)
         | Some r \<Rightarrow>
             if dr_job r \<noteq> at_job a \<or> dr_epoch r \<noteq> db_epoch d \<or> \<not> live_interest V d i \<or> db_build d \<noteq> at_build a
             then (d, Inl gone)
             else if overdue C V r
             then commit V d (update_request i (\<lambda>r. r\<lparr>dr_outcome := Expired\<rparr>) d)
               (Inl (JobCancel (ErrMsg ''render request expired''))) (\<lambda>e. Inl (Retry e))
             else commit V d (update_request i (\<lambda>r. r\<lparr>dr_generation := at_generation a, dr_outcome := Running,
                 dr_started := (case dr_started r of None \<Rightarrow> Some (de_now V) | Some t \<Rightarrow> Some t)\<rparr>) d)
               (Inr (\<lparr>q_version = 1, q_build = db_build d, q_recipe = dr_recipe r, q_tier = dr_tier r\<rparr>, db_epoch d))
               (\<lambda>e. Inl (Retry e)))))"

definition work_terminal :: "dbenv \<Rightarrow> attempt \<Rightarrow> err \<Rightarrow> 'f db \<Rightarrow> 'f db \<times> work_err" where
  "work_terminal V a e d = (case de_fault V ''terminal'' of Some f \<Rightarrow> (d, Retry f)
     | None \<Rightarrow> commit V d (update_request (at_request a)
         (\<lambda>r. if dr_generation r = at_generation a then r\<lparr>dr_outcome := Failed\<rparr> else r) d) (JobCancel e) Retry)"

definition upload_bytes :: "'f db \<Rightarrow> int" where
  "upload_bytes d = tot (\<lambda>k u. if du_deleted u = None then du_size u else 0) (db_uploads d)"

definition upload_count :: "'f db \<Rightarrow> int" where
  "upload_count d = cnt (\<lambda>k u. du_deleted u = None) (db_uploads d)"

definition work_reserve :: "dbenv \<Rightarrow> attempt \<Rightarrow> string \<Rightarrow> int \<Rightarrow> 'f db \<Rightarrow> 'f db \<times> work_err option" where
  "work_reserve V a key sz d = (case de_fault V ''reserve'' of Some e \<Rightarrow> (d, Some (Retry e))
     | None \<Rightarrow>
         if (case mget (db_requests d) (at_request a) of None \<Rightarrow> True
             | Some r \<Rightarrow> dr_generation r \<noteq> at_generation a \<or> dr_job r \<noteq> at_job a)
         then (d, Some (JobCancel (ErrMsg ''superseded upload'')))
         else if upload_bytes d + sz > 2 * 2 ^ 30 \<or> upload_count d \<ge> 5000
         then (d, Some (Retry (ErrMsg ''image storage capacity reached'')))
         else if mget (db_uploads d) key \<noteq> None \<or> sz < 1 \<or> sz > 16777216
         then (d, Some (Retry (ErrMsg ''constraint violation'')))
         else commit V d (d\<lparr>db_uploads := mput key \<lparr>du_request = at_request a, du_generation = at_generation a,
             du_size = sz, du_state = UPending, du_created = de_now V, du_delete_after = None, du_deleted = None\<rparr>
             (db_uploads d)\<rparr>) None (\<lambda>e. Some (Retry e)))"

text \<open>What \<open>complete\<close> asks of the request, and what it writes.\<close>

definition publishable :: "dbenv \<Rightarrow> attempt \<Rightarrow> int \<Rightarrow> 'f db \<Rightarrow> bool" where
  "publishable V a epoch d = (case mget (db_requests d) (at_request a) of None \<Rightarrow> False
     | Some r \<Rightarrow> dr_epoch r = db_epoch d \<and> dr_build r = db_build d \<and> dr_job r = at_job a
         \<and> dr_generation r = at_generation a \<and> dr_epoch r = epoch \<and> live_interest V d (at_request a))"

definition publish_upload :: "dbenv \<Rightarrow> string \<Rightarrow> string \<Rightarrow> string \<Rightarrow> int \<Rightarrow> upload_row \<Rightarrow> 'f db \<Rightarrow> 'f db" where
  "publish_upload V i key digest sz u d =
     (let us = mput key (u\<lparr>du_state := UPublished\<rparr>) (db_uploads d);
          us' = mark_deleting (de_now V + 60 * minute) (\<lambda>k u. k \<noteq> key \<and>
            (case mget (db_artifacts d) i of None \<Rightarrow> False | Some a \<Rightarrow> da_key a = k)) us;
          row = \<lparr>da_key = key, da_digest = digest, da_size = sz, da_created = de_now V,
            da_expires = de_now V + 24 * 60 * minute\<rparr>
      in update_request i (\<lambda>r. r\<lparr>dr_outcome := Ready\<rparr>)
           (d\<lparr>db_uploads := us', db_artifacts := mput i row (db_artifacts d)\<rparr>))"

definition work_complete :: "dbconf \<Rightarrow> dbenv \<Rightarrow> attempt \<Rightarrow> int \<Rightarrow> string \<Rightarrow> string \<Rightarrow> int \<Rightarrow> 'f db
    \<Rightarrow> 'f db \<times> work_err option" where
  "work_complete C V a epoch key digest sz d = (case de_fault V ''complete'' of Some e \<Rightarrow> (d, Some (Retry e))
     | None \<Rightarrow> (case eligible V a d of Some e \<Rightarrow> (d, Some (Retry e))
     | None \<Rightarrow>
         if \<not> publishable V a epoch d then (d, Some (JobCancel (ErrMsg ''publication no longer authorized'')))
         else case mget (db_uploads d) key of
           None \<Rightarrow> (d, Some (Retry (ErrMsg ''upload no longer publishable'')))
         | Some u \<Rightarrow>
             if du_state u \<noteq> UPending \<or> du_generation u \<noteq> at_generation a
             then (d, Some (Retry (ErrMsg ''upload no longer publishable'')))
             else if sz < 1 \<or> sz > 16777216
               \<or> list_ex (\<lambda>(j, b). j \<noteq> at_request a \<and> da_key b = key) (db_artifacts d)
             then (d, Some (Retry (ErrMsg ''constraint violation'')))
             else let d1 = publish_upload V (at_request a) key digest sz u d;
                 (jobs, st) = rv_complete (dc_river C) (at_job a) (db_jobs d1) in
               if st \<noteq> JCompleted then (d, Some (Retry (ErrMsg ''river refused completion'')))
               else commit V d (d1\<lparr>db_jobs := jobs\<rparr>) None (\<lambda>e. Some (Retry e))))"

definition check_bucket :: "dbenv \<Rightarrow> object_store \<Rightarrow> 'f db \<Rightarrow> err option" where
  "check_bucket V S d = (case de_fault V ''bucket'' of Some e \<Rightarrow> Some e
     | None \<Rightarrow> if db_bound d \<and> db_location d = ob_location S then None
         else Some (ErrMsg ''image bucket has not been bound to this database''))"

section \<open>One attempt\<close>

text \<open>
  What a step gets from outside besides its transaction: the state of the context, the renderer (what it
  wrote and its error), the object store's answers, PNG decoding, and which errors are serialization
  failures of PostgreSQL.
\<close>

record workenv =
  we_tx :: dbenv
  we_ctx :: "err option"
  we_health :: "err option"
  we_render :: "request \<Rightarrow> string \<times> err option"
  we_put :: "(err \<times> bool) option"
  we_png :: png
  we_serial :: "err \<Rightarrow> bool"

definition image_key :: "string \<Rightarrow> string \<Rightarrow> string" where
  "image_key i g = i @ ''/'' @ g @ ''.png''"

definition at_key :: "attempt \<Rightarrow> string" where
  "at_key a = image_key (at_request a) (at_generation a)"

text \<open>\<open>retrySerialization\<close> after one run of the transaction: repeat, at most twice, or give up.\<close>

definition retry_serialization :: "workenv \<Rightarrow> nat \<Rightarrow> (nat \<Rightarrow> phase) \<Rightarrow> work_err \<Rightarrow> phase" where
  "retry_serialization W n again e =
     (if n \<ge> 2 \<or> \<not> we_serial W (cause e) then PhDone (Some e)
      else case we_ctx W of Some c \<Rightarrow> PhDone (Some (Retry c)) | None \<Rightarrow> again (Suc n))"

text \<open>The checks on what the renderer wrote.\<close>

definition check_image :: "workenv \<Rightarrow> request \<Rightarrow> string \<Rightarrow> err option" where
  "check_image W q data = (case publish_validate (de_lib (we_tx W)) (q_recipe q) of Inl e \<Rightarrow> Some e
     | Inr r \<Rightarrow> (case tier (r_id r) (q_tier q) of Inl e \<Rightarrow> Some e
     | Inr t \<Rightarrow>
         if pn_size (we_png W) data \<noteq> Some (rn_width t, rn_height t) \<or> int (length data) > MaxImage
         then Some (ErrMsg ''invalid renderer output'')
         else if \<not> pn_decodes (we_png W) data then Some (ErrMsg ''png'') else None))"

definition work_step :: "dbconf \<Rightarrow> object_store \<Rightarrow> workenv \<Rightarrow> attempt \<Rightarrow> 'f db \<Rightarrow> bucket_objects
    \<Rightarrow> attempt \<times> 'f db \<times> bucket_objects" where
  "work_step C S W a d obs = (let V = we_tx W; go = (\<lambda>p. a\<lparr>at_phase := p\<rparr>) in case at_phase a of
       PhCheck \<Rightarrow>
         (go (if at_build a \<noteq> dc_build C then PhDone (Some (JobCancel (ErrMsg ''unsupported renderer build'')))
            else case check_bucket V S d of Some e \<Rightarrow> PhDone (Some (Retry e))
            | None \<Rightarrow> (case we_health W of Some e \<Rightarrow> PhDone (Some (Retry e)) | None \<Rightarrow> PhBegin 0)), d, obs)
     | PhBegin n \<Rightarrow> (case work_begin C V a d of
           (d', Inl e) \<Rightarrow> (go (retry_serialization W n PhBegin e), d', obs)
         | (d', Inr (q, epoch)) \<Rightarrow> (go (PhRender q epoch), d', obs))
     | PhRender q epoch \<Rightarrow> (case we_render W q of
           (data, Some e) \<Rightarrow> (go (case we_ctx W of Some c \<Rightarrow> PhDone (Some (Retry c)) | None \<Rightarrow> PhFail e), d, obs)
         | (data, None) \<Rightarrow> (go (case check_image W q data of Some e \<Rightarrow> PhFail e | None \<Rightarrow> PhReserve epoch data), d, obs))
     | PhReserve epoch data \<Rightarrow> (case work_reserve V a (at_key a) (int (length data)) d of
           (d', Some e) \<Rightarrow> (go (PhDone (Some e)), d', obs)
         | (d', None) \<Rightarrow> (go (PhPut epoch data), d', obs))
     | PhPut epoch data \<Rightarrow> (case object_put (we_put W) (de_now V) (at_key a) data obs of
           (obs', Some e) \<Rightarrow> (go (PhDone (Some (Retry e))), d, obs')
         | (obs', None) \<Rightarrow> (go (PhComplete 0 epoch data), d, obs'))
     | PhComplete n epoch data \<Rightarrow>
         (case work_complete C V a epoch (at_key a) (gl_sha256 (de_lib V) data) (int (length data)) d of
           (d', Some e) \<Rightarrow> (go (retry_serialization W n (\<lambda>m. PhComplete m epoch data) e), d', obs)
         | (d', None) \<Rightarrow> (go (PhDone None), d', obs))
     | PhFail e \<Rightarrow> (case work_terminal V a e d of (d', f) \<Rightarrow> (go (PhDone (Some f)), d', obs))
     | PhDone r \<Rightarrow> (a, d, obs))"

section \<open>Maintenance\<close>

definition day :: int where
  "day = 24 * 60 * minute"

text \<open>The statements of the cleaning transaction, in order.\<close>

definition expired_interests :: "dbenv \<Rightarrow> 'f db \<Rightarrow> (string \<times> string) list" where
  "expired_interests V d = take 100 (filter (\<lambda>(k, i). case mget (db_workspaces d) k of None \<Rightarrow> False
     | Some w \<Rightarrow> dw_expires w \<le> de_now V) (db_interests d))"

definition drop_workspaces :: "dbenv \<Rightarrow> 'f db \<Rightarrow> 'f db" where
  "drop_workspaces V d = (let ks = map fst (take 100 (filter (\<lambda>(k, w). dw_expires w \<le> de_now V
       \<and> \<not> list_ex (\<lambda>(k', i). k' = k) (db_interests d)) (db_workspaces d))) in
     d\<lparr>db_workspaces := filter (\<lambda>(k, w). k \<notin> set ks) (db_workspaces d),
       db_interests := filter (\<lambda>(k, i). k \<notin> set ks) (db_interests d),
       db_pins := filter (\<lambda>((k, s), r). k \<notin> set ks) (db_pins d)\<rparr>)"

definition settle_requests :: "'f db \<Rightarrow> 'f db" where
  "settle_requests d = d\<lparr>db_requests := update_rows (\<lambda>i r.
     case mget (db_jobs d) (dr_job r) of None \<Rightarrow> r
     | Some j \<Rightarrow> if rj_state j \<in> {JCancelled, JDiscarded} \<and> dr_outcome r \<in> {Queued, Running}
         then r\<lparr>dr_outcome := (if rj_state j = JDiscarded then Failed
           else if dr_outcome r \<in> {Failed, Expired} then dr_outcome r else Cancelled)\<rparr> else r) (db_requests d)\<rparr>"

definition drop_artifacts :: "dbenv \<Rightarrow> 'f db \<Rightarrow> 'f db" where
  "drop_artifacts V d = (let gone = take 100 (filter (\<lambda>(i, a). da_expires a \<le> de_now V \<and> \<not> pinned V d i)
       (db_artifacts d)) in
     d\<lparr>db_artifacts := filter (\<lambda>(i, a). i \<notin> fst ` set gone) (db_artifacts d),
       db_uploads := mark_deleting (de_now V + 60 * minute) (\<lambda>k u. k \<in> da_key ` snd ` set gone) (db_uploads d)\<rparr>)"

definition drop_pending :: "dbenv \<Rightarrow> 'f db \<Rightarrow> 'f db" where
  "drop_pending V d = d\<lparr>db_uploads := mark_deleting (de_now V)
     (\<lambda>k u. du_state u = UPending \<and> du_created u < de_now V - 60 * minute
        \<and> \<not> list_ex (\<lambda>(i, a). da_key a = k) (db_artifacts d)) (db_uploads d)\<rparr>"

definition forgotten_upload :: "dbenv \<Rightarrow> upload_row \<Rightarrow> bool" where
  "forgotten_upload V u \<longleftrightarrow> du_state u = UDeleting \<and> du_created u < de_now V - 8 * day
     \<and> (case du_deleted u of None \<Rightarrow> False | Some t \<Rightarrow> t < de_now V - 7 * day)"

definition drop_old_rows :: "dbenv \<Rightarrow> 'f db \<Rightarrow> 'f db" where
  "drop_old_rows V d = d\<lparr>db_buckets := filter (\<lambda>(k, b). \<not> stale_bucket V b) (db_buckets d),
     db_renderers := filter (\<lambda>(k, r). \<not> dn_touched r < de_now V - day) (db_renderers d),
     db_instances := filter (\<lambda>(k, r). \<not> dj_touched r < de_now V - 8 * day) (db_instances d),
     db_uploads := filter (\<lambda>(k, u). \<not> forgotten_upload V u) (db_uploads d)\<rparr>"

definition unused_request :: "dbenv \<Rightarrow> 'f db \<Rightarrow> string \<Rightarrow> request_row \<Rightarrow> bool" where
  "unused_request V d i r \<longleftrightarrow> dr_created r < de_now V - day
     \<and> (case mget (db_jobs d) (dr_job r) of None \<Rightarrow> True
        | Some j \<Rightarrow> rj_state j \<in> {JCompleted, JDiscarded, JCancelled})
     \<and> \<not> list_ex (\<lambda>(k, j). j = i) (db_interests d) \<and> \<not> list_ex (\<lambda>(k, j). j = i) (db_pins d)
     \<and> mget (db_artifacts d) i = None \<and> \<not> list_ex (\<lambda>(k, u). du_request u = i) (db_uploads d)"

definition drop_requests :: "dbenv \<Rightarrow> 'f db \<Rightarrow> 'f db" where
  "drop_requests V d = (let is = map fst (take 100 (filter (\<lambda>(i, r). unused_request V d i r) (db_requests d))) in
     d\<lparr>db_requests := filter (\<lambda>(i, r). i \<notin> set is) (db_requests d)\<rparr>)"

definition clean :: "dbconf \<Rightarrow> dbenv \<Rightarrow> 'f db \<Rightarrow> 'f db \<times> err option" where
  "clean C V d = (case de_fault V ''maintenance'' of Some e \<Rightarrow> (d, Some e)
     | None \<Rightarrow> (let q = foldl (\<lambda>q (k, i). queue_cancel C V k i q) \<lparr>qt_db = d, qt_err = None\<rparr> (expired_interests V d) in
         case qt_err q of Some e \<Rightarrow> (d, Some e)
         | None \<Rightarrow> commit V d (drop_requests V (drop_old_rows V (drop_pending V (drop_artifacts V
             (settle_requests (drop_workspaces V (qt_db q))))))) None Some))"

definition doomed_keys :: "dbenv \<Rightarrow> 'f db \<Rightarrow> string list" where
  "doomed_keys V d = map fst (take 100 (sort_key (\<lambda>(k, u). case du_delete_after u of None \<Rightarrow> 0 | Some t \<Rightarrow> t)
     (filter (\<lambda>(k, u). du_state u = UDeleting \<and> (case du_delete_after u of None \<Rightarrow> False | Some t \<Rightarrow> t \<le> de_now V))
       (db_uploads d))))"

definition note_deleted :: "dbenv \<Rightarrow> string \<Rightarrow> 'f db \<Rightarrow> 'f db" where
  "note_deleted V key d = d\<lparr>db_uploads := update_rows (\<lambda>k u.
     if k = key \<and> du_state u = UDeleting
     then u\<lparr>du_deleted := (case du_deleted u of None \<Rightarrow> Some (de_now V) | Some t \<Rightarrow> Some t),
       du_delete_after := Some (de_now V + 60 * minute)\<rparr> else u) (db_uploads d)\<rparr>"

text \<open>
  One run: the bucket check, the cleaning transaction under an advisory lock (\<open>me_locked\<close> says whether it
  was free), the doomed objects one by one, and one page of the reconciliation, object by object.
\<close>

datatype mphase =
    MCheck
  | MClean
  | MQuery
  | MSweep "string list"
  | MNote string "string list"
  | MList
  | MReconcile "(string \<times> int) list" string
  | MOrphan string "(string \<times> int) list" string
  | MDone "err option"

record maintenv =
  me_tx :: dbenv
  me_locked :: bool
  me_delete :: "(err \<times> bool) option"
  me_page :: "string \<Rightarrow> ((string \<times> int) list \<times> string) res"

definition maintain_step :: "dbconf \<Rightarrow> object_store \<Rightarrow> maintenv \<Rightarrow> mphase \<Rightarrow> 'f db \<Rightarrow> bucket_objects
    \<Rightarrow> mphase \<times> 'f db \<times> bucket_objects" where
  "maintain_step C S M p d obs = (let V = me_tx M in case p of
       MCheck \<Rightarrow> (case check_bucket V S d of Some e \<Rightarrow> (MDone (Some e), d, obs) | None \<Rightarrow> (MClean, d, obs))
     | MClean \<Rightarrow>
         if \<not> me_locked M then (MDone None, d, obs)
         else (case clean C V d of (d', Some e) \<Rightarrow> (MDone (Some e), d', obs) | (d', None) \<Rightarrow> (MQuery, d', obs))
     | MQuery \<Rightarrow> (case de_fault V ''doomed'' of Some e \<Rightarrow> (MDone (Some e), d, obs)
         | None \<Rightarrow> (MSweep (doomed_keys V d), d, obs))
     | MSweep [] \<Rightarrow> (MList, d, obs)
     | MSweep (k # ks) \<Rightarrow> (case object_delete (me_delete M) k obs of
           (obs', Some e) \<Rightarrow> (MDone (Some e), d, obs')
         | (obs', None) \<Rightarrow> (MNote k ks, d, obs'))
     | MNote k ks \<Rightarrow> (case de_fault V ''note'' of Some e \<Rightarrow> (MDone (Some e), d, obs)
         | None \<Rightarrow> (case commit V d (note_deleted V k d) None Some of
             (d', Some e) \<Rightarrow> (MDone (Some e), d', obs)
           | (d', None) \<Rightarrow> (MSweep ks, d', obs)))
     | MList \<Rightarrow> (case de_fault V ''control'' of Some e \<Rightarrow> (MDone (Some e), d, obs)
         | None \<Rightarrow>
             if \<not> db_bound d then (MDone None, d, obs)
             else if db_location d \<noteq> ob_location S
             then (MDone (Some (ErrMsg ''image storage location differs from bound database'')), d, obs)
             else (case me_page M (db_cursor d) of Inl e \<Rightarrow> (MDone (Some e), d, obs)
               | Inr (os, next) \<Rightarrow> (MReconcile os next, d, obs)))
     | MReconcile [] next \<Rightarrow> (case de_fault V ''cursor'' of Some e \<Rightarrow> (MDone (Some e), d, obs)
         | None \<Rightarrow> (case commit V d (d\<lparr>db_cursor := next\<rparr>) None Some of (d', e) \<Rightarrow> (MDone e, d', obs)))
     | MReconcile ((k, t) # os) next \<Rightarrow>
         if de_now V - t < 60 * minute then (MReconcile os next, d, obs)
         else (case de_fault V ''known'' of Some e \<Rightarrow> (MDone (Some e), d, obs)
           | None \<Rightarrow> if mget (db_uploads d) k \<noteq> None then (MReconcile os next, d, obs)
               else (MOrphan k os next, d, obs))
     | MOrphan k os next \<Rightarrow> (case object_delete (me_delete M) k obs of
           (obs', Some e) \<Rightarrow> (MDone (Some e), d, obs')
         | (obs', None) \<Rightarrow> (MReconcile os next, d, obs'))
     | MDone r \<Rightarrow> (p, d, obs))"

text \<open>\<open>BindEmptyBucket\<close>: the page is what listing from the start gives.\<close>

definition bind_empty_bucket :: "dbenv \<Rightarrow> object_store \<Rightarrow> ((string \<times> int) list) res \<Rightarrow> 'f db \<Rightarrow> 'f db \<times> err option" where
  "bind_empty_bucket V S page d = (case de_fault V ''bind'' of Some e \<Rightarrow> (d, Some e)
     | None \<Rightarrow>
         if db_bound d
         then (d, if db_location d \<noteq> ob_location S
           then Some (ErrMsg ''image storage location differs from bound database'') else None)
         else (case page of Inl e \<Rightarrow> (d, Some e)
           | Inr os \<Rightarrow>
               if os \<noteq> [] then (d, Some (ErrMsg ''refusing to bind nonempty image prefix to an empty database''))
               else commit V d (d\<lparr>db_bound := True, db_location := ob_location S\<rparr>) None Some))"

end
