(* ===== verification/DurableStudio.thy ===== *)
theory DurableStudio
  imports DurableWork Studio
begin

text \<open>
  \<open>internal/studio/persistent.go\<close>: every operation of the studio as one database transaction. The
  workspace of the visitor is decoded from its row into a store that holds nothing else, the operation
  of \<open>studio.go\<close> runs on that store with the durable queue behind its interface, and the result is
  encoded back.
\<close>

section \<open>The stored form\<close>

record saved_exploration =
  sv_view :: view
  sv_actions :: "action list"
  sv_round :: int
  sv_recipes :: "string list"

record saved_workspace =
  sv_explorations :: "saved_exploration list"
  sv_entries :: "entry_action list"

text \<open>\<open>encoding/json\<close> on the stored form.\<close>

record snapshot_json =
  sj_marshal :: "saved_workspace \<Rightarrow> string res"
  sj_unmarshal :: "string \<Rightarrow> saved_workspace res"

definition save_exploration :: "exploration \<Rightarrow> saved_exploration" where
  "save_exploration x = \<lparr>sv_view = (x_view x)\<lparr>v_favourites := []\<rparr>, sv_actions = x_actions x,
     sv_round = x_round x, sv_recipes = map (\<lambda>a. r_canonical (sa_recipe a)) (v_samples (x_view x))\<rparr>"

definition save_workspace :: "workspace \<Rightarrow> saved_workspace" where
  "save_workspace w = \<lparr>sv_explorations = map (\<lambda>(i, x). save_exploration x) (ws_explorations w),
     sv_entries = ws_entries w\<rparr>"

definition encode_workspace :: "snapshot_json \<Rightarrow> workspace \<Rightarrow> string res" where
  "encode_workspace N w = sj_marshal N (save_workspace w)"

fun load_samples :: "golib \<Rightarrow> sample list \<Rightarrow> string list \<Rightarrow> sample list res" where
  "load_samples L (a # as) (raw # raws) = bind_res (decode L raw) (\<lambda>r.
     bind_res (load_samples L as raws) (\<lambda>as'. Inr (a\<lparr>sa_recipe := r\<rparr> # as')))"
| "load_samples L as raws = Inr []"

definition load_exploration :: "golib \<Rightarrow> saved_exploration \<Rightarrow> exploration res" where
  "load_exploration L s =
     (if length (sv_recipes s) \<noteq> length (v_samples (sv_view s)) then Inl (ErrMsg ''invalid persisted recipes'')
      else bind_res (load_samples L (v_samples (sv_view s)) (sv_recipes s)) (\<lambda>as.
        Inr \<lparr>x_view = (sv_view s)\<lparr>v_samples := as\<rparr>, x_actions = sv_actions s, x_round = sv_round s\<rparr>))"

definition decode_workspace :: "golib \<Rightarrow> snapshot_json \<Rightarrow> string \<Rightarrow> workspace \<Rightarrow> workspace res" where
  "decode_workspace L N data w =
     (if data = '''' then Inr w
      else bind_res (sj_unmarshal N data) (\<lambda>v.
        bind_res (map_res (load_exploration L) (sv_explorations v)) (\<lambda>xs.
        Inr (w\<lparr>ws_entries := ws_entries w @ sv_entries v,
          ws_explorations := foldl (\<lambda>m x. mput (v_id (x_view x)) x m) (ws_explorations w) xs\<rparr>))))"

section \<open>Transactions\<close>

text \<open>
  \<open>ps_sqlstate\<close> says which errors carry an SQL state. The clock, the tokens and the digest of the studio's
  operations are \<open>ps_studio\<close>.
\<close>

record persist_env =
  ps_conf :: dbconf
  ps_tx :: dbenv
  ps_json :: snapshot_json
  ps_studio :: studio_env
  ps_sqlstate :: "err \<Rightarrow> bool"

abbreviation ps_jobs :: "persist_env \<Rightarrow> 'f queue_tx jobs_api" where
  "ps_jobs P \<equiv> durable_jobs (ps_conf P) (ps_tx P)"

definition workspace_bytes :: "string \<Rightarrow> 'f db \<Rightarrow> int" where
  "workspace_bytes i d = tot (\<lambda>k w. if k = i then 0 else int (length (dw_data w))) (db_workspaces d)"

text \<open>The pins of a workspace: one for every favourite with a job, whose request must exist.\<close>

definition workspace_samples :: "workspace \<Rightarrow> sample list" where
  "workspace_samples w = concat (map (\<lambda>(i, x). v_samples (x_view x)) (ws_explorations w))"

definition kept_samples :: "workspace \<Rightarrow> sample list" where
  "kept_samples w = filter (\<lambda>a. sa_favourite a \<and> sa_job a \<noteq> '''') (workspace_samples w)"

definition write_pins :: "string \<Rightarrow> workspace \<Rightarrow> 'f db \<Rightarrow> 'f db res" where
  "write_pins i w d = (let as = kept_samples w in
     if \<not> distinct (map sa_id as) \<or> list_ex (\<lambda>a. mget (db_requests d) (sa_job a) = None) as
     then Inl ErrUnavailable
     else Inr (d\<lparr>db_pins := filter (\<lambda>((k, s), r). k \<noteq> i) (db_pins d)
       @ map (\<lambda>a. ((i, sa_id a), sa_job a)) as\<rparr>))"

text \<open>The interests that no sample of the workspace refers to any more.\<close>

definition referred :: "workspace \<Rightarrow> string set" where
  "referred w = (\<Union>a\<in>set (workspace_samples w). {k \<in> {sa_job a, sa_download a}. k \<noteq> ''''})"

definition obsolete_interests :: "string \<Rightarrow> workspace \<Rightarrow> 'f db \<Rightarrow> string list" where
  "obsolete_interests i w d = map snd (filter (\<lambda>(k, r). k = i \<and> r \<notin> referred w) (db_interests d))"

text \<open>The second half of a writing transaction.\<close>

definition save :: "persist_env \<Rightarrow> string \<Rightarrow> workspace \<Rightarrow> 'f queue_tx \<Rightarrow> 'f db res" where
  "save P i w q = (let d = qt_db q in
     bind_res (encode_workspace (ps_json P) w) (\<lambda>data.
     if workspace_bytes i d + int (length data) > 64 * 2 ^ 20 then Inl ErrBusy
     else if length data > 2097152 then Inl ErrUnavailable
     else let d1 = d\<lparr>db_workspaces := update_rows (\<lambda>k r. if k = i then r\<lparr>dw_data := data\<rparr> else r) (db_workspaces d)\<rparr> in
       bind_res (write_pins i w d1) (\<lambda>d2.
         let q' = foldl (\<lambda>q r. queue_cancel (ps_conf P) (ps_tx P) i r q) (q\<lparr>qt_db := d2\<rparr>) (obsolete_interests i w d2) in
         if qt_err q' \<noteq> None then Inl ErrUnavailable else Inr (qt_db q'))))"

text \<open>
  \<open>transaction\<close>: the workspace is loaded under the hash of the token, \<open>fn\<close> runs on the store, and the
  transaction commits. The store keeps its workspace and its queue, so the last branch never happens.
\<close>

definition loaded_store :: "persist_env \<Rightarrow> string \<Rightarrow> workspace \<Rightarrow> 'f db \<Rightarrow> 'f queue_tx store" where
  "loaded_store P i w d = (new_store (Some \<lparr>qt_db = d, qt_err = None\<rparr>) (dc_build (ps_conf P)))
     \<lparr>so_persistent := True, so_workspaces := [(i, w)]\<rparr>"

definition load_workspace :: "persist_env \<Rightarrow> string \<Rightarrow> 'f db \<Rightarrow> workspace res" where
  "load_workspace P i d = (case mget (db_workspaces d) i of
       None \<Rightarrow> Inl ErrExpired
     | Some r \<Rightarrow>
         if dw_expires r \<le> de_now (ps_tx P) then Inl ErrExpired
         else case decode_workspace (de_lib (ps_tx P)) (ps_json P) (dw_data r) \<lparr>ws_token = i, ws_csrf = dw_csrf r,
             ws_created = zero_time, ws_touched = zero_time, ws_explorations = [], ws_entries = []\<rparr> of
           Inl e \<Rightarrow> Inl ErrUnavailable | Inr w \<Rightarrow> Inr w)"

definition public_err :: "persist_env \<Rightarrow> err \<Rightarrow> err" where
  "public_err P e = (if ps_sqlstate P e then ErrUnavailable else e)"

definition transaction :: "persist_env \<Rightarrow> string \<Rightarrow> bool \<Rightarrow>
    ('f queue_tx store \<Rightarrow> string \<Rightarrow> 'f queue_tx store \<times> 'a res) \<Rightarrow> 'f db \<Rightarrow> 'f db \<times> 'a res" where
  "transaction P token write fn d = (case de_fault (ps_tx P) ''transaction'' of Some e \<Rightarrow> (d, Inl ErrUnavailable)
     | None \<Rightarrow> (let i = token_hash (de_lib (ps_tx P)) token in
         case load_workspace P i d of
           Inl e \<Rightarrow> (d, Inl e)
         | Inr w \<Rightarrow> (case fn (loaded_store P i w d) i of
             (s, Inl e) \<Rightarrow> (d, Inl (public_err P e))
           | (s, Inr v) \<Rightarrow> (case (so_queue s, mget (so_workspaces s) i) of
               (Some q, Some w') \<Rightarrow>
                 if qt_err q \<noteq> None then (d, Inl ErrUnavailable)
                 else (case (if write then save P i w' q else Inr (qt_db q)) of
                     Inl e \<Rightarrow> (d, Inl (public_err P e))
                   | Inr d' \<Rightarrow> commit (ps_tx P) d d' (Inr v) (\<lambda>_. Inl ErrUnavailable))
             | _ \<Rightarrow> (d, Inl ErrUnavailable)))))"

section \<open>Identities\<close>

definition persist_create :: "persist_env \<Rightarrow> 'f db \<Rightarrow> 'f db \<times> (string \<times> string) res" where
  "persist_create P d = (let V = ps_tx P; E = ps_studio P in
     case de_fault V ''create'' of Some e \<Rightarrow> (d, Inl ErrUnavailable)
     | None \<Rightarrow>
         if length (db_workspaces d) \<ge> 1000 then (d, Inl ErrBusy)
         else let t = ev_token E 0; c = ev_token E 1; i = token_hash (de_lib V) t in
           if mget (db_workspaces d) i \<noteq> None \<or> length i \<noteq> 64 then (d, Inl ErrUnavailable)
           else commit V d (d\<lparr>db_workspaces := mput i \<lparr>dw_csrf = c, dw_touched = de_now V,
               dw_expires = de_now V + 90 * day, dw_data = ''''\<rparr> (db_workspaces d)\<rparr>)
             (Inr (t, c)) (\<lambda>_. Inl ErrUnavailable))"

definition persist_session :: "persist_env \<Rightarrow> string \<Rightarrow> 'f db \<Rightarrow> (string \<times> string) res" where
  "persist_session P token d = (let V = ps_tx P in
     if length token \<noteq> 48 then Inl ErrExpired
     else case de_fault V ''session'' of Some e \<Rightarrow> Inl ErrUnavailable
     | None \<Rightarrow> (case mget (db_workspaces d) (token_hash (de_lib V) token) of
         None \<Rightarrow> Inl ErrExpired
       | Some r \<Rightarrow> if dw_expires r > de_now V then Inr (token, dw_csrf r) else Inl ErrExpired))"

definition persist_touch :: "persist_env \<Rightarrow> string \<Rightarrow> 'f db \<Rightarrow> 'f db \<times> err option" where
  "persist_touch P token d = (let V = ps_tx P; i = token_hash (de_lib V) token in
     case de_fault V ''touch'' of Some e \<Rightarrow> (d, Some ErrUnavailable)
     | None \<Rightarrow> (case mget (db_workspaces d) i of
         None \<Rightarrow> (d, Some ErrExpired)
       | Some r \<Rightarrow>
           if dw_expires r > de_now V
           then commit V d (d\<lparr>db_workspaces := mput i (r\<lparr>dw_touched := de_now V,
             dw_expires := de_now V + 90 * day\<rparr>) (db_workspaces d)\<rparr>) None (\<lambda>_. Some ErrUnavailable)
           else (d, Some ErrExpired)))"

section \<open>The operations\<close>

text \<open>An operation with an error but no value.\<close>

definition unit_res :: "'s \<times> err option \<Rightarrow> 's \<times> unit res" where
  "unit_res p = (fst p, case snd p of Some e \<Rightarrow> Inl e | None \<Rightarrow> Inr ())"

definition persist_get :: "persist_env \<Rightarrow> string \<Rightarrow> string \<Rightarrow> 'f db \<Rightarrow> 'f db \<times> view res" where
  "persist_get P t i = transaction P t False (\<lambda>s k. studio_get (ps_studio P) (ps_jobs P) k i s)"

definition persist_enter :: "persist_env \<Rightarrow> string \<Rightarrow> string \<Rightarrow> string \<Rightarrow> string \<Rightarrow> string \<Rightarrow> 'f db \<Rightarrow> 'f db \<times> string res" where
  "persist_enter P t art sty col aid = transaction P t True
     (\<lambda>s k. studio_enter (ps_studio P) (ps_jobs P) k art sty col aid s)"

definition persist_favourites :: "persist_env \<Rightarrow> string \<Rightarrow> 'f db \<Rightarrow> 'f db \<times> favourite list res" where
  "persist_favourites P t = transaction P t False (\<lambda>s k. studio_favourites (ps_studio P) (ps_jobs P) k s)"

definition persist_choices :: "persist_env \<Rightarrow> string \<Rightarrow> string \<Rightarrow> int \<Rightarrow> string \<Rightarrow> string \<Rightarrow> 'f db \<Rightarrow> 'f db \<times> unit res" where
  "persist_choices P t i r sty col = transaction P t True
     (\<lambda>s k. unit_res (studio_choices (ps_studio P) (ps_jobs P) k i r sty col s))"

definition persist_retry :: "persist_env \<Rightarrow> string \<Rightarrow> string \<Rightarrow> int \<Rightarrow> string \<Rightarrow> string \<Rightarrow> 'f db \<Rightarrow> 'f db \<times> string res" where
  "persist_retry P t i r aid bid = transaction P t True
     (\<lambda>s k. studio_retry (ps_studio P) (ps_jobs P) k i r aid bid s)"

definition persist_generate :: "persist_env \<Rightarrow> string \<Rightarrow> string \<Rightarrow> int \<Rightarrow> string \<Rightarrow> string list \<Rightarrow> bool
    \<Rightarrow> 'f db \<Rightarrow> 'f db \<times> string res" where
  "persist_generate P t i r aid selected different = transaction P t True
     (\<lambda>s k. studio_generate (ps_studio P) (ps_jobs P) k i r aid selected different s)"

text \<open>\<open>Favourite\<close> admits the preview of a new favourite again when it is gone.\<close>

fun readmit :: "'q jobs_api \<Rightarrow> string \<Rightarrow> string \<Rightarrow> string \<Rightarrow> sample list \<Rightarrow> 'q \<Rightarrow> sample list \<times> 'q \<times> err option" where
  "readmit J k build sid [] q = ([], q, None)"
| "readmit J k build sid (a # as) q =
     (if sa_id a \<noteq> sid then (case readmit J k build sid as q of (as', r) \<Rightarrow> (a # as', r))
      else if st_state (ja_status J k (sa_job a) q) \<in> {Ready, Queued, Running} then (a # as, q, None)
      else case ja_admit J k [preview_request build (sa_recipe a)] q of
          (q', Inl e) \<Rightarrow> (a # as, q', Some e)
        | (q', Inr ids) \<Rightarrow> (case readmit J k build sid as q' of (as', r) \<Rightarrow> (a\<lparr>sa_job := hd ids\<rparr> # as', r)))"

definition favourite_kept :: "'q jobs_api \<Rightarrow> string \<Rightarrow> string \<Rightarrow> string \<Rightarrow> 'q store \<Rightarrow> 'q store \<times> err option" where
  "favourite_kept J k i sid s = (case (exploration_of s k i, so_queue s) of
       (Some x, Some q) \<Rightarrow> (case readmit J k (so_build s) sid (v_samples (x_view x)) q of
         (as, q', e) \<Rightarrow> (put_exploration k i (with_samples as x) (s\<lparr>so_queue := Some q'\<rparr>), e))
     | _ \<Rightarrow> (s, None))"

definition persist_favourite :: "persist_env \<Rightarrow> string \<Rightarrow> string \<Rightarrow> string \<Rightarrow> int \<Rightarrow> bool \<Rightarrow> 'f db \<Rightarrow> 'f db \<times> unit res" where
  "persist_favourite P t i sid r on = transaction P t True
     (\<lambda>s k. unit_res (case studio_favourite (ps_studio P) (ps_jobs P) k i sid r on s of
         (s1, Some e) \<Rightarrow> (s1, Some e)
       | (s1, None) \<Rightarrow> if \<not> on then (s1, None) else favourite_kept (ps_jobs P) k i sid s1))"

definition persist_cancel :: "persist_env \<Rightarrow> string \<Rightarrow> string \<Rightarrow> int \<Rightarrow> string \<Rightarrow> 'f db \<Rightarrow> 'f db \<times> unit res" where
  "persist_cancel P t i r bid = transaction P t True
     (\<lambda>s k. unit_res (studio_cancel (ps_studio P) (ps_jobs P) k i r bid s))"

definition persist_download :: "persist_env \<Rightarrow> string \<Rightarrow> string \<Rightarrow> string \<Rightarrow> 'f db \<Rightarrow> 'f db \<times> unit res" where
  "persist_download P t i sid = transaction P t True
     (\<lambda>s k. unit_res (studio_download (ps_studio P) (ps_jobs P) k i sid s))"

definition persist_recovery :: "persist_env \<Rightarrow> string \<Rightarrow> 'f db \<Rightarrow> 'f db \<times> string list res" where
  "persist_recovery P t = transaction P t False (\<lambda>s k. studio_recovery (ps_studio P) (ps_jobs P) k s)"

definition persist_restore :: "persist_env \<Rightarrow> string \<Rightarrow> string list \<Rightarrow> 'f db \<Rightarrow> 'f db \<times> string res" where
  "persist_restore P t records = transaction P t True
     (\<lambda>s k. studio_restore (ps_studio P) (ps_jobs P) k records s)"

text \<open>\<open>Clear\<close>: the row stays until maintenance, but it is expired and empty.\<close>

definition expire_workspace :: "dbenv \<Rightarrow> string \<Rightarrow> 'f db \<Rightarrow> 'f db" where
  "expire_workspace V i d = d\<lparr>db_workspaces := update_rows (\<lambda>k r.
     if k = i then r\<lparr>dw_expires := de_now V\<rparr> else r) (db_workspaces d)\<rparr>"

definition clear_workspace :: "persist_env \<Rightarrow> string \<Rightarrow> 'f queue_tx store \<Rightarrow> 'f queue_tx store" where
  "clear_workspace P k s = put_workspace k (\<lambda>w. w\<lparr>ws_explorations := [], ws_entries := []\<rparr>)
     (s\<lparr>so_queue := map_option (\<lambda>q. let q' = (case mget (so_workspaces s) k of
           None \<Rightarrow> q | Some w \<Rightarrow> cancel_workspace (ps_jobs P) k w q) in
         q'\<lparr>qt_db := expire_workspace (ps_tx P) k (qt_db q')\<rparr>) (so_queue s)\<rparr>)"

definition persist_clear :: "persist_env \<Rightarrow> string \<Rightarrow> 'f db \<Rightarrow> 'f db \<times> unit res" where
  "persist_clear P t = transaction P t True (\<lambda>s k. (clear_workspace P k s, Inr ()))"

end
