(* ===== verification/JobsSteps.thy ===== *)
theory JobsSteps
  imports StudioQueue
begin

text \<open>
  How the studio drives the queue behind its interface: every operation of \<open>studio.go\<close> changes the queue
  through admissions and cancellations only. The interface is the locale of a relation that contains
  these two operations; what follows from it for each operation of the studio is proved once, for every
  queue.
\<close>

locale jobs_steps =
  fixes J :: "'q jobs_api" and R :: "'q \<Rightarrow> 'q \<Rightarrow> bool"
  assumes refl: "R q q"
    and trans: "R q q' \<Longrightarrow> R q' q'' \<Longrightarrow> R q q''"
    and admit: "R q (fst (ja_admit J owner qs q))"
    and cancel: "R q (ja_cancel J owner i q)"
begin

definition drives :: "'q store \<Rightarrow> 'q store \<Rightarrow> bool" where
  "drives s s' \<longleftrightarrow> rel_option R (so_queue s) (so_queue s')"

lemma drives_refl [simp]: "drives s s"
  by (simp add: drives_def option.rel_refl refl)

lemma drives_same: "so_queue s' = so_queue s \<Longrightarrow> drives s s'"
  by (simp add: drives_def option.rel_refl refl)

lemma drives_trans: "drives s s' \<Longrightarrow> drives s' s'' \<Longrightarrow> drives s s''"
  unfolding drives_def by (auto simp: option_rel_Some1 option_rel_Some2 elim!: option.rel_cases intro: trans)

lemma admit_pair: "ja_admit J owner qs q = (q', r) \<Longrightarrow> R q q'"
  using admit[of q owner qs] by simp

lemma cancels: "R q (foldl (cancel_sample J key) q as)"
proof (induction as arbitrary: q)
  case Nil
  show ?case by (simp add: refl)
next
  case (Cons a as)
  have "R q (cancel_sample J key q a)" unfolding cancel_sample_def by (rule trans[OF cancel cancel])
  with Cons show ?case by (auto intro: trans)
qed

lemma cancel_workspace: "R q (cancel_workspace J key w q)"
proof -
  have "R q (foldl (\<lambda>q (i, x). foldl (cancel_sample J key) q (v_samples (x_view x))) q xs)" for xs
    by (induction xs arbitrary: q) (auto simp: refl intro: trans[OF cancels])
  then show ?thesis by (simp add: cancel_workspace_def)
qed

lemma drives_prune: "drives s (studio_prune E J s)"
proof -
  have "drives s (prune_workspaces E J es s)" for es
  proof (induction es arbitrary: s)
    case (Cons e es)
    obtain key w where e: "e = (key, w)" by force
    have "drives s (if ws_expired (ev_now E) w
      then s\<lparr>so_queue := map_option (cancel_workspace J key w) (so_queue s),
             so_workspaces := mdel key (so_workspaces s)\<rparr> else s)"
      by (auto simp: drives_def option.rel_map option.rel_refl refl intro: option.rel_refl cancel_workspace)
    then show ?case unfolding e prune_workspaces.simps by (rule drives_trans[OF _ Cons.IH])
  qed simp
  then show ?thesis by (simp add: studio_prune_def)
qed

lemma drives_workspace: "studio_workspace E J token s = (s1, r) \<Longrightarrow> drives s s1"
  using drives_prune[of s E]
  by (auto simp: studio_workspace_def Let_def drives_def split: option.splits)

lemma drives_find: "studio_find E J token i s = (s1, r) \<Longrightarrow> drives s s1"
  by (auto simp: studio_find_def split: prod.splits sum.splits dest!: drives_workspace)

lemma put_workspace_queue: "so_queue (put_workspace k f s) = so_queue s"
  by (simp add: put_workspace_def split: option.splits)

lemma put_exploration_queue: "so_queue (put_exploration k i x s) = so_queue s"
  by (simp add: put_exploration_def put_workspace_queue)

lemma append_sample_queue: "so_queue (append_sample k i a s) = so_queue s"
  by (simp add: append_sample_def put_exploration_queue split: option.splits)

lemmas queue_fields = put_workspace_queue put_exploration_queue append_sample_queue

lemma drives_admit:
  assumes "drives s s1" "so_queue s1 = Some q" "ja_admit J owner qs q = (q', r)" "so_queue s2 = Some q'"
  shows "drives s s2"
proof (rule drives_trans[OF assms(1)])
  show "drives s1 s2" using admit_pair[OF assms(3)] assms(2,4) by (simp add: drives_def)
qed

lemma drives_generate: "generate E J token xid revision aid selected different s = (s', r) \<Longrightarrow> drives s s'"
  by (auto simp: generate_def Let_def queue_fields split: if_splits prod.splits sum.splits option.splits
    dest!: drives_find elim: drives_admit)

lemma enter_undo_queue: "so_queue (enter_undo token i created x s) = so_queue s"
  by (simp add: enter_undo_def drop_exploration_def queue_fields split: option.splits)

lemma drives_enter: "studio_enter E J token art sty col aid s = (s', r) \<Longrightarrow> drives s s'"
proof -
  have chain: "drives s s1 \<Longrightarrow> drives s3 s4 \<Longrightarrow> so_queue s3 = so_queue s1 \<Longrightarrow> so_queue s5 = so_queue s4
      \<Longrightarrow> drives s s5" for s1 s3 s4 s5
    by (rule drives_trans[of s s1]) (simp_all add: drives_def)
  assume "studio_enter E J token art sty col aid s = (s', r)"
  then show ?thesis
    by (auto simp: studio_enter_def Let_def draw_token_def add_entry_def
      split: if_splits prod.splits sum.splits option.splits dest!: drives_workspace drives_generate)
      (erule (1) chain, simp add: queue_fields, simp add: queue_fields enter_undo_queue)+
qed

lemma drives_get: "studio_get E J token i s = (s', r) \<Longrightarrow> drives s s'"
  by (auto simp: studio_get_def split: prod.splits sum.splits dest!: drives_find)

lemma drives_favourites: "studio_favourites E J token s = (s', r) \<Longrightarrow> drives s s'"
  by (auto simp: studio_favourites_def split: prod.splits sum.splits dest!: drives_workspace)

lemma drives_recovery: "studio_recovery E J token s = (s', r) \<Longrightarrow> drives s s'"
  by (auto simp: studio_recovery_def split: prod.splits sum.splits dest!: drives_workspace)

lemma drives_choices: "studio_choices E J token i revision sty col s = (s', r) \<Longrightarrow> drives s s'"
  by (auto simp: studio_choices_def queue_fields split: if_splits prod.splits sum.splits
    dest!: drives_find intro: drives_trans[OF _ drives_same])

lemma drives_retry: "studio_retry E J token i revision aid bid s = (s', r) \<Longrightarrow> drives s s'"
  by (auto simp: studio_retry_def Let_def split: if_splits prod.splits sum.splits option.splits
    dest!: drives_find intro: drives_trans[OF _ drives_generate])

lemma drives_favourite: "studio_favourite E J token i sid revision on s = (s', r) \<Longrightarrow> drives s s'"
  by (auto simp: studio_favourite_def Let_def queue_fields split: if_splits prod.splits sum.splits option.splits
    dest!: drives_find intro: drives_trans[OF _ drives_same])

lemma drives_members: "cancel_members J token ms as (Some q) = (as', q') \<Longrightarrow> \<exists>q2. q' = Some q2 \<and> R q q2"
proof (induction as arbitrary: q as' q')
  case Nil
  then show ?case by (auto intro: refl)
next
  case (Cons a as)
  then show ?case
    by (auto split: if_splits prod.splits) (metis cancel trans)+
qed

lemma members_None: "cancel_members J token ms as None = (as', q') \<Longrightarrow> q' = None"
  by (induction as arbitrary: as') (auto split: prod.splits)

lemma drives_cancel:
  assumes "studio_cancel E J token i revision bid s = (s', r)"
  shows "drives s s'"
proof -
  have "drives s s2" if "drives s s1" "cancel_members J token ms as (so_queue s1) = (as', q)" "so_queue s2 = q"
    for s1 s2 ms as as' q
  proof (rule drives_trans[OF that(1)])
    show "drives s1 s2"
      using that(2,3) drives_members members_None by (cases "so_queue s1") (fastforce simp: drives_def)+
  qed
  with assms show ?thesis
    by (auto simp: studio_cancel_def Let_def queue_fields split: if_splits prod.splits sum.splits dest!: drives_find)
qed

lemma drives_download: "studio_download E J token i sid s = (s', r) \<Longrightarrow> drives s s'"
  by (auto simp: studio_download_def Let_def queue_fields split: if_splits prod.splits sum.splits option.splits
    dest!: drives_find elim: drives_admit)

lemma restore_samples_queue: "so_queue (fst (restore_samples E token rs by_art first s)) = so_queue s"
  by (induction E token rs by_art first s rule: restore_samples.induct)
    (simp_all add: draw_token_def Let_def queue_fields split: option.splits)

lemma drives_restore:
  assumes "studio_restore E J token records s = (s', r)"
  shows "drives s s'"
proof -
  have "drives s s2" if "drives s s1" "restore_samples E token rs [] '''' s1 = (s2, first)" for rs s1 s2 first
    using that(1) restore_samples_queue[of E token rs "[]" "''''" s1] that(2) by (simp add: drives_def)
  with assms show ?thesis
    by (auto simp: studio_restore_def Let_def split: if_splits prod.splits sum.splits dest!: drives_workspace)
qed

end

text \<open>The manager is driven this way: whatever the studio does, its invariant stays.\<close>

interpretation mj: jobs_steps "manager_jobs L io now" "\<lambda>m m'. mgr_inv L m \<longrightarrow> mgr_inv L m'"
  by unfold_locales (auto simp: inv_admit inv_cancel)

end
