(* ===== verification/DurableMoves.thy ===== *)
theory DurableMoves
  imports DurableStudio JobsSteps
begin

text \<open>
  What a transaction of the studio can do to the database: the queue operations change requests,
  interests and jobs only, and a whole transaction also its own workspace row and pins. The queue
  operations are an instance of the locale of \<open>JobsSteps\<close>, so the operations of the studio need no
  proofs of their own here.
\<close>

section \<open>Moves of the queue\<close>

definition interests_of :: "'f db \<Rightarrow> string \<Rightarrow> nat" where
  "interests_of d i = length (filter (\<lambda>(k, r). r = i) (db_interests d))"

definition interests_ok :: "'f db \<Rightarrow> bool" where
  "interests_ok d \<longleftrightarrow> distinct (db_interests d) \<and> (\<forall>i. interests_of d i \<le> 24)"

text \<open>The generation of a request afterwards is the old one, a new execution id, or a digest of \<open>md5\<close>.\<close>

definition generations_from :: "dbenv \<Rightarrow> 'f db \<Rightarrow> 'f db \<Rightarrow> bool" where
  "generations_from V d d' \<longleftrightarrow> (\<forall>i r'. mget (db_requests d') i = Some r' \<longrightarrow>
     dr_generation r' \<in> range (de_exec V) \<union> range (de_md5 V)
       \<or> (\<exists>r. mget (db_requests d) i = Some r \<and> dr_generation r' = dr_generation r))"

definition queue_frame :: "'f db \<Rightarrow> 'f db \<Rightarrow> bool" where
  "queue_frame d d' \<longleftrightarrow> db_enabled d' = db_enabled d \<and> db_build d' = db_build d \<and> db_epoch d' = db_epoch d
     \<and> db_bound d' = db_bound d \<and> db_location d' = db_location d \<and> db_cursor d' = db_cursor d
     \<and> db_workspaces d' = db_workspaces d \<and> db_artifacts d' = db_artifacts d \<and> db_pins d' = db_pins d
     \<and> db_uploads d' = db_uploads d \<and> db_buckets d' = db_buckets d \<and> db_renderers d' = db_renderers d
     \<and> db_instances d' = db_instances d"

definition queue_move :: "dbenv \<Rightarrow> 'f db \<Rightarrow> 'f db \<Rightarrow> bool" where
  "queue_move V d d' \<longleftrightarrow> queue_frame d d' \<and> (wfm (db_requests d) \<longrightarrow> wfm (db_requests d'))
     \<and> (\<forall>i. mget (db_requests d) i \<noteq> None \<longrightarrow> mget (db_requests d') i \<noteq> None)
     \<and> generations_from V d d' \<and> (interests_ok d \<longrightarrow> interests_ok d')"

lemma generations_refl [simp]: "generations_from V d d"
  by (simp add: generations_from_def)

lemma generations_trans: "generations_from V d d' \<Longrightarrow> generations_from V d' d'' \<Longrightarrow> generations_from V d d''"
  unfolding generations_from_def by metis

lemma generations_same: "db_requests d' = db_requests d \<Longrightarrow> generations_from V d d'"
  by (simp add: generations_from_def)

lemma queue_frame_trans: "queue_frame d d' \<Longrightarrow> queue_frame d' d'' \<Longrightarrow> queue_frame d d''"
  by (simp add: queue_frame_def)

lemma queue_move_refl [simp]: "queue_move V d d"
  by (simp add: queue_move_def queue_frame_def)

lemma queue_move_trans: "queue_move V d d' \<Longrightarrow> queue_move V d' d'' \<Longrightarrow> queue_move V d d''"
  unfolding queue_move_def by (blast intro: queue_frame_trans generations_trans)

lemma interests_ok_cong: "db_interests d' = db_interests d \<Longrightarrow> interests_ok d' = interests_ok d"
  by (simp add: interests_ok_def interests_of_def)

lemma enqueue_Inr:
  assumes "enqueue C V build epoch i q d = Inr d'"
  obtains jobs n where "rv_insert (dc_river C) i build (queue_name (de_lib V) build) (job_metadata C build) (db_jobs d)
      = (jobs, n)" "outstanding d < p_outstanding (dc_policy C)" "request_row_ok i (q_recipe q) (q_tier q)"
    and "d' = d\<lparr>db_jobs := jobs, db_requests := mput i
      (queued_row V build epoch n i q (mget (db_requests d) i)) (db_requests d)\<rparr>"
  using assms by (auto simp: enqueue_def Let_def not_le split: if_splits prod.splits)

lemma queued_row_generation: "dr_generation (queued_row V build epoch n i q old) = de_exec V i"
  by (simp add: queued_row_def split: option.splits)

lemma move_enqueue: "enqueue C V build epoch i q d = Inr d' \<Longrightarrow> queue_move V d d'"
  by (erule enqueue_Inr) (simp add: queue_move_def queue_frame_def generations_from_def queued_row_generation map_simps
    gm.wf_put interests_ok_def interests_of_def)

lemma subscribers_interests:
  "distinct (db_interests d) \<Longrightarrow> int (interests_of d i) = subscribers d owner i + (if (owner, i) \<in> set (db_interests d) then 1 else 0)"
proof -
  have "distinct xs \<Longrightarrow> length (filter (\<lambda>(k, r). r = i) xs)
      = length (filter (\<lambda>(k, r). r = i \<and> k \<noteq> owner) xs) + (if (owner, i) \<in> set xs then 1 else 0)" for xs :: "(string \<times> string) list"
    by (induction xs) auto
  then show "distinct (db_interests d) \<Longrightarrow> ?thesis" by (simp add: interests_of_def subscribers_def)
qed

lemma interests_of_insert: "interests_of (d\<lparr>db_interests := List.insert (owner, i) (db_interests d)\<rparr>) j
    = interests_of d j + (if j = i \<and> (owner, i) \<notin> set (db_interests d) then 1 else 0)"
  by (simp add: interests_of_def List.insert_def)

lemma move_interest:
  assumes "add_interest owner i d = Inr d'" "subscribers d owner i < 24"
  shows "queue_move V d d'"
proof -
  have d': "d' = d\<lparr>db_interests := List.insert (owner, i) (db_interests d)\<rparr>"
    using assms(1) by (simp add: add_interest_def split: if_splits)
  have "interests_ok d \<Longrightarrow> interests_ok d'"
    unfolding d' interests_ok_def interests_of_insert
    using assms(2) subscribers_interests[of d i owner] by (auto simp: distinct_insert)
  then show ?thesis unfolding queue_move_def d' by (simp add: queue_frame_def generations_same)
qed

lemma admit_one_Inr:
  assumes "queue_admit_one C V owner build epoch q d = Inr (d', i)"
  shows "\<exists>r t d1. publish_validate (de_lib V) (q_recipe q) = Inr r \<and> tier (r_id r) (q_tier q) = Inr t
    \<and> i = recipe_key (de_lib V) r t build \<and> subscribers d owner i < 24
    \<and> (d1 = d \<and> (mget (db_requests d) i \<noteq> None \<and> artifact_ready V d i \<or> request_active d i)
      \<or> enqueue C V build epoch i q d = Inr d1 \<and> \<not> request_active d i)
    \<and> add_interest owner i d1 = Inr d'"
proof -
  from assms obtain r t where rt: "publish_validate (de_lib V) (q_recipe q) = Inr r" "tier (r_id r) (q_tier q) = Inr t"
    by (auto simp: queue_admit_one_def res_simps split: option.splits)
  define k where "k = recipe_key (de_lib V) r t build"
  define d1 where "d1 = (if mget (db_requests d) k \<noteq> None \<and> artifact_ready V d k \<or> request_active d k then Inr d
    else enqueue C V build epoch k q d)"
  have "subscribers d owner k < 24 \<and> bind_res d1 (\<lambda>d1. bind_res (add_interest owner k d1) (\<lambda>d2. Inr (d2, k))) = Inr (d', i)"
    using assms by (auto simp: queue_admit_one_def rt Let_def k_def d1_def split: option.splits if_splits)
  then have "i = k" "subscribers d owner k < 24" "\<exists>x. d1 = Inr x \<and> add_interest owner k x = Inr d'"
    by (auto simp: res_simps)
  then show ?thesis
    using rt unfolding d1_def k_def by (auto split: if_splits)
qed

lemma enqueue_interests: "enqueue C V build epoch i q d = Inr d' \<Longrightarrow> db_interests d' = db_interests d"
  by (auto simp: enqueue_def Let_def split: if_splits prod.splits)

lemma move_admit_one:
  assumes "queue_admit_one C V owner build epoch q d = Inr (d', i)"
  shows "queue_move V d d'"
proof -
  obtain d1 where few: "subscribers d owner i < 24" and a: "add_interest owner i d1 = Inr d'"
    and d1: "d1 = d \<or> enqueue C V build epoch i q d = Inr d1"
    using admit_one_Inr[OF assms] by blast
  from d1 have "queue_move V d d1" "db_interests d1 = db_interests d"
    using move_enqueue enqueue_interests by auto
  with few a show "queue_move V d d'"
    by (intro queue_move_trans[OF _ move_interest[OF a]]) (simp_all add: subscribers_def)
qed

lemma move_admit_all: "queue_admit_all C V owner build epoch qs d = Inr (d', is) \<Longrightarrow> queue_move V d d'"
  by (induction qs arbitrary: d d' "is") (auto simp: res_simps intro: queue_move_trans move_admit_one)

lemma move_admit: "queue_move V (qt_db t) (qt_db (fst (queue_admit C V owner qs t)))"
  by (auto simp: queue_admit_def Let_def res_simps split: sum.splits dest: move_admit_all)

lemma interests_ok_filter:
  assumes "interests_ok d" "db_interests d' = filter P (db_interests d)"
  shows "interests_ok d'"
proof -
  have "length (filter Q (filter P xs)) \<le> length (filter Q xs)" for Q and xs :: "(string \<times> string) list"
    by (induction xs) auto
  then show ?thesis
    using assms order_trans by (auto simp: interests_ok_def interests_of_def simp del: filter_filter) blast
qed

lemma release_fields:
  "db_interests (release_interest C V owner i d) = removeAll (owner, i) (db_interests d)"
  "queue_frame d (release_interest C V owner i d)"
  by (simp_all add: release_interest_def Let_def queue_frame_def split: option.splits)

lemma move_release: "queue_move V d (release_interest C V owner i d)"
proof -
  have "interests_ok d \<Longrightarrow> interests_ok (release_interest C V owner i d)"
    by (erule interests_ok_filter[where P = "\<lambda>p. p \<noteq> (owner, i)"]) (simp add: release_fields removeAll_filter_not_eq, metis)
  moreover have "generations_from V d (release_interest C V owner i d)"
    by (auto simp: release_interest_def Let_def generations_from_def map_simps split: option.splits)
  moreover have "wfm (db_requests d) \<Longrightarrow> wfm (db_requests (release_interest C V owner i d))"
    by (auto simp: release_interest_def Let_def gm.wf_put split: option.splits)
  moreover have "mget (db_requests d) j \<noteq> None \<Longrightarrow> mget (db_requests (release_interest C V owner i d)) j \<noteq> None" for j
    by (auto simp: release_interest_def Let_def map_simps split: option.splits)
  ultimately show ?thesis by (simp add: queue_move_def release_fields)
qed

lemma move_cancel: "queue_move V (qt_db t) (qt_db (queue_cancel C V owner i t))"
  by (simp add: queue_cancel_def move_release split: option.splits)

interpretation dq: jobs_steps "durable_jobs C V" "\<lambda>t t'. queue_move V (qt_db t) (qt_db t')"
  by unfold_locales (auto simp: durable_jobs_def move_admit move_cancel intro: queue_move_trans)

section \<open>Moves of a whole transaction\<close>

definition snapshot_bytes :: "'f db \<Rightarrow> int" where
  "snapshot_bytes d = tot (\<lambda>k w. int (length (dw_data w))) (db_workspaces d)"

definition workspaces_ok :: "'f db \<Rightarrow> bool" where
  "workspaces_ok d \<longleftrightarrow> wfm (db_workspaces d) \<and> length (db_workspaces d) \<le> 1000 \<and> snapshot_bytes d \<le> 64 * 2 ^ 20"

text \<open>What neither the queue nor a visitor's transaction touches.\<close>

definition storage_frame :: "'f db \<Rightarrow> 'f db \<Rightarrow> bool" where
  "storage_frame d d' \<longleftrightarrow> db_enabled d' = db_enabled d \<and> db_build d' = db_build d \<and> db_epoch d' = db_epoch d
     \<and> db_bound d' = db_bound d \<and> db_location d' = db_location d \<and> db_cursor d' = db_cursor d
     \<and> db_artifacts d' = db_artifacts d \<and> db_uploads d' = db_uploads d \<and> db_buckets d' = db_buckets d
     \<and> db_renderers d' = db_renderers d \<and> db_instances d' = db_instances d"

definition visit_move :: "dbenv \<Rightarrow> 'f db \<Rightarrow> 'f db \<Rightarrow> bool" where
  "visit_move V d d' \<longleftrightarrow> storage_frame d d' \<and> (wfm (db_requests d) \<longrightarrow> wfm (db_requests d'))
     \<and> generations_from V d d' \<and> (interests_ok d \<longrightarrow> interests_ok d') \<and> (workspaces_ok d \<longrightarrow> workspaces_ok d')"

lemma visit_move_refl [simp]: "visit_move V d d"
  by (simp add: visit_move_def storage_frame_def)

lemma visit_move_trans: "visit_move V d d' \<Longrightarrow> visit_move V d' d'' \<Longrightarrow> visit_move V d d''"
  unfolding visit_move_def storage_frame_def by (auto intro: generations_trans)

lemma workspaces_ok_cong: "db_workspaces d' = db_workspaces d \<Longrightarrow> workspaces_ok d \<Longrightarrow> workspaces_ok d'"
  by (simp add: workspaces_ok_def snapshot_bytes_def)

lemma workspaces_ok_pins [simp]: "workspaces_ok (d\<lparr>db_pins := ps\<rparr>) = workspaces_ok d"
  by (simp add: workspaces_ok_def snapshot_bytes_def)

lemma queue_move_visit: "queue_move V d d' \<Longrightarrow> visit_move V d d'"
  unfolding queue_move_def visit_move_def queue_frame_def storage_frame_def by (blast intro: workspaces_ok_cong)

lemma visit_moveI:
  assumes "storage_frame d d'" "db_requests d' = db_requests d" "db_interests d' = db_interests d"
    and "workspaces_ok d \<Longrightarrow> workspaces_ok d'"
  shows "visit_move V d d'"
  using assms by (simp add: visit_move_def generations_same interests_ok_def interests_of_def)

lemma tot_except:
  assumes "wfm es"
  shows "tot f es = tot (\<lambda>k v. if k = i then 0 else f k v) es + (case mget es i of None \<Rightarrow> 0 | Some v \<Rightarrow> f i v)"
  using assms unfolding wfm_def
proof (induction es)
  case (Cons e es)
  obtain k v where e: "e = (k, v)" by force
  show ?case
  proof (cases "k = i")
    case True
    then have "mget es i = None" using Cons.prems e by (simp add: map_of_eq_None_iff)
    with Cons e True show ?thesis by simp
  next
    case False
    with Cons e show ?thesis by simp
  qed
qed simp

lemma save_Inr:
  assumes "save P i w q = Inr d'"
  shows "\<exists>data d1 d2. encode_workspace (ps_json P) w = Inr data
    \<and> workspace_bytes i (qt_db q) + int (length data) \<le> 64 * 2 ^ 20 \<and> length data \<le> 2097152
    \<and> d1 = (qt_db q)\<lparr>db_workspaces := update_rows (\<lambda>k r. if k = i then r\<lparr>dw_data := data\<rparr> else r) (db_workspaces (qt_db q))\<rparr>
    \<and> write_pins i w d1 = Inr d2
    \<and> d' = qt_db (foldl (\<lambda>q r. queue_cancel (ps_conf P) (ps_tx P) i r q) (q\<lparr>qt_db := d2\<rparr>) (obsolete_interests i w d2))"
  using assms by (auto simp: save_def Let_def res_simps not_less split: if_splits)

lemma move_save:
  assumes s: "save P i w q = Inr d'"
  shows "visit_move (ps_tx P) (qt_db q) d'"
proof -
  let ?d = "qt_db q"
  let ?row = "\<lambda>data. ?d\<lparr>db_workspaces := update_rows (\<lambda>k r. if k = i then r\<lparr>dw_data := data\<rparr> else r) (db_workspaces ?d)\<rparr>"
  from save_Inr[OF s] obtain data d2 where small: "workspace_bytes i ?d + int (length data) \<le> 64 * 2 ^ 20"
    and pins: "write_pins i w (?row data) = Inr d2"
    and d': "d' = qt_db (foldl (\<lambda>q r. queue_cancel (ps_conf P) (ps_tx P) i r q) (q\<lparr>qt_db := d2\<rparr>) (obsolete_interests i w d2))"
    by blast
  have row: "workspaces_ok (?row data)" if ok: "workspaces_ok ?d"
  proof -
    have "snapshot_bytes (?row data) = workspace_bytes i ?d + (case mget (db_workspaces ?d) i of None \<Rightarrow> 0 | Some r \<Rightarrow> int (length data))"
      using tot_except[of "update_rows (\<lambda>k r. if k = i then r\<lparr>dw_data := data\<rparr> else r) (db_workspaces ?d)"
          "\<lambda>k w. int (length (dw_data w))" i] ok
      by (simp add: snapshot_bytes_def workspace_bytes_def workspaces_ok_def if_distrib cong: if_cong split: option.splits)
    then show ?thesis
      using ok small by (simp add: workspaces_ok_def split: option.splits)
  qed
  have "visit_move (ps_tx P) ?d (?row data)"
    by (rule visit_moveI) (simp_all add: storage_frame_def row)
  also have "visit_move (ps_tx P) (?row data) d2"
    using pins by (intro visit_moveI) (auto simp: write_pins_def Let_def storage_frame_def split: if_splits)
  finally (visit_move_trans) have a: "visit_move (ps_tx P) ?d d2" .
  have "visit_move (ps_tx P) (qt_db t) (qt_db (foldl (\<lambda>q r. queue_cancel (ps_conf P) (ps_tx P) i r q) t rs))" for t rs
    by (induction rs arbitrary: t) (auto intro: visit_move_trans queue_move_visit[OF move_cancel])
  from this[of "q\<lparr>qt_db := d2\<rparr>"] show "visit_move (ps_tx P) ?d d'"
    unfolding d' using a by (auto intro: visit_move_trans)
qed

text \<open>A transaction commits what its operation and the save did, or leaves the database as it was.\<close>

lemma commit_cases: "commit V d d' ok fail = (d2, r) \<Longrightarrow> d2 = d \<and> (\<exists>e. r = fail e) \<or> d2 = d'"
  by (auto simp: commit_def split: option.splits prod.splits if_splits)

lemma transaction_cases:
  assumes "transaction P token wr fn d = (d', r)"
  shows "d' = d \<or> (\<exists>w s v q w'. load_workspace P (token_hash (de_lib (ps_tx P)) token) d = Inr w
    \<and> fn (loaded_store P (token_hash (de_lib (ps_tx P)) token) w d) (token_hash (de_lib (ps_tx P)) token) = (s, Inr v)
    \<and> so_queue s = Some q \<and> qt_err q = None \<and> mget (so_workspaces s) (token_hash (de_lib (ps_tx P)) token) = Some w'
    \<and> (if wr then save P (token_hash (de_lib (ps_tx P)) token) w' q = Inr d' else d' = qt_db q))"
  using assms commit_cases
  by (auto simp: transaction_def Let_def split: option.splits sum.splits prod.splits if_splits dest!: commit_cases)

lemma move_transaction:
  assumes "\<And>s k s' r. fn s k = (s', r) \<Longrightarrow>
    rel_option (\<lambda>t t'. visit_move (ps_tx P) (qt_db t) (qt_db t')) (so_queue s) (so_queue s')"
  shows "visit_move (ps_tx P) d (fst (transaction P token wr fn d))"
proof -
  obtain d' r where t: "transaction P token wr fn d = (d', r)" by force
  show ?thesis
  proof (cases "d' = d")
    case False
    with transaction_cases[OF t] obtain i w s v q w' where
      fn: "fn (loaded_store P i w d) i = (s, Inr v)" and q: "so_queue s = Some q"
      and w': "if wr then save P i w' q = Inr d' else d' = qt_db q" by blast
    have "visit_move (ps_tx P) d (qt_db q)"
      using assms[OF fn] q by (simp add: loaded_store_def new_store_def)
    also have "visit_move (ps_tx P) (qt_db q) d'"
      using w' move_save by (cases wr) auto
    finally (visit_move_trans) show ?thesis by (simp add: t)
  qed (simp add: t)
qed

lemma drives_moves:
  "dq.drives V s s' \<Longrightarrow> rel_option (\<lambda>t t'. visit_move V (qt_db t) (qt_db t')) (so_queue s) (so_queue s')"
  unfolding dq.drives_def by (erule option.rel_mono_strong) (rule queue_move_visit)

section \<open>The requests of visitors\<close>

text \<open>What a web process asks of the durable studio.\<close>

datatype visit =
    VCreate
  | VTouch string
  | VGet string string
  | VEnter string string string string string
  | VFavourites string
  | VChoices string string int string string
  | VRetry string string int string string
  | VGenerate string string int string "string list" bool
  | VFavourite string string string int bool
  | VCancel string string int string
  | VDownload string string string
  | VRecovery string
  | VRestore string "string list"
  | VClear string

fun visit_tx :: "persist_env \<Rightarrow> visit \<Rightarrow> 'f db \<Rightarrow> 'f db" where
  "visit_tx P VCreate d = fst (persist_create P d)"
| "visit_tx P (VTouch t) d = fst (persist_touch P t d)"
| "visit_tx P (VGet t i) d = fst (persist_get P t i d)"
| "visit_tx P (VEnter t art sty col aid) d = fst (persist_enter P t art sty col aid d)"
| "visit_tx P (VFavourites t) d = fst (persist_favourites P t d)"
| "visit_tx P (VChoices t i r sty col) d = fst (persist_choices P t i r sty col d)"
| "visit_tx P (VRetry t i r aid bid) d = fst (persist_retry P t i r aid bid d)"
| "visit_tx P (VGenerate t i r aid sel diff) d = fst (persist_generate P t i r aid sel diff d)"
| "visit_tx P (VFavourite t i sid r on) d = fst (persist_favourite P t i sid r on d)"
| "visit_tx P (VCancel t i r bid) d = fst (persist_cancel P t i r bid d)"
| "visit_tx P (VDownload t i sid) d = fst (persist_download P t i sid d)"
| "visit_tx P (VRecovery t) d = fst (persist_recovery P t d)"
| "visit_tx P (VRestore t rs) d = fst (persist_restore P t rs d)"
| "visit_tx P (VClear t) d = fst (persist_clear P t d)"

lemma drives_readmit: "readmit J k build sid as q = (as', q', e) \<Longrightarrow> jobs_steps J R \<Longrightarrow> R q q'"
proof (induction J k build sid as q arbitrary: as' q' e rule: readmit.induct)
  case (1 J k build sid q)
  then show ?case by (simp add: jobs_steps.refl)
next
  case (2 J k build sid a as q)
  note R = jobs_steps.trans[OF 2(4)] jobs_steps.admit_pair[OF 2(4)] jobs_steps.refl[OF 2(4)]
  from 2(1-3) 2(4) show ?case
    by (auto split: if_splits prod.splits sum.splits intro: R)
qed

lemma drives_kept: "favourite_kept (durable_jobs C V) k i sid s = (s', e) \<Longrightarrow> dq.drives V s s'"
  using drives_readmit[OF _ dq.jobs_steps_axioms]
  by (fastforce simp: favourite_kept_def dq.drives_def dq.queue_fields option.rel_refl
    split: option.splits prod.splits)

lemma drives_unit: "unit_res p = (s', r) \<Longrightarrow> s' = fst p"
  by (auto simp: unit_res_def)

lemma drives_clear:
  "rel_option (\<lambda>t t'. visit_move (ps_tx P) (qt_db t) (qt_db t')) (so_queue s) (so_queue (clear_workspace P k s))"
proof (cases "so_queue s")
  case None
  then show ?thesis by (simp add: clear_workspace_def dq.queue_fields)
next
  case (Some q)
  have e: "visit_move (ps_tx P) d (expire_workspace (ps_tx P) i d)" for i d
    by (rule visit_moveI)
      (simp_all add: expire_workspace_def storage_frame_def workspaces_ok_def snapshot_bytes_def if_distrib cong: if_cong)
  show ?thesis
    using Some visit_move_trans[OF queue_move_visit[OF dq.cancel_workspace] e] e
    by (auto simp: clear_workspace_def dq.queue_fields Let_def split: option.splits)
qed

lemma put_length: "wfm m \<Longrightarrow> length (mput k v m) = length m + (if mget m k = None then 1 else 0)"
  using gm.size_put[of m k v] by (simp split: if_splits)

lemma move_create: "visit_move (ps_tx P) d (fst (persist_create P d))"
proof -
  let ?d = "\<lambda>i c. d\<lparr>db_workspaces := mput i \<lparr>dw_csrf = c, dw_touched = de_now (ps_tx P),
    dw_expires = de_now (ps_tx P) + 90 * day, dw_data = []\<rparr> (db_workspaces d)\<rparr>"
  have "workspaces_ok (?d i c)" if "workspaces_ok d" "mget (db_workspaces d) i = None" "\<not> 1000 \<le> length (db_workspaces d)" for i c
    using that gm.tot_put[of "db_workspaces d" "\<lambda>k w. int (length (dw_data w))" i]
      put_length[of "db_workspaces d" i]
    by (simp add: workspaces_ok_def snapshot_bytes_def gm.wf_put)
  then show ?thesis
    by (auto simp: persist_create_def Let_def commit_def storage_frame_def split: option.splits prod.splits if_splits
      intro!: visit_moveI)
qed

lemma move_touch: "visit_move (ps_tx P) d (fst (persist_touch P t d))"
proof -
  have "workspaces_ok (d\<lparr>db_workspaces := mput i (r\<lparr>dw_touched := x, dw_expires := y\<rparr>) (db_workspaces d)\<rparr>)"
    if "workspaces_ok d" "mget (db_workspaces d) i = Some r" for i r x y
    using that gm.tot_put[of "db_workspaces d" "\<lambda>k w. int (length (dw_data w))" i]
      put_length[of "db_workspaces d" i]
    by (simp add: workspaces_ok_def snapshot_bytes_def gm.wf_put)
  then show ?thesis
    by (auto simp: persist_touch_def Let_def commit_def storage_frame_def split: option.splits prod.splits if_splits
      intro!: visit_moveI)
qed

lemma drives_favourite_kept:
  assumes "(case studio_favourite E (durable_jobs C V) k i sid r on s of
         (s1, Some e) \<Rightarrow> (s1, Some e)
       | (s1, None) \<Rightarrow> if \<not> on then (s1, None) else favourite_kept (durable_jobs C V) k i sid s1) = (s', e)"
  shows "dq.drives V s s'"
proof -
  obtain s1 e1 where f: "studio_favourite E (durable_jobs C V) k i sid r on s = (s1, e1)" by force
  note d = dq.drives_favourite[OF f]
  show ?thesis
  proof (cases "e1 \<noteq> None \<or> \<not> on")
    case True
    with assms f d show ?thesis by (auto split: option.splits if_splits)
  next
    case False
    with assms f have "favourite_kept (durable_jobs C V) k i sid s1 = (s', e)" by simp
    from dq.drives_trans[OF d drives_kept[OF this]] show ?thesis .
  qed
qed

lemmas drives_intros =
  dq.drives_get dq.drives_enter dq.drives_favourites dq.drives_retry dq.drives_generate dq.drives_recovery
  dq.drives_restore dq.drives_choices[OF surjective_pairing] dq.drives_cancel[OF surjective_pairing]
  dq.drives_download[OF surjective_pairing] drives_favourite_kept[OF surjective_pairing]

lemma move_visit: "visit_move (ps_tx P) d (visit_tx P v d)"
proof -
  note T = move_transaction[of _ P d]
  have U: "unit_res p = (s', r) \<Longrightarrow> dq.drives V s (fst p) \<Longrightarrow>
      rel_option (\<lambda>t t'. visit_move V (qt_db t) (qt_db t')) (so_queue s) (so_queue s')" for V p s s' r
    by (auto dest!: drives_unit intro: drives_moves)
  show ?thesis
  proof (cases v)
    case VCreate
    then show ?thesis by (simp add: move_create)
  next
    case VTouch
    then show ?thesis by (simp add: move_touch)
  next
    case VGet
    then show ?thesis by (simp add: persist_get_def) (rule T, rule drives_moves, erule drives_intros)
  next
    case VEnter
    then show ?thesis by (simp add: persist_enter_def) (rule T, rule drives_moves, erule drives_intros)
  next
    case VFavourites
    then show ?thesis by (simp add: persist_favourites_def) (rule T, rule drives_moves, erule drives_intros)
  next
    case VChoices
    then show ?thesis by (simp add: persist_choices_def) (rule T, erule U, rule drives_intros)
  next
    case VRetry
    then show ?thesis by (simp add: persist_retry_def) (rule T, rule drives_moves, erule drives_intros)
  next
    case VGenerate
    then show ?thesis
      by (simp add: persist_generate_def studio_generate_def) (rule T, rule drives_moves, erule drives_intros)
  next
    case VFavourite
    then show ?thesis by (simp add: persist_favourite_def) (rule T, erule U, rule drives_favourite_kept[OF surjective_pairing])
  next
    case VCancel
    then show ?thesis by (simp add: persist_cancel_def) (rule T, erule U, rule drives_intros)
  next
    case VDownload
    then show ?thesis by (simp add: persist_download_def) (rule T, erule U, rule drives_intros)
  next
    case VRecovery
    then show ?thesis by (simp add: persist_recovery_def) (rule T, rule drives_moves, erule drives_intros)
  next
    case VRestore
    then show ?thesis by (simp add: persist_restore_def) (rule T, rule drives_moves, erule drives_intros)
  next
    case VClear
    then show ?thesis by (simp add: persist_clear_def) (rule T, auto simp: drives_clear)
  qed
qed

end
