(* ===== verification/DurableWorld.thy ===== *)
theory DurableWorld
  imports DurableMoves
begin

text \<open>
  The durable deployment: one database and one bucket, shared by any number of web processes, renderers
  and maintenance runs of any release, with River beside them. A step is one transaction, one call of
  the bucket, or whatever River does to its own table. Time, faults, lost commits and the order of the
  steps are arbitrary; nothing below needs a law about River.
\<close>

section \<open>The world\<close>

text \<open>
  \<open>wd_seen\<close> are the pointers that readers got from \<open>Artifact\<close>, \<open>wd_drawn\<close> the execution ids drawn so far:
  both only say what later steps may use.
\<close>

record 'f world =
  wd_db :: "'f db"
  wd_objects :: bucket_objects
  wd_attempts :: "attempt list"
  wd_runs :: "mphase list"
  wd_seen :: "(string \<times> string) list"
  wd_drawn :: "string set"

text \<open>
  What is assumed of the environment: an execution id is 24 random bytes in hexadecimal and was not drawn
  before, \<open>md5\<close> gives 32 digits, and a page of the bucket lists objects that exist.
\<close>

definition env_ok :: "golib \<Rightarrow> string set \<Rightarrow> dbenv \<Rightarrow> bool" where
  "env_ok L D V \<longleftrightarrow> de_lib V = L \<and> (\<forall>x. length (de_md5 V x) = 32)
     \<and> (\<forall>i. length (de_exec V i) = 48 \<and> de_exec V i \<notin> D)"

definition page_ok :: "bucket_objects \<Rightarrow> maintenv \<Rightarrow> bool" where
  "page_ok obs M \<longleftrightarrow> (\<forall>c os nx. me_page M c = Inr (os, nx) \<longrightarrow> (\<forall>(k, t)\<in>set os. mget obs k \<noteq> None))"

definition shuffled :: "'f db \<Rightarrow> 'f db \<Rightarrow> bool" where
  "shuffled d d' \<longleftrightarrow> (\<exists>ws rs is as ps us. mset ws = mset (db_workspaces d) \<and> mset rs = mset (db_requests d)
     \<and> mset is = mset (db_interests d) \<and> mset as = mset (db_artifacts d) \<and> mset ps = mset (db_pins d)
     \<and> mset us = mset (db_uploads d)
     \<and> d' = d\<lparr>db_workspaces := ws, db_requests := rs, db_interests := is, db_artifacts := as, db_pins := ps,
         db_uploads := us\<rparr>)"

inductive durable_step :: "golib \<Rightarrow> 'f world \<Rightarrow> 'f world \<Rightarrow> bool" for L :: golib where
  visit: "env_ok L (wd_drawn w) (ps_tx P) \<Longrightarrow>
    durable_step L w (w\<lparr>wd_db := visit_tx P v (wd_db w), wd_drawn := wd_drawn w \<union> range (de_exec (ps_tx P))\<rparr>)"
| read: "db_artifact V i (wd_db w) = Inr a \<Longrightarrow> durable_step L w (w\<lparr>wd_seen := (i, da_key a) # wd_seen w\<rparr>)"
| missing: "(i, k) \<in> set (wd_seen w) \<Longrightarrow> durable_step L w (w\<lparr>wd_db := fst (db_missing V i k (wd_db w))\<rparr>)"
| allow: "durable_step L w (w\<lparr>wd_db := fst (db_allow F V key rate burst (wd_db w))\<rparr>)"
| activate: "durable_step L w (w\<lparr>wd_db := fst (db_activate C V (wd_db w))\<rparr>)"
| enable: "durable_step L w (w\<lparr>wd_db := fst (db_enable V on (wd_db w))\<rparr>)"
| bind: "durable_step L w (w\<lparr>wd_db := fst (bind_empty_bucket V S page (wd_db w))\<rparr>)"
| heartbeat: "durable_step L w (w\<lparr>wd_db := fst (heartbeat C V st (wd_db w))\<rparr>)"
| stopping: "durable_step L w (w\<lparr>wd_db := fst (stop_instance C V (wd_db w))\<rparr>)"
| renderer: "durable_step L w (w\<lparr>wd_db := (wd_db w)\<lparr>db_renderers := rs\<rparr>\<rparr>)"
| river: "durable_step L w (w\<lparr>wd_db := (wd_db w)\<lparr>db_jobs := js\<rparr>\<rparr>)"
| shuffle: "shuffled (wd_db w) d' \<Longrightarrow> durable_step L w (w\<lparr>wd_db := d'\<rparr>)"
| attempt: "at_phase a = PhCheck \<Longrightarrow> at_generation a \<notin> wd_drawn w \<Longrightarrow> length (at_generation a) = 48 \<Longrightarrow>
    durable_step L w (w\<lparr>wd_attempts := wd_attempts w @ [a], wd_drawn := insert (at_generation a) (wd_drawn w)\<rparr>)"
| work: "n < length (wd_attempts w) \<Longrightarrow> de_lib (we_tx W) = L \<Longrightarrow>
    work_step C S W (wd_attempts w ! n) (wd_db w) (wd_objects w) = (a', d', obs') \<Longrightarrow>
    durable_step L w (w\<lparr>wd_attempts := (wd_attempts w)[n := a'], wd_db := d', wd_objects := obs'\<rparr>)"
| maintenance: "durable_step L w (w\<lparr>wd_runs := wd_runs w @ [MCheck]\<rparr>)"
| maintain: "n < length (wd_runs w) \<Longrightarrow> page_ok (wd_objects w) M \<Longrightarrow>
    (\<forall>x. length (de_md5 (me_tx M) x) = 32) \<Longrightarrow>
    maintain_step C S M (wd_runs w ! n) (wd_db w) (wd_objects w) = (p', d', obs') \<Longrightarrow>
    durable_step L w (w\<lparr>wd_runs := (wd_runs w)[n := p'], wd_db := d', wd_objects := obs'\<rparr>)"

definition durable_init :: "'f world \<Rightarrow> bool" where
  "durable_init w \<longleftrightarrow> (let d = wd_db w in
     db_workspaces d = [] \<and> db_requests d = [] \<and> db_interests d = [] \<and> db_artifacts d = [] \<and> db_pins d = []
     \<and> db_uploads d = [] \<and> db_buckets d = [])
     \<and> wd_objects w = [] \<and> wd_attempts w = [] \<and> wd_runs w = [] \<and> wd_seen w = [] \<and> wd_drawn w = {}"

inductive durable_reachable :: "golib \<Rightarrow> 'f world \<Rightarrow> bool" for L :: golib where
  init: "durable_init w \<Longrightarrow> durable_reachable L w"
| step: "durable_reachable L w \<Longrightarrow> durable_step L w w' \<Longrightarrow> durable_reachable L w'"

section \<open>The invariant of storage\<close>

text \<open>Objects that a maintenance run will delete, and all keys it knows of.\<close>

fun doomed :: "mphase \<Rightarrow> string set" where
  "doomed (MSweep ks) = set ks"
| "doomed (MNote k ks) = set ks"
| "doomed (MOrphan k os nx) = {k}"
| "doomed p = {}"

fun run_keys :: "mphase \<Rightarrow> string set" where
  "run_keys (MReconcile os nx) = fst ` set os"
| "run_keys (MOrphan k os nx) = insert k (fst ` set os)"
| "run_keys p = doomed p"

lemma doomed_run_keys: "doomed p \<subseteq> run_keys p"
  by (cases p) auto

definition known_keys :: "'f world \<Rightarrow> string set" where
  "known_keys w = dom (mget (db_uploads (wd_db w))) \<union> dom (mget (wd_objects w)) \<union> (\<Union>p\<in>set (wd_runs w). run_keys p)"

text \<open>An attempt that has not yet reserved its key, and what holds of its image afterwards.\<close>

fun early :: "phase \<Rightarrow> bool" where
  "early (PhPut epoch data) = False"
| "early (PhComplete n epoch data) = False"
| "early (PhDone r) = False"
| "early p = True"

definition attempt_ok :: "'f db \<Rightarrow> bucket_objects \<Rightarrow> attempt \<Rightarrow> bool" where
  "attempt_ok d obs a \<longleftrightarrow> (case at_phase a of
       PhPut epoch data \<Rightarrow> (\<forall>u. mget (db_uploads d) (at_key a) = Some u \<longrightarrow> du_size u = int (length data)
         \<and> du_state u \<noteq> UPublished)
     | PhComplete n epoch data \<Rightarrow> (\<forall>u. mget (db_uploads d) (at_key a) = Some u \<longrightarrow> du_size u = int (length data)
         \<and> (du_state u = UPending \<longrightarrow> (\<exists>t. mget obs (at_key a) = Some (data, t))))
     | _ \<Rightarrow> True)"

definition upload_ok :: "string \<Rightarrow> upload_row \<Rightarrow> bool" where
  "upload_ok k u \<longleftrightarrow> k = image_key (du_request u) (du_generation u) \<and> length (du_generation u) = 48 \<and> 1 \<le> du_size u"

definition artifact_ok :: "golib \<Rightarrow> 'f db \<Rightarrow> bucket_objects \<Rightarrow> string \<Rightarrow> artifact_row \<Rightarrow> bool" where
  "artifact_ok L d obs i a \<longleftrightarrow>
     (\<exists>u. mget (db_uploads d) (da_key a) = Some u \<and> du_state u = UPublished \<and> du_request u = i \<and> du_size u = da_size a)
     \<and> (\<exists>b t. mget obs (da_key a) = Some (b, t) \<and> int (length b) = da_size a \<and> gl_sha256 L b = da_digest a)"

definition tables_ok :: "'f db \<Rightarrow> bool" where
  "tables_ok d \<longleftrightarrow> wfm (db_uploads d) \<and> wfm (db_artifacts d) \<and> (\<forall>k u. mget (db_uploads d) k = Some u \<longrightarrow> upload_ok k u)
     \<and> upload_bytes d \<le> 2 * 2 ^ 30 \<and> upload_count d \<le> 5000"

definition objects_ok :: "bucket_objects \<Rightarrow> bool" where
  "objects_ok obs \<longleftrightarrow> wfm obs \<and> (\<forall>k b t. mget obs k = Some (b, t) \<longrightarrow>
     safe_key k \<and> 1 \<le> length b \<and> int (length b) \<le> MaxImage)"

definition names_ok :: "'f world \<Rightarrow> bool" where
  "names_ok w \<longleftrightarrow> (\<forall>g\<in>wd_drawn w. length g = 48)
     \<and> (\<forall>k\<in>known_keys w. \<exists>i. \<exists>g\<in>wd_drawn w. k = image_key i g)
     \<and> (\<forall>(i, k)\<in>set (wd_seen w). \<exists>g\<in>wd_drawn w. k = image_key i g)
     \<and> distinct (map at_generation (wd_attempts w)) \<and> at_generation ` set (wd_attempts w) \<subseteq> wd_drawn w
     \<and> (\<forall>a\<in>set (wd_attempts w). early (at_phase a) \<longrightarrow> at_key a \<notin> known_keys w)"

definition deleting_only :: "'f db \<Rightarrow> string \<Rightarrow> bool" where
  "deleting_only d k \<longleftrightarrow> (\<forall>u. mget (db_uploads d) k = Some u \<longrightarrow> du_state u = UDeleting)"

definition storage_ok :: "golib \<Rightarrow> 'f world \<Rightarrow> bool" where
  "storage_ok L w \<longleftrightarrow> tables_ok (wd_db w) \<and> objects_ok (wd_objects w) \<and> names_ok w
     \<and> (\<forall>i a. mget (db_artifacts (wd_db w)) i = Some a \<longrightarrow> artifact_ok L (wd_db w) (wd_objects w) i a)
     \<and> (\<forall>a\<in>set (wd_attempts w). attempt_ok (wd_db w) (wd_objects w) a)
     \<and> (\<forall>p\<in>set (wd_runs w). \<forall>k\<in>doomed p. deleting_only (wd_db w) k)"

lemma image_key_inj:
  "length g = 48 \<Longrightarrow> length g' = 48 \<Longrightarrow> image_key i g = image_key i' g' \<longleftrightarrow> i = i' \<and> g = g'"
  by (simp add: image_key_def append_eq_append_conv)

section \<open>Rows that fade\<close>

text \<open>
  What every transaction but a reservation and a publication does to uploads and artifacts: rows vanish
  or are marked for deletion, and the upload of an artifact that stays is not touched.
\<close>

definition sound :: "'f db \<Rightarrow> bool" where
  "sound d \<longleftrightarrow> wfm (db_uploads d) \<and> wfm (db_artifacts d)
     \<and> (\<forall>k u. mget (db_uploads d) k = Some u \<longrightarrow> 1 \<le> du_size u)
     \<and> (\<forall>i j a b. mget (db_artifacts d) i = Some a \<and> mget (db_artifacts d) j = Some b \<and> da_key a = da_key b \<longrightarrow> i = j)"

definition row_fades :: "upload_row \<Rightarrow> upload_row \<Rightarrow> bool" where
  "row_fades u u' \<longleftrightarrow> du_request u' = du_request u \<and> du_generation u' = du_generation u \<and> du_size u' = du_size u
     \<and> (du_state u' = du_state u \<or> du_state u' = UDeleting)"

definition faded :: "'f db \<Rightarrow> 'f db \<Rightarrow> bool" where
  "faded d d' \<longleftrightarrow> wfm (db_uploads d') \<and> wfm (db_artifacts d')
     \<and> upload_bytes d' \<le> upload_bytes d \<and> upload_count d' \<le> upload_count d
     \<and> (\<forall>k u'. mget (db_uploads d') k = Some u' \<longrightarrow> (\<exists>u. mget (db_uploads d) k = Some u \<and> row_fades u u'))
     \<and> (\<forall>i a. mget (db_artifacts d') i = Some a \<longrightarrow> mget (db_artifacts d) i = Some a)
     \<and> (\<forall>i a u. mget (db_artifacts d') i = Some a \<and> mget (db_uploads d) (da_key a) = Some u \<and> du_state u = UPublished
         \<longrightarrow> (\<exists>u'. mget (db_uploads d') (da_key a) = Some u' \<and> du_state u' = UPublished))"

definition fade :: "'f db \<Rightarrow> 'f db \<Rightarrow> bool" where
  "fade d d' \<longleftrightarrow> (sound d \<longrightarrow> faded d d')"

lemma row_fades_refl [simp]: "row_fades u u"
  by (simp add: row_fades_def)

lemma row_fades_trans: "row_fades u u' \<Longrightarrow> row_fades u' u'' \<Longrightarrow> row_fades u u''"
  by (auto simp: row_fades_def)

lemma faded_upload: "faded d d' \<Longrightarrow> mget (db_uploads d') k = Some u' \<Longrightarrow> \<exists>u. mget (db_uploads d) k = Some u \<and> row_fades u u'"
  by (simp add: faded_def)

lemma faded_artifact: "faded d d' \<Longrightarrow> mget (db_artifacts d') i = Some a \<Longrightarrow> mget (db_artifacts d) i = Some a"
  by (simp add: faded_def)

lemma faded_kept: "faded d d' \<Longrightarrow> mget (db_artifacts d') i = Some a \<Longrightarrow> mget (db_uploads d) (da_key a) = Some u
    \<Longrightarrow> du_state u = UPublished \<Longrightarrow> \<exists>u'. mget (db_uploads d') (da_key a) = Some u' \<and> du_state u' = UPublished"
  unfolding faded_def by blast

lemma faded_sound:
  assumes s: "sound d" and f: "faded d d'"
  shows "sound d'"
  unfolding sound_def
proof (intro conjI allI impI)
  fix k u' assume "mget (db_uploads d') k = Some u'"
  then obtain u where "mget (db_uploads d) k = Some u" "row_fades u u'" using faded_upload[OF f] by blast
  with s show "1 \<le> du_size u'" by (auto simp: sound_def row_fades_def)
next
  fix i j a b
  assume "mget (db_artifacts d') i = Some a \<and> mget (db_artifacts d') j = Some b \<and> da_key a = da_key b"
  then show "i = j" using s faded_artifact[OF f] unfolding sound_def by blast
qed (use f in \<open>simp_all add: faded_def\<close>)

lemma fade_same:
  "db_uploads d' = db_uploads d \<Longrightarrow> db_artifacts d' = db_artifacts d \<Longrightarrow> fade d d'"
  by (simp add: fade_def faded_def sound_def upload_bytes_def upload_count_def)

lemma fade_trans:
  assumes a: "fade d d'" and b: "fade d' d''"
  shows "fade d d''"
  unfolding fade_def
proof
  assume s: "sound d"
  with a have A: "faded d d'" by (simp add: fade_def)
  with b s have B: "faded d' d''" using faded_sound by (auto simp: fade_def)
  show "faded d d''"
    unfolding faded_def
  proof (intro conjI allI impI)
    fix k u'' assume "mget (db_uploads d'') k = Some u''"
    then show "\<exists>u. mget (db_uploads d) k = Some u \<and> row_fades u u''"
      using faded_upload[OF A] faded_upload[OF B] row_fades_trans by metis
  next
    fix i a assume "mget (db_artifacts d'') i = Some a"
    then show "mget (db_artifacts d) i = Some a" using faded_artifact[OF A] faded_artifact[OF B] by blast
  next
    fix i a u
    assume "mget (db_artifacts d'') i = Some a \<and> mget (db_uploads d) (da_key a) = Some u \<and> du_state u = UPublished"
    then show "\<exists>u'. mget (db_uploads d'') (da_key a) = Some u' \<and> du_state u' = UPublished"
      using faded_kept[OF A] faded_kept[OF B] faded_artifact[OF B] by blast
  qed (use A B in \<open>auto simp: faded_def\<close>)
qed

lemma storage_sound:
  assumes "storage_ok L w"
  shows "sound (wd_db w)"
  unfolding sound_def
proof (intro conjI allI impI)
  fix i j a b
  assume k: "mget (db_artifacts (wd_db w)) i = Some a \<and> mget (db_artifacts (wd_db w)) j = Some b \<and> da_key a = da_key b"
  then have "artifact_ok L (wd_db w) (wd_objects w) i a" "artifact_ok L (wd_db w) (wd_objects w) j b"
    using assms by (auto simp: storage_ok_def)
  with k show "i = j" by (auto simp: artifact_ok_def)
qed (use assms in \<open>auto simp: storage_ok_def tables_ok_def upload_ok_def\<close>)

lemma known_keys_fade:
  assumes "faded (wd_db w) d'"
  shows "known_keys (w\<lparr>wd_db := d'\<rparr>) \<subseteq> known_keys w"
  using faded_upload[OF assms] by (fastforce simp: known_keys_def)

lemma names_ok_mono:
  assumes "names_ok w" "known_keys w' \<subseteq> known_keys w" "wd_drawn w' = wd_drawn w" "wd_seen w' = wd_seen w"
    "wd_attempts w' = wd_attempts w"
  shows "names_ok w'"
  using assms unfolding names_ok_def by auto

lemma attempt_ok_fade:
  assumes f: "faded d d'" and ok: "attempt_ok d obs a"
  shows "attempt_ok d' obs a"
proof -
  have old: "\<exists>u. mget (db_uploads d) (at_key a) = Some u \<and> du_size u' = du_size u \<and> (du_state u' = UPending \<longrightarrow> du_state u = UPending)
      \<and> (du_state u' = UPublished \<longrightarrow> du_state u = UPublished)"
    if "mget (db_uploads d') (at_key a) = Some u'" for u'
    using faded_upload[OF f that] by (auto simp: row_fades_def)
  show ?thesis
  proof (cases "at_phase a")
    case (PhPut epoch data)
    with ok old show ?thesis by (auto simp: attempt_ok_def)
  next
    case (PhComplete n epoch data)
    with ok old show ?thesis by (fastforce simp: attempt_ok_def)
  qed (simp_all add: attempt_ok_def)
qed

lemma storage_fade:
  assumes inv: "storage_ok L w" and f: "fade (wd_db w) d'"
  shows "storage_ok L (w\<lparr>wd_db := d'\<rparr>)"
proof -
  have F: "faded (wd_db w) d'" using f storage_sound[OF inv] by (simp add: fade_def)
  have t: "tables_ok (wd_db w)" using inv by (simp add: storage_ok_def)
  have "upload_ok k u'" if "mget (db_uploads d') k = Some u'" for k u'
    using t faded_upload[OF F that] by (auto simp: tables_ok_def upload_ok_def row_fades_def)
  moreover have "upload_bytes d' \<le> 2 * 2 ^ 30" "upload_count d' \<le> 5000"
    using t F by (simp_all add: tables_ok_def faded_def)
  moreover have "wfm (db_uploads d')" "wfm (db_artifacts d')" using F by (simp_all add: faded_def)
  ultimately have "tables_ok d'" by (simp add: tables_ok_def)
  moreover have "names_ok (w\<lparr>wd_db := d'\<rparr>)"
    by (rule names_ok_mono[OF _ known_keys_fade[OF F]]) (use inv in \<open>simp_all add: storage_ok_def\<close>)
  moreover have "artifact_ok L d' (wd_objects w) i a" if a: "mget (db_artifacts d') i = Some a" for i a
  proof -
    have ok: "artifact_ok L (wd_db w) (wd_objects w) i a"
      using inv faded_artifact[OF F a] by (simp add: storage_ok_def)
    then obtain u where u: "mget (db_uploads (wd_db w)) (da_key a) = Some u" "du_state u = UPublished"
        "du_request u = i" "du_size u = da_size a" by (auto simp: artifact_ok_def)
    obtain u' where u': "mget (db_uploads d') (da_key a) = Some u'" "du_state u' = UPublished"
      using faded_kept[OF F a u(1,2)] by blast
    have "row_fades u u'" using faded_upload[OF F u'(1)] u(1) by simp
    with u u' ok show ?thesis by (auto simp: artifact_ok_def row_fades_def)
  qed
  moreover have "deleting_only (wd_db w) k \<Longrightarrow> deleting_only d' k" for k
    using faded_upload[OF F, of k] by (fastforce simp: deleting_only_def row_fades_def)
  ultimately show ?thesis
    using inv attempt_ok_fade[OF F] by (simp add: storage_ok_def)
qed

section \<open>The fading transactions\<close>

lemma tot_mono: "(\<And>k v. (k, v) \<in> set es \<Longrightarrow> f k v \<le> g k v) \<Longrightarrow> tot f es \<le> tot g es"
proof (induction es)
  case (Cons e es)
  obtain k v where e: "e = (k, v)" by force
  have "tot f es \<le> tot g es" using Cons by auto
  moreover have "f k v \<le> g k v" using Cons.prems e by auto
  ultimately show ?case using e by simp
qed simp

lemma tot_filter_le: "(\<And>k v. (k, v) \<in> set es \<Longrightarrow> 0 \<le> f k v) \<Longrightarrow> tot f (filter P es) \<le> tot f es"
proof (induction es)
  case (Cons e es)
  obtain k v where e: "e = (k, v)" by force
  have "tot f (filter P es) \<le> tot f es" using Cons by auto
  moreover have "0 \<le> f k v" using Cons.prems e by auto
  ultimately show ?case using e by simp
qed simp

lemma sound_size: "sound d \<Longrightarrow> (k, u) \<in> set (db_uploads d) \<Longrightarrow> 1 \<le> du_size u"
  using gm.entry_iff[of "db_uploads d" k u] by (auto simp: sound_def)

lemma fade_update:
  assumes us: "db_uploads d' = update_rows f (db_uploads d)" and row: "\<And>k u. row_fades u (f k u)"
    and gone: "\<And>k u. du_deleted (f k u) = None \<Longrightarrow> du_deleted u = None"
    and as: "wfm (db_artifacts d) \<Longrightarrow> wfm (db_artifacts d')"
      "\<And>i a. sound d \<Longrightarrow> mget (db_artifacts d') i = Some a \<Longrightarrow> mget (db_artifacts d) i = Some a"
    and kept: "\<And>i a u. sound d \<Longrightarrow> mget (db_artifacts d') i = Some a \<Longrightarrow> mget (db_uploads d) (da_key a) = Some u
      \<Longrightarrow> du_state u = UPublished \<Longrightarrow> du_state (f (da_key a) u) = UPublished"
  shows "fade d d'"
  unfolding fade_def
proof
  assume s: "sound d"
  have "(if du_deleted (f k u) = None then du_size (f k u) else 0) \<le> (if du_deleted u = None then du_size u else 0)"
    if "(k, u) \<in> set (db_uploads d)" for k u
    using sound_size[OF s that] gone[of k u] row[of u k] by (cases "du_deleted u") (auto simp: row_fades_def)
  then have bytes: "upload_bytes d' \<le> upload_bytes d"
    by (simp add: upload_bytes_def us tot_mono)
  have count: "upload_count d' \<le> upload_count d"
    using gone by (auto simp: upload_count_def us intro!: cnt_mono)
  show "faded d d'"
    unfolding faded_def
  proof (intro conjI allI impI)
    fix k u' assume "mget (db_uploads d') k = Some u'"
    then show "\<exists>u. mget (db_uploads d) k = Some u \<and> row_fades u u'" using row by (auto simp: us)
  next
    fix i a u
    assume u: "mget (db_artifacts d') i = Some a \<and> mget (db_uploads d) (da_key a) = Some u \<and> du_state u = UPublished"
    with kept[OF s, of i a u] show "\<exists>u'. mget (db_uploads d') (da_key a) = Some u' \<and> du_state u' = UPublished"
      by (simp add: us)
  next
    show "wfm (db_uploads d')" using s by (simp add: us sound_def)
    show "wfm (db_artifacts d')" using s by (intro as(1)) (simp add: sound_def)
    show "mget (db_artifacts d') i = Some a \<Longrightarrow> mget (db_artifacts d) i = Some a" for i a by (rule as(2)[OF s])
  qed (rule bytes, rule count)
qed

lemma fade_filter:
  assumes us: "db_uploads d' = filter (\<lambda>(k, u). P k u) (db_uploads d)" and as: "db_artifacts d' = db_artifacts d"
    and kept: "\<And>k u. du_state u = UPublished \<Longrightarrow> P k u"
  shows "fade d d'"
  unfolding fade_def
proof
  assume s: "sound d"
  then have w: "wfm (db_uploads d)" by (simp add: sound_def)
  have "upload_bytes d' \<le> upload_bytes d"
    unfolding upload_bytes_def us using sound_size[OF s] by (intro tot_filter_le) (fastforce split: if_splits)
  moreover have "upload_count d' \<le> upload_count d"
    unfolding upload_count_def us cnt_eq_tot by (intro tot_filter_le) auto
  ultimately show "faded d d'"
    using s as kept by (auto simp: faded_def us sound_def mget_filter[OF w] wfm_filter split: option.splits if_splits)
qed

lemma mark_row: "row_fades u (if b then u\<lparr>du_state := UDeleting, du_delete_after := t\<rparr> else u)"
  by (simp add: row_fades_def)

lemma fade_commit: "fade d d' \<Longrightarrow> fade d (fst (commit V d d' ok fail))"
  by (simp add: commit_def fade_same split: option.splits prod.splits)

lemma fade_missing:
  assumes only: "\<And>j a. mget (db_artifacts d) j = Some a \<Longrightarrow> da_key a = k \<Longrightarrow> j = i"
  shows "fade d (fst (db_missing V i k d))"
proof -
  let ?f = "\<lambda>k' u. if k' = k then u\<lparr>du_state := UDeleting, du_delete_after := Some (de_now V)\<rparr> else u"
  let ?as = "filter (\<lambda>(j, a). \<not> (j = i \<and> da_key a = k)) (db_artifacts d)"
  have "fade d (d\<lparr>db_artifacts := ?as, db_uploads := update_rows ?f (db_uploads d)\<rparr>)" (is "fade d ?d")
  proof (rule fade_update)
    show "db_uploads ?d = update_rows ?f (db_uploads d)" by simp
    show "row_fades u (?f k' u)" for k' u by (rule mark_row)
    show "du_deleted (?f k' u) = None \<Longrightarrow> du_deleted u = None" for k' u by (simp split: if_splits)
    show "wfm (db_artifacts d) \<Longrightarrow> wfm (db_artifacts ?d)" by (simp add: wfm_filter)
    have sub: "mget (db_artifacts d) j = Some a \<and> \<not> (j = i \<and> da_key a = k)"
      if s: "sound d" and m: "mget (db_artifacts ?d) j = Some a" for j a
    proof -
      have w: "wfm (db_artifacts d)" using s by (simp add: sound_def)
      have "mget ?as j = Some a" using m by simp
      then show ?thesis unfolding mget_filter[OF w] by (cases "mget (db_artifacts d) j") (simp_all split: if_splits)
    qed
    show "mget (db_artifacts d) j = Some a" if "sound d" "mget (db_artifacts ?d) j = Some a" for j a
      using sub[OF that] by (rule conjunct1)
    fix j a and u :: upload_row
    assume s: "sound d" and m: "mget (db_artifacts ?d) j = Some a" and u: "du_state u = UPublished"
    have "da_key a \<noteq> k" using sub[OF s m] only[of j a] by blast
    then show "du_state (?f (da_key a) u) = UPublished" using u by simp
  qed
  then have "fade d (fst (commit V d (d\<lparr>db_artifacts := ?as, db_uploads := update_rows ?f (db_uploads d)\<rparr>) None Some))"
    by (rule fade_commit)
  then show ?thesis by (simp add: db_missing_def mark_deleting_def fade_same split: option.splits)
qed

lemma fade_note: "fade d (note_deleted V k d)"
  by (rule fade_update, simp add: note_deleted_def) (auto simp: note_deleted_def row_fades_def split: option.splits if_splits)

lemma fade_drop_artifacts: "fade d (drop_artifacts V d)"
proof (rule fade_update)
  let ?gone = "take 100 (filter (\<lambda>(i, a). da_expires a \<le> de_now V \<and> \<not> pinned V d i) (db_artifacts d))"
  let ?f = "\<lambda>k u. if k \<in> da_key ` snd ` set ?gone
      then u\<lparr>du_state := UDeleting, du_delete_after := Some (de_now V + 60 * minute)\<rparr> else u"
  show "db_uploads (drop_artifacts V d) = update_rows ?f (db_uploads d)"
    by (simp add: drop_artifacts_def Let_def mark_deleting_def)
  have as: "db_artifacts (drop_artifacts V d) = filter (\<lambda>(i, a). i \<notin> fst ` set ?gone) (db_artifacts d)"
    by (simp add: drop_artifacts_def Let_def)
  show "row_fades u (?f k u)" for k u by (rule mark_row)
  show "du_deleted (?f k u) = None \<Longrightarrow> du_deleted u = None" for k u by (simp split: if_splits)
  show "wfm (db_artifacts d) \<Longrightarrow> wfm (db_artifacts (drop_artifacts V d))" unfolding as by (rule wfm_filter)
  have sub: "mget (db_artifacts d) i = Some a \<and> i \<notin> fst ` set ?gone"
    if "sound d" "mget (db_artifacts (drop_artifacts V d)) i = Some a" for i a
    using that unfolding as by (simp add: mget_filter sound_def split: option.splits if_splits)
  then show "mget (db_artifacts d) i = Some a"
    if "sound d" "mget (db_artifacts (drop_artifacts V d)) i = Some a" for i a
    using that by blast
  fix i a u
  assume s: "sound d" and a: "mget (db_artifacts (drop_artifacts V d)) i = Some a" and u: "du_state u = UPublished"
  have "da_key a \<noteq> da_key b" if "(j, b) \<in> set ?gone" for j b
  proof
    assume "da_key a = da_key b"
    moreover have "mget (db_artifacts d) j = Some b"
      using that s by (auto simp: sound_def gm.entry_iff dest!: in_set_takeD)
    ultimately have "i = j" using s sub[OF s a] unfolding sound_def by blast
    with that sub[OF s a] show False by force
  qed
  then have "da_key a \<notin> da_key ` snd ` set ?gone" by force
  then show "du_state (?f (da_key a) u) = UPublished" using u by simp
qed

lemma fade_drop_pending: "fade d (drop_pending V d)"
  by (rule fade_update, simp add: drop_pending_def mark_deleting_def) (auto simp: drop_pending_def mark_row split: if_splits)

lemma fade_drop_old: "fade d (drop_old_rows V d)"
  by (rule fade_filter, simp add: drop_old_rows_def) (auto simp: drop_old_rows_def forgotten_upload_def)

lemma cancels_frame: "queue_frame (qt_db t) (qt_db (foldl (\<lambda>q (k, i). queue_cancel C V k i q) t ks))"
proof (induction ks arbitrary: t)
  case (Cons p ks)
  obtain k i where p: "p = (k, i)" by force
  have "queue_frame (qt_db t) (qt_db (queue_cancel C V k i t))"
    using move_cancel[of V t C k i] by (simp add: queue_move_def)
  with Cons show ?case by (simp add: p) (rule queue_frame_trans)
qed (simp add: queue_frame_def)

lemma fade_clean: "fade d (fst (clean C V d))"
proof -
  define q where "q = foldl (\<lambda>q (k, i). queue_cancel C V k i q) \<lparr>qt_db = d, qt_err = None\<rparr> (expired_interests V d)"
  have a: "fade d (qt_db q)"
    using cancels_frame[of "\<lparr>qt_db = d, qt_err = None\<rparr>" C V "expired_interests V d"]
    by (intro fade_same) (simp_all add: q_def queue_frame_def)
  have b: "fade d1 (drop_workspaces V d1)" and c: "fade d1 (settle_requests d1)" and e: "fade d1 (drop_requests V d1)"
    for d1 :: "'a db"
    by (rule fade_same; simp add: drop_workspaces_def settle_requests_def drop_requests_def Let_def)+
  note f = fade_trans[OF a fade_trans[OF b fade_trans[OF c fade_trans[OF fade_drop_artifacts
    fade_trans[OF fade_drop_pending fade_trans[OF fade_drop_old e]]]]]]
  have "clean C V d = (case de_fault V ''maintenance'' of Some e \<Rightarrow> (d, Some e)
      | None \<Rightarrow> (case qt_err q of Some e \<Rightarrow> (d, Some e) | None \<Rightarrow> commit V d (drop_requests V (drop_old_rows V (drop_pending V
          (drop_artifacts V (settle_requests (drop_workspaces V (qt_db q))))))) None Some))"
    unfolding clean_def Let_def q_def ..
  then show ?thesis
    using fade_commit[OF f, where V = V and ok = None and fail = Some] fade_same[of d d]
    by (cases "de_fault V ''maintenance''"; cases "qt_err q") simp_all
qed

section \<open>Storage stays sound\<close>

lemma storage_parts:
  assumes "storage_ok L w"
  shows "tables_ok (wd_db w)" "objects_ok (wd_objects w)" "names_ok w"
    and "\<And>i a. mget (db_artifacts (wd_db w)) i = Some a \<Longrightarrow> artifact_ok L (wd_db w) (wd_objects w) i a"
    and "\<And>a. a \<in> set (wd_attempts w) \<Longrightarrow> attempt_ok (wd_db w) (wd_objects w) a"
    and "\<And>p k. p \<in> set (wd_runs w) \<Longrightarrow> k \<in> doomed p \<Longrightarrow> deleting_only (wd_db w) k"
  using assms by (simp_all add: storage_ok_def)

lemma names_parts:
  assumes "names_ok w"
  shows "\<And>g. g \<in> wd_drawn w \<Longrightarrow> length g = 48"
    and "\<And>k. k \<in> known_keys w \<Longrightarrow> \<exists>i. \<exists>g\<in>wd_drawn w. k = image_key i g"
    and "\<And>i k. (i, k) \<in> set (wd_seen w) \<Longrightarrow> \<exists>g\<in>wd_drawn w. k = image_key i g"
    and "distinct (map at_generation (wd_attempts w))"
    and "\<And>a. a \<in> set (wd_attempts w) \<Longrightarrow> at_generation a \<in> wd_drawn w"
    and "\<And>a. a \<in> set (wd_attempts w) \<Longrightarrow> early (at_phase a) \<Longrightarrow> at_key a \<notin> known_keys w"
  using assms unfolding names_ok_def by fast+

lemma names_okI:
  assumes "\<And>g. g \<in> wd_drawn w \<Longrightarrow> length g = 48"
    and "\<And>k. k \<in> known_keys w \<Longrightarrow> \<exists>i. \<exists>g\<in>wd_drawn w. k = image_key i g"
    and "\<And>i k. (i, k) \<in> set (wd_seen w) \<Longrightarrow> \<exists>g\<in>wd_drawn w. k = image_key i g"
    and "distinct (map at_generation (wd_attempts w))"
    and "\<And>a. a \<in> set (wd_attempts w) \<Longrightarrow> at_generation a \<in> wd_drawn w"
    and "\<And>a. a \<in> set (wd_attempts w) \<Longrightarrow> early (at_phase a) \<Longrightarrow> at_key a \<notin> known_keys w"
  shows "names_ok w"
  using assms unfolding names_ok_def by fast

lemma known_keys_frame [simp]:
  "known_keys (w\<lparr>wd_seen := s\<rparr>) = known_keys w" "known_keys (w\<lparr>wd_drawn := D\<rparr>) = known_keys w"
  "known_keys (w\<lparr>wd_attempts := as\<rparr>) = known_keys w"
  by (simp_all add: known_keys_def)

lemma upload_name: "tables_ok d \<Longrightarrow> mget (db_uploads d) k = Some u \<Longrightarrow>
    k = image_key (du_request u) (du_generation u) \<and> length (du_generation u) = 48"
  by (simp add: tables_ok_def upload_ok_def)

lemma storage_drawn:
  assumes "storage_ok L w" "\<forall>g\<in>D. length g = 48"
  shows "storage_ok L (w\<lparr>wd_drawn := wd_drawn w \<union> D\<rparr>)"
proof -
  have "names_ok (w\<lparr>wd_drawn := wd_drawn w \<union> D\<rparr>)"
  proof (rule names_okI, goal_cases)
    case (2 k)
    then show ?case using names_parts(2)[OF storage_parts(3)[OF assms(1)], of k] by auto
  next
    case (3 i k)
    then show ?case using names_parts(3)[OF storage_parts(3)[OF assms(1)], of i k] by auto
  qed (use names_parts[OF storage_parts(3)[OF assms(1)]] assms(2) in auto)
  then show ?thesis using assms(1) by (simp add: storage_ok_def)
qed

lemma artifact_name:
  assumes inv: "storage_ok L w" and a: "mget (db_artifacts (wd_db w)) i = Some a"
  shows "\<exists>g\<in>wd_drawn w. da_key a = image_key i g"
proof -
  from storage_parts(4)[OF inv a] obtain u where u: "mget (db_uploads (wd_db w)) (da_key a) = Some u" "du_request u = i"
    by (auto simp: artifact_ok_def)
  then have "da_key a \<in> known_keys w" by (auto simp: known_keys_def)
  then obtain j g where g: "g \<in> wd_drawn w" "da_key a = image_key j g"
    using names_parts(2)[OF storage_parts(3)[OF inv]] by blast
  have "j = i"
    using upload_name[OF storage_parts(1)[OF inv] u(1)] g names_parts(1)[OF storage_parts(3)[OF inv] g(1)] u(2)
    by (metis image_key_inj)
  with g show ?thesis by blast
qed

lemma storage_read:
  assumes "storage_ok L w" "mget (db_artifacts (wd_db w)) i = Some a"
  shows "storage_ok L (w\<lparr>wd_seen := (i, da_key a) # wd_seen w\<rparr>)"
proof -
  have "names_ok (w\<lparr>wd_seen := (i, da_key a) # wd_seen w\<rparr>)"
    by (rule names_okI) (use names_parts[OF storage_parts(3)[OF assms(1)]] artifact_name[OF assms] in auto)
  then show ?thesis using assms(1) by (simp add: storage_ok_def)
qed

lemma storage_missing:
  assumes inv: "storage_ok L w" and seen: "(i, k) \<in> set (wd_seen w)"
  shows "storage_ok L (w\<lparr>wd_db := fst (db_missing V i k (wd_db w))\<rparr>)"
proof (rule storage_fade[OF inv fade_missing])
  fix j a
  assume a: "mget (db_artifacts (wd_db w)) j = Some a" "da_key a = k"
  note n = storage_parts(3)[OF inv]
  obtain g g' where "g \<in> wd_drawn w" "g' \<in> wd_drawn w" "k = image_key j g" "k = image_key i g'"
    using artifact_name[OF inv a(1)] a(2) names_parts(3)[OF n seen] by auto
  then show "j = i" using names_parts(1)[OF n] by (metis image_key_inj)
qed

lemma storage_attempt:
  assumes inv: "storage_ok L w" and a: "at_phase a = PhCheck" "at_generation a \<notin> wd_drawn w" "length (at_generation a) = 48"
  shows "storage_ok L (w\<lparr>wd_attempts := wd_attempts w @ [a], wd_drawn := insert (at_generation a) (wd_drawn w)\<rparr>)"
    (is "storage_ok L ?w")
proof -
  note n = storage_parts(3)[OF inv]
  have "at_key a \<notin> known_keys w"
  proof
    assume "at_key a \<in> known_keys w"
    then obtain i g where "g \<in> wd_drawn w" "at_key a = image_key i g" using names_parts(2)[OF n] by blast
    with a names_parts(1)[OF n] show False by (auto simp: at_key_def image_key_inj)
  qed
  then have "names_ok ?w"
  proof (intro names_okI, goal_cases)
    case (2 k)
    then show ?case using names_parts(2)[OF n, of k] by auto
  next
    case (3 i k)
    then show ?case using names_parts(3)[OF n, of i k] by auto
  qed (use names_parts[OF n] a in auto)
  moreover have "attempt_ok (wd_db w) (wd_objects w) a" by (simp add: attempt_ok_def a)
  ultimately show ?thesis using inv by (simp add: storage_ok_def)
qed

text \<open>Changes of one attempt's phase or one run's phase.\<close>

lemma set_update_weak: "x \<in> set (xs[n := y]) \<Longrightarrow> x = y \<or> x \<in> set xs"
  using set_update_subset_insert by fast

lemma map_update_same: "n < length xs \<Longrightarrow> f y = f (xs ! n) \<Longrightarrow> map f (xs[n := y]) = map f xs"
  by (simp add: map_update list_update_same_conv)

lemma storage_phase:
  assumes inv: "storage_ok L w" and n: "n < length (wd_attempts w)"
    and early: "early p \<Longrightarrow> early (at_phase (wd_attempts w ! n))"
    and ok: "attempt_ok (wd_db w) (wd_objects w) ((wd_attempts w ! n)\<lparr>at_phase := p\<rparr>)"
  shows "storage_ok L (w\<lparr>wd_attempts := (wd_attempts w)[n := (wd_attempts w ! n)\<lparr>at_phase := p\<rparr>]\<rparr>)"
    (is "storage_ok L (w\<lparr>wd_attempts := _[n := ?a]\<rparr>)")
proof -
  let ?as = "(wd_attempts w)[n := ?a]"
  have gens: "map at_generation ?as = map at_generation (wd_attempts w)" using n by (rule map_update_same) simp
  note N = names_parts[OF storage_parts(3)[OF inv]]
  have member: "a \<in> set ?as \<Longrightarrow> a = ?a \<or> a \<in> set (wd_attempts w)" for a by (rule set_update_weak)
  have old: "wd_attempts w ! n \<in> set (wd_attempts w)" using n by simp
  have same: "at_key ?a = at_key (wd_attempts w ! n)" by (simp add: at_key_def)
  have "names_ok (w\<lparr>wd_attempts := ?as\<rparr>)"
  proof (rule names_okI, goal_cases)
    case (4)
    show ?case using gens N(4) by simp
  next
    case (5 a)
    then show ?case using member[of a] N(5) old by auto
  next
    case (6 a)
    then show ?case using member[of a] N(6) old early same by auto
  qed (use N(1-3) in auto)
  moreover have "attempt_ok (wd_db w) (wd_objects w) a" if "a \<in> set ?as" for a
    using set_update_weak[OF that] ok storage_parts(5)[OF inv] by blast
  ultimately show ?thesis using inv by (simp add: storage_ok_def)
qed

lemma storage_run:
  assumes inv: "storage_ok L w" and n: "n < length (wd_runs w)"
    and keys: "run_keys p \<subseteq> known_keys w" and dead: "\<And>k. k \<in> doomed p \<Longrightarrow> deleting_only (wd_db w) k"
  shows "storage_ok L (w\<lparr>wd_runs := (wd_runs w)[n := p]\<rparr>)" (is "storage_ok L ?w")
proof -
  have "known_keys ?w \<subseteq> known_keys w"
    using keys unfolding known_keys_def by (auto dest!: set_update_weak)
  then have "names_ok ?w" by (rule names_ok_mono[OF storage_parts(3)[OF inv]]) simp_all
  moreover have "deleting_only (wd_db w) k" if "q \<in> set ((wd_runs w)[n := p])" "k \<in> doomed q" for q k
    using set_update_weak[OF that(1)] that(2) dead storage_parts(6)[OF inv] by blast
  ultimately show ?thesis using inv by (simp add: storage_ok_def)
qed

lemma storage_delete:
  assumes inv: "storage_ok L w" and p: "p \<in> set (wd_runs w)" "k \<in> doomed p"
  shows "storage_ok L (w\<lparr>wd_objects := mdel k (wd_objects w)\<rparr>)" (is "storage_ok L ?w")
proof -
  have dead: "deleting_only (wd_db w) k" using storage_parts(6)[OF inv] p by blast
  have o: "objects_ok (mdel k (wd_objects w))"
    using storage_parts(2)[OF inv] by (auto simp: objects_ok_def map_simps gm.wf_del split: if_splits)
  have "known_keys ?w \<subseteq> known_keys w"
    unfolding known_keys_def by (auto simp: map_simps split: if_splits)
  then have n: "names_ok ?w" by (rule names_ok_mono[OF storage_parts(3)[OF inv]]) simp_all
  have "artifact_ok L (wd_db w) (mdel k (wd_objects w)) i a" if "mget (db_artifacts (wd_db w)) i = Some a" for i a
    using storage_parts(4)[OF inv that] dead by (auto simp: artifact_ok_def deleting_only_def map_simps)
  moreover have "attempt_ok (wd_db w) (mdel k (wd_objects w)) a" if "a \<in> set (wd_attempts w)" for a
    using storage_parts(5)[OF inv that] dead
    by (cases "at_phase a") (auto simp: attempt_ok_def deleting_only_def map_simps)
  ultimately show ?thesis using inv o n by (simp add: storage_ok_def)
qed

text \<open>The three steps by which an attempt publishes: the reservation, the upload and the publication.\<close>

lemma storage_reserve:
  assumes inv: "storage_ok L w" and new: "k \<notin> known_keys w" and k: "k = image_key (du_request u) (du_generation u)"
    and u: "du_generation u \<in> wd_drawn w" "1 \<le> du_size u" "du_state u = UPending" "du_deleted u = None"
    and room: "upload_bytes (wd_db w) + du_size u \<le> 2 * 2 ^ 30" "upload_count (wd_db w) < 5000"
    and mine: "\<And>a. a \<in> set (wd_attempts w) \<Longrightarrow> at_key a = k \<Longrightarrow> \<not> early (at_phase a)
      \<and> (\<forall>e x. at_phase a = PhPut e x \<longrightarrow> du_size u = int (length x)) \<and> (\<forall>n e x. at_phase a \<noteq> PhComplete n e x)"
  shows "storage_ok L (w\<lparr>wd_db := (wd_db w)\<lparr>db_uploads := mput k u (db_uploads (wd_db w))\<rparr>\<rparr>)" (is "storage_ok L ?w")
proof -
  let ?d = "(wd_db w)\<lparr>db_uploads := mput k u (db_uploads (wd_db w))\<rparr>"
  note T = storage_parts(1)[OF inv] and N = names_parts[OF storage_parts(3)[OF inv]]
  have none: "mget (db_uploads (wd_db w)) k = None" using new by (auto simp: known_keys_def)
  have wf: "wfm (db_uploads (wd_db w))" using T by (simp add: tables_ok_def)
  have bytes: "upload_bytes ?d = upload_bytes (wd_db w) + du_size u" "upload_count ?d = upload_count (wd_db w) + 1"
    using u(4) by (simp_all add: upload_bytes_def upload_count_def gm.tot_put[OF wf] gm.cnt_put[OF wf] none)
  have "upload_ok k u" using k u N(1) by (simp add: upload_ok_def)
  then have "tables_ok ?d"
    using T bytes room by (auto simp: tables_ok_def map_simps gm.wf_put)
  moreover have known: "known_keys ?w = insert k (known_keys w)"
    by (auto simp: known_keys_def map_simps split: if_splits)
  have "names_ok ?w"
  proof (rule names_okI, goal_cases)
    case (2 k')
    then show ?case using N(2)[of k'] k u(1) unfolding known by auto
  next
    case (6 a)
    then show ?case using N(6)[of a] mine[of a] unfolding known by auto
  qed (use N in auto)
  moreover have "artifact_ok L ?d (wd_objects w) i a" if "mget (db_artifacts (wd_db w)) i = Some a" for i a
    using storage_parts(4)[OF inv that] none by (auto simp: artifact_ok_def map_simps)
  moreover have "attempt_ok ?d (wd_objects w) a" if "a \<in> set (wd_attempts w)" for a
  proof (cases "at_key a = k")
    case True
    then show ?thesis using mine[OF that] u(3) by (cases "at_phase a") (auto simp: attempt_ok_def map_simps)
  next
    case False
    then show ?thesis using storage_parts(5)[OF inv that] by (cases "at_phase a") (auto simp: attempt_ok_def map_simps)
  qed
  moreover have "deleting_only ?d k'" if "p \<in> set (wd_runs w)" "k' \<in> doomed p" for p k'
  proof -
    have "k' \<in> known_keys w" using that doomed_run_keys by (fastforce simp: known_keys_def)
    with new storage_parts(6)[OF inv that] show ?thesis by (auto simp: deleting_only_def map_simps)
  qed
  ultimately show ?thesis using storage_parts(2)[OF inv] by (simp add: storage_ok_def)
qed

lemma storage_put:
  assumes inv: "storage_ok L w" and k: "k = image_key i g" "g \<in> wd_drawn w"
    and b: "safe_key k" "1 \<le> length b" "int (length b) \<le> MaxImage"
    and free: "\<And>u. mget (db_uploads (wd_db w)) k = Some u \<Longrightarrow> du_state u \<noteq> UPublished"
    and mine: "\<And>a. a \<in> set (wd_attempts w) \<Longrightarrow> at_key a = k \<Longrightarrow> \<not> early (at_phase a)
      \<and> (\<forall>n e x. at_phase a \<noteq> PhComplete n e x)"
  shows "storage_ok L (w\<lparr>wd_objects := mput k (b, t) (wd_objects w)\<rparr>)" (is "storage_ok L ?w")
proof -
  note N = names_parts[OF storage_parts(3)[OF inv]]
  let ?obs = "mput k (b, t) (wd_objects w)"
  have "objects_ok ?obs"
    using storage_parts(2)[OF inv] b by (auto simp: objects_ok_def map_simps gm.wf_put)
  moreover have known: "known_keys ?w = insert k (known_keys w)"
    by (auto simp: known_keys_def map_simps split: if_splits)
  have "names_ok ?w"
  proof (rule names_okI, goal_cases)
    case (2 k')
    then show ?case using N(2)[of k'] k unfolding known by auto
  next
    case (6 a)
    then show ?case using N(6)[of a] mine[of a] unfolding known by auto
  qed (use N in auto)
  moreover have "artifact_ok L (wd_db w) ?obs j a" if "mget (db_artifacts (wd_db w)) j = Some a" for j a
    using storage_parts(4)[OF inv that] free by (auto simp: artifact_ok_def map_simps)
  moreover have "attempt_ok (wd_db w) ?obs a" if "a \<in> set (wd_attempts w)" for a
    using storage_parts(5)[OF inv that] mine[OF that] by (cases "at_phase a") (auto simp: attempt_ok_def map_simps)
  ultimately show ?thesis using inv by (simp add: storage_ok_def)
qed

lemma storage_publish:
  assumes inv: "storage_ok L w" and u: "mget (db_uploads (wd_db w)) k = Some u" "du_state u = UPending"
    and none: "mget (db_artifacts (wd_db w)) (du_request u) = None"
    and us: "mget (db_uploads d') = (mget (db_uploads (wd_db w)))(k \<mapsto> u\<lparr>du_state := UPublished\<rparr>)" "wfm (db_uploads d')"
    and as: "mget (db_artifacts d') = (mget (db_artifacts (wd_db w)))(du_request u \<mapsto> row)" "wfm (db_artifacts d')"
    and tot: "upload_bytes d' = upload_bytes (wd_db w)" "upload_count d' = upload_count (wd_db w)"
    and row: "da_key row = k" "da_size row = du_size u"
    and ob: "mget (wd_objects w) k = Some (b, t)" "int (length b) = du_size u" "gl_sha256 L b = da_digest row"
    and mine: "\<And>a e x. a \<in> set (wd_attempts w) \<Longrightarrow> at_key a = k \<Longrightarrow> at_phase a \<noteq> PhPut e x"
  shows "storage_ok L (w\<lparr>wd_db := d'\<rparr>)" (is "storage_ok L ?w")
proof -
  note T = storage_parts(1)[OF inv] and N = storage_parts(3)[OF inv]
  have "tables_ok d'"
    using T us as tot u(1) unfolding tables_ok_def by (auto simp: upload_ok_def)
  moreover have "known_keys ?w \<subseteq> known_keys w"
    using u(1) by (auto simp: known_keys_def us split: if_splits)
  then have "names_ok ?w" by (rule names_ok_mono[OF N]) simp_all
  moreover have "artifact_ok L d' (wd_objects w) i a" if "mget (db_artifacts d') i = Some a" for i a
  proof (cases "i = du_request u")
    case True
    with that as row ob show ?thesis by (auto simp: artifact_ok_def us)
  next
    case False
    with that as have "artifact_ok L (wd_db w) (wd_objects w) i a" using storage_parts(4)[OF inv] by simp
    with u False show ?thesis by (auto simp: artifact_ok_def us)
  qed
  moreover have "attempt_ok d' (wd_objects w) a" if "a \<in> set (wd_attempts w)" for a
    using storage_parts(5)[OF inv that] mine[OF that] u by (cases "at_phase a") (auto simp: attempt_ok_def us)
  moreover have "deleting_only d' k'" if "p \<in> set (wd_runs w)" "k' \<in> doomed p" for p k'
    using storage_parts(6)[OF inv that] u by (auto simp: deleting_only_def us split: if_splits)
  ultimately show ?thesis using storage_parts(2)[OF inv] by (simp add: storage_ok_def)
qed

end
