(* ===== verification/DurableSteps.thy ===== *)
theory DurableSteps
  imports DurableWorld
begin

text \<open>
  Every step of the durable deployment keeps storage sound: the attempts of the workers, the runs of the
  maintenance, and the transactions of the web processes.
\<close>

text \<open>The order of independent updates.\<close>

lemma world_order [simp]:
  "w\<lparr>wd_db := d, wd_attempts := as\<rparr> = w\<lparr>wd_attempts := as, wd_db := d\<rparr>"
  "w\<lparr>wd_objects := obs, wd_attempts := as\<rparr> = w\<lparr>wd_attempts := as, wd_objects := obs\<rparr>"
  "w\<lparr>wd_objects := obs, wd_db := d\<rparr> = w\<lparr>wd_db := d, wd_objects := obs\<rparr>"
  "w\<lparr>wd_objects := obs, wd_runs := rs\<rparr> = w\<lparr>wd_runs := rs, wd_objects := obs\<rparr>"
  "w\<lparr>wd_db := d, wd_runs := rs\<rparr> = w\<lparr>wd_runs := rs, wd_db := d\<rparr>"
  by simp_all

section \<open>Attempts\<close>

fun quiet :: "phase \<Rightarrow> bool" where
  "quiet (PhPut e x) = False"
| "quiet (PhComplete n e x) = False"
| "quiet p = True"

lemma storage_quiet:
  assumes "storage_ok L w" "n < length (wd_attempts w)" "quiet p"
    and "early p \<Longrightarrow> early (at_phase (wd_attempts w ! n))"
  shows "storage_ok L (w\<lparr>wd_attempts := (wd_attempts w)[n := (wd_attempts w ! n)\<lparr>at_phase := p\<rparr>]\<rparr>)"
proof (rule storage_phase[OF assms(1,2)])
  show "early p \<Longrightarrow> early (at_phase (wd_attempts w ! n))" by (rule assms(4))
  show "attempt_ok (wd_db w) (wd_objects w) ((wd_attempts w ! n)\<lparr>at_phase := p\<rparr>)"
    using assms(3) by (cases p) (simp_all add: attempt_ok_def)
qed

lemma retry_cases:
  "(\<exists>r. retry_serialization W n again e = PhDone r) \<or> retry_serialization W n again e = again (Suc n)"
  by (simp add: retry_serialization_def split: option.splits)

lemma update_request_frame [simp]:
  "db_uploads (update_request i f d) = db_uploads d" "db_artifacts (update_request i f d) = db_artifacts d"
  by (simp_all add: update_request_def)

lemma fade_request: "fade d (update_request i f d)"
  by (simp add: fade_same)

lemma fade_begin: "fade d (fst (work_begin C V a d))"
  by (auto simp: work_begin_def Let_def fade_same intro!: fade_commit fade_request split: option.splits)

lemma fade_terminal: "fade d (fst (work_terminal V a e d))"
  by (auto simp: work_terminal_def fade_same intro!: fade_commit fade_request split: option.splits)

text \<open>A step of an attempt as a change of the world, case by case.\<close>

abbreviation with_phase :: "nat \<Rightarrow> phase \<Rightarrow> 'f world \<Rightarrow> 'f world" where
  "with_phase n p w \<equiv> w\<lparr>wd_attempts := (wd_attempts w)[n := (wd_attempts w ! n)\<lparr>at_phase := p\<rparr>]\<rparr>"

lemma own_key:
  assumes inv: "storage_ok L w" and n: "n < length (wd_attempts w)"
    and a: "a \<in> set (wd_attempts w)" "at_key a = at_key (wd_attempts w ! n)"
  shows "a = wd_attempts w ! n"
proof -
  note N = names_parts[OF storage_parts(3)[OF inv]]
  have "at_generation a = at_generation (wd_attempts w ! n)"
    using a n N(1)[OF N(5)[OF a(1)]] N(1)[OF N(5)[of "wd_attempts w ! n"]] by (simp add: at_key_def image_key_inj)
  moreover obtain m where m: "m < length (wd_attempts w)" "a = wd_attempts w ! m" using a(1) by (metis in_set_conv_nth)
  ultimately have "m = n" using N(4) n by (simp add: distinct_conv_nth) (metis nth_map)
  with m show ?thesis by simp
qed

lemma storage_work_reserve:
  assumes inv: "storage_ok L w" and n: "n < length (wd_attempts w)" and p: "at_phase (wd_attempts w ! n) = PhReserve e x"
    and r: "work_reserve V (wd_attempts w ! n) (at_key (wd_attempts w ! n)) (int (length x)) (wd_db w) = (d', q)"
    and p': "p' = (case q of Some f \<Rightarrow> PhDone (Some f) | None \<Rightarrow> PhPut e x)"
  shows "storage_ok L (with_phase n p' (w\<lparr>wd_db := d'\<rparr>))"
proof -
  let ?a = "wd_attempts w ! n"
  note N = names_parts[OF storage_parts(3)[OF inv]]
  have new: "at_key ?a \<notin> known_keys w" using N(6)[of ?a] n p by simp
  have free: "mget (db_uploads (wd_db w)) (at_key ?a) = None" using new by (auto simp: known_keys_def)
  let ?w = "with_phase n p' w"
  have w: "storage_ok L ?w"
    by (rule storage_phase[OF inv n]) (use free p p' in \<open>auto simp: attempt_ok_def at_key_def split: option.splits\<close>)
  define u where "u = \<lparr>du_request = at_request ?a, du_generation = at_generation ?a, du_size = int (length x),
    du_state = UPending, du_created = de_now V, du_delete_after = None, du_deleted = None\<rparr>"
  have "d' = wd_db w \<or> d' = (wd_db w)\<lparr>db_uploads := mput (at_key ?a) u (db_uploads (wd_db w))\<rparr>
      \<and> upload_bytes (wd_db w) + int (length x) \<le> 2 * 2 ^ 30 \<and> upload_count (wd_db w) < 5000 \<and> x \<noteq> []"
    using r by (auto simp: work_reserve_def u_def commit_def split: option.splits if_splits)
  then show ?thesis
  proof
    assume d': "d' = (wd_db w)\<lparr>db_uploads := mput (at_key ?a) u (db_uploads (wd_db w))\<rparr>
      \<and> upload_bytes (wd_db w) + int (length x) \<le> 2 * 2 ^ 30 \<and> upload_count (wd_db w) < 5000 \<and> x \<noteq> []"
    have "storage_ok L (?w\<lparr>wd_db := (wd_db ?w)\<lparr>db_uploads := mput (at_key ?a) u (db_uploads (wd_db ?w))\<rparr>\<rparr>)"
    proof (rule storage_reserve[OF w], goal_cases)
      case (9 b)
      have own: "b = ?a\<lparr>at_phase := p'\<rparr>"
        using own_key[OF w, of n b] 9 n by (simp add: at_key_def)
      then show ?case using p' by (auto simp: u_def split: option.splits)
    qed (use new d' N(5)[of ?a] n in \<open>auto simp: u_def at_key_def Suc_le_eq\<close>)
    with d' show ?thesis by simp
  qed (use w in simp)
qed

lemma storage_work_put:
  assumes inv: "storage_ok L w" and n: "n < length (wd_attempts w)" and p: "at_phase (wd_attempts w ! n) = PhPut e x"
    and r: "object_put f t (at_key (wd_attempts w ! n)) x (wd_objects w) = (obs', q)"
    and p': "p' = (case q of Some g \<Rightarrow> PhDone (Some (Retry g)) | None \<Rightarrow> PhComplete 0 e x)"
  shows "storage_ok L (with_phase n p' (w\<lparr>wd_objects := obs'\<rparr>))"
proof -
  let ?a = "wd_attempts w ! n"
  let ?put = "mput (at_key ?a) (x, t) (wd_objects w)"
  have a: "?a \<in> set (wd_attempts w)" using n by simp
  note N = names_parts[OF storage_parts(3)[OF inv]]
  have ok: "attempt_ok (wd_db w) (wd_objects w) ?a" by (rule storage_parts(5)[OF inv a])
  have cases: "obs' = wd_objects w \<and> q \<noteq> None \<or> obs' = ?put \<and> safe_key (at_key ?a) \<and> 1 \<le> length x \<and> int (length x) \<le> MaxImage"
    using r by (auto simp: object_put_def Suc_le_eq split: option.splits if_splits)
  have w: "storage_ok L (w\<lparr>wd_objects := obs'\<rparr>)"
    using cases
  proof
    assume o: "obs' = ?put \<and> safe_key (at_key ?a) \<and> 1 \<le> length x \<and> int (length x) \<le> MaxImage"
    have "storage_ok L (w\<lparr>wd_objects := ?put\<rparr>)"
    proof (rule storage_put[OF inv])
      show "at_key ?a = image_key (at_request ?a) (at_generation ?a)" by (simp add: at_key_def)
      show "at_generation ?a \<in> wd_drawn w" by (rule N(5)[OF a])
      show "du_state u \<noteq> UPublished" if "mget (db_uploads (wd_db w)) (at_key ?a) = Some u" for u
        using ok p that by (simp add: attempt_ok_def)
      show "\<not> early (at_phase b) \<and> (\<forall>n e x. at_phase b \<noteq> PhComplete n e x)"
        if "b \<in> set (wd_attempts w)" "at_key b = at_key ?a" for b
        using own_key[OF inv n that] p by simp
    qed (use o in simp_all)
    with o show ?thesis by simp
  qed (use inv in simp)
  have "attempt_ok (wd_db w) obs' (?a\<lparr>at_phase := p'\<rparr>)"
    using ok p p' cases by (auto simp: attempt_ok_def at_key_def map_simps split: option.splits)
  moreover have "\<not> early p'" using p' by (auto split: option.splits)
  ultimately show ?thesis
    using storage_phase[OF w, of n p'] n by simp
qed

lemma update_put: "update_rows f (mput k v es) = mput k (f k v) (update_rows f es)"
  by (induction es) (auto simp: update_rows_def)

text \<open>Publication: the previous image of the request fades, and the new one takes its place.\<close>

lemma storage_work_complete:
  assumes inv: "storage_ok L w" and n: "n < length (wd_attempts w)" and p: "at_phase (wd_attempts w ! n) = PhComplete m e x"
    and u: "mget (db_uploads (wd_db w)) (at_key (wd_attempts w ! n)) = Some u" "du_state u = UPending"
    and gen: "du_generation u = at_generation (wd_attempts w ! n)"
    and d': "d' = (publish_upload V (at_request (wd_attempts w ! n)) (at_key (wd_attempts w ! n)) (gl_sha256 L x)
      (int (length x)) u (wd_db w))\<lparr>db_jobs := js\<rparr>"
  shows "storage_ok L (w\<lparr>wd_db := d'\<rparr>)"
proof -
  let ?a = "wd_attempts w ! n"
  let ?i = "at_request ?a"
  let ?k = "at_key ?a"
  let ?d = "wd_db w"
  have a: "?a \<in> set (wd_attempts w)" using n by simp
  note T = storage_parts(1)[OF inv]
  have gen48: "length (at_generation ?a) = 48"
    using names_parts(1)[OF storage_parts(3)[OF inv] names_parts(5)[OF storage_parts(3)[OF inv] a]] .
  have req: "du_request u = ?i"
    using upload_name[OF T u(1)] gen48 image_key_inj[of "at_generation ?a" "du_generation u"] by (simp add: at_key_def)
  obtain t where ob: "mget (wd_objects w) ?k = Some (x, t)" and size: "du_size u = int (length x)"
    using storage_parts(5)[OF inv a] p u by (auto simp: attempt_ok_def)
  define old where "old = (\<lambda>k. k \<noteq> ?k \<and> (case mget (db_artifacts ?d) ?i of None \<Rightarrow> False | Some a \<Rightarrow> da_key a = k))"
  define f where "f = (\<lambda>k (u :: upload_row). if old k then u\<lparr>du_state := UDeleting, du_delete_after := Some (de_now V + 60 * minute)\<rparr> else u)"
  define d1 where "d1 = ?d\<lparr>db_uploads := update_rows f (db_uploads ?d), db_artifacts := mdel ?i (db_artifacts ?d)\<rparr>"
  have "fade ?d d1"
  proof (rule fade_update[of _ f])
    show "du_deleted (f k v) = None \<Longrightarrow> du_deleted v = None" for k v by (simp add: f_def split: if_splits)
    fix i b and v :: upload_row
    assume s: "sound ?d" and b: "mget (db_artifacts d1) i = Some b" "du_state v = UPublished"
    then have "i \<noteq> ?i" "mget (db_artifacts ?d) i = Some b" by (auto simp: d1_def map_simps split: if_splits)
    with s have "\<not> old (da_key b)" unfolding old_def sound_def by (auto split: option.splits)
    with b show "du_state (f (da_key b) v) = UPublished" by (simp add: f_def)
  qed (auto simp: d1_def f_def mark_row map_simps gm.wf_del split: if_splits)
  then have w1: "storage_ok L (w\<lparr>wd_db := d1\<rparr>)" by (rule storage_fade[OF inv])
  have fk: "f ?k v = v" for v by (simp add: f_def old_def)
  have u1: "mget (db_uploads d1) ?k = Some u" using u(1) fk by (simp add: d1_def)
  have wf: "wfm (db_uploads d1)" "wfm (db_uploads ?d)" "wfm (db_artifacts ?d)" using T by (simp_all add: d1_def tables_ok_def)
  define row where "row = \<lparr>da_key = ?k, da_digest = gl_sha256 L x, da_size = int (length x), da_created = de_now V,
    da_expires = de_now V + 24 * 60 * minute\<rparr>"
  have us: "db_uploads d' = mput ?k (u\<lparr>du_state := UPublished\<rparr>) (db_uploads d1)"
    using fk by (simp add: d' publish_upload_def Let_def mark_deleting_def update_put d1_def f_def old_def)
  have as: "db_artifacts d' = mput ?i row (db_artifacts ?d)"
    by (simp add: d' publish_upload_def Let_def row_def)
  have "storage_ok L ((w\<lparr>wd_db := d1\<rparr>)\<lparr>wd_db := d'\<rparr>)"
  proof (rule storage_publish[OF w1, of ?k u d' row x t])
    show "mget (db_artifacts d') = (mget (db_artifacts (wd_db (w\<lparr>wd_db := d1\<rparr>))))(du_request u \<mapsto> row)"
      by (auto simp: as d1_def map_simps req)
    show "upload_bytes d' = upload_bytes (wd_db (w\<lparr>wd_db := d1\<rparr>))"
      using u1 gm.tot_put[OF wf(1), of _ ?k] by (simp add: upload_bytes_def us)
    show "upload_count d' = upload_count (wd_db (w\<lparr>wd_db := d1\<rparr>))"
      using u1 gm.cnt_put[OF wf(1), of _ ?k] by (simp add: upload_count_def us)
    show "at_phase b \<noteq> PhPut e' x'" if "b \<in> set (wd_attempts (w\<lparr>wd_db := d1\<rparr>))" "at_key b = ?k" for b e' x'
      using own_key[OF inv n, of b] that p by simp
  qed (use u1 u ob size req wf in \<open>auto simp: us as d1_def row_def map_simps gm.wf_put\<close>)
  then show ?thesis by simp
qed

lemma work_complete_changed:
  assumes "work_complete C V a e k dg z d = (d', q)"
  shows "d' = d \<and> q \<noteq> None \<or> eligible V a d = None \<and> publishable V a e d
    \<and> (\<exists>u js. mget (db_uploads d) k = Some u \<and> du_state u = UPending \<and> du_generation u = at_generation a
      \<and> d' = (publish_upload V (at_request a) k dg z u d)\<lparr>db_jobs := js\<rparr>)"
proof (cases "de_fault V ''complete'' = None \<and> eligible V a d = None \<and> publishable V a e d")
  case False
  then show ?thesis using assms by (auto simp: work_complete_def split: option.splits)
next
  case True
  show ?thesis
  proof (cases "mget (db_uploads d) k")
    case None
    with True assms show ?thesis by (auto simp: work_complete_def)
  next
    case (Some u)
    obtain js st where j: "rv_complete (dc_river C) (at_job a) (db_jobs (publish_upload V (at_request a) k dg z u d)) = (js, st)"
      by force
    show ?thesis
      using True Some assms j unfolding work_complete_def
      by (auto simp: commit_def Let_def split: if_splits option.splits)
  qed
qed

lemma storage_work:
  assumes inv: "storage_ok L w" and n: "n < length (wd_attempts w)" and L: "de_lib (we_tx W) = L"
    and s: "work_step C S W (wd_attempts w ! n) (wd_db w) (wd_objects w) = (a', d', obs')"
  shows "storage_ok L (w\<lparr>wd_attempts := (wd_attempts w)[n := a'], wd_db := d', wd_objects := obs'\<rparr>)"
proof -
  let ?a = "wd_attempts w ! n"
  let ?V = "we_tx W"
  have calm: "storage_ok L (w\<lparr>wd_attempts := (wd_attempts w)[n := ?a\<lparr>at_phase := p\<rparr>], wd_db := d'\<rparr>)"
    if "fade (wd_db w) d'" "quiet p" "early p \<Longrightarrow> early (at_phase ?a)" for p d'
    using storage_quiet[OF storage_fade[OF inv that(1)], of n p] n that(2,3) by simp
  show ?thesis
  proof (cases "at_phase ?a")
    case PhCheck
    then obtain p where "a' = ?a\<lparr>at_phase := p\<rparr>" "quiet p" "d' = wd_db w" "obs' = wd_objects w"
      using s by (auto simp: work_step_def Let_def split: if_splits option.splits)
    with calm[of d' p] PhCheck show ?thesis by (simp add: fade_same)
  next
    case (PhBegin m)
    obtain d1 r where b: "work_begin C ?V ?a (wd_db w) = (d1, r)" by force
    obtain p where "a' = ?a\<lparr>at_phase := p\<rparr>" "quiet p" "d' = d1" "obs' = wd_objects w"
      using s PhBegin b retry_cases[of W m PhBegin]
      by (cases r) (auto simp: work_step_def Let_def split: prod.splits, metis quiet.simps)
    with calm[of d' p] PhBegin fade_begin[of "wd_db w" C ?V ?a] b show ?thesis by simp
  next
    case (PhRender q e)
    then obtain p where "a' = ?a\<lparr>at_phase := p\<rparr>" "quiet p" "d' = wd_db w" "obs' = wd_objects w"
      using s by (auto simp: work_step_def Let_def split: prod.splits option.splits)
    with calm[of d' p] PhRender show ?thesis by (simp add: fade_same)
  next
    case (PhReserve e x)
    obtain d1 q where r: "work_reserve ?V ?a (at_key ?a) (int (length x)) (wd_db w) = (d1, q)" by force
    then have "a' = ?a\<lparr>at_phase := (case q of Some f \<Rightarrow> PhDone (Some f) | None \<Rightarrow> PhPut e x)\<rparr>" "d' = d1"
        "obs' = wd_objects w"
      using s PhReserve by (auto simp: work_step_def Let_def split: option.splits)
    with storage_work_reserve[OF inv n PhReserve r refl] show ?thesis by simp
  next
    case (PhPut e x)
    obtain o1 q where r: "object_put (we_put W) (de_now ?V) (at_key ?a) x (wd_objects w) = (o1, q)" by force
    then have "a' = ?a\<lparr>at_phase := (case q of Some g \<Rightarrow> PhDone (Some (Retry g)) | None \<Rightarrow> PhComplete 0 e x)\<rparr>"
        "d' = wd_db w" "obs' = o1"
      using s PhPut by (auto simp: work_step_def Let_def split: option.splits)
    with storage_work_put[OF inv n PhPut r refl] show ?thesis by simp
  next
    case (PhComplete m e x)
    obtain d1 q where r: "work_complete C ?V ?a e (at_key ?a) (gl_sha256 L x) (int (length x)) (wd_db w) = (d1, q)" by force
    define p where "p = (case q of None \<Rightarrow> PhDone None | Some f \<Rightarrow> retry_serialization W m (\<lambda>m. PhComplete m e x) f)"
    have a': "a' = ?a\<lparr>at_phase := p\<rparr>" "d' = d1" "obs' = wd_objects w"
      using s PhComplete r L by (auto simp: work_step_def Let_def p_def split: option.splits)
    have p: "p = PhComplete (Suc m) e x \<or> quiet p \<and> \<not> early p"
    proof (cases q)
      case (Some f)
      then show ?thesis using retry_cases[of W m "\<lambda>m. PhComplete m e x" f] by (auto simp: p_def)
    qed (simp add: p_def)
    have "storage_ok L (w\<lparr>wd_db := d1\<rparr>)"
    proof (cases "d1 = wd_db w")
      case False
      then obtain u js where u: "mget (db_uploads (wd_db w)) (at_key ?a) = Some u" "du_state u = UPending"
          "du_generation u = at_generation ?a" and
        d1: "d1 = (publish_upload ?V (at_request ?a) (at_key ?a) (gl_sha256 L x) (int (length x)) u (wd_db w))\<lparr>db_jobs := js\<rparr>"
        using work_complete_changed[OF r] by blast
      show ?thesis by (rule storage_work_complete[OF inv n PhComplete u d1])
    qed (use inv in simp)
    note w1 = this
    have "storage_ok L (with_phase n p (w\<lparr>wd_db := d1\<rparr>))"
      using p
    proof
      assume p: "p = PhComplete (Suc m) e x"
      have "attempt_ok d1 (wd_objects w) ?a" using storage_parts(5)[OF w1, of ?a] n by simp
      then show ?thesis
        using storage_phase[OF w1, of n p] n p PhComplete by (simp add: attempt_ok_def at_key_def)
    next
      assume "quiet p \<and> \<not> early p"
      then show ?thesis using storage_quiet[OF w1, of n p] n by simp
    qed
    with a' show ?thesis by simp
  next
    case (PhFail e)
    obtain d1 f where b: "work_terminal ?V ?a e (wd_db w) = (d1, f)" by force
    then have "a' = ?a\<lparr>at_phase := PhDone (Some f)\<rparr>" "d' = d1" "obs' = wd_objects w"
      using s PhFail by (auto simp: work_step_def Let_def)
    with calm[of d' "PhDone (Some f)"] fade_terminal[of "wd_db w" ?V ?a e] b show ?thesis by simp
  next
    case (PhDone r)
    then have "a' = ?a" "d' = wd_db w" "obs' = wd_objects w" using s by (auto simp: work_step_def)
    with inv show ?thesis by simp
  qed
qed

section \<open>Maintenance runs\<close>

abbreviation with_run :: "nat \<Rightarrow> mphase \<Rightarrow> 'f world \<Rightarrow> 'f world" where
  "with_run n p w \<equiv> w\<lparr>wd_runs := (wd_runs w)[n := p]\<rparr>"

lemma doomed_keys_deleting:
  assumes "wfm (db_uploads d)" "k \<in> set (doomed_keys V d)"
  shows "k \<in> dom (mget (db_uploads d)) \<and> deleting_only d k"
proof -
  obtain u where "(k, u) \<in> set (db_uploads d)" "du_state u = UDeleting"
    using assms(2) by (auto simp: doomed_keys_def dest!: in_set_takeD)
  then have "mget (db_uploads d) k = Some u" "du_state u = UDeleting" using gm.entry_iff[OF assms(1)] by blast+
  then show ?thesis by (auto simp: deleting_only_def)
qed

lemma storage_maintain:
  assumes inv: "storage_ok L w" and n: "n < length (wd_runs w)" and pg: "page_ok (wd_objects w) M"
    and s: "maintain_step C S M (wd_runs w ! n) (wd_db w) (wd_objects w) = (p', d', obs')"
  shows "storage_ok L (w\<lparr>wd_runs := (wd_runs w)[n := p'], wd_db := d', wd_objects := obs'\<rparr>)"
proof -
  let ?p = "wd_runs w ! n"
  let ?V = "me_tx M"
  have mem: "?p \<in> set (wd_runs w)" using n by simp
  have keys: "run_keys ?p \<subseteq> known_keys w" using mem by (auto simp: known_keys_def)
  have dead: "k \<in> doomed ?p \<Longrightarrow> deleting_only (wd_db w) k" for k by (rule storage_parts(6)[OF inv mem])
  have phase: "storage_ok L (with_run n q w)"
    if "run_keys q \<subseteq> known_keys w" "\<And>k. k \<in> doomed q \<Longrightarrow> deleting_only (wd_db w) k" for q
    by (rule storage_run[OF inv n that])
  have faded: "storage_ok L ((with_run n q w)\<lparr>wd_db := d1\<rparr>)"
    if "fade (wd_db w) d1" "run_keys q = {} \<or> run_keys q \<subseteq> run_keys ?p \<and> doomed q \<subseteq> doomed ?p" for q d1
  proof -
    have "run_keys q \<subseteq> known_keys w" "doomed q \<subseteq> doomed ?p" using that(2) keys doomed_run_keys[of q] by auto
    then have "storage_ok L (with_run n q w)" using dead by (intro phase) blast+
    with that(1) show ?thesis using storage_fade[of L "with_run n q w" d1] by simp
  qed
  have deleted: "storage_ok L ((with_run n q w)\<lparr>wd_objects := o1\<rparr>)"
    if "object_delete f k (wd_objects w) = (o1, e)" "k \<in> doomed ?p" "run_keys q \<subseteq> run_keys ?p" "doomed q \<subseteq> doomed ?p" for f k o1 e q
  proof -
    have "o1 = wd_objects w \<or> o1 = mdel k (wd_objects w)"
      using that(1) by (auto simp: object_delete_def split: if_splits option.splits)
    moreover have w1: "storage_ok L (with_run n q w)" using phase[of q] that(3,4) keys dead by blast
    moreover have "storage_ok L ((with_run n q w)\<lparr>wd_objects := mdel k (wd_objects w)\<rparr>)"
    proof -
      have del: "storage_ok L (w\<lparr>wd_objects := mdel k (wd_objects w)\<rparr>)" by (rule storage_delete[OF inv mem that(2)])
      have k: "run_keys q \<subseteq> known_keys (w\<lparr>wd_objects := mdel k (wd_objects w)\<rparr>)"
        using that(3) mem by (auto simp: known_keys_def)
      show ?thesis using storage_run[OF del, of n q] n k that(4) dead by auto
    qed
    ultimately show ?thesis by auto
  qed
  have same: "storage_ok L (with_run n q w)" if "run_keys q = {} \<or> run_keys q \<subseteq> run_keys ?p \<and> doomed q \<subseteq> doomed ?p" for q
    using faded[OF fade_same that, of "wd_db w"] by simp
  show ?thesis
  proof (cases ?p)
    case MCheck
    with s have "d' = wd_db w" "obs' = wd_objects w" "run_keys p' = {}"
      by (auto simp: maintain_step_def Let_def split: option.splits)
    with same[of p'] show ?thesis by simp
  next
    case MClean
    obtain d1 e where c: "clean C ?V (wd_db w) = (d1, e)" by force
    with s MClean have "d' = wd_db w \<or> d' = d1" "obs' = wd_objects w" "run_keys p' = {}"
      by (auto simp: maintain_step_def Let_def split: option.splits if_splits)
    with faded[of d' p'] fade_clean[of "wd_db w" C ?V] fade_same[of "wd_db w" "wd_db w"] c show ?thesis by auto
  next
    case MQuery
    then have r: "d' = wd_db w" "obs' = wd_objects w" "p' = MSweep (doomed_keys ?V (wd_db w)) \<or> run_keys p' = {}"
      using s by (auto simp: maintain_step_def Let_def split: option.splits)
    have wf: "wfm (db_uploads (wd_db w))" using storage_parts(1)[OF inv] by (simp add: tables_ok_def)
    have "storage_ok L (with_run n (MSweep (doomed_keys ?V (wd_db w))) w)"
      by (rule phase) (use doomed_keys_deleting[OF wf, of _ ?V] in \<open>auto simp: known_keys_def\<close>)
    with r same[of p'] show ?thesis by auto
  next
    case (MSweep ks)
    show ?thesis
    proof (cases ks)
      case Nil
      with MSweep s have "p' = MList" "d' = wd_db w" "obs' = wd_objects w" by (auto simp: maintain_step_def)
      with same[of MList] show ?thesis by simp
    next
      case (Cons k ks')
      obtain o1 e where o: "object_delete (me_delete M) k (wd_objects w) = (o1, e)" by force
      with s MSweep Cons have "d' = wd_db w" "obs' = o1" "p' = MNote k ks' \<or> run_keys p' = {}"
        by (auto simp: maintain_step_def split: option.splits)
      with deleted[OF o, of p'] MSweep Cons doomed_run_keys[of p'] show ?thesis by (auto simp: subset_insertI)
    qed
  next
    case (MNote k ks)
    obtain d1 e where c: "commit ?V (wd_db w) (note_deleted ?V k (wd_db w)) None Some = (d1, e)" by force
    with s MNote have "d' = wd_db w \<or> d' = d1" "obs' = wd_objects w" "p' = MSweep ks \<or> run_keys p' = {}"
      by (auto simp: maintain_step_def Let_def split: option.splits)
    moreover have "fade (wd_db w) d1"
      using fade_commit[OF fade_note, of "wd_db w" ?V ?V k None Some] c by simp
    ultimately show ?thesis using faded[of d' p'] fade_same[of "wd_db w" "wd_db w"] MNote by auto
  next
    case MList
    then have r: "d' = wd_db w" "obs' = wd_objects w" "(\<exists>os nx. p' = MReconcile os nx
        \<and> me_page M (db_cursor (wd_db w)) = Inr (os, nx)) \<or> run_keys p' = {}"
      using s by (auto simp: maintain_step_def Let_def split: option.splits if_splits sum.splits)
    have "storage_ok L (with_run n (MReconcile os nx) w)" if "me_page M (db_cursor (wd_db w)) = Inr (os, nx)" for os nx
    proof (rule phase)
      show "run_keys (MReconcile os nx) \<subseteq> known_keys w"
        using pg that by (fastforce simp: page_ok_def known_keys_def)
    qed simp
    with r same[of p'] show ?thesis by auto
  next
    case (MReconcile os nx)
    show ?thesis
    proof (cases os)
      case Nil
      with MReconcile s have "run_keys p' = {}" "obs' = wd_objects w" "fade (wd_db w) d'"
        by (auto simp: maintain_step_def Let_def commit_def fade_same split: option.splits if_splits prod.splits)
      with faded[of d' p'] show ?thesis by simp
    next
      case (Cons kt os')
      obtain k t where kt: "kt = (k, t)" by force
      have r: "d' = wd_db w" "obs' = wd_objects w" "p' = MReconcile os' nx \<or> run_keys p' = {}
          \<or> p' = MOrphan k os' nx \<and> mget (db_uploads (wd_db w)) k = None"
        using s MReconcile Cons kt by (auto simp: maintain_step_def Let_def split: option.splits if_splits)
      have "storage_ok L (with_run n (MOrphan k os' nx) w)" if "mget (db_uploads (wd_db w)) k = None"
        by (rule phase) (use keys MReconcile Cons kt that in \<open>auto simp: deleting_only_def\<close>)
      with r same[of p'] MReconcile Cons show ?thesis by (auto simp: subset_insertI)
    qed
  next
    case (MOrphan k os nx)
    obtain o1 e where o: "object_delete (me_delete M) k (wd_objects w) = (o1, e)" by force
    with s MOrphan have "d' = wd_db w" "obs' = o1" "p' = MReconcile os nx \<or> run_keys p' = {}"
      by (auto simp: maintain_step_def split: option.splits)
    with deleted[OF o, of p'] MOrphan doomed_run_keys[of p'] show ?thesis by (auto simp: subset_insertI)
  next
    case (MDone r)
    with s have "p' = ?p" "d' = wd_db w" "obs' = wd_objects w" by (auto simp: maintain_step_def)
    with inv show ?thesis by simp
  qed
qed

section \<open>Every step\<close>

lemma fade_shuffled: "shuffled d d' \<Longrightarrow> fade d d'"
proof -
  assume "shuffled d d'"
  then have m: "mset (db_uploads d') = mset (db_uploads d)" "mset (db_artifacts d') = mset (db_artifacts d)"
    by (auto simp: shuffled_def)
  show ?thesis
    unfolding fade_def
  proof
    assume "sound d"
    then have w: "wfm (db_uploads d)" "wfm (db_artifacts d)" by (simp_all add: sound_def)
    have "mget (db_uploads d') = mget (db_uploads d)" "mget (db_artifacts d') = mget (db_artifacts d)"
      using mget_perm[OF w(1) m(1)[symmetric]] mget_perm[OF w(2) m(2)[symmetric]] by simp_all
    then show "faded d d'"
      using wfm_perm[OF w(1) m(1)[symmetric]] wfm_perm[OF w(2) m(2)[symmetric]]
      by (simp add: faded_def upload_bytes_def upload_count_def tot_perm[OF m(1)] cnt_perm[OF m(1)])
  qed
qed

lemma fade_control:
  "fade d (fst (db_allow F V key rt burst d))" "fade d (fst (db_activate C V d))" "fade d (fst (db_enable V on d))"
  "fade d (fst (bind_empty_bucket V S page d))" "fade d (fst (heartbeat C V st d))" "fade d (fst (stop_instance C V d))"
  by (auto simp: db_allow_def db_activate_def db_enable_def bind_empty_bucket_def heartbeat_def stop_instance_def Let_def
    fade_same intro!: fade_commit split: option.splits sum.splits)

lemma fade_visit: "fade d (visit_tx P v d)"
  using move_visit[of P d v] by (auto simp: visit_move_def storage_frame_def intro: fade_same)

theorem storage_step: "durable_step L w w' \<Longrightarrow> storage_ok L w \<Longrightarrow> storage_ok L w'"
proof (induction rule: durable_step.induct)
  case (visit w P v)
  have "storage_ok L (w\<lparr>wd_db := visit_tx P v (wd_db w)\<rparr>)" by (rule storage_fade[OF visit(2) fade_visit])
  from storage_drawn[OF this, of "range (de_exec (ps_tx P))"] visit(1) show ?case by (auto simp: env_ok_def)
next
  case (read V i w a)
  have "mget (db_artifacts (wd_db w)) i = Some a"
    using read(1) by (auto simp: db_artifact_def split: option.splits if_splits)
  with read(2) show ?case by (rule storage_read)
next
  case (missing i k w V)
  then show ?case by (intro storage_missing)
next
  case (attempt a w)
  then show ?case by (intro storage_attempt)
next
  case (work n w W C S a' d' obs')
  then show ?case by (intro storage_work)
next
  case (maintenance w)
  have "known_keys (w\<lparr>wd_runs := wd_runs w @ [MCheck]\<rparr>) \<subseteq> known_keys w" by (auto simp: known_keys_def)
  then have "names_ok (w\<lparr>wd_runs := wd_runs w @ [MCheck]\<rparr>)"
    by (rule names_ok_mono[OF storage_parts(3)[OF maintenance]]) simp_all
  with storage_parts[OF maintenance] show ?case by (auto simp: storage_ok_def)
next
  case (maintain n w M C S p' d' obs')
  then show ?case by (intro storage_maintain)
next
  case (shuffle w d')
  then show ?case by (intro storage_fade fade_shuffled)
qed (auto intro!: storage_fade fade_control intro: fade_same)

lemma storage_init: "durable_init w \<Longrightarrow> storage_ok L w"
  by (simp add: durable_init_def Let_def storage_ok_def tables_ok_def objects_ok_def names_ok_def known_keys_def
    upload_bytes_def upload_count_def)

theorem reachable_storage: "durable_reachable L w \<Longrightarrow> storage_ok L w"
  by (induction rule: durable_reachable.induct) (auto intro: storage_init storage_step)

end
