(* ===== verification/DurableFence.thy ===== *)
theory DurableFence
  imports DurableSteps
begin

text \<open>
  The bounds of the shared tables and the fencing of attempts by generations: what every step of the
  durable deployment does to workspaces, interests, rate buckets and the generations of requests.
\<close>

section \<open>Bounds and generations\<close>

definition bounds_ok :: "'f db \<Rightarrow> bool" where
  "bounds_ok d \<longleftrightarrow> workspaces_ok d \<and> interests_ok d \<and> length (db_buckets d) \<le> 10000 \<and> wfm (db_requests d)"

text \<open>Generations afterwards are old ones of the same request, or in \<open>G\<close>.\<close>

definition gens_from :: "string set \<Rightarrow> 'f db \<Rightarrow> 'f db \<Rightarrow> bool" where
  "gens_from G d d' \<longleftrightarrow> (\<forall>i r'. mget (db_requests d') i = Some r' \<longrightarrow>
     dr_generation r' \<in> G \<or> (\<exists>r. mget (db_requests d) i = Some r \<and> dr_generation r' = dr_generation r))"

definition table_move :: "string set \<Rightarrow> 'f db \<Rightarrow> 'f db \<Rightarrow> bool" where
  "table_move G d d' \<longleftrightarrow> (bounds_ok d \<longrightarrow> bounds_ok d' \<and> gens_from G d d')"

lemma gens_trans: "gens_from G d d' \<Longrightarrow> gens_from G d' d'' \<Longrightarrow> gens_from G d d''"
  unfolding gens_from_def by metis

lemma gens_mono: "gens_from G d d' \<Longrightarrow> G \<subseteq> G' \<Longrightarrow> gens_from G' d d'"
  unfolding gens_from_def by blast

lemma table_trans: "table_move G d d' \<Longrightarrow> table_move G d' d'' \<Longrightarrow> table_move G d d''"
  unfolding table_move_def using gens_trans by blast

lemma table_mono: "table_move G d d' \<Longrightarrow> G \<subseteq> G' \<Longrightarrow> table_move G' d d'"
  unfolding table_move_def using gens_mono by blast

lemma gens_same: "db_requests d' = db_requests d \<Longrightarrow> gens_from G d d'"
  by (simp add: gens_from_def)

lemma table_refl [simp]: "table_move G d d"
  by (simp add: table_move_def gens_same)

lemma table_commit: "table_move G d d' \<Longrightarrow> table_move G d (fst (commit V d d' ok fail))"
  by (simp add: commit_def split: option.splits prod.splits)

text \<open>A transaction that leaves workspaces, interests and buckets alone and updates requests in place.\<close>

lemma table_requests:
  assumes "db_workspaces d' = db_workspaces d" "db_interests d' = db_interests d" "db_buckets d' = db_buckets d"
    and "wfm (db_requests d) \<Longrightarrow> wfm (db_requests d')" "wfm (db_requests d) \<Longrightarrow> gens_from G d d'"
  shows "table_move G d d'"
  using assms by (simp add: table_move_def bounds_ok_def workspaces_ok_def snapshot_bytes_def interests_ok_def interests_of_def)

lemma table_same:
  assumes "db_workspaces d' = db_workspaces d" "db_interests d' = db_interests d" "db_buckets d' = db_buckets d"
    and "db_requests d' = db_requests d"
  shows "table_move G d d'"
  by (rule table_requests) (simp_all add: assms gens_same)

lemma update_request_gens:
  assumes "\<And>r. mget (db_requests d) i = Some r \<Longrightarrow> dr_generation (f r) \<in> G \<or> dr_generation (f r) = dr_generation r"
  shows "table_move G d (update_request i f d)"
proof (rule table_requests)
  show "wfm (db_requests d) \<Longrightarrow> wfm (db_requests (update_request i f d))"
    by (simp add: update_request_def gm.wf_put split: option.splits)
  show "gens_from G d (update_request i f d)"
    using assms by (auto simp: gens_from_def update_request_def map_simps split: option.splits if_splits)
qed (simp_all add: update_request_def)

lemma table_begin: "table_move {at_generation a} d (fst (work_begin C V a d))"
  by (auto simp: work_begin_def Let_def intro!: table_commit update_request_gens split: option.splits)

lemma table_terminal: "table_move {} d (fst (work_terminal V a e d))"
  by (auto simp: work_terminal_def intro!: table_commit update_request_gens split: option.splits if_splits)

lemma table_reserve: "table_move {} d (fst (work_reserve V a k z d))"
  by (auto simp: work_reserve_def intro!: table_commit table_same split: option.splits)

lemma table_complete: "table_move {} d (fst (work_complete C V a e k dg z d))"
proof -
  obtain d' q where r: "work_complete C V a e k dg z d = (d', q)" by force
  have p: "table_move {} d ((publish_upload V i k dg z u d)\<lparr>db_jobs := js\<rparr>)" for i u js
  proof -
    have a: "table_move {} d (d\<lparr>db_uploads := us, db_artifacts := as\<rparr>)" for us as by (rule table_same) simp_all
    have b: "table_move {} d1 (update_request i (\<lambda>r. r\<lparr>dr_outcome := Ready\<rparr>) d1)" for d1 :: "'a db"
      by (rule update_request_gens) simp
    have c: "table_move {} d1 (d1\<lparr>db_jobs := js\<rparr>)" for d1 :: "'a db" by (rule table_same) simp_all
    show ?thesis unfolding publish_upload_def Let_def by (rule table_trans[OF a table_trans[OF b c]])
  qed
  from work_complete_changed[OF r] show ?thesis using p by (auto simp: r)
qed

lemma table_work:
  assumes "work_step C S W a d obs = (a', d', obs')"
  shows "table_move (case at_phase a of PhBegin n \<Rightarrow> {at_generation a} | _ \<Rightarrow> {}) d d'"
proof (cases "at_phase a")
  case (PhBegin n)
  then have "d' = fst (work_begin C (we_tx W) a d)"
    using assms by (auto simp: work_step_def Let_def split: prod.splits sum.splits)
  with PhBegin show ?thesis by (simp add: table_begin)
next
  case (PhReserve e x)
  then have "d' = fst (work_reserve (we_tx W) a (at_key a) (int (length x)) d)"
    using assms by (auto simp: work_step_def Let_def split: prod.splits option.splits)
  with PhReserve show ?thesis by (simp add: table_reserve)
next
  case (PhComplete n e x)
  then have "d' = fst (work_complete C (we_tx W) a e (at_key a) (gl_sha256 (de_lib (we_tx W)) x) (int (length x)) d)"
    using assms by (auto simp: work_step_def Let_def split: prod.splits option.splits)
  with PhComplete show ?thesis by (simp add: table_complete)
next
  case (PhFail e)
  then have "d' = fst (work_terminal (we_tx W) a e d)"
    using assms by (auto simp: work_step_def Let_def split: prod.splits)
  with PhFail show ?thesis by (simp add: table_terminal)
next
  case (PhPut e x)
  then have "d' = d" using assms by (auto simp: work_step_def Let_def split: prod.splits option.splits)
  with PhPut show ?thesis by simp
qed (use assms in \<open>auto simp: work_step_def Let_def split: prod.splits option.splits\<close>)

text \<open>The cleaning transaction.\<close>

lemma table_visit:
  "visit_move V d d' \<Longrightarrow> table_move (range (de_exec V) \<union> range (de_md5 V)) d d'"
  by (auto simp: visit_move_def storage_frame_def table_move_def bounds_ok_def generations_from_def gens_from_def)

lemma release_gens: "gens_from (range (de_md5 V)) d (release_interest C V k i d)"
  by (auto simp: release_interest_def Let_def gens_from_def map_simps split: option.splits if_splits)

lemma table_release: "table_move (range (de_md5 V)) d (release_interest C V k i d)"
  using table_visit[OF queue_move_visit[OF move_release], of V d C k i] release_gens[of V d C k i]
  by (auto simp: table_move_def)

lemma table_cancels:
  "table_move (range (de_md5 V)) (qt_db q) (qt_db (foldl (\<lambda>q (k, i). queue_cancel C V k i q) q ks))"
proof (induction ks arbitrary: q)
  case (Cons p ks)
  obtain k i where p: "p = (k, i)" by force
  have "table_move (range (de_md5 V)) (qt_db q) (qt_db (queue_cancel C V k i q))"
    by (auto simp: queue_cancel_def table_release split: option.splits)
  with Cons show ?case by (simp add: p) (rule table_trans)
qed simp

lemma table_drop_workspaces: "table_move G d (drop_workspaces V d)"
proof -
  let ?d = "drop_workspaces V d"
  have "workspaces_ok d \<Longrightarrow> workspaces_ok ?d"
  proof -
    assume ok: "workspaces_ok d"
    obtain P where ws: "db_workspaces ?d = filter P (db_workspaces d)"
      by (simp add: drop_workspaces_def Let_def)
    have "snapshot_bytes ?d \<le> snapshot_bytes d" unfolding snapshot_bytes_def ws by (rule tot_filter_le) simp
    moreover have "length (filter P (db_workspaces d)) \<le> 1000"
      using length_filter_le[of P "db_workspaces d"] ok unfolding workspaces_ok_def by linarith
    ultimately show "workspaces_ok ?d"
      using ok unfolding workspaces_ok_def ws by (simp add: wfm_filter)
  qed
  moreover have "interests_ok d \<Longrightarrow> interests_ok ?d"
    by (erule interests_ok_filter) (simp add: drop_workspaces_def Let_def)
  moreover have "db_requests ?d = db_requests d" "db_buckets ?d = db_buckets d"
    by (simp_all add: drop_workspaces_def Let_def)
  ultimately show ?thesis by (simp add: table_move_def bounds_ok_def gens_same)
qed

lemma table_settle: "table_move G d (settle_requests d)"
proof -
  define f where "f = (\<lambda>(i :: string) (r :: request_row). case mget (db_jobs d) (dr_job r) of None \<Rightarrow> r
     | Some j \<Rightarrow> if rj_state j \<in> {JCancelled, JDiscarded} \<and> dr_outcome r \<in> {Queued, Running}
         then r\<lparr>dr_outcome := (if rj_state j = JDiscarded then Failed
           else if dr_outcome r \<in> {Failed, Expired} then dr_outcome r else Cancelled)\<rparr> else r)"
  have f: "dr_generation (f i r) = dr_generation r" for i r by (simp add: f_def split: option.splits)
  have d': "settle_requests d = d\<lparr>db_requests := update_rows f (db_requests d)\<rparr>"
    unfolding settle_requests_def f_def ..
  show ?thesis unfolding d' by (rule table_requests) (auto simp: gens_from_def f)
qed

lemma table_drop_requests: "table_move G d (drop_requests V d)"
proof (rule table_requests)
  show "wfm (db_requests d) \<Longrightarrow> wfm (db_requests (drop_requests V d))"
    by (simp add: drop_requests_def Let_def wfm_filter)
  show "gens_from G d (drop_requests V d)" if "wfm (db_requests d)"
    unfolding gens_from_def
  proof (intro allI impI)
    fix i r' assume "mget (db_requests (drop_requests V d)) i = Some r'"
    then have "mget (db_requests d) i = Some r'"
      unfolding drop_requests_def Let_def by (simp add: mget_filter[OF that] split: option.splits if_splits)
    then show "dr_generation r' \<in> G \<or> (\<exists>r. mget (db_requests d) i = Some r \<and> dr_generation r' = dr_generation r)" by blast
  qed
qed (simp_all add: drop_requests_def Let_def)

lemma table_drop_old: "table_move G d (drop_old_rows V d)"
proof -
  have "length (db_buckets (drop_old_rows V d)) \<le> length (db_buckets d)"
    by (simp add: drop_old_rows_def)
  moreover have "workspaces_ok (drop_old_rows V d) = workspaces_ok d" "interests_ok (drop_old_rows V d) = interests_ok d"
      "db_requests (drop_old_rows V d) = db_requests d"
    by (simp_all add: workspaces_ok_def snapshot_bytes_def interests_ok_def interests_of_def drop_old_rows_def)
  ultimately show ?thesis by (simp add: table_move_def bounds_ok_def gens_same)
qed

lemma table_clean: "table_move (range (de_md5 V)) d (fst (clean C V d))"
proof -
  define q where "q = foldl (\<lambda>q (k, i). queue_cancel C V k i q) \<lparr>qt_db = d, qt_err = None\<rparr> (expired_interests V d)"
  have a: "table_move (range (de_md5 V)) d (qt_db q)"
    using table_cancels[of V "\<lparr>qt_db = d, qt_err = None\<rparr>" C "expired_interests V d"] by (simp add: q_def)
  have b: "table_move G d1 (drop_artifacts V d1)" "table_move G d1 (drop_pending V d1)" for G and d1 :: "'a db"
    by (rule table_same; simp add: drop_artifacts_def drop_pending_def Let_def)+
  note f = table_trans[OF a table_trans[OF table_drop_workspaces table_trans[OF table_settle table_trans[OF b(1)
    table_trans[OF b(2) table_trans[OF table_drop_old table_drop_requests]]]]]]
  have "clean C V d = (case de_fault V ''maintenance'' of Some e \<Rightarrow> (d, Some e)
      | None \<Rightarrow> (case qt_err q of Some e \<Rightarrow> (d, Some e) | None \<Rightarrow> commit V d (drop_requests V (drop_old_rows V (drop_pending V
          (drop_artifacts V (settle_requests (drop_workspaces V (qt_db q))))))) None Some))"
    unfolding clean_def Let_def q_def ..
  then show ?thesis
    using table_commit[OF f, where V = V and ok = None and fail = Some]
    by (cases "de_fault V ''maintenance''"; cases "qt_err q") simp_all
qed

lemma table_maintain:
  assumes "maintain_step C S M p d obs = (p', d', obs')"
  shows "table_move (range (de_md5 (me_tx M))) d d'"
proof (cases p)
  case MClean
  then have "d' = d \<or> d' = fst (clean C (me_tx M) d)"
    using assms by (auto simp: maintain_step_def Let_def split: prod.splits option.splits if_splits)
  with table_clean show ?thesis by auto
next
  case (MNote k ks)
  then have "d' = d \<or> d' = fst (commit (me_tx M) d (note_deleted (me_tx M) k d) None Some)"
    using assms by (auto simp: maintain_step_def Let_def split: prod.splits option.splits)
  moreover have "table_move G d (note_deleted (me_tx M) k d)" for G by (rule table_same) (simp_all add: note_deleted_def)
  ultimately show ?thesis by (auto intro: table_commit)
next
  case (MReconcile os nx)
  show ?thesis
    by (rule table_same) (use assms MReconcile in \<open>auto simp: maintain_step_def Let_def commit_def
      split: prod.splits option.splits list.splits if_splits\<close>)
next
  case (MSweep ks)
  then show ?thesis
    using assms by (cases ks) (auto simp: maintain_step_def Let_def split: prod.splits option.splits)
qed (use assms in \<open>auto simp: maintain_step_def Let_def split: prod.splits option.splits if_splits sum.splits\<close>)

section \<open>Every step\<close>

lemma table_control:
  "table_move G d (fst (db_activate C V d))" "table_move G d (fst (db_enable V on d))"
  "table_move G d (fst (bind_empty_bucket V S page d))" "table_move G d (fst (heartbeat C V st d))"
  "table_move G d (fst (stop_instance C V d))" "table_move G d (fst (db_missing V i k d))"
  by (auto simp: db_activate_def db_enable_def bind_empty_bucket_def heartbeat_def stop_instance_def db_missing_def Let_def
    intro!: table_commit table_same split: option.splits sum.splits)

lemma table_allow: "table_move G d (fst (db_allow F V key rt burst d))"
proof -
  let ?bs = "if length (db_buckets d) \<ge> 10000 then filter (\<lambda>(k, b). \<not> stale_bucket V b) (db_buckets d) else db_buckets d"
  have put: "table_move G d (d\<lparr>db_buckets := mput h row ?bs\<rparr>)" if "\<not> 10000 \<le> length ?bs" for h row
  proof -
    have "length (mput h row es) \<le> Suc (length es)" for es by (induction es) auto
    from this[of ?bs] that have "length (mput h row ?bs) \<le> 10000" by linarith
    then show ?thesis
      by (simp add: table_move_def bounds_ok_def workspaces_ok_def snapshot_bytes_def interests_ok_def interests_of_def gens_same)
  qed
  show ?thesis
    unfolding db_allow_def Let_def using put by (auto intro!: table_commit split: option.splits)
qed

lemma table_shuffled:
  assumes "shuffled d d'"
  shows "table_move G d d'"
  unfolding table_move_def
proof
  assume ok: "bounds_ok d"
  from assms have m: "mset (db_workspaces d') = mset (db_workspaces d)" "mset (db_requests d') = mset (db_requests d)"
      "mset (db_interests d') = mset (db_interests d)" "db_buckets d' = db_buckets d"
    by (auto simp: shuffled_def)
  have ws: "workspaces_ok d'"
    using ok wfm_perm[OF _ m(1)[symmetric]] mset_eq_length[OF m(1)] tot_perm[OF m(1)]
    by (auto simp: bounds_ok_def workspaces_ok_def snapshot_bytes_def)
  have "length (filter (\<lambda>(k, r). r = i) (db_interests d')) = length (filter (\<lambda>(k, r). r = i) (db_interests d))" for i
    by (metis m(3) mset_filter size_mset)
  then have ints: "interests_ok d'"
    using ok mset_eq_imp_distinct_iff[OF m(3)] by (auto simp: bounds_ok_def interests_ok_def interests_of_def)
  have rs: "wfm (db_requests d)" using ok by (simp add: bounds_ok_def)
  then have "wfm (db_requests d')" "mget (db_requests d') = mget (db_requests d)"
    using wfm_perm[OF rs m(2)[symmetric]] mget_perm[OF rs m(2)[symmetric]] by simp_all
  with ws ints ok m(4) show "bounds_ok d' \<and> gens_from G d d'"
    by (auto simp: bounds_ok_def gens_from_def)
qed

text \<open>What a step can put into the generations of requests.\<close>

lemma table_step:
  assumes "durable_step L w w'"
  shows "\<exists>G. table_move G (wd_db w) (wd_db w') \<and> (\<forall>g\<in>G. length g = 32 \<or> g \<notin> wd_drawn w
    \<or> (\<exists>n<length (wd_attempts w). at_generation (wd_attempts w ! n) = g \<and> (\<exists>m. at_phase (wd_attempts w ! n) = PhBegin m)))"
  using assms
proof (induction rule: durable_step.induct)
  case (visit w P v)
  then show ?case
    using table_visit[OF move_visit, of P "wd_db w" v]
    by (intro exI[of _ "range (de_exec (ps_tx P)) \<union> range (de_md5 (ps_tx P))"]) (auto simp: env_ok_def)
next
  case (work n w W C S a' d' obs')
  have "table_move (case at_phase (wd_attempts w ! n) of PhBegin m \<Rightarrow> {at_generation (wd_attempts w ! n)} | _ \<Rightarrow> {}) (wd_db w) d'"
    by (rule table_work[OF work(3)])
  then show ?case using work(1) by (cases "at_phase (wd_attempts w ! n)") auto
next
  case (maintain n w M C S p' d' obs')
  then show ?case using table_maintain[OF maintain(4)] by (intro exI[of _ "range (de_md5 (me_tx M))"]) auto
next
  case (shuffle w d')
  then show ?case using table_shuffled[OF shuffle, of "{}"] by auto
next
  case (allow w F V key rate burst)
  show ?case using table_allow by (intro exI[of _ "{}"]) simp
next
  case (missing i k w V)
  show ?case using table_control(6) by (intro exI[of _ "{}"]) simp
next
  case (activate w C V)
  show ?case using table_control(1) by (intro exI[of _ "{}"]) simp
next
  case (enable w V on)
  show ?case using table_control(2) by (intro exI[of _ "{}"]) simp
next
  case (bind w V S page)
  show ?case using table_control(3) by (intro exI[of _ "{}"]) simp
next
  case (heartbeat w C V st)
  show ?case using table_control(4) by (intro exI[of _ "{}"]) simp
next
  case (stopping w C V)
  show ?case using table_control(5) by (intro exI[of _ "{}"]) simp
next
  case (renderer w rs)
  show ?case by (rule exI[of _ "{}"]) (simp add: table_same)
next
  case (river w js)
  show ?case by (rule exI[of _ "{}"]) (simp add: table_same)
qed (rule exI[of _ "{}"], simp)+

theorem bounds_step: "durable_step L w w' \<Longrightarrow> bounds_ok (wd_db w) \<Longrightarrow> bounds_ok (wd_db w')"
  using table_step by (force simp: table_move_def)

theorem reachable_bounds: "durable_reachable L w \<Longrightarrow> bounds_ok (wd_db w)"
proof (induction rule: durable_reachable.induct)
  case (init w)
  then show ?case
    by (simp add: durable_init_def Let_def bounds_ok_def workspaces_ok_def snapshot_bytes_def interests_ok_def interests_of_def)
qed (rule bounds_step)

section \<open>Fencing\<close>

text \<open>An attempt past its first transaction whose generation the request no longer has.\<close>

fun begun :: "phase \<Rightarrow> bool" where
  "begun PhCheck = False"
| "begun (PhBegin n) = False"
| "begun p = True"

definition fenced :: "'f db \<Rightarrow> attempt \<Rightarrow> bool" where
  "fenced d a \<longleftrightarrow> begun (at_phase a) \<and> (\<forall>r. mget (db_requests d) (at_request a) = Some r \<longrightarrow>
     dr_generation r \<noteq> at_generation a)"

text \<open>What identifies an attempt, and how steps change it.\<close>

definition same_attempt :: "attempt \<Rightarrow> attempt \<Rightarrow> bool" where
  "same_attempt a a' \<longleftrightarrow> at_request a' = at_request a \<and> at_generation a' = at_generation a \<and> at_job a' = at_job a
     \<and> (begun (at_phase a) \<longrightarrow> begun (at_phase a'))"

lemma retry_begun: "begun (again (Suc n)) \<Longrightarrow> begun (retry_serialization W n again e)"
  by (simp add: retry_serialization_def split: option.splits)

lemma work_same: "work_step C S W a d obs = (a', d', obs') \<Longrightarrow> same_attempt a a'"
  by (cases "at_phase a")
    (auto simp: work_step_def Let_def same_attempt_def intro!: retry_begun split: prod.splits sum.splits option.splits)

lemma attempts_step:
  assumes "durable_step L w w'" "n < length (wd_attempts w)"
  shows "n < length (wd_attempts w') \<and> same_attempt (wd_attempts w ! n) (wd_attempts w' ! n)"
  using assms
proof (induction rule: durable_step.induct)
  case (work m w W C S a' d' obs')
  then show ?case using work_same[OF work(3)] by (cases "m = n") (auto simp: same_attempt_def)
qed (auto simp: same_attempt_def nth_append)

lemma fenced_step:
  assumes step: "durable_step L w w'" and inv: "storage_ok L w" "bounds_ok (wd_db w)"
    and n: "n < length (wd_attempts w)" and f: "fenced (wd_db w) (wd_attempts w ! n)"
  shows "fenced (wd_db w') (wd_attempts w' ! n)"
proof -
  let ?a = "wd_attempts w ! n"
  note N = names_parts[OF storage_parts(3)[OF inv(1)]]
  have a: "same_attempt ?a (wd_attempts w' ! n)" using attempts_step[OF step n] by blast
  obtain G where G: "table_move G (wd_db w) (wd_db w')" "\<forall>g\<in>G. length g = 32 \<or> g \<notin> wd_drawn w
      \<or> (\<exists>n<length (wd_attempts w). at_generation (wd_attempts w ! n) = g \<and> (\<exists>m. at_phase (wd_attempts w ! n) = PhBegin m))"
    using table_step[OF step] by blast
  have drawn: "at_generation ?a \<in> wd_drawn w" using N(5) n by simp
  have "at_generation ?a \<notin> G"
  proof
    assume "at_generation ?a \<in> G"
    with G(2) drawn N(1) obtain k m where k: "k < length (wd_attempts w)" "at_generation (wd_attempts w ! k) = at_generation ?a"
        "at_phase (wd_attempts w ! k) = PhBegin m" by fastforce
    with N(4) n have "k = n" by (simp add: distinct_conv_nth) (metis nth_map)
    with k f show False by (simp add: fenced_def)
  qed
  with G(1) inv(2) f a show ?thesis
    unfolding fenced_def same_attempt_def table_move_def gens_from_def by metis
qed

text \<open>A fenced attempt can neither publish, nor reserve space, nor change the request.\<close>

lemma update_request_id:
  "(\<And>r. mget (db_requests d) i = Some r \<Longrightarrow> f r = r) \<Longrightarrow> mget (db_requests (update_request i f d)) = mget (db_requests d)"
  by (auto simp: update_request_def map_simps split: option.splits)

lemma fenced_work:
  assumes f: "fenced d a" and s: "work_step C S W a d obs = (a', d', obs')"
  shows "db_artifacts d' = db_artifacts d \<and> db_uploads d' = db_uploads d \<and> mget (db_requests d') = mget (db_requests d)
    \<and> (at_phase a' = PhDone None \<longrightarrow> at_phase a = PhDone None)"
proof -
  have gen: "mget (db_requests d) (at_request a) = Some r \<Longrightarrow> dr_generation r \<noteq> at_generation a" for r
    using f by (simp add: fenced_def)
  show ?thesis
  proof (cases "at_phase a")
    case (PhReserve e x)
    have "work_reserve (we_tx W) a k z d = (d1, q) \<Longrightarrow> d1 = d \<and> q \<noteq> None" for k z d1 q
      using gen by (auto simp: work_reserve_def split: option.splits if_splits)
    with s PhReserve show ?thesis by (fastforce simp: work_step_def Let_def split: prod.splits option.splits)
  next
    case (PhComplete n e x)
    have "work_complete C (we_tx W) a e k dg z d = (d1, q) \<Longrightarrow> d1 = d \<and> q \<noteq> None" for k dg z d1 q
      using gen work_complete_changed[of C "we_tx W" a e k dg z d d1 q] by (auto simp: publishable_def split: option.splits)
    with s PhComplete show ?thesis
      by (fastforce simp: work_step_def Let_def retry_serialization_def split: prod.splits option.splits if_splits)
  next
    case (PhFail e)
    have "mget (db_requests (update_request (at_request a)
        (\<lambda>r. if dr_generation r = at_generation a then r\<lparr>dr_outcome := Failed\<rparr> else r) d)) = mget (db_requests d)"
      by (rule update_request_id) (use gen in simp)
    moreover have "d' = fst (work_terminal (we_tx W) a e d)" "at_phase a' \<noteq> PhDone None"
      using s PhFail by (auto simp: work_step_def Let_def split: prod.splits)
    ultimately show ?thesis
      by (auto simp: work_terminal_def commit_def split: option.splits)
  qed (use f s in \<open>auto simp: fenced_def work_step_def Let_def split: prod.splits option.splits\<close>)
qed

end
