(* ===== verification/StudioProps.thy ===== *)
theory StudioProps
  imports StudioSession
begin

text \<open>
  The properties of \<open>internal/studio/studio.go\<close>: the invariant of the running application, its quotas,
  isolation, conflicts, rollback, recovery, cancellation, and what a generated batch consists of.
\<close>

section \<open>Properties\<close>

text \<open>C5: the invariant of the composed application.\<close>
theorem studio_invariant: "app_reachable L tok s \<Longrightarrow> store_ok L tok (mgr_inv L) s"
  by (rule app_reachable_ok)

theorem studio_invariant_witness: "store_ok demo_lib demo_tok (mgr_inv demo_lib) demo_store"
  by (rule studio_invariant[OF demo_store_reachable])

lemma ok_bounds:
  assumes ok: "store_ok L tok good s"
  shows "mget (so_workspaces s) token = Some w \<Longrightarrow> length (ws_explorations w) \<le> 4 \<and> length (ws_entries w) \<le> 8
      \<and> count_favourites w \<le> 24"
    and "exploration_of s token i = Some x \<Longrightarrow> expl_ok L (drawn tok (so_drawn s)) i x"
  using studio_invD[OF store_okD(1)[OF ok]] by (fastforce simp: ws_ok_def exploration_of_Some)+



text \<open>C23: a visitor's request never changes the workspace of another visitor.\<close>
theorem visitors_isolated:
  assumes "app_reachable L tok s" "visit E J token s s'" "other \<noteq> token"
    "mget (so_workspaces s) other = Some w" "\<not> ws_expired (ev_now E) w"
  shows "mget (so_workspaces s') other = Some w"
  using left_alone_visit[OF assms(2) store_ok_wfm[OF app_reachable_ok[OF assms(1)]]] assms(3-5)
  by (auto simp: left_alone_def)

theorem visitors_isolated_witness:
  "mget (so_workspaces (studio_clear (demo_env 0) (demo_jobs 0) ''intruder'' demo_store)) (demo_tok 0) = Some demo_workspace"
proof (rule visitors_isolated[OF demo_store_reachable visit_clear])
  show "demo_tok 0 \<noteq> ''intruder''" by (simp add: demo_tok_def)
  show "mget (so_workspaces demo_store) (demo_tok 0) = Some demo_workspace" by (simp add: demo_store_def)
  show "\<not> ws_expired (ev_now (demo_env 0)) demo_workspace" by (simp add: demo_workspace_def)
qed

text \<open>Requests against an old revision.\<close>

lemma stale_edits:
  assumes wf: "wfm (so_workspaces s)" and lv: "live (ev_now E) token s" and x: "exploration_of s token i = Some x"
    and stale: "revision \<noteq> v_revision (x_view x)"
  shows "studio_choices E J token i revision sty col s = (fst (studio_find E J token i s), Some ErrConflict)"
    "studio_favourite E J token i sid revision on s = (fst (studio_find E J token i s), Some ErrConflict)"
    "studio_cancel E J token i revision bid s = (fst (studio_find E J token i s), Some ErrConflict)"
    "exploration_of (fst (studio_find E J token i s)) token j = exploration_of s token j"
proof -
  obtain s1 r where f: "studio_find E J token i s = (s1, r)" by force
  have r: "r = Inr x" using find_outcome(2,3)[OF wf f] lv x by (cases r) auto
  with f stale show "studio_choices E J token i revision sty col s = (fst (studio_find E J token i s), Some ErrConflict)"
    "studio_favourite E J token i sid revision on s = (fst (studio_find E J token i s), Some ErrConflict)"
    "studio_cancel E J token i revision bid s = (fst (studio_find E J token i s), Some ErrConflict)"
    by (auto simp: studio_choices_def studio_favourite_def studio_cancel_def)
  show "exploration_of (fst (studio_find E J token i s)) token j = exploration_of s token j"
    using find_outcome(2)[OF wf f] r f by simp
qed

lemma stale_generate:
  assumes wf: "wfm (so_workspaces s)" and lv: "live (ev_now E) token s" and x: "exploration_of s token i = Some x"
    and stale: "revision \<noteq> v_revision (x_view x)" and new: "find (\<lambda>a. ac_id a = aid) (x_actions x) = None"
  shows "\<exists>e s'. studio_generate E J token i revision aid sel different s = (s', Inl e)
    \<and> exploration_of s' token j = exploration_of s token j"
proof -
  obtain s' r where g: "generate E J token i revision aid sel different s = (s', r)" by force
  show ?thesis
    using g
  proof (cases rule: generate_cases)
    case (refused e r1)
    have "r1 = Inr x" using find_outcome(2,3)[OF wf refused(1)] lv x by (cases r1) auto
    then have "exploration_of s' token j = exploration_of s token j" using find_outcome(2)[OF wf refused(1)] by simp
    then show ?thesis using g refused(2) by (auto simp: studio_generate_def)
  next
    case (replay x' a)
    with find_outcome(2)[OF wf replay(1)] x new show ?thesis by auto
  next
    case (rejected s1 x' q q' p e)
    have "exploration_of s' token j = exploration_of s token j"
      using find_outcome(2)[OF wf rejected(1)] rejected(5) by (simp add: exploration_of_def)
    then show ?thesis using g rejected(6) by (auto simp: studio_generate_def)
  next
    case (generated s1 x' q q' p jobs)
    with find_outcome(2)[OF wf generated(1)] x stale show ?thesis by auto
  qed (use g in \<open>auto simp: studio_generate_def\<close>)
qed

text \<open>C24: a request against an old revision is refused and leaves the exploration as it is.\<close>
theorem stale_revision_refused:
  assumes "app_reachable L tok s" "live (ev_now E) token s" "exploration_of s token i = Some x"
    "revision \<noteq> v_revision (x_view x)"
  shows "snd (studio_choices E J token i revision sty col s) = Some ErrConflict
    \<and> snd (studio_favourite E J token i sid revision on s) = Some ErrConflict
    \<and> snd (studio_cancel E J token i revision bid s) = Some ErrConflict
    \<and> (find (\<lambda>a. ac_id a = aid) (x_actions x) = None \<longrightarrow>
        (\<exists>e. snd (studio_generate E J token i revision aid sel different s) = Inl e)
        \<and> exploration_of (fst (studio_generate E J token i revision aid sel different s)) token i = Some x)
    \<and> exploration_of (fst (studio_choices E J token i revision sty col s)) token i = Some x
    \<and> exploration_of (fst (studio_favourite E J token i sid revision on s)) token i = Some x
    \<and> exploration_of (fst (studio_cancel E J token i revision bid s)) token i = Some x"
proof -
  note wf = store_ok_wfm[OF app_reachable_ok[OF assms(1)]]
  note e = stale_edits[OF wf assms(2-4)]
  have "(\<exists>e. snd (studio_generate E J token i revision aid sel different s) = Inl e)
    \<and> exploration_of (fst (studio_generate E J token i revision aid sel different s)) token i = Some x"
    if "find (\<lambda>a. ac_id a = aid) (x_actions x) = None"
    using stale_generate[OF wf assms(2-4) that, where j=i and J=J and sel=sel and different=different] assms(3) by auto
  with e assms(3) show ?thesis by auto
qed

theorem stale_revision_refused_witness:
  "snd (studio_favourite (demo_env 0) (demo_jobs 0) (demo_tok 0) (demo_tok 2) (demo_tok 3) 5 False demo_store) = Some ErrConflict"
proof -
  have "(5 :: int) \<noteq> v_revision (x_view demo_exploration)"
    by (simp add: demo_exploration_def with_samples_def new_exploration_def)
  with stale_revision_refused[OF demo_store_reachable _ demo_exploration_of, of "demo_env 0"] demo_live show ?thesis by simp
qed

lemma exploration_of_put:
  assumes "mget (so_workspaces s) token = Some w"
  shows "exploration_of (put_exploration token i x s) token j = (if j = i then Some x else exploration_of s token j)"
    "exploration_of (drop_exploration token i s) token j = (if j = i then None else exploration_of s token j)"
    "exploration_of (add_entry token a s) token j = exploration_of s token j"
  using assms by (auto simp: exploration_of_def put_exploration_def drop_exploration_def add_entry_def put_workspace_def map_simps)

lemma set_direction_undo: "set_direction (v_style (x_view x)) (v_colour (x_view x)) (set_direction sty col x) = x"
  by (cases x, cases "x_view x") (simp add: set_direction_def)

text \<open>Undoing the direction of the exploration \<open>i\<close> gives back the explorations before.\<close>

lemma undo_restores:
  assumes un: "unchanged now token s3 s4" and lv: "live now token s3" "mget (so_workspaces s) token \<noteq> None"
    and s3: "\<And>j. exploration_of s3 token j = (if j = i then Some (set_direction sty col x) else exploration_of s token j)"
    and old: "exploration_of s token i = (if created then None else Some x)"
  shows "unchanged now token s (enter_undo token i created x s4)"
proof (cases "mget (so_workspaces s4) token")
  case None
  with un lv(1) show ?thesis by (auto simp: unchanged_def live_def)
next
  case (Some w4)
  with un s3 have s4: "\<And>j. exploration_of s4 token j = (if j = i then Some (set_direction sty col x) else exploration_of s token j)"
    by (simp add: unchanged_def)
  moreover have "mget (so_workspaces (enter_undo token i created x s4)) token \<noteq> None"
    using Some by (simp add: enter_undo_def put_exploration_def drop_exploration_def put_workspace_def map_simps split: option.splits)
  ultimately show ?thesis
    using old lv(2) by (auto simp: enter_undo_def unchanged_def exploration_of_put[OF Some] set_direction_undo split: option.splits)
qed

lemma enter_error:
  assumes ok: "store_ok L tok good s" and env: "env_ok L tok E"
    and r: "studio_enter E J token art sty col aid s = (s', Inl e)"
  shows "unchanged (ev_now E) token s s'"
  using r
proof (cases rule: enter_cases)
  case (generated s1 w x s2 s4 r4 pp)
  note wf = store_ok_wfm[OF ok]
  note wo = workspace_outcome[OF wf generated(2), simplified]
  note un = workspace_unchanged(1)[OF wf generated(2)]
  let ?found = "find (\<lambda>(i, x). v_artwork (x_view x) = art) (ws_explorations w)"
  let ?i = "v_id (x_view x)" and ?s3 = "put_exploration token (v_id (x_view x)) (set_direction sty col x) s2"
  have m1: "mget (so_workspaces s1) token = Some w" using wo by simp
  have s2: "so_workspaces s2 = so_workspaces s1"
    using generated(5) by (auto simp: enter_target_def split: option.splits prod.splits)
  then have m2: "mget (so_workspaces s2) token = Some w" using m1 by simp
  have e2: "exploration_of s2 token j = exploration_of s token j" for j using un s2 by (simp add: exploration_of_def)
  from generated(7) have r4: "r4 = Inl e" "s' = enter_undo token ?i (?found = None) x s4" by (cases r4; simp)+
  have "inv_ws": "ws_ok L (drawn tok (so_drawn s)) (w\<lparr>ws_touched := t\<rparr>)" for t
    using wo studio_invD[OF store_okD(1)[OF ok]] by auto
  have ws: "ws_ok L (drawn tok (so_drawn s)) w" using inv_ws by simp
  then have wfe: "wfm (ws_explorations w)" by (simp add: ws_ok_def)
  have old: "exploration_of s token ?i = (if ?found = None then None else Some x)"
  proof (cases ?found)
    case None
    then have x: "?i = tok (so_drawn s)"
      using generated(5) workspace_spec(1)[OF generated(2)] env_okD(2)[OF env]
      by (auto simp: enter_target_def new_exploration_def)
    have "mget (ws_explorations w) ?i = None"
    proof (rule ccontr)
      assume "mget (ws_explorations w) ?i \<noteq> None"
      then have "?i \<in> drawn tok (so_drawn s)" using ws by (auto simp: ws_ok_def expl_ok_def)
      then show False using x env_okD(4)[OF env] by (auto simp: drawn_def dest: injD)
    qed
    then show ?thesis using None un[of ?i] m1 by (simp add: exploration_of_def)
  next
    case (Some kx)
    obtain k where k: "kx = (k, x)" using generated(5) Some by (auto simp: enter_target_def split: prod.splits)
    have mk: "mget (ws_explorations w) k = Some x" using find_Some_in[OF Some] gm.entry_iff[OF wfe] k by simp
    then have "?i = k" using ws by (simp add: ws_ok_def expl_ok_def)
    then show ?thesis using Some un[of k] m1 mk by (simp add: exploration_of_def)
  qed
  have g: "unchanged (ev_now E) token ?s3 s4"
    using generate_error_unchanged[OF _ generated(6)[unfolded r4(1)]] wfm_workspace[OF wf generated(2)] s2
    by (simp add: put_exploration_def wfm_put_workspace)
  have "so_persistent s2 = so_persistent s1"
    using generated(5) by (auto simp: enter_target_def split: option.splits prod.splits)
  then have l3: "live (ev_now E) token ?s3"
    using workspace_live[OF wf generated(2)] s2 m1
    by (simp add: live_def put_exploration_def put_workspace_def map_simps ws_expired_def)
  show ?thesis
    unfolding r4(2)
    by (rule undo_restores[where sty=sty and col=col, OF g l3 _ _ old]) (use wo in \<open>auto simp: exploration_of_put[OF m2] e2\<close>)
qed (use store_ok_wfm[OF ok] workspace_outcome workspace_unchanged(1) in \<open>fastforce simp: unchanged_def\<close>)+

text \<open>C25: a failed entry leaves the visitor's explorations as they were.\<close>
theorem enter_rolls_back:
  assumes "app_reachable L tok s" "env_ok L tok E" "studio_enter E J token art sty col aid s = (s', Inl e)"
  shows "unchanged (ev_now E) token s s'"
  by (rule enter_error[OF app_reachable_ok[OF assms(1)] assms(2,3)])

theorem enter_rolls_back_witness:
  "\<exists>s'. studio_enter (demo_env 0) (demo_jobs 0) (demo_tok 0) ''iris'' '''' '''' ''bad'' demo_store
      = (s', Inl (ErrMsg ''invalid selection'')) \<and> unchanged 0 (demo_tok 0) demo_store s'"
proof -
  have w: "studio_workspace (demo_env 0) J (demo_tok 0) demo_store = (demo_store, Inr demo_workspace)" for J
    by (simp add: studio_workspace_def studio_prune_def demo_store_def demo_workspace_def Let_def)
  obtain pp where p: "pins ''iris'' '''' '''' = Inr pp" by (auto simp: pins_def get_entry_simps Let_def)
  have v: "v_artwork (x_view demo_exploration) = ''iris''"
    by (simp add: demo_exploration_def with_samples_def new_exploration_def)
  have "\<exists>s'. studio_enter (demo_env 0) (demo_jobs 0) (demo_tok 0) ''iris'' '''' '''' ''bad'' demo_store
      = (s', Inl (ErrMsg ''invalid selection''))"
    by (simp add: studio_enter_def p w v demo_workspace_def generate_def Let_def)
  with enter_rolls_back[OF demo_store_reachable demo_env_ok[of 0]] show ?thesis by simp blast
qed

text \<open>The canonical forms of the valid records of a recovery file, without reference to the order or to repeats.\<close>

definition canonicals :: "golib \<Rightarrow> string list \<Rightarrow> string set" where
  "canonicals L records = {r_canonical r | raw r. raw \<in> set records \<and> publish_validate L raw = Inr r}"

lemma canonicals_Cons: "publish_validate L raw = Inr r \<Longrightarrow> canonicals L (raw # raws) = insert (r_canonical r) (canonicals L raws)"
  by (auto simp: canonicals_def)

lemma restore_recipes_each:
  "restore_recipes L seen records = Inr rs \<Longrightarrow> (\<forall>raw\<in>set records. \<exists>r. publish_validate L raw = Inr r)
    \<and> distinct (map (recipe_digest L) rs) \<and> recipe_digest L ` set rs \<inter> set seen = {}
    \<and> r_canonical ` set rs \<subseteq> canonicals L records
    \<and> gl_sha256 L ` canonicals L records \<subseteq> recipe_digest L ` set rs \<union> set seen"
proof (induction L seen records arbitrary: rs rule: restore_recipes.induct)
  case (1 L seen)
  then show ?case by (simp add: canonicals_def)
next
  case (2 L seen raw raws)
  then obtain r where r: "publish_validate L raw = Inr r" by (auto simp: res_simps)
  note c = canonicals_Cons[OF r]
  show ?case
  proof (cases "recipe_digest L r \<in> set seen")
    case True
    with 2(3) r have "restore_recipes L seen raws = Inr rs" by simp
    from 2(1)[OF r refl True this] r True show ?thesis by (auto simp: c recipe_digest_def)
  next
    case False
    with 2(3) r obtain rs' where rs': "restore_recipes L (recipe_digest L r # seen) raws = Inr rs'" "rs = r # rs'"
      by (auto simp: res_simps)
    from 2(2)[OF r refl False rs'(1)] r False show ?thesis unfolding rs'(2) by (auto simp: c recipe_digest_def)
  qed
qed

text \<open>C27: restoring a recovery file and asking for it again gives every recipe of the file once: each
  record is valid, the answer holds canonical forms of records and nothing else, no digest twice, and
  every record's digest.\<close>
theorem restore_recovers:
  assumes "app_reachable L tok s" "env_ok L tok E" "studio_restore E (manager_jobs L io (ev_now E)) token records s = (s', Inr first)"
    "studio_recovery E2 J token s' = (s2, Inr out)"
  shows "(\<forall>raw\<in>set records. \<exists>r. publish_validate L raw = Inr r) \<and> distinct (map (gl_sha256 L) out)
    \<and> set out \<subseteq> canonicals L records \<and> gl_sha256 L ` set out = gl_sha256 L ` canonicals L records"
proof -
  note ok = app_reachable_ok[OF assms(1)]
  from mq.restore_spec(2)[OF ok assms(2,3) refl] obtain rs w where w: "restore_recipes L [] records = Inr rs"
    "mget (so_workspaces s') token = Some w" "mset (fav_recipes w) = mset (map r_canonical rs)" by blast
  note wf = store_ok_wfm[OF mq.restore_spec(1)[OF ok assms(2,3)]]
  from assms(4) obtain w2 where w2: "studio_workspace E2 J token s' = (s2, Inr w2)" "out = fav_recipes w2"
    by (auto simp: studio_recovery_def fav_recipes_def split: prod.splits sum.splits)
  have "ws_explorations w2 = ws_explorations w" using workspace_unchanged(2)[OF wf w2(1)] w(2) by simp
  then have m: "mset out = mset (map r_canonical rs)" using w2(2) w(3) by (simp add: fav_recipes_def)
  have dg: "recipe_digest L = (\<lambda>r. gl_sha256 L (r_canonical r))" by (intro ext) (simp add: recipe_digest_def)
  have "mset (map (gl_sha256 L) out) = mset (map (recipe_digest L) rs)"
    using m by (simp add: dg multiset.map_comp comp_def)
  then have "distinct (map (gl_sha256 L) out) = distinct (map (recipe_digest L) rs)" by (rule mset_eq_imp_distinct_iff)
  moreover have o: "set out = r_canonical ` set rs" using mset_eq_setD[OF m] by simp
  moreover have "gl_sha256 L ` set out = recipe_digest L ` set rs" by (simp add: o image_image recipe_digest_def)
  moreover have "gl_sha256 L ` r_canonical ` set rs \<subseteq> gl_sha256 L ` canonicals L records"
    using restore_recipes_each[OF w(1)] by (intro image_mono) blast
  ultimately show ?thesis using restore_recipes_each[OF w(1)] by (auto 0 3)
qed

theorem restore_recovers_witness:
  "\<exists>out. snd (studio_recovery (demo_env 0) (demo_jobs 0) (demo_tok 0) demo_store) = Inr out
     \<and> gl_sha256 demo_lib ` set out = gl_sha256 demo_lib ` canonicals demo_lib [''short'', ''short'']
     \<and> distinct (map (gl_sha256 demo_lib) out) \<and> out = [''canon'']"
proof -
  have w: "studio_workspace (demo_env 0) J (demo_tok 0) demo_store = (demo_store, Inr demo_workspace)" for J
    by (simp add: studio_workspace_def studio_prune_def demo_store_def demo_workspace_def Let_def)
  have rec: "studio_recovery (demo_env 0) (demo_jobs 0) (demo_tok 0) demo_store = (demo_store, Inr [''canon''])"
    by (simp add: studio_recovery_def w)
      (simp add: demo_workspace_def demo_exploration_def with_samples_def demo_sample_def restored_sample_def demo_recipe_def)
  have "restore_recipes demo_lib [] [''short'', ''short''] = restore_recipes demo_lib [] [''short'']"
    by (simp add: demo_validate)
  then have res: "studio_restore (demo_env 0) (manager_jobs demo_lib demo_io (ev_now (demo_env 0))) (demo_tok 0)
      [''short'', ''short''] demo_created = (demo_store, Inr (demo_tok 2))"
    using demo_restore[of "manager_jobs demo_lib demo_io (ev_now (demo_env 0))"] by (simp add: studio_restore_def)
  from restore_recovers[OF demo_created_reachable demo_env_ok res rec] rec show ?thesis by auto
qed

text \<open>The demonstration session with one batch, whose image is queued.\<close>

definition demo_aid :: string where
  "demo_aid = replicate 48 CHR ''a''"

definition demo_batched :: exploration where
  "demo_batched = demo_exploration\<lparr>x_view := (x_view demo_exploration)\<lparr>v_samples := [demo_sample\<lparr>sa_job := demo_id\<rparr>],
     v_batches := [\<lparr>ba_id = demo_tok 4, ba_parent = [], ba_samples = [demo_tok 3]\<rparr>], v_revision := 1\<rparr>,
     x_actions := [\<lparr>ac_id = demo_aid, ac_digest = ''d'', ac_batch = demo_tok 4\<rparr>], x_round := 1\<rparr>"

definition demo_busy :: "mgr store" where
  "demo_busy = demo_store\<lparr>so_workspaces := [(demo_tok 0, demo_workspace\<lparr>ws_explorations := [(demo_tok 2, demo_batched)]\<rparr>)],
     so_queue := Some demo_queued, so_drawn := 5\<rparr>"

lemma demo_busy_ok: "store_ok demo_lib demo_tok (mgr_inv demo_lib) demo_busy"
proof -
  have "store_ok demo_lib demo_tok (mgr_inv demo_lib) demo_store" by (rule app_reachable_ok[OF demo_store_reachable])
  from ok_bounds(2)[OF this demo_exploration_of] have "expl_ok demo_lib (drawn demo_tok 4) (demo_tok 2) demo_exploration"
    by (simp add: demo_store_def)
  from expl_ok_mono[OF this drawn_mono[of 4 5]] have "expl_ok demo_lib (drawn demo_tok 5) (demo_tok 2) demo_batched"
    by (simp add: expl_ok_def demo_batched_def demo_exploration_def with_samples_def)
  then have "ws_ok demo_lib (drawn demo_tok 5) (demo_workspace\<lparr>ws_explorations := [(demo_tok 2, demo_batched)]\<rparr>)"
    by (simp add: ws_ok_def demo_workspace_def count_favourites_def demo_batched_def)
  moreover have "recipe_bytes demo_busy \<le> 33554432"
    by (simp add: recipe_bytes_def demo_busy_def demo_batched_def demo_sample_def restored_sample_def demo_recipe_def)
  ultimately show ?thesis
    using reachable_mgr_inv[OF demo_reachable(2)] by (simp add: store_ok_def studio_inv_def demo_busy_def demo_store_def)
qed

lemma demo_busy_workspace: "studio_workspace (demo_env 0) J (demo_tok 0) demo_busy
    = (demo_busy, Inr (demo_workspace\<lparr>ws_explorations := [(demo_tok 2, demo_batched)]\<rparr>))"
  by (simp add: studio_workspace_def studio_prune_def demo_busy_def demo_store_def demo_workspace_def Let_def)

lemma demo_busy_find: "studio_find (demo_env 0) J (demo_tok 0) (demo_tok 2) demo_busy = (demo_busy, Inr demo_batched)"
  by (simp add: studio_find_def demo_busy_workspace)

text \<open>C26: cancelling a batch ends every unfinished image of it and nobody else's.\<close>
theorem cancel_settles:
  assumes "store_ok L tok (mgr_inv L) s" "studio_cancel E (manager_jobs L io (ev_now E)) token i revision bid s = (s', None)"
    "so_queue (studio_prune E (manager_jobs L io (ev_now E)) s) = Some m"
  shows "\<exists>x x' m'. exploration_of s token i = Some x \<and> exploration_of s' token i = Some x' \<and> so_queue s' = Some m'
    \<and> v_revision (x_view x') = v_revision (x_view x) + 1 \<and> ba_id (last (v_batches (x_view x))) = bid
    \<and> (\<forall>a\<in>set (v_samples (x_view x)). sa_id a \<in> set (ba_samples (last (v_batches (x_view x)))) \<longrightarrow>
        \<not> unfinished (Some (status_of (ev_now E) token (sa_job a) m')))
    \<and> (\<forall>owner k. owner \<noteq> token \<longrightarrow> status_of (ev_now E) owner k m' = status_of (ev_now E) owner k m)"
proof -
  let ?J = "manager_jobs L io (ev_now E)"
  note ok = assms(1)
  obtain s1 rx where f: "studio_find E ?J token i s = (s1, rx)" by force
  with assms(2) obtain x where x: "rx = Inr x" "ba_id (last (v_batches (x_view x))) = bid"
    by (cases rx) (auto simp: studio_cancel_def Let_def split: if_splits)
  note fx = mq.find_exploration[OF f[unfolded x(1)] ok]
  have q1: "so_queue s1 = Some m"
    using find_spec[OF f] workspace_spec(4) assms(3) by metis
  obtain as q where c: "cancel_members ?J token (ba_samples (last (v_batches (x_view x)))) (v_samples (x_view x)) (Some m) = (as, q)"
    by force
  from assms(2) f x c q1 have s': "s' = put_exploration token i (next_revision (with_samples as x)) (s1\<lparr>so_queue := q\<rparr>)"
    by (auto simp: studio_cancel_def Let_def split: if_splits)
  from mq.cancel_members_good[OF c store_okD(3)[OF fx(1) q1]] obtain m' where m': "q = Some m'"
    "\<forall>a\<in>set (v_samples (x_view x)). sa_id a \<in> set (ba_samples (last (v_batches (x_view x)))) \<longrightarrow>
        \<not> unfinished (Some (status_of (ev_now E) token (sa_job a) m'))"
    "\<forall>owner k. owner \<noteq> token \<longrightarrow> status_of (ev_now E) owner k m' = status_of (ev_now E) owner k m"
    by auto
  obtain w where w: "mget (so_workspaces s1) token = Some w" using fx(2) by (auto simp: exploration_of_Some)
  have "exploration_of s token i = Some x" using find_outcome(2)[OF store_ok_wfm[OF ok] f x(1)] by blast
  moreover have "exploration_of s' token i = Some (next_revision (with_samples as x))"
    unfolding s' using w by (simp add: exploration_of_put(1)[of "s1\<lparr>so_queue := q\<rparr>" token w])
  moreover have "v_revision (x_view (next_revision (with_samples as x))) = v_revision (x_view x) + 1"
    by (simp add: next_revision_def with_samples_def)
  moreover have "so_queue s' = Some m'" unfolding s' using m'(1) by simp
  ultimately show ?thesis using m'(2,3) x(2) by blast
qed

theorem cancel_settles_witness:
  "\<exists>s' m'. studio_cancel (demo_env 0) (demo_jobs 0) (demo_tok 0) (demo_tok 2) 1 (demo_tok 4) demo_busy = (s', None)
     \<and> so_queue s' = Some m' \<and> \<not> unfinished (Some (status_of 0 (demo_tok 0) demo_id m'))"
proof -
  let ?J = "manager_jobs demo_lib demo_io (ev_now (demo_env 0))"
  have b: "v_batches (x_view demo_batched) = [\<lparr>ba_id = demo_tok 4, ba_parent = [], ba_samples = [demo_tok 3]\<rparr>]"
    "v_revision (x_view demo_batched) = 1" "v_samples (x_view demo_batched) = [demo_sample\<lparr>sa_job := demo_id\<rparr>]"
    by (simp_all add: demo_batched_def)
  obtain as q where m: "cancel_members ?J (demo_tok 0) [demo_tok 3] [demo_sample\<lparr>sa_job := demo_id\<rparr>] (so_queue demo_busy) = (as, q)"
    by force
  obtain s' where c: "studio_cancel (demo_env 0) ?J (demo_tok 0) (demo_tok 2) 1 (demo_tok 4) demo_busy = (s', None)"
    using m by (simp add: studio_cancel_def demo_busy_find b Let_def del: cancel_members.simps)
  have p: "so_queue (studio_prune (demo_env 0) ?J demo_busy) = Some demo_queued"
    by (simp add: studio_prune_def demo_busy_def demo_store_def demo_workspace_def)
  have x: "exploration_of demo_busy (demo_tok 0) (demo_tok 2) = Some demo_batched"
    by (simp add: exploration_of_def demo_busy_def)
  from cancel_settles[OF demo_busy_ok c p] obtain m' where "so_queue s' = Some m'"
    "\<not> unfinished (Some (status_of 0 (demo_tok 0) demo_id m'))"
    using x b by (auto simp: demo_sample_def restored_sample_def)
  with c show ?thesis by (auto simp: demo_jobs_def)
qed

section \<open>Generation\<close>

text \<open>The images of the newest batch.\<close>

definition newest :: "exploration \<Rightarrow> sample list" where
  "newest x = filter (\<lambda>a. sa_id a \<in> set (ba_samples (last (v_batches (x_view x))))) (v_samples (x_view x))"

lemma last8_last: "last (last8 (xs @ [y])) = y" "last8 (xs @ [y]) \<noteq> []"
  by (auto simp: last8_def tl_append split: list.splits)

lemma last8_in: "y \<in> set (last8 (xs @ [y]))"
  by (auto simp: last8_def tl_append split: list.splits)

lemma find_last8: "find P xs = None \<Longrightarrow> P y \<Longrightarrow> find P (last8 (xs @ [y])) = Some y"
proof -
  assume a: "find P xs = None" "P y"
  have "find P (ys @ [y]) = Some y" if "\<not> (\<exists>x\<in>set ys. P x)" for ys using that a(2) by (induction ys) auto
  moreover have "\<not> (\<exists>x\<in>set xs. P x)" "\<not> (\<exists>x\<in>set (tl xs). P x)" using a(1) by (auto simp: find_None_iff dest: list.set_sel(2)) (metis list.set_sel(2) tl_Nil)
  ultimately show ?thesis by (auto simp: last8_def tl_append split: list.splits)
qed

lemma commit_round_newest:
  fixes aid dg :: string and sel :: "string list"
  assumes ok: "expl_ok L (drawn tok n) i x" and tok: "ev_token E = tok" "inj tok" and jobs: "length jobs = length (pl_recipes p)"
  defines "x' \<equiv> commit_round E n aid dg sel p jobs x"
  shows "newest x' = new_samples E (Suc n) p jobs"
proof -
  let ?new = "new_samples E (Suc n) p jobs" and ?old = "v_samples (x_view x)"
  note cv = commit_view[where E=E and n=n and aid=aid and dg=dg and sel=sel and p=p and jobs=jobs and x=x, folded x'_def]
  have bs: "v_batches (x_view x') = last8 (v_batches (x_view x) @ [\<lparr>ba_id = ev_token E n,
       ba_parent = (if length sel = 1 then hd sel else ''''), ba_samples = map sa_id ?new\<rparr>])"
    by (subst cv(1)) simp
  have last: "ba_samples (last (v_batches (x_view x'))) = map sa_id ?new" "last (v_batches (x_view x')) \<in> set (v_batches (x_view x'))"
    unfolding bs by (simp_all add: last8_last last8_in)
  then have "sa_id a \<in> kept_ids (v_batches (x_view x'))" if "a \<in> set ?new" for a
    using that by (force simp: kept_ids_def)
  then have "newest x' = filter (\<lambda>a. sa_id a \<in> sa_id ` set ?new) (?old @ ?new)"
    unfolding newest_def cv(2) last(1) filter_filter by (intro filter_cong) (auto simp: kept_ids_def)
  also have "\<dots> = ?new"
  proof -
    have "sa_id a \<notin> sa_id ` set ?new" if a: "a \<in> set ?old" for a
    proof -
      obtain m where m: "m < n" "sa_id a = tok m" using subsetD[OF expl_okD(9)[OF ok], of "sa_id a"] a by (auto simp: drawn_def)
      have "\<exists>k. z = tok (Suc n + k)" if "z \<in> set (map sa_id ?new)" for z
        using that tok(1) unfolding new_samples_fields(1)[OF jobs, of E "Suc n"] by auto
      then have "\<exists>k. sa_id a = tok (Suc n + k)" if "sa_id a \<in> sa_id ` set ?new" using that by simp
      with m show ?thesis by (auto simp: inj_eq[OF tok(2)])
    qed
    then show ?thesis by (simp add: filter_empty_conv)
  qed
  finally show ?thesis .
qed

text \<open>The specification of a successful round: what the new batch consists of.\<close>

definition round_done :: "golib \<Rightarrow> string \<Rightarrow> string \<Rightarrow> exploration \<Rightarrow> exploration \<Rightarrow> string \<Rightarrow> bool" where
  "round_done L aid dg x x' b \<longleftrightarrow> v_revision (x_view x') = v_revision (x_view x) + 1
     \<and> v_batches (x_view x') \<noteq> [] \<and> ba_id (last (v_batches (x_view x'))) = b
     \<and> length (newest x') = 4 \<and> distinct (map seed_of (newest x'))
     \<and> seed_of ` set (newest x') \<inter> seed_of ` set (v_samples (x_view x)) = {}
     \<and> (\<forall>a\<in>set (newest x'). public_recipe L (sa_recipe a) \<and> r_id (sa_recipe a) = v_artwork (x_view x)
          \<and> \<not> sa_favourite a)
     \<and> filter sa_favourite (v_samples (x_view x')) = filter sa_favourite (v_samples (x_view x))
     \<and> find (\<lambda>a. ac_id a = aid) (x_actions x') = Some \<lparr>ac_id = aid, ac_digest = dg, ac_batch = b\<rparr>"

lemma list_all2_seeds:
  assumes "list_all2 (round_ok L x pin pal) cs rs"
  shows "map (\<lambda>r. parse_uint_value (r_seed r)) rs = map c_seed cs"
proof -
  have sd: "round_ok L x pin pal c r \<Longrightarrow> parse_uint_value (r_seed r) = c_seed c" for c r
    by (simp add: round_ok_def parse_uint_value_def)
  from assms show ?thesis by (induction cs rs rule: list_all2_induct) (simp_all add: sd)
qed

context jobs_queue begin

lemma generate_outcome:
  assumes ok: "store_ok L tok good s" and env: "env_ok L tok E"
    and g: "generate E J token i revision aid sel different s = (s', Inr b)"
  obtains (replay) x a where "exploration_of s token i = Some x" "find (\<lambda>a. ac_id a = aid) (x_actions x) = Some a"
      "ac_digest a = ev_digest E revision sel different" "b = ac_batch a"
      "\<And>j. exploration_of s' token j = exploration_of s token j"
  | (new) x x' cs pin pal jobs and p :: plan where "exploration_of s token i = Some x" "v_revision (x_view x) = revision"
      "find (\<lambda>a. ac_id a = aid) (x_actions x) = None"
      "exploration_of s' token i = Some x'" "\<And>j. j \<noteq> i \<Longrightarrow> exploration_of s' token j = exploration_of s token j"
      "round_done L aid (ev_digest E revision sel different) x x' b"
      "plan_direction (x_view x) sel = Inr ((pin, pal), pl_style p, pl_colour p)"
      "list_all2 (round_ok L x pin pal) cs (pl_recipes p)" "map sa_recipe (newest x') = pl_recipes p"
      "\<And>a. a \<in> set (newest x') \<Longrightarrow> sa_style a = pl_style p \<and> sa_colour a = pl_colour p"
      "map sa_job (newest x') = jobs" "expl_ok L (drawn tok (so_drawn s)) i x" "length sel \<le> 1"
  using g
proof (cases rule: generate_cases)
  case (replay x a)
  note f = find_outcome(2)[OF store_ok_wfm[OF ok] replay(1) refl]
  show thesis using f replay by (intro that(1)[of x a]) auto
next
  case (generated s1 x q q' p jobs)
  let ?x = "commit_round E (so_drawn s1) aid (ev_digest E revision sel different) sel p jobs x"
  note fo = find_outcome(2)[OF store_ok_wfm[OF ok] generated(1) refl]
  note f = find_exploration[OF generated(1) ok]
  have dr: "so_drawn s1 = so_drawn s" using find_Inr[OF generated(1) store_okD(1)[OF ok]] by metis
  obtain pin pal cs where P: "plan_direction (x_view x) sel = Inr ((pin, pal), pl_style p, pl_colour p)"
    "length cs = 4" "distinct (map c_seed cs)" "c_seed ` set cs \<inter> seed_of ` set (v_samples (x_view x)) = {}"
    "list_all2 (round_ok L x pin pal) cs (pl_recipes p)"
    by (rule plan_round_spec[OF env_okD(3)[OF env] env_okD(1)[OF env] f(3) generated(3,7)])
  have len: "length jobs = length (pl_recipes p)" using admit_length[OF generated(9)] by simp
  note nw = commit_round_newest[OF f(3) env_okD(2,4)[OF env] len, of aid "ev_digest E revision sel different" sel]
  note nf = new_samples_fields[OF len, where E=E and n="Suc (so_drawn s1)"]
  obtain w where w: "mget (so_workspaces s1) token = Some w" using f(2) by (auto simp: exploration_of_Some)
  have s': "exploration_of s' token j = (if j = i then Some ?x else exploration_of s1 token j)" for j
    unfolding generated(10) using w
    by (simp add: exploration_of_put(1)[of _ token w]) (simp add: exploration_of_def)
  have seeds: "map seed_of (newest ?x) = map c_seed cs"
  proof -
    have "map seed_of (newest ?x) = map (\<lambda>r. parse_uint_value (r_seed r)) (map sa_recipe (newest ?x))"
      by (simp add: seed_of_def)
    then show ?thesis using nw nf(2) list_all2_seeds[OF P(5)] by simp
  qed
  have len4: "length (newest ?x) = 4" using arg_cong[OF seeds, of length] P(2) by simp
  have "seed_of ` set (newest ?x) = c_seed ` set cs" using arg_cong[OF seeds, of set] by simp
  moreover have "public_recipe L (sa_recipe a) \<and> r_id (sa_recipe a) = v_artwork (x_view x) \<and> \<not> sa_favourite a"
    if "a \<in> set (newest ?x)" for a
  proof -
    have "sa_recipe a \<in> set (pl_recipes p)" using that nw nf(2) by (metis image_eqI list.set_map)
    then show ?thesis
      using plan_round_recipes(2)[OF env f(3) generated(3,7)] nf(5)[of a] that nw by simp
  qed
  moreover have "filter sa_favourite (v_samples (x_view ?x)) = filter sa_favourite (v_samples (x_view x))"
  proof -
    have "filter sa_favourite (new_samples E (Suc (so_drawn s1)) p jobs) = []" using nf(5) by (simp add: filter_empty_conv)
    moreover have "filter sa_favourite (v_samples (x_view ?x)) = filter sa_favourite (v_samples (x_view x) @ new_samples E (Suc (so_drawn s1)) p jobs)"
      unfolding commit_view(2) filter_filter by (rule filter_cong) auto
    ultimately show ?thesis by simp
  qed
  moreover have "find (\<lambda>a. ac_id a = aid) (x_actions ?x) = Some \<lparr>ac_id = aid,
      ac_digest = ev_digest E revision sel different, ac_batch = b\<rparr>"
    unfolding commit_view(3) using generated(4,11) by (simp add: find_last8)
  moreover have "v_revision (x_view ?x) = v_revision (x_view x) + 1" by (subst commit_view(1)) simp
  moreover have "v_batches (x_view ?x) \<noteq> [] \<and> ba_id (last (v_batches (x_view ?x))) = b"
    using generated(11) by (subst (1 2) commit_view(1)) (simp add: last8_last)
  ultimately have rd: "round_done L aid (ev_digest E revision sel different) x ?x b"
    using seeds P(3,4) len4 by (simp add: round_done_def)
  show thesis
    using that(2)[where x=x and x'="?x" and pin=pin and pal=pal and p=p and cs=cs and jobs=jobs] fo generated(3-5) s' rd P(1,5) nw nf(2,3,5) f(3) dr by auto
qed (use g in auto)

end

lemma generate_batch_cases:
  assumes "store_ok L tok (mgr_inv L) s" "env_ok L tok E"
    "studio_generate E (manager_jobs L io (ev_now E)) token i revision aid sel different s = (s', Inr b)"
  shows "\<exists>x. exploration_of s token i = Some x
    \<and> ((\<exists>a. find (\<lambda>a. ac_id a = aid) (x_actions x) = Some a \<and> b = ac_batch a
          \<and> ac_digest a = ev_digest E revision sel different \<and> exploration_of s' token i = Some x)
      \<or> (\<exists>x'. find (\<lambda>a. ac_id a = aid) (x_actions x) = None \<and> revision = v_revision (x_view x)
          \<and> exploration_of s' token i = Some x' \<and> round_done L aid (ev_digest E revision sel different) x x' b))
    \<and> (\<forall>j. j \<noteq> i \<longrightarrow> exploration_of s' token j = exploration_of s token j)"
proof (rule mq.generate_outcome[OF assms(1,2) assms(3)[unfolded studio_generate_def]])
  fix x a
  assume "exploration_of s token i = Some x" "find (\<lambda>a. ac_id a = aid) (x_actions x) = Some a"
    "ac_digest a = ev_digest E revision sel different" "b = ac_batch a"
    "\<And>j. exploration_of s' token j = exploration_of s token j"
  then show ?thesis by auto
next
  fix x x'
  assume "exploration_of s token i = Some x" "v_revision (x_view x) = revision"
    "find (\<lambda>a. ac_id a = aid) (x_actions x) = None"
    "exploration_of s' token i = Some x'" "\<And>j. j \<noteq> i \<Longrightarrow> exploration_of s' token j = exploration_of s token j"
    "round_done L aid (ev_digest E revision sel different) x x' b"
  then show ?thesis by auto
qed

text \<open>C15: what a visitor gets for a batch: the recorded answer, or four fresh public images.\<close>
theorem generate_new_batch:
  assumes "store_ok L tok (mgr_inv L) s" "env_ok L tok E"
    "studio_generate E (manager_jobs L io (ev_now E)) token i revision aid sel different s = (s', Inr b)"
  shows "\<exists>x. exploration_of s token i = Some x
    \<and> ((\<exists>a. find (\<lambda>a. ac_id a = aid) (x_actions x) = Some a \<and> b = ac_batch a
          \<and> ac_digest a = ev_digest E revision sel different \<and> exploration_of s' token i = Some x)
      \<or> (\<exists>x'. find (\<lambda>a. ac_id a = aid) (x_actions x) = None \<and> revision = v_revision (x_view x)
          \<and> exploration_of s' token i = Some x' \<and> round_done L aid (ev_digest E revision sel different) x x' b))
    \<and> (\<forall>j. j \<noteq> i \<longrightarrow> exploration_of s' token j = exploration_of s token j)"
  by (rule generate_batch_cases[OF assms])

text \<open>The choices of two public recipes of one artwork have the same names.\<close>

lemma public_dom:
  assumes "public_recipe L r" "public_recipe L r'" "r_id r = r_id r'"
  shows "dom (mget (r_traits r)) = dom (mget (r_traits r'))"
proof -
  obtain e where e: "get_entry (r_id r) = Some e" "complete_set (map (space_dim (r_id r) e) (base_schema (r_id r))) (r_traits r)"
    by (rule public_recipe_traits[OF assms(1)])
  obtain e' where e': "get_entry (r_id r') = Some e'" "complete_set (map (space_dim (r_id r') e') (base_schema (r_id r'))) (r_traits r')"
    by (rule public_recipe_traits[OF assms(2)])
  from e e' assms(3) show ?thesis by (simp add: complete_set_def)
qed

lemma set_get_cong: "mget a = mget b \<Longrightarrow> set_get a k = set_get b k"
  by (simp add: set_get_def)

text \<open>A public recipe with a colourway is drawn with the palette of that colourway.\<close>

lemma public_colourway:
  assumes "public_recipe L r" "set_get (r_traits r) ''colourway'' \<noteq> ''''"
  shows "r_pal r = set_get (r_traits r) ''colourway''"
proof -
  obtain e where e: "get_entry (r_id r) = Some e" "complete_set (map (space_dim (r_id r) e) (base_schema (r_id r))) (r_traits r)"
    by (rule public_recipe_traits[OF assms(1)])
  have "set_get (r_traits r) ''colourway'' \<noteq> ''from-flag''"
    using colours_by_name[OF space_colourway[OF e assms(2)]] by blast
  moreover obtain raw where "publish_validate L raw = Inr r" using assms(1) by (auto simp: public_recipe_def)
  then have "decode L raw = Inr r" by (auto simp: publish_validate_def res_simps Let_def split: if_splits)
  then have "\<exists>pal. r_pal r = (let col = set_get (r_traits r) ''colourway''
      in if col \<noteq> '''' \<and> col \<noteq> ''from-flag'' then col else pal)" by (blast elim: decode_Inr)
  ultimately show ?thesis using assms(2) by (auto simp: Let_def)
qed

text \<open>C21: a round that continues one image keeps its family: the same choices and palette, new seeds.\<close>
theorem generate_similar:
  assumes "store_ok L tok (mgr_inv L) s" "env_ok L tok E"
    "studio_generate E (manager_jobs L io (ev_now E)) token i revision aid [sa_id a] different s = (s', Inr b)"
    "exploration_of s token i = Some x" "a \<in> set (v_samples (x_view x))" "find (\<lambda>c. ac_id c = aid) (x_actions x) = None"
  shows "\<exists>x'. exploration_of s' token i = Some x' \<and> length (newest x') = 4
    \<and> (\<forall>c\<in>set (newest x'). mget (r_traits (sa_recipe c)) = mget (r_traits (sa_recipe a))
        \<and> r_pal (sa_recipe c) = r_pal (sa_recipe a)
        \<and> sa_style c = sa_style a \<and> sa_colour c = sa_colour a \<and> seed_of c \<noteq> seed_of a)"
proof (rule mq.generate_outcome[OF assms(1,2) assms(3)[unfolded studio_generate_def]])
  fix x1 a1
  assume "exploration_of s token i = Some x1" "find (\<lambda>a. ac_id a = aid) (x_actions x1) = Some a1"
  with assms(4,6) show ?thesis by simp
next
  fix x1 x' cs pin pal and p :: plan
  assume n: "exploration_of s token i = Some x1" "exploration_of s' token i = Some x'"
    "round_done L aid (ev_digest E revision [sa_id a] different) x1 x' b"
    "plan_direction (x_view x1) [sa_id a] = Inr ((pin, pal), pl_style p, pl_colour p)"
    "list_all2 (round_ok L x1 pin pal) cs (pl_recipes p)" "map sa_recipe (newest x') = pl_recipes p"
    "\<And>a. a \<in> set (newest x') \<Longrightarrow> sa_style a = pl_style p \<and> sa_colour a = pl_colour p"
    "expl_ok L (drawn tok (so_drawn s)) i x1"
  have x1: "x1 = x" using n(1) assms(4) by simp
  note ok = n(8)[unfolded x1]
  have dir: "pin = r_traits (sa_recipe a) \<and> pal = r_pal (sa_recipe a) \<and> pl_style p = sa_style a \<and> pl_colour p = sa_colour a"
  proof (rule plan_direction_Inr[OF n(4)[unfolded x1] expl_okD(8)[OF ok]], goal_cases)
    case 1
    then have "filter (\<lambda>c. sa_id c = sa_id a) (v_samples (x_view x)) = []" by (simp add: selected_samples_def)
    with assms(5) show ?case by (auto simp: filter_empty_conv)
  next
    case (2 a')
    then have "sa_id a' = sa_id a" by simp
    with inj_onD[OF distinct_map[THEN iffD1, THEN conjunct2, OF expl_okD(8)[OF ok]] this 2(1) assms(5)] 2 show ?case by simp
  qed
  obtain e where e: "r_pal (sa_recipe a) \<in> co_id ` set (en_colours e)" "get_entry (r_id (sa_recipe a)) = Some e"
    by (rule public_recipe_traits[OF expl_okD(10)[OF ok assms(5)]])
  have pal: "r_pal (sa_recipe a) \<noteq> ''''" using e get_entry_cases(3)[OF e(2)] by (auto simp: colours_def)
  have "mget (r_traits (sa_recipe c)) = mget (r_traits (sa_recipe a))
        \<and> r_pal (sa_recipe c) = r_pal (sa_recipe a)
        \<and> sa_style c = sa_style a \<and> sa_colour c = sa_colour a \<and> seed_of c \<noteq> seed_of a" if c: "c \<in> set (newest x')" for c
  proof -
    have "sa_recipe c \<in> set (pl_recipes p)" using c n(6) by (metis image_eqI list.set_map)
    with n(5) obtain c0 where ro: "round_ok L x1 pin pal c0 (sa_recipe c)"
      by (auto simp: list_all2_conv_all_nth in_set_conv_nth)
    then have pr: "public_recipe L (sa_recipe c)" "r_id (sa_recipe c) = v_artwork (x_view x)" by (simp_all add: round_ok_def x1)
    have m: "mget (r_traits (sa_recipe c)) = mget (r_traits (sa_recipe a))"
    proof
      fix k
      have d: "dom (mget (r_traits (sa_recipe c))) = dom (mget (r_traits (sa_recipe a)))"
        by (rule public_dom[OF pr(1) expl_okD(10)[OF ok assms(5)]]) (simp add: pr(2) expl_okD(11)[OF ok assms(5)])
      show "mget (r_traits (sa_recipe c)) k = mget (r_traits (sa_recipe a)) k"
      proof (cases "mget (r_traits (sa_recipe a)) k")
        case None
        then show ?thesis using d by (metis domIff)
      next
        case (Some v)
        then have "mget (r_traits (sa_recipe c)) k = Some v" using ro dir unfolding round_ok_def by blast
        with Some show ?thesis by simp
      qed
    qed
    moreover have "seed_of c \<noteq> seed_of a" using n(3) c assms(5) x1 by (fastforce simp: round_done_def)
    moreover have "r_pal (sa_recipe c) = r_pal (sa_recipe a)"
    proof (cases "set_get (r_traits (sa_recipe a)) ''colourway'' = ''''")
      case True
      then show ?thesis using ro dir pal set_get_cong[OF m] by (simp add: round_ok_def)
    next
      case False
      then show ?thesis
        using public_colourway[OF pr(1)] public_colourway[OF expl_okD(10)[OF ok assms(5)]] set_get_cong[OF m] by simp
    qed
    ultimately show ?thesis using dir n(7)[OF c] by auto
  qed
  then show ?thesis using n(2,3) by (auto simp: round_done_def)
qed

text \<open>C22: repeating a request, even later, gives the same batch and changes nothing.\<close>
theorem generate_idempotent:
  assumes "store_ok L tok (mgr_inv L) s" "env_ok L tok E"
    "studio_generate E (manager_jobs L io (ev_now E)) token i revision aid sel different s = (s', Inr b)"
    "live (ev_now E2) token s'" "ev_digest E2 revision sel different = ev_digest E revision sel different"
  shows "\<exists>s2. studio_generate E2 J token i revision aid sel different s' = (s2, Inr b)
    \<and> (\<forall>j. exploration_of s2 token j = exploration_of s' token j)"
proof -
  note g = assms(3)[unfolded studio_generate_def]
  have wf: "wfm (so_workspaces s')" by (rule store_ok_wfm[OF mq.generate_ok[OF assms(1,2) g]])
  have input: "distinct sel \<and> length aid = 48 \<and> length sel \<le> 1 \<and> list_all is_hex aid"
    using g by (auto simp: generate_def split: if_splits)
  obtain x' a where x': "exploration_of s' token i = Some x'" "find (\<lambda>a. ac_id a = aid) (x_actions x') = Some a"
    "ac_digest a = ev_digest E revision sel different" "ac_batch a = b"
    using generate_batch_cases[OF assms(1-3)] by (auto simp: round_done_def)
  obtain s2 rx where f: "studio_find E2 J token i s' = (s2, rx)" by force
  have rx: "rx = Inr x'" using find_outcome(2,3)[OF wf f] assms(4) x'(1) by (cases rx) auto
  have "generate E2 J token i revision aid sel different s' = (s2, Inr b)"
    using input f rx x'(2-4) assms(5) by (simp add: generate_def)
  then show ?thesis using find_outcome(2)[OF wf f rx] by (auto simp: studio_generate_def)
qed

theorem generate_idempotent_witness:
  "\<exists>s1 s2. studio_generate (demo_env 0) (demo_jobs 0) (demo_tok 0) (demo_tok 2) 0 demo_aid [] False demo_busy = (s1, Inr (demo_tok 4))
     \<and> studio_generate (demo_env 7) (demo_jobs 7) (demo_tok 0) (demo_tok 2) 0 demo_aid [] False s1 = (s2, Inr (demo_tok 4))"
proof -
  have g: "studio_generate (demo_env 0) (manager_jobs demo_lib demo_io (ev_now (demo_env 0))) (demo_tok 0) (demo_tok 2) 0
      demo_aid [] False demo_busy = (demo_busy, Inr (demo_tok 4))"
    by (simp add: studio_generate_def generate_def demo_busy_find demo_aid_def is_hex_def list_all_iff) (simp add: demo_batched_def demo_aid_def)
  have l: "live (ev_now (demo_env 7)) (demo_tok 0) demo_busy"
    by (simp add: live_def demo_busy_def demo_store_def demo_workspace_def ws_expired_def minute_def)
  from generate_idempotent[OF demo_busy_ok demo_env_ok g l, of "demo_jobs 7"] g show ?thesis
    by (auto simp: demo_jobs_def)
qed

end
