(* ===== verification/WideLib.thy ===== *)
theory WideLib
  imports Offers
begin

text \<open>
  A concrete lawful library for the witnesses: it shows that the hypotheses about \<open>encoding/json\<close> can be
  met for every published artwork at once.
\<close>

section \<open>A library that encodes everything\<close>

text \<open>
  A lawful codec for the choices of every artwork: the values in the order of the schema, closed by a
  slash, and an envelope whose fields are separated by bars.
\<close>

definition wide_config :: "string \<Rightarrow> tset \<Rightarrow> string" where
  "wide_config art st = concat (map (\<lambda>d. set_get st (d_name d) @ ''/'') (base_schema art))"

fun wide_parse :: "dim list \<Rightarrow> string \<Rightarrow> tset" where
  "wide_parse [] b = []"
| "wide_parse (d # ds) b = (d_name d, takeWhile (\<lambda>c. c \<noteq> CHR ''/'') b) # wide_parse ds (tl (dropWhile (\<lambda>c. c \<noteq> CHR ''/'') b))"

definition wide_envelope :: "envelope \<Rightarrow> string" where
  "wide_envelope e = e_id e @ ''|'' @ e_seed e @ ''|'' @ e_palette e @ ''|'' @ e_config e"

definition no_bar :: "string \<Rightarrow> bool" where
  "no_bar s \<longleftrightarrow> CHR ''|'' \<notin> set s"

definition field :: "string \<Rightarrow> string" where
  "field b = takeWhile (\<lambda>c. c \<noteq> CHR ''|'') b"

definition next_field :: "string \<Rightarrow> string" where
  "next_field b = tl (dropWhile (\<lambda>c. c \<noteq> CHR ''|'') b)"

definition wide_lib :: golib where
  "wide_lib = \<lparr>gl_tokens = \<lambda>data. ([JScalar data], True),
     gl_dec_envelope = \<lambda>b. Inr \<lparr>e_version = 1, e_id = field b, e_edition = ''1'', e_seed = field (next_field b),
       e_palette = field (next_field (next_field b)), e_config = next_field (next_field (next_field b))\<rparr>,
     gl_dec_config = \<lambda>art b. Inr \<lparr>cf_traits = wide_parse (base_schema art) b, cf_fields = []\<rparr>,
     gl_enc_envelope = \<lambda>e. if e_version e = 1 \<and> e_edition e = ''1'' \<and> no_bar (e_id e) \<and> no_bar (e_seed e) \<and> no_bar (e_palette e)
         \<and> length (wide_envelope e) \<le> max_recipe then Inr (wide_envelope e) else Inl (ErrMsg ''json''),
     gl_enc_config = \<lambda>art c. if cf_fields c = [] \<and> complete_set (base_schema art) (cf_traits c)
         \<and> length (wide_config art (cf_traits c)) \<le> max_recipe then Inr (wide_config art (cf_traits c)) else Inl (ErrMsg ''json''),
     gl_enc_rendition = \<lambda>t. format_int (rn_width t), gl_sha256 = \<lambda>b. b,
     gl_unicode_lower = \<lambda>s. s, gl_g = \<lambda>x. '''', gl_pools_pin = \<lambda>k. VInt 0, gl_foam_pin = \<lambda>k. VInt 0\<rparr>"

lemma no_bar_field:
  "no_bar a \<Longrightarrow> field (a @ CHR ''|'' # b) = a" "no_bar a \<Longrightarrow> next_field (a @ CHR ''|'' # b) = b"
  by (simp_all add: field_def next_field_def no_bar_def takeWhile_append dropWhile_append)

lemma values_plain:
  "list_all (\<lambda>d. list_all (\<lambda>v. CHR ''/'' \<notin> set (v_name v) \<and> length (v_name v) \<le> 40) (d_values d)) (base_schema art)
    \<and> length (base_schema art) \<le> 40"
  by (simp add: base_schema_def pools_schema_def foam_schema_def iris_schema_def)

lemma wide_parse_config:
  assumes "distinct (map d_name ds)" "\<And>d. d \<in> set ds \<Longrightarrow> CHR ''/'' \<notin> set (set_get st (d_name d))"
  shows "mget (wide_parse ds (concat (map (\<lambda>d. set_get st (d_name d) @ ''/'') ds)))
    = (\<lambda>k. if k \<in> d_name ` set ds then Some (set_get st k) else None)"
  using assms
proof (induction ds)
  case (Cons d ds)
  have "CHR ''/'' \<notin> set (set_get st (d_name d))" using Cons.prems(2) by simp
  then have "takeWhile (\<lambda>c. c \<noteq> CHR ''/'') (set_get st (d_name d) @ CHR ''/'' # r) = set_get st (d_name d)
    \<and> tl (dropWhile (\<lambda>c. c \<noteq> CHR ''/'') (set_get st (d_name d) @ CHR ''/'' # r)) = r" for r
    by (induction "set_get st (d_name d)") (auto simp: takeWhile_append dropWhile_append dest: set_takeWhileD)
  with Cons show ?case by (auto simp: fun_eq_iff)
qed simp

lemma wide_parse_names: "map fst (wide_parse ds b) = map d_name ds"
  by (induction ds arbitrary: b) simp_all

lemma complete_value:
  assumes "complete_set (base_schema art) st" "d \<in> set (base_schema art)"
  shows "CHR ''/'' \<notin> set (set_get st (d_name d))" "length (set_get st (d_name d)) \<le> 40"
    "mget st (d_name d) = Some (set_get st (d_name d))"
proof -
  from assms obtain v where v: "v \<in> set (d_values d)" "mget st (d_name d) = Some (v_name v)"
    by (fastforce simp: complete_set_def)
  then show "mget st (d_name d) = Some (set_get st (d_name d))" by (simp add: set_get_def)
  from v(2) have "set_get st (d_name d) = v_name v" by (simp add: set_get_def)
  with v(1) assms(2) values_plain[of art] show "CHR ''/'' \<notin> set (set_get st (d_name d))" "length (set_get st (d_name d)) \<le> 40"
    by (auto simp: list_all_iff)
qed

lemma wide_config_back:
  assumes "complete_set (base_schema art) st"
  shows "mget (wide_parse (base_schema art) (wide_config art st)) = mget st"
proof
  fix k
  have d: "distinct (map d_name (base_schema art))" using base_schema_ok(2)[of art] by (simp add: wf_schema_def)
  have "mget (wide_parse (base_schema art) (wide_config art st)) k
      = (if k \<in> d_name ` set (base_schema art) then Some (set_get st k) else None)"
    unfolding wide_config_def using wide_parse_config[OF d, of st] complete_value(1)[OF assms] by simp
  also have "\<dots> = mget st k"
  proof (cases "k \<in> d_name ` set (base_schema art)")
    case True
    then show ?thesis using complete_value(3)[OF assms] by auto
  next
    case False
    then have "mget st k = None" using assms unfolding complete_set_def by (metis domIff)
    with False show ?thesis by simp
  qed
  finally show "mget (wide_parse (base_schema art) (wide_config art st)) k = mget st k" .
qed

lemma length_concat_le: "(\<And>x. x \<in> set xs \<Longrightarrow> length (f x) \<le> k) \<Longrightarrow> length (concat (map f xs)) \<le> length xs * k"
  by (induction xs) fastforce+

lemma wide_config_length:
  assumes "complete_set (base_schema art) st"
  shows "length (wide_config art st) \<le> 1640"
proof -
  have "length (wide_config art st) \<le> length (base_schema art) * 41"
    unfolding wide_config_def using complete_value(2)[OF assms] by (intro length_concat_le) fastforce
  also have "\<dots> \<le> 40 * 41" using values_plain[of art] by (intro mult_right_mono) auto
  finally show ?thesis by simp
qed

lemma wide_accepts: "length b \<le> 65536 \<Longrightarrow> json_accepts wide_lib b"
proof -
  have "tree_fits wide_lib 17 (JVal b)" by (simp add: numeral_eq_Suc)
  moreover have "gl_tokens wide_lib b = (tree_toks (JVal b), True)" by (simp add: wide_lib_def)
  ultimately show "length b \<le> 65536 \<Longrightarrow> json_accepts wide_lib b" unfolding json_accepts_def by blast
qed

lemma complete_set_cong: "mget a = mget b \<Longrightarrow> complete_set s a = complete_set s b"
  by (simp add: complete_set_def)

lemma wide_faithful: "json_faithful wide_lib"
  unfolding json_faithful_def
proof (intro conjI allI impI; (elim conjE)?)
  fix art c cb
  assume "gl_enc_config wide_lib art c = Inr cb"
  then have c: "cf_fields c = []" "complete_set (base_schema art) (cf_traits c)" "cb = wide_config art (cf_traits c)"
    by (auto simp: wide_lib_def split: if_splits)
  show "json_accepts wide_lib cb" using wide_config_length[OF c(2)] c(3) by (intro wide_accepts) simp
  have d: "distinct (map d_name (base_schema art))" using base_schema_ok(2)[of art] by (simp add: wf_schema_def)
  show "\<exists>c'. gl_dec_config wide_lib art cb = Inr c' \<and> wfm (cf_traits c') \<and> cf_fields c' = cf_fields c \<and> mget (cf_traits c') = mget (cf_traits c)"
    using c wide_config_back[OF c(2)] d by (simp add: wide_lib_def wfm_def wide_parse_names)
next
  fix art seed pal c cb b
  let ?e = "\<lambda>pal. \<lparr>e_version = 1, e_id = art, e_edition = ''1'', e_seed = format_uint seed, e_palette = pal, e_config = cb\<rparr>"
  assume "gl_enc_envelope wide_lib (?e pal) = Inr b"
  then have e: "no_bar art" "no_bar (format_uint seed)" "no_bar pal"
    "length (wide_envelope (?e pal)) \<le> max_recipe" "b = wide_envelope (?e pal)"
    by (auto simp: wide_lib_def split: if_splits)
  then have "json_accepts wide_lib b" by (intro wide_accepts) (simp add: max_recipe_def)
  moreover have "gl_dec_envelope wide_lib b = Inr (?e pal)"
    using e by (simp add: wide_lib_def wide_envelope_def no_bar_field)
  ultimately show "\<exists>pal'. gl_dec_envelope wide_lib b = Inr (?e pal')
      \<and> (by_name pal \<noteq> None \<or> by_name pal' \<noteq> None \<longrightarrow> pal' = pal \<and> json_accepts wide_lib b)" by blast
next
  fix art :: string and c c' :: config
  assume "cf_fields c' = cf_fields c" "mget (cf_traits c') = mget (cf_traits c)"
  then show "gl_enc_config wide_lib art c' = gl_enc_config wide_lib art c"
    using complete_set_cong[of "cf_traits c'" "cf_traits c"]
    by (simp add: wide_lib_def wide_config_def set_get_def)
qed

lemma format_nat_plain: "no_bar (format_nat n)"
proof -
  have d: "digit_char k \<noteq> CHR ''|''" if "k < 10" for k :: nat
    using digit_val_digit[OF that] by (auto simp: digit_val_def)
  show ?thesis
  proof (induction n rule: format_nat.induct)
    case (1 n)
    show ?case
    proof (cases "n < 10")
      case True
      then show ?thesis using d[of n] by (simp add: format_nat.simps[of n] no_bar_def)
    next
      case False
      with 1 d[of "n mod 10"] show ?thesis by (simp add: format_nat.simps[of n] no_bar_def)
    qed
  qed
qed

lemma format_nat_length: "n < 10 ^ Suc k \<Longrightarrow> length (format_nat n) \<le> Suc k"
proof (induction k arbitrary: n)
  case 0
  then show ?case by (simp add: format_nat.simps[of n])
next
  case (Suc k)
  show ?case
  proof (cases "n < 10")
    case False
    have "n div 10 < 10 ^ Suc k" using Suc.prems by simp
    from Suc.IH[OF this] False show ?thesis by (simp add: format_nat.simps[of n])
  qed (simp add: format_nat.simps[of n])
qed

lemma wide_encodes: "published art \<Longrightarrow> encodes wide_lib art"
  unfolding encodes_def
proof (intro allI impI, goal_cases)
  case (1 st)
  have pal: "no_bar pal \<and> length pal \<le> 40" if "pal \<in> co_id ` set colours" for pal
    using that by (auto simp: colours_def no_bar_def)
  have art: "no_bar art \<and> length art \<le> 5" using 1(1) by (auto simp: published_def no_bar_def)
  have seed: "no_bar (format_uint seed) \<and> length (format_uint seed) \<le> 20" for seed :: u64
  proof -
    have "unat seed < 2 ^ 64" using unsigned_less[of seed] by simp
    then show ?thesis using format_nat_plain format_nat_length[of "unat seed" 19] by (simp add: format_uint_def)
  qed
  have "length (wide_envelope \<lparr>e_version = 1, e_id = art, e_edition = ''1'', e_seed = format_uint seed,
      e_palette = pal, e_config = wide_config art st\<rparr>) \<le> max_recipe" if "pal \<in> co_id ` set colours" for seed pal
    using pal[OF that] art seed[of seed] wide_config_length[OF 1(2)] by (simp add: wide_envelope_def max_recipe_def)
  moreover have "length (wide_config art st) \<le> max_recipe" using wide_config_length[OF 1(2)] by (simp add: max_recipe_def)
  ultimately show ?case using pal art seed 1(2) by (simp add: wide_lib_def)
qed

end
