(* ===== verification/StudioLive.thy ===== *)
theory StudioLive
  imports StudioProps WideLib
begin

text \<open>
  Generation in \<open>internal/studio/studio.go\<close> succeeds when nothing stands in its way: planning never runs out
  of candidates, everything it draws can be published, and an idle manager admits the batch.
\<close>

section \<open>Planning succeeds\<close>

text \<open>The pins of every offered style and colour are public choices.\<close>

lemma valid_set_foldl:
  "valid_set s p \<Longrightarrow> valid_set s kvs \<Longrightarrow> valid_set s (foldl (\<lambda>p (k, v). mput k v p) p kvs)"
  using valid_set_lay_pins[of s kvs p] by (simp add: lay_pins_def)

lemma pins_valid:
  assumes p: "pins art sty col = Inr (p, pal)" and e: "get_entry art = Some e"
  shows "valid_set (map (space_dim art e) (base_schema art)) p" "pal = col" "col \<noteq> '''' \<Longrightarrow> col \<in> co_id ` set colours"
proof -
  let ?s = "map (space_dim art e) (base_schema art)"
  have cols: "en_colours e = colours" by (rule get_entry_cases(3)[OF e])
  from p e cols show "pal = col" "col \<noteq> '''' \<Longrightarrow> col \<in> co_id ` set colours"
    by (auto simp: pins_def Let_def list_ex_iff split: if_splits)
  have sty: "valid_set ?s (ch_pins st)" if "st \<in> set (en_styles e)" for st
  proof -
    have "e = pools_entry \<and> art = ''pools'' \<or> e = foam_entry \<and> art = ''foam'' \<or> e = iris_entry \<and> art = ''iris''"
      using get_entry_cases[OF e] by (auto simp: all_entries_def)
    with styles_available that have "list_all (choice_available ?s) (ch_pins st)"
      by (auto simp: choice_available_space base_schema_def list_all_iff)
    then show ?thesis by (simp add: valid_set_def choice_available_def list_all_iff split_def)
  qed
  have base: "valid_set ?s p0 \<Longrightarrow> (\<And>st. st \<in> set ss \<Longrightarrow> st \<in> set (en_styles e)) \<Longrightarrow>
      valid_set ?s (foldl (\<lambda>p s. foldl (\<lambda>p (k, v). mput k v p) p (ch_pins s)) p0 ss)" for p0 ss
    by (induction ss arbitrary: p0) (auto intro!: valid_set_foldl sty)
  have nil: "valid_set ?s []" by (simp add: valid_set_def)
  let ?p = "foldl (\<lambda>p s. foldl (\<lambda>p (k, v). mput k v p) p (ch_pins s)) []
     (if sty = '''' then [] else filter (\<lambda>s. ch_id s = sty) (en_styles e))"
  have p0: "valid_set ?s ?p" by (rule base[OF nil]) (auto split: if_splits)
  have "p = (if col \<noteq> '''' \<and> art \<noteq> ''iris'' then mput ''colourway'' col ?p else ?p)"
    using p e by (auto simp: pins_def Let_def split: if_splits)
  moreover have "valid_set ?s [(''colourway'', col)]" if "col \<in> co_id ` set colours" "art \<noteq> ''iris''"
  proof -
    have "art = ''pools'' \<or> art = ''foam''" using get_entry_cases(1)[OF e] that(2) by blast
    moreover have "list_all (\<lambda>c. space_has ''pools'' e pools_schema (''colourway'', co_id c)
        \<and> space_has ''foam'' e foam_schema (''colourway'', co_id c)) colours"
      using cols by (simp add: space_has_def pools_schema_def foam_schema_def space_value_def colours_def Let_def)
    ultimately have "choice_available ?s (''colourway'', col)"
      using that(1) by (auto simp: choice_available_space base_schema_def list_all_iff)
    then show ?thesis by (simp add: valid_set_def choice_available_def split: option.splits)
  qed
  ultimately show "valid_set ?s p"
    using p0 \<open>col \<noteq> '''' \<Longrightarrow> col \<in> co_id ` set colours\<close> valid_set_put by auto
qed

lemma map_res_live: "(\<And>x. x \<in> set xs \<Longrightarrow> \<exists>y. f x = Inr y) \<Longrightarrow> \<exists>ys. map_res f xs = Inr ys"
proof (induction xs)
  case (Cons x xs)
  obtain y where y: "f x = Inr y" using Cons.prems by auto
  obtain ys where "map_res f xs = Inr ys" using Cons by auto
  with y show ?case by (auto simp: res_simps)
qed simp

lemma plan_palettes:
  assumes "plan_parents different sel (v_samples (x_view x)) = Inr (ps, pals)" "mget pals k = Some p"
  shows "\<exists>a\<in>set (v_samples (x_view x)). p = r_pal (sa_recipe a)"
proof -
  have loop: "mget (foldl (\<lambda>p a. mput (seed_of a) (r_pal (sa_recipe a)) p) m as) k = Some p \<Longrightarrow>
      (\<exists>a\<in>set as. p = r_pal (sa_recipe a)) \<or> mget m k = Some p" for m as
    by (induction as arbitrary: m) (fastforce simp: map_simps split: if_splits)+
  show ?thesis
    using assms loop[of "[]"] by (auto simp: plan_parents_def Let_def split: if_splits) fastforce
qed

lemma plan_round_live:
  assumes J: "json_faithful L" and E: "ev_lib E = L" "ev_entropy E = Inr seed" and ok: "expl_ok L T i x"
    and e: "get_entry (v_artwork (x_view x)) = Some e" and enc: "encodes L (v_artwork (x_view x))"
    and pins: "pins (v_artwork (x_view x)) (v_style (x_view x)) (v_colour (x_view x)) = Inr pp"
    and sel: "length sel \<le> 1" "\<And>sid. sid \<in> set sel \<Longrightarrow> sid \<in> sa_id ` set (v_samples (x_view x))"
  shows "\<exists>p. plan_round E x sel different = Inr p"
proof -
  let ?art = "v_artwork (x_view x)" and ?s = "map (space_dim (v_artwork (x_view x)) e) (base_schema (v_artwork (x_view x)))"
  note fit = sample_fits[OF ok _ e] and dis = expl_okD(8)[OF ok]
  have cols: "en_colours e = colours" by (rule get_entry_cases(3)[OF e])
  obtain ps pals where ps: "plan_parents different sel (v_samples (x_view x)) = Inr (ps, pals)"
    using sel(2) by (fastforce simp: plan_parents_def list_ex_iff Let_def)
  have ps': "ps = (if different then [] else map parent_of (selected_samples x sel))"
    using plan_parents_Inr[OF ps sel(1)] by blast
  obtain pin pal sty col where dir: "plan_direction (x_view x) sel = Inr ((pin, pal), sty, col)"
  proof -
    obtain dd where "plan_direction (x_view x) sel = Inr dd" using pins by (simp add: plan_direction_def)
    then show thesis using that by (cases dd) (metis surj_pair)
  qed
  have d: "valid_set ?s pin \<and> wfm pin \<and> (pal \<noteq> '''' \<longrightarrow> pal \<in> co_id ` set colours)"
    using dir dis
  proof (cases rule: plan_direction_Inr)
    case free
    then show ?thesis using pins_valid[OF free(2) e] pins_wfm[OF free(2)] by auto
  next
    case (chosen a)
    then show ?thesis using fit[of a] cols by auto
  qed
  have v: "schema_validate ?s = None" "\<forall>d\<in>set ?s. real_dim d" using space_validates[OF e] space_schema_real by auto
  have "length ps \<le> 4" using ps' selected_short[OF dis, of sel] by simp
  moreover have "\<forall>q\<in>set ps. valid_set ?s (c_traits q) \<and> length (c_traits q) = length ?s"
    using ps' fit selected_member by (auto simp: parent_of_def)
  moreover have "length (map seed_of (v_samples (x_view x))) \<le> 124" using expl_okD(7)[OF ok] by simp
  ultimately obtain cs where cs: "public ?s pin ps seed (x_round x) (map seed_of (v_samples (x_view x))) = Some (Inr cs)"
    "\<forall>c\<in>set cs. complete_set ?s (c_traits c)"
    using public_spec[OF v(2,1), of pin ps "map seed_of (v_samples (x_view x))" "x_round x" seed] d expl_okD(3)[OF ok] by blast
  have "\<exists>r. publish_complete L ?art (c_seed c) (sample_palette e pal pals c) (c_traits c) = Inr r" if "c \<in> set cs" for c
  proof (rule complete_offered[OF J enc e])
    show "complete_set ?s (c_traits c)" using cs(2) that by blast
    have "p \<in> co_id ` set colours" if "mget pals (c_parent c) = Some p" for p
      using plan_palettes[OF ps that] fit(5) cols by auto
    moreover have "unat (c_seed c mod of_nat (length colours)) < length colours"
      by (simp add: colours_def unat_mod) 
    ultimately show "sample_palette e pal pals c \<in> co_id ` set (en_colours e)"
      using d cols by (auto simp: sample_palette_def Let_def split: option.splits)
  qed
  then obtain rs where rs:
    "map_res (\<lambda>c. publish_complete L ?art (c_seed c) (sample_palette e pal pals c) (c_traits c)) cs = Inr rs"
    using map_res_live[of cs "\<lambda>c. publish_complete L ?art (c_seed c) (sample_palette e pal pals c) (c_traits c)"] by blast
  show ?thesis
    using ps dir E e cs(1) rs by (simp add: plan_round_def space_eq Let_def)
qed

section \<open>Generation succeeds\<close>

text \<open>The requests of a round are valid for the manager of the same release.\<close>

lemma public_revalidates:
  assumes J: "json_faithful L" and r: "public_recipe L r"
  shows "\<exists>r'. publish_validate L (r_canonical r) = Inr r' \<and> r_id r' = r_id r \<and> r_canonical r' = r_canonical r"
proof -
  from r obtain raw where v: "publish_validate L raw = Inr r" by (auto simp: public_recipe_def)
  from validate_public[OF v] obtain e sch clean where
    c: "complete_raw L (r_id r) (parse_uint_value (r_seed r)) (r_pal r) (r_traits r) = Inr clean"
    "r_canonical clean = r_canonical r" and e: "get_entry (r_id r) = Some e" "space L (r_id r) = Inr sch"
    "complete_set sch (r_traits r)" "r_pal r \<in> co_id ` set (en_colours e)" by blast
  have d: "decode L raw = Inr r" using v by (auto simp: publish_validate_def res_simps Let_def split: if_splits)
  note s0 = complete_raw_spec[OF J c(1) decode_traits[OF d]]
  have small: "length (r_canonical r) \<le> 16384" using validate_small[OF J r] by (simp add: max_recipe_def)
  from decode_fixpoint[OF J d small] obtain r' where r': "decode L (r_canonical r) = Inr r'" "r_canonical r' = r_canonical r"
    "r_id r' = r_id r" "r_seed r' = r_seed r" "r_pal r' = r_pal r" "mget (r_traits r') = mget (r_traits r)" by auto
  have w: "wfm (r_traits r')" by (rule decode_traits_wfm[OF r'(1)])
  have dis: "distinct (map d_name sch)" using space_schema_wf[OF e(1)] e(1,2) by (auto simp: space_eq wf_schema_def)
  have av: "list_all (choice_available sch) (r_traits r')"
    using valid_set_complete[OF e(3) dis w r'(6)] by (simp add: valid_set_def choice_available_def list_all_iff split_def)
  have "complete_raw L (r_id r) (parse_uint_value (r_seed r)) (r_pal r) (r_traits r') = Inr clean"
  proof -
    have "encoded (r_id r) \<lparr>cf_traits = r_traits r, cf_fields = []\<rparr>"
      using get_entry_published[OF e(1)] decode_traits[OF d] by (simp add: encoded_def)
    from json_faithfulD(3)[OF J this, of "\<lparr>cf_traits = r_traits r', cf_fields = []\<rparr>"] r'(6)
    have "gl_enc_config L (r_id r) \<lparr>cf_traits = r_traits r', cf_fields = []\<rparr> = gl_enc_config L (r_id r) \<lparr>cf_traits = r_traits r, cf_fields = []\<rparr>"
      by simp
    then have "new_recipe L (r_id r) sd p \<lparr>cf_traits = r_traits r', cf_fields = []\<rparr> = new_recipe L (r_id r) sd p \<lparr>cf_traits = r_traits r, cf_fields = []\<rparr>"
      for sd p by (simp only: new_recipe_def)
    moreover have "set_get (r_traits r') k = set_get (r_traits r) k" for k using r'(6) by (simp add: set_get_def)
    ultimately show ?thesis using c(1) by (simp only: complete_raw_def)
  qed
  then show ?thesis
    using r' e av c(2) by (auto simp: publish_validate_def Let_def list_ex_iff)
qed

lemma preview_valid:
  assumes J: "json_faithful L" and r: "public_recipe L r" and b: "build \<noteq> ''''"
  shows "request_validate L (preview_request build r) build = None"
    "\<exists>i. request_id L build (preview_request build r) = Inr i"
proof -
  obtain r' where r': "publish_validate L (r_canonical r) = Inr r'" "r_id r' = r_id r" using public_revalidates[OF J r] by blast
  obtain e where "get_entry (r_id r) = Some e" by (rule public_recipe_traits[OF r])
  then have t: "\<exists>t. tier (r_id r') ''preview'' = Inr t" using r'(2) by (simp add: tier_def)
  with r' b show "request_validate L (preview_request build r) build = None"
    by (auto simp: request_validate_def preview_request_def)
  then show "\<exists>i. request_id L build (preview_request build r) = Inr i"
    using r' t by (auto simp: request_id_def preview_request_def)
qed

lemma generate_succeeds:
  assumes ok: "store_ok L tok (mgr_inv L) s" and env: "env_ok L tok E" and ent: "ev_entropy E = Inr seed"
    and input: "length aid = 48" "list_all is_hex aid" "length sel \<le> 1"
    and f: "studio_find E J token i s = (s1, Inr x)" and idle: "\<not> v_active (snapshot J token (so_queue s1) x)"
    and new: "find (\<lambda>a. ac_id a = aid) (x_actions x) = None"
    and sel: "\<And>sid. sid \<in> set sel \<Longrightarrow> sid \<in> sa_id ` set (v_samples (x_view x))"
    and pins: "pins (v_artwork (x_view x)) (v_style (x_view x)) (v_colour (x_view x)) = Inr pp"
    and enc: "encodes L (v_artwork (x_view x))" and room: "recipe_bytes s1 + 4 * 16384 \<le> 33554432"
    and q: "so_queue s1 = Some q" and okx: "expl_ok L T i x"
    and adm: "\<And>rs. length rs = 4 \<Longrightarrow> (\<And>r. r \<in> set rs \<Longrightarrow> public_recipe L r) \<Longrightarrow>
      \<exists>q' jobs. ja_admit J token (map (preview_request (so_build s1)) rs) q = (q', Inr jobs)"
  shows "\<exists>s' b. studio_generate E J token i (v_revision (x_view x)) aid sel different s = (s', Inr b)"
proof -
  obtain e where e: "get_entry (v_artwork (x_view x)) = Some e" using pins by (auto simp: pins_def split: option.splits)
  obtain p where p: "plan_round E x sel different = Inr p"
    using plan_round_live[OF env_okD(3)[OF env] env_okD(1)[OF env] ent okx e enc pins input(3) sel] by blast
  note pr = plan_round_recipes[OF env okx input(3) p]
  obtain q' jobs where a: "ja_admit J token (map (preview_request (so_build s1)) (pl_recipes p)) q = (q', Inr jobs)"
    using adm[OF pr(1)] pr(2) by blast
  have d: "distinct sel" using input(3) by (cases sel) auto
  show ?thesis
    using d input f idle new q p a pr(1) room by (simp add: studio_generate_def generate_def Let_def)
qed

text \<open>
  A manager with room for the owner: it is enabled and running, four more jobs fit the queue and the table,
  the owner has no unfinished job of its own, and no job has all its subscribers. Other visitors' jobs,
  settled jobs and cached images may be there. Such a manager admits any batch of valid requests.
\<close>

definition room :: "string \<Rightarrow> mgr \<Rightarrow> bool" where
  "room owner m \<longleftrightarrow> m_enabled m \<and> \<not> m_stopped m \<and> queued_count m + 4 \<le> c_queue (m_cfg m)
     \<and> owned_count owner m = 0 \<and> length (m_jobs m) + 4 \<le> 5000
     \<and> list_all (\<lambda>(i, j). \<not> full_for owner j) (m_jobs m)"

lemma evicts_jobs: "evicts m m' \<Longrightarrow> m_jobs m' = m_jobs m"
  by (induction rule: evicts.induct) (simp_all add: forget_def)

lemma prune_jobs_of: "\<exists>P. m_jobs (prune io now m) = filter P (m_jobs m)"
  using prune_evicts[of m now io] by (auto simp: prune_jobs_def dest!: evicts_jobs)

lemma room_prune:
  assumes inv: "mgr_inv L m" and r: "room owner m"
  shows "room owner (filter_queue (prune io now m))"
proof -
  let ?m = "filter_queue (prune io now m)"
  obtain P where P: "m_jobs ?m = filter P (m_jobs m)" using prune_jobs_of[of io now m] by auto
  have "queued_count ?m \<le> queued_count m" "owned_count owner ?m \<le> owned_count owner m" "0 \<le> owned_count owner ?m"
    unfolding queued_count_def owned_count_def P by (rule cnt_filter_le, rule cnt_filter_le, simp add: cnt_def)
  moreover have "length (m_jobs ?m) \<le> length (m_jobs m)" by (simp only: P length_filter_le)
  moreover have "list_all (\<lambda>(i, j). \<not> full_for owner j) (m_jobs ?m)"
    using r unfolding P by (auto simp: room_def list_all_iff)
  moreover have "m_cfg ?m = m_cfg m" "m_enabled ?m = m_enabled m" "m_stopped ?m = m_stopped m"
    using settles_prune[OF inv, of io now] by (simp_all add: settles_def)
  ultimately show ?thesis using r by (simp add: room_def)
qed

lemma survey_live:
  assumes "wfm (m_jobs m)" "list_all (\<lambda>(i, j). \<not> full_for owner j) (m_jobs m)"
  shows "\<exists>fa. admit_survey m owner is (f, a) = Inr fa"
proof -
  have "mget (m_jobs m) i = Some j \<Longrightarrow> \<not> full_for owner j" for i j
    using assms gm.entry_iff[OF assms(1)] by (fastforce simp: list_all_iff)
  then show ?thesis by (induction "is" arbitrary: f a) (auto split: option.splits)
qed

lemma room_admits:
  assumes inv: "mgr_inv L m" and v: "room owner m" and owner: "1 \<le> length owner" "length owner \<le> 64"
    and qs: "1 \<le> length qs" "length qs \<le> 4" and ids: "map_res (request_id L (c_build (m_cfg m))) qs = Inr ids"
  shows "\<exists>m'. admit L io now owner qs m = (m', Inr ids)"
proof -
  let ?m = "filter_queue (prune io now m)"
  note pre = admit_prep_inv[OF inv, of io now]
  have r: "room owner ?m" by (rule room_prune[OF inv v])
  have w: "wfm (m_jobs ?m)" using pre(1) by (simp add: mgr_inv_def inv_jobs_def)
  have len: "length ids = length qs" by (rule map_res_length[OF ids])
  obtain fresh added where sv: "admit_survey ?m owner ids ([], []) = Inr (fresh, added)"
    using survey_live[OF w, of owner ids "[]" "[]"] r by (fastforce simp: room_def)
  note S = admit_survey_Inr[OF sv, simplified]
  have c: "length fresh = card (fresh_ids ?m ids)" "length added = card (added_ids ?m owner ids)"
    using S distinct_card[of fresh] distinct_card[of added] by simp_all
  have "fresh_ids ?m ids \<inter> added_ids ?m owner ids = {}"
    by (auto simp: fresh_ids_def added_ids_def needs_job_def gains_def split: option.splits)
  then have "card (fresh_ids ?m ids) + card (added_ids ?m owner ids) = card (fresh_ids ?m ids \<union> added_ids ?m owner ids)"
    by (intro card_Un_disjoint[symmetric]) (simp_all add: fresh_ids_def added_ids_def)
  also have "\<dots> \<le> card (set ids)" by (intro card_mono) (auto simp: fresh_ids_def added_ids_def)
  finally have f4: "card (fresh_ids ?m ids) + card (added_ids ?m owner ids) \<le> 4" using card_length[of ids] len qs by simp
  have z: "map fst (zip ids qs) = ids" "length (zip ids qs) = length ids" using len by simp_all
  have "\<exists>m'. admit_apply now owner (zip ids qs) ?m = (m', None) \<and> mgr_inv L m' \<and> queue_live m'
    \<and> keeps_live ?m m' \<and> (\<forall>i\<in>fst ` set (zip ids qs). served m' owner i)"
  proof (rule admit_apply_inv[OF pre])
    show "\<forall>i\<in>fst ` set (zip ids qs). roomy ?m owner i" using S z(1) by (metis list.set_map)
  qed (use r f4 z len qs in \<open>simp_all add: room_def\<close>)
  then obtain m2 where m2: "admit_apply now owner (zip ids qs) ?m = (m2, None)" by blast
  have small: "\<not> (length owner < 1 \<or> length owner > 64 \<or> length qs < 1 \<or> length qs > 4)" using owner qs by auto
  have fits: "\<not> (queued_count ?m + int (length fresh) > c_queue (m_cfg ?m)
      \<or> owned_count owner ?m + int (length fresh) + int (length added) > 4 \<or> length (m_jobs ?m) + length ids > 5000)"
    using r c f4 len qs by (simp add: room_def)
  have on: "\<not> (\<not> m_enabled ?m \<or> m_stopped ?m)" using r by (simp add: room_def)
  show ?thesis
    unfolding admit_def if_not_P[OF small] ids Let_def sum.case if_not_P[OF on] sv prod.case if_not_P[OF fits] m2 by simp
qed

section \<open>Properties\<close>

text \<open>C33: everything the catalogue offers can be completed and published.\<close>
theorem offers_are_publishable:
  assumes "json_faithful L" "encodes L art" "get_entry art = Some e" "space L art = Inr sch" "complete_set sch st"
    "pal \<in> co_id ` set (en_colours e)"
  shows "\<exists>r. publish_complete L art seed pal st = Inr r \<and> publish_validate L (r_canonical r) = Inr r
    \<and> r_id r = art \<and> r_seed r = format_uint seed \<and> mget (r_traits r) = mget st"
proof -
  have sch: "sch = map (space_dim art e) (base_schema art)" using assms(3,4) by (simp add: space_eq)
  note st = assms(5)[unfolded sch]
  obtain r where r: "publish_complete L art seed pal st = Inr r"
    using complete_offered[OF assms(1-3) st assms(6)] by blast
  note sp = publish_complete_spec(1)[OF assms(1) r complete_space_base[OF st]]
  from r obtain r0 where r0: "complete_raw L art seed pal st = Inr r0" "publish_validate L (r_canonical r0) = Inr r"
    by (auto simp: publish_complete_def res_simps)
  from r0(1) obtain b where b: "decode L b = Inr r0"
    by (auto simp: complete_raw_def new_recipe_def res_simps Let_def split: if_splits)
  have "length (r_canonical r0) \<le> 16384"
    using complete_raw_spec[OF assms(1) r0(1) complete_space_base[OF st]] by (simp add: max_recipe_def)
  from decode_fixpoint[OF assms(1) b this] r0(2) have "r_canonical r = r_canonical r0"
    by (auto simp: publish_validate_def res_simps Let_def split: if_splits)
  with r0(2) r sp show ?thesis by auto
qed

lemma demo_traits_complete: "complete_set (map (space_dim ''iris'' iris_entry) (base_schema ''iris'')) demo_traits"
proof -
  obtain s0 where s0: "iris_new = Some s0" "sketch_schema s0 = iris_schema" using iris_new_ok by blast
  from validate_public[OF demo_validate] show ?thesis by (auto simp: demo_recipe_def space_eq)
qed

theorem offers_are_publishable_witness:
  "\<exists>r. publish_complete wide_lib ''iris'' 42 ''hopper-night-windows'' demo_traits = Inr r \<and> r_id r = ''iris''"
proof -
  have sp: "space wide_lib ''iris'' = Inr (map (space_dim ''iris'' iris_entry) (base_schema ''iris''))" by (simp add: space_eq)
  have pal: "''hopper-night-windows'' \<in> co_id ` set (en_colours iris_entry)" by (simp add: colours_def)
  have pub: "published ''iris''" by (simp add: published_def)
  from offers_are_publishable[OF wide_faithful wide_encodes[OF pub] get_entry_simps(3) sp demo_traits_complete pal, of 42]
  show ?thesis by blast
qed

text \<open>A session with one restored image, over the library that encodes everything.\<close>

definition wide_env :: studio_env where
  "wide_env = (demo_env 0)\<lparr>ev_lib := wide_lib\<rparr>"

definition wide_exploration :: "recipe \<Rightarrow> exploration" where
  "wide_exploration r = with_samples [restored_sample (demo_tok 3) r] (new_exploration (demo_tok 2) ''iris'' '''' '''')"

definition wide_store :: "recipe \<Rightarrow> mgr store" where
  "wide_store r = demo_store\<lparr>so_workspaces :=
     [(demo_tok 0, demo_workspace\<lparr>ws_explorations := [(demo_tok 2, wide_exploration r)]\<rparr>)],
     so_queue := Some demo_queued\<rparr>"

lemma wide_env_ok: "env_ok wide_lib demo_tok wide_env"
  using env_okD(4)[OF demo_env_ok[of 0]] wide_faithful by (simp add: env_ok_def wide_env_def)

lemma wide_env_now [simp]: "ev_now wide_env = 0"
  by (simp add: wide_env_def)

lemma wide_store_ok:
  assumes "public_recipe wide_lib r" "r_id r = ''iris''"
  shows "store_ok wide_lib demo_tok (mgr_inv wide_lib) (wide_store r)"
proof -
  have "length (r_canonical r) \<le> max_recipe" by (rule validate_small[OF wide_faithful assms(1)])
  moreover have "mgr_inv wide_lib demo_queued"
    using reachable_mgr_inv[OF demo_reachable(2)] by (simp add: mgr_inv_def inv_disk_def demo_states)
  ultimately show ?thesis
    using assms by (simp add: store_ok_def studio_inv_def wide_store_def demo_store_def recipe_bytes_def ws_ok_def
        expl_ok_def wide_exploration_def with_samples_def new_exploration_def restored_sample_def demo_workspace_def
        count_favourites_def drawn_def max_recipe_def)
qed

lemma wide_store_find: "studio_find wide_env J (demo_tok 0) (demo_tok 2) (wide_store r) = (wide_store r, Inr (wide_exploration r))"
  by (simp add: studio_find_def studio_workspace_def studio_prune_def wide_store_def demo_store_def demo_workspace_def Let_def)

lemma wide_public: "\<exists>r. public_recipe wide_lib r \<and> r_id r = ''iris''"
proof -
  have "''hopper-night-windows'' \<in> co_id ` set (en_colours iris_entry)" by (simp add: colours_def)
  then obtain r where r: "publish_complete wide_lib ''iris'' 42 ''hopper-night-windows'' demo_traits = Inr r"
    using complete_offered[OF wide_faithful wide_encodes _ demo_traits_complete] by (auto simp: published_def)
  from publish_complete_spec(1)[OF wide_faithful r complete_space_base[OF demo_traits_complete]] show ?thesis by blast
qed

lemma idle_generates:
  assumes "store_ok L tok (mgr_inv L) s" "env_ok L tok E" "ev_entropy E = Inr seed"
    "length aid = 48" "list_all is_hex aid" "sel = [] \<or> (\<exists>a\<in>set (v_samples (x_view x)). sel = [sa_id a])"
    "studio_find E (manager_jobs L io (ev_now E)) token i s = (s1, Inr x)"
    "\<not> v_active (snapshot (manager_jobs L io (ev_now E)) token (so_queue s1) x)"
    "find (\<lambda>a. ac_id a = aid) (x_actions x) = None"
    "pins (v_artwork (x_view x)) (v_style (x_view x)) (v_colour (x_view x)) = Inr pp" "encodes L (v_artwork (x_view x))"
    "recipe_bytes s1 + 4 * 16384 \<le> 33554432" "so_queue s1 = Some m" "room token m"
    "c_build (m_cfg m) = so_build s1" "so_build s1 \<noteq> ''''" "1 \<le> length token" "length token \<le> 64"
  shows "\<exists>s' b. studio_generate E (manager_jobs L io (ev_now E)) token i (v_revision (x_view x)) aid sel different s = (s', Inr b)"
proof -
  note fx = mq.find_exploration[OF assms(7,1)]
  have J: "json_faithful L" by (rule env_okD(3)[OF assms(2)])
  have inv: "mgr_inv L m" by (rule store_okD(3)[OF fx(1) assms(13)])
  have adm: "\<exists>q' jobs. ja_admit (manager_jobs L io (ev_now E)) token (map (preview_request (so_build s1)) rs) m = (q', Inr jobs)"
    if "length rs = 4" "\<And>r. r \<in> set rs \<Longrightarrow> public_recipe L r" for rs
  proof -
    have "\<exists>i. request_id L (c_build (m_cfg m)) q = Inr i" if "q \<in> set (map (preview_request (so_build s1)) rs)" for q
      using that preview_valid(2)[OF J _ assms(16)] \<open>\<And>r. r \<in> set rs \<Longrightarrow> public_recipe L r\<close> assms(15) by auto
    then obtain ids where ids:
      "map_res (request_id L (c_build (m_cfg m))) (map (preview_request (so_build s1)) rs) = Inr ids"
      using map_res_live[of "map (preview_request (so_build s1)) rs" "request_id L (c_build (m_cfg m))"] by blast
    have "1 \<le> length (map (preview_request (so_build s1)) rs)" "length (map (preview_request (so_build s1)) rs) \<le> 4"
      using that(1) by simp_all
    from room_admits[where io=io and now="ev_now E", OF inv assms(14,17,18) this ids] show ?thesis by auto
  qed
  have sel: "length sel \<le> 1" "\<And>sid. sid \<in> set sel \<Longrightarrow> sid \<in> sa_id ` set (v_samples (x_view x))" using assms(6) by auto
  show ?thesis
    by (rule generate_succeeds[OF assms(1-5) sel(1) assms(7-9) sel(2) assms(10-13) fx(3) adm])
qed

text \<open>The manager holds the queued job of another visitor.\<close>

lemma demo_room: "room (demo_tok 0) demo_queued"
  by (simp add: room_def queued_count_def owned_count_def demo_states full_for_def subscribed_def active_def demo_tok_def)

lemma wide_exploration_fields:
  "v_samples (x_view (wide_exploration r)) = [restored_sample (demo_tok 3) r]" "v_artwork (x_view (wide_exploration r)) = ''iris''"
  "v_style (x_view (wide_exploration r)) = ''''" "v_colour (x_view (wide_exploration r)) = ''''"
  "x_actions (wide_exploration r) = []" "v_revision (x_view (wide_exploration r)) = 0"
  by (simp_all add: wide_exploration_def with_samples_def new_exploration_def)

lemma wide_queue: "so_queue (wide_store r) = Some demo_queued" "so_build (wide_store r) = ''b1''"
  by (simp_all add: wide_store_def demo_store_def)

lemma wide_store_exploration: "exploration_of (wide_store r) (demo_tok 0) (demo_tok 2) = Some (wide_exploration r)"
  by (simp add: exploration_of_def wide_store_def demo_store_def demo_workspace_def)

lemma wide_idle: "\<not> v_active (snapshot (manager_jobs L demo_io now) (demo_tok 0) (so_queue (wide_store r)) (wide_exploration r))"
  by (simp add: wide_queue snapshot_def wide_exploration_fields snap_sample_def restored_sample_def status_of_def demo_states subscribed_def demo_tok_def
      unfinished_def in_state_def Let_def)

lemma wide_small: "public_recipe wide_lib r \<Longrightarrow> recipe_bytes (wide_store r) + 4 * 16384 \<le> 33554432"
  using validate_small[OF wide_faithful]
  by (fastforce simp: recipe_bytes_def wide_store_def demo_store_def wide_exploration_fields restored_sample_def max_recipe_def)

lemma demo_aid_ok: "length demo_aid = 48" "list_all is_hex demo_aid"
  by (simp_all add: demo_aid_def list_all_iff is_hex_def)

lemma wide_generate:
  assumes r: "public_recipe wide_lib r" "r_id r = ''iris''" and sel: "sel = [] \<or> sel = [demo_tok 3]"
  shows "\<exists>s' b. studio_generate wide_env (manager_jobs wide_lib demo_io (ev_now wide_env)) (demo_tok 0) (demo_tok 2)
    0 demo_aid sel False (wide_store r) = (s', Inr b)"
proof -
  let ?x = "wide_exploration r" and ?J = "manager_jobs wide_lib demo_io (ev_now wide_env)"
  note x = wide_exploration_fields[of r]
  obtain pp where p: "pins ''iris'' '''' '''' = Inr pp" by (auto simp: pins_def Let_def)
  have "\<exists>s' b. studio_generate wide_env ?J (demo_tok 0) (demo_tok 2) (v_revision (x_view ?x)) demo_aid sel False (wide_store r) = (s', Inr b)"
    by (rule idle_generates[OF wide_store_ok[OF r] wide_env_ok _ demo_aid_ok _ wide_store_find wide_idle _ _ _ wide_small[OF r(1)]])
      (use x p sel demo_room wide_encodes[of "''iris''"] wide_queue in
        \<open>auto simp: published_def wide_env_def demo_env_def demo_states demo_tok_def restored_sample_def\<close>)
  then show ?thesis by (simp add: x)
qed

text \<open>C16: a visitor whose exploration is idle gets a batch, whatever other visitors have in the manager, as
  long as it has room: it is enabled, four more jobs fit the queue and the table, the visitor has no
  unfinished job and no job is at its limit of subscribers. Generation fails for no other reason.\<close>
theorem generate_live:
  assumes "store_ok L tok (mgr_inv L) s" "env_ok L tok E" "ev_entropy E = Inr seed"
    "length aid = 48" "list_all is_hex aid" "sel = [] \<or> (\<exists>a\<in>set (v_samples (x_view x)). sel = [sa_id a])"
    "studio_find E (manager_jobs L io (ev_now E)) token i s = (s1, Inr x)"
    "\<not> v_active (snapshot (manager_jobs L io (ev_now E)) token (so_queue s1) x)"
    "find (\<lambda>a. ac_id a = aid) (x_actions x) = None"
    "pins (v_artwork (x_view x)) (v_style (x_view x)) (v_colour (x_view x)) = Inr pp" "encodes L (v_artwork (x_view x))"
    "recipe_bytes s1 + 4 * 16384 \<le> 33554432" "so_queue s1 = Some m" "room token m"
    "c_build (m_cfg m) = so_build s1" "so_build s1 \<noteq> ''''" "1 \<le> length token" "length token \<le> 64"
  shows "\<exists>s' b. studio_generate E (manager_jobs L io (ev_now E)) token i (v_revision (x_view x)) aid sel different s = (s', Inr b)"
  by (rule idle_generates[OF assms])

theorem generate_live_witness:
  "\<exists>r s' b. studio_generate wide_env (manager_jobs wide_lib demo_io 0) (demo_tok 0) (demo_tok 2) 0 demo_aid [demo_tok 3] False
     (wide_store r) = (s', Inr b)"
proof -
  obtain r where r: "public_recipe wide_lib r" "r_id r = ''iris''" using wide_public by blast
  let ?x = "wide_exploration r" and ?J = "manager_jobs wide_lib demo_io (ev_now wide_env)"
  note x = wide_exploration_fields[of r]
  obtain pp where p: "pins ''iris'' '''' '''' = Inr pp" by (auto simp: pins_def Let_def)
  have "\<exists>s' b. studio_generate wide_env ?J (demo_tok 0) (demo_tok 2) (v_revision (x_view ?x)) demo_aid [demo_tok 3] False (wide_store r) = (s', Inr b)"
    by (rule generate_live[OF wide_store_ok[OF r] wide_env_ok _ demo_aid_ok _ wide_store_find wide_idle _ _ _ wide_small[OF r(1)]])
      (use x p demo_room wide_encodes[of "''iris''"] wide_queue in
        \<open>auto simp: published_def wide_env_def demo_env_def demo_states demo_tok_def restored_sample_def\<close>)
  then show ?thesis using x by auto
qed

theorem generate_new_batch_witness:
  "\<exists>r s' b x'. studio_generate wide_env (manager_jobs wide_lib demo_io 0) (demo_tok 0) (demo_tok 2) 0 demo_aid [] False
       (wide_store r) = (s', Inr b)
     \<and> exploration_of s' (demo_tok 0) (demo_tok 2) = Some x' \<and> length (newest x') = 4 \<and> distinct (map seed_of (newest x'))"
proof -
  obtain r where r: "public_recipe wide_lib r" "r_id r = ''iris''" using wide_public by blast
  obtain s' b where g: "studio_generate wide_env (manager_jobs wide_lib demo_io (ev_now wide_env)) (demo_tok 0) (demo_tok 2)
    0 demo_aid [] False (wide_store r) = (s', Inr b)" using wide_generate[OF r, of "[]"] by blast
  from generate_new_batch[OF wide_store_ok[OF r] wide_env_ok g] wide_store_exploration[of r] wide_exploration_fields[of r]
  have "\<exists>x'. exploration_of s' (demo_tok 0) (demo_tok 2) = Some x' \<and> length (newest x') = 4 \<and> distinct (map seed_of (newest x'))"
    by (auto simp: round_done_def)
  with g show ?thesis by auto
qed

theorem generate_similar_witness:
  "\<exists>r s' b x'. studio_generate wide_env (manager_jobs wide_lib demo_io 0) (demo_tok 0) (demo_tok 2) 0 demo_aid [demo_tok 3] False
       (wide_store r) = (s', Inr b)
     \<and> exploration_of s' (demo_tok 0) (demo_tok 2) = Some x' \<and> length (newest x') = 4
     \<and> list_all (\<lambda>c. mget (r_traits (sa_recipe c)) = mget (r_traits r) \<and> r_pal (sa_recipe c) = r_pal r) (newest x')"
proof -
  obtain r where r: "public_recipe wide_lib r" "r_id r = ''iris''" using wide_public by blast
  let ?a = "restored_sample (demo_tok 3) r"
  have a: "sa_id ?a = demo_tok 3" "sa_recipe ?a = r" by (simp_all add: restored_sample_def)
  obtain s' b where g: "studio_generate wide_env (manager_jobs wide_lib demo_io (ev_now wide_env)) (demo_tok 0) (demo_tok 2)
    0 demo_aid [sa_id ?a] False (wide_store r) = (s', Inr b)" using wide_generate[OF r, of "[demo_tok 3]"] a by auto
  have m: "?a \<in> set (v_samples (x_view (wide_exploration r)))" "find (\<lambda>c. ac_id c = demo_aid) (x_actions (wide_exploration r)) = None"
    using wide_exploration_fields[of r] by simp_all
  from generate_similar[OF wide_store_ok[OF r] wide_env_ok g wide_store_exploration m] g a show ?thesis by (auto simp: list_all_iff)
qed

end
