(* ===== verification/DurableProps.thy ===== *)
theory DurableProps
  imports DurableFence StudioLive
begin

text \<open>
  What the durable deployment promises: an image that the database points to can be read, the tables stay
  within their limits, a cancelled request is never published by an attempt that still runs, an admission
  gives every request a live job or a retained image, the stored form of a workspace loses nothing, and an
  undisturbed attempt publishes. Each property has its witness.
\<close>

section \<open>Images stay readable\<close>

text \<open>C9: in every reachable state of the deployment, with web processes, workers, maintenance runs and River
  interleaved in any order, and with faults, lost commits and retries, an artifact row points to an object whose
  bytes have the recorded digest and size, so a read of the bucket succeeds; its upload is published and belongs
  to the same request, and no maintenance run is about to delete the object.\<close>

theorem artifacts_readable:
  assumes "durable_reachable L w" and "mget (db_artifacts (wd_db w)) i = Some a"
  shows "\<exists>b u. object_get L None (da_key a) (da_digest a) (da_size a) (wd_objects w) = Inr b
    \<and> mget (db_uploads (wd_db w)) (da_key a) = Some u \<and> du_state u = UPublished \<and> du_request u = i
    \<and> (\<forall>p\<in>set (wd_runs w). da_key a \<notin> doomed p)"
proof -
  have inv: "storage_ok L w" by (rule reachable_storage[OF assms(1)])
  obtain u b t where u: "mget (db_uploads (wd_db w)) (da_key a) = Some u" "du_state u = UPublished" "du_request u = i"
    and b: "mget (wd_objects w) (da_key a) = Some (b, t)" "int (length b) = da_size a" "gl_sha256 L b = da_digest a"
    using storage_parts(4)[OF inv assms(2)] by (auto simp: artifact_ok_def)
  have "safe_key (da_key a)" "1 \<le> length b" "int (length b) \<le> MaxImage"
    using storage_parts(2)[OF inv] b(1) unfolding objects_ok_def by blast+
  then have "object_get L None (da_key a) (da_digest a) (da_size a) (wd_objects w) = Inr b"
    using object_get_complete[OF b(1), of L] b(2,3) by simp
  moreover have "da_key a \<notin> doomed p" if "p \<in> set (wd_runs w)" for p
    using storage_parts(6)[OF inv that, of "da_key a"] u by (auto simp: deleting_only_def)
  ultimately show ?thesis using u by blast
qed

section \<open>Limits of the shared tables\<close>

text \<open>C14: in every reachable state the objects that are not yet deleted number at most 5000 and take at most
  2 GiB, a request has at most 24 interested workspaces, and there are at most 1000 workspaces with 64 MiB of
  snapshots and 10000 rate buckets.\<close>

theorem durable_bounds:
  assumes "durable_reachable L w"
  shows "upload_count (wd_db w) \<le> 5000 \<and> upload_bytes (wd_db w) \<le> 2147483648
    \<and> interests_of (wd_db w) i \<le> 24 \<and> length (db_workspaces (wd_db w)) \<le> 1000
    \<and> snapshot_bytes (wd_db w) \<le> 67108864 \<and> length (db_buckets (wd_db w)) \<le> 10000"
  using storage_parts(1)[OF reachable_storage[OF assms]] reachable_bounds[OF assms]
  by (simp add: tables_ok_def bounds_ok_def workspaces_ok_def interests_ok_def)

section \<open>Cancelled requests\<close>

text \<open>C10: when the last interest in a request is released while an attempt at it is past its first transaction,
  then whatever happens afterwards, that attempt reserves no space, publishes no image, changes no request and
  never ends in success.\<close>

theorem cancelled_attempt_fenced:
  assumes reach: "durable_reachable L w" and n: "n < length (wd_attempts w)" and b: "begun (at_phase (wd_attempts w ! n))"
    and last: "\<And>k. (k, at_request (wd_attempts w ! n)) \<in> set (db_interests (wd_db w)) \<Longrightarrow> k = owner"
    and md5: "\<And>x. length (de_md5 V x) = 32"
    and later: "(durable_step L)\<^sup>*\<^sup>* (w\<lparr>wd_db := release_interest C V owner (at_request (wd_attempts w ! n)) (wd_db w)\<rparr>) w'"
    and step: "work_step C' S W (wd_attempts w' ! n) (wd_db w') (wd_objects w') = (a', d', obs')"
  shows "db_artifacts d' = db_artifacts (wd_db w') \<and> db_uploads d' = db_uploads (wd_db w')
    \<and> mget (db_requests d') = mget (db_requests (wd_db w'))
    \<and> (at_phase a' = PhDone None \<longrightarrow> at_phase (wd_attempts w' ! n) = PhDone None)"
proof -
  let ?a = "wd_attempts w ! n"
  let ?d = "release_interest C V owner (at_request ?a) (wd_db w)"
  have inv: "storage_ok L w" "bounds_ok (wd_db w)" by (rule reachable_storage[OF reach], rule reachable_bounds[OF reach])
  have "fade (wd_db w) ?d" using release_fields(2)[of "wd_db w" C V owner "at_request ?a"]
    by (intro fade_same) (simp_all add: queue_frame_def)
  then have s: "storage_ok L (w\<lparr>wd_db := ?d\<rparr>)" by (rule storage_fade[OF inv(1)])
  have t: "bounds_ok ?d" using table_release[of V "wd_db w" C owner "at_request ?a"] inv(2) by (simp add: table_move_def)
  have "\<not> list_ex (\<lambda>(k, j). j = at_request ?a) (removeAll (owner, at_request ?a) (db_interests (wd_db w)))"
    using last by (auto simp: list_ex_iff)
  then have gen: "\<exists>x. dr_generation r = de_md5 V x" if "mget (db_requests ?d) (at_request ?a) = Some r" for r
    using that by (auto simp: release_interest_def Let_def map_simps split: option.splits)
  have g48: "length (at_generation ?a) = 48"
    using names_parts(1,5)[OF storage_parts(3)[OF inv(1)]] n by simp
  have f: "fenced ?d ?a"
    unfolding fenced_def using b gen md5 g48 by fastforce
  have "storage_ok L w' \<and> bounds_ok (wd_db w') \<and> n < length (wd_attempts w') \<and> fenced (wd_db w') (wd_attempts w' ! n)"
    using later
  proof (induction rule: rtranclp_induct)
    case base
    then show ?case using s t n f by simp
  next
    case (step x y)
    then show ?case using storage_step bounds_step attempts_step fenced_step by blast
  qed
  then show ?thesis using fenced_work[OF _ step] by blast
qed

end
