(* ===== verification/DurableAdmit.thy ===== *)
theory DurableAdmit
  imports DurableProps
begin

text \<open>
  Admission to the durable queue: what a visitor has once \<open>Admit\<close> succeeded, and what it leaves of the
  others' work.
\<close>

section \<open>Admission\<close>

text \<open>River's documented insertion: a new row with a new number, available for work.\<close>

definition river_inserts :: "river \<Rightarrow> bool" where
  "river_inserts R \<longleftrightarrow> (\<forall>i b q m jobs. case rv_insert R i b q m jobs of (jobs', n) \<Rightarrow> mget jobs n = None
     \<and> jobs' = mput n \<lparr>rj_kind = ''render'', rj_request = i, rj_build = b, rj_state = JAvailable, rj_attempt = 0\<rparr> jobs)"

text \<open>What the owner of an admitted request has.\<close>

definition provided :: "dbenv \<Rightarrow> 'f db \<Rightarrow> string \<Rightarrow> string \<Rightarrow> bool" where
  "provided V d owner i \<longleftrightarrow> (owner, i) \<in> set (db_interests d) \<and> mget (db_requests d) i \<noteq> None
     \<and> (artifact_ready V d i \<or> request_active d i)"

lemma ready_frame:
  assumes "queue_frame d d'"
  shows "artifact_ready V d' i = artifact_ready V d i"
proof -
  have "live_workspace V d' = live_workspace V d" and p: "db_pins d' = db_pins d" and a: "db_artifacts d' = db_artifacts d"
    using assms by (simp_all add: queue_frame_def fun_eq_iff live_workspace_def)
  then have "pinned V d' = pinned V d" by (simp add: fun_eq_iff pinned_def)
  then show ?thesis unfolding artifact_ready_def artifact_live_def a by (simp cong: option.case_cong)
qed

lemma enqueue_active:
  assumes R: "river_inserts (dc_river C)" and e: "enqueue C V build ep i q d = Inr d'"
  shows "request_active d' i" "\<And>j. j \<noteq> i \<Longrightarrow> request_active d j \<Longrightarrow> request_active d' j"
    "mget (db_requests d') i \<noteq> None" "\<And>j. mget (db_requests d) j \<noteq> None \<Longrightarrow> mget (db_requests d') j \<noteq> None"
    "wfm (db_jobs d) \<Longrightarrow> wfm (db_jobs d') \<and> outstanding d' = outstanding d + 1 \<and> outstanding d < p_outstanding (dc_policy C)"
proof -
  from e obtain jobs n where ins: "rv_insert (dc_river C) i build (queue_name (de_lib V) build) (job_metadata C build) (db_jobs d) = (jobs, n)"
    and room: "outstanding d < p_outstanding (dc_policy C)"
    and d': "d' = d\<lparr>db_jobs := jobs, db_requests := mput i (queued_row V build ep n i q (mget (db_requests d) i)) (db_requests d)\<rparr>"
    by (rule enqueue_Inr)
  define j where "j = \<lparr>rj_kind = ''render'', rj_request = i, rj_build = build, rj_state = JAvailable, rj_attempt = 0\<rparr>"
  have jobs: "mget (db_jobs d) n = None" "jobs = mput n j (db_jobs d)"
    using R ins by (auto simp: river_inserts_def j_def split: prod.splits)
  have row: "dr_job (queued_row V build ep n i q old) = n" for old by (simp add: queued_row_def split: option.splits)
  have n: "job_active d' n" by (simp add: d' jobs job_active_def map_simps j_def active_state_def)
  have keep: "job_active d m \<Longrightarrow> job_active d' m" for m
    using jobs(1) by (auto simp: d' jobs(2) job_active_def map_simps split: option.splits)
  show "request_active d' i" using n by (simp add: request_active_def d' map_simps row)
  show "request_active d k \<Longrightarrow> k \<noteq> i \<Longrightarrow> request_active d' k" for k
    using keep by (auto simp: request_active_def d' map_simps split: option.splits)
  show "mget (db_requests d') i \<noteq> None" "\<And>j. mget (db_requests d) j \<noteq> None \<Longrightarrow> mget (db_requests d') j \<noteq> None"
    by (auto simp: d' map_simps)
  show "wfm (db_jobs d) \<Longrightarrow> wfm (db_jobs d') \<and> outstanding d' = outstanding d + 1 \<and> outstanding d < p_outstanding (dc_policy C)"
    using room by (simp add: outstanding_def d' jobs gm.cnt_put gm.wf_put j_def active_state_def)
qed

lemma active_request: "request_active d i \<Longrightarrow> mget (db_requests d) i \<noteq> None"
  by (auto simp: request_active_def split: option.splits)

lemma admit_one_provides:
  assumes a: "queue_admit_one C V owner build ep q d = Inr (d', i)" and R: "river_inserts (dc_river C)"
    and w: "wfm (db_jobs d)"
  shows "provided V d' owner i" "provided V d k j \<Longrightarrow> provided V d' k j" "wfm (db_jobs d')"
    "outstanding d' \<le> max (outstanding d) (p_outstanding (dc_policy C))"
    "request_id (de_lib V) build q = Inr i" "mget (db_requests d) '''' = None \<Longrightarrow> mget (db_requests d') '''' = None \<and> i \<noteq> ''''"
proof -
  obtain r t d1 where rt: "publish_validate (de_lib V) (q_recipe q) = Inr r" "tier (r_id r) (q_tier q) = Inr t"
      "i = recipe_key (de_lib V) r t build"
    and d1: "d1 = d \<and> (mget (db_requests d) i \<noteq> None \<and> artifact_ready V d i \<or> request_active d i)
      \<or> enqueue C V build ep i q d = Inr d1 \<and> \<not> request_active d i"
    and i: "add_interest owner i d1 = Inr d'"
    using admit_one_Inr[OF a] by blast
  have d': "d' = d1\<lparr>db_interests := List.insert (owner, i) (db_interests d1)\<rparr>"
    using i by (simp add: add_interest_def split: if_splits)
  have "queue_move V d d'" "queue_move V d d1" using d1 move_admit_one[OF a] move_enqueue by auto
  then have same: "artifact_ready V d' k = artifact_ready V d k" "artifact_ready V d1 k = artifact_ready V d k" for k
    using ready_frame unfolding queue_move_def by blast+
  have act: "request_active d' = request_active d1"
    by (simp add: fun_eq_iff d' request_active_def job_active_def cong: option.case_cong)
  have old: "request_active d k \<Longrightarrow> request_active d1 k" "mget (db_requests d) k \<noteq> None \<Longrightarrow> mget (db_requests d1) k \<noteq> None" for k
    using d1 enqueue_active(2,4)[OF R] by metis+
  have ints: "db_interests d1 = db_interests d" using d1 enqueue_interests by auto
  have new: "mget (db_requests d1) i \<noteq> None \<and> (artifact_ready V d1 i \<or> request_active d1 i)"
    using d1 enqueue_active(1,3)[OF R] active_request by metis
  show "provided V d' owner i" using new same by (simp add: provided_def act) (simp add: d')
  show "provided V d' k j" if "provided V d k j"
    using that old[of j] same by (auto simp: provided_def act) (auto simp: d' ints)
  show "wfm (db_jobs d')" "outstanding d' \<le> max (outstanding d) (p_outstanding (dc_policy C))"
    using d1 w enqueue_active(5)[OF R] by (fastforce simp: d' outstanding_def)+
  show "request_id (de_lib V) build q = Inr i"
    using a rt by (auto simp: request_id_def queue_admit_one_def split: option.splits)
  assume e: "mget (db_requests d) '''' = None"
  show "mget (db_requests d') '''' = None \<and> i \<noteq> ''''"
  proof (cases "d1 = d")
    case True
    with new e show ?thesis by (auto simp: d')
  next
    case False
    with d1 have "enqueue C V build ep i q d = Inr d1" by blast
    with e show ?thesis by (elim enqueue_Inr) (auto simp: d' map_simps request_row_ok_def)
  qed
qed

lemma admit_all_provides:
  assumes "queue_admit_all C V owner build ep qs d = Inr (d', ids)" and R: "river_inserts (dc_river C)"
    and "wfm (db_jobs d)" "mget (db_requests d) '''' = None"
  shows "list_all2 (\<lambda>q i. request_id (de_lib V) build q = Inr i) qs ids \<and> (\<forall>i\<in>set ids. provided V d' owner i \<and> i \<noteq> '''')
    \<and> (\<forall>k j. provided V d k j \<longrightarrow> provided V d' k j)
    \<and> outstanding d' \<le> max (outstanding d) (p_outstanding (dc_policy C))"
  using assms(1,3,4)
proof (induction qs arbitrary: d ids)
  case (Cons q qs)
  then obtain i d1 ids' where a: "queue_admit_one C V owner build ep q d = Inr (d1, i)"
    and b: "queue_admit_all C V owner build ep qs d1 = Inr (d', ids')" and ids: "ids = i # ids'"
    by (auto simp: res_simps)
  note one = admit_one_provides[OF a R Cons.prems(2)]
  from Cons.IH[OF b] one(3) one(6)[OF Cons.prems(3)] have
    rest: "list_all2 (\<lambda>q i. request_id (de_lib V) build q = Inr i) qs ids' \<and> (\<forall>i\<in>set ids'. provided V d' owner i \<and> i \<noteq> '''')
      \<and> (\<forall>k j. provided V d1 k j \<longrightarrow> provided V d' k j) \<and> outstanding d' \<le> max (outstanding d1) (p_outstanding (dc_policy C))"
    by simp
  then show ?case using one(1,2,4,5) one(6)[OF Cons.prems(3)] by (auto simp: ids)
qed simp

lemma provided_status:
  "provided V (qt_db t) owner i \<Longrightarrow> i \<noteq> '''' \<Longrightarrow> st_state (queue_status V owner i t) \<in> {Ready, Queued, Running}"
  by (auto simp: provided_def queue_status_def Let_def request_active_def job_active_def state_of_def active_state_def
    split: option.splits rstate.splits)

text \<open>C12: an admission that succeeds gives every request the identity that the in-memory manager gives it, the
  owner's interest in it, and a live job or a retained image, so that the owner sees it ready, running or queued;
  what any other visitor was given before stays, and the outstanding jobs stay within the policy.\<close>

theorem durable_admit_serves:
  assumes a: "queue_admit C V owner qs t = (t', Inr ids)" and R: "river_inserts (dc_river C)"
    and w: "wfm (db_jobs (qt_db t))" and n: "mget (db_requests (qt_db t)) '''' = None"
  shows "list_all2 (\<lambda>q i. request_id (de_lib V) (dc_build C) q = Inr i) qs ids
    \<and> (\<forall>i\<in>set ids. provided V (qt_db t') owner i \<and> st_state (queue_status V owner i t') \<in> {Ready, Queued, Running})
    \<and> (\<forall>k j. provided V (qt_db t) k j \<longrightarrow> provided V (qt_db t') k j)
    \<and> outstanding (qt_db t') \<le> max (outstanding (qt_db t)) (p_outstanding (dc_policy C))"
proof -
  let ?d = "qt_db t"
  from a obtain d' where all: "queue_admit_all C V owner (db_build ?d) (db_epoch ?d) qs ?d = Inr (d', ids)"
    and t': "qt_db t' = d'" and b: "db_build ?d = dc_build C"
    by (auto simp: queue_admit_def Let_def res_simps split: if_splits sum.splits prod.splits)
  show ?thesis
    using admit_all_provides[OF all R w n] provided_status[of V t' owner] by (auto simp: t' b)
qed

end
