(* ===== verification/DurableLive.thy ===== *)
theory DurableLive
  imports DurableProps
begin

text \<open>
  What an attempt does when nothing disturbs it: its six steps in a row, and the publication they end in.
\<close>

section \<open>An undisturbed attempt\<close>

fun work_run :: "dbconf \<Rightarrow> object_store \<Rightarrow> workenv list \<Rightarrow> attempt \<Rightarrow> 'f db \<Rightarrow> bucket_objects
    \<Rightarrow> attempt \<times> 'f db \<times> bucket_objects" where
  "work_run C S [] a d obs = (a, d, obs)"
| "work_run C S (W # Ws) a d obs = (case work_step C S W a d obs of (a', d', obs') \<Rightarrow> work_run C S Ws a' d' obs')"

text \<open>No statement, commit or call fails, and the context is not cancelled.\<close>

definition calm :: "golib \<Rightarrow> workenv \<Rightarrow> bool" where
  "calm L W \<longleftrightarrow> de_lib (we_tx W) = L \<and> de_fault (we_tx W) = (\<lambda>s. None) \<and> de_commit (we_tx W) = None
     \<and> we_ctx W = None \<and> we_health W = None \<and> we_put W = None"

text \<open>The database still wants the attempt: the job runs, the request points to it, and the buckets agree.\<close>

definition wanted :: "dbconf \<Rightarrow> object_store \<Rightarrow> attempt \<Rightarrow> request_row \<Rightarrow> 'f db \<Rightarrow> bool" where
  "wanted C S a r d \<longleftrightarrow> db_bound d \<and> db_location d = ob_location S \<and> at_build a = dc_build C \<and> db_build d = at_build a
     \<and> (\<exists>j. mget (db_jobs d) (at_job a) = Some j \<and> rj_state j = JRunning \<and> rj_attempt j = at_attempt a)
     \<and> mget (db_requests d) (at_request a) = Some r \<and> dr_job r = at_job a \<and> dr_epoch r = db_epoch d
     \<and> dr_build r = db_build d"

lemma calm_fields:
  "calm L W \<Longrightarrow> de_lib (we_tx W) = L" "calm L W \<Longrightarrow> de_fault (we_tx W) s = None"
  "calm L W \<Longrightarrow> commit (we_tx W) d d' ok fail = (d', ok)" "calm L W \<Longrightarrow> we_ctx W = None"
  "calm L W \<Longrightarrow> we_health W = None" "calm L W \<Longrightarrow> we_put W = None"
  by (simp_all add: calm_def commit_def)

lemma eligible_calm: "calm L W \<Longrightarrow> mget (db_jobs d) (at_job a) = Some j \<Longrightarrow> rj_state j = JRunning
    \<Longrightarrow> rj_attempt j = at_attempt a \<Longrightarrow> eligible (we_tx W) a d = None"
  by (simp add: eligible_def calm_fields)

lemma live_interest_cong:
  "db_interests d' = db_interests d \<Longrightarrow> db_workspaces d' = db_workspaces d \<Longrightarrow> live_interest V d' i = live_interest V d i"
  by (simp add: live_interest_def live_workspace_def)

lemma run_begin:
  assumes "calm L W" "wanted C S a r d" "live_interest (we_tx W) d (at_request a)" "\<not> overdue C (we_tx W) r"
  shows "\<exists>t. work_begin C (we_tx W) a d = (d\<lparr>db_requests := mput (at_request a)
      (r\<lparr>dr_generation := at_generation a, dr_outcome := Running, dr_started := t\<rparr>) (db_requests d)\<rparr>,
    Inr (\<lparr>q_version = 1, q_build = db_build d, q_recipe = dr_recipe r, q_tier = dr_tier r\<rparr>, db_epoch d))"
proof -
  have "eligible (we_tx W) a d = None" using assms(1,2) eligible_calm by (auto simp: wanted_def)
  then show ?thesis
    using assms by (auto simp: work_begin_def calm_fields wanted_def update_request_def Let_def)
qed

lemma publish_jobs [simp]: "db_jobs (publish_upload V i key digest sz u d) = db_jobs d"
  by (simp add: publish_upload_def Let_def update_request_def)

lemma run_reserve:
  assumes "calm L W" "mget (db_requests d) (at_request a) = Some r" "dr_generation r = at_generation a" "dr_job r = at_job a"
    and "upload_bytes d + sz \<le> 2147483648" "upload_count d < 5000" "mget (db_uploads d) key = None" "1 \<le> sz" "sz \<le> 16777216"
  shows "work_reserve (we_tx W) a key sz d = (d\<lparr>db_uploads := mput key \<lparr>du_request = at_request a,
      du_generation = at_generation a, du_size = sz, du_state = UPending, du_created = de_now (we_tx W),
      du_delete_after = None, du_deleted = None\<rparr> (db_uploads d)\<rparr>, None)"
  using assms by (simp add: work_reserve_def calm_fields)

lemma run_complete:
  assumes "calm L W" "mget (db_requests d) i = Some r" "i = at_request a" "dr_generation r = at_generation a" "dr_job r = at_job a"
    and "dr_epoch r = db_epoch d" "dr_build r = db_build d" "live_interest (we_tx W) d i"
    and "mget (db_jobs d) (at_job a) = Some j" "rj_state j = JRunning" "rj_attempt j = at_attempt a"
    and "mget (db_uploads d) key = Some u" "du_state u = UPending" "du_generation u = at_generation a"
    and "1 \<le> sz" "sz \<le> 16777216" "\<And>k b. (k, b) \<in> set (db_artifacts d) \<Longrightarrow> da_key b \<noteq> key"
    and "rv_complete (dc_river C) (at_job a) (db_jobs d) = (jobs, JCompleted)"
  shows "work_complete C (we_tx W) a (db_epoch d) key digest sz d
    = ((publish_upload (we_tx W) i key digest sz u d)\<lparr>db_jobs := jobs\<rparr>, None)"
proof -
  have p: "publishable (we_tx W) a (db_epoch d) d" using assms by (simp add: publishable_def)
  have e: "eligible (we_tx W) a d = None" using eligible_calm assms by blast
  have x: "\<not> list_ex (\<lambda>(j, b). j \<noteq> i \<and> da_key b = key) (db_artifacts d)" using assms(17) by (auto simp: list_ex_iff)
  show ?thesis
    using assms p e x by (simp add: work_complete_def calm_fields Let_def)
qed

lemma undisturbed_publishes:
  assumes reach: "durable_reachable L w" and n: "n < length (wd_attempts w)" and a: "a = wd_attempts w ! n" "at_phase a = PhCheck"
    and d: "d = wd_db w" and calm: "list_all (calm L) [W0, W1, W2, W3, W4, W5]" and wanted: "wanted C S a r d"
    and time: "\<not> overdue C (we_tx W1) r" "live_interest (we_tx W1) d (at_request a)" "live_interest (we_tx W5) d (at_request a)"
    and image: "we_render W2 q = (data, None)" "q = \<lparr>q_version = 1, q_build = db_build d, q_recipe = dr_recipe r, q_tier = dr_tier r\<rparr>"
      "check_image W2 q data = None" "data \<noteq> ''''"
    and room: "upload_bytes d + int (length data) \<le> 2147483648" "upload_count d < 5000" and key: "safe_key (at_key a)"
    and river: "snd (rv_complete (dc_river C) (at_job a) (db_jobs d)) = JCompleted"
  shows "\<exists>a' d' obs' b. work_run C S [W0, W1, W2, W3, W4, W5] a d (wd_objects w) = (a', d', obs')
    \<and> at_phase a' = PhDone None \<and> mget (db_artifacts d') (at_request a) = Some b
    \<and> da_expires b = de_now (we_tx W5) + day
    \<and> object_get L None (da_key b) (da_digest b) (da_size b) obs' = Inr data
    \<and> (\<forall>V e owner. (owner, at_request a) \<in> set (db_interests d) \<and> de_now V < da_expires b
        \<longrightarrow> st_state (queue_status V owner (at_request a) \<lparr>qt_db = d', qt_err = e\<rparr>) = Ready)"
proof -
  let ?i = "at_request a" and ?key = "at_key a" and ?sz = "int (length data)" and ?go = "\<lambda>p. a\<lparr>at_phase := p\<rparr>"
  have inv: "storage_ok L w" by (rule reachable_storage[OF reach])
  have calm0: "calm L W0" "calm L W1" "calm L W2" "calm L W3" "calm L W4" "calm L W5" using calm by simp_all
  note c = calm0[THEN calm_fields(2)] calm0[THEN calm_fields(5)] calm0[THEN calm_fields(6)] calm0[THEN calm_fields(1)]
  have fresh: "?key \<notin> known_keys w"
    using names_parts(6)[OF storage_parts(3)[OF inv], of a] n a by simp
  then have unused: "mget (db_uploads d) ?key = None" by (auto simp: known_keys_def d)
  have wf: "wfm (db_artifacts d)" using storage_parts(1)[OF inv] by (simp add: tables_ok_def d)
  have others: "da_key b \<noteq> ?key" if "(k, b) \<in> set (db_artifacts d)" for k b
  proof -
    have "mget (db_artifacts d) k = Some b" using that wf by (simp add: gm.entry_iff)
    then have "artifact_ok L d (wd_objects w) k b" using storage_parts(4)[OF inv] by (simp add: d)
    with unused show ?thesis by (auto simp: artifact_ok_def)
  qed
  have sz: "1 \<le> ?sz" "?sz \<le> 16777216"
    using image(3,4) by (cases data; auto simp: check_image_def MaxImage_def split: sum.splits if_splits)+
  obtain j where j: "mget (db_jobs d) (at_job a) = Some j" "rj_state j = JRunning" "rj_attempt j = at_attempt a"
    using wanted by (auto simp: wanted_def)
  obtain jobs where jobs: "rv_complete (dc_river C) (at_job a) (db_jobs d) = (jobs, JCompleted)"
    using river by (cases "rv_complete (dc_river C) (at_job a) (db_jobs d)") auto
  obtain t where started: "work_begin C (we_tx W1) a d = (d\<lparr>db_requests := mput ?i
      (r\<lparr>dr_generation := at_generation a, dr_outcome := Running, dr_started := t\<rparr>) (db_requests d)\<rparr>, Inr (q, db_epoch d))"
    using run_begin[OF calm0(2) wanted time(2,1)] image(2) by auto
  define r1 where "r1 = r\<lparr>dr_generation := at_generation a, dr_outcome := Running, dr_started := t\<rparr>"
  define d1 where "d1 = d\<lparr>db_requests := mput ?i r1 (db_requests d)\<rparr>"
  define u where "u = \<lparr>du_request = ?i, du_generation = at_generation a, du_size = ?sz, du_state = UPending,
    du_created = de_now (we_tx W3), du_delete_after = None, du_deleted = None\<rparr>"
  define d2 where "d2 = d1\<lparr>db_uploads := mput ?key u (db_uploads d)\<rparr>"
  define d3 where "d3 = (publish_upload (we_tx W5) ?i ?key (gl_sha256 L data) ?sz u d2)\<lparr>db_jobs := jobs\<rparr>"
  define obs' where "obs' = mput ?key (data, de_now (we_tx W4)) (wd_objects w)"
  note at = \<open>at_phase a = PhCheck\<close>
  have s0: "work_step C S W0 a d obs = (?go (PhBegin 0), d, obs)" for obs
    using wanted by (simp add: work_step_def at c check_bucket_def wanted_def Let_def)
  have k: "at_key (?go p) = ?key" for p by (simp add: at_key_def)
  have same: "work_begin C V (?go p) d = work_begin C V a d" for V p
    by (simp add: work_begin_def eligible_def Let_def cong: option.case_cong if_cong)
  have s1: "work_step C S W1 (?go (PhBegin 0)) d obs = (?go (PhRender q (db_epoch d)), d1, obs)" for obs
    by (simp add: work_step_def Let_def same started d1_def r1_def)
  have s2: "work_step C S W2 (?go (PhRender q (db_epoch d))) d1 obs = (?go (PhReserve (db_epoch d) data), d1, obs)" for obs
    using image(1,3) by (simp add: work_step_def Let_def)
  have "work_reserve (we_tx W3) (?go (PhReserve (db_epoch d) data)) ?key ?sz d1 = (d2, None)"
    using run_reserve[OF calm0(4), of d1 "?go (PhReserve (db_epoch d) data)" r1 ?sz ?key] wanted room unused sz
    by (simp add: d1_def r1_def d2_def u_def map_simps wanted_def upload_bytes_def upload_count_def)
  then have s3: "work_step C S W3 (?go (PhReserve (db_epoch d) data)) d1 obs = (?go (PhPut (db_epoch d) data), d2, obs)" for obs
    by (simp add: work_step_def Let_def k)
  have s4: "work_step C S W4 (?go (PhPut (db_epoch d) data)) d2 (wd_objects w) = (?go (PhComplete 0 (db_epoch d) data), d2, obs')"
    using key sz image(4) by (simp add: work_step_def Let_def k object_put_def c obs'_def MaxImage_def)
  have "work_complete C (we_tx W5) (?go (PhComplete 0 (db_epoch d) data)) (db_epoch d2) ?key (gl_sha256 L data) ?sz d2 = (d3, None)"
    unfolding d3_def
    by (rule run_complete[OF calm0(6), of d2 ?i r1 _ j])
      (use wanted j jobs sz others time(3) live_interest_cong[of d2 d "we_tx W5" ?i]
        in \<open>auto simp: d1_def r1_def d2_def u_def map_simps wanted_def\<close>)
  then have s5: "work_step C S W5 (?go (PhComplete 0 (db_epoch d) data)) d2 obs = (?go (PhDone None), d3, obs)" for obs
    by (simp add: work_step_def Let_def k c) (simp add: d2_def d1_def)
  have run: "work_run C S [W0, W1, W2, W3, W4, W5] a d (wd_objects w) = (?go (PhDone None), d3, obs')"
    by (simp add: s0 s1 s2 s3 s4 s5)
  let ?b = "\<lparr>da_key = ?key, da_digest = gl_sha256 L data, da_size = ?sz, da_created = de_now (we_tx W5),
    da_expires = de_now (we_tx W5) + 24 * 60 * minute\<rparr>"
  have art: "mget (db_artifacts d3) ?i = Some ?b" and req: "mget (db_requests d3) ?i \<noteq> None"
      and ints: "db_interests d3 = db_interests d"
    by (auto simp: d3_def publish_upload_def Let_def update_request_def map_simps d2_def d1_def split: option.splits)
  have "?i \<noteq> ''''" using key by (auto simp: safe_key_def at_key_def image_key_def)
  then have ready: "st_state (queue_status V owner ?i \<lparr>qt_db = d3, qt_err = e\<rparr>) = Ready"
    if "(owner, ?i) \<in> set (db_interests d)" "de_now V < da_expires ?b" for V owner e
    using that req by (auto simp: queue_status_def Let_def ints artifact_ready_def art artifact_live_def)
  have get: "object_get L None ?key (gl_sha256 L data) ?sz obs' = Inr data"
    using object_get_complete[of obs' ?key data "de_now (we_tx W4)" L] key sz by (simp add: obs'_def map_simps MaxImage_def)
  show ?thesis
    using run art get ready by (intro exI[of _ "?go (PhDone None)"] exI[of _ d3] exI[of _ obs'] exI[of _ ?b]) (simp add: day_def)
qed

text \<open>C11: an attempt that nothing disturbs publishes: after its six steps it is done without an error, every
  visitor with an interest in the request sees it ready until the image expires, and reading the image from the
  bucket gives exactly the bytes that the renderer wrote.\<close>

theorem attempt_publishes:
  assumes reach: "durable_reachable L w" and n: "n < length (wd_attempts w)" and a: "a = wd_attempts w ! n" "at_phase a = PhCheck"
    and d: "d = wd_db w" and calm: "list_all (calm L) [W0, W1, W2, W3, W4, W5]" and wanted: "wanted C S a r d"
    and time: "\<not> overdue C (we_tx W1) r" "live_interest (we_tx W1) d (at_request a)" "live_interest (we_tx W5) d (at_request a)"
    and image: "we_render W2 q = (data, None)" "q = \<lparr>q_version = 1, q_build = db_build d, q_recipe = dr_recipe r, q_tier = dr_tier r\<rparr>"
      "check_image W2 q data = None" "data \<noteq> ''''"
    and room: "upload_bytes d + int (length data) \<le> 2147483648" "upload_count d < 5000" and key: "safe_key (at_key a)"
    and river: "snd (rv_complete (dc_river C) (at_job a) (db_jobs d)) = JCompleted"
  shows "\<exists>a' d' obs' b. work_run C S [W0, W1, W2, W3, W4, W5] a d (wd_objects w) = (a', d', obs')
    \<and> at_phase a' = PhDone None \<and> mget (db_artifacts d') (at_request a) = Some b
    \<and> da_expires b = de_now (we_tx W5) + day
    \<and> object_get L None (da_key b) (da_digest b) (da_size b) obs' = Inr data
    \<and> (\<forall>V e owner. (owner, at_request a) \<in> set (db_interests d) \<and> de_now V < da_expires b
        \<longrightarrow> st_state (queue_status V owner (at_request a) \<lparr>qt_db = d', qt_err = e\<rparr>) = Ready)"
  by (rule undisturbed_publishes[OF assms])

lemma reachable_run:
  assumes "durable_reachable L w" "n < length (wd_attempts w)" "\<And>W. W \<in> set Ws \<Longrightarrow> de_lib (we_tx W) = L"
    and "work_run C S Ws (wd_attempts w ! n) (wd_db w) (wd_objects w) = (a', d', obs')"
  shows "durable_reachable L (w\<lparr>wd_attempts := (wd_attempts w)[n := a'], wd_db := d', wd_objects := obs'\<rparr>)"
  using assms
proof (induction Ws arbitrary: w)
  case Nil
  then show ?case by (cases w) auto
next
  case (Cons W Ws)
  obtain a1 d1 obs1 where s: "work_step C S W (wd_attempts w ! n) (wd_db w) (wd_objects w) = (a1, d1, obs1)"
    by (cases "work_step C S W (wd_attempts w ! n) (wd_db w) (wd_objects w)")
  let ?w = "w\<lparr>wd_attempts := (wd_attempts w)[n := a1], wd_db := d1, wd_objects := obs1\<rparr>"
  have "durable_step L w ?w" using durable_step.work[OF Cons.prems(2) _ s] Cons.prems(3) by simp
  then have "durable_reachable L ?w" by (rule durable_reachable.step[OF Cons.prems(1)])
  from Cons.IH[OF this] Cons.prems s show ?case by simp
qed

end
