(* ===== verification/DurableStored.thy ===== *)
theory DurableStored
  imports DurableMoves StudioInv
begin

text \<open>
  The stored form of a workspace: what \<open>save\<close> writes into the row of a workspace is what the next
  transaction of any process loads from it.
\<close>

section \<open>Laws of the JSON encoding\<close>

text \<open>
  \<open>encoding/json\<close> on the stored form: \<open>Recipe\<close> has no exported field, so it comes back as its zero value
  (the recipes travel beside the view), every other field and the raw recipes come back as they were, and
  the encoding of a struct is not empty. The law is stated of one value, because the package replaces
  bytes that are not UTF-8 and so returns a value with such strings changed.
\<close>

definition zero_recipe :: recipe where
  "zero_recipe = \<lparr>r_canonical = '''', r_id = '''', r_seed = '''', r_pal = '''', r_traits = []\<rparr>"

definition blank_sample :: "sample \<Rightarrow> sample" where
  "blank_sample a = a\<lparr>sa_recipe := zero_recipe\<rparr>"

definition blank_exploration :: "saved_exploration \<Rightarrow> saved_exploration" where
  "blank_exploration s = s\<lparr>sv_view := (sv_view s)\<lparr>v_samples := map blank_sample (v_samples (sv_view s)),
     v_favourites := map blank_sample (v_favourites (sv_view s))\<rparr>\<rparr>"

definition json_law :: "snapshot_json \<Rightarrow> saved_workspace \<Rightarrow> bool" where
  "json_law N v \<longleftrightarrow> (\<forall>data. sj_marshal N v = Inr data \<longrightarrow> data \<noteq> ''''
     \<and> sj_unmarshal N data = Inr (v\<lparr>sv_explorations := map blank_exploration (sv_explorations v)\<rparr>))"

section \<open>What comes back\<close>

text \<open>
  A recipe is determined by its canonical bytes, its identity, seed and palette and the traits as a map; the
  view's list of favourites is rebuilt by \<open>snapshot\<close> and not stored.
\<close>

definition same_recipe :: "recipe \<Rightarrow> recipe \<Rightarrow> bool" where
  "same_recipe r r' \<longleftrightarrow> r_canonical r' = r_canonical r \<and> r_id r' = r_id r \<and> r_seed r' = r_seed r
     \<and> r_pal r' = r_pal r \<and> mget (r_traits r') = mget (r_traits r)"

definition same_sample :: "sample \<Rightarrow> sample \<Rightarrow> bool" where
  "same_sample a a' \<longleftrightarrow> a' = a\<lparr>sa_recipe := sa_recipe a'\<rparr> \<and> same_recipe (sa_recipe a) (sa_recipe a')"

definition same_exploration :: "exploration \<Rightarrow> exploration \<Rightarrow> bool" where
  "same_exploration x x' \<longleftrightarrow> x_actions x' = x_actions x \<and> x_round x' = x_round x
     \<and> x_view x' = (x_view x)\<lparr>v_samples := v_samples (x_view x'), v_favourites := []\<rparr>
     \<and> list_all2 same_sample (v_samples (x_view x)) (v_samples (x_view x'))"

text \<open>The workspaces of the studio: keyed by their explorations' identities, with recipes that \<open>Decode\<close> gave.\<close>

definition recipe_stored :: "golib \<Rightarrow> recipe \<Rightarrow> bool" where
  "recipe_stored L r \<longleftrightarrow> length (r_canonical r) \<le> 16384 \<and> (\<exists>raw. decode L raw = Inr r)"

definition storable :: "golib \<Rightarrow> workspace \<Rightarrow> bool" where
  "storable L w \<longleftrightarrow> wfm (ws_explorations w) \<and> (\<forall>(k, x)\<in>set (ws_explorations w). v_id (x_view x) = k
     \<and> (\<forall>a\<in>set (v_samples (x_view x)). recipe_stored L (sa_recipe a)))"

lemma ws_ok_storable:
  assumes "ws_ok L T w" "json_faithful L"
  shows "storable L w"
proof -
  have "v_id (x_view x) = k \<and> (\<forall>a\<in>set (v_samples (x_view x)). recipe_stored L (sa_recipe a))"
    if m: "(k, x) \<in> set (ws_explorations w)" for k x
  proof -
    have x: "expl_ok L T k x" using assms(1) m gm.entry_iff[of "ws_explorations w" k x] by (simp add: ws_ok_def)
    have "recipe_stored L (sa_recipe a)" if a: "a \<in> set (v_samples (x_view x))" for a
      using expl_okD(10)[OF x a] validate_small[OF assms(2) expl_okD(10)[OF x a]]
      by (auto simp: recipe_stored_def public_recipe_def publish_validate_def res_simps Let_def max_recipe_def
        split: if_splits)
    with x show ?thesis by (simp add: expl_ok_def)
  qed
  then show ?thesis using assms(1) by (auto simp: storable_def ws_ok_def)
qed

section \<open>Loading what was saved\<close>

lemma load_samples_blank:
  assumes J: "json_faithful L" and "\<And>a. a \<in> set as \<Longrightarrow> recipe_stored L (sa_recipe a)"
  shows "\<exists>as'. load_samples L (map blank_sample as) (map (\<lambda>a. r_canonical (sa_recipe a)) as) = Inr as'
    \<and> list_all2 same_sample as as'"
  using assms(2)
proof (induction as)
  case (Cons a as)
  from Cons obtain as' where as': "load_samples L (map blank_sample as) (map (\<lambda>a. r_canonical (sa_recipe a)) as) = Inr as'"
      "list_all2 same_sample as as'" by auto
  obtain raw where raw: "decode L raw = Inr (sa_recipe a)" "length (r_canonical (sa_recipe a)) \<le> 16384"
    using Cons.prems[of a] by (auto simp: recipe_stored_def)
  from decode_fixpoint[OF J this] obtain r' where r': "decode L (r_canonical (sa_recipe a)) = Inr r'" "same_recipe (sa_recipe a) r'"
    by (auto simp: same_recipe_def)
  have blank: "(blank_sample a)\<lparr>sa_recipe := r'\<rparr> = a\<lparr>sa_recipe := r'\<rparr>" by (simp add: blank_sample_def)
  have "list_all2 same_sample (a # as) (a\<lparr>sa_recipe := r'\<rparr> # as')" using as'(2) r'(2) by (simp add: same_sample_def)
  then show ?case using as'(1) r'(1) blank by simp
qed simp

lemma load_exploration_blank:
  assumes J: "json_faithful L" and ok: "\<And>a. a \<in> set (v_samples (x_view x)) \<Longrightarrow> recipe_stored L (sa_recipe a)"
  shows "\<exists>x'. load_exploration L (blank_exploration (save_exploration x)) = Inr x' \<and> same_exploration x x'"
proof -
  let ?as = "v_samples (x_view x)"
  obtain as' where as': "load_samples L (map blank_sample ?as) (map (\<lambda>a. r_canonical (sa_recipe a)) ?as) = Inr as'"
      "list_all2 same_sample ?as as'"
    using load_samples_blank[OF J, of ?as] ok by blast
  let ?x' = "\<lparr>x_view = (x_view x)\<lparr>v_samples := as', v_favourites := []\<rparr>, x_actions = x_actions x, x_round = x_round x\<rparr>"
  have "load_exploration L (blank_exploration (save_exploration x)) = Inr ?x'"
    using as'(1) by (simp add: load_exploration_def blank_exploration_def save_exploration_def)
  moreover have "same_exploration x ?x'" using as'(2) by (simp add: same_exploration_def)
  ultimately show ?thesis by blast
qed

lemma same_exploration_id:
  assumes "same_exploration x x'"
  shows "v_id (x_view x') = v_id (x_view x)"
proof -
  obtain as where "x_view x' = (x_view x)\<lparr>v_samples := as, v_favourites := []\<rparr>"
    using assms unfolding same_exploration_def by blast
  then show ?thesis by simp
qed

lemma load_explorations_blank:
  assumes J: "json_faithful L" and "\<And>k x. (k, x) \<in> set xs \<Longrightarrow> v_id (x_view x) = k
      \<and> (\<forall>a\<in>set (v_samples (x_view x)). recipe_stored L (sa_recipe a))"
  shows "\<exists>ys. map_res (load_exploration L) (map blank_exploration (map (\<lambda>(i, x). save_exploration x) xs)) = Inr ys
    \<and> map (\<lambda>y. v_id (x_view y)) ys = map fst xs \<and> list_all2 same_exploration (map snd xs) ys"
  using assms(2)
proof (induction xs)
  case (Cons p xs)
  obtain k x where p: "p = (k, x)" by force
  have "v_id (x_view x) = k \<and> (\<forall>a\<in>set (v_samples (x_view x)). recipe_stored L (sa_recipe a))" if "(k, x) \<in> set xs" for k x
    using Cons.prems[of k x] that by simp
  then obtain ys where ys: "map_res (load_exploration L) (map blank_exploration (map (\<lambda>(i, x). save_exploration x) xs)) = Inr ys"
      "map (\<lambda>y. v_id (x_view y)) ys = map fst xs" "list_all2 same_exploration (map snd xs) ys" using Cons.IH by blast
  obtain x' where x': "load_exploration L (blank_exploration (save_exploration x)) = Inr x'" "same_exploration x x'"
    using load_exploration_blank[OF J, of x] Cons.prems[of k x] unfolding p by auto
  note same_exploration_id[OF x'(2)]
  then show ?case using ys x' Cons.prems[of k x] by (simp add: p)
qed simp

lemma update_new: "k \<notin> fst ` set m \<Longrightarrow> mput k v m = m @ [(k, v)]"
  by (induction m) auto

lemma foldl_put:
  "distinct (map f ys) \<Longrightarrow> fst ` set m \<inter> f ` set ys = {} \<Longrightarrow> foldl (\<lambda>m y. mput (f y) y m) m ys = m @ map (\<lambda>y. (f y, y)) ys"
  by (induction ys arbitrary: m) (auto simp: update_new)

lemma cancels_workspaces:
  "db_workspaces (qt_db (foldl (\<lambda>q r. queue_cancel C V i r q) q rs)) = db_workspaces (qt_db q)"
proof (induction rs arbitrary: q)
  case (Cons r rs)
  have "queue_frame (qt_db q) (qt_db (queue_cancel C V i r q))" using move_cancel[of V q C i r] by (simp add: queue_move_def)
  with Cons show ?case by (simp add: queue_frame_def)
qed simp

text \<open>C13: what a writing transaction saves is what the next transaction loads, in whatever process: the same
  entries and the same explorations with the same samples, jobs, choices, batches, actions and rounds, and
  recipes with the same canonical bytes and the same traits. The workspace is any that the studio's invariant allows,
  and \<open>encoding/json\<close> keeps the strings of what is stored of it.\<close>

theorem durable_roundtrip:
  assumes save: "save P i w q = Inr d'" and row: "mget (db_workspaces (qt_db q)) i = Some r" "dw_expires r > de_now (ps_tx P')"
    and same: "ps_json P' = ps_json P" "de_lib (ps_tx P') = de_lib (ps_tx P)"
    and laws: "json_law (ps_json P) (save_workspace w)" "json_faithful (de_lib (ps_tx P))" and ok: "ws_ok (de_lib (ps_tx P)) T w"
  shows "\<exists>w'. load_workspace P' i d' = Inr w' \<and> ws_token w' = i \<and> ws_csrf w' = dw_csrf r \<and> ws_entries w' = ws_entries w
    \<and> list_all2 (\<lambda>(k, x) (k', x'). k' = k \<and> same_exploration x x') (ws_explorations w) (ws_explorations w')"
proof -
  let ?L = "de_lib (ps_tx P)" and ?N = "ps_json P" and ?xs = "ws_explorations w"
  have ok: "storable ?L w" by (rule ws_ok_storable[OF ok laws(2)])
  from save_Inr[OF save] obtain data d1 d2 where data: "encode_workspace ?N w = Inr data"
    and d1: "d1 = (qt_db q)\<lparr>db_workspaces := update_rows (\<lambda>k r. if k = i then r\<lparr>dw_data := data\<rparr> else r) (db_workspaces (qt_db q))\<rparr>"
    and d2: "write_pins i w d1 = Inr d2"
    and d': "d' = qt_db (foldl (\<lambda>q r. queue_cancel (ps_conf P) (ps_tx P) i r q) (q\<lparr>qt_db := d2\<rparr>) (obsolete_interests i w d2))"
    by blast
  have "db_workspaces d2 = db_workspaces d1" using d2 by (auto simp: write_pins_def Let_def split: if_splits)
  then have stored: "mget (db_workspaces d') i = Some (r\<lparr>dw_data := data\<rparr>)"
    using row(1) by (simp add: d' cancels_workspaces d1)
  have un: "data \<noteq> ''''" "sj_unmarshal ?N data = Inr ((save_workspace w)
      \<lparr>sv_explorations := map blank_exploration (sv_explorations (save_workspace w))\<rparr>)"
    using laws(1) data by (auto simp: json_law_def encode_workspace_def)
  obtain ys where ys: "map_res (load_exploration ?L) (map blank_exploration (map (\<lambda>(i, x). save_exploration x) ?xs)) = Inr ys"
      "map (\<lambda>y. v_id (x_view y)) ys = map fst ?xs" "list_all2 same_exploration (map snd ?xs) ys"
    using load_explorations_blank[OF laws(2), of ?xs] ok unfolding storable_def by blast
  have all: "foldl (\<lambda>m x. mput (v_id (x_view x)) x m) [] ys = map (\<lambda>y. (v_id (x_view y), y)) ys"
    using ys(2) ok by (subst foldl_put) (auto simp: storable_def wfm_def)
  have keys: "list_all2 (\<lambda>(k, x) (k', x'). k' = k \<and> same_exploration x x') xs (map (\<lambda>y. (v_id (x_view y), y)) ys')"
    if "map (\<lambda>y. v_id (x_view y)) ys' = map fst xs" "list_all2 same_exploration (map snd xs) ys'" for xs ys'
    using that by (auto simp: list_all2_conv_all_nth list_eq_iff_nth_eq case_prod_beta)
  show ?thesis
    using un row(2) ys all keys[OF ys(2,3)] stored
    by (simp add: load_workspace_def same decode_workspace_def save_workspace_def res_simps)
qed

end
