(* ===== verification/DurableTrial.thy ===== *)
theory DurableTrial
  imports DurableAdmit DurableLive DurableStored
begin

text \<open>
  A trial run of the durable deployment, from an empty database to a published image: a visitor gets a
  session, restores a recovery file with one recipe and asks for its download; River hands the job to a
  renderer, whose attempt publishes. The witnesses of the durable properties are taken from this run.
\<close>

section \<open>The parts\<close>

definition trial_build :: string where
  "trial_build = replicate 55 CHR ''b''"

definition trial_token :: string where
  "trial_token = demo_tok 63"

definition trial_secret :: string where
  "trial_secret = demo_tok 64"

definition trial_river :: river where
  "trial_river = \<lparr>rv_insert = \<lambda>i b q m jobs. let n = fold max (map fst jobs) 0 + 1 in
       (mput n \<lparr>rj_kind = ''render'', rj_request = i, rj_build = b, rj_state = JAvailable, rj_attempt = 0\<rparr> jobs, n),
     rv_cancel = \<lambda>n jobs. map_option (\<lambda>j. mput n (j\<lparr>rj_state := JCancelled\<rparr>) jobs) (mget jobs n),
     rv_complete = \<lambda>n jobs. (case mget jobs n of None \<Rightarrow> jobs | Some j \<Rightarrow> mput n (j\<lparr>rj_state := JCompleted\<rparr>) jobs,
       JCompleted)\<rparr>"

definition trial_policy :: policy where
  "trial_policy = \<lparr>p_profile = ''production'', p_read_ip = rate_of 1200 120, p_asset_ip = rate_of 3000 300,
     p_start_ip = rate_of 60 12, p_generate_ip = rate_of 120 24, p_generate_visitor = rate_of 30 6,
     p_outstanding = 16, p_visitor_jobs = 4, p_queue_age = 120, p_image_readers = 32, p_image_buffer = 64,
     p_image_wait = 2000\<rparr>"

definition trial_conf :: dbconf where
  "trial_conf = \<lparr>dc_build = trial_build, dc_instance = \<lparr>di_id = ''web-1'', di_role = ''web'', di_hostname = ''h'',
     di_name = ''h'', di_build = trial_build\<rparr>, dc_policy = trial_policy, dc_river = trial_river\<rparr>"

definition trial_tx :: "char \<Rightarrow> dbenv" where
  "trial_tx c = \<lparr>de_lib = demo_lib, de_now = 0, de_fault = \<lambda>s. None, de_commit = None,
     de_exec = \<lambda>i. replicate 48 c, de_md5 = \<lambda>x. replicate 32 CHR ''m''\<rparr>"

lemma trial_tx_simps [simp]:
  "de_lib (trial_tx c) = demo_lib" "de_now (trial_tx c) = 0" "de_fault (trial_tx c) s = None" "de_commit (trial_tx c) = None"
  "de_exec (trial_tx c) i = replicate 48 c" "de_md5 (trial_tx c) x = replicate 32 CHR ''m''"
  "commit (trial_tx c) d d' ok fail = (d', ok)"
  by (simp_all add: trial_tx_def commit_def)

lemma trial_conf_simps [simp]:
  "dc_build trial_conf = trial_build" "dc_river trial_conf = trial_river" "p_outstanding (dc_policy trial_conf) = 16"
  "p_visitor_jobs (dc_policy trial_conf) = 4" "p_queue_age (dc_policy trial_conf) = 120"
  by (simp_all add: trial_conf_def trial_policy_def)

lemma trial_hash [simp]: "gl_sha256 demo_lib s = s" "token_hash demo_lib s = s"
  by (simp_all add: demo_lib_def token_hash_def)

lemma max_keys: "(n :: int) \<in> set ns \<Longrightarrow> n \<le> fold max ns m" "m \<le> fold max ns m"
  by (induction ns arbitrary: m) (auto intro: order_trans[OF max.cobounded2] order_trans[OF max.cobounded1])

lemma trial_inserts: "river_inserts trial_river"
proof -
  have "mget jobs (fold max (map fst jobs) 0 + 1) = None" for jobs :: river_jobs
    using max_keys(1)[of _ "map fst jobs" 0] by (force simp: map_of_eq_None_iff)
  then show ?thesis by (simp add: river_inserts_def trial_river_def Let_def)
qed

section \<open>The session\<close>

text \<open>The recipe as the stored form gives it back.\<close>

definition trial_recipe :: recipe where
  "trial_recipe = (case decode demo_lib ''canon'' of Inr r \<Rightarrow> r | Inl e \<Rightarrow> zero_recipe)"

lemma trial_recipe: "decode demo_lib ''canon'' = Inr trial_recipe" "r_canonical trial_recipe = ''canon''"
proof -
  obtain st where "decode demo_lib ''canon'' = Inr (demo_recipe st)" using demo_decode[of "''canon''"] by auto
  then show "decode demo_lib ''canon'' = Inr trial_recipe" "r_canonical trial_recipe = ''canon''"
    by (simp_all add: trial_recipe_def demo_recipe_def)
qed

lemma trial_canon: "\<exists>r. publish_validate demo_lib ''canon'' = Inr r \<and> r_id r = ''iris'' \<and> r_canonical r = ''canon''"
proof -
  have "public_recipe demo_lib (demo_recipe demo_traits)" using demo_validate by (auto simp: public_recipe_def)
  from public_revalidates[OF demo_faithful this] show ?thesis by (simp add: demo_recipe_def)
qed

definition trial_exploration :: "recipe \<Rightarrow> string \<Rightarrow> exploration" where
  "trial_exploration r download = with_samples [(restored_sample (demo_tok 1) r)\<lparr>sa_download := download\<rparr>]
     (new_exploration (demo_tok 0) ''iris'' '''' '''')"

definition trial_workspace :: "exploration list \<Rightarrow> workspace" where
  "trial_workspace xs = \<lparr>ws_token = trial_token, ws_csrf = trial_secret, ws_created = zero_time, ws_touched = 0,
     ws_explorations = map (\<lambda>x. (demo_tok 0, x)) xs, ws_entries = []\<rparr>"

definition trial_key :: string where
  "trial_key = ''canon'' @ ''1200'' @ trial_build"

text \<open>The two saved forms of this run, and a JSON package that knows them.\<close>

definition trial_restored :: workspace where
  "trial_restored = trial_workspace [trial_exploration (demo_recipe demo_traits) '''']"

definition trial_asked :: workspace where
  "trial_asked = trial_workspace [trial_exploration trial_recipe trial_key]"

definition trial_json :: snapshot_json where
  "trial_json = \<lparr>sj_marshal = \<lambda>v. if v = save_workspace trial_restored then Inr ''restored''
       else if v = save_workspace trial_asked then Inr ''asked'' else Inl (ErrMsg ''json''),
     sj_unmarshal = \<lambda>s. let back = \<lambda>w. let v = save_workspace w in
         Inr (v\<lparr>sv_explorations := map blank_exploration (sv_explorations v)\<rparr>) in
       if s = ''restored'' then back trial_restored else if s = ''asked'' then back trial_asked else Inl (ErrMsg ''json'')\<rparr>"

lemma trial_json_law: "json_law trial_json v"
  by (simp add: json_law_def trial_json_def Let_def)

lemma trial_key_props: "length trial_key = 64" "trial_key \<noteq> ''''" "safe_key (image_key trial_key (replicate 48 CHR ''a''))"
  by (simp_all add: trial_key_def trial_build_def image_key_def safe_key_def key_char_def numeral_eq_Suc)

lemma trial_saves: "sj_marshal trial_json (save_workspace trial_restored) = Inr ''restored''"
  "sj_marshal trial_json (save_workspace trial_asked) = Inr ''asked''"
proof -
  have "save_workspace trial_asked \<noteq> save_workspace trial_restored"
    using trial_key_props(2) by (simp add: save_workspace_def trial_asked_def trial_restored_def trial_workspace_def
      trial_exploration_def save_exploration_def with_samples_def new_exploration_def restored_sample_def)
  then show "sj_marshal trial_json (save_workspace trial_restored) = Inr ''restored''"
    "sj_marshal trial_json (save_workspace trial_asked) = Inr ''asked''" by (simp_all add: trial_json_def)
qed

definition trial_penv :: "char \<Rightarrow> nat \<Rightarrow> persist_env" where
  "trial_penv c n = \<lparr>ps_conf = trial_conf, ps_tx = trial_tx c, ps_json = trial_json,
     ps_studio = (demo_env 0)\<lparr>ev_token := \<lambda>k. demo_tok (k + n)\<rparr>, ps_sqlstate = \<lambda>e. False\<rparr>"

lemma trial_penv_simps [simp]:
  "ps_conf (trial_penv c n) = trial_conf" "ps_tx (trial_penv c n) = trial_tx c" "ps_json (trial_penv c n) = trial_json"
  "ev_lib (ps_studio (trial_penv c n)) = demo_lib" "ev_now (ps_studio (trial_penv c n)) = 0"
  "ev_token (ps_studio (trial_penv c n)) k = demo_tok (k + n)"
  by (simp_all add: trial_penv_def demo_env_def)

section \<open>The visits\<close>

definition trial_empty :: "int db" where
  "trial_empty = \<lparr>db_enabled = True, db_build = trial_build, db_epoch = 1, db_bound = True, db_location = ''bucket'',
     db_cursor = '''', db_workspaces = [], db_requests = [], db_interests = [], db_artifacts = [], db_pins = [],
     db_uploads = [], db_buckets = [], db_renderers = [], db_instances = [], db_jobs = []\<rparr>"

definition trial_row :: "string \<Rightarrow> workspace_row" where
  "trial_row data = \<lparr>dw_csrf = trial_secret, dw_touched = 0, dw_expires = 90 * day, dw_data = data\<rparr>"

definition trial_session :: "string \<Rightarrow> int db" where
  "trial_session data = trial_empty\<lparr>db_workspaces := [(trial_token, trial_row data)]\<rparr>"

lemma trial_token_length: "length trial_token = 64"
  by (simp add: trial_token_def demo_tok_def)

lemma trial_create: "persist_create (trial_penv c 63) trial_empty = (trial_session '''', Inr (trial_token, trial_secret))"
  using trial_token_length
  by (simp add: persist_create_def Let_def trial_empty_def trial_session_def trial_row_def trial_token_def trial_secret_def)

text \<open>A transaction that runs to its end.\<close>

lemma trial_transaction:
  assumes "load_workspace P k d = Inr w" "k = token_hash (de_lib (ps_tx P)) t" "ps_tx P = trial_tx c"
    and "fn (loaded_store P k w d) k = (s, Inr v)" "so_queue s = Some q" "qt_err q = None"
    and "mget (so_workspaces s) k = Some w'" "save P k w' q = Inr d'"
  shows "transaction P t True fn d = (d', Inr v)"
  using assms by (simp add: transaction_def Let_def)

lemma trial_fields:
  "ws_explorations (trial_workspace xs) = map (\<lambda>x. (demo_tok 0, x)) xs" "ws_entries (trial_workspace xs) = []"
  "v_samples (x_view (trial_exploration r dl)) = [(restored_sample (demo_tok 1) r)\<lparr>sa_download := dl\<rparr>]"
  "v_id (x_view (trial_exploration r dl)) = demo_tok 0"
  by (simp_all add: trial_workspace_def trial_exploration_def with_samples_def new_exploration_def)

lemma trial_load_new:
  "load_workspace (trial_penv c n) trial_token (trial_session '''') = Inr ((trial_workspace [])\<lparr>ws_touched := zero_time\<rparr>)"
  by (simp add: load_workspace_def trial_session_def trial_row_def decode_workspace_def trial_workspace_def day_def minute_def)

lemma trial_saved: "save (trial_penv c n) trial_token trial_restored \<lparr>qt_db = trial_session '''', qt_err = None\<rparr>
    = Inr (trial_session ''restored'')"
  by (simp add: save_def Let_def encode_workspace_def trial_saves)
      (simp add: workspace_bytes_def trial_session_def trial_row_def
        update_rows_def write_pins_def kept_samples_def workspace_samples_def trial_restored_def trial_fields restored_sample_def
        obsolete_interests_def trial_empty_def)

lemma trial_restores: "persist_restore (trial_penv c 0) trial_token [''short''] (trial_session '''')
    = (trial_session ''restored'', Inr (demo_tok 0))"
  unfolding persist_restore_def
proof (rule trial_transaction[OF trial_load_new])
  let ?P = "trial_penv c 0"
  let ?s = "loaded_store ?P trial_token ((trial_workspace [])\<lparr>ws_touched := zero_time\<rparr>) (trial_session '''')"
  let ?q = "\<lparr>qt_db = trial_session '''', qt_err = None\<rparr>"
  have t: "demo_tok n \<noteq> ''''" for n by (simp add: demo_tok_def)
  have w: "studio_workspace (ps_studio ?P) J trial_token ?s = (?s\<lparr>so_workspaces := [(trial_token, trial_workspace [])]\<rparr>, Inr (trial_workspace []))" for J
    by (simp add: studio_workspace_def studio_prune_def loaded_store_def Let_def trial_workspace_def)
  show "studio_restore (ps_studio ?P) (ps_jobs ?P) trial_token [''short''] ?s
      = (?s\<lparr>so_workspaces := [(trial_token, trial_restored)], so_drawn := 2\<rparr>, Inr (demo_tok 0))"
    unfolding studio_restore_def
    by (simp add: demo_validate w t recipe_bytes_def)
      (simp add: trial_workspace_def loaded_store_def new_store_def draw_token_def Let_def append_sample_def exploration_of_def
        put_exploration_def put_workspace_def demo_recipe_def trial_restored_def trial_exploration_def with_samples_def
        new_exploration_def restored_sample_def t)
  show "so_queue (?s\<lparr>so_workspaces := [(trial_token, trial_restored)], so_drawn := 2\<rparr>) = Some ?q"
    by (simp add: loaded_store_def new_store_def)
  show "save ?P trial_token trial_restored ?q = Inr (trial_session ''restored'')" by (rule trial_saved)
qed simp_all

lemma trial_load_restored: "load_workspace (trial_penv c n) trial_token (trial_session ''restored'')
    = Inr ((trial_workspace [trial_exploration trial_recipe ''''])\<lparr>ws_touched := zero_time\<rparr>)"
  by (simp add: load_workspace_def trial_session_def trial_row_def decode_workspace_def day_def minute_def
      trial_json_def Let_def save_workspace_def trial_restored_def trial_fields save_exploration_def load_exploration_def blank_exploration_def
      trial_recipe restored_sample_def blank_sample_def demo_recipe_def trial_workspace_def trial_exploration_def with_samples_def new_exploration_def)

definition trial_request :: request where
  "trial_request = \<lparr>q_version = 1, q_build = trial_build, q_recipe = ''canon'', q_tier = ''download''\<rparr>"

definition trial_job :: "rstate \<Rightarrow> int \<Rightarrow> river_job" where
  "trial_job st n = \<lparr>rj_kind = ''render'', rj_request = trial_key, rj_build = trial_build, rj_state = st, rj_attempt = n\<rparr>"

definition trial_queued :: "string \<Rightarrow> char \<Rightarrow> int db" where
  "trial_queued data c = (trial_session data)\<lparr>db_jobs := [(1, trial_job JAvailable 0)],
     db_requests := [(trial_key, \<lparr>dr_recipe = ''canon'', dr_tier = ''download'', dr_build = trial_build, dr_job = 1,
       dr_generation = replicate 48 c, dr_epoch = 1, dr_outcome = Queued, dr_created = 0, dr_started = None\<rparr>)],
     db_interests := [(trial_token, trial_key)]\<rparr>"

lemma trial_build_nonempty: "trial_build \<noteq> ''''"
  by (simp add: trial_build_def)

lemma trial_iris: "tier ''iris'' ''download'' = Inr \<lparr>rn_width = 1200, rn_height = 1200, rn_aa = 1, rn_format = ''png''\<rparr>"
  by (simp add: tier_def get_entry_simps)

lemma trial_admit: "queue_admit trial_conf (trial_tx c) trial_token [trial_request] \<lparr>qt_db = trial_session data, qt_err = None\<rparr>
    = (\<lparr>qt_db = trial_queued data c, qt_err = None\<rparr>, Inr [trial_key])"
proof -
  obtain r where r: "publish_validate demo_lib ''canon'' = Inr r" "r_id r = ''iris''" "r_canonical r = ''canon''"
    using trial_canon by blast
  have q: "q_recipe trial_request = ''canon''" "q_tier trial_request = ''download''" by (simp_all add: trial_request_def)
  have v: "request_validate demo_lib trial_request trial_build = None"
    using r trial_iris trial_build_nonempty by (simp add: request_validate_def trial_request_def)
  have k: "recipe_key demo_lib r \<lparr>rn_width = 1200, rn_height = 1200, rn_aa = 1, rn_format = ''png''\<rparr> trial_build = trial_key"
    using r(3) by (simp add: recipe_key_def trial_key_def)
      (simp add: demo_lib_def format_int_def format_nat.simps digit_char_def Let_def char_of_def bit_0)
  have "queue_admit_one trial_conf (trial_tx c) trial_token trial_build 1 trial_request (trial_session data)
      = Inr (trial_queued data c, trial_key)"
    using trial_key_props
    by (simp add: queue_admit_one_def v q r trial_iris k Let_def trial_session_def trial_empty_def subscribers_def owned_jobs_def
        request_active_def enqueue_def outstanding_def trial_river_def request_row_ok_def queued_row_def add_interest_def
        trial_job_def trial_queued_def)
  then show ?thesis
    by (simp add: queue_admit_def Let_def) (simp add: trial_session_def trial_empty_def)
qed

lemma trial_asks: "persist_download (trial_penv c 0) trial_token (demo_tok 0) (demo_tok 1) (trial_session ''restored'')
    = (trial_queued ''asked'' c, Inr ())"
  unfolding persist_download_def
proof (rule trial_transaction[OF trial_load_restored])
  let ?P = "trial_penv c 0"
  let ?w = "trial_workspace [trial_exploration trial_recipe '''']"
  let ?s = "loaded_store ?P trial_token (?w\<lparr>ws_touched := zero_time\<rparr>) (trial_session ''restored'')"
  let ?q = "\<lparr>qt_db = trial_queued ''restored'' c, qt_err = None\<rparr>"
  let ?s1 = "?s\<lparr>so_workspaces := [(trial_token, ?w)]\<rparr>"
  let ?s2 = "?s\<lparr>so_workspaces := [(trial_token, trial_asked)], so_queue := Some ?q\<rparr>"
  have f: "studio_find (ps_studio ?P) J trial_token (demo_tok 0) ?s = (?s1, Inr (trial_exploration trial_recipe ''''))" for J
    by (simp add: studio_find_def studio_workspace_def studio_prune_def loaded_store_def Let_def trial_workspace_def)
  have "studio_download (ps_studio ?P) (ps_jobs ?P) trial_token (demo_tok 0) (demo_tok 1) ?s = (?s2, None)"
    unfolding studio_download_def f
    using trial_admit[of c "''restored''"]
    by (simp add: trial_fields restored_sample_def loaded_store_def new_store_def durable_jobs_def trial_recipe trial_request_def
        put_exploration_def put_workspace_def trial_asked_def trial_workspace_def)
      (simp add: trial_exploration_def with_samples_def new_exploration_def restored_sample_def)
  then show "unit_res (studio_download (ps_studio ?P) (ps_jobs ?P) trial_token (demo_tok 0) (demo_tok 1) ?s) = (?s2, Inr ())"
    by (simp add: unit_res_def)
  show "save ?P trial_token trial_asked ?q = Inr (trial_queued ''asked'' c)"
    using trial_key_props(2)
    by (simp add: save_def Let_def encode_workspace_def trial_saves)
      (simp add: workspace_bytes_def trial_queued_def trial_session_def trial_row_def
        update_rows_def write_pins_def kept_samples_def workspace_samples_def trial_asked_def trial_fields restored_sample_def
        obsolete_interests_def trial_empty_def referred_def)
qed simp_all

section \<open>The deployment\<close>

definition trial_running :: "int db" where
  "trial_running = (trial_queued ''asked'' CHR ''3'')\<lparr>db_jobs := [(1, trial_job JRunning 1)]\<rparr>"

definition trial_attempt :: "phase \<Rightarrow> attempt" where
  "trial_attempt p = \<lparr>at_job = 1, at_attempt = 1, at_request = trial_key, at_build = trial_build,
     at_generation = replicate 48 CHR ''a'', at_phase = p\<rparr>"

definition trial_start :: "int db \<Rightarrow> string set \<Rightarrow> int world" where
  "trial_start d D = \<lparr>wd_db = d, wd_objects = [], wd_attempts = [], wd_runs = [], wd_seen = [], wd_drawn = D\<rparr>"

definition trial_world :: "int world" where
  "trial_world = (trial_start trial_running (replicate 48 ` {CHR ''1'', CHR ''2'', CHR ''3'', CHR ''a''}))
     \<lparr>wd_attempts := [trial_attempt PhCheck]\<rparr>"

lemma trial_visit:
  assumes "durable_reachable demo_lib (trial_start d (replicate 48 ` D))" "c \<notin> D" "visit_tx (trial_penv c n) v d = d'"
  shows "durable_reachable demo_lib (trial_start d' (replicate 48 ` insert c D))"
proof -
  let ?w = "trial_start d (replicate 48 ` D)"
  have "replicate 48 c \<notin> replicate 48 ` D" using assms(2) by auto
  then have "DurableWorld.env_ok demo_lib (wd_drawn ?w) (ps_tx (trial_penv c n))"
    by (simp add: DurableWorld.env_ok_def trial_start_def)
  from durable_reachable.step[OF assms(1) durable_step.visit[OF this, of v]] assms(3)
  show ?thesis by (simp add: trial_start_def image_constant_conv)
qed

lemma trial_reachable: "durable_reachable demo_lib trial_world"
proof -
  have "durable_reachable demo_lib (trial_start trial_empty (replicate 48 ` {}))"
    by (rule durable_reachable.init) (simp add: durable_init_def trial_start_def trial_empty_def)
  from trial_visit[OF this, where c = "CHR ''1''" and n = 63 and v = VCreate, OF _ refl]
  have 1: "durable_reachable demo_lib (trial_start (trial_session '''') (replicate 48 ` {CHR ''1''}))"
    by (simp add: trial_create)
  from trial_visit[OF 1, where c = "CHR ''2''" and n = 0 and v = "VRestore trial_token [''short'']", OF _ refl]
  have 2: "durable_reachable demo_lib (trial_start (trial_session ''restored'') (replicate 48 ` {CHR ''1'', CHR ''2''}))"
    by (simp add: trial_restores insert_commute)
  from trial_visit[OF 2, where c = "CHR ''3''" and n = 0 and v = "VDownload trial_token (demo_tok 0) (demo_tok 1)", OF _ refl]
  have 3: "durable_reachable demo_lib (trial_start (trial_queued ''asked'' CHR ''3'') (replicate 48 ` {CHR ''1'', CHR ''2'', CHR ''3''}))"
    by (simp add: trial_asks[simplified] insert_commute)
  from durable_reachable.step[OF 3 durable_step.river[of _ _ "[(1, trial_job JRunning 1)]"]]
  have 4: "durable_reachable demo_lib (trial_start trial_running (replicate 48 ` {CHR ''1'', CHR ''2'', CHR ''3''}))"
    by (simp add: trial_start_def trial_running_def)
  let ?w = "trial_start trial_running (replicate 48 ` {CHR ''1'', CHR ''2'', CHR ''3''})"
  have "durable_step demo_lib ?w (?w\<lparr>wd_attempts := wd_attempts ?w @ [trial_attempt PhCheck],
      wd_drawn := insert (at_generation (trial_attempt PhCheck)) (wd_drawn ?w)\<rparr>)"
    by (rule durable_step.attempt) (simp_all add: trial_attempt_def trial_start_def)
  from durable_reachable.step[OF 4 this] show ?thesis
    by (simp add: trial_world_def trial_start_def trial_attempt_def insert_commute)
qed

section \<open>The renderer\<close>

definition trial_bucket :: object_store where
  "trial_bucket = \<lparr>ob_bucket = ''b'', ob_prefix = ''artifacts/'', ob_location = ''bucket''\<rparr>"

definition trial_work :: workenv where
  "trial_work = \<lparr>we_tx = trial_tx CHR ''w'', we_ctx = None, we_health = None, we_render = \<lambda>q. (''PNG'', None),
     we_put = None, we_png = \<lparr>pn_size = \<lambda>b. Some (1200, 1200), pn_decodes = \<lambda>b. True\<rparr>, we_serial = \<lambda>e. False\<rparr>"

definition trial_request_row :: request_row where
  "trial_request_row = \<lparr>dr_recipe = ''canon'', dr_tier = ''download'', dr_build = trial_build, dr_job = 1,
     dr_generation = replicate 48 CHR ''3'', dr_epoch = 1, dr_outcome = Queued, dr_created = 0, dr_started = None\<rparr>"

lemma trial_running_fields:
  "db_bound trial_running" "db_location trial_running = ''bucket''" "db_build trial_running = trial_build" "db_epoch trial_running = 1"
  "mget (db_jobs trial_running) 1 = Some (trial_job JRunning 1)" "mget (db_requests trial_running) trial_key = Some trial_request_row"
  "db_interests trial_running = [(trial_token, trial_key)]" "db_uploads trial_running = []" "db_artifacts trial_running = []"
  by (simp_all add: trial_running_def trial_queued_def trial_session_def trial_empty_def trial_request_row_def)

lemma trial_live: "live_interest (trial_tx c) trial_running trial_key"
  by (simp add: live_interest_def trial_running_fields)
    (simp add: live_workspace_def trial_running_def trial_queued_def trial_session_def trial_row_def day_def minute_def)

lemma trial_calm: "calm demo_lib trial_work"
  by (simp add: calm_def trial_work_def trial_tx_def)

lemma trial_wanted: "wanted trial_conf trial_bucket (trial_attempt p) trial_request_row trial_running"
  by (simp add: wanted_def trial_running_fields trial_attempt_def trial_bucket_def trial_job_def) (simp add: trial_request_row_def)

lemma trial_image: "check_image trial_work trial_request ''PNG'' = None"
proof -
  obtain r where "publish_validate demo_lib ''canon'' = Inr r" "r_id r = ''iris''" using trial_canon by blast
  then show ?thesis by (simp add: check_image_def trial_work_def trial_request_def trial_iris MaxImage_def)
qed

lemma trial_work_fields: "we_tx trial_work = trial_tx CHR ''w''" "we_render trial_work q = (''PNG'', None)"
  by (simp_all add: trial_work_def)

lemma trial_not_overdue: "\<not> overdue trial_conf (we_tx trial_work) trial_request_row"
  by (simp add: overdue_def trial_request_row_def trial_work_fields second_def)

lemma trial_world_fields: "0 < length (wd_attempts trial_world)" "trial_attempt PhCheck = wd_attempts trial_world ! 0"
  "at_phase (trial_attempt p) = p" "trial_running = wd_db trial_world" "at_request (trial_attempt p) = trial_key"
  "at_key (trial_attempt p) = image_key trial_key (replicate 48 CHR ''a'')"
  by (simp_all add: trial_world_def trial_start_def trial_attempt_def at_key_def)

abbreviation trial_works :: "workenv list" where
  "trial_works \<equiv> [trial_work, trial_work, trial_work, trial_work, trial_work, trial_work]"

lemma trial_facts:
  "list_all (calm demo_lib) trial_works"
  "live_interest (we_tx trial_work) trial_running (at_request (trial_attempt p))"
  "trial_request = \<lparr>q_version = 1, q_build = db_build trial_running, q_recipe = dr_recipe trial_request_row, q_tier = dr_tier trial_request_row\<rparr>"
  "''PNG'' \<noteq> ''''" "upload_bytes trial_running + int (length ''PNG'') \<le> 2147483648" "upload_count trial_running < 5000"
  "safe_key (at_key (trial_attempt p))" "snd (rv_complete (dc_river trial_conf) (at_job (trial_attempt p)) (db_jobs trial_running)) = JCompleted"
  by (auto simp: trial_calm trial_work_fields trial_world_fields(5,6) trial_live trial_request_def trial_running_fields
      upload_bytes_def upload_count_def cnt_eq_tot trial_river_def trial_key_props(3))
    (simp_all add: trial_request_row_def)

lemmas trial_undisturbed = trial_reachable trial_world_fields(1,2) trial_world_fields(3) trial_world_fields(4) trial_facts(1)
  trial_wanted trial_not_overdue trial_facts(2,2) trial_work_fields(2) trial_facts(3) trial_image trial_facts(4-8)

theorem attempt_publishes_witness:
  "\<exists>a d obs (b :: artifact_row). work_run trial_conf trial_bucket trial_works (trial_attempt PhCheck) trial_running [] = (a, d, obs)
    \<and> at_phase a = PhDone None \<and> object_get demo_lib None (da_key b) (da_digest b) (da_size b) obs = Inr ''PNG''
    \<and> st_state (queue_status (trial_tx CHR ''r'') trial_token trial_key \<lparr>qt_db = d, qt_err = None\<rparr>) = Ready"
proof -
  have o: "wd_objects trial_world = []" by (simp add: trial_world_def trial_start_def)
  obtain a d obs and b :: artifact_row
    where run: "work_run trial_conf trial_bucket trial_works (trial_attempt PhCheck) trial_running [] = (a, d, obs)"
      "at_phase a = PhDone None" "object_get demo_lib None (da_key b) (da_digest b) (da_size b) obs = Inr ''PNG''"
      "da_expires b = de_now (we_tx trial_work) + day"
    and ready: "\<And>V e owner. (owner, at_request (trial_attempt PhCheck)) \<in> set (db_interests trial_running) \<Longrightarrow> de_now V < da_expires b
        \<Longrightarrow> st_state (queue_status V owner (at_request (trial_attempt PhCheck)) \<lparr>qt_db = d, qt_err = e\<rparr>) = Ready"
    using attempt_publishes[OF trial_undisturbed] unfolding o by blast
  have "de_now (trial_tx CHR ''r'') < da_expires b" using run(4) by (simp add: trial_work_fields day_def minute_def)
  with ready[of trial_token "trial_tx CHR ''r''" None] run show ?thesis
    by (auto simp: trial_running_fields trial_world_fields(5))
qed

section \<open>The published image\<close>

lemma trial_published: "\<exists>(w :: int world) b. durable_reachable demo_lib w \<and> mget (db_artifacts (wd_db w)) trial_key = Some b
  \<and> da_expires b = day"
proof -
  have o: "wd_objects trial_world = []" by (simp add: trial_world_def trial_start_def)
  obtain a d obs b where run: "work_run trial_conf trial_bucket trial_works (wd_attempts trial_world ! 0) (wd_db trial_world)
      (wd_objects trial_world) = (a, d, obs)"
    and b: "mget (db_artifacts d) trial_key = Some b" "da_expires b = day"
    using undisturbed_publishes[OF trial_undisturbed]
    unfolding trial_world_fields(2,4,5)[symmetric] by (auto simp: trial_world_fields(5) trial_work_fields)
  from reachable_run[OF trial_reachable trial_world_fields(1) _ run]
  have "durable_reachable demo_lib (trial_world\<lparr>wd_attempts := (wd_attempts trial_world)[0 := a], wd_db := d, wd_objects := obs\<rparr>)"
    by (simp add: trial_work_fields)
  with b show ?thesis by force
qed

theorem artifacts_readable_witness:
  "\<exists>(w :: int world) a b. durable_reachable demo_lib w \<and> mget (db_artifacts (wd_db w)) trial_key = Some a
    \<and> object_get demo_lib None (da_key a) (da_digest a) (da_size a) (wd_objects w) = Inr b"
proof -
  obtain w :: "int world" and a where w: "durable_reachable demo_lib w" "mget (db_artifacts (wd_db w)) trial_key = Some a"
    using trial_published by blast
  from artifacts_readable[OF w] w show ?thesis by blast
qed

theorem durable_bounds_witness:
  "upload_count (wd_db trial_world) \<le> 5000 \<and> interests_of (wd_db trial_world) trial_key \<le> 24"
  using durable_bounds[OF trial_reachable, of trial_key] by simp

section \<open>Cancellation\<close>

lemma trial_begun: "\<exists>(w :: int world) e. durable_reachable demo_lib w \<and> length (wd_attempts w) = 1
  \<and> wd_attempts w ! 0 = trial_attempt (PhRender trial_request e) \<and> db_interests (wd_db w) = [(trial_token, trial_key)]"
proof -
  have go: "(trial_attempt p)\<lparr>at_phase := p'\<rparr> = trial_attempt p'" for p p' by (simp add: trial_attempt_def)
  have w: "wd_attempts trial_world = [trial_attempt PhCheck]" "wd_db trial_world = trial_running" "wd_objects trial_world = []"
    by (simp_all add: trial_world_def trial_start_def)
  have a: "work_step trial_conf trial_bucket trial_work (trial_attempt PhCheck) trial_running [] = (trial_attempt (PhBegin 0), trial_running, [])"
    using trial_calm trial_wanted[of PhCheck]
    by (simp add: work_step_def trial_world_fields(3) check_bucket_def wanted_def Let_def go calm_fields)
  obtain t where "work_begin trial_conf (we_tx trial_work) (trial_attempt (PhBegin 0)) trial_running = (trial_running\<lparr>db_requests :=
      mput trial_key (trial_request_row\<lparr>dr_generation := at_generation (trial_attempt (PhBegin 0)), dr_outcome := Running,
        dr_started := t\<rparr>) (db_requests trial_running)\<rparr>, Inr (trial_request, db_epoch trial_running))" (is "_ = (?d, _)")
    using run_begin[OF trial_calm trial_wanted trial_facts(2) trial_not_overdue, of "PhBegin 0"] unfolding trial_facts(3)
    by (auto simp: trial_world_fields(5))
  then have b: "work_step trial_conf trial_bucket trial_work (trial_attempt (PhBegin 0)) trial_running []
      = (trial_attempt (PhRender trial_request (db_epoch trial_running)), ?d, [])"
    by (simp add: work_step_def trial_world_fields(3) Let_def go)
  have "work_run trial_conf trial_bucket [trial_work, trial_work] (wd_attempts trial_world ! 0) (wd_db trial_world) (wd_objects trial_world)
      = (trial_attempt (PhRender trial_request (db_epoch trial_running)), ?d, [])"
    by (simp add: w a b)
  from reachable_run[OF trial_reachable trial_world_fields(1) _ this] show ?thesis
    by (intro exI, rule conjI) (simp_all add: trial_work_fields trial_running_fields, simp add: trial_world_def trial_start_def)
qed

theorem cancelled_attempt_fenced_witness:
  "\<exists>(w :: int world) e a d obs. durable_reachable demo_lib w \<and> at_phase (wd_attempts w ! 0) = PhRender trial_request e
    \<and> work_step trial_conf trial_bucket trial_work (wd_attempts w ! 0)
        (release_interest trial_conf (trial_tx CHR ''c'') trial_token trial_key (wd_db w)) (wd_objects w) = (a, d, obs)
    \<and> db_uploads d = db_uploads (release_interest trial_conf (trial_tx CHR ''c'') trial_token trial_key (wd_db w))"
proof -
  obtain w :: "int world" and e where w: "durable_reachable demo_lib w" "length (wd_attempts w) = 1"
    "wd_attempts w ! 0 = trial_attempt (PhRender trial_request e)" "db_interests (wd_db w) = [(trial_token, trial_key)]"
    using trial_begun by blast
  have r: "at_request (wd_attempts w ! 0) = trial_key" "at_phase (wd_attempts w ! 0) = PhRender trial_request e"
    by (simp_all add: w(3) trial_world_fields(3,5))
  let ?w = "w\<lparr>wd_db := release_interest trial_conf (trial_tx CHR ''c'') trial_token (at_request (wd_attempts w ! 0)) (wd_db w)\<rparr>"
  obtain a d obs where s: "work_step trial_conf trial_bucket trial_work (wd_attempts ?w ! 0) (wd_db ?w) (wd_objects ?w) = (a, d, obs)"
    by (cases "work_step trial_conf trial_bucket trial_work (wd_attempts ?w ! 0) (wd_db ?w) (wd_objects ?w)")
  have "db_uploads d = db_uploads (wd_db ?w)"
    using cancelled_attempt_fenced[OF w(1) _ _ _ _ rtranclp.rtrancl_refl s] w(2,4) r by simp
  then show ?thesis using w(1) r s by auto
qed

section \<open>Admission and storage\<close>

theorem durable_admit_serves_witness:
  "provided (trial_tx CHR ''3'') (trial_queued '''' CHR ''3'') trial_token trial_key
    \<and> request_id demo_lib trial_build trial_request = Inr trial_key"
proof -
  let ?t = "\<lparr>qt_db = trial_session '''', qt_err = None\<rparr>"
  have "wfm (db_jobs (qt_db ?t))" "mget (db_requests (qt_db ?t)) '''' = None"
    by (simp_all add: trial_session_def trial_empty_def)
  from durable_admit_serves[OF trial_admit _ this] show ?thesis using trial_inserts by simp
qed

lemma trial_restored_ok: "ws_ok demo_lib {demo_tok 0, demo_tok 1} trial_restored"
proof -
  have "public_recipe demo_lib (demo_recipe demo_traits)" using demo_validate by (auto simp: public_recipe_def)
  then show ?thesis
    by (simp add: ws_ok_def trial_restored_def trial_workspace_def count_favourites_def expl_ok_def trial_exploration_def with_samples_def
        new_exploration_def restored_sample_def wfm_def demo_recipe_def)
qed

theorem durable_roundtrip_witness:
  "\<exists>w. load_workspace (trial_penv CHR ''5'' 0) trial_token (trial_session ''restored'') = Inr w
    \<and> map fst (ws_explorations w) = [demo_tok 0]"
proof -
  have row: "mget (db_workspaces (qt_db \<lparr>qt_db = trial_session '''', qt_err = None\<rparr>)) trial_token = Some (trial_row '''')"
    "dw_expires (trial_row '''') > de_now (ps_tx (trial_penv CHR ''5'' 0))"
    by (simp_all add: trial_session_def trial_row_def day_def minute_def)
  obtain w where w: "load_workspace (trial_penv CHR ''5'' 0) trial_token (trial_session ''restored'') = Inr w"
    and l: "list_all2 (\<lambda>(k, x) (k', x'). k' = k \<and> same_exploration x x') (ws_explorations trial_restored) (ws_explorations w)"
    using durable_roundtrip[OF trial_saved row] trial_json_law demo_faithful trial_restored_ok by auto
  then show ?thesis
    by (auto simp: trial_restored_def trial_fields list_all2_Cons1)
qed

end
