(* ===== verification/DurableServer.thy ===== *)
theory DurableServer
  imports WebProps DurableTrial
begin

text \<open>
  The web process of the deployment (\<open>cmd/artweb\<close>): the handlers in flight of \<open>internal/web\<close>, with
  \<open>Database\<close>, \<open>Objects\<close> and \<open>studio.Persistent\<close>. Its shared state is the world of \<open>DurableWorld\<close>, which other
  web processes, renderers, maintenance and River change in between; its own state is the limiter in memory
  and the counting channels. A call of a handler is one transaction of the database or one request to the
  bucket.
\<close>

record 'f durable_server =
  ds_world :: "'f world"
  ds_keys :: buckets
  ds_taken :: "slot \<Rightarrow> int"
  ds_bytes :: int
  ds_handlers :: "handler list"

text \<open>
  What one call gets from outside: the clock, faults and random values of a transaction, PostgreSQL's
  \<open>double precision\<close>, the migrations and the rows about them, and the answer of the bucket's client.
\<close>

record 'f call_env =
  ce_persist :: persist_env
  ce_arith :: "'f pg_float"
  ce_float :: "int \<Rightarrow> 'f"
  ce_migrations :: "string list"
  ce_river_rows :: "(int \<times> string) list"
  ce_river_want :: "(int \<times> string) list"
  ce_schema :: schema_table
  ce_fetch :: "err option"

abbreviation ce_tx :: "'f call_env \<Rightarrow> dbenv" where
  "ce_tx K \<equiv> ps_tx (ce_persist K)"

section \<open>One call\<close>

definition err_of :: "'a res \<Rightarrow> err option" where
  "err_of r = (case r of Inl e \<Rightarrow> Some e | Inr _ \<Rightarrow> None)"

text \<open>A transaction that may draw execution ids, and one that does not.\<close>

definition drawn :: "'f call_env \<Rightarrow> 'f world \<Rightarrow> 'f db \<times> 'a \<Rightarrow> 'f world \<times> 'a" where
  "drawn K w p = (w\<lparr>wd_db := fst p, wd_drawn := wd_drawn w \<union> range (de_exec (ce_tx K))\<rparr>, snd p)"

definition changed :: "'f world \<Rightarrow> 'f db \<times> 'a \<Rightarrow> 'f world \<times> 'a" where
  "changed w p = (w\<lparr>wd_db := fst p\<rparr>, snd p)"

fun done_tx :: "'f call_env \<Rightarrow> done_call \<Rightarrow> 'f world \<Rightarrow> 'f world \<times> err option" where
  "done_tx K (CallChoices t i n sty col) w =
     apsnd err_of (drawn K w (persist_choices (ce_persist K) t i n sty col (wd_db w)))"
| "done_tx K (CallFavourite t i sid n on) w =
     apsnd err_of (drawn K w (persist_favourite (ce_persist K) t i sid n on (wd_db w)))"
| "done_tx K (CallCancel t i n bid) w = apsnd err_of (drawn K w (persist_cancel (ce_persist K) t i n bid (wd_db w)))"
| "done_tx K (CallDownload t i sid) w = apsnd err_of (drawn K w (persist_download (ce_persist K) t i sid (wd_db w)))"
| "done_tx K (CallClear t) w = apsnd err_of (drawn K w (persist_clear (ce_persist K) t (wd_db w)))"
| "done_tx K (CallTouch t) w = drawn K w (persist_touch (ce_persist K) t (wd_db w))"
| "done_tx K (CallMissing i key) w = changed w (db_missing (ce_tx K) i key (wd_db w))"
| "done_tx K CallSchema w = (w, case de_fault (ce_tx K) ''schema'' of Some e \<Rightarrow> Some e
     | None \<Rightarrow> check_schema (de_lib (ce_tx K)) (ce_migrations K) (ce_river_rows K) (ce_river_want K) (ce_schema K))"

fun pair_tx :: "'f call_env \<Rightarrow> pair_call \<Rightarrow> 'f world \<Rightarrow> 'f world \<times> (string \<times> string) res" where
  "pair_tx K CallCreate w = drawn K w (persist_create (ce_persist K) (wd_db w))"
| "pair_tx K (CallSession t) w = (w, persist_session (ce_persist K) t (wd_db w))"

fun text_tx :: "'f call_env \<Rightarrow> text_call \<Rightarrow> 'f world \<Rightarrow> 'f world \<times> string res" where
  "text_tx K (CallEnter t art sty col aid) w = drawn K w (persist_enter (ce_persist K) t art sty col aid (wd_db w))"
| "text_tx K (CallRestore t recipes) w = drawn K w (persist_restore (ce_persist K) t recipes (wd_db w))"
| "text_tx K (CallRetry t i n aid bid) w = drawn K w (persist_retry (ce_persist K) t i n aid bid (wd_db w))"
| "text_tx K (CallGenerate t i n aid sel different) w =
     drawn K w (persist_generate (ce_persist K) t i n aid sel different (wd_db w))"

text \<open>\<open>Artifact\<close>: the pointer is remembered as one that a reader has.\<close>

definition meta_tx :: "'f call_env \<Rightarrow> string \<Rightarrow> 'f world \<Rightarrow> 'f world \<times> artifact_meta res" where
  "meta_tx K i w = (case db_artifact (ce_tx K) i (wd_db w) of
       Inl e \<Rightarrow> (w, Inl e)
     | Inr a \<Rightarrow> (w\<lparr>wd_seen := (i, da_key a) # wd_seen w\<rparr>,
         Inr \<lparr>am_key = da_key a, am_digest = da_digest a, am_size = da_size a\<rparr>))"

text \<open>
  A slot of a channel, or bytes of the weighted semaphore, are granted only when they fit. A request that may
  wait for them can also be refused when they do: its wait ends, its client leaves, or others wait before it.
\<close>

fun bytes_of :: "slot \<Rightarrow> int" where
  "bytes_of (ImageBytes n) = n"
| "bytes_of sl = 0"

definition fits :: "web_app \<Rightarrow> slot \<Rightarrow> 'f durable_server \<Rightarrow> bool" where
  "fits C sl S \<longleftrightarrow> (case sl of ImageBytes n \<Rightarrow> ds_bytes S + n \<le> capacity C sl | _ \<Rightarrow> ds_taken S sl < capacity C sl)"

definition take_place :: "slot \<Rightarrow> int \<Rightarrow> 'f durable_server \<Rightarrow> 'f durable_server" where
  "take_place sl n S = S\<lparr>ds_taken := (ds_taken S)(sl := ds_taken S sl + n), ds_bytes := ds_bytes S + n * bytes_of sl\<rparr>"

fun hand_back :: "give_back \<Rightarrow> 'f durable_server \<Rightarrow> 'f durable_server" where
  "hand_back (Release sl) S = take_place sl (- 1) S"
| "hand_back (CloseFile n) S = S"

text \<open>\<open>serves K C S p S' p'\<close>: the next call of \<open>p\<close>, made in \<open>S\<close>.\<close>

inductive serves :: "'f call_env \<Rightarrow> web_app \<Rightarrow> 'f durable_server \<Rightarrow> handler \<Rightarrow> 'f durable_server \<Rightarrow> handler \<Rightarrow> bool"
  for K C where
  serves_done: "done_tx K c (ds_world S) = (w, a) \<Longrightarrow> serves K C S (AskDone c k) (S\<lparr>ds_world := w\<rparr>) (k a)"
| serves_pair: "pair_tx K p (ds_world S) = (w, b) \<Longrightarrow> serves K C S (AskPair p f) (S\<lparr>ds_world := w\<rparr>) (f b)"
| serves_text: "text_tx K u (ds_world S) = (w, x) \<Longrightarrow> serves K C S (AskText u g) (S\<lparr>ds_world := w\<rparr>) (g x)"
| serves_view: "drawn K (ds_world S) (persist_get (ce_persist K) t i (wd_db (ds_world S))) = (w, v) \<Longrightarrow>
    serves K C S (AskView t i kv) (S\<lparr>ds_world := w\<rparr>) (kv v)"
| serves_favourites: "drawn K (ds_world S) (persist_favourites (ce_persist K) t (wd_db (ds_world S))) = (w, fs) \<Longrightarrow>
    serves K C S (AskFavourites t kf) (S\<lparr>ds_world := w\<rparr>) (kf fs)"
| serves_recovery: "drawn K (ds_world S) (persist_recovery (ce_persist K) t (wd_db (ds_world S))) = (w, rs) \<Longrightarrow>
    serves K C S (AskRecovery t kr) (S\<lparr>ds_world := w\<rparr>) (kr rs)"
| serves_rate: "allow_rate (ev_now (ps_studio (ce_persist K))) key r (ds_keys S) = (keys, ok) \<Longrightarrow>
    serves K C S (AskRate key r kb) (S\<lparr>ds_keys := keys\<rparr>) (kb ok)"
| serves_shared: "changed (ds_world S) (db_allow (ce_arith K) (ce_tx K) key (ce_float K (rt_per_minute r))
      (ce_float K (rt_burst r)) (wd_db (ds_world S))) = (w, ok) \<Longrightarrow>
    serves K C S (AskShared key r ks) (S\<lparr>ds_world := w\<rparr>) (ks ok)"
| serves_granted: "fits C sl S \<Longrightarrow> serves K C S (AskSlot sl n kb) (take_place sl 1 S) (kb True)"
| serves_refused: "n = 0 \<longrightarrow> \<not> fits C sl S \<Longrightarrow> serves K C S (AskSlot sl n kb) S (kb False)"
| serves_meta: "meta_tx K i (ds_world S) = (w, a) \<Longrightarrow> serves K C S (AskMeta i km) (S\<lparr>ds_world := w\<rparr>) (km a)"
| serves_object: "object_get (de_lib (ce_tx K)) (ce_fetch K) key digest n (wd_objects (ds_world S)) = b \<Longrightarrow>
    serves K C S (AskObject key digest n kt) S (kt b)"
| serves_send: "serves K C S (AskSend ev kb) S (kb ok)"
| serves_tell: "serves K C S (Tell g q) (hand_back g S) q"

section \<open>The process\<close>

inductive process_step :: "weblib \<Rightarrow> web_app \<Rightarrow> 'f durable_server \<Rightarrow> 'f durable_server \<Rightarrow> bool" for W C where
  process_accept: "process_step W C S (S\<lparr>ds_handlers := ds_handlers S @ [serve_http W C rq]\<rparr>)"
| process_call: "DurableWorld.env_ok (wl_go W) (wd_drawn (ds_world S)) (ce_tx K) \<Longrightarrow> j < length (ds_handlers S) \<Longrightarrow>
    serves K C S (ds_handlers S ! j) S' p \<Longrightarrow> process_step W C S (S'\<lparr>ds_handlers := (ds_handlers S)[j := p]\<rparr>)"
| process_reply: "ds_handlers S = ps @ Reply r # qs \<Longrightarrow> process_step W C S (S\<lparr>ds_handlers := ps @ qs\<rparr>)"
| process_others: "durable_step (wl_go W) (ds_world S) w \<Longrightarrow> process_step W C S (S\<lparr>ds_world := w\<rparr>)"

text \<open>
  A process starts at any time of the deployment, with a handler that \<open>New\<close> has accepted and, as in
  \<open>main.go\<close>, with the database and the persistent studio.
\<close>

inductive process_reachable :: "weblib \<Rightarrow> web_app \<Rightarrow> 'f durable_server \<Rightarrow> bool" for W C where
  process_start: "web_new url True check hashes c = Inr C \<Longrightarrow> wc_database C \<Longrightarrow> wc_persistent C \<Longrightarrow>
    durable_reachable (wl_go W) w \<Longrightarrow> process_reachable W C
    \<lparr>ds_world = w, ds_keys = [], ds_taken = (\<lambda>sl. 0), ds_bytes = 0, ds_handlers = []\<rparr>"
| process_next: "process_reachable W C S \<Longrightarrow> process_step W C S S' \<Longrightarrow> process_reachable W C S'"

section \<open>Every call is a step of the deployment\<close>

definition advances :: "golib \<Rightarrow> 'f world \<Rightarrow> 'f world \<Rightarrow> bool" where
  "advances L w w' \<longleftrightarrow> w' = w \<or> durable_step L w w'"

definition pointed :: "'f world \<Rightarrow> web_event list \<Rightarrow> bool" where
  "pointed w h \<longleftrightarrow> (\<forall>i m. EvMeta i (Inr m) \<in> set h \<longrightarrow> (i, am_key m) \<in> set (wd_seen w))"

lemma advances_refl [simp]: "advances L w w"
  by (simp add: advances_def)

lemma advances_seen: "advances L w w' \<Longrightarrow> set (wd_seen w) \<subseteq> set (wd_seen w')"
  by (auto simp: advances_def elim: durable_step.cases)

lemma pointed_advances: "pointed w h \<Longrightarrow> advances L w w' \<Longrightarrow> pointed w' h"
  using advances_seen unfolding pointed_def by blast

lemma pointed_snoc: "pointed w (h @ [e]) \<longleftrightarrow> pointed w h \<and> (\<forall>i m. e = EvMeta i (Inr m) \<longrightarrow> (i, am_key m) \<in> set (wd_seen w))"
  by (auto simp: pointed_def)

lemma drawn_advances:
  assumes "DurableWorld.env_ok L (wd_drawn w) (ce_tx K)" "fst p = visit_tx (ce_persist K) v (wd_db w)" "drawn K w p = (w', a)"
  shows "advances L w w'"
  using durable_step.visit[OF assms(1), of v] assms(2,3) by (auto simp: advances_def drawn_def)

lemma drawn_err_advances:
  "DurableWorld.env_ok L (wd_drawn w) (ce_tx K) \<Longrightarrow> fst p = visit_tx (ce_persist K) v (wd_db w) \<Longrightarrow>
    apsnd err_of (drawn K w p) = (w', a) \<Longrightarrow> advances L w w'"
  by (cases "drawn K w p") (auto intro: drawn_advances)

lemma done_tx_advances:
  assumes ok: "DurableWorld.env_ok L (wd_drawn w) (ce_tx K)" and tx: "done_tx K c w = (w', a)"
    and seen: "\<And>i key. c = CallMissing i key \<Longrightarrow> (i, key) \<in> set (wd_seen w)"
  shows "advances L w w'"
proof (cases c)
  case (CallChoices t i n sty col)
  with tx show ?thesis by (auto intro: drawn_err_advances[OF ok, where v = "VChoices t i n sty col"])
next
  case (CallFavourite t i sid n on)
  with tx show ?thesis by (auto intro: drawn_err_advances[OF ok, where v = "VFavourite t i sid n on"])
next
  case (CallCancel t i n bid)
  with tx show ?thesis by (auto intro: drawn_err_advances[OF ok, where v = "VCancel t i n bid"])
next
  case (CallDownload t i sid)
  with tx show ?thesis by (auto intro: drawn_err_advances[OF ok, where v = "VDownload t i sid"])
next
  case (CallClear t)
  with tx show ?thesis by (auto intro: drawn_err_advances[OF ok, where v = "VClear t"])
next
  case (CallTouch t)
  with tx show ?thesis by (auto intro!: drawn_advances[OF ok, where v = "VTouch t"])
next
  case (CallMissing i key)
  with tx show ?thesis using durable_step.missing[OF seen[OF CallMissing], of L "ce_tx K"] by (auto simp: advances_def changed_def)
next
  case CallSchema
  with tx show ?thesis by (simp add: advances_def)
qed

lemma pair_tx_advances: "DurableWorld.env_ok L (wd_drawn w) (ce_tx K) \<Longrightarrow> pair_tx K p w = (w', b) \<Longrightarrow> advances L w w'"
  by (cases p) (auto intro: drawn_advances[where v = VCreate])

lemma text_tx_advances: "DurableWorld.env_ok L (wd_drawn w) (ce_tx K) \<Longrightarrow> text_tx K u w = (w', x) \<Longrightarrow> advances L w w'"
proof (cases u)
  case (CallEnter t art sty col aid)
  then show "DurableWorld.env_ok L (wd_drawn w) (ce_tx K) \<Longrightarrow> text_tx K u w = (w', x) \<Longrightarrow> advances L w w'"
    by (auto intro: drawn_advances[where v = "VEnter t art sty col aid"])
next
  case (CallRestore t recipes)
  then show "DurableWorld.env_ok L (wd_drawn w) (ce_tx K) \<Longrightarrow> text_tx K u w = (w', x) \<Longrightarrow> advances L w w'"
    by (auto intro: drawn_advances[where v = "VRestore t recipes"])
next
  case (CallRetry t i n aid bid)
  then show "DurableWorld.env_ok L (wd_drawn w) (ce_tx K) \<Longrightarrow> text_tx K u w = (w', x) \<Longrightarrow> advances L w w'"
    by (auto intro: drawn_advances[where v = "VRetry t i n aid bid"])
next
  case (CallGenerate t i n aid sel different)
  then show "DurableWorld.env_ok L (wd_drawn w) (ce_tx K) \<Longrightarrow> text_tx K u w = (w', x) \<Longrightarrow> advances L w w'"
    by (auto intro: drawn_advances[where v = "VGenerate t i n aid sel different"])
qed

lemma meta_tx_advances: "meta_tx K i w = (w', a) \<Longrightarrow>
    advances L w w' \<and> (\<forall>m. a = Inr m \<longrightarrow> (i, am_key m) \<in> set (wd_seen w'))"
  by (auto simp: meta_tx_def advances_def intro: durable_step.read split: sum.splits)

lemma place_simps [simp]:
  "ds_world (take_place sl n S) = ds_world S" "ds_keys (take_place sl n S) = ds_keys S"
  "ds_handlers (take_place sl n S) = ds_handlers S" "ds_bytes (take_place sl n S) = ds_bytes S + n * bytes_of sl"
  "ds_taken (take_place sl n S) sl' = ds_taken S sl' + (if sl' = sl then n else 0)"
  "ds_world (hand_back g S) = ds_world S" "ds_keys (hand_back g S) = ds_keys S" "ds_handlers (hand_back g S) = ds_handlers S"
  by (cases g; simp add: take_place_def)+

lemma serves_advances:
  assumes "serves K C S p S' p'" "DurableWorld.env_ok L (wd_drawn (ds_world S)) (ce_tx K)"
    and "behaves W C rq b p h" "pointed (ds_world S) h"
  shows "advances L (ds_world S) (ds_world S')"
  using assms
proof (induction rule: serves.induct)
  case (serves_done c S w a k)
  have "(i, key) \<in> set (wd_seen (ds_world S))" if "c = CallMissing i key" for i key
    using serves_done(3,4) that by (fastforce simp: behaves_asks rightful_def pointed_def)
  with serves_done show ?case by (simp add: done_tx_advances)
next
  case (serves_view S t i w v kv)
  then show ?case by (auto intro: drawn_advances[where v = "VGet t i"])
next
  case (serves_favourites S t w fs kf)
  then show ?case by (auto intro: drawn_advances[where v = "VFavourites t"])
next
  case (serves_recovery S t w rs kr)
  then show ?case by (auto intro: drawn_advances[where v = "VRecovery t"])
next
  case (serves_shared S key r w ok ks)
  then show ?case using durable_step.allow[of L "ds_world S" "ce_arith K" "ce_tx K"] by (auto simp: advances_def changed_def)
next
  case (serves_meta i S w a km)
  then show ?case using meta_tx_advances[OF serves_meta(1)] by simp
qed (auto intro: pair_tx_advances text_tx_advances)

section \<open>Slots, bytes and keys\<close>

fun bytes_change :: "web_event \<Rightarrow> int" where
  "bytes_change (EvSlot sl n ok) = (if ok then bytes_of sl else 0)"
| "bytes_change (EvGive (Release sl)) = - bytes_of sl"
| "bytes_change e = 0"

definition held_bytes :: "web_event list \<Rightarrow> int" where
  "held_bytes h = (\<Sum>e\<leftarrow>h. bytes_change e)"

lemma held_bytes_simps [simp]: "held_bytes [] = 0" "held_bytes (h @ [e]) = held_bytes h + bytes_change e"
  by (simp_all add: held_bytes_def)

text \<open>A request that holds nothing holds no bytes.\<close>

fun slots_of :: "web_event \<Rightarrow> slot set" where
  "slots_of (EvSlot sl n ok) = {sl}"
| "slots_of (EvGive (Release sl)) = {sl}"
| "slots_of e = {}"

lemma finite_slots [simp]: "finite (slots_of e)"
  by (induction e rule: slots_of.induct) simp_all

lemma bytes_change_sum:
  assumes "finite A" "slots_of e \<subseteq> A"
  shows "bytes_change e = (\<Sum>sl\<in>A. bytes_of sl * change (Release sl) e)"
proof (cases e)
  case (EvSlot sl n ok)
  with assms show ?thesis by (simp add: if_distrib[of "\<lambda>x. _ * x"] sum.delta' cong: if_cong)
next
  case (EvGive g)
  with assms show ?thesis by (cases g) (simp_all add: if_distrib[of "\<lambda>x. _ * x"] sum.delta cong: if_cong)
next
  case (EvOpen i f)
  then show ?thesis by (cases f) (auto simp: sum.neutral)
qed simp_all

lemma held_bytes_sum:
  "finite A \<Longrightarrow> (\<Union>e\<in>set h. slots_of e) \<subseteq> A \<Longrightarrow> held_bytes h = (\<Sum>sl\<in>A. bytes_of sl * held h (Release sl))"
  by (induction h) (simp_all add: held_bytes_def held_def bytes_change_sum[of A] sum.distrib distrib_left)

lemma held_bytes_none: "held h = (\<lambda>g. 0) \<Longrightarrow> held_bytes h = 0"
  using held_bytes_sum[of "\<Union>e\<in>set h. slots_of e" h] by simp

text \<open>What one call does to the handler's history and to the places that are taken.\<close>

lemma serves_behaves:
  assumes "serves K C S p S' p'" "behaves W C rq b p h"
  shows "\<exists>e. behaves W C rq b p' (h @ [e]) \<and> (\<forall>i m. e = EvMeta i (Inr m) \<longrightarrow> (i, am_key m) \<in> set (wd_seen (ds_world S')))
    \<and> (\<forall>sl. ds_taken S' sl = ds_taken S sl + change (Release sl) e) \<and> ds_bytes S' = ds_bytes S + bytes_change e"
  using assms
proof (induction rule: serves.induct)
  case (serves_done c S w a k)
  then show ?case by (intro exI[of _ "EvDone c a"]) (simp add: behaves_asks)
next
  case (serves_pair p S w b f)
  then show ?case by (intro exI[of _ "EvPair p b"]) (simp add: behaves_asks)
next
  case (serves_text u S w x g)
  then show ?case by (intro exI[of _ "EvText u x"]) (simp add: behaves_asks)
next
  case (serves_view S t i w v kv)
  then show ?case by (intro exI[of _ "EvView t i v"]) (simp add: behaves_asks)
next
  case (serves_favourites S t w fs kf)
  then show ?case by (intro exI[of _ "EvFavourites t fs"]) (simp add: behaves_asks)
next
  case (serves_recovery S t w rs kr)
  then show ?case by (intro exI[of _ "EvRecovery t rs"]) (simp add: behaves_asks)
next
  case (serves_rate key r S keys ok kb)
  then show ?case by (intro exI[of _ "EvRate key r ok"]) (simp add: behaves_asks)
next
  case (serves_shared S key r w ok ks)
  then show ?case by (intro exI[of _ "EvShared key r ok"]) (simp add: behaves_asks)
next
  case (serves_granted sl S n kb)
  then show ?case by (intro exI[of _ "EvSlot sl n True"]) (simp add: behaves_asks)
next
  case (serves_refused n sl S kb)
  then show ?case by (intro exI[of _ "EvSlot sl n False"]) (simp add: behaves_asks)
next
  case (serves_meta i S w a km)
  then show ?case using meta_tx_advances[OF serves_meta(1)] by (intro exI[of _ "EvMeta i a"]) (simp add: behaves_asks)
next
  case (serves_object key digest n S d kt)
  then show ?case by (intro exI[of _ "EvObject key digest n d"]) (simp add: behaves_asks)
next
  case (serves_send S ev kb ok)
  then show ?case by (intro exI[of _ "EvSend ev ok"]) (simp add: behaves_asks)
next
  case (serves_tell S g q)
  then show ?case by (intro exI[of _ "EvGive g"], cases g) (auto simp: behaves_asks)
qed

definition limits_ok :: "web_app \<Rightarrow> 'f durable_server \<Rightarrow> bool" where
  "limits_ok C S \<longleftrightarrow> (\<forall>sl\<in>{Active, Streams, Images}. ds_taken S sl \<le> capacity C sl)
     \<and> ds_bytes S \<le> p_image_buffer (wc_limits C) * 2 ^ 20 \<and> wfm (ds_keys S) \<and> length (ds_keys S) \<le> 10000"

lemma sized_bytes: "sized sl \<Longrightarrow> 0 \<le> bytes_of sl"
  by (cases sl) simp_all

lemma serves_limits: "serves K C S p S' p' \<Longrightarrow> behaves W C rq b p h \<Longrightarrow> limits_ok C S \<Longrightarrow> limits_ok C S'"
proof (induction rule: serves.induct)
  case (serves_rate key r S keys ok kb)
  then show ?case using limiter_size[OF _ _ serves_rate(1)] by (simp add: limits_ok_def)
next
  case (serves_granted sl S n kb)
  then show ?case by (cases sl) (auto simp: limits_ok_def fits_def)
next
  case (serves_tell S g q)
  then show ?case
    by (cases g) (auto simp: limits_ok_def behaves_asks dest!: sized_bytes)
qed (simp_all add: limits_ok_def)

section \<open>Progress\<close>

text \<open>
  Every request has a call that can be made next, whatever its environment, and its calls come to an end: a
  handler is a finite tree, which the calls descend.
\<close>

lemma serves_progress:
  assumes "behaves W C rq b p h" "wc_database C"
  shows "(\<exists>r. p = Reply r) \<or> (\<exists>S' p'. serves K C S p S' p')"
proof (cases p)
  case (AskSlot sl n kb)
  then show ?thesis by (cases "fits C sl S") (blast intro: serves_granted serves_refused)+
qed (use assms in \<open>auto simp: behaves_asks intro: serves.intros serves_done[OF surjective_pairing] serves_pair[OF surjective_pairing]
    serves_text[OF surjective_pairing] serves_view[OF surjective_pairing] serves_favourites[OF surjective_pairing]
    serves_recovery[OF surjective_pairing] serves_rate[OF surjective_pairing] serves_shared[OF surjective_pairing]
    serves_meta[OF surjective_pairing]\<close>)

inductive_cases serves_cases:
  "serves K C S (Reply r) S' q" "serves K C S (AskDone c k) S' q" "serves K C S (AskPair pc f) S' q"
  "serves K C S (AskText u g) S' q" "serves K C S (AskView t i kv) S' q" "serves K C S (AskFavourites t kf) S' q"
  "serves K C S (AskRecovery t kr) S' q" "serves K C S (AskRate key r kb) S' q" "serves K C S (AskShared key r ks) S' q"
  "serves K C S (AskSlot sl n kb) S' q" "serves K C S (AskOpen i ko) S' q" "serves K C S (AskStat m kb) S' q"
  "serves K C S (AskMeta i km) S' q" "serves K C S (AskObject key d n kt) S' q" "serves K C S (AskSend ev kb) S' q"
  "serves K C S (Tell g q') S' q"

lemma serves_ends: "Wellfounded.accp (\<lambda>q p. \<exists>K S S'. serves K C (S :: 'f durable_server) p S' q) p"
  by (induction p; rule accp.intros; elim exE serves_cases) simp_all

section \<open>The invariant of a process\<close>

definition history_ok :: "weblib \<Rightarrow> web_app \<Rightarrow> 'f world \<Rightarrow> handler \<Rightarrow> web_event list \<Rightarrow> bool" where
  "history_ok W C w p h \<longleftrightarrow> (\<exists>rq. behaves W C rq (\<lambda>g. 0) p h) \<and> pointed w h"

definition accounted :: "'f durable_server \<Rightarrow> web_event list list \<Rightarrow> bool" where
  "accounted S hs \<longleftrightarrow> (\<forall>sl. ds_taken S sl = (\<Sum>h\<leftarrow>hs. held h (Release sl))) \<and> ds_bytes S = (\<Sum>h\<leftarrow>hs. held_bytes h)"

definition process_inv :: "weblib \<Rightarrow> web_app \<Rightarrow> 'f durable_server \<Rightarrow> bool" where
  "process_inv W C S \<longleftrightarrow> durable_reachable (wl_go W) (ds_world S) \<and> limits_ok C S
     \<and> (\<exists>hs. list_all2 (history_ok W C (ds_world S)) (ds_handlers S) hs \<and> accounted S hs)"

lemma history_advances: "list_all2 (history_ok W C w) ps hs \<Longrightarrow> advances L w w' \<Longrightarrow> list_all2 (history_ok W C w') ps hs"
  by (erule list_all2_mono) (auto simp: history_ok_def intro: pointed_advances)

lemma limits_ok_cong [simp]:
  "limits_ok C (S\<lparr>ds_handlers := ps\<rparr>) = limits_ok C S" "limits_ok C (S\<lparr>ds_world := w\<rparr>) = limits_ok C S"
  "accounted (S\<lparr>ds_handlers := ps\<rparr>) hs = accounted S hs" "accounted (S\<lparr>ds_world := w\<rparr>) hs = accounted S hs"
  by (simp_all add: limits_ok_def accounted_def)

lemma process_call_inv:
  assumes "process_inv W C S" and ok: "DurableWorld.env_ok (wl_go W) (wd_drawn (ds_world S)) (ce_tx K)"
    and j: "j < length (ds_handlers S)" and call: "serves K C S (ds_handlers S ! j) S' p"
  shows "process_inv W C (S'\<lparr>ds_handlers := (ds_handlers S)[j := p]\<rparr>)"
proof -
  from assms(1) obtain hs where reach: "durable_reachable (wl_go W) (ds_world S)" "limits_ok C S"
    and hs: "list_all2 (history_ok W C (ds_world S)) (ds_handlers S) hs" "accounted S hs" by (auto simp: process_inv_def)
  from list_all2_nthD[OF hs(1) j] obtain rq where b: "behaves W C rq (\<lambda>g. 0) (ds_handlers S ! j) (hs ! j)"
    and h: "pointed (ds_world S) (hs ! j)" by (auto simp: history_ok_def)
  note adv = serves_advances[OF call ok b h]
  obtain e where e: "behaves W C rq (\<lambda>g. 0) p (hs ! j @ [e])"
    "\<forall>i m. e = EvMeta i (Inr m) \<longrightarrow> (i, am_key m) \<in> set (wd_seen (ds_world S'))"
    "\<forall>sl. ds_taken S' sl = ds_taken S sl + change (Release sl) e" "ds_bytes S' = ds_bytes S + bytes_change e"
    using serves_behaves[OF call b] by blast
  have "history_ok W C (ds_world S') p (hs ! j @ [e])"
    using e(1,2) pointed_advances[OF h adv] by (auto simp: history_ok_def pointed_snoc)
  with history_advances[OF hs(1) adv]
  have "list_all2 (history_ok W C (ds_world S')) ((ds_handlers S)[j := p]) (hs[j := hs ! j @ [e]])"
    by (intro list_all2_update_cong)
  moreover have "accounted S' (hs[j := hs ! j @ [e]])"
    using hs(2) e(3,4) j list_all2_lengthD[OF hs(1)] by (simp add: accounted_def sum_list_update_int)
  moreover have "durable_reachable (wl_go W) (ds_world S')"
    using adv reach(1) by (auto simp: advances_def intro: durable_reachable.step)
  ultimately show ?thesis
    using serves_limits[OF call b reach(2)] by (auto simp: process_inv_def)
qed

lemma process_step_inv:
  assumes "process_step W C S S'" "process_inv W C S"
  shows "process_inv W C S'"
  using assms(1)
proof cases
  case (process_accept rq)
  have "history_ok W C (ds_world S) (serve_http W C rq) []"
    using serve_http_behaves by (auto simp: history_ok_def pointed_def)
  moreover obtain hs where "list_all2 (history_ok W C (ds_world S)) (ds_handlers S) hs" "accounted S hs"
    using assms(2) by (auto simp: process_inv_def)
  ultimately have "list_all2 (history_ok W C (ds_world S)) (ds_handlers S @ [serve_http W C rq]) (hs @ [[]])"
    "accounted S (hs @ [[]])" by (simp_all add: list_all2_appendI accounted_def)
  with assms(2) show ?thesis unfolding process_accept process_inv_def by auto
next
  case (process_call K j S1 p)
  then show ?thesis using process_call_inv[OF assms(2)] by simp
next
  case (process_reply ps r qs)
  from assms(2) obtain hs where hs: "list_all2 (history_ok W C (ds_world S)) (ps @ Reply r # qs) hs" "accounted S hs"
    by (auto simp: process_inv_def process_reply(2))
  from hs(1) obtain h1 h h2 where h: "hs = h1 @ h # h2" "list_all2 (history_ok W C (ds_world S)) ps h1"
    "history_ok W C (ds_world S) (Reply r) h" "list_all2 (history_ok W C (ds_world S)) qs h2"
    by (auto simp: list_all2_append1 list_all2_Cons1)
  then have none: "held h = (\<lambda>g. 0)" by (auto simp: history_ok_def behaves_def)
  have "list_all2 (history_ok W C (ds_world S)) (ps @ qs) (h1 @ h2)" using h by (intro list_all2_appendI)
  moreover have "accounted S (h1 @ h2)" using hs(2) none held_bytes_none[OF none] by (simp add: accounted_def h(1))
  ultimately show ?thesis using assms(2) unfolding process_reply(1) process_inv_def by auto
next
  case (process_others w)
  then have adv: "advances (wl_go W) (ds_world S) w" by (simp add: advances_def)
  from assms(2) obtain hs where "list_all2 (history_ok W C (ds_world S)) (ds_handlers S) hs" "accounted S hs"
    by (auto simp: process_inv_def)
  with history_advances[OF this(1) adv] assms(2) durable_reachable.step process_others(2) show ?thesis
    unfolding process_others(1) process_inv_def by auto
qed

lemma web_new_limits: "web_new url ok check hashes c = Inr C \<Longrightarrow> policy_validate (wc_limits C) = None"
  by (auto simp: web_new_def Let_def res_simps split: if_splits option.splits prod.splits)

lemma process_reachable_inv: "process_reachable W C S \<Longrightarrow> process_inv W C S \<and> wc_database C"
proof (induction rule: process_reachable.induct)
  case (process_start url check hashes c w)
  then have "0 \<le> p_image_readers (wc_limits C) \<and> 0 \<le> p_image_buffer (wc_limits C)"
    by (auto simp: policy_validate_def dest!: web_new_limits split: if_splits)
  with process_start show ?case by (auto simp: process_inv_def accounted_def limits_ok_def intro!: exI[of _ "[]"])
next
  case (process_next S S')
  then show ?case by (blast intro: process_step_inv)
qed

text \<open>C8: the web process of the deployment, with its database and its bucket: whatever requests are in flight, in
  whatever order their calls happen, and whatever other processes, renderers, maintenance and River do in between,
  the database and the bucket are in a state that the deployment's own transactions reach; at most 128 requests, 32
  streams and the configured number of image readers hold a slot, the images being sent take at most the
  configured buffer, and nothing is held when no request is in flight; the limiter in memory stays bounded; every
  request in flight has its answer or a call that can be made next, and no request makes calls for ever.
\<close>
theorem server_refines:
  fixes S :: "'f durable_server" and K :: "'f call_env"
  assumes "process_reachable W C S"
  shows "durable_reachable (wl_go W) (ds_world S)
    \<and> ds_taken S Active \<le> 128 \<and> ds_taken S Streams \<le> 32 \<and> ds_taken S Images \<le> p_image_readers (wc_limits C)
    \<and> ds_bytes S \<le> p_image_buffer (wc_limits C) * 1048576
    \<and> (ds_handlers S = [] \<longrightarrow> ds_taken S sl = 0 \<and> ds_bytes S = 0)
    \<and> length (ds_keys S) \<le> 10000
    \<and> (\<forall>p\<in>set (ds_handlers S). ((\<exists>r. p = Reply r) \<or> (\<exists>S' p'. serves K C S p S' p'))
        \<and> Wellfounded.accp (\<lambda>q p. \<exists>K T T'. serves K C (T :: 'f durable_server) p T' q) p)"
proof -
  from process_reachable_inv[OF assms] have i: "process_inv W C S" and db: "wc_database C" by auto
  from i obtain hs where hs: "list_all2 (history_ok W C (ds_world S)) (ds_handlers S) hs" "accounted S hs"
    by (auto simp: process_inv_def)
  have "(\<exists>r. p = Reply r) \<or> (\<exists>S' p'. serves K C S p S' p')" if "p \<in> set (ds_handlers S)" for p
  proof -
    from that obtain j where "j < length (ds_handlers S)" "ds_handlers S ! j = p" by (auto simp: in_set_conv_nth)
    with list_all2_nthD[OF hs(1)] obtain rq where "behaves W C rq (\<lambda>g. 0) p (hs ! j)" by (auto simp: history_ok_def)
    from serves_progress[OF this db] show ?thesis .
  qed
  moreover have "ds_handlers S = [] \<longrightarrow> ds_taken S sl = 0 \<and> ds_bytes S = 0" using hs by (auto simp: accounted_def)
  moreover have "limits_ok C S" "durable_reachable (wl_go W) (ds_world S)" using i by (simp_all add: process_inv_def)
  ultimately show ?thesis by (auto simp: limits_ok_def intro: serves_ends)
qed

section \<open>Witness\<close>

text \<open>A process whose visitor clears the session: the request has taken its slot and asks the limiter next.\<close>

definition trial_app :: web_app where
  "trial_app = demo_app\<lparr>wc_database := True, wc_persistent := True, wc_events := True\<rparr>"

definition trial_call :: "int call_env" where
  "trial_call = \<lparr>ce_persist = trial_penv CHR ''1'' 0,
     ce_arith = \<lparr>pg_refill = \<lambda>b dt rate burst. burst, pg_full = \<lambda>x. 1 \<le> x, pg_spend = \<lambda>x. x - 1\<rparr>, ce_float = \<lambda>n. n,
     ce_migrations = [], ce_river_rows = [], ce_river_want = [], ce_schema = [], ce_fetch = None\<rparr>"

definition trial_process :: "int durable_server" where
  "trial_process = \<lparr>ds_world = trial_start trial_empty {}, ds_keys = [], ds_taken = (\<lambda>sl. 0), ds_bytes = 0,
     ds_handlers = [serve_http demo_web trial_app demo_clear]\<rparr>"

definition trial_serving :: "int durable_server" where
  "trial_serving = (take_place Active 1 trial_process)\<lparr>ds_handlers :=
     [deferring (Release Active) (serve_admitted demo_web trial_app demo_clear new_response)]\<rparr>"

lemma trial_serving_reachable: "process_reachable demo_web trial_app trial_serving"
proof -
  let ?S = "trial_process\<lparr>ds_handlers := []\<rparr>"
  have new: "web_new (Some (''http'', ''art'', '''', False)) True None (Inr []) trial_app = Inr trial_app"
    by (simp add: web_new_def trial_app_def demo_app_def demo_policy_def policy_validate_def rate_valid_def)
  have lib: "wl_go demo_web = demo_lib" by (simp add: demo_web_def)
  have db: "wc_database trial_app" "wc_persistent trial_app" by (simp_all add: trial_app_def)
  have "durable_reachable demo_lib (trial_start trial_empty {})"
    by (rule durable_reachable.init) (simp add: durable_init_def trial_start_def trial_empty_def)
  then have "process_reachable demo_web trial_app ?S"
    using process_start[OF new db, of demo_web "trial_start trial_empty {}"] by (simp add: lib trial_process_def)
  from process_next[OF this process_accept[of _ _ _ demo_clear]]
  have 1: "process_reachable demo_web trial_app trial_process" by (simp add: trial_process_def)
  have ok: "DurableWorld.env_ok (wl_go demo_web) (wd_drawn (ds_world trial_process)) (ce_tx trial_call)"
    by (simp add: DurableWorld.env_ok_def lib trial_process_def trial_start_def trial_call_def)
  let ?k = "\<lambda>ok. if \<not> ok then Reply (web_fail demo_clear new_response 503 ''The studio is busy. Try again in a moment.'')
      else deferring (Release Active) (serve_admitted demo_web trial_app demo_clear new_response)"
  have asks: "ds_handlers trial_process ! 0 = AskSlot Active 0 ?k"
    by (simp add: trial_process_def serve_http_def) (simp add: trial_app_def demo_app_def demo_clear_def)
  have "serves trial_call trial_app trial_process (AskSlot Active 0 kb) (take_place Active 1 trial_process) (kb True)" for kb
    by (rule serves_granted) (simp add: fits_def trial_process_def)
  from this[of ?k] have "serves trial_call trial_app trial_process (ds_handlers trial_process ! 0)
      (take_place Active 1 trial_process) (deferring (Release Active) (serve_admitted demo_web trial_app demo_clear new_response))"
    by (simp add: asks)
  from process_next[OF 1 process_call[OF ok _ this]] show ?thesis
    by (simp add: trial_serving_def) (simp add: trial_process_def)
qed

theorem server_refines_witness:
  "ds_taken trial_serving Active = 1 \<and> ds_taken trial_serving Active \<le> 128
    \<and> (\<exists>S' p'. serves trial_call trial_app trial_serving (hd (ds_handlers trial_serving)) S' p')"
proof -
  note t = server_refines[OF trial_serving_reachable, of Active trial_call]
  have asks: "\<not> (\<exists>r. hd (ds_handlers trial_serving) = Reply r)"
    by (simp add: trial_serving_def serve_admitted_def demo_clear_def Let_def has_prefix_def)
  have one: "hd (ds_handlers trial_serving) \<in> set (ds_handlers trial_serving)" by (simp add: trial_serving_def)
  have taken: "ds_taken trial_serving Active = 1" by (simp add: trial_serving_def) (simp add: trial_process_def)
  from t one have "(\<exists>r. hd (ds_handlers trial_serving) = Reply r)
      \<or> (\<exists>S' p'. serves trial_call trial_app trial_serving (hd (ds_handlers trial_serving)) S' p')" by blast
  with asks taken t show ?thesis by blast
qed

end
