(* ===== verification/StudioBag.thy ===== *)
theory StudioBag
  imports StudioProps
begin

text \<open>
  The abstract specification of the favourites of a visitor, a bag of recipes with its events, and what
  every operation of \<open>internal/studio/studio.go\<close> does to the bag of the visitor who calls it.
\<close>

text \<open>The favourites of a workspace as an abstract bag of recipes; a visitor without a session has none.\<close>

definition held :: "string \<Rightarrow> 'q store \<Rightarrow> string multiset" where
  "held token s = (case mget (so_workspaces s) token of None \<Rightarrow> {#} | Some w \<Rightarrow> mset (fav_recipes w))"

definition bag_of :: "string \<Rightarrow> 'q store \<Rightarrow> string multiset option" where
  "bag_of token s = map_option (\<lambda>w. mset (fav_recipes w)) (mget (so_workspaces s) token)"

lemma bag_of_held: "bag_of token s = (if mget (so_workspaces s) token = None then None else Some (held token s))"
  by (auto simp: bag_of_def held_def)

section \<open>The favourites as an abstract bag\<close>

text \<open>
  The promise to a visitor: a bag of at most 24 recipes, to which one is added or from which one is
  removed on request, which a recovery file fills when it is empty, every recipe of the file once as the
  digest \<open>h\<close> tells them apart, and which disappears only when the visitor clears it or the session expires.
\<close>

datatype bag_event = Keep | Expire | Open | Close | Add string | Remove string | Fill "string set"

inductive bag_step :: "(string \<Rightarrow> string) \<Rightarrow> bag_event \<Rightarrow> string multiset option \<Rightarrow> string multiset option \<Rightarrow> bool"
  for h where
  bag_keep: "bag_step h Keep b b"
| bag_still: "bag_step h Expire b b"
| bag_expire: "bag_step h Expire b None"
| bag_open: "bag_step h Open None (Some {#})"
| bag_close: "bag_step h Close b None"
| bag_add: "size b < 24 \<Longrightarrow> bag_step h (Add r) (Some b) (Some (add_mset r b))"
| bag_remove: "bag_step h (Remove r) (Some (add_mset r b)) (Some b)"
| bag_fill: "finite B \<Longrightarrow> card B \<le> 24 \<Longrightarrow> B \<subseteq> R \<Longrightarrow> inj_on h B \<Longrightarrow> h ` B = h ` R \<Longrightarrow>
    bag_step h (Fill R) (Some {#}) (Some (mset_set B))"

text \<open>The bag is as before, or the session had expired and is gone.\<close>

definition steady :: "int \<Rightarrow> string \<Rightarrow> 'q store \<Rightarrow> 'q store \<Rightarrow> bool" where
  "steady now token s s' \<longleftrightarrow> bag_of token s' = bag_of token s \<or> bag_of token s' = None \<and> \<not> live now token s"

lemma steady_bag: "bag_of token s' = bag_of token s \<Longrightarrow> steady now token s s'"
  by (simp add: steady_def)

definition xfavs :: "exploration \<Rightarrow> string multiset" where
  "xfavs x = mset (map (\<lambda>a. r_canonical (sa_recipe a)) (filter sa_favourite (v_samples (x_view x))))"

definition ofavs :: "exploration option \<Rightarrow> string multiset" where
  "ofavs o' = (case o' of None \<Rightarrow> {#} | Some x \<Rightarrow> xfavs x)"

lemma ofavs_simps [simp]: "ofavs None = {#}" "ofavs (Some x) = xfavs x"
  by (simp_all add: ofavs_def)

lemma fav_recipes_sum: "mset (fav_recipes w) = (\<Sum>(i, x)\<leftarrow>ws_explorations w. xfavs x)"
proof -
  have "mset (concat (map (\<lambda>(i, x). map (\<lambda>a. r_canonical (sa_recipe a)) (filter sa_favourite (v_samples (x_view x)))) es))
    = (\<Sum>(i, x)\<leftarrow>es. xfavs x)" for es :: "(string \<times> exploration) list"
    by (induction es) (auto simp: xfavs_def)
  then show ?thesis by (simp add: fav_recipes_def)
qed

lemma size_bag:
  assumes "mget (so_workspaces s) token = Some w"
  shows "int (size (held token s)) = count_favourites w"
proof -
  have "int (size (\<Sum>(i, x)\<leftarrow>es. xfavs x)) = tot (\<lambda>i x. favs x) es" for es :: "(string \<times> exploration) list"
    by (induction es) (auto simp: xfavs_def favs_def simp flip: mset_filter)
  then show ?thesis using assms by (simp add: held_def fav_recipes_sum count_favs)
qed

text \<open>The bag depends only on the explorations as a map.\<close>

lemma bag_as_sum:
  assumes "wfm (so_workspaces s)" "\<And>w. mget (so_workspaces s) token = Some w \<Longrightarrow> wfm (ws_explorations w)"
    and fin: "finite A" and dom: "\<And>j. exploration_of s token j \<noteq> None \<Longrightarrow> j \<in> A"
  shows "held token s = (\<Sum>j\<in>A. ofavs (exploration_of s token j))"
proof (cases "mget (so_workspaces s) token")
  case None
  then show ?thesis by (simp add: held_def exploration_of_def)
next
  case (Some w)
  have ex: "exploration_of s token j = mget (ws_explorations w) j" for j using Some by (simp add: exploration_of_def)
  have wf: "wfm (ws_explorations w)" by (rule assms(2)[OF Some])
  have "(\<Sum>(i, x)\<leftarrow>es. xfavs x) = (\<Sum>j\<in>fst ` set es. ofavs (mget es j))" if "wfm es" for es :: "(string \<times> exploration) list"
    using that
  proof (induction es)
    case (Cons e es)
    obtain j x where e: "e = (j, x)" by force
    have d: "j \<notin> fst ` set es" "wfm es" using Cons.prems e by (simp_all add: wfm_def)
    have "(\<Sum>k\<in>fst ` set es. ofavs (mget (e # es) k)) = (\<Sum>k\<in>fst ` set es. ofavs (mget es k))"
      using d(1) e by (intro sum.cong) auto
    then show ?case using Cons.IH[OF d(2)] d(1) e by simp
  qed simp
  with wf have "held token s = (\<Sum>j\<in>fst ` set (ws_explorations w). ofavs (mget (ws_explorations w) j))"
    using Some by (simp add: held_def fav_recipes_sum)
  also have "\<dots> = (\<Sum>j\<in>A. ofavs (mget (ws_explorations w) j))"
    using dom fin by (intro sum.mono_neutral_left) (auto simp: ex gm.keys_eq[OF wf] domIff)
  finally show ?thesis by (simp add: ex)
qed

lemma bag_single_change:
  fixes s s' :: "'q store"
  assumes s: "wfm (so_workspaces s)" "\<And>w. mget (so_workspaces s) token = Some w \<Longrightarrow> wfm (ws_explorations w)"
    and s': "wfm (so_workspaces s')" "\<And>w. mget (so_workspaces s') token = Some w \<Longrightarrow> wfm (ws_explorations w)"
    and same: "\<And>j. j \<noteq> i \<Longrightarrow> ofavs (exploration_of s' token j) = ofavs (exploration_of s token j)"
  shows "held token s' + ofavs (exploration_of s token i) = held token s + ofavs (exploration_of s' token i)"
proof -
  let ?D = "\<lambda>s :: 'q store. {j. exploration_of s token j \<noteq> None}"
  have fin: "finite (?D s)" if "\<And>w. mget (so_workspaces s) token = Some w \<Longrightarrow> wfm (ws_explorations w)" for s :: "'q store"
  proof (cases "mget (so_workspaces s) token")
    case (Some w)
    then show ?thesis using gm.finite_dom[OF that[OF Some]] by (simp add: exploration_of_def dom_def)
  qed (simp add: exploration_of_def)
  let ?A = "insert i (?D s \<union> ?D s')"
  have A: "finite ?A" using fin[OF s(2)] fin[OF s'(2)] by blast
  have "held token s = (\<Sum>j\<in>?A. ofavs (exploration_of s token j))" by (rule bag_as_sum[OF s A]) auto
  moreover have "held token s' = (\<Sum>j\<in>?A. ofavs (exploration_of s' token j))" by (rule bag_as_sum[OF s' A]) auto
  moreover have "(\<Sum>j\<in>?A - {i}. ofavs (exploration_of s' token j)) = (\<Sum>j\<in>?A - {i}. ofavs (exploration_of s token j))"
    using same by (intro sum.cong) auto
  moreover have "sum f ?A = f i + sum f (?A - {i})" for f :: "string \<Rightarrow> string multiset"
    by (rule sum.remove[OF A]) simp
  ultimately show ?thesis by (simp add: ac_simps)
qed

definition tidy :: "string \<Rightarrow> 'q store \<Rightarrow> bool" where
  "tidy token s \<longleftrightarrow> wfm (so_workspaces s) \<and> (\<forall>w. mget (so_workspaces s) token = Some w \<longrightarrow> wfm (ws_explorations w))"

lemma store_ok_tidy: "store_ok L tok good s \<Longrightarrow> tidy token s"
  using studio_invD[OF store_okD(1)] by (fastforce simp: tidy_def store_ok_def studio_inv_def ws_ok_def)

lemma bag_change:
  fixes s s' :: "'q store"
  assumes "tidy token s" "tidy token s'"
    "\<And>j. j \<noteq> i \<Longrightarrow> ofavs (exploration_of s' token j) = ofavs (exploration_of s token j)"
  shows "held token s' + ofavs (exploration_of s token i) = held token s + ofavs (exploration_of s' token i)"
  using assms unfolding tidy_def by (intro bag_single_change) auto

lemma bag_same:
  fixes s s' :: "'q store"
  assumes "tidy token s" "tidy token s'" "\<And>j. ofavs (exploration_of s' token j) = ofavs (exploration_of s token j)"
  shows "held token s' = held token s"
  using bag_change[OF assms(1,2), of "''''"] assms(3) by simp

lemma bag_held:
  fixes s s' :: "'q store"
  assumes "held token s' = held token s" "mget (so_workspaces s) token \<noteq> None" "mget (so_workspaces s') token \<noteq> None"
  shows "steady now token s s'"
  using assms by (auto simp: steady_def bag_of_held)

lemma bag_unchanged:
  fixes s s' :: "'q store"
  assumes "tidy token s" "tidy token s'" "unchanged now token s s'"
  shows "steady now token s s'"
  using assms(3) bag_same[OF assms(1,2)] by (auto simp: unchanged_def steady_def bag_of_held)

lemma exploration_of_key: "exploration_of s token i = Some x \<Longrightarrow> mget (so_workspaces s) token \<noteq> None"
  by (auto simp: exploration_of_def split: option.splits)

lemma put_key [simp]:
  "mget (so_workspaces (put_exploration token i x s)) token = None \<longleftrightarrow> mget (so_workspaces s) token = None"
  by (simp add: put_exploration_def put_workspace_def map_simps split: option.splits)

lemma find_keys:
  assumes "wfm (so_workspaces s)" "studio_find E J token i s = (s1, Inr x)"
  shows "mget (so_workspaces s) token \<noteq> None" "mget (so_workspaces s1) token \<noteq> None"
  using find_outcome(2)[OF assms refl] exploration_of_key[of s token i] exploration_of_key[of s1 token i] by auto

lemma live_key: "live now token s \<Longrightarrow> mget (so_workspaces s) token \<noteq> None"
  by (auto simp: live_def)

lemma xfavs_simps [simp]:
  "xfavs (set_direction sty col x) = xfavs x" "xfavs (next_revision x) = xfavs x"
  "xfavs (new_exploration i art sty col) = {#}"
  by (simp_all add: xfavs_def set_direction_def next_revision_def new_exploration_def)

lemma xfavs_with_samples:
  assumes "map sa_favourite as = map sa_favourite (v_samples (x_view x))" "map sa_recipe as = map sa_recipe (v_samples (x_view x))"
  shows "xfavs (with_samples as x) = xfavs x"
proof -
  have "map sa_favourite as = map sa_favourite bs \<Longrightarrow> map sa_recipe as = map sa_recipe bs \<Longrightarrow>
      map (\<lambda>a. r_canonical (sa_recipe a)) (filter sa_favourite as) = map (\<lambda>a. r_canonical (sa_recipe a)) (filter sa_favourite bs)" for bs
    by (induction as arbitrary: bs) (auto simp: Cons_eq_map_conv)
  from this[OF assms] show ?thesis by (simp add: xfavs_def with_samples_def)
qed

lemma xfavs_eq: "filter sa_favourite (v_samples (x_view x')) = filter sa_favourite (v_samples (x_view x)) \<Longrightarrow> xfavs x' = xfavs x"
  by (simp add: xfavs_def)

text \<open>Switching the flag of one sample.\<close>

lemma xfavs_flag:
  assumes "find (\<lambda>a. sa_id a = sid) as = Some a"
  shows "mset (map (\<lambda>a. r_canonical (sa_recipe a)) (filter sa_favourite (update_sample sid (\<lambda>a. a\<lparr>sa_favourite := on\<rparr>) as)))
      + (if sa_favourite a then {#r_canonical (sa_recipe a)#} else {#})
    = mset (map (\<lambda>a. r_canonical (sa_recipe a)) (filter sa_favourite as)) + (if on then {#r_canonical (sa_recipe a)#} else {#})"
  using assms by (induction as) (auto split: if_splits)

lemma tidy_queue [simp]: "tidy token (s\<lparr>so_queue := q\<rparr>) = tidy token s" "tidy token (s\<lparr>so_drawn := n\<rparr>) = tidy token s"
  by (simp_all add: tidy_def)

lemma exploration_of_queue [simp]: "exploration_of (s\<lparr>so_queue := q\<rparr>) = exploration_of s"
  "exploration_of (s\<lparr>so_drawn := n\<rparr>) = exploration_of s"
  by (intro ext, simp add: exploration_of_def)+

text \<open>An exploration written back with the same favourites.\<close>

lemma bag_write_back:
  fixes s s1 :: "'q store"
  assumes "tidy token s" "tidy token (put_exploration token i x' s1)" "exploration_of s1 token i = Some x"
    "\<And>j. exploration_of s1 token j = exploration_of s token j" "xfavs x' = xfavs x"
  shows "held token (put_exploration token i x' s1) = held token s"
proof (rule bag_same[OF assms(1,2)])
  obtain w where w: "mget (so_workspaces s1) token = Some w" using assms(3) by (auto simp: exploration_of_Some)
  fix j
  show "ofavs (exploration_of (put_exploration token i x' s1) token j) = ofavs (exploration_of s token j)"
    using assms(3-5) exploration_of_put(1)[OF w, of i x' j] by (cases "j = i") (metis ofavs_simps(2), simp)
qed

lemma fresh_exploration:
  assumes ok: "store_ok L tok good s" and n: "so_drawn s \<le> n" "inj tok"
  shows "exploration_of s token (tok n) = None"
proof (rule ccontr)
  assume "exploration_of s token (tok n) \<noteq> None"
  then obtain w x where "mget (so_workspaces s) token = Some w" "mget (ws_explorations w) (tok n) = Some x"
    by (auto simp: exploration_of_def split: option.splits)
  with studio_invD[OF store_okD(1)[OF ok]] have "tok n \<in> drawn tok (so_drawn s)"
    by (fastforce simp: ws_ok_def expl_ok_def)
  with n show False by (auto simp: drawn_def dest: injD)
qed

lemma prune_unchanged: "wfm (so_workspaces s) \<Longrightarrow> unchanged (ev_now E) token s (studio_prune E J s)"
  using prune_keeps[of s E J token] by (auto simp: unchanged_def exploration_of_def live_def split: option.splits)

lemma workspace_un:
  assumes "wfm (so_workspaces s)" "studio_workspace E J token s = (s1, r)"
  shows "unchanged (ev_now E) token s s1"
  using workspace_outcome[OF assms] workspace_unchanged(1)[OF assms(1)] assms(2)
  by (cases r) (auto simp: unchanged_def)

text \<open>The sample that a request names.\<close>

definition sample_of :: "string \<Rightarrow> string \<Rightarrow> string \<Rightarrow> 'q store \<Rightarrow> sample option" where
  "sample_of token i sid s = (case exploration_of s token i of
       None \<Rightarrow> None | Some x \<Rightarrow> find (\<lambda>a. sa_id a = sid) (v_samples (x_view x)))"

lemma exchange:
  assumes "b' + x = b + y" "y + p = x + (q :: 'a multiset)"
  shows "b' + p = b + q"
proof -
  have "(b' + x) + (y + p) = (b + y) + (x + q)" using assms by simp
  then show ?thesis by (simp add: ac_simps)
qed

context jobs_queue begin

lemma favourite_bag:
  assumes ok: "store_ok L tok good s" and r: "studio_favourite E J token i sid revision on s = (s', r)"
  shows "r \<noteq> None \<Longrightarrow> steady (ev_now E) token s s'"
    and "r = None \<Longrightarrow> \<exists>a b. sample_of token i sid s = Some a \<and> bag_of token s = Some b
      \<and> (let c = r_canonical (sa_recipe a) in
         if sa_favourite a = on then bag_of token s' = Some b
         else if on then size b < 24 \<and> bag_of token s' = Some (add_mset c b)
         else \<exists>b'. b = add_mset c b' \<and> bag_of token s' = Some b')"
proof -
  note tidy = store_ok_tidy[OF ok, of token] store_ok_tidy[OF favourite_ok[OF ok r], of token]
  obtain s1 rx where f: "studio_find E J token i s = (s1, rx)" by force
  note un = find_outcome(1)[OF store_ok_wfm[OF ok] f]
  show "steady (ev_now E) token s s'" if "r \<noteq> None"
  proof -
    have "s' = s1" using that r f by (auto simp: studio_favourite_def Let_def split: if_splits option.splits sum.splits)
    then show ?thesis using bag_unchanged[OF tidy] un by simp
  qed
  assume rn: "r = None"
  with r f obtain x a where x: "rx = Inr x" "find (\<lambda>a. sa_id a = sid) (v_samples (x_view x)) = Some a"
    by (cases rx) (auto simp: studio_favourite_def Let_def split: if_splits option.splits)
  let ?as = "update_sample sid (\<lambda>a. a\<lparr>sa_favourite := on\<rparr>) (v_samples (x_view x))"
  note fx = find_exploration[OF f[unfolded x(1)] ok]
  note fo = find_outcome(2)[OF store_ok_wfm[OF ok] f x(1)]
  from fx(2) obtain w where w: "mget (so_workspaces s1) token = Some w" by (auto simp: exploration_of_Some)
  from r f x w rn have s': "s' = put_exploration token i (next_revision (with_samples ?as x)) s1"
    and lim: "on \<Longrightarrow> \<not> sa_favourite a \<Longrightarrow> count_favourites w < 24"
    by (auto simp: studio_favourite_def Let_def split: if_splits)
  have e: "exploration_of s' token j = (if j = i then Some (next_revision (with_samples ?as x)) else exploration_of s token j)" for j
    unfolding s' using fo by (simp add: exploration_of_put(1)[OF w])
  have "held token s' + xfavs x = held token s + xfavs (with_samples ?as x)"
    using bag_change[OF tidy, of i] e fo by simp
  moreover have "xfavs (with_samples ?as x) + (if sa_favourite a then {#r_canonical (sa_recipe a)#} else {#})
      = xfavs x + (if on then {#r_canonical (sa_recipe a)#} else {#})"
    using xfavs_flag[OF x(2), of on] by (simp add: xfavs_def with_samples_def)
  ultimately have b: "held token s' + (if sa_favourite a then {#r_canonical (sa_recipe a)#} else {#})
      = held token s + (if on then {#r_canonical (sa_recipe a)#} else {#})"
    by (rule exchange)
  have size: "int (size (held token s)) = count_favourites w"
  proof -
    have "held token s1 = held token s"
      using fo by (intro bag_same[OF tidy(1) store_ok_tidy[OF fx(1)]]) simp
    then show ?thesis using size_bag[OF w] by simp
  qed
  have keys: "bag_of token s = Some (held token s)" "bag_of token s' = Some (held token s')"
    using exploration_of_key[of s token i] exploration_of_key[of s' token i] fo e[of i] by (simp_all add: bag_of_held)
  have sample: "sample_of token i sid s = Some a" using fo x(2) by (simp add: sample_of_def)
  show "\<exists>a b. sample_of token i sid s = Some a \<and> bag_of token s = Some b
      \<and> (let c = r_canonical (sa_recipe a) in
         if sa_favourite a = on then bag_of token s' = Some b
         else if on then size b < 24 \<and> bag_of token s' = Some (add_mset c b)
         else \<exists>b'. b = add_mset c b' \<and> bag_of token s' = Some b')"
    using b lim size sample by (cases "sa_favourite a"; cases on) (auto simp: keys Let_def)
qed

lemma choices_bag:
  assumes ok: "store_ok L tok good s" and r: "studio_choices E J token i revision sty col s = (s', r)"
  shows "steady (ev_now E) token s s'"
proof -
  note tidy = store_ok_tidy[OF ok, of token] store_ok_tidy[OF choices_ok[OF ok r], of token]
  obtain s1 rx where f: "studio_find E J token i s = (s1, rx)" by force
  show ?thesis
  proof (cases "s' = s1")
    case True
    then show ?thesis using bag_unchanged[OF tidy] find_outcome(1)[OF store_ok_wfm[OF ok] f] by simp
  next
    case False
    with r f obtain x where x: "rx = Inr x" "s' = put_exploration token i (next_revision (set_direction sty col x)) s1"
      by (cases rx) (auto simp: studio_choices_def next_revision_def set_direction_def split: if_splits sum.splits)
    note fo = find_exploration[OF f[unfolded x(1)] ok] find_outcome(2)[OF store_ok_wfm[OF ok] f x(1)]
    have "held token s' = held token s"
      unfolding x(2) using fo tidy by (intro bag_write_back[of token s i _ s1 x]) (simp_all add: x(2))
    then show ?thesis using find_keys[OF store_ok_wfm[OF ok] f[unfolded x(1)]] by (intro bag_held) (simp_all add: x(2))
  qed
qed

lemma cancel_bag:
  assumes ok: "store_ok L tok good s" and r: "studio_cancel E J token i revision bid s = (s', r)"
  shows "steady (ev_now E) token s s'"
proof -
  note tidy = store_ok_tidy[OF ok, of token] store_ok_tidy[OF cancel_ok[OF ok r], of token]
  obtain s1 rx where f: "studio_find E J token i s = (s1, rx)" by force
  show ?thesis
  proof (cases "s' = s1")
    case True
    then show ?thesis using bag_unchanged[OF tidy] find_outcome(1)[OF store_ok_wfm[OF ok] f] by simp
  next
    case False
    with r f obtain x where x: "rx = Inr x" by (cases rx) (auto simp: studio_cancel_def)
    obtain as q where m: "cancel_members J token (ba_samples (last (v_batches (x_view x)))) (v_samples (x_view x)) (so_queue s1) = (as, q)"
      by force
    have s': "s' = put_exploration token i (next_revision (with_samples as x)) (s1\<lparr>so_queue := q\<rparr>)"
      using r f x m False by (auto simp: studio_cancel_def Let_def split: if_splits)
    note fo = find_exploration[OF f[unfolded x(1)] ok] find_outcome(2)[OF store_ok_wfm[OF ok] f x(1)]
    have "held token s' = held token s"
      unfolding s' using fo tidy xfavs_with_samples[of as x] cancel_members_map[OF m]
      by (intro bag_write_back[of token s i _ _ x]) (simp_all add: s')
    then show ?thesis using find_keys[OF store_ok_wfm[OF ok] f[unfolded x(1)]] by (intro bag_held) (simp_all add: s')
  qed
qed

lemma download_bag:
  assumes ok: "store_ok L tok good s" and r: "studio_download E J token i sid s = (s', r)"
  shows "steady (ev_now E) token s s'"
proof -
  note tidy = store_ok_tidy[OF ok, of token] store_ok_tidy[OF download_ok[OF ok r], of token]
  obtain s1 rx where f: "studio_find E J token i s = (s1, rx)" by force
  show ?thesis
  proof (cases "\<exists>q. s' = s1\<lparr>so_queue := q\<rparr>")
    case True
    then show ?thesis using bag_unchanged[OF tidy] find_outcome(1)[OF store_ok_wfm[OF ok] f] by auto
  next
    case False
    then have "s' \<noteq> s1" by (metis (no_types) store.surjective store.update_convs(2))
    with False r f obtain x d q where x: "rx = Inr x" "s' = put_exploration token i
        (with_samples (update_sample sid (\<lambda>a. a\<lparr>sa_download := d\<rparr>) (v_samples (x_view x))) x) (s1\<lparr>so_queue := q\<rparr>)"
      by (cases rx) (auto simp: studio_download_def Let_def split: if_splits option.splits prod.splits sum.splits)
    note fo = find_exploration[OF f[unfolded x(1)] ok] find_outcome(2)[OF store_ok_wfm[OF ok] f x(1)]
    have "held token s' = held token s"
      unfolding x(2) using fo tidy
      by (intro bag_write_back[of token s i _ _ x]) (simp_all add: x(2) xfavs_with_samples update_sample_map)
    then show ?thesis using find_keys[OF store_ok_wfm[OF ok] f[unfolded x(1)]] by (intro bag_held) (simp_all add: x(2))
  qed
qed

end

context jobs_queue begin

lemma generate_ofavs:
  assumes ok: "store_ok L tok good s" and env: "env_ok L tok E"
    and g: "generate E J token i revision aid sel different s = (s', Inr b)"
  shows "ofavs (exploration_of s' token j) = ofavs (exploration_of s token j)"
    and "mget (so_workspaces s) token \<noteq> None" "mget (so_workspaces s') token \<noteq> None"
proof -
  have "(\<exists>x. exploration_of s token i = Some x) \<and> (\<exists>x. exploration_of s' token i = Some x)"
    by (rule generate_outcome[OF ok env g]) auto
  then show "mget (so_workspaces s) token \<noteq> None" "mget (so_workspaces s') token \<noteq> None"
    by (blast dest: exploration_of_key)+
  show "ofavs (exploration_of s' token j) = ofavs (exploration_of s token j)"
  proof (rule generate_outcome[OF ok env g])
    fix x x'
    assume n: "exploration_of s token i = Some x" "exploration_of s' token i = Some x'"
      "\<And>j. j \<noteq> i \<Longrightarrow> exploration_of s' token j = exploration_of s token j"
      "round_done L aid (ev_digest E revision sel different) x x' b"
    then have "xfavs x' = xfavs x" by (intro xfavs_eq) (simp add: round_done_def)
    with n show ?thesis by (cases "j = i") simp_all
  qed simp
qed

lemma generate_bag:
  assumes ok: "store_ok L tok good s" and env: "env_ok L tok E"
    and g: "generate E J token i revision aid sel different s = (s', r)"
  shows "steady (ev_now E) token s s'"
proof (cases r)
  case (Inl e)
  then show ?thesis
    using generate_error_unchanged[OF store_ok_wfm[OF ok] g[unfolded Inl]]
    by (intro bag_unchanged store_ok_tidy[OF ok] store_ok_tidy[OF generate_ok[OF ok env g]])
next
  case (Inr b)
  note go = generate_ofavs[OF ok env g[unfolded Inr]]
  have "held token s' = held token s"
    by (rule bag_same[OF store_ok_tidy[OF ok] store_ok_tidy[OF generate_ok[OF ok env g]] go(1)])
  then show ?thesis by (rule bag_held[OF _ go(2,3)])
qed

lemma retry_bag:
  assumes ok: "store_ok L tok good s" and env: "env_ok L tok E"
    and r: "studio_retry E J token i revision aid bid s = (s', r)"
  shows "steady (ev_now E) token s s'"
proof -
  note tidy = store_ok_tidy[OF ok, of token] store_ok_tidy[OF retry_ok[OF ok env r], of token]
  obtain s1 rx where f: "studio_find E J token i s = (s1, rx)" by force
  show ?thesis
  proof (cases "s' = s1")
    case True
    then show ?thesis using bag_unchanged[OF tidy] find_outcome(1)[OF store_ok_wfm[OF ok] f] by simp
  next
    case False
    with r f obtain x sel where x: "rx = Inr x" "generate E J token i revision aid sel False s1 = (s', r)"
      by (cases rx) (auto simp: studio_retry_def Let_def split: option.splits if_splits)
    note fo = find_outcome(2)[OF store_ok_wfm[OF ok] f x(1)] and k = find_keys[OF store_ok_wfm[OF ok] f[unfolded x(1)]]
    have "held token s1 = held token s"
      using fo by (intro bag_same[OF tidy(1) store_ok_tidy[OF find_ok[OF ok f]]]) simp
    then have b: "bag_of token s1 = bag_of token s" using k by (simp add: bag_of_held)
    have "live (ev_now E) token s1"
    proof -
      obtain rw where "studio_workspace E J token s = (s1, rw)" "\<exists>w. rw = Inr w"
        using find_spec[OF f] x(1) by fastforce
      with workspace_live[OF store_ok_wfm[OF ok]] show ?thesis by blast
    qed
    with generate_bag[OF find_ok[OF ok f] env x(2)] b show ?thesis by (simp add: steady_def)
  qed
qed

lemma workspace_keys:
  assumes "wfm (so_workspaces s)" "studio_workspace E J token s = (s1, Inr w)"
  shows "mget (so_workspaces s) token \<noteq> None" "mget (so_workspaces s1) token = Some w"
  using workspace_outcome[OF assms] by auto

lemma start_bag:
  assumes ok: "store_ok L tok good s" and env: "env_ok L tok E"
    and r: "studio_start E J token art sty col s = (s', r)"
  shows "steady (ev_now E) token s s'"
proof -
  note tidy = store_ok_tidy[OF ok, of token] store_ok_tidy[OF start_ok[OF ok env r], of token]
  obtain s1 rw where w: "studio_workspace E J token s = (s1, rw)" by force
  show ?thesis
  proof (cases "s' = s \<or> s' = s1")
    case True
    then show ?thesis using bag_unchanged[OF tidy] workspace_un[OF store_ok_wfm[OF ok] w] by auto
  next
    case False
    with r w obtain wk where wk: "rw = Inr wk" "s' = put_exploration token (ev_token E (so_drawn s1))
        (new_exploration (ev_token E (so_drawn s1)) art sty col) (s1\<lparr>so_drawn := Suc (so_drawn s1)\<rparr>)"
      by (auto simp: studio_start_def Let_def split: sum.splits if_splits)
    note un = workspace_unchanged(1)[OF store_ok_wfm[OF ok] w[unfolded wk(1)]]
      and k = workspace_keys[OF store_ok_wfm[OF ok] w[unfolded wk(1)]]
    have m: "mget (so_workspaces (s1\<lparr>so_drawn := Suc (so_drawn s1)\<rparr>)) token = Some wk" using k by simp
    have "exploration_of s1 token (ev_token E (so_drawn s1)) = None"
      using fresh_exploration[OF workspace_ok[OF ok w]] env_okD(2,4)[OF env] by simp
    then have "held token s' = held token s"
      by (intro bag_same[OF tidy]) (simp add: wk(2) exploration_of_put(1)[OF m] un flip: un)
    then show ?thesis using k by (intro bag_held) (simp_all add: wk(2))
  qed
qed

lemma enter_bag:
  assumes ok: "store_ok L tok good s" and env: "env_ok L tok E"
    and r: "studio_enter E J token art sty col aid s = (s', r)"
  shows "steady (ev_now E) token s s'"
proof (cases r)
  case (Inl e)
  with r enter_error[OF ok env] show ?thesis
    by (intro bag_unchanged store_ok_tidy[OF ok] store_ok_tidy[OF enter_ok[OF ok env r]]) simp
next
  case (Inr b)
  note tidy = store_ok_tidy[OF ok, of token] store_ok_tidy[OF enter_ok[OF ok env r], of token]
  show ?thesis
    using r
  proof (cases rule: enter_cases)
    case (generated s1 w x s2 s4 r4 pp)
    let ?i = "v_id (x_view x)" and ?s3 = "put_exploration token (v_id (x_view x)) (set_direction sty col x) s2"
    note wo = workspace_ok[OF ok generated(2)] and wk = workspace_keys[OF store_ok_wfm[OF ok] generated(2)]
    have m: "mget (so_workspaces s1) token = Some w" by (rule wk(2))
    note un = workspace_unchanged(1)[OF store_ok_wfm[OF ok] generated(2)]
    have s3: "store_ok L tok good ?s3" by (rule enter_target_ok[OF wo env m generated(5,4)])
    have m2: "mget (so_workspaces s2) token = Some w" and e2: "exploration_of s2 = exploration_of s1"
      using generated(5) m by (auto simp: enter_target_def split: option.splits prod.splits)
    have old: "ofavs (exploration_of s1 token ?i) = xfavs x"
    proof (cases "find (\<lambda>(i, x). v_artwork (x_view x) = art) (ws_explorations w)")
      case None
      then have "x = new_exploration (tok (so_drawn s1)) art '''' ''''"
        using generated(5) env_okD(2)[OF env] by (auto simp: enter_target_def)
      then show ?thesis using fresh_exploration[OF wo, of "so_drawn s1" token] env_okD(4)[OF env]
        by (simp add: new_exploration_def xfavs_def)
    next
      case (Some kx)
      obtain k where k: "kx = (k, x)" using generated(5) Some by (auto simp: enter_target_def split: prod.splits)
      note wk = studio_invD[OF store_okD(1)[OF wo] m]
      then have "wfm (ws_explorations w)" by (simp add: ws_ok_def)
      from gm.entry_iff[OF this] have mk: "mget (ws_explorations w) k = Some x" using find_Some_in[OF Some] k by simp
      then have "?i = k" using wk by (simp add: ws_ok_def expl_ok_def)
      then show ?thesis using mk m by (simp add: exploration_of_def)
    qed
    from generated(7) Inr have r4: "\<exists>b4. r4 = Inr b4" and s': "\<exists>a. s' = add_entry token a s4" by (cases r4; force)+
    then obtain b4 a where ra: "r4 = Inr b4" "s' = add_entry token a s4" by blast
    note go = generate_ofavs[OF s3 env generated(6)[unfolded ra(1)]]
    obtain w4 where w4: "mget (so_workspaces s4) token = Some w4" using go(3) by blast
    have "ofavs (exploration_of s' token j) = ofavs (exploration_of s token j)" for j
    proof -
      have "exploration_of s' token j = exploration_of s4 token j" by (simp add: ra(2) exploration_of_put(3)[OF w4])
      also have "ofavs \<dots> = ofavs (exploration_of ?s3 token j)" by (rule go(1))
      also have "\<dots> = ofavs (exploration_of s token j)"
        using old by (simp add: exploration_of_put(1)[OF m2] e2 un)
      finally show ?thesis .
    qed
    then have "held token s' = held token s" by (rule bag_same[OF tidy])
    then show ?thesis using wk(1) w4
      by (intro bag_held) (simp_all add: ra(2) add_entry_def put_workspace_def map_simps)
  qed (use Inr workspace_un[OF store_ok_wfm[OF ok]] in \<open>auto intro: bag_unchanged[OF tidy]\<close>)
qed

lemma create_bag:
  assumes ok: "store_ok L tok good s" and r: "studio_create E J s = (s', r)" and t: "token = ev_token E (so_drawn s)"
  shows "r = Inl e \<Longrightarrow> steady (ev_now E) token s s'" and "r = Inr tc \<Longrightarrow> bag_of token s' = Some {#}"
proof -
  show "steady (ev_now E) token s s'" if "r = Inl e"
  proof -
    have "s' = studio_prune E J s" using r that by (auto simp: studio_create_def Let_def split: if_splits)
    then show ?thesis
      using bag_unchanged[OF store_ok_tidy[OF ok] store_ok_tidy[OF prune_ok[OF ok]]] prune_unchanged[OF store_ok_wfm[OF ok]]
      by simp
  qed
  show "bag_of token s' = Some {#}" if "r = Inr tc"
    using that r t by (auto simp: studio_create_def Let_def bag_of_def map_simps fav_recipes_def split: if_splits)
qed

lemma restore_bag:
  assumes ok: "store_ok L tok good s" and env: "env_ok L tok E"
    and r: "studio_restore E J token records s = (s', r)"
  shows "r = Inl e \<Longrightarrow> steady (ev_now E) token s s'"
    and "r = Inr first \<Longrightarrow> bag_step (gl_sha256 L) (Fill (canonicals L records)) (bag_of token s) (bag_of token s')"
proof -
  note ok' = restore_spec(1)[OF ok env r]
  note tidy = store_ok_tidy[OF ok, of token] store_ok_tidy[OF ok', of token]
  obtain s1 rw where w: "studio_workspace E J token s = (s1, rw)" by force
  show "steady (ev_now E) token s s'" if "r = Inl e"
  proof -
    have "s' = s \<or> s' = s1"
      using that r w by (auto simp: studio_restore_def Let_def split: if_splits sum.splits prod.splits)
    then show ?thesis using bag_unchanged[OF tidy] workspace_un[OF store_ok_wfm[OF ok] w] by auto
  qed
  assume rf: "r = Inr first"
  with r w obtain wk where wk: "rw = Inr wk" "ws_explorations wk = []"
    by (auto simp: studio_restore_def Let_def split: if_splits sum.splits prod.splits)
  then have empty: "bag_of token s = Some {#}"
    using workspace_unchanged(2)[OF store_ok_wfm[OF ok] w[unfolded wk(1)]] workspace_keys(1)[OF store_ok_wfm[OF ok] w[unfolded wk(1)]]
    by (auto simp: bag_of_def fav_recipes_def split: option.splits)
  from restore_spec(2)[OF ok env r rf] obtain rs w' where w': "restore_recipes L [] records = Inr rs"
    "mget (so_workspaces s') token = Some w'" "mset (fav_recipes w') = mset (map r_canonical rs)" by blast
  let ?B = "r_canonical ` set rs" and ?h = "gl_sha256 L"
  note each = restore_recipes_each[OF w'(1)]
  have dg: "recipe_digest L = (\<lambda>r. ?h (r_canonical r))" by (intro ext) (simp add: recipe_digest_def)
  have "distinct (map ?h (map r_canonical rs))" using each by (simp add: dg comp_def)
  then have d: "distinct (map r_canonical rs)" "inj_on ?h ?B"
    unfolding distinct_map[of ?h "map r_canonical rs"] by simp_all
  have "mset_set ?B = mset (map r_canonical rs)" using mset_set_set[OF d(1)] by simp
  then have b: "bag_of token s' = Some (mset_set ?B)" using w' by (simp add: bag_of_def)
  have "int (size (held token s')) \<le> 24" using size_bag[OF w'(2)] count_favs_le[OF ok' w'(2)] by simp
  then have "card ?B \<le> 24" using b w'(2) by (simp add: bag_of_held split: if_splits)
  moreover have "?h ` ?B = ?h ` canonicals L records"
  proof
    show "?h ` ?B \<subseteq> ?h ` canonicals L records" using each by (intro image_mono) blast
    show "?h ` canonicals L records \<subseteq> ?h ` ?B" using each by (simp add: image_image recipe_digest_def)
  qed
  ultimately show "bag_step ?h (Fill (canonicals L records)) (bag_of token s) (bag_of token s')"
    unfolding empty b using each d(2) by (intro bag_fill) auto
qed

lemma clear_bag:
  assumes ok: "store_ok L tok good s"
  shows "bag_of token (studio_clear E J token s) = bag_of token s \<or> bag_of token (studio_clear E J token s) = None"
    and "\<not> so_persistent s \<Longrightarrow> ev_now E - zero_time > 30 * minute \<Longrightarrow> bag_of token (studio_clear E J token s) = None"
proof -
  let ?s = "put_workspace token (\<lambda>w. w\<lparr>ws_touched := zero_time\<rparr>) s"
  have m: "mget (so_workspaces ?s) token = map_option (\<lambda>w. w\<lparr>ws_touched := zero_time\<rparr>) (mget (so_workspaces s) token)"
    by (simp add: put_workspace_def map_simps split: option.splits)
  have "wfm (so_workspaces ?s)" by (rule wfm_put_workspace[OF store_ok_wfm[OF ok]])
  note k = prune_keeps[OF this, of E J token]
  show "bag_of token (studio_clear E J token s) = bag_of token s \<or> bag_of token (studio_clear E J token s) = None"
    using k m by (auto simp: studio_clear_def bag_of_def fav_recipes_def split: option.splits if_splits)
  show "\<not> so_persistent s \<Longrightarrow> ev_now E - zero_time > 30 * minute \<Longrightarrow> bag_of token (studio_clear E J token s) = None"
    using k m by (auto simp: studio_clear_def bag_of_def ws_expired_def split: option.splits if_splits)
qed

lemma reading_bag:
  assumes ok: "store_ok L tok good s"
  shows "steady (ev_now E) token s (fst (studio_session E J token s))"
    "steady (ev_now E) token s (fst (studio_favourites E J token s))"
    "steady (ev_now E) token s (fst (studio_recovery E J token s))"
    "steady (ev_now E) token s (fst (studio_get E J token i s))"
proof -
  obtain s1 rw where w: "studio_workspace E J token s = (s1, rw)" by force
  obtain s2 rx where f: "studio_find E J token i s = (s2, rx)" by force
  have "fst (studio_session E J token s) = s1" "fst (studio_favourites E J token s) = s1"
    "fst (studio_recovery E J token s) = s1" "fst (studio_get E J token i s) = s2"
    using w f by (simp_all add: studio_session_def studio_favourites_def studio_recovery_def studio_get_def split: sum.splits)
  then show "steady (ev_now E) token s (fst (studio_session E J token s))"
    "steady (ev_now E) token s (fst (studio_favourites E J token s))"
    "steady (ev_now E) token s (fst (studio_recovery E J token s))"
    "steady (ev_now E) token s (fst (studio_get E J token i s))"
    using bag_unchanged[OF store_ok_tidy[OF ok] store_ok_tidy[OF workspace_ok[OF ok w]] workspace_un[OF store_ok_wfm[OF ok] w]]
      bag_unchanged[OF store_ok_tidy[OF ok] store_ok_tidy[OF find_ok[OF ok f]] find_outcome(1)[OF store_ok_wfm[OF ok] f]]
    by simp_all
qed

end

end
