(* ===== verification/StudioFavourites.thy ===== *)
theory StudioFavourites
  imports StudioBag
begin

text \<open>
  The refinement of the running application to the bag of favourites: the label of a step (who asks what,
  and when) determines the abstract event, and the event what may happen to the bag of every visitor.
\<close>

section \<open>The requests, and what each asks of the bag\<close>

datatype ask = AskCreate | AskSession | AskStart string string string | AskGet string
  | AskGenerate string int string "string list" bool | AskEnter string string string string | AskFavourites
  | AskChoices string int string string | AskRetry string int string string | AskFavourite string string int bool
  | AskCancel string int string | AskDownload string string | AskRecovery | AskRestore "string list" | AskClear

fun ask_run :: "studio_env \<Rightarrow> 'q jobs_api \<Rightarrow> string \<Rightarrow> ask \<Rightarrow> 'q store \<Rightarrow> 'q store" where
  "ask_run E J token AskCreate s = fst (studio_create E J s)"
| "ask_run E J token AskSession s = fst (studio_session E J token s)"
| "ask_run E J token (AskStart art sty col) s = fst (studio_start E J token art sty col s)"
| "ask_run E J token (AskGet i) s = fst (studio_get E J token i s)"
| "ask_run E J token (AskGenerate i revision aid sel different) s = fst (studio_generate E J token i revision aid sel different s)"
| "ask_run E J token (AskEnter art sty col aid) s = fst (studio_enter E J token art sty col aid s)"
| "ask_run E J token AskFavourites s = fst (studio_favourites E J token s)"
| "ask_run E J token (AskChoices i revision sty col) s = fst (studio_choices E J token i revision sty col s)"
| "ask_run E J token (AskRetry i revision aid bid) s = fst (studio_retry E J token i revision aid bid s)"
| "ask_run E J token (AskFavourite i sid revision on) s = fst (studio_favourite E J token i sid revision on s)"
| "ask_run E J token (AskCancel i revision bid) s = fst (studio_cancel E J token i revision bid s)"
| "ask_run E J token (AskDownload i sid) s = fst (studio_download E J token i sid s)"
| "ask_run E J token AskRecovery s = fst (studio_recovery E J token s)"
| "ask_run E J token (AskRestore records) s = fst (studio_restore E J token records s)"
| "ask_run E J token AskClear s = studio_clear E J token s"

text \<open>
  The abstract event of a request for the visitor who asks: a new session opens an empty bag, a favourite
  that is switched adds or removes the recipe of that image, a recovery file fills the bag, clearing closes
  it; a refused request and every other request keep it.
\<close>

fun asked :: "studio_env \<Rightarrow> 'q jobs_api \<Rightarrow> string \<Rightarrow> ask \<Rightarrow> 'q store \<Rightarrow> bag_event" where
  "asked E J token AskCreate s = (case snd (studio_create E J s) of Inl e \<Rightarrow> Keep | Inr t \<Rightarrow> Open)"
| "asked E J token (AskFavourite i sid revision on) s =
     (if snd (studio_favourite E J token i sid revision on s) \<noteq> None then Keep
      else case sample_of token i sid s of
        None \<Rightarrow> Keep
      | Some a \<Rightarrow> if sa_favourite a = on then Keep
          else if on then Add (r_canonical (sa_recipe a)) else Remove (r_canonical (sa_recipe a)))"
| "asked E J token (AskRestore records) s = (case snd (studio_restore E J token records s) of
     Inl e \<Rightarrow> Keep | Inr first \<Rightarrow> Fill (canonicals (ev_lib E) records))"
| "asked E J token AskClear s = (if \<not> so_persistent s \<and> ev_now E - zero_time > 30 * minute then Close else Expire)"
| "asked E J token a s = Keep"

text \<open>For everyone whose session has expired the request is the time at which it may be removed.\<close>

definition request_event :: "studio_env \<Rightarrow> 'q jobs_api \<Rightarrow> string \<Rightarrow> string \<Rightarrow> ask \<Rightarrow> 'q store \<Rightarrow> bag_event" where
  "request_event E J token t a s =
     (if token = t \<and> asked E J t a s = Open then Open
      else if \<not> live (ev_now E) token s then Expire
      else if token = t then asked E J t a s else Keep)"

datatype label = Visit studio_env sysio string ask | Background

inductive app_does :: "golib \<Rightarrow> (nat \<Rightarrow> string) \<Rightarrow> label \<Rightarrow> mgr store \<Rightarrow> mgr store \<Rightarrow> bool" for L tok where
  does_visit: "env_ok L tok E \<Longrightarrow> (a = AskCreate \<longrightarrow> t = ev_token E (so_drawn s)) \<Longrightarrow>
    app_does L tok (Visit E io t a) s (ask_run E (manager_jobs L io (ev_now E)) t a s)"
| does_queue: "so_queue s = Some m \<Longrightarrow> mstep L m m' \<Longrightarrow> app_does L tok Background s (s\<lparr>so_queue := Some m'\<rparr>)"
| does_range: "mset ws = mset (so_workspaces s) \<Longrightarrow> app_does L tok Background s (s\<lparr>so_workspaces := ws\<rparr>)"
| does_range_ws: "mget (so_workspaces s) k = Some w \<Longrightarrow> mset xs = mset (ws_explorations w) \<Longrightarrow>
    app_does L tok Background s (put_workspace k (\<lambda>w. w\<lparr>ws_explorations := xs\<rparr>) s)"

definition event :: "golib \<Rightarrow> string \<Rightarrow> label \<Rightarrow> mgr store \<Rightarrow> bag_event" where
  "event L token l s = (case l of Background \<Rightarrow> Keep
     | Visit E io t a \<Rightarrow> request_event E (manager_jobs L io (ev_now E)) token t a s)"

text \<open>The labelled steps are the steps of the application.\<close>

lemma visit_ask: "visit E J token s s' \<longleftrightarrow>
    (\<exists>a. s' = ask_run E J token a s \<and> (a = AskCreate \<longrightarrow> token = ev_token E (so_drawn s)))"
proof
  assume "visit E J token s s'"
  then show "\<exists>a. s' = ask_run E J token a s \<and> (a = AskCreate \<longrightarrow> token = ev_token E (so_drawn s))"
    by (cases rule: visit.cases) (metis ask.distinct ask_run.simps)+
next
  assume "\<exists>a. s' = ask_run E J token a s \<and> (a = AskCreate \<longrightarrow> token = ev_token E (so_drawn s))"
  then obtain a where a: "s' = ask_run E J token a s" "a = AskCreate \<longrightarrow> token = ev_token E (so_drawn s)" by blast
  then show "visit E J token s s'" by (cases a) (auto intro: visit.intros)
qed

lemma app_step_does: "app_step L tok s s' \<longleftrightarrow> (\<exists>l. app_does L tok l s s')"
proof
  assume "app_step L tok s s'"
  then show "\<exists>l. app_does L tok l s s'"
    by (cases rule: app_step.cases) (auto simp: visit_ask intro: app_does.intros)
next
  assume "\<exists>l. app_does L tok l s s'"
  then obtain l where "app_does L tok l s s'" by blast
  then show "app_step L tok s s'"
  proof (cases rule: app_does.cases)
    case (does_visit E a t io)
    then have "visit E (manager_jobs L io (ev_now E)) t s s'" unfolding visit_ask by blast
    with does_visit(3) show ?thesis by (rule app_visit)
  qed (auto intro: app_step.intros)
qed

lemma steady_event:
  "steady now token s s' \<Longrightarrow> bag_step h (if \<not> live now token s then Expire else Keep) (bag_of token s) (bag_of token s')"
  by (auto simp: steady_def intro: bag_step.intros)

context jobs_queue begin

lemma asked_bag:
  assumes ok: "store_ok L tok good s" and env: "env_ok L tok E" and c: "a = AskCreate \<longrightarrow> token = ev_token E (so_drawn s)"
    and s': "s' = ask_run E J token a s"
  shows "if asked E J token a s = Open then bag_of token s' = Some {#}
    else bag_step (gl_sha256 L) (if \<not> live (ev_now E) token s then Expire else asked E J token a s) (bag_of token s) (bag_of token s')"
proof -
  have kept: "asked E J token a s = Keep \<Longrightarrow> steady (ev_now E) token s s' \<Longrightarrow> ?thesis"
    using steady_event[of "ev_now E" token s s' "gl_sha256 L"] by auto
  show ?thesis
  proof (cases a)
    case AskCreate
    obtain s1 r where r: "studio_create E J s = (s1, r)" by force
    show ?thesis
    proof (cases r)
      case (Inl e)
      with create_bag(1)[where token=token, OF ok r _ Inl] AskCreate c r show ?thesis by (intro kept) (auto simp: s')
    next
      case (Inr tc)
      with create_bag(2)[where token=token, OF ok r _ Inr] AskCreate c r show ?thesis by (simp add: s')
    qed
  next
    case (AskFavourite i sid revision on)
    obtain s1 r where r: "studio_favourite E J token i sid revision on s = (s1, r)" by force
    note fb = favourite_bag[OF ok r]
    show ?thesis
    proof (cases "r = None")
      case False
      with fb(1) r AskFavourite show ?thesis by (intro kept) (auto simp: s')
    next
      case True
      from fb(2)[OF True] obtain x b where x: "sample_of token i sid s = Some x" "bag_of token s = Some b"
        "let c = r_canonical (sa_recipe x) in
         if sa_favourite x = on then bag_of token s1 = Some b
         else if on then size b < 24 \<and> bag_of token s1 = Some (add_mset c b)
         else \<exists>b'. b = add_mset c b' \<and> bag_of token s1 = Some b'" by blast
      obtain s2 y where f: "studio_find E J token i s = (s2, Inr y)"
        using r True by (auto simp: studio_favourite_def split: prod.splits sum.splits)
      then have "live (ev_now E) token s" using find_outcome(2)[OF store_ok_wfm[OF ok] f] by simp
      with x r True AskFavourite show ?thesis
        by (auto simp: s' Let_def intro: bag_step.intros split: if_splits)
    qed
  next
    case (AskRestore records)
    obtain s1 r where r: "studio_restore E J token records s = (s1, r)" by force
    show ?thesis
    proof (cases r)
      case (Inl e)
      with restore_bag(1)[OF ok env r] r AskRestore show ?thesis by (intro kept) (auto simp: s')
    next
      case (Inr first)
      obtain s2 w where "studio_workspace E J token s = (s2, Inr w)"
        using r Inr by (auto simp: studio_restore_def Let_def split: if_splits sum.splits prod.splits)
      then have "live (ev_now E) token s" by (rule workspace_unchanged(3)[OF store_ok_wfm[OF ok]])
      with restore_bag(2)[OF ok env r Inr] r Inr AskRestore env_okD(1)[OF env] show ?thesis by (simp add: s')
    qed
  next
    case AskClear
    then show ?thesis
      using clear_bag[where token=token and E=E, OF ok] by (auto simp: s' intro: bag_step.intros)
  qed (use kept in \<open>simp_all add: s' reading_bag[OF ok] studio_generate_def generate_bag[OF ok env surjective_pairing]
      retry_bag[OF ok env surjective_pairing] start_bag[OF ok env surjective_pairing] enter_bag[OF ok env surjective_pairing]
      choices_bag[OF ok surjective_pairing] cancel_bag[OF ok surjective_pairing] download_bag[OF ok surjective_pairing]\<close>)
qed

text \<open>For another visitor a request is at most the moment at which an expired session is removed.\<close>

lemma other_bag:
  assumes ok: "store_ok L tok good s" and c: "a = AskCreate \<longrightarrow> t = ev_token E (so_drawn s)" and ne: "token \<noteq> t"
  shows "steady (ev_now E) token s (ask_run E J t a s)"
proof -
  have "visit E J t s (ask_run E J t a s)" unfolding visit_ask using c by blast
  from left_alone_visit[OF this store_ok_wfm[OF ok]] ne show ?thesis
    by (fastforce simp: left_alone_def steady_def bag_of_def live_def)
qed

end

section \<open>Sessions are named by drawn tokens\<close>

lemma find_drawn: "studio_find E J token i s = (s1, rx) \<Longrightarrow> so_drawn s1 = so_drawn s"
  by (cases "studio_workspace E J token s")
    (auto simp: studio_find_def dest: workspace_spec(1) split: sum.splits option.splits)

lemma generate_drawn:
  assumes "generate E J token i revision aid sel different s = (s', r)"
  shows "so_drawn s \<le> so_drawn s'"
  using assms by (cases rule: generate_cases) (auto dest: find_drawn)

lemma append_sample_drawn [simp]: "so_drawn (append_sample token i a s) = so_drawn s"
  by (simp add: append_sample_def split: option.splits)

lemma restore_samples_drawn:
  fixes s :: "'q store"
  shows "so_drawn s \<le> so_drawn (fst (restore_samples E token rs by_art first s))"
proof (induction rs arbitrary: by_art first s)
  case (Cons r rs)
  have step: "so_drawn s \<le> so_drawn s1 \<Longrightarrow> so_drawn s \<le> so_drawn (fst (restore_samples E token rs m f s1))" for m f and s1 :: "'q store"
    using Cons.IH[of s1 m f] by linarith
  show ?case by (auto simp: draw_token_def Let_def intro!: step split: option.splits)
qed simp

lemma enter_undo_drawn [simp]: "so_drawn (enter_undo token i created x s) = so_drawn s"
  by (simp add: enter_undo_def drop_exploration_def split: option.splits)

lemma enter_drawn:
  assumes "studio_enter E J token art sty col aid s = (s', r)"
  shows "so_drawn s \<le> so_drawn s'"
  using assms
proof (cases rule: enter_cases)
  case (generated s1 w x s2 s4 r4 pp)
  have "so_drawn s \<le> so_drawn s2"
    using workspace_spec(1)[OF generated(2)] generated(5)
    by (auto simp: enter_target_def split: option.splits prod.splits)
  also have "\<dots> \<le> so_drawn s4" using generate_drawn[OF generated(6)] by simp
  also have "so_drawn s4 = so_drawn s'" using generated(7) by (cases r4) (simp_all add: add_entry_def)
  finally show ?thesis .
qed (auto dest: workspace_spec(1))

lemma ask_drawn: "so_drawn s \<le> so_drawn (ask_run E J token a s)"
proof -
  obtain s1 rw where w: "studio_workspace E J token s = (s1, rw)" by force
  note ws = workspace_spec(1)[OF w]
  have fd: "studio_find E J token i s = (s2, rx) \<Longrightarrow> so_drawn s \<le> so_drawn s2" for i s2 rx
    by (simp add: find_drawn)
  show ?thesis
  proof (cases a)
    case (AskRestore records)
    have "so_drawn s \<le> so_drawn (fst (restore_samples E token rs m f s1))" for rs m f
      using restore_samples_drawn[of s1 E token rs m f] ws by simp
    then show ?thesis using AskRestore w ws
      by (auto simp: studio_restore_def Let_def split: sum.splits prod.splits) (metis fst_conv)+
  next
    case (AskRetry i revision aid bid)
    obtain s2 rx where f: "studio_find E J token i s = (s2, rx)" by force
    have "so_drawn s \<le> so_drawn (fst (generate E J token i rev aid sel False s2))" for sel rev
      using generate_drawn[of E J token i rev aid sel False s2] find_drawn[OF f] by (metis prod.collapse)
    then show ?thesis using AskRetry f find_drawn[OF f]
      by (simp add: studio_retry_def Let_def split: sum.splits option.splits)
  next
    case (AskGenerate i revision aid sel different)
    then show ?thesis using generate_drawn[OF surjective_pairing] by (simp add: studio_generate_def)
  next
    case (AskEnter art sty col aid)
    then show ?thesis using enter_drawn[OF surjective_pairing] by simp
  next
    case AskCreate
    then show ?thesis by (simp add: studio_create_def Let_def draw_token_def)
  next
    case AskClear
    then show ?thesis by (simp add: studio_clear_def)
  next
    case AskSession
    then show ?thesis using w ws by (simp add: studio_session_def split: sum.splits)
  next
    case (AskStart art sty col)
    then show ?thesis using w ws by (simp add: studio_start_def Let_def draw_token_def split: sum.splits)
  next
    case AskFavourites
    then show ?thesis using w ws by (simp add: studio_favourites_def split: sum.splits)
  next
    case AskRecovery
    then show ?thesis using w ws by (simp add: studio_recovery_def split: sum.splits)
  next
    case (AskGet i)
    then show ?thesis by (auto simp: studio_get_def dest: fd split: prod.splits sum.splits)
  next
    case (AskChoices i revision sty col)
    then show ?thesis by (auto simp: studio_choices_def Let_def dest: fd split: prod.splits sum.splits)
  next
    case (AskFavourite i sid revision on)
    then show ?thesis by (auto simp: studio_favourite_def Let_def dest: fd split: prod.splits sum.splits option.splits)
  next
    case (AskCancel i revision bid)
    then show ?thesis by (auto simp: studio_cancel_def Let_def dest: fd split: prod.splits sum.splits)
  next
    case (AskDownload i sid)
    then show ?thesis by (auto simp: studio_download_def Let_def dest: fd split: prod.splits sum.splits option.splits)
  qed
qed

section \<open>The refinement\<close>

text \<open>What a request does to the bag of any visitor, a new session apart.\<close>

lemma visit_bag:
  fixes s :: "mgr store"
  assumes ok: "store_ok L tok (mgr_inv L) s" and env: "env_ok L tok E" and c: "a = AskCreate \<longrightarrow> t = ev_token E (so_drawn s)"
    and s': "s' = ask_run E (manager_jobs L io (ev_now E)) t a s"
    and ev: "ev = request_event E (manager_jobs L io (ev_now E)) token t a s"
  shows "ev = Open \<Longrightarrow> token = t \<and> a = AskCreate \<and> bag_of token s' = Some {#}"
    and "ev \<noteq> Open \<Longrightarrow> bag_step (gl_sha256 L) ev (bag_of token s) (bag_of token s')"
proof -
  have "if ev = Open then token = t \<and> a = AskCreate \<and> bag_of token s' = Some {#}
    else bag_step (gl_sha256 L) ev (bag_of token s) (bag_of token s')"
  proof (cases "token = t")
    case True
    have "asked E J t a s = Open \<Longrightarrow> a = AskCreate" for J :: "mgr jobs_api"
      by (cases a) (auto split: sum.splits option.splits if_splits)
    with mq.asked_bag[OF ok env c s'] True show ?thesis by (auto simp: ev request_event_def)
  next
    case False
    with steady_event[OF mq.other_bag[OF ok c False], of "gl_sha256 L"] show ?thesis
      by (auto simp: ev s' request_event_def)
  qed
  then show "ev = Open \<Longrightarrow> token = t \<and> a = AskCreate \<and> bag_of token s' = Some {#}"
    "ev \<noteq> Open \<Longrightarrow> bag_step (gl_sha256 L) ev (bag_of token s) (bag_of token s')" by argo+
qed

lemma background_bag:
  fixes s :: "mgr store"
  assumes "app_does L tok Background s s'" "store_ok L tok good s"
  shows "bag_of token s' = bag_of token s \<and> so_drawn s' = so_drawn s"
  using assms(1)
proof (cases rule: app_does.cases)
  case (does_queue m m')
  then show ?thesis by (simp add: bag_of_def)
next
  case (does_range ws)
  have "mget ws = mget (so_workspaces s)"
    using mget_perm[OF store_ok_wfm[OF assms(2)] does_range(2)[symmetric]] by simp
  then show ?thesis by (simp add: does_range(1) bag_of_def)
next
  case (does_range_ws k w xs)
  have "(\<Sum>(i, x)\<leftarrow>xs. xfavs x) = (\<Sum>(i, x)\<leftarrow>ws_explorations w. xfavs x)"
    using does_range_ws(3) by (metis mset_map sum_mset_sum_list)
  with does_range_ws show ?thesis
    by (auto simp: bag_of_def put_workspace_def map_simps fav_recipes_sum)
qed

lemma created_drawn: "snd (studio_create E J s) = Inr tc \<Longrightarrow> so_drawn (fst (studio_create E J s)) = Suc (Suc (so_drawn s))"
  by (auto simp: studio_create_def Let_def draw_token_def split: if_splits)

lemma sessions_drawn: "app_reachable L tok s \<Longrightarrow> bag_of token s \<noteq> None \<Longrightarrow> token \<in> drawn tok (so_drawn s)"
proof (induction rule: app_reachable.induct)
  case (app_new q build)
  then show ?case by (simp add: bag_of_def new_store_def)
next
  case (app_next s s')
  note ok = app_reachable_ok[OF app_next(1)]
  from app_next(2) obtain l where l: "app_does L tok l s s'" by (auto simp: app_step_does)
  show ?case
    using l
  proof (cases rule: app_does.cases)
    case (does_visit E a t io)
    note vb = visit_bag[OF ok does_visit(3,4,2) refl, of token]
    have grow: "so_drawn s \<le> so_drawn s'" using ask_drawn does_visit(2) by blast
    show ?thesis
    proof (cases "request_event E (manager_jobs L io (ev_now E)) token t a s = Open")
      case True
      then have "asked E (manager_jobs L io (ev_now E)) t a s = Open" "token = t" by (auto simp: request_event_def split: if_splits)
      moreover have a: "a = AskCreate" using vb(1)[OF True] by simp
      ultimately have "so_drawn s' = Suc (Suc (so_drawn s))"
        using created_drawn[of E "manager_jobs L io (ev_now E)" s] does_visit(2) by (auto split: sum.splits)
      moreover have "token = tok (so_drawn s)" using a \<open>token = t\<close> does_visit(4) env_okD(2)[OF does_visit(3)] by simp
      ultimately show ?thesis by (simp add: drawn_def)
    next
      case False
      from vb(2)[OF False] False app_next(4) have "bag_of token s \<noteq> None" by (cases rule: bag_step.cases) auto
      with app_next(3) drawn_mono[OF grow] show ?thesis by blast
    qed
  qed (use l app_next(3,4) background_bag[OF _ ok, of _ token] in auto)
qed

text \<open>C6: the studio refines the bag of favourites, for every visitor and every step: the label of the
  step determines the abstract event, and the bag takes that event's step.\<close>
theorem favourites_refine:
  assumes "app_reachable L tok s" "app_does L tok l s s'"
  shows "bag_step (gl_sha256 L) (event L token l s) (bag_of token s) (bag_of token s')"
proof -
  note ok = app_reachable_ok[OF assms(1)]
  show ?thesis
    using assms(2)
  proof (cases rule: app_does.cases)
    case (does_visit E a t io)
    note vb = visit_bag[OF ok does_visit(3,4,2) refl, of token]
    show ?thesis
    proof (cases "request_event E (manager_jobs L io (ev_now E)) token t a s = Open")
      case True
      note v = vb(1)[OF True]
      then have "token = tok (so_drawn s)" using does_visit(4) env_okD(2)[OF does_visit(3)] by simp
      then have "token \<notin> drawn tok (so_drawn s)"
        using env_okD(4)[OF does_visit(3)] by (auto simp: drawn_def dest: injD)
      then have "bag_of token s = None" using sessions_drawn[OF assms(1)] by blast
      moreover have "bag_of token s' = Some {#}" using v by blast
      moreover have "event L token l s = Open" using True by (simp add: event_def does_visit(1))
      ultimately show ?thesis by (simp only: bag_open)
    qed (use vb in \<open>simp add: event_def does_visit(1)\<close>)
  qed (use assms(2) background_bag[OF _ ok, of _ token] in \<open>auto simp: event_def bag_keep\<close>)
qed

text \<open>The demonstration session restores one favourite.\<close>

theorem favourites_refine_witness:
  "bag_step id (Fill {''canon''}) (bag_of (demo_tok 0) demo_created) (bag_of (demo_tok 0) demo_store)
     \<and> bag_of (demo_tok 0) demo_created = Some {#} \<and> bag_of (demo_tok 0) demo_store = Some {#''canon''#}"
proof -
  let ?l = "Visit (demo_env 0) demo_io (demo_tok 0) (AskRestore [''short''])"
  have res: "studio_restore (demo_env 0) J (demo_tok 0) [''short''] demo_created = (demo_store, Inr (demo_tok 2))" for J
    by (rule demo_restore)
  have "app_does demo_lib demo_tok ?l demo_created (ask_run (demo_env 0) (manager_jobs demo_lib demo_io (ev_now (demo_env 0)))
      (demo_tok 0) (AskRestore [''short'']) demo_created)"
    by (rule does_visit) (simp_all add: demo_env_ok)
  then have d: "app_does demo_lib demo_tok ?l demo_created demo_store" by (simp add: res)
  have c: "canonicals demo_lib [''short''] = {''canon''}"
    by (auto simp: canonicals_def demo_validate) (simp add: demo_recipe_def)
  have "live 0 (demo_tok 0) demo_created"
    by (simp add: live_def demo_created_def demo_workspace_def ws_expired_def minute_def)
  then have e: "event demo_lib (demo_tok 0) ?l demo_created = Fill {''canon''}"
    by (simp add: event_def request_event_def res c)
  have h: "gl_sha256 demo_lib = id" by (intro ext) (simp add: demo_lib_def)
  from favourites_refine[OF demo_created_reachable d, of "demo_tok 0"]
  have r: "bag_step id (Fill {''canon''}) (bag_of (demo_tok 0) demo_created) (bag_of (demo_tok 0) demo_store)"
    by (simp add: e h)
  have "bag_of (demo_tok 0) demo_created = Some {#}" "bag_of (demo_tok 0) demo_store = Some {#''canon''#}"
    by (simp_all add: bag_of_def demo_store_def demo_created_def)
      (simp_all add: fav_recipes_def demo_workspace_def demo_exploration_def with_samples_def demo_sample_def
        restored_sample_def demo_recipe_def)
  with r show ?thesis by blast
qed

end
