(* ===== verification/Spec2Isabelle.thy ===== *)
theory Spec2Isabelle
  imports DurableServer StudioFavourites StudioLive
begin

text \<open>
  A development about \<open>go-graphics\<close>, a server and a set of tools that draw generative images from a
  64-bit seed, a set of named choices (traits) and a palette. It models what decides which image a
  visitor gets and when: the choices, their encoding as recipes, the render queue, and the sessions. The
  drawing of the pixels is an argument.

  How the parts interact. A visitor's session lives in the studio (\<open>internal/studio\<close>). A round of
  exploration asks \<open>internal/explore\<close> for four candidates, each a seed and a full set of traits; these come
  from weighted draws (\<open>internal/trait\<close>) with a generator seeded per candidate (\<open>internal/sketch\<close>), from a
  schema that \<open>internal/publish\<close> restricts to public choices. \<open>publish.Complete\<close> turns a candidate into a
  canonical recipe (\<open>internal/artwork\<close>), which is re-read and compared byte for byte. The batch goes to
  \<open>internal/renderjob\<close>: the manager admits it or rejects it as a whole, one worker renders job after job
  through a socket protocol, and the images live in a bounded cache of files with leases for readers. In
  front stands \<open>internal/web\<close>: HTTP handlers that admit a request, identify its session, call the studio and
  answer with a page, a redirect, an image or a stream of events.

  Theories, in the order of the imports:

  \<^item> \<open>Prelude\<close>: results (\<open>err + 'a\<close>, with \<open>bind_res\<close> and \<open>map_res\<close>), Go maps as association lists behind the
    locale \<open>go_map\<close> (interpreted as \<open>gm\<close>), sums and counts over their entries.
  \<^item> \<open>Float64\<close>, \<open>Rand\<close>, \<open>Strconv\<close>: binary64 addition, multiplication, comparison and rounding as exact
    rationals; PCG from \<open>math/rand/v2\<close> on words; decimal numbers.
  \<^item> \<open>Trait\<close> (\<open>internal/trait\<close>): dimensions, draws, schemas, boosting, overrides. Validation accepts exactly
    the well-formed schemas, and such a schema always derives a complete set.
  \<^item> \<open>Explore\<close> (\<open>internal/explore\<close>): candidates of a round and flock breeding.
  \<^item> \<open>Opt\<close> (\<open>internal/opt\<close>), \<open>Palette\<close> (\<open>internal/palette\<close>), \<open>Sketches\<close> (the schemas, knobs and configurations
    of the published artworks under \<open>internal/sketch\<close>, and the registry).
  \<^item> \<open>Artwork\<close> (\<open>internal/artwork/recipe.go\<close>): the strict JSON scanner and the codec of recipes. \<open>Catalog\<close>
    (\<open>internal/publish/catalog.go\<close>): the allowlist. \<open>Completion\<close> and \<open>Offers\<close>: what \<open>Complete\<close> promises, and
    that it succeeds on everything offered. \<open>WideLib\<close>: a library that meets the hypotheses about JSON.
  \<^item> \<open>Protocol\<close>, \<open>Manager\<close> (\<open>internal/renderjob\<close>): both ends of the socket protocol; the manager as a record,
    one definition per operation and per turn of the worker. \<open>ManagerInv\<close>, \<open>ManagerRun\<close>: the invariant and
    its preservation, the step relation \<open>mstep\<close>, reachable states. \<open>ManagerProps\<close>: its properties.
  \<^item> \<open>Policy\<close> (\<open>internal/limits/policy.go\<close>): operational limits from the environment. \<open>Limiter\<close> (the rate limiter
    of \<open>internal/web/web.go\<close>): token buckets in binary64, their bounds and what an instant grants.
  \<^item> \<open>Studio\<close> (\<open>internal/studio/studio.go\<close>): the store and all its operations. \<open>StudioQueue\<close>: the contract of
    the queue as the locale \<open>jobs_queue\<close>, interpreted on the manager as \<open>mq\<close>. \<open>StudioInv\<close>, \<open>StudioOps\<close>,
    \<open>StudioRestore\<close>: invariant, planning, committing, every operation, recovery. \<open>StudioRuns\<close>: requests,
    worker and map order as one step relation \<open>app_step\<close>, its reachable states, isolation. \<open>StudioSession\<close>,
    \<open>StudioProps\<close>, \<open>StudioLive\<close>: properties, and success of generation. \<open>StudioBag\<close>, \<open>StudioFavourites\<close>: the
    favourites of a visitor as an abstract bag with its events, what every operation does to it, and the
    refinement: the label of a step (who asks what, when) determines the event of every visitor's bag.
  \<^item> \<open>Web\<close> (\<open>internal/web\<close>): every handler, the startup checks, event streams and image readers. \<open>WebPaths\<close>: the
    paths of a handler, and what events and responses should be; \<open>WebRules\<close>: one lemma per handler that it
    behaves so. \<open>WebProps\<close>: what a request may do, what a response looks like. \<open>Server\<close>: the handlers in
    flight over one studio in memory (the configuration of the tests). \<open>DurableServer\<close>: the web process of the
    deployment, its handlers in flight over the world of \<open>DurableWorld\<close>, every call one transaction or one
    request to the bucket, with all slots and bytes that it counts, refinement and progress.
  \<^item> \<open>Durable\<close> (\<open>internal/persistence\<close>: \<open>queue.go\<close>, \<open>read.go\<close>, \<open>database.go\<close>, \<open>instances.go\<close>, \<open>events.go\<close>): the
    tables and the transactions of the web processes. \<open>Objects\<close> (\<open>internal/objectstore\<close>): the bucket of images.
    \<open>DurableWork\<close> (\<open>worker.go\<close>, \<open>maintenance.go\<close>): an attempt at a job and a maintenance run as machines whose
    steps are single transactions or calls. \<open>DurableStudio\<close> (\<open>internal/studio/persistent.go\<close>): every operation of
    the studio as one transaction over its stored workspace.
  \<^item> \<open>JobsSteps\<close>: the locale \<open>jobs_steps\<close> of a queue whose operations keep a relation, for every operation of the
    studio; interpreted on the manager as \<open>mj\<close> and, in \<open>DurableMoves\<close>, on the durable queue as \<open>dq\<close>.
    \<open>DurableWorld\<close>: one database and one bucket under any interleaving of web processes, workers, maintenance
    runs and River as the step relation \<open>durable_step\<close>, with the invariant of storage; \<open>DurableSteps\<close>: every step
    keeps it; \<open>DurableFence\<close>: limits of the tables, and what a new generation does to an attempt under way.
  \<^item> \<open>DurableProps\<close>, \<open>DurableAdmit\<close>, \<open>DurableLive\<close>, \<open>DurableStored\<close>: images stay readable, limits, cancellation,
    admission, publication, the stored form of a workspace. \<open>DurableTrial\<close>: a run from an empty database to a
    published image, from which their witnesses are taken.

  How the model corresponds to the code. A struct is a record, a method a function from the old state to
  the new one; every method modelled here holds the mutex of its struct, so it is one step. The worker
  releases the mutex while it renders, so a turn is two steps, \<open>work_pick\<close> and \<open>work_finish\<close>, between which
  any other step may happen; \<open>ending\<close> says what the worker's two looks at its context saw, also a deadline that
  passes between them (then a job is ready without an image, \<open>publish_open_roundtrip\<close>). A pointer to a job that the worker keeps is the number \<open>j_ptr\<close>. The file system
  is a map from names to bytes, and every system call may fail as the argument of type \<open>sysio\<close> says. Go
  ranges over a map in any order: the step relations include every permutation of a map. Time is an argument
  of every operation. A panic is \<open>None\<close> or an error, and theorems show that none is reached where it matters.
  An HTTP handler holds no lock between its calls, so it is a tree of type \<open>handler\<close>: a node is a call with a
  continuation for every answer, a leaf is the response. A statement about all paths (\<open>does\<close>, \<open>along\<close>) holds
  whatever other requests do in between, for the studio in memory and for the one over a database;
  \<open>server_step\<close> answers the calls from the models of the studio in memory, the queue and the limiter, and
  \<open>process_step\<close> from the transactions of the durable deployment.

  The durable deployment. A table is a list of rows by primary key, a transaction a function of the database:
  the writers lock the row of \<open>art_control\<close> first, so they are serial, and a statement that is alone in its
  transaction is atomic. A statement may fail, which rolls its transaction back (\<open>de_fault\<close>), and a commit may
  fail with or without having taken place (\<open>de_commit\<close>). Between two transactions of a worker or a maintenance
  run every other step may happen, and the clock is arbitrary. River's own table changes arbitrarily in the
  step relation; its operations are the record \<open>river\<close>.

  Bounds and fuel. Loops that end by structure are structural; evictions are functions with a measure. The
  worker's loop \<open>work_drain\<close> takes one turn per element of a list of environments, and \<open>worker_drains\<close> shows
  that as many turns as queued jobs suffice. \<open>public\<close> has the 128 attempts of the code, and \<open>StudioLive\<close> shows
  that a session never exhausts them. JSON nesting is bounded by 17 levels as in the code.

  What is assumed of code outside the repository, always as hypotheses: \<open>json_faithful\<close> and \<open>encodes\<close> of
  \<open>encoding/json\<close> (decoding the encoding of a complete public choice gives it back, up to bytes of the palette
  that are not UTF-8; an encoding of choices fits the limit), \<open>nested\<close> (its tokenizer nests its delimiters), an
  injective stream of session tokens, and the results of system calls. \<open>WideLib\<close> and \<open>ManagerProps\<close> give
  instances. For the database, \<open>env_ok\<close> of \<open>DurableWorld\<close> (an execution id is 48 digits not drawn before, \<open>md5\<close>
  gives 32), \<open>river_inserts\<close> (an insertion adds one available job with a new number) and \<open>json_law\<close> of the one
  value that is stored; \<open>DurableTrial\<close> gives instances. Success of generation needs \<open>room\<close> in the manager for four
  jobs. Addresses, parsed forms and the JSON of recovery files are arguments of the web server with no
  hypotheses at all.

  Not modelled, and why. The drawings, image encoding and colour arithmetic are numerical code whose result
  is a picture, with no statement short of the picture; \<open>internal/rnd\<close> only serves them. Of \<open>internal/persistence\<close>, opening and configuring pools and River clients, the loops
  around heartbeat and listener, notifications (wake-ups without authority) and the read-only reports of
  \<open>monitor.go\<close> and \<open>loadstats.go\<close> are left out; of \<open>internal/objectstore\<close>, the credentials file and the calls
  that only forward. The HTML templates and what \<open>net/http\<close> does with a response (conditional and range requests of
  \<open>ServeContent\<close>, redirects of the file server) are not modelled.
  \<open>internal/logging\<close> only formats; \<open>cmd\<close> and \<open>tools\<close> wire processes.
\<close>

end
